(* ===== verification/Prelude.thy ===== *)
theory Prelude
  imports Complex_Main "HOL-Library.AList"
begin

section \<open>Prelude: Python values, dictionaries and event machines\<close>

text \<open>
  What every component of the development shares.

  \<^item> Python's \<^verbatim>\<open>str\<close> is a list of code points (\<open>pystr\<close>); a literal of the source is written
    \<open>lit ''...''\<close>. \<^verbatim>\<open>startswith\<close>, \<^verbatim>\<open>strip\<close>, \<^verbatim>\<open>split(sep, 1)\<close>, \<^verbatim>\<open>join\<close> and the decimal
    rendering of a counter are modelled here on all code points.
  \<^item> A Python \<^verbatim>\<open>dict\<close> keeps insertion order: it is an association list with \<open>dict_set\<close>,
    \<open>dict_get\<close> and \<open>dict_pop\<close>.
  \<^item> Floats are exact rationals with the three special values; the components only compare,
    add and multiply them, and binary rounding is not modelled.
  \<^item> \<open>event_machine\<close> and \<open>ordered_machine\<close> are the interfaces of every stateful component:
    one law for a single operation gives the invariant, or a monotonicity relation, for every
    sequence of operations.
\<close>

named_theorems py_simps "evaluation of Python string primitives"
named_theorems machine_defs "definitions unfolded in one-step invariant proofs"

subsection \<open>Strings\<close>

type_synonym pystr = "nat list"

definition lit :: "string \<Rightarrow> pystr" where
  "lit s = map of_char s"

lemma lit_Nil [simp]: "lit [] = []"
  by (simp add: lit_def)

lemma lit_eq_Nil [simp]: "lit s = [] \<longleftrightarrow> s = []"
  by (simp add: lit_def)

lemma lit_inject [simp]: "lit s = lit t \<longleftrightarrow> s = t"
  by (simp add: lit_def inj_map_eq_map inj_def)

lemma length_lit [simp]: "length (lit s) = length s"
  by (simp add: lit_def)

lemma lit_append: "lit (s @ t) = lit s @ lit t"
  by (simp add: lit_def)

fun py_startswith :: "'a list \<Rightarrow> 'a list \<Rightarrow> bool" where
  "py_startswith s [] = True"
| "py_startswith [] (p # ps) = False"
| "py_startswith (x # xs) (p # ps) = (x = p \<and> py_startswith xs ps)"

lemma py_startswith_iff: "py_startswith s p \<longleftrightarrow> (\<exists>r. s = p @ r)"
  by (induction s p rule: py_startswith.induct) auto

lemma py_startswith_take: "py_startswith s p \<longleftrightarrow> take (length p) s = p"
  by (induction s p rule: py_startswith.induct) auto

lemma py_startswith_lit [simp]: "py_startswith (lit s) (lit p) = py_startswith s p"
proof (induction s p rule: py_startswith.induct)
  case (3 x xs p ps)
  then show ?case by (simp add: lit_def)
qed (simp_all add: lit_def)

fun py_endswith :: "'a list \<Rightarrow> 'a list \<Rightarrow> bool" where
  "py_endswith s p = py_startswith (rev s) (rev p)"

text \<open>The code points for which \<^verbatim>\<open>str.isspace\<close> holds, which \<^verbatim>\<open>str.strip()\<close> removes.\<close>

definition py_isspace :: "nat \<Rightarrow> bool" where
  "py_isspace c \<longleftrightarrow>
     9 \<le> c \<and> c \<le> 13 \<or> 28 \<le> c \<and> c \<le> 32 \<or> c = 133 \<or> c = 160 \<or> c = 5760
     \<or> 8192 \<le> c \<and> c \<le> 8202 \<or> c = 8232 \<or> c = 8233 \<or> c = 8239 \<or> c = 8287 \<or> c = 12288"

definition py_strip :: "pystr \<Rightarrow> pystr" where
  "py_strip s = rev (dropWhile py_isspace (rev (dropWhile py_isspace s)))"

lemma dropWhile_idem [simp]: "dropWhile P (dropWhile P xs) = dropWhile P xs"
  by (induction xs) auto

lemma dropWhile_eq_self_iff: "dropWhile P xs = xs \<longleftrightarrow> xs = [] \<or> \<not> P (hd xs)"
proof (cases xs)
  case (Cons x ys)
  have "dropWhile P ys \<noteq> x # ys"
    by (metis impossible_Cons length_dropWhile_le)
  then show ?thesis using Cons by auto
qed simp

lemma hd_rev_dropWhile_rev:
  "dropWhile P (rev ys) \<noteq> [] \<Longrightarrow> hd (rev (dropWhile P (rev ys))) = hd ys"
proof -
  assume ne: "dropWhile P (rev ys) \<noteq> []"
  have "rev ys = takeWhile P (rev ys) @ dropWhile P (rev ys)"
    by simp
  then have "rev (rev ys) = rev (takeWhile P (rev ys) @ dropWhile P (rev ys))"
    by (rule arg_cong)
  then have "ys = rev (dropWhile P (rev ys)) @ rev (takeWhile P (rev ys))"
    by (simp only: rev_append rev_rev_ident)
  with ne show ?thesis
    by (metis hd_append2 rev_is_Nil_conv)
qed

lemma py_strip_idem [simp]: "py_strip (py_strip s) = py_strip s"
proof -
  let ?l = "dropWhile py_isspace s"
  let ?m = "rev (dropWhile py_isspace (rev ?l))"
  have "dropWhile py_isspace ?m = ?m"
  proof (cases "?m = []")
    case False
    then have "hd ?m = hd ?l"
      by (intro hd_rev_dropWhile_rev) (simp only: rev_is_Nil_conv not_False_eq_True)
    moreover from False have "?l \<noteq> []" by force
    moreover from \<open>?l \<noteq> []\<close> have "\<not> py_isspace (hd ?l)"
      by (rule hd_dropWhile)
    ultimately show ?thesis
      by (metis dropWhile_eq_self_iff)
  next
    case True
    then show ?thesis by (simp only: dropWhile.simps)
  qed
  then show ?thesis by (simp add: py_strip_def)
qed

lemma py_strip_eq_Nil: "py_strip s = [] \<longleftrightarrow> (\<forall>c \<in> set s. py_isspace c)"
proof -
  have "(\<forall>c \<in> set (dropWhile py_isspace s). py_isspace c) \<longleftrightarrow> (\<forall>c \<in> set s. py_isspace c)"
    by (induction s) auto
  then show ?thesis by (simp add: py_strip_def)
qed

text \<open>\<^verbatim>\<open>s.split(sep, 1)\<close> for a one-character separator that occurs in \<open>s\<close>.\<close>

definition split_first :: "nat \<Rightarrow> pystr \<Rightarrow> pystr \<times> pystr" where
  "split_first c s = (takeWhile (\<lambda>x. x \<noteq> c) s, tl (dropWhile (\<lambda>x. x \<noteq> c) s))"

lemma split_first_join: "c \<in> set s \<Longrightarrow> split_first c s = (a, b) \<Longrightarrow> s = a @ c # b"
proof (induction s arbitrary: a)
  case (Cons x xs)
  then show ?case
    by (cases "x = c") (auto simp: split_first_def)
qed simp

fun py_join :: "'a list \<Rightarrow> 'a list list \<Rightarrow> 'a list" where
  "py_join sep [] = []"
| "py_join sep [x] = x"
| "py_join sep (x # y # ys) = x @ sep @ py_join sep (y # ys)"

lemma py_join_snoc: "xs \<noteq> [] \<Longrightarrow> py_join sep (xs @ [x]) = py_join sep xs @ sep @ x"
proof (induction sep xs rule: py_join.induct)
  case (3 sep x' y ys)
  then show ?case by simp
qed auto

text \<open>Decimal rendering of a non-negative integer, \<^verbatim>\<open>str(n)\<close>.\<close>

fun py_str_nat :: "nat \<Rightarrow> pystr" where
  "py_str_nat n = (if n < 10 then [48 + n] else py_str_nat (n div 10) @ [48 + n mod 10])"

declare py_str_nat.simps [simp del]

lemma py_str_nat_nonempty [simp]: "py_str_nat n \<noteq> []" "[] \<noteq> py_str_nat n"
  by (subst py_str_nat.simps, simp)+

lemma py_str_nat_digits: "\<forall>d \<in> set (py_str_nat n). 48 \<le> d \<and> d < 58"
proof (induction n rule: py_str_nat.induct)
  case (1 n)
  then show ?case by (subst py_str_nat.simps) auto
qed

lemma py_str_nat_inject: "py_str_nat m = py_str_nat n \<Longrightarrow> m = n"
proof (induction m arbitrary: n rule: py_str_nat.induct)
  case (1 m)
  consider "m < 10" "n < 10" | "m < 10" "\<not> n < 10" | "\<not> m < 10" "n < 10"
    | "\<not> m < 10" "\<not> n < 10" by blast
  then show ?case
  proof cases
    case 4
    with "1.prems" have "py_str_nat (m div 10) = py_str_nat (n div 10)" and "m mod 10 = n mod 10"
      by (auto simp: py_str_nat.simps [of m] py_str_nat.simps [of n])
    moreover from this(1) 4 have "m div 10 = n div 10"
      by (intro "1.IH") auto
    ultimately show ?thesis
      by (metis div_mult_mod_eq)
  qed (use "1.prems" in \<open>auto simp: py_str_nat.simps [of m] py_str_nat.simps [of n]\<close>)
qed

subsection \<open>Floats\<close>

datatype pyfloat = Finite rat | PosInf | NegInf | NotANumber

fun py_isfinite :: "pyfloat \<Rightarrow> bool" where
  "py_isfinite (Finite _) = True"
| "py_isfinite _ = False"

subsection \<open>Insertion-ordered dictionaries\<close>

type_synonym ('k, 'v) dict = "('k \<times> 'v) list"

abbreviation dict_get :: "('k, 'v) dict \<Rightarrow> 'k \<Rightarrow> 'v option" where
  "dict_get d k \<equiv> map_of d k"

fun dict_set :: "'k \<Rightarrow> 'v \<Rightarrow> ('k, 'v) dict \<Rightarrow> ('k, 'v) dict" where
  "dict_set k v [] = [(k, v)]"
| "dict_set k v ((k', v') # d) = (if k' = k then (k, v) # d else (k', v') # dict_set k v d)"

definition dict_pop :: "'k \<Rightarrow> ('k, 'v) dict \<Rightarrow> ('k, 'v) dict" where
  "dict_pop k d = filter (\<lambda>(k', _). k' \<noteq> k) d"

abbreviation dict_keys :: "('k, 'v) dict \<Rightarrow> 'k list" where
  "dict_keys d \<equiv> map fst d"

lemma map_of_dict_set [simp]: "dict_get (dict_set k v d) = (dict_get d)(k \<mapsto> v)"
  by (induction d) (auto simp: fun_eq_iff)

lemma dict_set_fresh: "k \<notin> set (dict_keys d) \<Longrightarrow> dict_set k v d = d @ [(k, v)]"
  by (induction k v d rule: dict_set.induct) auto

lemma dict_keys_set: "dict_keys (dict_set k v d) = (if k \<in> set (dict_keys d) then dict_keys d else dict_keys d @ [k])"
  by (induction k v d rule: dict_set.induct) auto

lemma distinct_dict_set [simp]: "distinct (dict_keys d) \<Longrightarrow> distinct (dict_keys (dict_set k v d))"
  by (simp add: dict_keys_set)

lemma map_of_dict_pop [simp]: "dict_get (dict_pop k d) = (dict_get d)(k := None)"
proof (induction d)
  case (Cons p d)
  then show ?case by (cases p) (auto simp: dict_pop_def fun_eq_iff)
qed (simp add: dict_pop_def)

lemma dict_pop_keys: "dict_keys (dict_pop k d) = filter (\<lambda>x. x \<noteq> k) (dict_keys d)"
  by (induction d) (auto simp: dict_pop_def)

lemma distinct_dict_pop [simp]: "distinct (dict_keys d) \<Longrightarrow> distinct (dict_keys (dict_pop k d))"
  by (simp add: dict_pop_keys)

lemma length_dict_pop_le: "length (dict_pop k d) \<le> length d"
  by (simp add: dict_pop_def)

lemma set_dict_pop_subset: "set (dict_pop k d) \<subseteq> set d"
  by (auto simp: dict_pop_def)

lemma length_dict_set: "length (dict_set k v d) = (if k \<in> fst ` set d then length d else Suc (length d))"
  by (induction k v d rule: dict_set.induct) auto

lemma set_dict_set: "set (dict_set k v d) \<subseteq> insert (k, v) (set d)"
  by (induction k v d rule: dict_set.induct) auto

subsection \<open>State, exceptions and sequencing\<close>

text \<open>
  Code that changes a state and may raise is a function from the state to the state it leaves and
  either the exception or the value. \<open>wp m Q E s\<close> holds when running \<open>m\<close> in \<open>s\<close> ends in a value with
  \<open>Q\<close> or in an exception with \<open>E\<close>.
\<close>

type_synonym ('s, 'e, 'a) action = "'s \<Rightarrow> 's \<times> ('e + 'a)"

definition ret :: "'a \<Rightarrow> ('s, 'e, 'a) action" where
  "ret x = (\<lambda>s. (s, Inr x))"

definition raise :: "'e \<Rightarrow> ('s, 'e, 'a) action" where
  "raise e = (\<lambda>s. (s, Inl e))"

definition and_then :: "('s, 'e, 'a) action \<Rightarrow> ('a \<Rightarrow> ('s, 'e, 'b) action) \<Rightarrow> ('s, 'e, 'b) action" where
  "and_then m k = (\<lambda>s. case m s of (s', Inl e) \<Rightarrow> (s', Inl e) | (s', Inr x) \<Rightarrow> k x s')"

definition wp :: "('s, 'e, 'a) action \<Rightarrow> ('a \<Rightarrow> 's \<Rightarrow> bool) \<Rightarrow> ('e \<Rightarrow> 's \<Rightarrow> bool) \<Rightarrow> 's \<Rightarrow> bool" where
  "wp m Q E s = (case m s of (s', Inl e) \<Rightarrow> E e s' | (s', Inr x) \<Rightarrow> Q x s')"

lemma ret_eq [simp]: "ret x s = (s, Inr x)"
  by (simp add: ret_def)

lemma raise_eq [simp]: "raise e s = (s, Inl e)"
  by (simp add: raise_def)

lemma and_then_Inr: "and_then m k s = (s', Inr y) \<longleftrightarrow> (\<exists>s1 x. m s = (s1, Inr x) \<and> k x s1 = (s', Inr y))"
  by (auto simp: and_then_def split: prod.split sum.splits)

lemma and_then_Inl:
  "and_then m k s = (s', Inl e) \<longleftrightarrow> m s = (s', Inl e) \<or> (\<exists>s1 x. m s = (s1, Inr x) \<and> k x s1 = (s', Inl e))"
  by (auto simp: and_then_def split: prod.split sum.splits)

lemma wp_ret [simp]: "wp (ret x) Q E = Q x"
  by (simp add: wp_def fun_eq_iff)

lemma wp_raise [simp]: "wp (raise e) Q E = E e"
  by (simp add: wp_def fun_eq_iff)

lemma wp_and_then [simp]: "wp (and_then m k) Q E = wp m (\<lambda>x. wp (k x) Q E) E"
  by (auto simp: fun_eq_iff wp_def and_then_def split: prod.split sum.split)

lemma wp_if [simp]: "wp (if b then m else n) Q E s = (if b then wp m Q E s else wp n Q E s)"
  by simp

lemma wp_mono:
  assumes "wp m Q E s" "\<And>x s'. Q x s' \<Longrightarrow> Q' x s'" "\<And>e s'. E e s' \<Longrightarrow> E' e s'"
  shows "wp m Q' E' s"
  using assms by (auto simp: wp_def split: prod.splits sum.splits)

subsection \<open>Event machines\<close>

text \<open>
  A component with state is a step function; a run is the left fold of its steps. The law of
  \<open>event_machine\<close> is what each component proves of one operation.
\<close>

locale event_machine =
  fixes step :: "'s \<Rightarrow> 'e \<Rightarrow> 's"
    and inv :: "'s \<Rightarrow> bool"
  assumes step_inv: "inv s \<Longrightarrow> inv (step s e)"
begin

lemma run_inv: "inv s \<Longrightarrow> inv (foldl step s es)"
  by (induction es arbitrary: s) (auto intro: step_inv)

lemma run_inv_prefix: "inv s \<Longrightarrow> es = es\<^sub>1 @ es\<^sub>2 \<Longrightarrow> inv (foldl step s es\<^sub>1)"
  by (rule run_inv)

end

locale ordered_machine = event_machine +
  fixes rel :: "'s \<Rightarrow> 's \<Rightarrow> bool"
  assumes rel_refl: "rel s s"
    and rel_trans: "rel s t \<Longrightarrow> rel t u \<Longrightarrow> rel s u"
    and step_rel: "inv s \<Longrightarrow> rel s (step s e)"
begin

lemma run_rel: "inv s \<Longrightarrow> rel s (foldl step s es)"
proof (induction es arbitrary: s)
  case Nil
  show ?case by (simp add: rel_refl)
next
  case (Cons e es)
  then have "rel s (step s e)" and "rel (step s e) (foldl step (step s e) es)"
    by (auto intro: step_rel step_inv)
  then show ?case by (auto intro: rel_trans)
qed

lemma run_rel_between: "inv s \<Longrightarrow> rel (foldl step s es\<^sub>1) (foldl step s (es\<^sub>1 @ es\<^sub>2))"
  using run_rel [of "foldl step s es\<^sub>1" es\<^sub>2] run_inv [of s es\<^sub>1] by simp

end

end
