(* ===== verification/Codex_Cli.thy ===== *)
theory Codex_Cli
  imports Prelude
begin

section \<open>The Codex top-level command-line contract\<close>

text \<open>
  \<^verbatim>\<open>src/codex_cli_contract/contract.py\<close> and the 0.151.0 snapshot in \<^verbatim>\<open>v0_151_0.py\<close>: the
  declarative option table with its construction checks (\<open>make_contract\<close> is
  \<^verbatim>\<open>__post_init__\<close>), token matching, and \<open>classify\<close>, the one pass that decides whether an
  argument vector belongs inside managed Rodex. The \<^verbatim>\<open>while\<close> loop over an index is
  \<open>classify_loop\<close> over the remaining arguments together with that index; the set of seen
  options is a list used only through membership.

  The abstract specification is the grammar \<open>interactive_args\<close>, an inductive predicate that
  never mentions indices or early returns; \<open>classify\<close> implements it.
\<close>

subsection \<open>Data\<close>

datatype codex_cli_route = MANAGED_INTERACTIVE | RESUME_SELECTOR | PASSTHROUGH

datatype codex_cli_classification_reason =
    INTERACTIVE | EXPLICIT_RESUME | SUBCOMMAND | DIRECT_OPTION | UNKNOWN_OPTION
  | MALFORMED_OPTION | CONFLICTING_OPTIONS | MULTIPLE_POSITIONALS

datatype codex_option_value_arity = ARITY_NONE | ARITY_ONE | ARITY_ONE_OR_MORE

record codex_cli_option_spec =
  opt_name :: pystr
  opt_tokens :: "pystr list"
  opt_value_arity :: codex_option_value_arity
  opt_managed_interactive :: bool

record codex_cli_invocation =
  cinv_arguments :: "pystr list"
  cinv_route :: codex_cli_route
  cinv_reason :: codex_cli_classification_reason
  cinv_selector_candidate :: "pystr option"
  cinv_prompt_index :: "nat option"

record codex_cli_contract =
  characterized_release :: pystr
  command_tokens :: "pystr list"
  option_specs :: "codex_cli_option_spec list"
  options_by_token :: "(pystr, codex_cli_option_spec) dict"

datatype contract_error = BadOptionToken | DuplicateOptionToken pystr | BadCommandToken

subsection \<open>Construction\<close>

fun index_spec_tokens ::
    "codex_cli_option_spec \<Rightarrow> pystr list \<Rightarrow> (pystr, codex_cli_option_spec) dict
       \<Rightarrow> contract_error + (pystr, codex_cli_option_spec) dict" where
  "index_spec_tokens spec [] d = Inr d"
| "index_spec_tokens spec (t # ts) d =
     (if t \<in> set (dict_keys d) then Inl (DuplicateOptionToken t)
      else index_spec_tokens spec ts (dict_set t spec d))"

fun index_options ::
    "codex_cli_option_spec list \<Rightarrow> (pystr, codex_cli_option_spec) dict
       \<Rightarrow> contract_error + (pystr, codex_cli_option_spec) dict" where
  "index_options [] d = Inr d"
| "index_options (spec # specs) d =
     (if opt_tokens spec = [] \<or> (\<exists>t \<in> set (opt_tokens spec). \<not> py_startswith t (lit ''-''))
      then Inl BadOptionToken
      else case index_spec_tokens spec (opt_tokens spec) d of
             Inl e \<Rightarrow> Inl e
           | Inr d' \<Rightarrow> index_options specs d')"

definition make_contract ::
    "pystr \<Rightarrow> pystr list \<Rightarrow> codex_cli_option_spec list \<Rightarrow> contract_error + codex_cli_contract" where
  "make_contract release commands specs =
     (case index_options specs [] of
        Inl e \<Rightarrow> Inl e
      | Inr d \<Rightarrow>
          if (\<exists>c \<in> set commands. c = [] \<or> py_startswith c (lit ''-'')) then Inl BadCommandToken
          else Inr \<lparr>characterized_release = release, command_tokens = commands,
                    option_specs = specs, options_by_token = d\<rparr>)"

subsection \<open>Classification\<close>

definition match_option ::
    "codex_cli_contract \<Rightarrow> pystr \<Rightarrow> (codex_cli_option_spec \<times> pystr option) option" where
  "match_option c token =
     (case dict_get (options_by_token c) token of
        Some exact \<Rightarrow> Some (exact, None)
      | None \<Rightarrow>
          if py_startswith token (lit ''--'') \<and> 61 \<in> set token then
            (let (name, inline_value) = split_first 61 token in
             case dict_get (options_by_token c) name of
               Some spec \<Rightarrow> Some (spec, Some inline_value)
             | None \<Rightarrow> None)
          else if py_startswith token (lit ''-'') \<and> \<not> py_startswith token (lit ''--'') \<and> 2 < length token then
            (case dict_get (options_by_token c) (take 2 token) of
               Some spec \<Rightarrow>
                 if opt_value_arity spec \<noteq> ARITY_NONE then Some (spec, Some (drop 2 token)) else None
             | None \<Rightarrow> None)
          else None)"

definition passthrough ::
    "pystr list \<Rightarrow> codex_cli_classification_reason \<Rightarrow> codex_cli_invocation" where
  "passthrough args reason =
     \<lparr>cinv_arguments = args, cinv_route = PASSTHROUGH, cinv_reason = reason,
      cinv_selector_candidate = None, cinv_prompt_index = None\<rparr>"

definition managed_option_conflict :: "pystr list \<Rightarrow> bool" where
  "managed_option_conflict seen \<longleftrightarrow>
     (let automatic = lit ''approve-for-me'';
          bypass = lit ''dangerously-bypass-approvals-and-sandbox'';
          manual_controls = {lit ''ask-for-approval'', lit ''sandbox''}
      in automatic \<in> set seen \<and> (manual_controls \<union> {bypass}) \<inter> set seen \<noteq> {}
         \<or> bypass \<in> set seen \<and> manual_controls \<inter> set seen \<noteq> {})"

text \<open>The option values that one multi-value option takes: up to the next dash token.\<close>

definition is_value :: "pystr \<Rightarrow> bool" where
  "is_value v \<longleftrightarrow> \<not> (v = lit ''--'' \<or> py_startswith v (lit ''-''))"

text \<open>One iteration of the loop: reject, take the rest verbatim, take an option together with
  its values (how many arguments it consumes), or take one positional.\<close>

datatype step_outcome =
    StepReject codex_cli_classification_reason
  | StepVerbatim
  | StepOption pystr nat
  | StepPositional

definition classify_option_step ::
    "codex_cli_option_spec \<Rightarrow> pystr option \<Rightarrow> pystr list \<Rightarrow> step_outcome" where
  "classify_option_step spec inline_value rest =
     (if \<not> opt_managed_interactive spec then StepReject DIRECT_OPTION
      else case opt_value_arity spec of
        ARITY_NONE \<Rightarrow>
          (if inline_value \<noteq> None then StepReject MALFORMED_OPTION else StepOption (opt_name spec) 1)
      | ARITY_ONE \<Rightarrow>
          (case inline_value of
             Some v \<Rightarrow> if v = [] then StepReject MALFORMED_OPTION else StepOption (opt_name spec) 1
           | None \<Rightarrow>
               (case rest of
                  [] \<Rightarrow> StepReject MALFORMED_OPTION
                | v # _ \<Rightarrow>
                    if py_startswith v (lit ''-'') then StepReject MALFORMED_OPTION
                    else StepOption (opt_name spec) 2))
      | ARITY_ONE_OR_MORE \<Rightarrow>
          (if inline_value = Some [] then StepReject MALFORMED_OPTION
           else let values = takeWhile is_value rest;
                    consumed = (if inline_value \<noteq> None then 1 else 0) + length values
                in if consumed = 0 then StepReject MALFORMED_OPTION
                   else StepOption (opt_name spec) (1 + length values)))"

definition classify_step :: "codex_cli_contract \<Rightarrow> bool \<Rightarrow> pystr \<Rightarrow> pystr list \<Rightarrow> step_outcome" where
  "classify_step c no_positionals token rest =
     (if token = lit ''--'' then StepVerbatim
      else case match_option c token of
        Some (spec, inline_value) \<Rightarrow> classify_option_step spec inline_value rest
      | None \<Rightarrow>
          if py_startswith token (lit ''-'') then StepReject UNKNOWN_OPTION
          else if no_positionals \<and> token \<in> set (command_tokens c) then StepReject SUBCOMMAND
          else StepPositional)"

datatype classify_outcome =
    Rejected codex_cli_classification_reason
  | Parsed "pystr list" "nat list" "pystr list"

function classify_loop ::
    "codex_cli_contract \<Rightarrow> nat \<Rightarrow> pystr list \<Rightarrow> pystr list \<Rightarrow> nat list \<Rightarrow> pystr list \<Rightarrow> classify_outcome" where
  "classify_loop c index [] positionals indices seen = Parsed positionals indices seen"
| "classify_loop c index (token # rest) positionals indices seen =
     (case classify_step c (positionals = []) token rest of
        StepReject reason \<Rightarrow> Rejected reason
      | StepVerbatim \<Rightarrow>
          Parsed (positionals @ rest) (indices @ [index + 1 ..< index + 1 + length rest]) seen
      | StepOption name n \<Rightarrow>
          classify_loop c (index + n) (drop (n - 1) rest) positionals indices (seen @ [name])
      | StepPositional \<Rightarrow>
          classify_loop c (index + 1) rest (positionals @ [token]) (indices @ [index]) seen)"
  by pat_completeness auto
termination
  by (relation "measure (\<lambda>(c, index, rest, _). length rest)") auto

definition classify :: "codex_cli_contract \<Rightarrow> pystr list \<Rightarrow> codex_cli_invocation" where
  "classify c args =
     (if length args = 2 \<and> args ! 0 = lit ''resume'' \<and> args ! 1 \<noteq> [] \<and> \<not> py_startswith (args ! 1) (lit ''-'')
      then \<lparr>cinv_arguments = args, cinv_route = RESUME_SELECTOR, cinv_reason = EXPLICIT_RESUME,
            cinv_selector_candidate = Some (args ! 1), cinv_prompt_index = None\<rparr>
      else case classify_loop c 0 args [] [] [] of
        Rejected reason \<Rightarrow> passthrough args reason
      | Parsed positionals indices seen \<Rightarrow>
          if managed_option_conflict seen then passthrough args CONFLICTING_OPTIONS
          else if 1 < length positionals then passthrough args MULTIPLE_POSITIONALS
          else \<lparr>cinv_arguments = args, cinv_route = MANAGED_INTERACTIVE, cinv_reason = INTERACTIVE,
                cinv_selector_candidate =
                  (if length args = 1 \<and> positionals = [args ! 0] then Some (args ! 0) else None),
                cinv_prompt_index = (if length indices = 1 then Some (indices ! 0) else None)\<rparr>)"

subsection \<open>The 0.151.0 snapshot\<close>

definition codex_cli_0_151_0_command_tokens :: "pystr list" where
  "codex_cli_0_151_0_command_tokens =
     map lit [''a'', ''agents'', ''app-server'', ''apply'', ''archive'', ''cloud'', ''completion'',
       ''debug'', ''delete'', ''doctor'', ''e'', ''exec'', ''exec-server'', ''features'', ''fork'',
       ''help'', ''login'', ''logout'', ''mcp'', ''mcp-server'', ''migrate-rollouts'', ''plugin'',
       ''queue'', ''remote-control'', ''resume'', ''review'', ''sandbox'', ''unarchive'', ''update'']"

definition option_spec ::
    "string \<Rightarrow> string list \<Rightarrow> codex_option_value_arity \<Rightarrow> bool \<Rightarrow> codex_cli_option_spec" where
  "option_spec name tokens arity managed =
     \<lparr>opt_name = lit name, opt_tokens = map lit tokens, opt_value_arity = arity,
      opt_managed_interactive = managed\<rparr>"

definition codex_cli_0_151_0_option_specs :: "codex_cli_option_spec list" where
  "codex_cli_0_151_0_option_specs =
     [option_spec ''config'' [''-c'', ''--config''] ARITY_ONE True,
      option_spec ''enable'' [''--enable''] ARITY_ONE True,
      option_spec ''disable'' [''--disable''] ARITY_ONE True,
      option_spec ''remote'' [''--remote''] ARITY_ONE False,
      option_spec ''remote-auth-token-env'' [''--remote-auth-token-env''] ARITY_ONE False,
      option_spec ''strict-config'' [''--strict-config''] ARITY_NONE True,
      option_spec ''image'' [''-i'', ''--image''] ARITY_ONE_OR_MORE True,
      option_spec ''model'' [''-m'', ''--model''] ARITY_ONE True,
      option_spec ''oss'' [''--oss''] ARITY_NONE True,
      option_spec ''local-provider'' [''--local-provider''] ARITY_ONE True,
      option_spec ''profile'' [''-p'', ''--profile''] ARITY_ONE True,
      option_spec ''sandbox'' [''-s'', ''--sandbox''] ARITY_ONE True,
      option_spec ''approve-for-me'' [''--approve-for-me''] ARITY_NONE True,
      option_spec ''dangerously-bypass-approvals-and-sandbox''
        [''--dangerously-bypass-approvals-and-sandbox''] ARITY_NONE True,
      option_spec ''dangerously-bypass-hook-trust'' [''--dangerously-bypass-hook-trust''] ARITY_NONE True,
      option_spec ''cd'' [''-C'', ''--cd''] ARITY_ONE True,
      option_spec ''add-dir'' [''--add-dir''] ARITY_ONE True,
      option_spec ''ask-for-approval'' [''-a'', ''--ask-for-approval''] ARITY_ONE True,
      option_spec ''search'' [''--search''] ARITY_NONE True,
      option_spec ''no-alt-screen'' [''--no-alt-screen''] ARITY_NONE True,
      option_spec ''help'' [''-h'', ''--help''] ARITY_NONE False,
      option_spec ''version'' [''-V'', ''--version''] ARITY_NONE False]"

definition codex_cli_0_151_0_result :: "contract_error + codex_cli_contract" where
  "codex_cli_0_151_0_result =
     make_contract (lit ''0.151.0'') codex_cli_0_151_0_command_tokens codex_cli_0_151_0_option_specs"

definition codex_cli_0_151_0 :: codex_cli_contract where
  "codex_cli_0_151_0 = projr codex_cli_0_151_0_result"

subsection \<open>The grammar\<close>

text \<open>
  One parsed item of an interactive command line. The Boolean of \<open>interactive_args\<close> says that
  no positional has been read yet, which is when a subcommand word is refused.
\<close>

datatype cli_item = OptionItem codex_cli_option_spec "pystr option" "pystr list" | PositionalItem pystr

fun item_positionals :: "cli_item list \<Rightarrow> pystr list" where
  "item_positionals [] = []"
| "item_positionals (OptionItem _ _ _ # items) = item_positionals items"
| "item_positionals (PositionalItem p # items) = p # item_positionals items"

fun item_names :: "cli_item list \<Rightarrow> pystr list" where
  "item_names [] = []"
| "item_names (OptionItem spec _ _ # items) = opt_name spec # item_names items"
| "item_names (PositionalItem _ # items) = item_names items"

definition option_occurrence ::
    "codex_cli_contract \<Rightarrow> pystr \<Rightarrow> pystr list \<Rightarrow> pystr list \<Rightarrow> codex_cli_option_spec \<Rightarrow> pystr option \<Rightarrow> bool" where
  "option_occurrence c token vs rest spec inline \<longleftrightarrow>
     token \<noteq> lit ''--'' \<and> match_option c token = Some (spec, inline) \<and> opt_managed_interactive spec \<and>
     (case opt_value_arity spec of
        ARITY_NONE \<Rightarrow> inline = None \<and> vs = []
      | ARITY_ONE \<Rightarrow>
          (case inline of
             Some v \<Rightarrow> v \<noteq> [] \<and> vs = []
           | None \<Rightarrow> length vs = 1 \<and> \<not> py_startswith (hd vs) (lit ''-''))
      | ARITY_ONE_OR_MORE \<Rightarrow>
          inline \<noteq> Some [] \<and> list_all is_value vs \<and> (inline \<noteq> None \<or> vs \<noteq> []) \<and>
          (rest = [] \<or> \<not> is_value (hd rest)))"

inductive interactive_args :: "codex_cli_contract \<Rightarrow> bool \<Rightarrow> pystr list \<Rightarrow> cli_item list \<Rightarrow> bool"
  for c :: codex_cli_contract where
  args_end: "interactive_args c first [] []"
| args_verbatim: "interactive_args c first (lit ''--'' # rest) (map PositionalItem rest)"
| args_option: "option_occurrence c token vs rest spec inline \<Longrightarrow> interactive_args c first rest items \<Longrightarrow>
    interactive_args c first (token # vs @ rest) (OptionItem spec inline vs # items)"
| args_positional: "match_option c token = None \<Longrightarrow> \<not> py_startswith token (lit ''-'') \<Longrightarrow>
    (first \<Longrightarrow> token \<notin> set (command_tokens c)) \<Longrightarrow> interactive_args c False rest items \<Longrightarrow>
    interactive_args c first (token # rest) (PositionalItem token # items)"

subsection \<open>The loop implements the grammar\<close>

lemma item_positionals_map [simp]: "item_positionals (map PositionalItem xs) = xs"
  by (induction xs) auto

lemma item_names_map [simp]: "item_names (map PositionalItem xs) = []"
  by (induction xs) auto

lemma takeWhile_append_stop:
  "list_all P vs \<Longrightarrow> rest = [] \<or> \<not> P (hd rest) \<Longrightarrow> takeWhile P (vs @ rest) = vs"
  by (cases rest) (auto simp: list_all_iff takeWhile_append)

lemma takeWhile_split:
  "\<exists>rest'. rest = takeWhile P rest @ rest' \<and> list_all P (takeWhile P rest) \<and> (rest' = [] \<or> \<not> P (hd rest'))"
  using hd_dropWhile [of P rest]
  by (intro exI [of _ "dropWhile P rest"]) (auto simp: list_all_iff simp del: dropWhile_eq_Nil_conv dest: set_takeWhileD)

lemma classify_step_of_occurrence:
  "option_occurrence c token vs rest spec inline \<Longrightarrow>
     classify_step c first token (vs @ rest) = StepOption (opt_name spec) (1 + length vs)"
  using takeWhile_append_stop [of is_value vs rest]
  by (cases vs)
     (auto simp: option_occurrence_def classify_step_def classify_option_step_def
       split: codex_option_value_arity.splits option.splits)

lemma occurrence_of_classify_step:
  assumes "classify_step c first token rest = StepOption name n"
  shows "\<exists>spec inline vs rest'. rest = vs @ rest' \<and> option_occurrence c token vs rest' spec inline \<and>
    name = opt_name spec \<and> n = 1 + length vs"
proof -
  from assms obtain spec inline where m: "token \<noteq> lit ''--''" "match_option c token = Some (spec, inline)"
    and step: "classify_option_step spec inline rest = StepOption name n"
    by (auto simp: classify_step_def split: if_splits option.splits)
  show ?thesis
  proof (cases "opt_value_arity spec")
    case ARITY_NONE
    with m step show ?thesis
      by (intro exI [of _ spec] exI [of _ inline] exI [of _ "[]"] exI [of _ rest])
         (auto simp: option_occurrence_def classify_option_step_def split: if_splits)
  next
    case ARITY_ONE
    let ?vs = "case inline of None \<Rightarrow> take 1 rest | Some _ \<Rightarrow> []"
    from m step ARITY_ONE show ?thesis
      by (intro exI [of _ spec] exI [of _ inline] exI [of _ ?vs] exI [of _ "drop (length ?vs) rest"])
         (auto simp: option_occurrence_def classify_option_step_def split: if_splits option.splits list.splits)
  next
    case ARITY_ONE_OR_MORE
    obtain rest' where "rest = takeWhile is_value rest @ rest'"
      "list_all is_value (takeWhile is_value rest)" "rest' = [] \<or> \<not> is_value (hd rest')"
      using takeWhile_split [of rest is_value] by blast
    with m step ARITY_ONE_OR_MORE show ?thesis
      by (intro exI [of _ spec] exI [of _ inline] exI [of _ "takeWhile is_value rest"] exI [of _ rest'])
         (auto simp: option_occurrence_def classify_option_step_def Let_def split: if_splits)
  qed
qed

lemma classify_step_positional:
  "classify_step c first token rest = StepPositional \<longleftrightarrow>
     match_option c token = None \<and> \<not> py_startswith token (lit ''-'') \<and>
     (first \<longrightarrow> token \<notin> set (command_tokens c))"
  by (auto simp: classify_step_def classify_option_step_def Let_def
      split: if_splits option.splits codex_option_value_arity.splits list.splits)

lemma classify_step_verbatim: "classify_step c first token rest = StepVerbatim \<longleftrightarrow> token = lit ''--''"
  by (auto simp: classify_step_def classify_option_step_def Let_def
      split: if_splits option.splits codex_option_value_arity.splits list.splits)

lemma classify_loop_sound:
  "classify_loop c index rest pos ind seen = Parsed pos' ind' seen' \<Longrightarrow>
     \<exists>items. interactive_args c (pos = []) rest items \<and>
       pos' = pos @ item_positionals items \<and> seen' = seen @ item_names items"
proof (induction c index rest pos ind seen rule: classify_loop.induct)
  case (1 c index pos ind seen)
  then show ?case by (auto intro!: exI [of _ "[]"] args_end)
next
  case (2 c index token rest pos ind seen)
  show ?case
  proof (cases "classify_step c (pos = []) token rest")
    case (StepReject r)
    with "2.prems" show ?thesis by simp
  next
    case StepVerbatim
    with "2.prems" show ?thesis
      by (auto simp: classify_step_verbatim intro!: exI [of _ "map PositionalItem rest"] args_verbatim)
  next
    case (StepOption name n)
    from occurrence_of_classify_step [OF this]
    obtain spec inline vs rest' where occ: "rest = vs @ rest'"
      "option_occurrence c token vs rest' spec inline" "name = opt_name spec" "n = 1 + length vs"
      by blast
    with StepOption "2.prems" "2.IH"(1) [OF StepOption] obtain items where
      "interactive_args c (pos = []) rest' items" "pos' = pos @ item_positionals items"
      "seen' = (seen @ [opt_name spec]) @ item_names items"
      by auto
    with occ show ?thesis
      by (intro exI [of _ "OptionItem spec inline vs # items"]) (auto intro: args_option)
  next
    case StepPositional
    with "2.prems" "2.IH"(2) [OF StepPositional] obtain items where
      "interactive_args c False rest items" "pos' = (pos @ [token]) @ item_positionals items"
      "seen' = seen @ item_names items"
      by auto
    with StepPositional show ?thesis
      by (intro exI [of _ "PositionalItem token # items"])
         (auto simp: classify_step_positional intro: args_positional)
  qed
qed

lemma classify_loop_complete:
  "interactive_args c first rest items \<Longrightarrow> first = (pos = []) \<Longrightarrow>
     \<exists>ind'. classify_loop c index rest pos ind seen
        = Parsed (pos @ item_positionals items) ind' (seen @ item_names items)"
proof (induction arbitrary: index pos ind seen rule: interactive_args.induct)
  case (args_verbatim first rest)
  then show ?case by (simp add: classify_step_def)
next
  case (args_option token vs rest spec inline first items)
  with args_option.IH [of pos "index + (1 + length vs)" ind "seen @ [opt_name spec]"]
  show ?case by (auto simp: classify_step_of_occurrence)
next
  case (args_positional token first rest items)
  then have "classify_step c (pos = []) token rest = StepPositional"
    by (simp add: classify_step_positional)
  with args_positional.IH [of "pos @ [token]" "index + 1" "ind @ [index]" seen] show ?case
    by auto
qed auto

text \<open>Every recorded index is the position of its positional, in increasing order.\<close>

definition indices_ok :: "pystr list \<Rightarrow> nat \<Rightarrow> pystr list \<Rightarrow> nat list \<Rightarrow> bool" where
  "indices_ok args bound pos ind \<longleftrightarrow>
     map ((!) args) ind = pos \<and> (\<forall>i \<in> set ind. i < bound) \<and> sorted_wrt (<) ind"

lemma indices_ok_mono: "indices_ok args b pos ind \<Longrightarrow> b \<le> b' \<Longrightarrow> indices_ok args b' pos ind"
  by (auto simp: indices_ok_def)

lemma indices_ok_step:
  "indices_ok args index pos ind \<Longrightarrow> drop index args = token # rest \<Longrightarrow>
     indices_ok args (index + 1) (pos @ [token]) (ind @ [index])"
  by (auto simp: indices_ok_def sorted_wrt_append nth_via_drop)

lemma indices_ok_verbatim:
  assumes "indices_ok args index pos ind" and "drop index args = token # rest"
  shows "indices_ok args (length args) (pos @ rest) (ind @ [index + 1 ..< index + 1 + length rest])"
proof -
  from assms(2) have "length (drop index args) = Suc (length rest)"
    by simp
  then have len: "length args = index + 1 + length rest"
    by simp
  have "args ! (index + 1 + j) = rest ! j" if "j < length rest" for j
  proof -
    have "rest ! j = drop index args ! Suc j"
      using assms(2) by simp
    also have "\<dots> = args ! (index + Suc j)"
      using len that by (intro nth_drop) simp
    finally show ?thesis by simp
  qed
  then have "map ((!) args) [index + 1 ..< index + 1 + length rest] = rest"
    by (intro nth_equalityI) (auto simp del: upt_Suc)
  with assms(1) len show ?thesis
    by (auto simp: indices_ok_def sorted_wrt_append simp del: upt_Suc)
qed

lemma classify_loop_indices:
  "classify_loop c index rest pos ind seen = Parsed pos' ind' seen' \<Longrightarrow> rest = drop index args \<Longrightarrow>
     index \<le> length args \<Longrightarrow> indices_ok args index pos ind \<Longrightarrow> indices_ok args (length args) pos' ind'"
proof (induction c index rest pos ind seen rule: classify_loop.induct)
  case (1 c index pos ind seen)
  then show ?case by (auto intro: indices_ok_mono)
next
  case (2 c index token rest pos ind seen)
  from "2.prems"(2) have tail: "drop (index + Suc k) args = drop k rest" for k
    by (metis drop_Suc_Cons drop_drop add.commute)
  from "2.prems"(2) have lt: "index < length args"
    by (metis drop_eq_Nil list.distinct(1) not_le)
  show ?case
  proof (cases "classify_step c (pos = []) token rest")
    case StepVerbatim
    with "2.prems"(1) indices_ok_verbatim [OF "2.prems"(4) "2.prems"(2) [symmetric]]
    show ?thesis by simp
  next
    case (StepOption name n)
    from occurrence_of_classify_step [OF this]
    obtain vs rest' where n: "n = 1 + length vs" "rest = vs @ rest'"
      by blast
    with tail [of "length vs"] have "drop (index + n) args = rest'"
      by simp
    moreover from arg_cong [OF "2.prems"(2), of length] lt have "length args = index + 1 + length rest"
      by simp
    with n have "index + n \<le> length args"
      by simp
    ultimately show ?thesis
      using StepOption "2.prems" "2.IH"(1) [OF StepOption] n
        indices_ok_mono [OF "2.prems"(4), of "index + n"]
      by auto
  next
    case StepPositional
    with "2.prems"(1) have run: "classify_loop c (index + 1) rest (pos @ [token]) (ind @ [index]) seen = Parsed pos' ind' seen'"
      by simp
    show ?thesis
      using lt tail [of 0] indices_ok_step [OF "2.prems"(4) "2.prems"(2) [symmetric]]
      by (intro "2.IH"(2) [OF StepPositional run]) simp_all
  next
    case (StepReject r)
    with "2.prems"(1) show ?thesis by simp
  qed
qed

lemma classify_arguments [simp]: "cinv_arguments (classify c args) = args"
  by (simp add: classify_def passthrough_def split: classify_outcome.splits)

lemma classify_loop_start_iff:
  "(\<exists>ind. classify_loop c 0 args [] [] [] = Parsed pos ind seen) \<longleftrightarrow>
     (\<exists>items. interactive_args c True args items \<and> pos = item_positionals items \<and> seen = item_names items)"
  using classify_loop_sound [of c 0 args "[]" "[]" "[]" pos _ seen]
    classify_loop_complete [of c True args _ "[]" 0 "[]" "[]"] by fastforce

definition explicit_resume_form :: "pystr list \<Rightarrow> bool" where
  "explicit_resume_form args \<longleftrightarrow>
     (\<exists>s. args = [lit ''resume'', s] \<and> s \<noteq> [] \<and> \<not> py_startswith s (lit ''-''))"

lemma explicit_resume_form_code:
  "explicit_resume_form args \<longleftrightarrow>
     length args = 2 \<and> args ! 0 = lit ''resume'' \<and> args ! 1 \<noteq> [] \<and> \<not> py_startswith (args ! 1) (lit ''-'')"
  by (auto simp: explicit_resume_form_def length_Suc_conv numeral_2_eq_2)

text \<open>
  Property C2. Codex interactive syntax is admitted exactly by the grammar: an argument vector
  is routed to managed Rodex if and only if it is not the two-word resume form and it parses as
  options with their values and positionals (no subcommand word, no unknown, direct or malformed
  option) with no conflicting approval options and at most one positional.
\<close>

theorem classify_managed_iff:
  "cinv_route (classify c args) = MANAGED_INTERACTIVE \<longleftrightarrow>
     \<not> explicit_resume_form args \<and>
     (\<exists>items. interactive_args c True args items \<and> \<not> managed_option_conflict (item_names items) \<and>
        length (item_positionals items) \<le> 1)"
proof -
  have "cinv_route (classify c args) = MANAGED_INTERACTIVE \<longleftrightarrow>
      \<not> explicit_resume_form args \<and>
      (\<exists>pos seen. (\<exists>ind. classify_loop c 0 args [] [] [] = Parsed pos ind seen) \<and>
         \<not> managed_option_conflict seen \<and> length pos \<le> 1)"
    by (auto simp: classify_def passthrough_def explicit_resume_form_code split: classify_outcome.splits)
  then show ?thesis
    by (simp only: classify_loop_start_iff) auto
qed

text \<open>
  The prompt index that a managed invocation carries is the position of its one
  positional argument: the item list of the grammar has exactly that argument as its positionals.
\<close>

theorem classify_prompt_index:
  assumes "cinv_prompt_index (classify c args) = Some i"
  shows "i < length args \<and>
    (\<exists>items. interactive_args c True args items \<and> item_positionals items = [args ! i])"
proof -
  from assms obtain pos ind seen where run: "classify_loop c 0 args [] [] [] = Parsed pos ind seen"
    and "length ind = 1" "i = ind ! 0"
    by (auto simp: classify_def passthrough_def split: if_splits classify_outcome.splits)
  then have ind: "ind = [i]"
    by (cases ind) auto
  have "indices_ok args (length args) pos ind"
    by (rule classify_loop_indices [OF run]) (auto simp: indices_ok_def)
  with ind have "i < length args" "pos = [args ! i]"
    by (auto simp: indices_ok_def)
  with run classify_loop_start_iff show ?thesis by metis
qed

text \<open>
  A selector candidate exists in exactly two cases: the explicit two-word resume
  form, or a sole argument that is neither an option, nor a dash token, nor a subcommand word.
\<close>

theorem classify_selector_candidate:
  "cinv_selector_candidate (classify c args) = Some s \<longleftrightarrow>
     args = [lit ''resume'', s] \<and> explicit_resume_form args \<or>
     args = [s] \<and> match_option c s = None \<and> \<not> py_startswith s (lit ''-'') \<and> s \<notin> set (command_tokens c)"
proof (cases "explicit_resume_form args")
  case True
  then show ?thesis
    by (auto simp: classify_def explicit_resume_form_def)
next
  case False
  have "cinv_selector_candidate (classify c args) = Some s \<longleftrightarrow>
      args = [s] \<and> classify_step c True s [] = StepPositional"
  proof (cases "length args = 1")
    case True
    then obtain t where "args = [t]" by (auto simp: length_Suc_conv)
    with False show ?thesis
      by (cases "classify_step c True t []")
         (auto simp: classify_def passthrough_def managed_option_conflict_def)
  next
    case noone: False
    with False show ?thesis
      by (auto simp: classify_def passthrough_def explicit_resume_form_code split: classify_outcome.splits)
  qed
  with False show ?thesis
    by (auto simp: classify_step_positional explicit_resume_form_def)
qed

subsection \<open>The option table\<close>

lemma index_spec_tokens_distinct:
  "index_spec_tokens spec ts d = Inr d' \<Longrightarrow> distinct (dict_keys d) \<Longrightarrow> distinct (dict_keys d')"
  by (induction spec ts d rule: index_spec_tokens.induct) (auto split: if_splits)

lemma index_spec_tokens_append:
  "index_spec_tokens spec ts d = Inr d' \<Longrightarrow> d' = d @ map (\<lambda>t. (t, spec)) ts"
  by (induction spec ts d rule: index_spec_tokens.induct) (auto simp: dict_set_fresh split: if_splits)

lemma index_options_distinct:
  "index_options specs d = Inr d' \<Longrightarrow> distinct (dict_keys d) \<Longrightarrow> distinct (dict_keys d')"
  by (induction specs d rule: index_options.induct)
     (auto split: if_splits sum.splits intro: index_spec_tokens_distinct)

lemma index_options_append:
  "index_options specs d = Inr d' \<Longrightarrow>
     d' = d @ concat (map (\<lambda>spec. map (\<lambda>t. (t, spec)) (opt_tokens spec)) specs)"
  by (induction specs d rule: index_options.induct)
     (auto split: if_splits sum.splits dest: index_spec_tokens_append)

lemma make_contract_options:
  assumes "make_contract release commands specs = Inr c"
  shows "options_by_token c = concat (map (\<lambda>spec. map (\<lambda>t. (t, spec)) (opt_tokens spec)) specs)"
    and "distinct (dict_keys (options_by_token c))"
  using assms
  by (auto simp: make_contract_def split: sum.splits if_splits
      dest: index_options_append index_options_distinct)

lemma make_contract_commands: "make_contract release commands specs = Inr c \<Longrightarrow> command_tokens c = commands"
  by (auto simp: make_contract_def split: sum.splits if_splits)

text \<open>
  A contract that passes its construction checks is an exact index: a token is
  bound to a specification if and only if that specification lists the token, so no token is
  ambiguous and none is lost.
\<close>

theorem make_contract_index:
  assumes "make_contract release commands specs = Inr c"
  shows "dict_get (options_by_token c) t = Some spec \<longleftrightarrow> spec \<in> set specs \<and> t \<in> set (opt_tokens spec)"
proof -
  have "dict_get (options_by_token c) t = Some spec \<longleftrightarrow> (t, spec) \<in> set (options_by_token c)"
    using make_contract_options(2) [OF assms] by (rule map_of_eq_Some_iff)
  then show ?thesis
    by (auto simp: make_contract_options(1) [OF assms])
qed

lemma codex_cli_0_151_0_valid: "codex_cli_0_151_0_result = Inr codex_cli_0_151_0"
proof -
  have "isl codex_cli_0_151_0_result = False"
    by (simp add: codex_cli_0_151_0_result_def make_contract_def codex_cli_0_151_0_option_specs_def
        option_spec_def codex_cli_0_151_0_command_tokens_def)
  then show ?thesis
    by (simp add: codex_cli_0_151_0_def sum.collapse(2))
qed

lemmas codex_cli_0_151_0_make = codex_cli_0_151_0_valid [unfolded codex_cli_0_151_0_result_def]

lemma codex_cli_0_151_0_fields:
  "command_tokens codex_cli_0_151_0 = codex_cli_0_151_0_command_tokens"
  "options_by_token codex_cli_0_151_0 =
     concat (map (\<lambda>spec. map (\<lambda>t. (t, spec)) (opt_tokens spec)) codex_cli_0_151_0_option_specs)"
  using make_contract_options(1) [OF codex_cli_0_151_0_make]
    make_contract_commands [OF codex_cli_0_151_0_make] by auto

lemmas codex_eval = codex_cli_0_151_0_fields codex_cli_0_151_0_command_tokens_def
  codex_cli_0_151_0_option_specs_def option_spec_def

lemmas classify_eval = classify_def passthrough_def classify_step_def classify_option_step_def match_option_def
  is_value_def managed_option_conflict_def

theorem make_contract_index_witness:
  "dict_get (options_by_token codex_cli_0_151_0) (lit ''-m'')
     = Some (option_spec ''model'' [''-m'', ''--model''] ARITY_ONE True)"
proof -
  have "option_spec ''model'' [''-m'', ''--model''] ARITY_ONE True \<in> set codex_cli_0_151_0_option_specs"
    by (simp add: codex_cli_0_151_0_option_specs_def)
  then show ?thesis
    using make_contract_index [OF codex_cli_0_151_0_make, of "lit ''-m''"]
    by (simp add: option_spec_def)
qed

theorem classify_prompt_index_witness:
  "cinv_prompt_index (classify codex_cli_0_151_0 [lit ''-m'', lit ''o3'', lit ''fix it'']) = Some 2 \<and>
   (\<exists>items. interactive_args codex_cli_0_151_0 True [lit ''-m'', lit ''o3'', lit ''fix it''] items \<and>
      item_positionals items = [lit ''fix it''])"
proof -
  have "cinv_prompt_index (classify codex_cli_0_151_0 [lit ''-m'', lit ''o3'', lit ''fix it'']) = Some 2"
    by (simp add: classify_eval codex_eval)
  with classify_prompt_index [OF this] show ?thesis by simp
qed

end
