(* ===== verification/Command_Contract.thy ===== *)
theory Command_Contract
  imports Codex_Cli
begin

section \<open>The Rodex command vocabulary and machine grammar\<close>

text \<open>
  \<^verbatim>\<open>src/rodex/command_contract.py\<close>: the table of Rodex commands with their routes and help
  lines, the help text, the table of exact machine commands, the classification of an argument
  vector, and \<open>parse_machine_invocation\<close>, the option grammar of the machine commands. The
  conversion of a numeral by Python's \<^verbatim>\<open>float\<close> is the parameter \<open>float_of\<close> (\<open>None\<close> is its
  \<^verbatim>\<open>ValueError\<close>); products are exact.
\<close>

definition RUNNING_COMMAND :: pystr where "RUNNING_COMMAND = lit ''_running''"
definition CONTEXT_COMMAND :: pystr where "CONTEXT_COMMAND = lit ''_context''"
definition ALIAS_COMMAND :: pystr where "ALIAS_COMMAND = lit ''_alias''"
definition WAIT_COMMAND :: pystr where "WAIT_COMMAND = lit ''_wait''"
definition CAT_COMMAND :: pystr where "CAT_COMMAND = lit ''_cat''"
definition TAIL_COMMAND :: pystr where "TAIL_COMMAND = lit ''_tail''"
definition EVENTS_COMMAND :: pystr where "EVENTS_COMMAND = lit ''_events''"
definition INSPECT_COMMAND :: pystr where "INSPECT_COMMAND = lit ''_inspect''"
definition START_COMMAND :: pystr where "START_COMMAND = lit ''_start''"
definition STEER_COMMAND :: pystr where "STEER_COMMAND = lit ''_steer''"
definition DISPATCH_STATUS_COMMAND :: pystr where "DISPATCH_STATUS_COMMAND = lit ''_dispatch-status''"
definition INTERRUPT_COMMAND :: pystr where "INTERRUPT_COMMAND = lit ''_interrupt''"
definition RESULT_COMMAND :: pystr where "RESULT_COMMAND = lit ''_result''"
definition CREATE_COMMAND :: pystr where "CREATE_COMMAND = lit ''_create''"
definition DETACH_COMMAND :: pystr where "DETACH_COMMAND = lit ''_detach''"
definition HELP_COMMAND :: pystr where "HELP_COMMAND = lit ''_help''"
definition VERSION_COMMAND :: pystr where "VERSION_COMMAND = lit ''_version''"
definition POLICY_SETUP_COMMAND :: pystr where "POLICY_SETUP_COMMAND = lit ''_policy-setup''"
definition STATS_COMMAND :: pystr where "STATS_COMMAND = lit ''_stats''"
definition STATS_STATUS_COMMAND :: pystr where "STATS_STATUS_COMMAND = lit ''_stats-status''"
definition AGENTS_COMMAND :: pystr where "AGENTS_COMMAND = lit ''_agents''"
definition TRACE_COMMAND :: pystr where "TRACE_COMMAND = lit ''_trace''"
definition MOUSE_COMMAND :: pystr where "MOUSE_COMMAND = lit ''_mouse''"
definition FORCE_FLAG :: pystr where "FORCE_FLAG = lit ''--force''"
definition FORCE_OLD_FLAG :: pystr where "FORCE_OLD_FLAG = lit ''--force-old''"

lemmas command_name_defs = RUNNING_COMMAND_def CONTEXT_COMMAND_def ALIAS_COMMAND_def WAIT_COMMAND_def CAT_COMMAND_def TAIL_COMMAND_def EVENTS_COMMAND_def INSPECT_COMMAND_def START_COMMAND_def STEER_COMMAND_def DISPATCH_STATUS_COMMAND_def INTERRUPT_COMMAND_def RESULT_COMMAND_def CREATE_COMMAND_def DETACH_COMMAND_def HELP_COMMAND_def VERSION_COMMAND_def POLICY_SETUP_COMMAND_def STATS_COMMAND_def STATS_STATUS_COMMAND_def AGENTS_COMMAND_def TRACE_COMMAND_def MOUSE_COMMAND_def FORCE_FLAG_def FORCE_OLD_FLAG_def

datatype command_route =
    ROUTE_HELP | ROUTE_VERSION | ROUTE_POLICY_SETUP | ROUTE_LAUNCH | ROUTE_SESSION | ROUTE_MACHINE
  | ROUTE_STATISTICS | ROUTE_AGENT_TRACE | ROUTE_SELECTOR | ROUTE_MANAGED_CODEX | ROUTE_CODEX

record command_spec =
  cmd_token :: pystr
  cmd_route :: command_route
  cmd_help_lines :: "pystr list"

definition mk_command_spec :: "pystr \<Rightarrow> command_route \<Rightarrow> string list \<Rightarrow> command_spec" where
  "mk_command_spec token route help =
     \<lparr>cmd_token = token, cmd_route = route, cmd_help_lines = map lit help\<rparr>"

definition COMMAND_SPECS :: "command_spec list" where
  "COMMAND_SPECS =
     [
      mk_command_spec HELP_COMMAND ROUTE_HELP [''_help'',
        ''Show this help and exit.''],
      mk_command_spec POLICY_SETUP_COMMAND ROUTE_POLICY_SETUP [''_policy-setup'',
        ''Open native Codex to review and trust the Rodex command hook.''],
      mk_command_spec VERSION_COMMAND ROUTE_VERSION [''_version'',
        ''Show Rodex release and compatibility contracts.''],
      mk_command_spec CREATE_COMMAND ROUTE_LAUNCH [''_create [NAME] [-- CODEX_ARGS...]'',
        ''Create and attach to a managed session.''],
      mk_command_spec DETACH_COMMAND ROUTE_LAUNCH [''_detach [SESSION|CODEX_ARGS...]'',
        ''Create, resume, or recover without attaching.''],
      mk_command_spec RUNNING_COMMAND ROUTE_SESSION [''_running'',
        ''List running sessions.''],
      mk_command_spec CONTEXT_COMMAND ROUTE_SESSION [''_context [--json]'',
        ''Show this pane's verified live Rodex context.''],
      mk_command_spec ALIAS_COMMAND ROUTE_SESSION [''_alias [--force] SESSION NAME'',
        ''Assign a preferred session name.''],
      mk_command_spec WAIT_COMMAND ROUTE_SESSION [''_wait SESSION'',
        ''Wait until a running session is idle.'',
        ''_wait SESSION --turn ID [--timeout DURATION] --json'',
        ''Wait for one exact turn; never interrupt it.''],
      mk_command_spec INSPECT_COMMAND ROUTE_MACHINE [''_inspect SESSION --json'',
        ''Inspect one verified live thread.''],
      mk_command_spec START_COMMAND ROUTE_MACHINE [''_start SESSION [--dispatch ID] --stdin --json'',
        ''Start work when the thread is idle or in systemError.''],
      mk_command_spec STEER_COMMAND ROUTE_MACHINE [''_steer SESSION --turn ID [--dispatch ID] --stdin --json'',
        ''Steer one exact active turn.''],
      mk_command_spec DISPATCH_STATUS_COMMAND ROUTE_MACHINE [''_dispatch-status SESSION --dispatch ID --json'',
        ''Observe acceptance evidence for one dispatch.''],
      mk_command_spec INTERRUPT_COMMAND ROUTE_MACHINE [''_interrupt SESSION --turn ID --json'',
        ''Interrupt one exact active turn.''],
      mk_command_spec RESULT_COMMAND ROUTE_MACHINE [''_result SESSION --turn ID --json'',
        ''Read one exact turn result.''],
      mk_command_spec CAT_COMMAND ROUTE_SESSION [''_cat SESSION'',
        ''Print all retained terminal output.''],
      mk_command_spec TAIL_COMMAND ROUTE_SESSION [''_tail [-f] [-n NUM|-NUM] SESSION'',
        ''Print the last NUM retained lines (default 10) and exit; -f follows settled text.''],
      mk_command_spec EVENTS_COMMAND ROUTE_SESSION [''_events SESSION'',
        ''Stream filtered live protocol events as JSON lines.''],
      mk_command_spec STATS_COMMAND ROUTE_STATISTICS [''_stats SESSION [--turn ID] [--thread CODEX_THREAD_ID] [--json]'',
        ''Show persistent session or exact-turn statistics.''],
      mk_command_spec STATS_STATUS_COMMAND ROUTE_STATISTICS [''_stats-status SESSION'',
        ''Show analytics freshness and health.''],
      mk_command_spec AGENTS_COMMAND ROUTE_AGENT_TRACE [''_agents SESSION [--json]'',
        ''Show the durable Codex agent lineage.''],
      mk_command_spec TRACE_COMMAND ROUTE_AGENT_TRACE [''_trace SESSION [--follow | --include-bodies] [--limit N] [--json]'',
        ''Follow metadata only, or re-authenticate bodies in a one-shot snapshot.''],
      mk_command_spec MOUSE_COMMAND ROUTE_SESSION [''_mouse SESSION [MODE]'',
        ''Show or set mouse: on, off, toggle, inherit.'']]"

definition COMMANDS_BY_TOKEN :: "(pystr, command_spec) dict" where
  "COMMANDS_BY_TOKEN = foldl (\<lambda>d spec. dict_set (cmd_token spec) spec d) [] COMMAND_SPECS"

subsection \<open>Help\<close>

text \<open>\<^verbatim>\<open>xs[::2]\<close> and \<^verbatim>\<open>xs[1::2]\<close>, and \<^verbatim>\<open>zip(..., strict=True)\<close> with \<open>None\<close> for its error.\<close>

fun even_items :: "'a list \<Rightarrow> 'a list" where
  "even_items [] = []"
| "even_items [x] = [x]"
| "even_items (x # _ # xs) = x # even_items xs"

definition odd_items :: "'a list \<Rightarrow> 'a list" where
  "odd_items xs = even_items (tl xs)"

definition zip_strict :: "'a list \<Rightarrow> 'b list \<Rightarrow> ('a \<times> 'b) list option" where
  "zip_strict xs ys = (if length xs = length ys then Some (zip xs ys) else None)"

definition pad_right :: "nat \<Rightarrow> pystr \<Rightarrow> pystr" where
  "pad_right width s = s @ replicate (width - length s) 32"

definition help_entry :: "pystr \<times> pystr \<Rightarrow> pystr" where
  "help_entry = (\<lambda>(usage, description). lit ''  '' @ pad_right 36 usage @ lit '' '' @ description)"

fun help_entries :: "command_spec list \<Rightarrow> pystr list option" where
  "help_entries [] = Some []"
| "help_entries (spec # specs) =
     (case zip_strict (even_items (cmd_help_lines spec)) (odd_items (cmd_help_lines spec)) of
        None \<Rightarrow> None
      | Some pairs \<Rightarrow> map_option (\<lambda>rest. map help_entry pairs @ rest) (help_entries specs))"

definition help_text :: "pystr option" where
  "help_text =
     map_option (\<lambda>entries. py_join [10]
       (map lit [''usage: rodex [CODEX_OPTIONS] [PROMPT]'', ''       rodex CODEX_COMMAND [ARGUMENTS]'',
          ''       rodex RODEX_COMMAND [ARGUMENTS]'', [], ''Rodex commands:'',
          ''  (no command)                       Create and attach to a managed session.'']
        @ entries
        @ [[], lit ''Use a Rodex session name or canonical Codex UUID as the sole argument ''
               @ lit ''to attach, resume, recover, or adopt it.'',
           [39] @ lit ''resume SESSION' uses the same selector pipeline for a Rodex name, alias, or Codex UUID.'',
           lit ''An unmatched 'resume SESSION' passes unchanged to Codex.'',
           lit ''Add '--force-old' to a recognized Rodex selector to attach without upgrading its running runtime.'',
           lit ''A sole unmatched token, current interactive options, or an optional prompt starts a managed session.'',
           lit ''Use '--' before one token to force prompt meaning without selector or subcommand interpretation.'',
           lit ''Other Codex '' @ characterized_release codex_cli_0_151_0
             @ lit '' subcommand forms and '' @ lit ''uncertain option forms pass unchanged to Codex.'',
           []]))
       (help_entries COMMAND_SPECS)"

subsection \<open>Machine commands\<close>

record machine_command_spec =
  m_token :: pystr
  m_operation :: pystr
  m_usage :: pystr
  m_needs_turn :: bool
  m_needs_stdin :: bool
  m_allows_dispatch :: bool
  m_needs_dispatch :: bool
  m_allows_timeout :: bool

definition machine_spec ::
    "pystr \<Rightarrow> string \<Rightarrow> string \<Rightarrow> bool \<Rightarrow> bool \<Rightarrow> bool \<Rightarrow> bool \<Rightarrow> bool \<Rightarrow> machine_command_spec" where
  "machine_spec token operation usage turn stdin dispatch needs_dispatch timeout =
     \<lparr>m_token = token, m_operation = lit operation, m_usage = lit usage, m_needs_turn = turn,
      m_needs_stdin = stdin, m_allows_dispatch = dispatch, m_needs_dispatch = needs_dispatch,
      m_allows_timeout = timeout\<rparr>"

definition MACHINE_COMMAND_SPEC_LIST :: "machine_command_spec list" where
  "MACHINE_COMMAND_SPEC_LIST =
     [machine_spec INSPECT_COMMAND ''thread.inspect'' ''rodex _inspect SESSION --json'' False False False False False,
      machine_spec START_COMMAND ''turn.start'' ''rodex _start SESSION [--dispatch ID] --stdin --json''
        False True True False False,
      machine_spec STEER_COMMAND ''turn.steer'' ''rodex _steer SESSION --turn TURN_ID [--dispatch ID] --stdin --json''
        True True True False False,
      machine_spec DISPATCH_STATUS_COMMAND ''dispatch.status''
        ''rodex _dispatch-status SESSION --dispatch DISPATCH_ID --json'' False False True True False,
      machine_spec WAIT_COMMAND ''turn.wait'' ''rodex _wait SESSION --turn TURN_ID [--timeout DURATION] --json''
        True False False False True,
      machine_spec INTERRUPT_COMMAND ''turn.interrupt'' ''rodex _interrupt SESSION --turn TURN_ID --json''
        True False False False False,
      machine_spec RESULT_COMMAND ''turn.result'' ''rodex _result SESSION --turn TURN_ID --json''
        True False False False False]"

definition MACHINE_COMMAND_SPECS :: "(pystr, machine_command_spec) dict" where
  "MACHINE_COMMAND_SPECS = foldl (\<lambda>d spec. dict_set (m_token spec) spec d) [] MACHINE_COMMAND_SPEC_LIST"

record classified_rodex_command =
  cl_command :: command_spec
  cl_route :: command_route
  cl_machine :: "machine_command_spec option"

definition classify_rodex_command :: "pystr list \<Rightarrow> classified_rodex_command option" where
  "classify_rodex_command arguments =
     (case arguments of
        [] \<Rightarrow> None
      | a # _ \<Rightarrow>
          (case dict_get COMMANDS_BY_TOKEN a of
             None \<Rightarrow> None
           | Some command \<Rightarrow>
               let looked_up = dict_get MACHINE_COMMAND_SPECS (cmd_token command);
                   machine =
                     (case looked_up of
                        None \<Rightarrow> None
                      | Some m \<Rightarrow>
                          if m_token m = WAIT_COMMAND \<and> lit ''--turn'' \<notin> set arguments \<and> lit ''--json'' \<notin> set arguments
                          then None else Some m);
                   route = (if machine \<noteq> None then ROUTE_MACHINE else cmd_route command)
               in Some \<lparr>cl_command = command, cl_route = route, cl_machine = machine\<rparr>))"

record machine_invocation =
  mi_spec :: machine_command_spec
  mi_session_name :: pystr
  mi_turn_id :: "pystr option"
  mi_dispatch_id :: "pystr option"
  mi_timeout_seconds :: "rat option"

datatype machine_usage_error =
    ArgumentsMismatch | UsageError pystr | EmptyTurnId | EmptyDispatchId | BadTimeout

fun float_scale :: "pyfloat \<Rightarrow> rat \<Rightarrow> pyfloat" where
  "float_scale (Finite q) m = Finite (q * m)"
| "float_scale v m = v"

definition parse_timeout_duration :: "(pystr \<Rightarrow> pyfloat option) \<Rightarrow> pystr \<Rightarrow> machine_usage_error + rat" where
  "parse_timeout_duration float_of value =
     (if value = [] then Inl BadTimeout
      else let suffix = last value;
               multipliers = [(115, 1), (109, 60), (104, 3600)] :: (nat, rat) dict;
               multiplier = (case dict_get multipliers suffix of Some m \<Rightarrow> m | None \<Rightarrow> 1);
               number = (if suffix \<in> set (dict_keys multipliers) then butlast value else value)
           in case float_of number of
                None \<Rightarrow> Inl BadTimeout
              | Some v \<Rightarrow>
                  (case float_scale v multiplier of
                     Finite seconds \<Rightarrow> if seconds \<le> 0 then Inl BadTimeout else Inr seconds
                   | _ \<Rightarrow> Inl BadTimeout))"

record machine_options =
  seen_json :: bool
  seen_stdin :: bool
  opt_turn_id :: "pystr option"
  opt_dispatch_id :: "pystr option"
  opt_timeout_seconds :: "rat option"

definition no_machine_options :: machine_options where
  "no_machine_options = \<lparr>seen_json = False, seen_stdin = False, opt_turn_id = None,
     opt_dispatch_id = None, opt_timeout_seconds = None\<rparr>"

fun parse_machine_options ::
    "(pystr \<Rightarrow> pyfloat option) \<Rightarrow> machine_command_spec \<Rightarrow> pystr list \<Rightarrow> machine_options
       \<Rightarrow> machine_usage_error + machine_options" where
  "parse_machine_options fl spec [] st = Inr st"
| "parse_machine_options fl spec (option # rest) st =
     (if option = lit ''--json'' \<and> \<not> seen_json st
      then parse_machine_options fl spec rest (st\<lparr>seen_json := True\<rparr>)
      else if option = lit ''--stdin'' \<and> \<not> seen_stdin st
      then parse_machine_options fl spec rest (st\<lparr>seen_stdin := True\<rparr>)
      else case rest of
        [] \<Rightarrow> Inl (UsageError (m_usage spec))
      | v # rest' \<Rightarrow>
          if option = lit ''--turn'' \<and> opt_turn_id st = None
          then parse_machine_options fl spec rest' (st\<lparr>opt_turn_id := Some v\<rparr>)
          else if option = lit ''--dispatch'' \<and> opt_dispatch_id st = None
          then parse_machine_options fl spec rest' (st\<lparr>opt_dispatch_id := Some v\<rparr>)
          else if option = lit ''--timeout'' \<and> opt_timeout_seconds st = None
          then (case parse_timeout_duration fl v of
                  Inl e \<Rightarrow> Inl e
                | Inr t \<Rightarrow> parse_machine_options fl spec rest' (st\<lparr>opt_timeout_seconds := Some t\<rparr>))
          else Inl (UsageError (m_usage spec)))"

definition machine_options_allowed :: "machine_command_spec \<Rightarrow> machine_options \<Rightarrow> bool" where
  "machine_options_allowed spec st \<longleftrightarrow>
     \<not> (\<not> seen_json st
        \<or> seen_stdin st \<noteq> m_needs_stdin spec
        \<or> (opt_turn_id st \<noteq> None) \<noteq> m_needs_turn spec
        \<or> (opt_dispatch_id st \<noteq> None \<and> \<not> m_allows_dispatch spec)
        \<or> (m_needs_dispatch spec \<and> opt_dispatch_id st = None)
        \<or> (opt_timeout_seconds st \<noteq> None \<and> \<not> m_allows_timeout spec))"

fun blank :: "pystr option \<Rightarrow> bool" where
  "blank None = False"
| "blank (Some s) = (py_strip s = [])"

definition parse_machine_invocation ::
    "(pystr \<Rightarrow> pyfloat option) \<Rightarrow> pystr list \<Rightarrow> machine_command_spec \<Rightarrow> machine_usage_error + machine_invocation" where
  "parse_machine_invocation fl arguments spec =
     (if arguments = [] \<or> hd arguments \<noteq> m_token spec then Inl ArgumentsMismatch
      else if length arguments < 2 \<or> py_strip (arguments ! 1) = [] \<or> py_startswith (arguments ! 1) (lit ''-'')
      then Inl (UsageError (m_usage spec))
      else case parse_machine_options fl spec (drop 2 arguments) no_machine_options of
        Inl e \<Rightarrow> Inl e
      | Inr st \<Rightarrow>
          if blank (opt_turn_id st) then Inl EmptyTurnId
          else if blank (opt_dispatch_id st) then Inl EmptyDispatchId
          else if \<not> machine_options_allowed spec st then Inl (UsageError (m_usage spec))
          else Inr \<lparr>mi_spec = spec, mi_session_name = arguments ! 1, mi_turn_id = opt_turn_id st,
                    mi_dispatch_id = opt_dispatch_id st, mi_timeout_seconds = opt_timeout_seconds st\<rparr>)"

subsection \<open>The machine grammar, specified\<close>

text \<open>
  The abstract grammar: a machine command line is its token, a session and a sequence of option
  occurrences in any order. \<open>apply_option\<close> refuses a repeated option or a bad duration.
\<close>

datatype machine_option = MJson | MStdin | MTurn pystr | MDispatch pystr | MTimeout pystr

fun option_args :: "machine_option \<Rightarrow> pystr list" where
  "option_args MJson = [lit ''--json'']"
| "option_args MStdin = [lit ''--stdin'']"
| "option_args (MTurn t) = [lit ''--turn'', t]"
| "option_args (MDispatch d) = [lit ''--dispatch'', d]"
| "option_args (MTimeout t) = [lit ''--timeout'', t]"

fun apply_option :: "(pystr \<Rightarrow> pyfloat option) \<Rightarrow> machine_options \<Rightarrow> machine_option \<Rightarrow> machine_options option" where
  "apply_option fl st MJson = (if seen_json st then None else Some (st\<lparr>seen_json := True\<rparr>))"
| "apply_option fl st MStdin = (if seen_stdin st then None else Some (st\<lparr>seen_stdin := True\<rparr>))"
| "apply_option fl st (MTurn t) = (if opt_turn_id st = None then Some (st\<lparr>opt_turn_id := Some t\<rparr>) else None)"
| "apply_option fl st (MDispatch d) =
     (if opt_dispatch_id st = None then Some (st\<lparr>opt_dispatch_id := Some d\<rparr>) else None)"
| "apply_option fl st (MTimeout t) =
     (if opt_timeout_seconds st = None
      then (case parse_timeout_duration fl t of Inr q \<Rightarrow> Some (st\<lparr>opt_timeout_seconds := Some q\<rparr>) | Inl _ \<Rightarrow> None)
      else None)"

fun apply_options :: "(pystr \<Rightarrow> pyfloat option) \<Rightarrow> machine_options \<Rightarrow> machine_option list \<Rightarrow> machine_options option" where
  "apply_options fl st [] = Some st"
| "apply_options fl st (x # xs) = (case apply_option fl st x of None \<Rightarrow> None | Some st' \<Rightarrow> apply_options fl st' xs)"

lemma parse_machine_options_complete:
  "apply_options fl st opts = Some st' \<Longrightarrow> parse_machine_options fl spec (concat (map option_args opts)) st = Inr st'"
proof (induction opts arbitrary: st)
  case (Cons x opts)
  then show ?case by (cases x) (auto split: if_splits sum.splits option.splits)
qed simp

lemma parse_machine_options_sound:
  "parse_machine_options fl spec args st = Inr st' \<Longrightarrow>
     \<exists>opts. args = concat (map option_args opts) \<and> apply_options fl st opts = Some st'"
proof (induction fl spec args st rule: parse_machine_options.induct)
  case (1 fl spec st)
  then show ?case by (auto intro!: exI [of _ "[]"])
next
  case (2 fl spec x rest st)
  have step: ?case if "x # rest = option_args y @ rest2" "apply_option fl st y = Some st2"
    "\<exists>opts. rest2 = concat (map option_args opts) \<and> apply_options fl st2 opts = Some st'" for y rest2 st2
    using that by (metis apply_options.simps(2) concat.simps(2) list.map(2) option.simps(5))
  consider (json) "x = lit ''--json''" "\<not> seen_json st" | (stdin) "x = lit ''--stdin''" "\<not> seen_stdin st"
    | (valued) "\<not> (x = lit ''--json'' \<and> \<not> seen_json st)" "\<not> (x = lit ''--stdin'' \<and> \<not> seen_stdin st)"
    by blast
  then show ?case
  proof cases
    case json
    with 2 show ?thesis by (intro step [of MJson rest "st\<lparr>seen_json := True\<rparr>"]) auto
  next
    case stdin
    with 2 show ?thesis by (intro step [of MStdin rest "st\<lparr>seen_stdin := True\<rparr>"]) auto
  next
    case valued
    with "2.prems" obtain v rest' where rest: "rest = v # rest'"
      by (cases rest) (auto split: if_splits)
    consider (turn) "x = lit ''--turn''" "opt_turn_id st = None"
      | (dispatch) "x = lit ''--dispatch''" "opt_dispatch_id st = None"
      | (timeout) q where "x = lit ''--timeout''" "opt_timeout_seconds st = None" "parse_timeout_duration fl v = Inr q"
      using valued "2.prems" rest by (auto split: if_splits sum.splits)
    then show ?thesis
    proof cases
      case turn
      with 2 rest show ?thesis by (intro step [of "MTurn v" rest' "st\<lparr>opt_turn_id := Some v\<rparr>"]) auto
    next
      case dispatch
      with 2 rest show ?thesis
        by (intro step [of "MDispatch v" rest' "st\<lparr>opt_dispatch_id := Some v\<rparr>"]) auto
    next
      case timeout
      with 2 rest show ?thesis
        by (intro step [of "MTimeout v" rest' "st\<lparr>opt_timeout_seconds := Some q\<rparr>"]) auto
    qed
  qed
qed

definition machine_options_invocation ::
    "machine_command_spec \<Rightarrow> pystr \<Rightarrow> machine_options \<Rightarrow> machine_invocation" where
  "machine_options_invocation spec session st =
     \<lparr>mi_spec = spec, mi_session_name = session, mi_turn_id = opt_turn_id st,
      mi_dispatch_id = opt_dispatch_id st, mi_timeout_seconds = opt_timeout_seconds st\<rparr>"


subsection \<open>Classification\<close>

lemma foldl_dict_set_distinct:
  "distinct (map key xs) \<Longrightarrow> set (map key xs) \<inter> set (dict_keys d) = {} \<Longrightarrow>
     foldl (\<lambda>d x. dict_set (key x) x d) d xs = d @ map (\<lambda>x. (key x, x)) xs"
  by (induction xs arbitrary: d) (auto simp: dict_set_fresh dict_keys_set)

lemmas command_table_defs = COMMAND_SPECS_def mk_command_spec_def command_name_defs
lemmas machine_table_defs = MACHINE_COMMAND_SPEC_LIST_def machine_spec_def command_name_defs

lemma COMMANDS_BY_TOKEN_eq: "COMMANDS_BY_TOKEN = map (\<lambda>x. (cmd_token x, x)) COMMAND_SPECS"
  unfolding COMMANDS_BY_TOKEN_def
  by (subst foldl_dict_set_distinct) (simp_all add: command_table_defs)

lemma MACHINE_COMMAND_SPECS_eq: "MACHINE_COMMAND_SPECS = map (\<lambda>x. (m_token x, x)) MACHINE_COMMAND_SPEC_LIST"
  unfolding MACHINE_COMMAND_SPECS_def
  by (subst foldl_dict_set_distinct) (simp_all add: machine_table_defs)

lemma machine_commands_are_commands:
  "list_all (\<lambda>m. \<exists>c \<in> set COMMAND_SPECS. cmd_token c = m_token m \<and>
      cmd_route c = (if m_token m = WAIT_COMMAND then ROUTE_SESSION else ROUTE_MACHINE)) MACHINE_COMMAND_SPEC_LIST"
  by (simp add: machine_table_defs COMMAND_SPECS_def mk_command_spec_def)

lemma machine_routes_have_specs:
  "list_all (\<lambda>c. cmd_route c = ROUTE_MACHINE \<longrightarrow> dict_get MACHINE_COMMAND_SPECS (cmd_token c) \<noteq> None) COMMAND_SPECS"
  by (simp add: MACHINE_COMMAND_SPECS_eq machine_table_defs COMMAND_SPECS_def mk_command_spec_def)

lemma dict_get_map_key: "dict_get (map (\<lambda>x. (key x, x)) xs) k = Some x \<Longrightarrow> x \<in> set xs \<and> key x = k"
  by (auto dest: map_of_SomeD)

lemma classified_command:
  assumes "classify_rodex_command args = Some cl"
  shows "cl_command cl \<in> set COMMAND_SPECS" and "cmd_token (cl_command cl) = hd args"
    and "cl_machine cl = Some m \<Longrightarrow> m_token m = hd args"
  using assms
  by (auto simp: classify_rodex_command_def Let_def COMMANDS_BY_TOKEN_eq MACHINE_COMMAND_SPECS_eq
      split: list.splits option.splits if_splits dest!: dict_get_map_key)

lemma machine_of_route:
  assumes "classify_rodex_command args = Some cl"
  shows "cl_route cl = ROUTE_MACHINE \<longleftrightarrow> (\<exists>m. cl_machine cl = Some m)"
proof -
  let ?command = "cl_command cl"
  have command: "?command \<in> set COMMAND_SPECS" by (rule classified_command(1) [OF assms])
  from assms have route: "cl_route cl = (if cl_machine cl \<noteq> None then ROUTE_MACHINE else cmd_route ?command)"
    and wait: "cl_machine cl = None \<Longrightarrow>
        dict_get MACHINE_COMMAND_SPECS (cmd_token ?command) = None \<or>
        (\<exists>m. dict_get MACHINE_COMMAND_SPECS (cmd_token ?command) = Some m \<and> m_token m = WAIT_COMMAND)"
    by (auto simp: classify_rodex_command_def Let_def split: list.splits option.splits if_splits)
  have "cmd_route ?command \<noteq> ROUTE_MACHINE" if none: "cl_machine cl = None"
  proof
    assume r: "cmd_route ?command = ROUTE_MACHINE"
    with command machine_routes_have_specs wait [OF none] obtain m where
      m: "dict_get MACHINE_COMMAND_SPECS (cmd_token ?command) = Some m" "m_token m = WAIT_COMMAND"
      by (auto simp: list_all_iff)
    then have "cmd_token ?command = WAIT_COMMAND"
      by (auto simp: MACHINE_COMMAND_SPECS_eq dest: dict_get_map_key)
    with command r show False
      by (auto simp: command_table_defs)
  qed
  with route show ?thesis by auto
qed

text \<open>
  The two command tables agree: a classified command carries a machine
  specification if and only if its route is the machine route, and the command, its machine
  specification and the first argument all name the same token. In particular the machine route
  never reaches execution without its specification.
\<close>

theorem classify_rodex_command_machine:
  assumes "classify_rodex_command args = Some cl"
  shows "(cl_route cl = ROUTE_MACHINE \<longleftrightarrow> cl_machine cl \<noteq> None) \<and>
    cmd_token (cl_command cl) = hd args \<and> cl_command cl \<in> set COMMAND_SPECS \<and>
    (\<forall>m. cl_machine cl = Some m \<longrightarrow> m_token m = hd args)"
  using machine_of_route [OF assms] classified_command [OF assms] by auto

theorem classify_rodex_command_machine_witness:
  "\<exists>cl. classify_rodex_command [lit ''_wait'', lit ''s'', lit ''--json''] = Some cl \<and>
     cl_route cl = ROUTE_MACHINE \<and> cl_machine cl \<noteq> None"
proof -
  have "\<exists>cl. classify_rodex_command [lit ''_wait'', lit ''s'', lit ''--json''] = Some cl \<and> cl_machine cl \<noteq> None"
    by (simp add: classify_rodex_command_def COMMANDS_BY_TOKEN_eq MACHINE_COMMAND_SPECS_eq
        COMMAND_SPECS_def mk_command_spec_def machine_table_defs)
  with classify_rodex_command_machine show ?thesis by blast
qed

definition help_lines_paired :: "command_spec \<Rightarrow> bool" where
  "help_lines_paired spec \<longleftrightarrow>
     even (length (cmd_help_lines spec)) \<and> cmd_help_lines spec \<noteq> [] \<and>
     (\<forall>usage \<in> set (even_items (cmd_help_lines spec)). py_startswith usage (cmd_token spec))"

text \<open>
  The help text is always produced: every command declares its help lines in
  usage/description pairs, so the strict pairing never fails, and every entry of the command
  table appears as a line of the help text beginning with its own token.
\<close>

theorem help_text_defined:
  "(\<exists>entries. help_entries COMMAND_SPECS = Some entries) \<and> (\<exists>text. help_text = Some text) \<and>
     list_all help_lines_paired COMMAND_SPECS"
proof -
  have "\<exists>entries. help_entries COMMAND_SPECS = Some entries"
    by (simp add: COMMAND_SPECS_def mk_command_spec_def zip_strict_def odd_items_def)
  moreover have "list_all help_lines_paired COMMAND_SPECS"
    by (simp add: command_table_defs help_lines_paired_def)
  ultimately show ?thesis by (auto simp: help_text_def)
qed

end
