(* ===== verification/Application_Pipeline.thy ===== *)
theory Application_Pipeline
  imports Command_Contract
begin

section \<open>The application pipeline\<close>

text \<open>
  \<^verbatim>\<open>src/rodex/application_pipeline.py\<close>: \<open>select_rodex_invocation\<close> chooses the route of an
  invocation, \<open>prepare\<close> runs its preparation branch and \<open>execute\<close> runs the route. The
  collaborators of the pipeline (executable resolution, the session lifecycle protocol, the
  command executors, native Codex) are the functions of the record \<open>app_env\<close>; one that raises
  returns \<open>Inl\<close>. Every call the pipeline makes is an entry of the returned trace, in order, and
  the result is an error or the exit status. A failing \<^verbatim>\<open>assert\<close> is \<open>AssertionFailed\<close>.
\<close>

subsection \<open>Data\<close>

datatype pipeline_preparation = PREP_DIRECT | PREP_SELECTOR | PREP_RUNTIME

fun ROUTE_PREPARATIONS :: "command_route \<Rightarrow> pipeline_preparation" where
  "ROUTE_PREPARATIONS ROUTE_HELP = PREP_DIRECT"
| "ROUTE_PREPARATIONS ROUTE_VERSION = PREP_DIRECT"
| "ROUTE_PREPARATIONS ROUTE_POLICY_SETUP = PREP_DIRECT"
| "ROUTE_PREPARATIONS ROUTE_CODEX = PREP_DIRECT"
| "ROUTE_PREPARATIONS ROUTE_STATISTICS = PREP_DIRECT"
| "ROUTE_PREPARATIONS ROUTE_AGENT_TRACE = PREP_DIRECT"
| "ROUTE_PREPARATIONS ROUTE_SELECTOR = PREP_SELECTOR"
| "ROUTE_PREPARATIONS ROUTE_MANAGED_CODEX = PREP_RUNTIME"
| "ROUTE_PREPARATIONS ROUTE_MACHINE = PREP_RUNTIME"
| "ROUTE_PREPARATIONS ROUTE_SESSION = PREP_RUNTIME"
| "ROUTE_PREPARATIONS ROUTE_LAUNCH = PREP_RUNTIME"

record rodex_invocation =
  ri_arguments :: "pystr list"
  ri_route :: command_route
  ri_preparation :: pipeline_preparation
  ri_classification :: "classified_rodex_command option"
  ri_codex_invocation :: "codex_cli_invocation option"
  ri_force_old :: bool

datatype session_selection =
    OwnedSessionSelection pystr int bool
  | UnregisteredCodexSessionSelection pystr pystr

datatype selector_execution = OPENED | NOT_FOUND

datatype launcher = ProvidedLauncher | BuiltLauncher pystr pystr

record runtime_services =
  rs_launcher :: launcher
  rs_codex_binary :: "pystr option"

record prepared_invocation =
  pi_invocation :: rodex_invocation
  pi_runtime :: "runtime_services option"
  pi_selected :: "session_selection option"

datatype app_error = LaunchUsage string | ExecutableNotFound pystr | AssertionFailed | Collaborator pystr

datatype app_action =
    PrintHelp | PrintVersion
  | CallCodex pystr "pystr list"
  | CallStatistics "pystr list"
  | CallAgentTrace "pystr list"
  | CallResolveSelector pystr
  | CallSessionIsPersisted launcher pystr
  | CallExecuteSelector session_selection launcher bool
  | CallMachine "pystr list" machine_command_spec launcher
  | CallSession "pystr list" launcher
  | CallLaunch "pystr list" launcher "pystr option"
  | CallManagedInteractive "pystr list" launcher "pystr option"
  | PrintMachineError pystr "pystr option"

record app_env =
  configured_codex :: pystr
  configured_tmux :: pystr
  launcher_provided :: bool
  policy_hook_override :: pystr
  resolve_executable :: "pystr \<Rightarrow> pystr option"
  resolve_selector :: "pystr \<Rightarrow> pystr + session_selection option"
  session_is_persisted :: "launcher \<Rightarrow> pystr \<Rightarrow> pystr + bool"
  run_codex :: "pystr \<Rightarrow> pystr list \<Rightarrow> pystr + int"
  run_statistics :: "pystr list \<Rightarrow> pystr + unit"
  run_agent_trace :: "pystr list \<Rightarrow> pystr + unit"
  execute_selector :: "session_selection \<Rightarrow> launcher \<Rightarrow> bool \<Rightarrow> pystr + selector_execution"
  run_machine :: "pystr list \<Rightarrow> machine_command_spec \<Rightarrow> launcher \<Rightarrow> pystr + int"
  run_session :: "pystr list \<Rightarrow> launcher \<Rightarrow> pystr + unit"
  run_launch :: "pystr list \<Rightarrow> launcher \<Rightarrow> pystr option \<Rightarrow> pystr + int"
  run_managed_interactive :: "pystr list \<Rightarrow> launcher \<Rightarrow> pystr option \<Rightarrow> pystr + int"

text \<open>The traced result of a pipeline step, its sequencing, and one collaborator call.\<close>

type_synonym 'a app = "app_action list \<times> (app_error + 'a)"

definition app_return :: "'a \<Rightarrow> 'a app" where
  "app_return a = ([], Inr a)"

definition app_raise :: "app_error \<Rightarrow> 'a app" where
  "app_raise e = ([], Inl e)"

definition app_bind :: "'a app \<Rightarrow> ('a \<Rightarrow> 'b app) \<Rightarrow> 'b app" where
  "app_bind m f = (case m of (t, Inl e) \<Rightarrow> (t, Inl e) | (t, Inr a) \<Rightarrow> (case f a of (t', r) \<Rightarrow> (t @ t', r)))"

definition app_call :: "app_action \<Rightarrow> pystr + 'a \<Rightarrow> 'a app" where
  "app_call act r = ([act], case r of Inl e \<Rightarrow> Inl (Collaborator e) | Inr a \<Rightarrow> Inr a)"

definition app_status :: "unit app \<Rightarrow> int app" where
  "app_status m = app_bind m (\<lambda>_. app_return 0)"

subsection \<open>Route selection\<close>

definition plain_invocation ::
    "pystr list \<Rightarrow> command_route \<Rightarrow> pipeline_preparation \<Rightarrow> codex_cli_invocation \<Rightarrow> rodex_invocation" where
  "plain_invocation args route prep ci =
     \<lparr>ri_arguments = args, ri_route = route, ri_preparation = prep, ri_classification = None,
      ri_codex_invocation = Some ci, ri_force_old = False\<rparr>"

definition select_by_codex_contract :: "codex_cli_contract \<Rightarrow> pystr list \<Rightarrow> rodex_invocation" where
  "select_by_codex_contract c normalized =
     (let ci = classify c normalized in
      if cinv_route ci = PASSTHROUGH then plain_invocation normalized ROUTE_CODEX PREP_DIRECT ci
      else if cinv_selector_candidate ci \<noteq> None
      then plain_invocation normalized ROUTE_SELECTOR PREP_SELECTOR ci
      else plain_invocation normalized ROUTE_MANAGED_CODEX PREP_RUNTIME ci)"

definition select_rodex_invocation :: "pystr list \<Rightarrow> codex_cli_contract \<Rightarrow> rodex_invocation" where
  "select_rodex_invocation arguments c =
     (let normalized = (if arguments = [] then [CREATE_COMMAND] else arguments) in
      case classify_rodex_command normalized of
        Some cl \<Rightarrow>
          \<lparr>ri_arguments = normalized, ri_route = cl_route cl, ri_preparation = ROUTE_PREPARATIONS (cl_route cl),
           ri_classification = Some cl, ri_codex_invocation = None, ri_force_old = False\<rparr>
      | None \<Rightarrow>
          if count_list normalized FORCE_OLD_FLAG = 1 \<and> lit ''--'' \<notin> set normalized then
            (let candidate = classify c (filter (\<lambda>t. t \<noteq> FORCE_OLD_FLAG) normalized) in
             if cinv_selector_candidate candidate \<noteq> None
             then (plain_invocation normalized ROUTE_SELECTOR PREP_SELECTOR candidate)\<lparr>ri_force_old := True\<rparr>
             else select_by_codex_contract c normalized)
          else select_by_codex_contract c normalized)"

subsection \<open>Preparation\<close>

definition make_launcher :: "app_env \<Rightarrow> pystr \<Rightarrow> pystr \<Rightarrow> launcher" where
  "make_launcher env codex tmux = (if launcher_provided env then ProvidedLauncher else BuiltLauncher codex tmux)"

definition acquire_runtime :: "app_env \<Rightarrow> runtime_services app" where
  "acquire_runtime env =
     (case resolve_executable env (configured_tmux env) of
        None \<Rightarrow> app_raise (ExecutableNotFound (configured_tmux env))
      | Some tmux \<Rightarrow>
          (let codex_binary = resolve_executable env (configured_codex env);
               named = (case codex_binary of
                          None \<Rightarrow> configured_codex env
                        | Some b \<Rightarrow> if b = [] then configured_codex env else b)
           in app_return \<lparr>rs_launcher = make_launcher env named tmux, rs_codex_binary = codex_binary\<rparr>))"

definition codex_session_is_persisted :: "app_env \<Rightarrow> pystr \<Rightarrow> bool app" where
  "codex_session_is_persisted env codex_session_id =
     (case resolve_executable env (configured_codex env) of
        None \<Rightarrow> app_raise (ExecutableNotFound (configured_codex env))
      | Some b \<Rightarrow>
          (let l = make_launcher env b (configured_tmux env)
           in app_call (CallSessionIsPersisted l codex_session_id) (session_is_persisted env l codex_session_id)))"

definition prepare_direct_passthrough :: "codex_cli_contract \<Rightarrow> rodex_invocation \<Rightarrow> prepared_invocation" where
  "prepare_direct_passthrough c i =
     \<lparr>pi_invocation = i\<lparr>ri_route := ROUTE_CODEX, ri_preparation := PREP_DIRECT,
        ri_codex_invocation := Some (classify c (ri_arguments i)), ri_force_old := False\<rparr>,
      pi_runtime = None, pi_selected = None\<rparr>"

text \<open>The part of the selector branch after \<^verbatim>\<open>force_old\<close> has been settled.\<close>

definition prepare_selection ::
    "app_env \<Rightarrow> rodex_invocation \<Rightarrow> codex_cli_invocation \<Rightarrow> session_selection option \<Rightarrow> prepared_invocation app" where
  "prepare_selection env i ci selection =
     app_bind
       (case selection of
          Some (UnregisteredCodexSessionSelection supplied cid) \<Rightarrow>
            app_bind (codex_session_is_persisted env cid)
              (\<lambda>persisted. app_return (if persisted then selection else None))
        | _ \<Rightarrow> app_return selection)
       (\<lambda>selection'.
          if selection' = None \<and> cinv_route ci = RESUME_SELECTOR
          then app_return \<lparr>pi_invocation = i, pi_runtime = None, pi_selected = None\<rparr>
          else app_bind (acquire_runtime env)
                 (\<lambda>rt. app_return \<lparr>pi_invocation = i, pi_runtime = Some rt, pi_selected = selection'\<rparr>))"

definition prepare_selector :: "app_env \<Rightarrow> codex_cli_contract \<Rightarrow> rodex_invocation \<Rightarrow> prepared_invocation app" where
  "prepare_selector env c i =
     (if ri_route i \<noteq> ROUTE_SELECTOR then app_raise AssertionFailed
      else case ri_codex_invocation i of
        None \<Rightarrow> app_raise AssertionFailed
      | Some ci \<Rightarrow>
          (case cinv_selector_candidate ci of
             None \<Rightarrow> app_raise AssertionFailed
           | Some selector \<Rightarrow>
               app_bind (app_call (CallResolveSelector selector) (resolve_selector env selector))
                 (\<lambda>selection.
                    if ri_force_old i then
                      (case selection of
                         Some (OwnedSessionSelection supplied sid _) \<Rightarrow>
                           prepare_selection env i ci (Some (OwnedSessionSelection supplied sid True))
                       | _ \<Rightarrow> app_return (prepare_direct_passthrough c i))
                    else prepare_selection env i ci selection)))"

definition prepare_runtime :: "app_env \<Rightarrow> rodex_invocation \<Rightarrow> (prepared_invocation + int) app" where
  "prepare_runtime env i =
     (case acquire_runtime env of
        (t, Inl (ExecutableNotFound e)) \<Rightarrow>
          if ri_route i \<noteq> ROUTE_MACHINE then (t, Inl (ExecutableNotFound e))
          else (case ri_classification i of
                  None \<Rightarrow> (t, Inl AssertionFailed)
                | Some cl \<Rightarrow>
                    (case cl_machine cl of
                       None \<Rightarrow> (t, Inl AssertionFailed)
                     | Some m \<Rightarrow>
                         (t @ [PrintMachineError (m_operation m)
                                (if 1 < length (ri_arguments i) then Some (ri_arguments i ! 1) else None)],
                          Inr (Inr 3))))
      | (t, Inl e) \<Rightarrow> (t, Inl e)
      | (t, Inr rt) \<Rightarrow> (t, Inr (Inl \<lparr>pi_invocation = i, pi_runtime = Some rt, pi_selected = None\<rparr>)))"

definition prepare :: "app_env \<Rightarrow> codex_cli_contract \<Rightarrow> rodex_invocation \<Rightarrow> (prepared_invocation + int) app" where
  "prepare env c i =
     (case ri_preparation i of
        PREP_DIRECT \<Rightarrow> app_return (Inl \<lparr>pi_invocation = i, pi_runtime = None, pi_selected = None\<rparr>)
      | PREP_SELECTOR \<Rightarrow> app_bind (prepare_selector env c i) (\<lambda>p. app_return (Inl p))
      | PREP_RUNTIME \<Rightarrow> prepare_runtime env i)"

subsection \<open>Execution\<close>

definition execute_codex :: "app_env \<Rightarrow> pystr list \<Rightarrow> int app" where
  "execute_codex env args =
     (case resolve_executable env (configured_codex env) of
        None \<Rightarrow> app_raise (ExecutableNotFound (configured_codex env))
      | Some b \<Rightarrow> app_call (CallCodex b args) (run_codex env b args))"

definition execute_managed_codex :: "app_env \<Rightarrow> rodex_invocation \<Rightarrow> runtime_services \<Rightarrow> int app" where
  "execute_managed_codex env i rt =
     (case ri_codex_invocation i of
        None \<Rightarrow> app_raise AssertionFailed
      | Some ci \<Rightarrow>
          if cinv_route ci \<noteq> MANAGED_INTERACTIVE then app_raise AssertionFailed
          else app_call (CallManagedInteractive (cinv_arguments ci) (rs_launcher rt) (rs_codex_binary rt))
                 (run_managed_interactive env (cinv_arguments ci) (rs_launcher rt) (rs_codex_binary rt)))"

definition execute_selector_route :: "app_env \<Rightarrow> prepared_invocation \<Rightarrow> int app" where
  "execute_selector_route env p =
     (let i = pi_invocation p; argv = ri_arguments i in
      case ri_codex_invocation i of
        None \<Rightarrow> app_raise AssertionFailed
      | Some ci \<Rightarrow>
          (let explicit_resume = (cinv_route ci = RESUME_SELECTOR) in
           if explicit_resume \<and> pi_selected p = None then execute_codex env argv
           else case pi_runtime p of
             None \<Rightarrow> app_raise AssertionFailed
           | Some rt \<Rightarrow>
               (let fallback = (if explicit_resume then execute_codex env argv
                                else execute_managed_codex env i rt) in
                case pi_selected p of
                  None \<Rightarrow> fallback
                | Some selection \<Rightarrow>
                    app_bind
                      (app_call (CallExecuteSelector selection (rs_launcher rt) (rs_codex_binary rt \<noteq> None))
                         (execute_selector env selection (rs_launcher rt) (rs_codex_binary rt \<noteq> None)))
                      (\<lambda>outcome. if outcome = OPENED then app_return 0 else fallback))))"

definition execute_runtime_route :: "app_env \<Rightarrow> rodex_invocation \<Rightarrow> runtime_services \<Rightarrow> int app" where
  "execute_runtime_route env i rt =
     (let argv = ri_arguments i in
      case ri_route i of
        ROUTE_MACHINE \<Rightarrow>
          (case ri_classification i of
             None \<Rightarrow> app_raise AssertionFailed
           | Some cl \<Rightarrow>
               (case cl_machine cl of
                  None \<Rightarrow> app_raise AssertionFailed
                | Some m \<Rightarrow> app_call (CallMachine argv m (rs_launcher rt)) (run_machine env argv m (rs_launcher rt))))
      | ROUTE_SESSION \<Rightarrow> app_status (app_call (CallSession argv (rs_launcher rt)) (run_session env argv (rs_launcher rt)))
      | ROUTE_LAUNCH \<Rightarrow>
          app_call (CallLaunch argv (rs_launcher rt) (rs_codex_binary rt))
            (run_launch env argv (rs_launcher rt) (rs_codex_binary rt))
      | ROUTE_MANAGED_CODEX \<Rightarrow> execute_managed_codex env i rt
      | _ \<Rightarrow> app_raise AssertionFailed)"

definition execute_prepared :: "app_env \<Rightarrow> prepared_invocation \<Rightarrow> int app" where
  "execute_prepared env p =
     (let i = pi_invocation p; argv = ri_arguments i in
      case ri_route i of
        ROUTE_HELP \<Rightarrow>
          if argv \<noteq> [HELP_COMMAND] then app_raise (LaunchUsage ''usage: rodex _help'')
          else ([PrintHelp], Inr 0)
      | ROUTE_VERSION \<Rightarrow>
          if argv \<noteq> [VERSION_COMMAND] then app_raise (LaunchUsage ''usage: rodex _version'')
          else ([PrintVersion], Inr 0)
      | ROUTE_POLICY_SETUP \<Rightarrow>
          if argv \<noteq> [POLICY_SETUP_COMMAND] then app_raise (LaunchUsage ''usage: rodex _policy-setup'')
          else execute_codex env [lit ''--config'', policy_hook_override env]
      | ROUTE_CODEX \<Rightarrow> execute_codex env argv
      | ROUTE_STATISTICS \<Rightarrow> app_status (app_call (CallStatistics argv) (run_statistics env argv))
      | ROUTE_AGENT_TRACE \<Rightarrow> app_status (app_call (CallAgentTrace argv) (run_agent_trace env argv))
      | ROUTE_SELECTOR \<Rightarrow> execute_selector_route env p
      | _ \<Rightarrow>
          (case pi_runtime p of
             None \<Rightarrow> app_raise AssertionFailed
           | Some rt \<Rightarrow> execute_runtime_route env i rt))"

definition execute :: "app_env \<Rightarrow> codex_cli_contract \<Rightarrow> pystr list \<Rightarrow> int app" where
  "execute env c arguments =
     app_bind (prepare env c (select_rodex_invocation arguments c))
       (\<lambda>prepared. case prepared of
          Inr status \<Rightarrow> app_return status
        | Inl p \<Rightarrow> execute_prepared env p)"

subsection \<open>Reasoning about traced steps\<close>

text \<open>
  \<open>app_spec P Q m\<close>: every call of \<open>m\<close> satisfies \<open>P\<close>, no assertion fails, and a normal result
  satisfies \<open>Q\<close>.
\<close>

definition app_spec :: "(app_action \<Rightarrow> bool) \<Rightarrow> ('a \<Rightarrow> bool) \<Rightarrow> 'a app \<Rightarrow> bool" where
  "app_spec P Q m \<longleftrightarrow>
     (\<forall>act \<in> set (fst m). P act) \<and> (case snd m of Inl e \<Rightarrow> e \<noteq> AssertionFailed | Inr a \<Rightarrow> Q a)"

named_theorems app_rules "verification rules of traced pipeline steps"

lemma app_spec_return [app_rules]: "Q a \<Longrightarrow> app_spec P Q (app_return a)"
  by (simp add: app_spec_def app_return_def)

lemma app_spec_raise [app_rules]: "e \<noteq> AssertionFailed \<Longrightarrow> app_spec P Q (app_raise e)"
  by (simp add: app_spec_def app_raise_def)

lemma app_spec_call [app_rules]: "P act \<Longrightarrow> (\<And>a. r = Inr a \<Longrightarrow> Q a) \<Longrightarrow> app_spec P Q (app_call act r)"
  by (simp add: app_spec_def app_call_def split: sum.splits)

lemma app_spec_bind:
  "app_spec P Q m \<Longrightarrow> (\<And>a. Q a \<Longrightarrow> app_spec P R (f a)) \<Longrightarrow> app_spec P R (app_bind m f)"
proof -
  assume m: "app_spec P Q m" and f: "\<And>a. Q a \<Longrightarrow> app_spec P R (f a)"
  obtain t r where tr: "m = (t, r)" by (cases m)
  show ?thesis
  proof (cases r)
    case (Inl e)
    with m tr show ?thesis by (simp add: app_spec_def app_bind_def)
  next
    case (Inr a)
    with m tr f [of a] show ?thesis
      by (auto simp: app_spec_def app_bind_def split: prod.splits)
  qed
qed

lemma app_spec_status [app_rules]: "app_spec P (\<lambda>_. True) m \<Longrightarrow> app_spec P (\<lambda>_. True) (app_status m)"
  unfolding app_status_def by (rule app_spec_bind [where Q = "\<lambda>_. True"]) (auto intro: app_rules)

lemma app_spec_mono: "app_spec P Q m \<Longrightarrow> (\<And>a. P a \<Longrightarrow> P' a) \<Longrightarrow> (\<And>a. Q a \<Longrightarrow> Q' a) \<Longrightarrow> app_spec P' Q' m"
  by (auto simp: app_spec_def split: sum.splits)

subsection \<open>What selection and preparation establish\<close>

definition invocation_ok :: "rodex_invocation \<Rightarrow> bool" where
  "invocation_ok i \<longleftrightarrow>
     ri_preparation i = ROUTE_PREPARATIONS (ri_route i) \<and>
     (ri_route i = ROUTE_MACHINE \<longrightarrow> (\<exists>cl m. ri_classification i = Some cl \<and> cl_machine cl = Some m)) \<and>
     (ri_route i = ROUTE_SELECTOR \<longrightarrow>
        (\<exists>ci s. ri_codex_invocation i = Some ci \<and> cinv_selector_candidate ci = Some s \<and> cinv_route ci \<noteq> PASSTHROUGH)) \<and>
     (ri_route i = ROUTE_MANAGED_CODEX \<longrightarrow>
        (\<exists>ci. ri_codex_invocation i = Some ci \<and> cinv_route ci = MANAGED_INTERACTIVE))"

definition prepared_ok :: "rodex_invocation \<Rightarrow> prepared_invocation \<Rightarrow> bool" where
  "prepared_ok i p \<longleftrightarrow>
     invocation_ok (pi_invocation p) \<and> ri_arguments (pi_invocation p) = ri_arguments i \<and>
     (ri_route (pi_invocation p) = ri_route i \<or> ri_route (pi_invocation p) = ROUTE_CODEX) \<and>
     (ri_preparation (pi_invocation p) = PREP_RUNTIME \<longrightarrow> pi_runtime p \<noteq> None) \<and>
     (ri_route (pi_invocation p) = ROUTE_SELECTOR \<longrightarrow>
        pi_runtime p \<noteq> None \<or>
        pi_selected p = None \<and> (\<exists>ci. ri_codex_invocation i = Some ci \<and> cinv_route ci = RESUME_SELECTOR) \<and>
        pi_invocation p = i)"

lemma command_routes:
  "list_all (\<lambda>c. cmd_route c \<notin> {ROUTE_SELECTOR, ROUTE_MANAGED_CODEX, ROUTE_CODEX}) COMMAND_SPECS"
  by (simp add: COMMAND_SPECS_def mk_command_spec_def)

lemma classified_routes:
  assumes "classify_rodex_command args = Some cl"
  shows "cl_route cl \<notin> {ROUTE_SELECTOR, ROUTE_MANAGED_CODEX, ROUTE_CODEX}"
    and "cl_route cl = ROUTE_MACHINE \<Longrightarrow> \<exists>m. cl_machine cl = Some m"
proof -
  from assms obtain a command where
    "dict_get COMMANDS_BY_TOKEN a = Some command"
    "cl_route cl = ROUTE_MACHINE \<or> cl_route cl = cmd_route command"
    by (auto simp: classify_rodex_command_def Let_def split: list.splits option.splits if_splits)
  moreover from this(1) have "command \<in> set COMMAND_SPECS"
    by (auto simp: COMMANDS_BY_TOKEN_eq dest: dict_get_map_key)
  ultimately show "cl_route cl \<notin> {ROUTE_SELECTOR, ROUTE_MANAGED_CODEX, ROUTE_CODEX}"
    using command_routes by (auto simp: list_all_iff)
  show "\<exists>m. cl_machine cl = Some m" if "cl_route cl = ROUTE_MACHINE"
    using that machine_of_route [OF assms] by blast
qed

lemma passthrough_no_candidate:
  "cinv_selector_candidate (classify c args) \<noteq> None \<Longrightarrow> cinv_route (classify c args) \<noteq> PASSTHROUGH"
  by (auto simp: classify_def passthrough_def split: if_splits classify_outcome.splits)

lemma managed_of_no_candidate:
  "cinv_route (classify c args) \<noteq> PASSTHROUGH \<Longrightarrow> cinv_selector_candidate (classify c args) = None \<Longrightarrow>
     cinv_route (classify c args) = MANAGED_INTERACTIVE"
  by (auto simp: classify_def passthrough_def split: if_splits classify_outcome.splits)

lemma select_by_codex_contract_ok: "invocation_ok (select_by_codex_contract c args)"
  using managed_of_no_candidate [of c args]
  by (auto simp: select_by_codex_contract_def plain_invocation_def invocation_ok_def Let_def)

lemma select_rodex_invocation_ok: "invocation_ok (select_rodex_invocation args c)"
proof (cases "classify_rodex_command (if args = [] then [CREATE_COMMAND] else args)")
  case (Some cl)
  from classified_routes [OF Some] Some show ?thesis
    by (auto simp: select_rodex_invocation_def invocation_ok_def)
next
  case None
  then show ?thesis
    using select_by_codex_contract_ok passthrough_no_candidate
    by (auto simp: select_rodex_invocation_def Let_def plain_invocation_def invocation_ok_def)
qed

definition quiet_action :: "app_action \<Rightarrow> bool" where
  "quiet_action act \<longleftrightarrow> (\<forall>b a. act \<noteq> CallCodex b a) \<and> (\<forall>s l v. act \<noteq> CallExecuteSelector s l v)"

lemma acquire_runtime_spec [app_rules]: "(\<And>rt. Q rt) \<Longrightarrow> app_spec P Q (acquire_runtime env)"
  by (auto simp: acquire_runtime_def Let_def split: option.splits intro: app_rules)

definition selection_ok :: "rodex_invocation \<Rightarrow> session_selection option \<Rightarrow> prepared_invocation \<Rightarrow> bool" where
  "selection_ok i selection p \<longleftrightarrow> prepared_ok i p \<and> (pi_selected p = selection \<or> pi_selected p = None)"

lemma prepare_selection_spec:
  assumes "invocation_ok i" and "ri_route i = ROUTE_SELECTOR" and "ri_codex_invocation i = Some ci"
  shows "app_spec quiet_action (selection_ok i selection) (prepare_selection env i ci selection)"
  unfolding prepare_selection_def
proof (rule app_spec_bind [where Q = "\<lambda>sel. sel = selection \<or> sel = None"])
  show "app_spec quiet_action (\<lambda>sel. sel = selection \<or> sel = None)
     (case selection of
        Some (UnregisteredCodexSessionSelection supplied cid) \<Rightarrow>
          app_bind (codex_session_is_persisted env cid)
            (\<lambda>persisted. app_return (if persisted then selection else None))
      | _ \<Rightarrow> app_return selection)"
    by (auto simp: codex_session_is_persisted_def quiet_action_def Let_def
        split: option.splits session_selection.splits if_splits
        intro!: app_rules app_spec_bind [where Q = "\<lambda>_. True"])
next
  fix sel assume "sel = selection \<or> sel = None"
  with assms show "app_spec quiet_action (selection_ok i selection)
      (if sel = None \<and> cinv_route ci = RESUME_SELECTOR
       then app_return \<lparr>pi_invocation = i, pi_runtime = None, pi_selected = None\<rparr>
       else app_bind (acquire_runtime env)
              (\<lambda>rt. app_return \<lparr>pi_invocation = i, pi_runtime = Some rt, pi_selected = sel\<rparr>))"
    by (auto simp: selection_ok_def prepared_ok_def invocation_ok_def
        intro!: app_rules app_spec_bind [where Q = "\<lambda>_. True"])
qed

lemma prepare_direct_passthrough_ok:
  "invocation_ok i \<Longrightarrow> selection_ok i None (prepare_direct_passthrough c i)"
  by (auto simp: prepare_direct_passthrough_def selection_ok_def prepared_ok_def invocation_ok_def)

text \<open>\<open>prepared_for i p\<close>: \<open>p\<close> is ready to run and only a forced invocation selects the old runtime.\<close>

definition prepared_for :: "(pystr \<Rightarrow> session_selection option) \<Rightarrow> rodex_invocation \<Rightarrow> prepared_invocation \<Rightarrow> bool" where
  "prepared_for resolved i p \<longleftrightarrow>
     prepared_ok i p \<and>
     (\<forall>supplied sid. pi_selected p = Some (OwnedSessionSelection supplied sid True) \<longrightarrow>
        ri_force_old i \<or> (\<exists>s. resolved s = Some (OwnedSessionSelection supplied sid True)))"

definition resolved_by :: "app_env \<Rightarrow> pystr \<Rightarrow> session_selection option" where
  "resolved_by env s = (case resolve_selector env s of Inr sel \<Rightarrow> sel | Inl _ \<Rightarrow> None)"

lemma prepare_selector_spec:
  assumes "invocation_ok i" and "ri_route i = ROUTE_SELECTOR"
  shows "app_spec quiet_action (prepared_for (resolved_by env) i) (prepare_selector env c i)"
proof -
  from assms obtain ci s where ci: "ri_codex_invocation i = Some ci" "cinv_selector_candidate ci = Some s"
    by (auto simp: invocation_ok_def)
  have forward: "app_spec quiet_action (prepared_for (resolved_by env) i) (prepare_selection env i ci sel)"
    if "\<And>supplied sid. sel = Some (OwnedSessionSelection supplied sid True) \<Longrightarrow>
          ri_force_old i \<or> resolved_by env s = sel" for sel
    using prepare_selection_spec [OF assms ci(1), of sel env]
    by (rule app_spec_mono) (use that in \<open>force simp: selection_ok_def prepared_for_def\<close>)+
  show ?thesis
    using assms ci
    by (auto simp: prepare_selector_def quiet_action_def resolved_by_def split: option.splits session_selection.splits
        intro!: forward app_rules app_spec_bind [where Q = "\<lambda>sel. resolve_selector env s = Inr sel"]
          prepare_direct_passthrough_ok [of i c, unfolded selection_ok_def, THEN conjunct1]
        simp: prepared_for_def prepare_direct_passthrough_def prepared_ok_def invocation_ok_def)
qed

lemma prepare_runtime_spec:
  assumes "invocation_ok i"
  shows "app_spec quiet_action
    (\<lambda>r. case r of Inl p \<Rightarrow> prepared_for (resolved_by env) i p | Inr _ \<Rightarrow> True) (prepare_runtime env i)"
proof (cases "resolve_executable env (configured_tmux env)")
  case None
  with assms show ?thesis
    by (auto simp: prepare_runtime_def acquire_runtime_def app_raise_def app_spec_def quiet_action_def
        invocation_ok_def split: option.splits)
next
  case (Some t)
  with assms show ?thesis
    by (auto simp: prepare_runtime_def acquire_runtime_def app_return_def app_spec_def prepared_for_def
        prepared_ok_def Let_def)
qed

lemma prepare_spec:
  assumes "invocation_ok i"
  shows "app_spec quiet_action
    (\<lambda>r. case r of Inl p \<Rightarrow> prepared_for (resolved_by env) i p | Inr _ \<Rightarrow> True) (prepare env c i)"
proof (cases "ri_preparation i")
  case PREP_DIRECT
  with assms show ?thesis
    by (auto simp: prepare_def prepared_for_def prepared_ok_def invocation_ok_def intro!: app_rules)
next
  case PREP_SELECTOR
  with assms have "ri_route i = ROUTE_SELECTOR"
    by (cases "ri_route i") (auto simp: invocation_ok_def)
  with assms PREP_SELECTOR show ?thesis
    by (auto simp: prepare_def intro!: app_rules app_spec_bind [OF prepare_selector_spec])
next
  case PREP_RUNTIME
  with assms show ?thesis
    by (simp add: prepare_def prepare_runtime_spec)
qed

subsection \<open>What execution does\<close>

definition execution_action :: "app_env \<Rightarrow> prepared_invocation \<Rightarrow> app_action \<Rightarrow> bool" where
  "execution_action env p act \<longleftrightarrow>
     (\<forall>b a. act = CallCodex b a \<longrightarrow>
        a = ri_arguments (pi_invocation p) \<or>
        ri_arguments (pi_invocation p) = [POLICY_SETUP_COMMAND] \<and> a = [lit ''--config'', policy_hook_override env]) \<and>
     (\<forall>s l v. act = CallExecuteSelector s l v \<longrightarrow> pi_selected p = Some s)"

lemma execute_codex_spec [app_rules]:
  "(\<And>b. P (CallCodex b args)) \<Longrightarrow> app_spec P (\<lambda>_. True) (execute_codex env args)"
  by (auto simp: execute_codex_def split: option.splits intro!: app_rules)

lemma execute_managed_codex_spec:
  "ri_codex_invocation i = Some ci \<Longrightarrow> cinv_route ci = MANAGED_INTERACTIVE \<Longrightarrow>
     app_spec (execution_action env p) (\<lambda>_. True) (execute_managed_codex env i rt)"
  by (auto simp: execute_managed_codex_def execution_action_def intro!: app_rules)

lemma execute_selector_route_spec:
  assumes "prepared_ok i p" and "ri_route (pi_invocation p) = ROUTE_SELECTOR"
  shows "app_spec (execution_action env p) (\<lambda>_. True) (execute_selector_route env p)"
proof -
  from assms obtain ci where ci: "ri_codex_invocation (pi_invocation p) = Some ci" "cinv_route ci \<noteq> PASSTHROUGH"
    by (auto simp: prepared_ok_def invocation_ok_def)
  have codex: "app_spec (execution_action env p) (\<lambda>_. True) (execute_codex env (ri_arguments (pi_invocation p)))"
    by (auto simp: execution_action_def intro!: app_rules)
  have fallback: "app_spec (execution_action env p) (\<lambda>_. True)
      (if cinv_route ci = RESUME_SELECTOR then execute_codex env (ri_arguments (pi_invocation p))
       else execute_managed_codex env (pi_invocation p) rt)" for rt
    using codex ci by (cases "cinv_route ci") (auto intro: execute_managed_codex_spec)
  show ?thesis
  proof (cases "pi_runtime p")
    case None
    with assms ci have "pi_selected p = None" "cinv_route ci = RESUME_SELECTOR"
      by (auto simp: prepared_ok_def)
    with ci codex show ?thesis by (simp add: execute_selector_route_def)
  next
    case (Some rt)
    with ci codex fallback [of rt] show ?thesis
      by (auto simp: execute_selector_route_def Let_def execution_action_def split: option.splits
          intro!: app_rules app_spec_bind [where Q = "\<lambda>_. True"])
  qed
qed

lemma execute_prepared_spec:
  assumes "prepared_ok i p"
  shows "app_spec (execution_action env p) (\<lambda>_. True) (execute_prepared env p)"
proof -
  have runtime: "\<exists>rt. pi_runtime p = Some rt"
    if "ri_route (pi_invocation p) \<in> {ROUTE_MACHINE, ROUTE_SESSION, ROUTE_LAUNCH, ROUTE_MANAGED_CODEX}"
    using assms that by (auto simp: prepared_ok_def invocation_ok_def)
  show ?thesis
  proof (cases "ri_route (pi_invocation p)")
    case ROUTE_SELECTOR
    with execute_selector_route_spec [OF assms this] show ?thesis
      by (simp add: execute_prepared_def)
  next
    case ROUTE_MANAGED_CODEX
    with assms runtime show ?thesis
      by (auto simp: execute_prepared_def execute_runtime_route_def prepared_ok_def invocation_ok_def
          intro: execute_managed_codex_spec)
  next
    case ROUTE_MACHINE
    with assms runtime show ?thesis
      by (auto simp: execute_prepared_def execute_runtime_route_def prepared_ok_def invocation_ok_def
          execution_action_def Let_def intro!: app_rules)
  qed (use runtime in \<open>auto simp: execute_prepared_def execute_runtime_route_def execution_action_def
        Let_def app_spec_def [of _ _ "(_, _)"] intro!: app_rules\<close>)
qed

lemma select_arguments [simp]:
  "ri_arguments (select_rodex_invocation args c) = (if args = [] then [CREATE_COMMAND] else args)"
  by (simp add: select_rodex_invocation_def select_by_codex_contract_def plain_invocation_def Let_def
      split: option.splits)

lemma select_force_old:
  "ri_force_old (select_rodex_invocation args c) \<Longrightarrow> count_list args FORCE_OLD_FLAG = 1 \<and> lit ''--'' \<notin> set args"
  by (auto simp: select_rodex_invocation_def select_by_codex_contract_def plain_invocation_def Let_def
      command_name_defs split: option.splits if_splits)

definition pipeline_action :: "app_env \<Rightarrow> codex_cli_contract \<Rightarrow> pystr list \<Rightarrow> app_action \<Rightarrow> bool" where
  "pipeline_action env c args act \<longleftrightarrow>
     quiet_action act \<or>
     (\<exists>p. prepared_for (resolved_by env) (select_rodex_invocation args c) p \<and> execution_action env p act)"

lemma execute_spec: "app_spec (pipeline_action env c args) (\<lambda>_. True) (execute env c args)"
proof -
  let ?i = "select_rodex_invocation args c"
  have "app_spec (pipeline_action env c args)
      (\<lambda>r. case r of Inl p \<Rightarrow> prepared_for (resolved_by env) ?i p | Inr _ \<Rightarrow> True) (prepare env c ?i)"
    using prepare_spec [OF select_rodex_invocation_ok, of env args c]
    by (rule app_spec_mono) (auto simp: pipeline_action_def)
  then show ?thesis
    unfolding execute_def
  proof (rule app_spec_bind)
    fix r :: "prepared_invocation + int"
    assume r: "case r of Inl p \<Rightarrow> prepared_for (resolved_by env) ?i p | Inr _ \<Rightarrow> True"
    show "app_spec (pipeline_action env c args) (\<lambda>_. True)
        (case r of Inl p \<Rightarrow> execute_prepared env p | Inr status \<Rightarrow> app_return status)"
    proof (cases r)
      case (Inl p)
      with r have p: "prepared_for (resolved_by env) ?i p" by simp
      then have "app_spec (execution_action env p) (\<lambda>_. True) (execute_prepared env p)"
        by (intro execute_prepared_spec [of ?i]) (simp add: prepared_for_def)
      then show ?thesis
        unfolding Inl sum.case by (rule app_spec_mono) (use p in \<open>auto simp: pipeline_action_def\<close>)
    next
      case (Inr n)
      then show ?thesis by (simp add: app_spec_return)
    qed
  qed
qed

text \<open>
  Property C21. Route selection, preparation and execution agree with each other: no assertion of
  the pipeline fails, for any arguments, any option contract and any behaviour of the
  collaborators. Every route has its runtime services, classification, machine specification or
  native invocation at the point where the code demands it, and the final
  \<^verbatim>\<open>unhandled Rodex application route\<close> is unreachable.
\<close>

theorem execute_no_assertion: "snd (execute env c args) \<noteq> Inl AssertionFailed"
  using execute_spec [of env c args] by (auto simp: app_spec_def split: sum.splits)

text \<open>
  Native Codex always receives the caller's own argument vector, unchanged and
  including any Rodex-only flag, whenever the pipeline delegates to it; the one exception is the
  policy setup command, which passes exactly the hook override.
\<close>

theorem execute_codex_arguments:
  assumes "CallCodex b a \<in> set (fst (execute env c args))"
  shows "a = (if args = [] then [CREATE_COMMAND] else args) \<or>
    args = [POLICY_SETUP_COMMAND] \<and> a = [lit ''--config'', policy_hook_override env]"
proof -
  from assms execute_spec [of env c args] have "pipeline_action env c args (CallCodex b a)"
    by (auto simp: app_spec_def)
  then show ?thesis
    by (auto simp: pipeline_action_def quiet_action_def execution_action_def prepared_for_def prepared_ok_def
        command_name_defs split: if_splits)
qed

text \<open>
  A session is attached on its old runtime only when the caller asked for it: if
  selector resolution itself never sets the old-runtime flag, a selection carrying it reaches the
  session lifecycle only when the arguments contain \<^verbatim>\<open>--force-old\<close> exactly once and no \<^verbatim>\<open>--\<close>.
\<close>

theorem execute_force_old:
  assumes "\<And>s supplied sid. resolve_selector env s \<noteq> Inr (Some (OwnedSessionSelection supplied sid True))"
    and "CallExecuteSelector (OwnedSessionSelection supplied sid True) l v \<in> set (fst (execute env c args))"
  shows "count_list args FORCE_OLD_FLAG = 1 \<and> lit ''--'' \<notin> set args"
proof -
  from assms(2) execute_spec [of env c args]
  have "pipeline_action env c args (CallExecuteSelector (OwnedSessionSelection supplied sid True) l v)"
    by (auto simp: app_spec_def)
  then have "ri_force_old (select_rodex_invocation args c) \<or>
      (\<exists>s. resolved_by env s = Some (OwnedSessionSelection supplied sid True))"
    by (auto simp: pipeline_action_def quiet_action_def execution_action_def prepared_for_def)
  moreover have "resolved_by env s \<noteq> Some (OwnedSessionSelection supplied sid True)" for s
    using assms(1) [of s supplied sid] by (auto simp: resolved_by_def split: sum.splits)
  ultimately show ?thesis
    by (auto dest: select_force_old)
qed

text \<open>A concrete environment: tmux and Codex are installed and every selector is owned.\<close>

definition demo_env :: app_env where
  "demo_env = \<lparr>configured_codex = lit ''codex'', configured_tmux = lit ''tmux'', launcher_provided = False,
     policy_hook_override = lit ''hooks'',
     resolve_executable = Some,
     resolve_selector = (\<lambda>s. Inr (Some (OwnedSessionSelection s 7 False))),
     session_is_persisted = (\<lambda>_ _. Inr True), run_codex = (\<lambda>_ _. Inr 0),
     run_statistics = (\<lambda>_. Inr ()), run_agent_trace = (\<lambda>_. Inr ()),
     execute_selector = (\<lambda>_ _ _. Inr OPENED), run_machine = (\<lambda>_ _ _. Inr 0),
     run_session = (\<lambda>_ _. Inr ()), run_launch = (\<lambda>_ _ _. Inr 0),
     run_managed_interactive = (\<lambda>_ _ _. Inr 0)\<rparr>"

lemmas pipeline_eval = execute_def prepare_def prepare_selector_def prepare_selection_def acquire_runtime_def
  execute_prepared_def execute_selector_route_def execute_codex_def select_rodex_invocation_def
  select_by_codex_contract_def plain_invocation_def make_launcher_def
  app_bind_def app_return_def app_raise_def app_call_def app_status_def Let_def
  classify_rodex_command_def COMMANDS_BY_TOKEN_eq COMMAND_SPECS_def mk_command_spec_def command_name_defs

theorem execute_force_old_witness:
  "CallExecuteSelector (OwnedSessionSelection (lit ''demo'') 7 True) (BuiltLauncher (lit ''codex'') (lit ''tmux'')) True
     \<in> set (fst (execute demo_env codex_cli_0_151_0 [lit ''demo'', lit ''--force-old''])) \<and>
   count_list [lit ''demo'', lit ''--force-old''] FORCE_OLD_FLAG = 1"
proof -
  have "CallExecuteSelector (OwnedSessionSelection (lit ''demo'') 7 True) (BuiltLauncher (lit ''codex'') (lit ''tmux'')) True
      \<in> set (fst (execute demo_env codex_cli_0_151_0 [lit ''demo'', lit ''--force-old'']))"
    by (simp add: pipeline_eval demo_env_def classify_eval codex_eval)
  moreover have "\<And>s supplied sid. resolve_selector demo_env s \<noteq> Inr (Some (OwnedSessionSelection supplied sid True))"
    by (simp add: demo_env_def)
  ultimately show ?thesis
    using execute_force_old [of demo_env] by blast
qed

theorem execute_codex_arguments_witness:
  "CallCodex (lit ''codex'') [lit ''exec'', lit ''ls'']
     \<in> set (fst (execute demo_env codex_cli_0_151_0 [lit ''exec'', lit ''ls''])) \<and>
   [lit ''exec'', lit ''ls''] \<noteq> [POLICY_SETUP_COMMAND]"
proof -
  have "CallCodex (lit ''codex'') [lit ''exec'', lit ''ls'']
      \<in> set (fst (execute demo_env codex_cli_0_151_0 [lit ''exec'', lit ''ls'']))"
    by (simp add: pipeline_eval demo_env_def classify_eval codex_eval)
  with execute_codex_arguments [OF this] show ?thesis by simp
qed

end
