(* ===== verification/Protocol_Values.thy ===== *)
theory Protocol_Values
  imports Prelude
begin

section \<open>Decoded protocol messages\<close>

text \<open>
  The values that \<^verbatim>\<open>json.loads\<close> produces, with insertion-ordered objects, and the accessors the
  components use: \<open>jfield d k\<close> is \<^verbatim>\<open>d.get(k)\<close> (Python's \<^verbatim>\<open>None\<close> for an absent key and for JSON null
  alike), \<open>jhas d k\<close> is \<^verbatim>\<open>k in d\<close>. \<open>as_str\<close>, \<open>as_dict\<close> and \<open>as_list\<close> are the \<^verbatim>\<open>isinstance\<close> tests.
\<close>

datatype json =
    JNull
  | JBool bool
  | JInt int
  | JFloat pyfloat
  | JStr pystr
  | JList "json list"
  | JDict "(pystr \<times> json) list"

type_synonym message = "(pystr, json) dict"

definition jfield :: "message \<Rightarrow> string \<Rightarrow> json" where
  "jfield d k = (case dict_get d (lit k) of None \<Rightarrow> JNull | Some v \<Rightarrow> v)"

definition jhas :: "message \<Rightarrow> string \<Rightarrow> bool" where
  "jhas d k \<longleftrightarrow> dict_get d (lit k) \<noteq> None"

lemma jfield_dict_set [simp]: "jfield (dict_set k v d) k' = (if lit k' = k then v else jfield d k')"
  by (auto simp: jfield_def)

fun as_str :: "json \<Rightarrow> pystr option" where
  "as_str (JStr s) = Some s"
| "as_str _ = None"

fun as_dict :: "json \<Rightarrow> message option" where
  "as_dict (JDict d) = Some d"
| "as_dict _ = None"

fun as_list :: "json \<Rightarrow> json list option" where
  "as_list (JList xs) = Some xs"
| "as_list _ = None"

lemma as_str_eq_Some [simp]: "as_str j = Some s \<longleftrightarrow> j = JStr s"
  by (cases j) auto

lemma as_dict_eq_Some [simp]: "as_dict j = Some d \<longleftrightarrow> j = JDict d"
  by (cases j) auto

lemma as_list_eq_Some [simp]: "as_list j = Some xs \<longleftrightarrow> j = JList xs"
  by (cases j) auto

text \<open>A non-empty string, which is how the components accept an identifier.\<close>

definition as_id :: "json \<Rightarrow> pystr option" where
  "as_id j = (case as_str j of None \<Rightarrow> None | Some s \<Rightarrow> if s = [] then None else Some s)"

lemma as_id_eq_Some: "as_id j = Some s \<longleftrightarrow> j = JStr s \<and> s \<noteq> []"
  by (cases j) (auto simp: as_id_def)

text \<open>\<^verbatim>\<open>x.get(k) if isinstance(x, Mapping) else None\<close>.\<close>

definition jpath :: "json \<Rightarrow> string \<Rightarrow> json" where
  "jpath j k = (case as_dict j of None \<Rightarrow> JNull | Some d \<Rightarrow> jfield d k)"

lemma size_map_of_json: "map_of d k = Some x \<Longrightarrow> size x < size (JDict d)"
  by (induction d) (auto split: if_splits)

lemma size_nth_json: "i < length xs \<Longrightarrow> size (xs ! i) < size (JList xs)"
  using size_list_estimation' [of "xs ! i" xs "size (xs ! i)" size] by (simp add: less_Suc_eq_le)

subsection \<open>Equality of values\<close>

text \<open>Python's \<^verbatim>\<open>==\<close>: numbers of different types compare by value, dictionaries without regard to the
  order of their keys.\<close>

fun py_num :: "json \<Rightarrow> pyfloat option" where
  "py_num (JBool b) = Some (Finite (if b then 1 else 0))"
| "py_num (JInt i) = Some (Finite (of_int i))"
| "py_num (JFloat f) = Some f"
| "py_num _ = None"

function (sequential) py_eq :: "json \<Rightarrow> json \<Rightarrow> bool" where
  "py_eq JNull JNull = True"
| "py_eq (JStr s) (JStr t) = (s = t)"
| "py_eq (JList xs) (JList ys) = (length xs = length ys \<and> (\<forall>i \<in> {..<length xs}. py_eq (xs ! i) (ys ! i)))"
| "py_eq (JDict d) (JDict e) =
     (length d = length e \<and>
      (\<forall>k \<in> set (dict_keys d). case (map_of d k, map_of e k) of (Some x, Some y) \<Rightarrow> py_eq x y | _ \<Rightarrow> False))"
| "py_eq a b = (py_num a \<noteq> None \<and> py_num a = py_num b)"
  by pat_completeness auto
termination
  by (relation "measure (\<lambda>(a, b). size a)")
    (simp_all only: in_measure case_prod_conv prod.inject size_map_of_json [OF sym] size_nth_json lessThan_iff wf_measure)

end
