(* ===== verification/Primary_Binding.thy ===== *)
theory Primary_Binding
  imports Protocol_Values
begin

section \<open>Primary thread binding\<close>

text \<open>
  \<^verbatim>\<open>src/rodex/primary_thread_binding.py\<close>: which native thread is the main one, proven only by
  correlated acknowledgements of \<^verbatim>\<open>thread/start\<close>, \<^verbatim>\<open>thread/resume\<close> and \<^verbatim>\<open>thread/fork\<close>. The state is
  the record \<open>binding\<close>; each method is a function from state to state, and a connection is a
  sequence of \<open>binding_event\<close>s.
\<close>

definition PRIMARY_THREAD_METHODS :: "pystr list" where
  "PRIMARY_THREAD_METHODS = map lit [''thread/start'', ''thread/resume'', ''thread/fork'']"

definition MAX_PENDING_THREAD_SELECTIONS :: nat where
  "MAX_PENDING_THREAD_SELECTIONS = 32"

record pending_thread =
  expected_thread_id :: "pystr option"
  pending_ephemeral :: bool

datatype request_id = IntKey int | StrKey pystr

record binding =
  selected_thread_id :: "pystr option"
  selected_thread_metadata :: "message option"
  pending_threads :: "(request_id, pending_thread) dict"
  binding_invalid :: bool

definition initial_binding :: binding where
  "initial_binding = \<lparr>selected_thread_id = None, selected_thread_metadata = None, pending_threads = [],
     binding_invalid = False\<rparr>"

fun request_key :: "json \<Rightarrow> request_id option" where
  "request_key (JInt i) = Some (IntKey i)"
| "request_key (JStr s) = Some (StrKey s)"
| "request_key _ = None"

definition binding_thread_id :: "binding \<Rightarrow> pystr option" where
  "binding_thread_id b =
     (let selecting_main = (\<exists>p \<in> set (map snd (pending_threads b)). \<not> pending_ephemeral p)
      in if binding_invalid b \<or> selecting_main then None else selected_thread_id b)"

definition binding_thread_metadata :: "binding \<Rightarrow> message option" where
  "binding_thread_metadata b =
     (if binding_thread_id b \<noteq> None \<and> selected_thread_metadata b \<noteq> None then selected_thread_metadata b else None)"

definition invalidate :: "binding \<Rightarrow> binding" where
  "invalidate b = b\<lparr>binding_invalid := True, selected_thread_id := None, selected_thread_metadata := None,
     pending_threads := []\<rparr>"

text \<open>The \<^verbatim>\<open>ephemeral\<close> field of a selection request: absent or null is the native default, a value
  that is not a Boolean is refused.\<close>

definition requested_ephemeral :: "pystr \<Rightarrow> message \<Rightarrow> bool option" where
  "requested_ephemeral method params =
     (if method = lit ''thread/start'' \<or> method = lit ''thread/fork'' then
        (case jfield params ''ephemeral'' of JNull \<Rightarrow> Some False | JBool e \<Rightarrow> Some e | _ \<Rightarrow> None)
      else Some False)"

definition expected_thread :: "pystr \<Rightarrow> message \<Rightarrow> pystr option option" where
  "expected_thread method params =
     (if method = lit ''thread/resume'' then
        (case jfield params ''threadId'' of
           JNull \<Rightarrow> Some None
         | JStr s \<Rightarrow> if s = [] then None else Some (Some s)
         | _ \<Rightarrow> None)
      else Some None)"

definition observe_request :: "binding \<Rightarrow> message \<Rightarrow> binding" where
  "observe_request b message =
     (case jfield message ''method'' of
        JStr method \<Rightarrow>
          if binding_invalid b then b
          else let key = request_key (jfield message ''id'') in
            if (case key of Some k \<Rightarrow> k \<in> set (dict_keys (pending_threads b)) | None \<Rightarrow> False) then invalidate b
            else if method \<notin> set PRIMARY_THREAD_METHODS then b
            else (case (key, jfield message ''params'') of
                    (Some k, JDict params) \<Rightarrow>
                      if MAX_PENDING_THREAD_SELECTIONS \<le> length (pending_threads b) then invalidate b
                      else (case expected_thread method params of
                              None \<Rightarrow> invalidate b
                            | Some expected \<Rightarrow>
                                (case requested_ephemeral method params of
                                   None \<Rightarrow> invalidate b
                                 | Some eph \<Rightarrow>
                                     b\<lparr>pending_threads :=
                                         dict_set k \<lparr>expected_thread_id = expected, pending_ephemeral = eph\<rparr>
                                           (pending_threads b)\<rparr>))
                  | _ \<Rightarrow> invalidate b)
      | _ \<Rightarrow> b)"

definition definitive_rejection :: "json \<Rightarrow> bool" where
  "definitive_rejection error =
     (case error of
        JDict e \<Rightarrow> (case (jfield e ''code'', jfield e ''message'') of (JInt _, JStr _) \<Rightarrow> True | _ \<Rightarrow> False)
      | _ \<Rightarrow> False)"

definition accepted_metadata :: "pystr \<Rightarrow> message \<Rightarrow> message" where
  "accepted_metadata thread_id thread =
     [(lit ''id'', JStr thread_id), (lit ''ephemeral'', JBool False)]
     @ (case jfield thread ''path'' of JStr path \<Rightarrow> [(lit ''path'', JStr path)] | _ \<Rightarrow> [])"

text \<open>The accepted result of a response: the thread object when every check of the code passes.\<close>

definition accepted_thread :: "binding \<Rightarrow> pending_thread \<Rightarrow> message \<Rightarrow> (pystr \<times> message) option" where
  "accepted_thread b pending message =
     (case jpath (jfield message ''result'') ''thread'' of
        JDict thread \<Rightarrow>
          (case jfield thread ''id'' of
             JStr thread_id \<Rightarrow>
               if jhas message ''error'' \<or> thread_id = []
                  \<or> jfield thread ''ephemeral'' \<noteq> JBool (pending_ephemeral pending)
                  \<or> (expected_thread_id pending \<noteq> None \<and> expected_thread_id pending \<noteq> Some thread_id)
                  \<or> (\<not> pending_ephemeral pending \<and> selected_thread_id b \<noteq> None
                     \<and> selected_thread_id b \<noteq> Some thread_id)
               then None
               else Some (thread_id, thread)
           | _ \<Rightarrow> None)
      | _ \<Rightarrow> None)"

definition observe_response :: "binding \<Rightarrow> message \<Rightarrow> binding" where
  "observe_response b message =
     (if jhas message ''method'' \<or> binding_invalid b then b
      else case request_key (jfield message ''id'') of
        None \<Rightarrow> b
      | Some key \<Rightarrow>
          (case dict_get (pending_threads b) key of
             None \<Rightarrow> b
           | Some pending \<Rightarrow>
               (let b' = b\<lparr>pending_threads := dict_pop key (pending_threads b)\<rparr> in
                if jhas message ''error'' \<and> \<not> jhas message ''result'' then
                  (if definitive_rejection (jfield message ''error'') then b' else invalidate b')
                else case accepted_thread b' pending message of
                  None \<Rightarrow> invalidate b'
                | Some (thread_id, thread) \<Rightarrow>
                    if pending_ephemeral pending then b'
                    else b'\<lparr>selected_thread_id := Some thread_id,
                            selected_thread_metadata := Some (accepted_metadata thread_id thread)\<rparr>)))"

datatype binding_event = BindRequest message | BindResponse message | BindDisconnect

fun binding_step :: "binding \<Rightarrow> binding_event \<Rightarrow> binding" where
  "binding_step b (BindRequest m) = observe_request b m"
| "binding_step b (BindResponse m) = observe_response b m"
| "binding_step b BindDisconnect = invalidate b"

subsection \<open>Invariant and authority order\<close>

definition binding_inv :: "binding \<Rightarrow> bool" where
  "binding_inv b \<longleftrightarrow>
     length (pending_threads b) \<le> MAX_PENDING_THREAD_SELECTIONS \<and> distinct (dict_keys (pending_threads b)) \<and>
     (binding_invalid b \<longrightarrow> selected_thread_id b = None \<and> pending_threads b = []) \<and>
     (selected_thread_metadata b = None \<longleftrightarrow> selected_thread_id b = None) \<and>
     selected_thread_id b \<noteq> Some []"

text \<open>Lost authority never returns, and a selected root is never replaced by another one.\<close>

definition binding_rel :: "binding \<Rightarrow> binding \<Rightarrow> bool" where
  "binding_rel b b' \<longleftrightarrow>
     (binding_invalid b \<longrightarrow> binding_invalid b') \<and>
     (\<forall>t. selected_thread_id b = Some t \<longrightarrow> binding_invalid b' \<or> selected_thread_id b' = Some t)"

lemma invalidate_inv: "binding_inv (invalidate b)"
  by (simp add: binding_inv_def invalidate_def)

lemma invalidate_rel: "binding_rel b (invalidate b)"
  by (simp add: binding_rel_def invalidate_def)

lemma observe_request_result:
  "observe_request b m = b \<or> observe_request b m = invalidate b \<or>
   (\<exists>k p. observe_request b m = b\<lparr>pending_threads := dict_set k p (pending_threads b)\<rparr> \<and>
      k \<notin> set (dict_keys (pending_threads b)) \<and> length (pending_threads b) < MAX_PENDING_THREAD_SELECTIONS \<and>
      \<not> binding_invalid b)"
  unfolding observe_request_def Let_def
  by (cases "jfield m ''method''"; cases "request_key (jfield m ''id'')"; cases "jfield m ''params''")
     (fastforce split: option.split)+

lemma observe_request_cases:
  obtains "observe_request b m = b" | "observe_request b m = invalidate b"
  | k p where "observe_request b m = b\<lparr>pending_threads := dict_set k p (pending_threads b)\<rparr>"
      "k \<notin> set (dict_keys (pending_threads b))" "length (pending_threads b) < MAX_PENDING_THREAD_SELECTIONS"
      "\<not> binding_invalid b"
  using observe_request_result [of b m] by blast

lemma observe_response_result:
  fixes b m k
  defines "b' \<equiv> b\<lparr>pending_threads := dict_pop k (pending_threads b)\<rparr>"
  assumes "\<not> jhas m ''method''" "\<not> binding_invalid b" "request_key (jfield m ''id'') = Some k"
    "dict_get (pending_threads b) k = Some p"
  shows "observe_response b m = b' \<or> observe_response b m = invalidate b' \<or>
    (\<exists>t thread. observe_response b m = b'\<lparr>selected_thread_id := Some t,
         selected_thread_metadata := Some (accepted_metadata t thread)\<rparr> \<and>
       \<not> pending_ephemeral p \<and> accepted_thread b' p m = Some (t, thread))"
  using assms(2-) unfolding b'_def
  by (auto simp: observe_response_def Let_def split: option.split)

lemma observe_response_cases:
  obtains "observe_response b m = b"
  | k where "observe_response b m = b\<lparr>pending_threads := dict_pop k (pending_threads b)\<rparr>" "\<not> binding_invalid b"
  | k where "observe_response b m = invalidate (b\<lparr>pending_threads := dict_pop k (pending_threads b)\<rparr>)"
  | k p t thread where
      "observe_response b m = b\<lparr>pending_threads := dict_pop k (pending_threads b), selected_thread_id := Some t,
         selected_thread_metadata := Some (accepted_metadata t thread)\<rparr>"
      "request_key (jfield m ''id'') = Some k" "dict_get (pending_threads b) k = Some p"
      "\<not> pending_ephemeral p"
      "accepted_thread (b\<lparr>pending_threads := dict_pop k (pending_threads b)\<rparr>) p m = Some (t, thread)"
      "\<not> binding_invalid b"
proof (cases "jhas m ''method'' \<or> binding_invalid b")
  case False
  show thesis
  proof (cases "request_key (jfield m ''id'')")
    case (Some k)
    note key = Some
    show thesis
    proof (cases "dict_get (pending_threads b) k")
      case (Some p)
      from False have "\<not> jhas m ''method''" and "\<not> binding_invalid b" by simp_all
      with observe_response_result [OF this key Some] key Some show thesis
        by (elim disjE exE conjE) (rule that(2-4); assumption | simp)+
    qed (use False key that(1) in \<open>simp add: observe_response_def\<close>)
  qed (use False that(1) in \<open>simp add: observe_response_def\<close>)
qed (use that(1) in \<open>auto simp: observe_response_def\<close>)

lemma accepted_thread_SomeD:
  "accepted_thread b p m = Some (t, thread) \<Longrightarrow>
     t \<noteq> [] \<and> jpath (jfield m ''result'') ''thread'' = JDict thread \<and> jfield thread ''id'' = JStr t \<and>
     (expected_thread_id p = None \<or> expected_thread_id p = Some t) \<and>
     (\<not> pending_ephemeral p \<longrightarrow> selected_thread_id b = None \<or> selected_thread_id b = Some t)"
  by (auto simp: accepted_thread_def split: json.splits if_splits)

lemma binding_step_inv: "binding_inv b \<Longrightarrow> binding_inv (binding_step b e)"
proof (cases e)
  case (BindRequest m)
  assume inv: "binding_inv b"
  from BindRequest inv show ?thesis
    by (cases rule: observe_request_cases [of b m])
       (auto simp: invalidate_inv, auto simp: binding_inv_def length_dict_set)
next
  case (BindResponse m)
  assume inv: "binding_inv b"
  have "length (dict_pop k (pending_threads b)) \<le> MAX_PENDING_THREAD_SELECTIONS" for k
    using inv length_dict_pop_le [of k "pending_threads b"] by (simp add: binding_inv_def)
  with BindResponse inv show ?thesis
    by (cases rule: observe_response_cases [of b m])
       (auto simp: invalidate_inv, auto simp: binding_inv_def dest: accepted_thread_SomeD)
qed (simp add: invalidate_inv)

lemma binding_step_rel: "binding_inv b \<Longrightarrow> binding_rel b (binding_step b e)"
proof (cases e)
  case (BindRequest m)
  then show ?thesis
    by (cases rule: observe_request_cases [of b m]) (auto simp: invalidate_rel, auto simp: binding_rel_def)
next
  case (BindResponse m)
  assume "binding_inv b"
  with BindResponse show ?thesis
    by (cases rule: observe_response_cases [of b m])
       (auto simp: binding_rel_def binding_inv_def invalidate_def dest: accepted_thread_SomeD)
qed (simp add: invalidate_rel)

interpretation binding_machine: ordered_machine binding_step binding_inv binding_rel
proof
  fix s t u :: binding
  assume "binding_rel s t" and "binding_rel t u"
  then show "binding_rel s u" by (auto simp: binding_rel_def)
qed (auto simp: binding_step_inv binding_step_rel, auto simp: binding_rel_def)

lemma initial_binding_inv: "binding_inv initial_binding"
  by (simp add: binding_inv_def initial_binding_def)

text \<open>
  Property C10. One connection owns one root: over any sequence of requests, responses and
  disconnects, if the binding reports a main thread at two moments, it is the same thread.
\<close>

theorem binding_one_root:
  assumes "binding_thread_id (foldl binding_step initial_binding es\<^sub>1) = Some t"
    and "binding_thread_id (foldl binding_step initial_binding (es\<^sub>1 @ es\<^sub>2)) = Some t'"
  shows "t = t'"
proof -
  have "binding_rel (foldl binding_step initial_binding es\<^sub>1) (foldl binding_step initial_binding (es\<^sub>1 @ es\<^sub>2))"
    by (rule binding_machine.run_rel_between [OF initial_binding_inv])
  with assms show ?thesis
    by (auto simp: binding_rel_def binding_thread_id_def Let_def split: if_splits)
qed

text \<open>
  Only a correlated acknowledgement selects the main thread: when an event makes
  \<open>t\<close> the selected thread, the event is a response whose identifier names a pending, persistent
  selection request, its result carries exactly that thread, and a resume asked for that thread.
\<close>

theorem binding_selection_correlated:
  assumes "selected_thread_id (binding_step b e) = Some t" and "selected_thread_id b \<noteq> Some t"
  shows "\<exists>m k p thread. e = BindResponse m \<and> request_key (jfield m ''id'') = Some k \<and>
    dict_get (pending_threads b) k = Some p \<and> \<not> pending_ephemeral p \<and>
    jpath (jfield m ''result'') ''thread'' = JDict thread \<and> jfield thread ''id'' = JStr t \<and>
    (expected_thread_id p = None \<or> expected_thread_id p = Some t)"
proof (cases e)
  case (BindRequest m)
  with assms show ?thesis
    by (cases rule: observe_request_cases [of b m]) (auto simp: invalidate_def)
next
  case (BindResponse m)
  with assms show ?thesis
    by (cases rule: observe_response_cases [of b m])
       (auto simp: invalidate_def dest!: accepted_thread_SomeD)
next
  case BindDisconnect
  with assms show ?thesis by (simp add: invalidate_def)
qed

text \<open>
  The binding stays bounded and fails closed: after any events at most 32
  selections are pending, and once invalid (a reused request identifier, a malformed or
  conflicting acknowledgement, a disconnect) it never reports a main thread again.
\<close>

theorem binding_bounded_fail_closed:
  "length (pending_threads (foldl binding_step initial_binding es)) \<le> MAX_PENDING_THREAD_SELECTIONS \<and>
   (binding_invalid (foldl binding_step initial_binding es) \<longrightarrow>
      binding_thread_id (foldl binding_step initial_binding (es @ es')) = None \<and>
      binding_thread_metadata (foldl binding_step initial_binding (es @ es')) = None)"
proof -
  have "binding_inv (foldl binding_step initial_binding es)"
    by (rule binding_machine.run_inv [OF initial_binding_inv])
  moreover have "binding_rel (foldl binding_step initial_binding es) (foldl binding_step initial_binding (es @ es'))"
    by (rule binding_machine.run_rel_between [OF initial_binding_inv])
  ultimately show ?thesis
    by (auto simp: binding_inv_def binding_rel_def binding_thread_id_def binding_thread_metadata_def Let_def)
qed

subsection \<open>Witnesses\<close>

definition demo_start :: message where
  "demo_start = [(lit ''id'', JInt 1), (lit ''method'', JStr (lit ''thread/start'')), (lit ''params'', JDict [])]"

definition demo_started :: message where
  "demo_started = [(lit ''id'', JInt 1), (lit ''result'', JDict [(lit ''thread'',
     JDict [(lit ''id'', JStr (lit ''t1'')), (lit ''ephemeral'', JBool False)])])]"

lemmas binding_eval = initial_binding_def demo_start_def demo_started_def observe_request_def observe_response_def
  jfield_def jhas_def jpath_def Let_def PRIMARY_THREAD_METHODS_def MAX_PENDING_THREAD_SELECTIONS_def
  expected_thread_def requested_ephemeral_def accepted_thread_def accepted_metadata_def dict_pop_def
  binding_thread_id_def binding_thread_metadata_def invalidate_def

theorem binding_one_root_witness:
  "binding_thread_id (foldl binding_step initial_binding [BindRequest demo_start, BindResponse demo_started])
     = Some (lit ''t1'')"
proof -
  have "binding_thread_id (foldl binding_step initial_binding ([BindRequest demo_start, BindResponse demo_started] @ []))
      = Some (lit ''t1'')"
    by (simp add: binding_eval)
  then show ?thesis
    using binding_one_root [of "[BindRequest demo_start, BindResponse demo_started]" "lit ''t1''" "[]"] by simp
qed

theorem binding_selection_correlated_witness:
  "\<exists>m k p thread. BindResponse demo_started = BindResponse m \<and> request_key (jfield m ''id'') = Some k \<and>
    dict_get (pending_threads (binding_step initial_binding (BindRequest demo_start))) k = Some p \<and>
    \<not> pending_ephemeral p \<and> jpath (jfield m ''result'') ''thread'' = JDict thread \<and>
    jfield thread ''id'' = JStr (lit ''t1'') \<and> (expected_thread_id p = None \<or> expected_thread_id p = Some (lit ''t1''))"
  by (rule binding_selection_correlated) (simp_all add: binding_eval)

theorem binding_bounded_fail_closed_witness:
  "binding_thread_id (foldl binding_step initial_binding ([BindDisconnect] @ [BindRequest demo_start, BindResponse demo_started]))
     = None"
  using binding_bounded_fail_closed [of "[BindDisconnect]" "[BindRequest demo_start, BindResponse demo_started]"]
  by (simp add: invalidate_def)

end
