(* ===== verification/Rollout_Lifecycle.thy ===== *)
theory Rollout_Lifecycle
  imports Protocol_Values
begin

section \<open>Rollout record admission and turn lifecycle\<close>

text \<open>
  \<^verbatim>\<open>src/rodex/rollout_turn_lifecycle.py\<close>. \<open>admit\<close> deduplicates source coordinates; the canonical
  dump and its SHA-256 digest are the parameter \<open>fp\<close>, which is \<open>None\<close> where \<^verbatim>\<open>encode("utf-8")\<close>
  refuses the text. \<open>observe\<close> keeps the active turn and decides which starts and terminals carry
  lifecycle authority.
\<close>

subsection \<open>Record admission\<close>

datatype admit_error = CoordinateChanged | NotEncodable

type_synonym admission = "(int, pystr) dict"

definition record_coordinate :: "message \<Rightarrow> int option \<Rightarrow> int option" where
  "record_coordinate rec physical_ordinal =
     (case jfield rec ''ordinal'' of
        JInt supplied \<Rightarrow> if 0 \<le> supplied then Some supplied else physical_ordinal
      | _ \<Rightarrow> physical_ordinal)"

definition admit ::
  "(message \<Rightarrow> pystr option) \<Rightarrow> admission \<Rightarrow> message \<times> int option \<Rightarrow> admission \<times> (admit_error + bool)" where
  "admit fp fingerprints r =
     (case record_coordinate (fst r) (snd r) of
        None \<Rightarrow> (fingerprints, Inr True)
      | Some ordinal \<Rightarrow>
          (case fp (fst r) of
             None \<Rightarrow> (fingerprints, Inl NotEncodable)
           | Some fingerprint \<Rightarrow>
               (case dict_get fingerprints ordinal of
                  Some previous \<Rightarrow>
                    if previous \<noteq> fingerprint then (fingerprints, Inl CoordinateChanged)
                    else (fingerprints, Inr False)
                | None \<Rightarrow> (dict_set ordinal fingerprint fingerprints, Inr True))))"

fun admit_run ::
  "(message \<Rightarrow> pystr option) \<Rightarrow> admission \<Rightarrow> (message \<times> int option) list \<Rightarrow> (admit_error + bool) list" where
  "admit_run fp s [] = []"
| "admit_run fp s (r # rs) = (case admit fp s r of (s', v) \<Rightarrow> v # admit_run fp s' rs)"

definition admission_rel :: "admission \<Rightarrow> admission \<Rightarrow> bool" where
  "admission_rel s s' \<longleftrightarrow> (\<forall>i f. dict_get s i = Some f \<longrightarrow> dict_get s' i = Some f)"

definition admission_inv :: "admission \<Rightarrow> bool" where
  "admission_inv s \<longleftrightarrow> distinct (dict_keys s)"

lemma admit_inv: "admission_inv s \<Longrightarrow> admission_inv (fst (admit fp s r))"
  by (auto simp: admit_def admission_inv_def split: option.split)

lemma admit_rel: "admission_rel s (fst (admit fp s r))"
  by (auto simp: admit_def admission_rel_def split: option.split)

interpretation admission: ordered_machine "\<lambda>s r. fst (admit fp s r)" admission_inv admission_rel
proof
  fix s t u
  assume "admission_rel s t" and "admission_rel t u"
  then show "admission_rel s u" by (auto simp: admission_rel_def)
qed (auto simp: admit_inv admit_rel, auto simp: admission_rel_def)

lemma length_admit_run [simp]: "length (admit_run fp s rs) = length rs"
  by (induction rs arbitrary: s) (auto split: prod.split)

lemma admit_run_nth:
  "j < length rs \<Longrightarrow> admit_run fp s rs ! j = snd (admit fp (foldl (\<lambda>s r. fst (admit fp s r)) s (take j rs)) (rs ! j))"
proof (induction rs arbitrary: s j)
  case (Cons r rs)
  then show ?case by (cases j) (auto split: prod.split)
qed simp

lemma admit_stores:
  "snd (admit fp s r) = Inr True \<Longrightarrow> record_coordinate (fst r) (snd r) = Some k \<Longrightarrow>
     \<exists>f. fp (fst r) = Some f \<and> dict_get (fst (admit fp s r)) k = Some f"
  by (auto simp: admit_def split: option.splits if_splits)

text \<open>
  Property C35. Source coordinates are admitted once: when the record at position \<open>i\<close> of any
  input sequence is admitted under a coordinate, every later record with that coordinate is
  refused as a duplicate if its fingerprint is the same, and raises if it changed or cannot be
  encoded.
\<close>

theorem admit_once:
  assumes "i < j" "j < length rs"
    and "record_coordinate (fst (rs ! i)) (snd (rs ! i)) = Some k"
    and "record_coordinate (fst (rs ! j)) (snd (rs ! j)) = Some k"
    and "admit_run fp [] rs ! i = Inr True"
  shows "admit_run fp [] rs ! j =
    (case fp (fst (rs ! j)) of
       None \<Rightarrow> Inl NotEncodable
     | Some f \<Rightarrow> if fp (fst (rs ! i)) = Some f then Inr False else Inl CoordinateChanged)"
proof -
  let ?s = "\<lambda>n. foldl (\<lambda>s r. fst (admit fp s r)) [] (take n rs)"
  have inv0: "admission_inv []" by (simp add: admission_inv_def)
  have step: "?s (Suc i) = fst (admit fp (?s i) (rs ! i))"
    using assms(1,2) by (simp add: take_Suc_conv_app_nth)
  have "snd (admit fp (?s i) (rs ! i)) = Inr True"
    using assms(1,2,5) by (simp add: admit_run_nth)
  then obtain f where f: "fp (fst (rs ! i)) = Some f" "dict_get (?s (Suc i)) k = Some f"
    using admit_stores [OF _ assms(3)] step by metis
  have "take j rs = take (Suc i) rs @ take (j - Suc i) (drop (Suc i) rs)"
    using assms(1) by (metis Suc_leI le_add_diff_inverse take_add)
  then have "admission_rel (?s (Suc i)) (?s j)"
    using admission.run_rel_between [OF inv0, of fp "take (Suc i) rs" "take (j - Suc i) (drop (Suc i) rs)"]
    by simp
  with f(2) have "dict_get (?s j) k = Some f" by (simp add: admission_rel_def)
  with f(1) assms(2,4) show ?thesis
    by (auto simp: admit_run_nth admit_def split: option.split)
qed

subsection \<open>Turn lifecycle\<close>

record turn_observation =
  obs_codex_turn_id :: "pystr option"
  lifecycle_eligible :: bool

record turn_lifecycle =
  active_turn_id :: "pystr option"
  started_turn_ids :: "pystr set"
  terminal_turn_ids :: "pystr set"

definition initial_lifecycle :: turn_lifecycle where
  "initial_lifecycle = \<lparr>active_turn_id = None, started_turn_ids = {}, terminal_turn_ids = {}\<rparr>"

type_synonym rollout_event = "pystr option \<times> pystr option \<times> pystr option"

text \<open>\<^verbatim>\<open>explicit_turn_id or self.active_turn_id\<close>: an empty identifier is falsy.\<close>

definition event_turn_id :: "pystr option \<Rightarrow> pystr option \<Rightarrow> pystr option" where
  "event_turn_id explicit active = (if explicit = None \<or> explicit = Some [] then active else explicit)"

fun is_start :: "rollout_event \<Rightarrow> pystr \<Rightarrow> bool" where
  "is_start (rt, pt, explicit) t \<longleftrightarrow>
     rt = Some (lit ''event_msg'') \<and> pt = Some (lit ''task_started'') \<and> explicit = Some t"

fun is_terminal :: "rollout_event \<Rightarrow> pystr \<Rightarrow> bool" where
  "is_terminal (rt, pt, explicit) t \<longleftrightarrow>
     rt = Some (lit ''event_msg'') \<and> (pt = Some (lit ''task_complete'') \<or> pt = Some (lit ''turn_aborted'')) \<and>
     explicit = Some t"

fun observe :: "turn_lifecycle \<Rightarrow> rollout_event \<Rightarrow> turn_lifecycle \<times> turn_observation" where
  "observe s (record_type, payload_type, explicit) =
     (let event = event_turn_id explicit (active_turn_id s) in
      if record_type = Some (lit ''event_msg'') \<and> payload_type = Some (lit ''task_started'') \<and> explicit \<noteq> None then
        (s\<lparr>started_turn_ids := insert (the explicit) (started_turn_ids s), active_turn_id := explicit\<rparr>,
         \<lparr>obs_codex_turn_id = event, lifecycle_eligible = True\<rparr>)
      else if record_type = Some (lit ''turn_context'') \<and> active_turn_id s = None then
        (s\<lparr>active_turn_id := explicit\<rparr>, \<lparr>obs_codex_turn_id = event, lifecycle_eligible = False\<rparr>)
      else if record_type = Some (lit ''event_msg'')
         \<and> (payload_type = Some (lit ''task_complete'') \<or> payload_type = Some (lit ''turn_aborted''))
         \<and> (case explicit of None \<Rightarrow> False
             | Some t \<Rightarrow> t \<in> started_turn_ids s \<and> t \<notin> terminal_turn_ids s) then
        (s\<lparr>terminal_turn_ids := insert (the explicit) (terminal_turn_ids s),
           active_turn_id := (if active_turn_id s = explicit then None else active_turn_id s)\<rparr>,
         \<lparr>obs_codex_turn_id = event, lifecycle_eligible = True\<rparr>)
      else (s, \<lparr>obs_codex_turn_id = event, lifecycle_eligible = False\<rparr>))"

abbreviation lifecycle_after :: "rollout_event list \<Rightarrow> turn_lifecycle" where
  "lifecycle_after es \<equiv> foldl (\<lambda>s e. fst (observe s e)) initial_lifecycle es"

text \<open>The specification reads the event sequence alone: which turns were started, and which had
  a terminal event after a start.\<close>

definition started_in :: "rollout_event list \<Rightarrow> pystr \<Rightarrow> bool" where
  "started_in es t \<longleftrightarrow> (\<exists>e \<in> set es. is_start e t)"

fun closed_in :: "rollout_event list \<Rightarrow> pystr \<Rightarrow> bool" where
  "closed_in [] t = False"
| "closed_in (e # es) t = (if is_start e t then \<exists>e' \<in> set es. is_terminal e' t else closed_in es t)"

lemma not_start_and_terminal: "is_start e t \<Longrightarrow> \<not> is_terminal e t'"
  by (cases e) auto

lemma closed_in_snoc: "closed_in (es @ [e]) t \<longleftrightarrow> closed_in es t \<or> started_in es t \<and> is_terminal e t"
  by (induction es) (auto simp: started_in_def)

lemma closed_in_append: "closed_in es t \<Longrightarrow> closed_in (es @ es') t"
  by (induction es) (auto split: if_splits)

lemma observe_started: "started_turn_ids (fst (observe s e)) = started_turn_ids s \<union> {t. is_start e t}"
  by (cases e) (auto simp: Let_def split: option.splits)

lemma observe_terminal:
  "terminal_turn_ids (fst (observe s e)) =
     terminal_turn_ids s \<union> {t. is_terminal e t \<and> t \<in> started_turn_ids s}"
  by (cases e) (auto simp: Let_def split: option.splits)

lemma lifecycle_refines:
  "started_turn_ids (lifecycle_after es) = {t. started_in es t} \<and>
   terminal_turn_ids (lifecycle_after es) = {t. closed_in es t}"
  by (induction es rule: rev_induct)
     (auto simp: initial_lifecycle_def started_in_def observe_started observe_terminal closed_in_snoc)

lemma observe_eligible:
  "lifecycle_eligible (snd (observe s e)) \<longleftrightarrow>
     (\<exists>t. is_start e t) \<or> (\<exists>t. is_terminal e t \<and> t \<in> started_turn_ids s \<and> t \<notin> terminal_turn_ids s)"
  by (cases e) (auto simp: Let_def split: option.splits)

text \<open>
  Lifecycle authority is decided by the event sequence alone: an event is eligible
  exactly when it is an explicit start, or a terminal of a turn that was started before it and has
  had no terminal since its first start; the tracked sets are exactly the started and the closed
  turns, whatever contexts, missing identifiers and stray terminals were interleaved.
\<close>

theorem lifecycle_authority:
  "lifecycle_eligible (snd (observe (lifecycle_after es) e)) \<longleftrightarrow>
     (\<exists>t. is_start e t) \<or> (\<exists>t. is_terminal e t \<and> started_in es t \<and> \<not> closed_in es t)"
  by (simp add: observe_eligible lifecycle_refines)

text \<open>
  Each turn is closed at most once: of two terminal events for the same turn, at
  most one is eligible, and an eligible terminal leaves no active binding to its turn.
\<close>

theorem lifecycle_single_terminal:
  assumes "is_terminal e t" and "lifecycle_eligible (snd (observe (lifecycle_after es) e))"
  shows "active_turn_id (lifecycle_after (es @ [e])) \<noteq> Some t \<and>
    (\<forall>e' es'. is_terminal e' t \<longrightarrow>
       \<not> lifecycle_eligible (snd (observe (lifecycle_after (es @ [e] @ es')) e')))"
proof (intro conjI allI impI)
  from assms have closed: "closed_in (es @ [e]) t"
    by (cases e) (auto simp: observe_eligible lifecycle_refines closed_in_snoc)
  show "active_turn_id (lifecycle_after (es @ [e])) \<noteq> Some t"
    using assms by (cases e) (auto simp: Let_def split: option.splits if_splits)
  fix e' es'
  assume e': "is_terminal e' t"
  have "closed_in (es @ [e] @ es') t"
    using closed_in_append [OF closed, of es'] by simp
  then show "\<not> lifecycle_eligible (snd (observe (lifecycle_after (es @ [e] @ es')) e'))"
    using e' by (cases e') (auto simp: observe_eligible lifecycle_refines simp del: foldl_append)
qed

subsection \<open>Witnesses\<close>

definition demo_record :: message where
  "demo_record = [(lit ''ordinal'', JInt 4)]"

theorem admit_once_witness:
  "admit_run (\<lambda>_. Some (lit ''f'')) [] [(demo_record, None), (demo_record, Some 9)] ! 1 = Inr False"
  by (subst admit_once [where i = 0 and k = 4])
     (simp_all add: record_coordinate_def demo_record_def jfield_def admit_def)

definition demo_terminal :: rollout_event where
  "demo_terminal = (Some (lit ''event_msg''), Some (lit ''task_complete''), Some (lit ''a''))"

definition demo_task_started :: rollout_event where
  "demo_task_started = (Some (lit ''event_msg''), Some (lit ''task_started''), Some (lit ''a''))"

theorem lifecycle_single_terminal_witness:
  "lifecycle_eligible (snd (observe (lifecycle_after [demo_task_started]) demo_terminal)) \<and>
   \<not> lifecycle_eligible (snd (observe (lifecycle_after [demo_task_started, demo_terminal]) demo_terminal))"
proof -
  have t: "is_terminal demo_terminal (lit ''a'')" by (simp add: demo_terminal_def)
  have e: "lifecycle_eligible (snd (observe (lifecycle_after [demo_task_started]) demo_terminal))"
    by (simp add: demo_terminal_def demo_task_started_def initial_lifecycle_def Let_def)
  from lifecycle_single_terminal [OF t e] t
  have "\<not> lifecycle_eligible (snd (observe (lifecycle_after ([demo_task_started] @ [demo_terminal] @ [])) demo_terminal))"
    by blast
  with e show ?thesis by simp
qed

end
