(* ===== verification/Connection_Lifecycle.thy ===== *)
theory Connection_Lifecycle
  imports Prelude
begin

section \<open>Connection epochs\<close>

text \<open>
  \<^verbatim>\<open>src/rodex/primary_connection_lifecycle.py\<close>. A participant is the name that
  \<^verbatim>\<open>getattr(participant, "name", None)\<close> gives when it is a string, its type name and its reset: a
  function of the shared state that returns, raises an \<^verbatim>\<open>Exception\<close>, or raises something that is
  not an \<^verbatim>\<open>Exception\<close> and is therefore not caught. The lock makes one reset pass atomic.
\<close>

datatype 'e reset_outcome = ResetReturned | ResetRaised 'e | ResetAborted 'e

record ('w, 'e) participant =
  configured_name :: "pystr option"
  type_name :: pystr
  participant_reset :: "'w \<Rightarrow> 'w \<times> 'e reset_outcome"

record 'e reset_failure =
  failed_participant_name :: pystr
  failed_error :: 'e

record ('w, 'e) connection_coordinator =
  participants :: "('w, 'e) participant list"
  connection_epoch :: nat

definition participant_name :: "('w, 'e) participant \<Rightarrow> pystr" where
  "participant_name p =
     (case configured_name p of
        Some configured \<Rightarrow> if configured \<noteq> [] then configured else type_name p
      | None \<Rightarrow> type_name p)"

text \<open>The loop: the state reached, the failures collected, and the exception that escapes.\<close>

fun reset_participants ::
  "('w, 'e) participant list \<Rightarrow> 'w \<Rightarrow> 'e reset_failure list \<Rightarrow> 'w \<times> ('e + 'e reset_failure list)" where
  "reset_participants [] w failures = (w, Inr failures)"
| "reset_participants (p # ps) w failures =
     (case participant_reset p w of
        (w', ResetReturned) \<Rightarrow> reset_participants ps w' failures
      | (w', ResetRaised e) \<Rightarrow>
          reset_participants ps w'
            (failures @ [\<lparr>failed_participant_name = participant_name p, failed_error = e\<rparr>])
      | (w', ResetAborted e) \<Rightarrow> (w', Inl e))"

definition reset_after_disconnect ::
  "('w, 'e) connection_coordinator \<Rightarrow> 'w \<Rightarrow> 'w \<times> ('w, 'e) connection_coordinator \<times> ('e + 'e reset_failure list)" where
  "reset_after_disconnect c w =
     (case reset_participants (participants c) w [] of
        (w', Inl e) \<Rightarrow> (w', c, Inl e)
      | (w', Inr failures) \<Rightarrow> (w', c\<lparr>connection_epoch := Suc (connection_epoch c)\<rparr>, Inr failures))"

subsection \<open>Every participant is reset\<close>

text \<open>The state before the \<open>n\<close>-th reset, each reset applied in registration order.\<close>

definition world_before :: "('w, 'e) participant list \<Rightarrow> 'w \<Rightarrow> nat \<Rightarrow> 'w" where
  "world_before ps w n = foldl (\<lambda>w p. fst (participant_reset p w)) w (take n ps)"

fun failure_of :: "('w, 'e) participant \<Rightarrow> 'e reset_outcome \<Rightarrow> 'e reset_failure list" where
  "failure_of p (ResetRaised e) = [\<lparr>failed_participant_name = participant_name p, failed_error = e\<rparr>]"
| "failure_of p _ = []"

definition outcome_at :: "('w, 'e) participant list \<Rightarrow> 'w \<Rightarrow> nat \<Rightarrow> 'e reset_outcome" where
  "outcome_at ps w n = snd (participant_reset (ps ! n) (world_before ps w n))"

lemma world_before_0 [simp]: "world_before ps w 0 = w"
  by (simp add: world_before_def)

lemma world_before_Cons [simp]:
  "world_before (p # ps) w (Suc n) = world_before ps (fst (participant_reset p w)) n"
  by (simp add: world_before_def)

lemma outcome_at_Cons [simp]:
  "outcome_at (p # ps) w 0 = snd (participant_reset p w)"
  "outcome_at (p # ps) w (Suc n) = outcome_at ps (fst (participant_reset p w)) n"
  by (simp_all add: outcome_at_def)

lemma reset_participants_complete:
  assumes "\<forall>n < length ps. \<forall>e. outcome_at ps w n \<noteq> ResetAborted e"
  shows "reset_participants ps w fs =
    (world_before ps w (length ps),
     Inr (fs @ concat (map (\<lambda>n. failure_of (ps ! n) (outcome_at ps w n)) [0..<length ps])))"
  using assms
proof (induction ps arbitrary: w fs)
  case (Cons p ps)
  obtain w' r where r: "participant_reset p w = (w', r)" by fastforce
  have IH: "reset_participants ps w' fs' = (world_before ps w' (length ps),
      Inr (fs' @ concat (map (\<lambda>n. failure_of (ps ! n) (outcome_at ps w' n)) [0..<length ps])))" for fs'
  proof (rule Cons.IH)
    show "\<forall>n < length ps. \<forall>e. outcome_at ps w' n \<noteq> ResetAborted e"
    proof (intro allI impI)
      fix n e
      assume "n < length ps"
      with Cons.prems [rule_format, of "Suc n" e] r show "outcome_at ps w' n \<noteq> ResetAborted e" by simp
    qed
  qed
  have split: "[0..<length (p # ps)] = 0 # map Suc [0..<length ps]"
    by (simp add: upt_conv_Cons map_Suc_upt del: upt_Suc)
  have "r \<noteq> ResetAborted e" for e
    using Cons.prems [rule_format, of 0 e] r by simp
  then show ?case
    using r IH unfolding split by (cases r) (auto simp: comp_def)
qed simp

lemma reset_participants_aborted:
  assumes "n < length ps" "outcome_at ps w n = ResetAborted e"
    and "\<forall>m < n. \<forall>e. outcome_at ps w m \<noteq> ResetAborted e"
  shows "reset_participants ps w fs = (world_before ps w (Suc n), Inl e)"
  using assms
proof (induction ps arbitrary: w fs n)
  case (Cons p ps)
  obtain w' r where r: "participant_reset p w = (w', r)" by fastforce
  show ?case
  proof (cases n)
    case 0
    with Cons.prems r show ?thesis by simp
  next
    case (Suc k)
    have before: "\<forall>m < k. \<forall>e. outcome_at ps w' m \<noteq> ResetAborted e"
    proof (intro allI impI)
      fix m e
      assume "m < k"
      with Cons.prems(3) [rule_format, of "Suc m" e] r Suc show "outcome_at ps w' m \<noteq> ResetAborted e" by simp
    qed
    have "reset_participants ps w' fs' = (world_before ps w' (Suc k), Inl e)" for fs'
      using Cons.prems(1,2) r Suc by (intro Cons.IH [OF _ _ before]) simp_all
    moreover have "r \<noteq> ResetAborted e'" for e'
      using Cons.prems(3) [rule_format, of 0 e'] r Suc by simp
    ultimately show ?thesis using r Suc by (cases r) auto
  qed
qed simp

text \<open>
  A disconnect resets every participant, in registration order, whatever earlier
  participants raised: when no reset escapes as a non-\<^verbatim>\<open>Exception\<close>, the final state is all
  resets applied one after the other, the failures are exactly the raised errors in order under
  the participants' names, and the epoch advances by one.
\<close>

theorem reset_all_participants:
  assumes "\<forall>n < length (participants c). \<forall>e. outcome_at (participants c) w n \<noteq> ResetAborted e"
  shows "reset_after_disconnect c w =
    (foldl (\<lambda>w p. fst (participant_reset p w)) w (participants c),
     c\<lparr>connection_epoch := connection_epoch c + 1\<rparr>,
     Inr (concat (map (\<lambda>n. failure_of (participants c ! n) (outcome_at (participants c) w n))
       [0..<length (participants c)])))"
  using reset_participants_complete [OF assms, of "[]"]
  by (simp add: reset_after_disconnect_def world_before_def)

text \<open>
  An exception that is not an \<^verbatim>\<open>Exception\<close> stops the pass at the participant that
  raised it: later participants are not reset, and the epoch does not advance.
\<close>

theorem reset_aborted_keeps_epoch:
  assumes "n < length (participants c)" "outcome_at (participants c) w n = ResetAborted e"
    and "\<forall>m < n. \<forall>e. outcome_at (participants c) w m \<noteq> ResetAborted e"
  shows "reset_after_disconnect c w = (world_before (participants c) w (Suc n), c, Inl e)"
  using reset_participants_aborted [OF assms] by (simp add: reset_after_disconnect_def)

subsection \<open>Witnesses\<close>

definition demo_reset :: "(nat list, pystr) participant" where
  "demo_reset = \<lparr>configured_name = Some (lit ''relay''), type_name = lit ''Relay'',
     participant_reset = (\<lambda>w. (w @ [1], ResetRaised (lit ''boom'')))\<rparr>"

definition demo_quiet :: "(nat list, pystr) participant" where
  "demo_quiet = \<lparr>configured_name = None, type_name = lit ''Quiet'',
     participant_reset = (\<lambda>w. (w @ [2], ResetReturned))\<rparr>"

definition demo_fatal :: "(nat list, pystr) participant" where
  "demo_fatal = \<lparr>configured_name = None, type_name = lit ''Fatal'',
     participant_reset = (\<lambda>w. (w @ [3], ResetAborted (lit ''interrupt'')))\<rparr>"

lemmas connection_eval = demo_reset_def demo_quiet_def demo_fatal_def outcome_at_def world_before_def
  participant_name_def less_Suc_eq

theorem reset_all_participants_witness:
  "reset_after_disconnect \<lparr>participants = [demo_reset, demo_quiet], connection_epoch = 7\<rparr> [] =
     ([1, 2], \<lparr>participants = [demo_reset, demo_quiet], connection_epoch = 8\<rparr>,
      Inr [\<lparr>failed_participant_name = lit ''relay'', failed_error = lit ''boom''\<rparr>])"
  by (subst reset_all_participants) (auto simp: connection_eval)

theorem reset_aborted_keeps_epoch_witness:
  "reset_after_disconnect \<lparr>participants = [demo_quiet, demo_fatal, demo_quiet], connection_epoch = 7\<rparr> [] =
     ([2, 3], \<lparr>participants = [demo_quiet, demo_fatal, demo_quiet], connection_epoch = 7\<rparr>, Inl (lit ''interrupt''))"
  by (subst reset_aborted_keeps_epoch [where n = 1]) (auto simp: connection_eval)

end
