(* ===== verification/Protocol_Input_Text.thy ===== *)
theory Protocol_Input_Text
  imports Protocol_Values "HOL-Library.Sublist"
begin

section \<open>Submitted text edits\<close>

text \<open>
  \<^verbatim>\<open>src/rodex/protocol_input_text.py\<close>: which frames submit user input, how a text hook's edits are
  applied, and how the byte ranges of \<^verbatim>\<open>text_elements\<close> are rebased. UTF-8 is modelled on code
  points, with the encoding error for surrogates; the JSON codec is the pair of parameters
  \<open>loads\<close> (\<open>None\<close> for a decoding error) and \<open>dumps\<close>.
\<close>

subsection \<open>UTF-8\<close>

definition utf8_char :: "nat \<Rightarrow> nat list" where
  "utf8_char c =
     (if c < 128 then [c]
      else if c < 2048 then [192 + c div 64, 128 + c mod 64]
      else if c < 65536 then [224 + c div 4096, 128 + c div 64 mod 64, 128 + c mod 64]
      else [240 + c div 262144, 128 + c div 4096 mod 64, 128 + c div 64 mod 64, 128 + c mod 64])"

definition is_surrogate :: "nat \<Rightarrow> bool" where
  "is_surrogate c \<longleftrightarrow> 55296 \<le> c \<and> c \<le> 57343"

definition utf8 :: "pystr \<Rightarrow> nat list" where
  "utf8 s = concat (map utf8_char s)"

text \<open>\<^verbatim>\<open>s.encode("utf-8")\<close>.\<close>

definition utf8_encode :: "pystr \<Rightarrow> nat list option" where
  "utf8_encode s = (if \<exists>c \<in> set s. is_surrogate c then None else Some (utf8 s))"

lemma utf8_append [simp]: "utf8 (s @ t) = utf8 s @ utf8 t"
  by (simp add: utf8_def)

lemma utf8_Nil [simp]: "utf8 [] = []"
  by (simp add: utf8_def)

lemma utf8_encode_eq_Some: "utf8_encode s = Some b \<longleftrightarrow> (\<forall>c \<in> set s. \<not> is_surrogate c) \<and> b = utf8 s"
  by (auto simp: utf8_encode_def)

subsection \<open>Submissions\<close>

definition SUBMISSION_METHODS :: "pystr list" where
  "SUBMISSION_METHODS = map lit [''turn/start'', ''turn/steer'', ''thread/queue/add'', ''thread/queue/update'']"

definition is_user_input_submission :: "json \<Rightarrow> bool" where
  "is_user_input_submission frame =
     (case frame of
        JDict f \<Rightarrow>
          (case jfield f ''method'' of
             JStr method \<Rightarrow>
               method \<in> set SUBMISSION_METHODS \<and>
               (case jfield f ''params'' of
                  JDict params \<Rightarrow> (case jfield params ''input'' of JList items \<Rightarrow> items \<noteq> [] | _ \<Rightarrow> False)
                | _ \<Rightarrow> False)
           | _ \<Rightarrow> False)
      | _ \<Rightarrow> False)"

definition submission_input :: "json \<Rightarrow> json list" where
  "submission_input frame =
     (case jpath (jpath frame ''params'') ''input'' of JList items \<Rightarrow> items | _ \<Rightarrow> [])"

text \<open>The text of an input item that is a text item.\<close>

definition item_text :: "json \<Rightarrow> pystr option" where
  "item_text item =
     (case item of
        JDict d \<Rightarrow> if jfield d ''type'' = JStr (lit ''text'') then as_str (jfield d ''text'') else None
      | _ \<Rightarrow> None)"

definition user_input_text_items :: "json \<Rightarrow> json list" where
  "user_input_text_items frame =
     (if is_user_input_submission frame then filter (\<lambda>item. item_text item \<noteq> None) (submission_input frame)
      else [])"

definition user_input_texts :: "json \<Rightarrow> pystr list" where
  "user_input_texts frame = map (\<lambda>item. the (item_text item)) (user_input_text_items frame)"

subsection \<open>Edits\<close>

text \<open>What a hook may return where an edit is expected: a \<^verbatim>\<open>PromptTextEdit\<close> with the declared field
  types, or anything that fails the type tests.\<close>

datatype prompt_text_edit = PromptTextEdit int int pystr | NotAnEdit

datatype hook_error = InvalidEdit | InvalidUtf8 | WrongItemCount | HookRaised pystr

definition element_range :: "json \<Rightarrow> (message \<times> message \<times> int \<times> int) option" where
  "element_range element =
     (case element of
        JDict el \<Rightarrow>
          (case jfield el ''byteRange'' of
             JDict byte_range \<Rightarrow>
               (case (jfield byte_range ''start'', jfield byte_range ''end'') of
                  (JInt left, JInt right) \<Rightarrow> Some (el, byte_range, left, right)
                | _ \<Rightarrow> None)
           | _ \<Rightarrow> None)
      | _ \<Rightarrow> None)"

definition shift_element :: "message \<Rightarrow> message \<Rightarrow> int \<Rightarrow> int \<Rightarrow> json" where
  "shift_element el byte_range left right =
     JDict (dict_set (lit ''byteRange'')
       (JDict (dict_set (lit ''end'') (JInt right) (dict_set (lit ''start'') (JInt left) byte_range))) el)"

definition rebase_element :: "int \<Rightarrow> int \<Rightarrow> int \<Rightarrow> int \<Rightarrow> json \<Rightarrow> json option" where
  "rebase_element start_b end_b replacement_bytes text_bytes element =
     (case element_range element of
        None \<Rightarrow> None
      | Some (el, byte_range, left, right) \<Rightarrow>
          if \<not> (0 \<le> left \<and> left \<le> right \<and> right \<le> text_bytes) then None
          else if end_b \<le> left then
            (let shift = replacement_bytes - (end_b - start_b)
             in Some (shift_element el byte_range (left + shift) (right + shift)))
          else if right \<le> start_b then Some element
          else None)"

definition rebase_elements :: "json list \<Rightarrow> int \<Rightarrow> int \<Rightarrow> int \<Rightarrow> int \<Rightarrow> json list" where
  "rebase_elements elements start_b end_b replacement_bytes text_bytes =
     List.map_filter (rebase_element start_b end_b replacement_bytes text_bytes) elements"

definition valid_edit :: "int \<Rightarrow> int \<Rightarrow> pystr \<Rightarrow> bool" where
  "valid_edit s e t \<longleftrightarrow> 0 \<le> s \<and> s \<le> e \<and> e \<le> int (length t)"

definition splice :: "pystr \<Rightarrow> nat \<Rightarrow> nat \<Rightarrow> pystr \<Rightarrow> pystr" where
  "splice t s e r = take s t @ r @ drop e t"

text \<open>\<^verbatim>\<open>if elements\<close> and the rebase of one effective edit, with its encoding errors.\<close>

definition rebase_for_edit ::
  "pystr \<Rightarrow> json list option \<Rightarrow> nat \<Rightarrow> nat \<Rightarrow> pystr \<Rightarrow> hook_error + json list option" where
  "rebase_for_edit t elements s e r =
     (case elements of
        None \<Rightarrow> Inr None
      | Some els \<Rightarrow>
          if els = [] then Inr (Some [])
          else (case (utf8_encode (take s t), utf8_encode (take e t), utf8_encode r, utf8_encode t) of
                  (Some b1, Some b2, Some b3, Some b4) \<Rightarrow>
                    Inr (Some (rebase_elements els (int (length b1)) (int (length b2)) (int (length b3))
                      (int (length b4))))
                | _ \<Rightarrow> Inl InvalidUtf8))"

fun apply_text_edits ::
  "pystr \<Rightarrow> json list option \<Rightarrow> prompt_text_edit list \<Rightarrow> hook_error + (pystr \<times> json list option)" where
  "apply_text_edits t elements [] = Inr (t, elements)"
| "apply_text_edits t elements (NotAnEdit # edits) = Inl InvalidEdit"
| "apply_text_edits t elements (PromptTextEdit s e r # edits) =
     (if \<not> valid_edit s e t then Inl InvalidEdit
      else if take (nat e - nat s) (drop (nat s) t) = r then apply_text_edits t elements edits
      else case rebase_for_edit t elements (nat s) (nat e) r of
        Inl err \<Rightarrow> Inl err
      | Inr elements' \<Rightarrow> apply_text_edits (splice t (nat s) (nat e) r) elements' edits)"

subsection \<open>The hook on a payload\<close>

datatype payload = PayloadStr pystr | PayloadBytes "nat list" | PayloadNone

text \<open>The assignments to one text item: the new text, and the new elements when the item has a
  list of them; nothing when the text did not change.\<close>

definition edit_item :: "json \<Rightarrow> prompt_text_edit list \<Rightarrow> hook_error + (json \<times> bool)" where
  "edit_item item edits =
     (case item of
        JDict d \<Rightarrow>
          (let original = the (item_text item);
               elements = as_list (jfield d ''text_elements'')
           in case apply_text_edits original elements edits of
                Inl err \<Rightarrow> Inl err
              | Inr (t, elements') \<Rightarrow>
                  if t = original then Inr (item, False)
                  else Inr (JDict (case elements' of
                         None \<Rightarrow> dict_set (lit ''text'') (JStr t) d
                       | Some els \<Rightarrow>
                           dict_set (lit ''text_elements'') (JList els) (dict_set (lit ''text'') (JStr t) d)), True))
      | _ \<Rightarrow> Inr (item, False))"

fun edit_items :: "json list \<Rightarrow> prompt_text_edit list list \<Rightarrow> hook_error + (json list \<times> bool)" where
  "edit_items [] edits = Inr ([], False)"
| "edit_items (item # items) [] = Inr (item # items, False)"
| "edit_items (item # items) (e # es) =
     (if item_text item = None then
        (case edit_items items (e # es) of
           Inl err \<Rightarrow> Inl err | Inr (items', ch) \<Rightarrow> Inr (item # items', ch))
      else case edit_item item e of
        Inl err \<Rightarrow> Inl err
      | Inr (item', ch1) \<Rightarrow>
          (case edit_items items es of
             Inl err \<Rightarrow> Inl err
           | Inr (items', ch2) \<Rightarrow> Inr (item' # items', ch1 \<or> ch2)))"

definition with_input :: "json \<Rightarrow> json list \<Rightarrow> json" where
  "with_input frame items =
     (case frame of
        JDict f \<Rightarrow>
          (case jfield f ''params'' of
             JDict params \<Rightarrow> JDict (dict_set (lit ''params'') (JDict (dict_set (lit ''input'') (JList items) params)) f)
           | _ \<Rightarrow> frame)
      | _ \<Rightarrow> frame)"

text \<open>\<^verbatim>\<open>encoded if isinstance(payload, bytes) else serialized\<close>.\<close>

definition reply_payload :: "payload \<Rightarrow> pystr \<Rightarrow> nat list \<Rightarrow> payload" where
  "reply_payload payload serialized encoded =
     (case payload of PayloadBytes _ \<Rightarrow> PayloadBytes encoded | _ \<Rightarrow> PayloadStr serialized)"

definition apply_user_prompt_hook ::
  "(payload \<Rightarrow> json option) \<Rightarrow> (json \<Rightarrow> pystr) \<Rightarrow> (pystr list \<Rightarrow> pystr + prompt_text_edit list list) \<Rightarrow> payload
     \<Rightarrow> hook_error + payload" where
  "apply_user_prompt_hook loads dumps hook payload =
     (if payload = PayloadNone then Inr payload
      else case loads payload of
        None \<Rightarrow> Inr payload
      | Some frame \<Rightarrow>
          if \<not> is_user_input_submission frame then Inr payload
          else (case hook (user_input_texts frame) of
                  Inl e \<Rightarrow> Inl (HookRaised e)
                | Inr edits_by_item \<Rightarrow>
                    if length edits_by_item \<noteq> length (user_input_text_items frame) then Inl WrongItemCount
                    else (case edit_items (submission_input frame) edits_by_item of
                            Inl err \<Rightarrow> Inl err
                          | Inr (items, changed) \<Rightarrow>
                              if \<not> changed then Inr payload
                              else (let serialized = dumps (with_input frame items)
                                    in case utf8_encode serialized of
                                         None \<Rightarrow> Inl InvalidUtf8
                                       | Some encoded \<Rightarrow> Inr (reply_payload payload serialized encoded)))))"

subsection \<open>Kept elements denote the same bytes\<close>

definition byte_slice :: "'a list \<Rightarrow> nat \<Rightarrow> nat \<Rightarrow> 'a list" where
  "byte_slice b l r = take (r - l) (drop l b)"

definition element_bytes :: "nat list \<Rightarrow> json \<Rightarrow> nat list option" where
  "element_bytes b element =
     (case element_range element of
        None \<Rightarrow> None
      | Some (_, _, left, right) \<Rightarrow>
          if 0 \<le> left \<and> left \<le> right \<and> right \<le> int (length b) then Some (byte_slice b (nat left) (nat right))
          else None)"

text \<open>Every field of an element but the two coordinates.\<close>

definition element_rest :: "json \<Rightarrow> ((pystr \<Rightarrow> json option) \<times> (pystr \<Rightarrow> json option)) option" where
  "element_rest element =
     map_option (\<lambda>(el, byte_range, _, _).
       ((dict_get el)(lit ''byteRange'' := None), (dict_get byte_range)(lit ''start'' := None, lit ''end'' := None)))
       (element_range element)"

definition same_span :: "nat list \<Rightarrow> nat list \<Rightarrow> json \<Rightarrow> json \<Rightarrow> bool" where
  "same_span b b' el el' \<longleftrightarrow>
     el' = el \<and> b' = b
     \<or> element_bytes b el \<noteq> None \<and> element_bytes b' el' = element_bytes b el \<and> element_rest el' = element_rest el"

lemma same_span_trans: "same_span a b x y \<Longrightarrow> same_span b c y z \<Longrightarrow> same_span a c x z"
  by (auto simp: same_span_def)

lemma byte_slice_append_left: "r \<le> length x \<Longrightarrow> byte_slice (x @ y) l r = byte_slice x l r"
  by (cases "l \<le> r") (auto simp: byte_slice_def)

lemma byte_slice_append_right:
  "length x \<le> l \<Longrightarrow> byte_slice (x @ y) l r = byte_slice y (l - length x) (r - length x)"
  by (simp add: byte_slice_def)

lemma element_range_shift:
  "element_range (shift_element el br l r) =
     Some (dict_set (lit ''byteRange'') (JDict (dict_set (lit ''end'') (JInt r) (dict_set (lit ''start'') (JInt l) br))) el,
       dict_set (lit ''end'') (JInt r) (dict_set (lit ''start'') (JInt l) br), l, r)"
  by (simp add: element_range_def shift_element_def jfield_def)

lemma rebase_element_same_span:
  assumes "rebase_element (int (length p)) (int (length (p @ m))) (int (length r)) (int (length (p @ m @ q))) el = Some el'"
  shows "same_span (p @ m @ q) (p @ r @ q) el el'"
proof -
  obtain d br left right where er: "element_range el = Some (d, br, left, right)"
    and bounds: "0 \<le> left" "left \<le> right" "right \<le> int (length (p @ m @ q))"
    using assms by (auto simp: rebase_element_def split: option.splits if_splits)
  consider (after) "int (length (p @ m)) \<le> left" | (before) "right \<le> int (length p)" "left < int (length (p @ m))"
    using assms er bounds by (auto simp: rebase_element_def Let_def split: if_splits)
  then show ?thesis
  proof cases
    case after
    let ?k = "int (length r) - int (length m)"
    from assms er bounds after have el': "el' = shift_element d br (left + ?k) (right + ?k)"
      by (simp add: rebase_element_def Let_def)
    have "byte_slice (p @ r @ q) (nat (left + ?k)) (nat (right + ?k)) = byte_slice (p @ m @ q) (nat left) (nat right)"
    proof -
      have "nat (left + ?k) - length (p @ r) = nat left - length (p @ m)"
        and "nat (right + ?k) - length (p @ r) = nat right - length (p @ m)"
        using after bounds by auto
      then show ?thesis
        using after bounds byte_slice_append_right [of "p @ r" "nat (left + ?k)" q "nat (right + ?k)"]
          byte_slice_append_right [of "p @ m" "nat left" q "nat right"]
        by simp
    qed
    with el' er bounds after show ?thesis
      by (auto simp: same_span_def element_bytes_def element_rest_def element_range_shift fun_eq_iff)
  next
    case before
    then have "el' = el" using assms er bounds by (simp add: rebase_element_def)
    moreover have "byte_slice (p @ r @ q) (nat left) (nat right) = byte_slice (p @ m @ q) (nat left) (nat right)"
      using before bounds by (simp add: byte_slice_append_left nat_le_iff)
    ultimately show ?thesis
      using er bounds before by (auto simp: same_span_def element_bytes_def)
  qed
qed

lemma map_filter_subseq:
  assumes "\<And>x y. f x = Some y \<Longrightarrow> R x y"
  shows "\<exists>kept. subseq kept xs \<and> list_all2 R kept (List.map_filter f xs)"
proof (induction xs)
  case (Cons x xs)
  then obtain kept where kept: "subseq kept xs" "list_all2 R kept (List.map_filter f xs)" by blast
  show ?case
  proof (cases "f x")
    case None
    with kept show ?thesis by (intro exI [of _ kept]) (auto simp: map_filter_simps)
  next
    case (Some y)
    with kept assms show ?thesis by (intro exI [of _ "x # kept"]) (auto simp: map_filter_simps)
  qed
qed (simp add: map_filter_simps)

lemma subseq_list_all2:
  "list_all2 R xs ys \<Longrightarrow> subseq ys' ys \<Longrightarrow> \<exists>xs'. subseq xs' xs \<and> list_all2 R xs' ys'"
proof (induction xs ys arbitrary: ys' rule: list_all2_induct)
  case (Cons x xs y ys)
  show ?case
  proof (cases "subseq ys' ys")
    case True
    with Cons.IH obtain xs' where "subseq xs' xs" "list_all2 R xs' ys'" by blast
    then show ?thesis by (intro exI [of _ xs']) (simp add: list_emb_Cons)
  next
    case False
    with Cons.prems obtain zs where zs: "ys' = y # zs" "subseq zs ys"
      by (cases ys') (auto split: if_splits)
    with Cons.IH obtain xs' where "subseq xs' xs" "list_all2 R xs' zs" by blast
    with zs Cons.hyps show ?thesis by (intro exI [of _ "x # xs'"]) simp
  qed
qed auto

lemma splice_utf8:
  assumes "s \<le> e" "e \<le> length t"
  obtains m where "utf8 t = utf8 (take s t) @ m @ utf8 (drop e t)"
    "utf8 (take e t) = utf8 (take s t) @ m" "utf8 (splice t s e r) = utf8 (take s t) @ utf8 r @ utf8 (drop e t)"
proof -
  have "take e t = take s t @ drop s (take e t)"
    using assms by (metis append_take_drop_id min.absorb1 take_take)
  moreover have "t = take e t @ drop e t" by simp
  ultimately have "utf8 (take e t) = utf8 (take s t) @ utf8 (drop s (take e t))"
    and "utf8 t = utf8 (take e t) @ utf8 (drop e t)"
    by (metis utf8_append)+
  then show thesis
    by (intro that [of "utf8 (drop s (take e t))"]) (simp_all add: splice_def)
qed

lemma rebase_for_edit_same_span:
  assumes "rebase_for_edit t (Some els) s e r = Inr els2" "s \<le> e" "e \<le> length t"
  obtains els' kept where "els2 = Some els'" "subseq kept els"
    "list_all2 (same_span (utf8 t) (utf8 (splice t s e r))) kept els'"
proof (cases "els = []")
  case True
  with assms(1) show thesis by (intro that [of "[]" "[]"]) (auto simp: rebase_for_edit_def)
next
  case False
  obtain m where m: "utf8 t = utf8 (take s t) @ m @ utf8 (drop e t)" "utf8 (take e t) = utf8 (take s t) @ m"
    "utf8 (splice t s e r) = utf8 (take s t) @ utf8 r @ utf8 (drop e t)"
    by (rule splice_utf8 [OF assms(2,3)])
  from assms(1) False have els2: "els2 = Some (rebase_elements els (int (length (utf8 (take s t))))
      (int (length (utf8 (take e t)))) (int (length (utf8 r))) (int (length (utf8 t))))"
    by (auto simp: rebase_for_edit_def utf8_encode_eq_Some split: option.splits)
  have "\<exists>kept. subseq kept els \<and> list_all2 (same_span (utf8 t) (utf8 (splice t s e r))) kept
      (rebase_elements els (int (length (utf8 (take s t)))) (int (length (utf8 (take e t))))
        (int (length (utf8 r))) (int (length (utf8 t))))"
    unfolding rebase_elements_def
    by (rule map_filter_subseq) (metis m rebase_element_same_span)
  with els2 show thesis using that by blast
qed

lemma same_span_refl: "same_span b b el el"
  by (simp add: same_span_def)

lemma same_span_compose:
  assumes "subseq k1 els" "list_all2 (same_span a b) k1 els1" "subseq k2 els1" "list_all2 (same_span b c) k2 els2"
  obtains kept where "subseq kept els" "list_all2 (same_span a c) kept els2"
proof -
  obtain k where k: "subseq k k1" "list_all2 (same_span a b) k k2"
    using subseq_list_all2 [OF assms(2,3)] by blast
  have "list_all2 (same_span a c) k els2"
    by (rule list_all2_trans [OF _ k(2) assms(4)]) (rule same_span_trans)
  moreover have "subseq k els" using k(1) assms(1) by (rule subseq_order.trans)
  ultimately show thesis by (rule that [rotated])
qed

text \<open>
  Property C31. Rebased elements keep their meaning: after any list of edits, the remaining
  \<^verbatim>\<open>text_elements\<close> are, in order, a subsequence of the original ones, and each one is unchanged
  with an unchanged text, or lies within the new text, denotes exactly the bytes it denoted in the
  original text and keeps all its other fields.
\<close>

theorem edited_elements_same_span:
  assumes "apply_text_edits t (Some els) edits = Inr (t', els2)"
  shows "\<exists>kept els'. els2 = Some els' \<and> subseq kept els \<and> list_all2 (same_span (utf8 t) (utf8 t')) kept els'"
  using assms
proof (induction t "Some els" edits arbitrary: els rule: apply_text_edits.induct)
  case (1 t)
  then show ?case
    by (intro exI [of _ els]) (auto simp: list_all2_same same_span_refl)
next
  case (3 t s e r edits)
  show ?case
  proof (cases "take (nat e - nat s) (drop (nat s) t) = r")
    case True
    with 3 show ?thesis by (auto split: if_splits)
  next
    case False
    with "3.prems" obtain els1' where v: "valid_edit s e t"
      and reb: "rebase_for_edit t (Some els) (nat s) (nat e) r = Inr els1'"
      and rest: "apply_text_edits (splice t (nat s) (nat e) r) els1' edits = Inr (t', els2)"
      by (auto split: if_splits sum.splits)
    from v have "nat s \<le> nat e" "nat e \<le> length t" by (auto simp: valid_edit_def)
    from rebase_for_edit_same_span [OF reb this] obtain els1 k1 where k1: "els1' = Some els1" "subseq k1 els"
      "list_all2 (same_span (utf8 t) (utf8 (splice t (nat s) (nat e) r))) k1 els1" .
    from "3.hyps"(2) [OF _ False] v reb k1(1) rest obtain k2 els' where k2: "els2 = Some els'" "subseq k2 els1"
      "list_all2 (same_span (utf8 (splice t (nat s) (nat e) r)) (utf8 t')) k2 els'"
      by auto
    from same_span_compose [OF k1(2,3) k2(2,3)] k2(1) show ?thesis by blast
  qed
qed simp

subsection \<open>The hook changes submitted text only\<close>

text \<open>The text after the edits, as the edits describe it.\<close>

fun edited_text :: "pystr \<Rightarrow> prompt_text_edit list \<Rightarrow> pystr" where
  "edited_text t [] = t"
| "edited_text t (NotAnEdit # edits) = edited_text t edits"
| "edited_text t (PromptTextEdit s e r # edits) = edited_text (splice t (nat s) (nat e) r) edits"

lemma apply_text_edits_text: "apply_text_edits t els edits = Inr (t', els') \<Longrightarrow> t' = edited_text t edits"
proof (induction t els edits rule: apply_text_edits.induct)
  case (3 t els s e r edits)
  have "splice t (nat s) (nat e) (take (nat e - nat s) (drop (nat s) t)) = t" if "valid_edit s e t"
  proof -
    from that have "nat s \<le> nat e" "nat e \<le> length t" by (auto simp: valid_edit_def)
    then show ?thesis
      by (metis append.assoc append_take_drop_id le_add_diff_inverse splice_def take_add)
  qed
  with 3 show ?case by (auto split: if_splits sum.splits)
qed auto

definition text_only_change :: "json \<Rightarrow> json \<Rightarrow> bool" where
  "text_only_change item item' \<longleftrightarrow>
     item' = item \<or>
     (\<exists>d d'. item = JDict d \<and> item' = JDict d' \<and> item_text item \<noteq> None \<and> item_text item' \<noteq> None \<and>
        (\<forall>k. k \<noteq> lit ''text'' \<and> k \<noteq> lit ''text_elements'' \<longrightarrow> dict_get d' k = dict_get d k))"

lemma edit_item_result:
  assumes "edit_item item edits = Inr (item', ch)" "item_text item = Some t"
  shows "text_only_change item item' \<and> item_text item' = Some (edited_text t edits) \<and> (\<not> ch \<longrightarrow> item' = item)"
proof -
  from assms(2) obtain d where d: "item = JDict d" "jfield d ''type'' = JStr (lit ''text'')" "jfield d ''text'' = JStr t"
    by (auto simp: item_text_def split: json.splits if_splits)
  with assms obtain els t' els' where ap: "apply_text_edits t els edits = Inr (t', els')"
    and it: "(item', ch) = (if t' = t then (item, False)
       else (JDict (case els' of None \<Rightarrow> dict_set (lit ''text'') (JStr t') d
         | Some es \<Rightarrow> dict_set (lit ''text_elements'') (JList es) (dict_set (lit ''text'') (JStr t') d)), True))"
    by (auto simp: edit_item_def Let_def split: sum.splits if_splits)
  have "t' = edited_text t edits" using apply_text_edits_text [OF ap] .
  with it d assms(2) show ?thesis
    by (auto simp: text_only_change_def item_text_def jfield_def split: option.splits if_splits)
qed

abbreviation texts_of :: "json list \<Rightarrow> pystr list" where
  "texts_of items \<equiv> map (\<lambda>item. the (item_text item)) (filter (\<lambda>item. item_text item \<noteq> None) items)"

lemma edit_items_result:
  "edit_items items es = Inr (items', ch) \<Longrightarrow> length es = length (texts_of items) \<Longrightarrow>
     list_all2 text_only_change items items' \<and> texts_of items' = map2 edited_text (texts_of items) es \<and>
     (\<not> ch \<longrightarrow> items' = items)"
proof (induction items es arbitrary: items' ch rule: edit_items.induct)
  case (2 item items)
  then show ?case by (auto simp: list_all2_same text_only_change_def)
next
  case (3 item items e es)
  show ?case
  proof (cases "item_text item")
    case None
    with "3.prems"(1) obtain items'' where tl: "edit_items items (e # es) = Inr (items'', ch)"
      and eq: "items' = item # items''"
      by (auto split: sum.splits)
    have "length (e # es) = length (texts_of items)" using "3.prems"(2) None by simp
    with "3.IH"(1) [OF None tl] None eq show ?thesis by (simp add: text_only_change_def)
  next
    case (Some t)
    with "3.prems"(1) obtain item' ch1 where hd: "edit_item item e = Inr (item', ch1)"
      by (auto split: sum.splits)
    with "3.prems"(1) Some obtain items'' ch2 where tl: "edit_items items es = Inr (items'', ch2)"
      by (auto split: sum.splits)
    have eq: "items' = item' # items''" "ch = (ch1 \<or> ch2)" using "3.prems"(1) Some hd tl by auto
    have "length es = length (texts_of items)" using "3.prems"(2) Some by simp
    with "3.IH"(2) [OF _ hd refl tl] Some edit_item_result [OF hd Some] eq show ?thesis by auto
  qed
qed simp

lemma submission_frame:
  assumes "is_user_input_submission frame"
  obtains f meth params items where "frame = JDict f" "jfield f ''method'' = JStr meth"
    "meth \<in> set SUBMISSION_METHODS" "jfield f ''params'' = JDict params"
    "jfield params ''input'' = JList items" "items \<noteq> []" "submission_input frame = items"
  using assms
  by (auto simp: is_user_input_submission_def submission_input_def jpath_def split: json.splits)

lemma with_input_submission:
  assumes "is_user_input_submission frame" "items' \<noteq> []"
  shows "is_user_input_submission (with_input frame items') \<and> submission_input (with_input frame items') = items'"
  using assms(1)
  by (rule submission_frame)
     (simp add: is_user_input_submission_def submission_input_def with_input_def jpath_def assms(2))

lemma texts_of_submission: "is_user_input_submission frame \<Longrightarrow> user_input_texts frame = texts_of (submission_input frame)"
  by (simp add: user_input_texts_def user_input_text_items_def)

text \<open>
  Property C19. A prompt hook owns submitted text and nothing else: whatever the codec and the
  hook, a payload that comes back changed was a submission; the new frame is the old one with
  only its input list replaced, every input item differs at most in \<^verbatim>\<open>text\<close> and
  \<^verbatim>\<open>text_elements\<close>, and the submitted texts are the hook's edits applied to the original texts.
\<close>

theorem hook_changes_text_only:
  assumes "apply_user_prompt_hook loads dumps hook p = Inr p'" and "p' \<noteq> p"
  shows "\<exists>frame edits items'. loads p = Some frame \<and> is_user_input_submission frame \<and>
    hook (user_input_texts frame) = Inr edits \<and> list_all2 text_only_change (submission_input frame) items' \<and>
    user_input_texts (with_input frame items') = map2 edited_text (user_input_texts frame) edits \<and>
    p' = reply_payload p (dumps (with_input frame items')) (utf8 (dumps (with_input frame items')))"
proof -
  from assms obtain frame edits items' where
    frame: "loads p = Some frame" and sub: "is_user_input_submission frame"
    and hook: "hook (user_input_texts frame) = Inr edits"
    and len: "length edits = length (user_input_text_items frame)"
    and items: "edit_items (submission_input frame) edits = Inr (items', True)"
    and p': "p' = reply_payload p (dumps (with_input frame items')) (utf8 (dumps (with_input frame items')))"
    by (auto simp: apply_user_prompt_hook_def Let_def utf8_encode_eq_Some
        split: if_splits option.splits sum.splits prod.splits)
  have len': "length edits = length (texts_of (submission_input frame))"
    using len sub by (simp add: user_input_text_items_def)
  note res = edit_items_result [OF items len']
  have "items' \<noteq> []"
    using res sub by (auto elim!: submission_frame)
  with res sub have "user_input_texts (with_input frame items') = map2 edited_text (user_input_texts frame) edits"
    using with_input_submission [OF sub] by (simp add: texts_of_submission)
  with frame sub hook res p' show ?thesis by blast
qed

text \<open>
  Everything that is not submitted input is forwarded untouched and never shown to
  the hook: for a payload that is absent, does not decode or is not a submission, the result is
  the payload itself for every hook.
\<close>

theorem hook_not_consulted:
  assumes "p = PayloadNone \<or> loads p = None \<or> (\<exists>frame. loads p = Some frame \<and> \<not> is_user_input_submission frame)"
  shows "apply_user_prompt_hook loads dumps hook p = Inr p"
  using assms by (auto simp: apply_user_prompt_hook_def)

subsection \<open>Witnesses\<close>

definition demo_element :: json where
  "demo_element = JDict [(lit ''byteRange'', JDict [(lit ''start'', JInt 2), (lit ''end'', JInt 4)]), (lit ''kind'', JStr (lit ''mention''))]"

lemmas input_eval = demo_element_def valid_edit_def rebase_for_edit_def utf8_encode_def utf8_def utf8_char_def
  is_surrogate_def splice_def rebase_elements_def rebase_element_def element_range_def shift_element_def
  jfield_def map_filter_simps Let_def

lemma demo_apply:
  "apply_text_edits [97, 98, 99, 100] (Some [demo_element]) [PromptTextEdit 0 1 [233]] =
     Inr ([233, 98, 99, 100], Some [JDict [(lit ''byteRange'', JDict [(lit ''start'', JInt 3), (lit ''end'', JInt 5)]),
       (lit ''kind'', JStr (lit ''mention''))]])"
  by (simp add: input_eval)

theorem edited_elements_same_span_witness:
  "\<exists>kept els'. Some [JDict [(lit ''byteRange'', JDict [(lit ''start'', JInt 3), (lit ''end'', JInt 5)]),
       (lit ''kind'', JStr (lit ''mention''))]] = Some els' \<and> subseq kept [demo_element] \<and>
     list_all2 (same_span (utf8 [97, 98, 99, 100]) (utf8 [233, 98, 99, 100])) kept els'"
  by (rule edited_elements_same_span [OF demo_apply])

definition demo_submission :: json where
  "demo_submission = JDict [(lit ''method'', JStr (lit ''turn/start'')),
     (lit ''params'', JDict [(lit ''input'',
        JList [JDict [(lit ''type'', JStr (lit ''text'')), (lit ''text'', JStr (lit ''hi''))]])])]"

definition demo_hook :: "pystr list \<Rightarrow> pystr + prompt_text_edit list list" where
  "demo_hook ts = Inr (map (\<lambda>t. [PromptTextEdit 0 (int (length t)) (lit ''yes'')]) ts)"

lemmas hook_eval = apply_user_prompt_hook_def demo_submission_def demo_hook_def is_user_input_submission_def
  SUBMISSION_METHODS_def user_input_texts_def user_input_text_items_def submission_input_def item_text_def jpath_def
  edit_item_def with_input_def reply_payload_def

theorem hook_changes_text_only_witness:
  "\<exists>frame edits items'. Some demo_submission = Some frame \<and> is_user_input_submission frame \<and>
    demo_hook (user_input_texts frame) = Inr edits \<and> list_all2 text_only_change (submission_input frame) items' \<and>
    user_input_texts (with_input frame items') = map2 edited_text (user_input_texts frame) edits \<and>
    PayloadStr (lit ''edited'') =
      reply_payload (PayloadStr (lit ''raw'')) ((\<lambda>_. lit ''edited'') (with_input frame items'))
        (utf8 ((\<lambda>_. lit ''edited'') (with_input frame items')))"
  by (rule hook_changes_text_only [where loads = "\<lambda>_. Some demo_submission"])
     (simp_all add: hook_eval input_eval, simp add: lit_def)

theorem hook_not_consulted_witness:
  "apply_user_prompt_hook (\<lambda>_. Some JNull) (\<lambda>_. []) demo_hook (PayloadStr (lit ''null'')) = Inr (PayloadStr (lit ''null''))"
  by (rule hook_not_consulted) (simp add: is_user_input_submission_def)

end
