(* ===== verification/Prompt_Expansion.thy ===== *)
theory Prompt_Expansion
  imports Protocol_Input_Text
begin

section \<open>Transient display of forwarded input\<close>

text \<open>
  \<^verbatim>\<open>src/rodex/prompt_expansion_display.py\<close>: a latest-only display of the text before and after a
  prompt hook. Sources and wake callbacks are compared by identity, so they are numbers; each
  operation returns the new state and the wake callback it calls (whose exceptions are suppressed).
  Times are the values of \<^verbatim>\<open>time.monotonic()\<close>, passed in by the event.
\<close>

definition PROMPT_EXPANSION_MAX_CHARACTERS :: nat where
  "PROMPT_EXPANSION_MAX_CHARACTERS = 8192"

definition PROMPT_EXPANSION_VISIBLE_SECONDS :: rat where
  "PROMPT_EXPANSION_VISIBLE_SECONDS = 15"

subsection \<open>Bounded text\<close>

definition ellipsis :: pystr where
  "ellipsis = [8230]"

text \<open>The loop of \<^verbatim>\<open>_bounded_text\<close>; \<open>rest\<close> is \<^verbatim>\<open>remaining\<close> and \<open>more\<close> is \<^verbatim>\<open>bool(index)\<close>.\<close>

fun bounded_text_loop :: "nat \<Rightarrow> pystr list \<Rightarrow> int \<Rightarrow> bool \<Rightarrow> pystr list \<Rightarrow> pystr" where
  "bounded_text_loop limit parts rest more [] = py_join [10] parts"
| "bounded_text_loop limit parts rest more (t # ts) =
     (let rest' = rest - (if more then 1 else 0) in
      if rest' < 0 then take (limit - 1) (py_join [10] parts) @ ellipsis
      else if int (length t) > rest' then take (limit - 1) (py_join [10] (parts @ [take (nat rest') t])) @ ellipsis
      else bounded_text_loop limit (parts @ [take (nat rest') t]) (rest' - int (length t)) True ts)"

definition bounded_text :: "pystr list \<Rightarrow> nat \<Rightarrow> pystr" where
  "bounded_text texts limit = bounded_text_loop limit [] (int limit) False texts"

text \<open>The reference: join everything, and cut only when the result is too long.\<close>

definition bounded_text_spec :: "pystr list \<Rightarrow> nat \<Rightarrow> pystr" where
  "bounded_text_spec texts limit =
     (let joined = py_join [10] texts
      in if length joined \<le> limit then joined else take (limit - 1) joined @ ellipsis)"

lemma py_join_append:
  "xs \<noteq> [] \<Longrightarrow> ys \<noteq> [] \<Longrightarrow> py_join sep (xs @ ys) = py_join sep xs @ sep @ py_join sep ys"
proof (induction sep xs rule: py_join.induct)
  case (2 sep x)
  then show ?case by (cases ys) auto
qed auto

lemma py_join_prefix: "py_join sep (xs @ [take n t]) = take (length (py_join sep (xs @ [take n t]))) (py_join sep (xs @ t # ts))"
proof -
  have "\<exists>z. py_join sep (t # ts) = t @ z" by (cases ts) auto
  then obtain z where z: "py_join sep (t # ts) = take n t @ drop n t @ z"
    by (metis append.assoc append_take_drop_id)
  then show ?thesis
    by (cases "xs = []") (auto simp: py_join_append min_def)
qed

lemma length_py_join_append_ge: "length (py_join sep xs) \<le> length (py_join sep (xs @ ys))"
  by (cases "xs = []"; cases "ys = []") (auto simp: py_join_append)

lemma bounded_text_loop_spec:
  assumes "rest = int limit - int (length (py_join [10] parts))" "0 \<le> rest" "more \<longleftrightarrow> parts \<noteq> []" "0 < limit"
  shows "bounded_text_loop limit parts rest more ts = bounded_text_spec (parts @ ts) limit"
  using assms
proof (induction limit parts rest more ts rule: bounded_text_loop.induct)
  case (1 limit parts rest more)
  then show ?case by (simp add: bounded_text_spec_def)
next
  case (2 limit parts rest more t ts)
  let ?rest' = "rest - (if more then 1 else 0)"
  let ?all = "py_join [10] (parts @ t # ts)"
  have joined: "length (py_join [10] (parts @ [take n t])) =
      length (py_join [10] parts) + (if more then 1 else 0) + min (length t) n" for n
    using "2.prems"(3) by (cases "parts = []") (auto simp: py_join_append)
  have whole: "length (py_join [10] parts) + (if more then 1 else 0) + length t \<le> length ?all"
    using length_py_join_append_ge [of "[10]" "parts @ [t]" ts] joined [of "length t"] by simp
  consider (gone) "?rest' < 0" | (cut) "0 \<le> ?rest'" "int (length t) > ?rest'"
    | (fits) "0 \<le> ?rest'" "int (length t) \<le> ?rest'" by linarith
  then show ?case
  proof cases
    case gone
    with "2.prems" have "more" "length (py_join [10] parts) = limit" by (auto split: if_splits)
    moreover have "parts \<noteq> []" using \<open>more\<close> "2.prems" by simp
    ultimately show ?thesis
      using gone "2.prems" by (auto simp: bounded_text_spec_def py_join_append Let_def)
  next
    case cut
    let ?p = "py_join [10] (parts @ [take (nat ?rest') t])"
    have len: "length ?p = limit" using joined [of "nat ?rest'"] cut "2.prems" by auto
    have "?p = take limit ?all" using py_join_prefix [of "[10]" parts "nat ?rest'" t ts] len by simp
    moreover have "limit < length ?all" using whole cut "2.prems" by auto
    ultimately show ?thesis
      using cut "2.prems" by (simp add: bounded_text_spec_def Let_def min_def)
  next
    case fits
    then have t: "take (nat ?rest') t = t" by simp
    have "bounded_text_loop limit (parts @ [t]) (?rest' - int (length t)) True ts = bounded_text_spec ((parts @ [t]) @ ts) limit"
      using "2.IH" [OF refl] fits t "2.prems" joined [of "length t"] by auto
    with fits t show ?thesis by (simp add: Let_def)
  qed
qed

lemma bounded_text_eq_spec: "0 < limit \<Longrightarrow> bounded_text texts limit = bounded_text_spec texts limit"
  using bounded_text_loop_spec [of "int limit" limit "[]" False texts] by (simp add: bounded_text_def)

lemma bounded_text_le: "0 < limit \<Longrightarrow> length (bounded_text ts limit) \<le> limit"
  by (auto simp: bounded_text_eq_spec bounded_text_spec_def Let_def ellipsis_def)

text \<open>
  Slicing before joining changes nothing but the cost: for a positive limit the
  bounded text is the joined text when that fits, and otherwise its first \<open>limit - 1\<close> characters
  and an ellipsis; it never exceeds the limit.
\<close>

theorem bounded_text_correct:
  assumes "0 < limit"
  shows "bounded_text texts limit = bounded_text_spec texts limit \<and> length (bounded_text texts limit) \<le> limit"
  using assms bounded_text_eq_spec bounded_text_le by simp

subsection \<open>The display\<close>

record prompt_expansion =
  expansion_original :: pystr
  expansion_forwarded :: pystr

record expansion_display =
  display_source :: "nat option"
  display_expansion :: "prompt_expansion option"
  display_expires_at :: "rat option"
  display_wake :: "nat option"

definition initial_display :: expansion_display where
  "initial_display = \<lparr>display_source = None, display_expansion = None, display_expires_at = None, display_wake = None\<rparr>"

definition bind_source :: "nat \<Rightarrow> expansion_display \<Rightarrow> expansion_display \<times> nat option" where
  "bind_source src d =
     (d\<lparr>display_source := Some src, display_expansion := None, display_expires_at := None\<rparr>, display_wake d)"

definition release_source :: "nat \<Rightarrow> expansion_display \<Rightarrow> expansion_display \<times> nat option" where
  "release_source src d =
     (if display_source d \<noteq> Some src then (d, None)
      else (d\<lparr>display_source := None, display_expansion := None, display_expires_at := None\<rparr>, display_wake d))"

text \<open>The texts compared by \<^verbatim>\<open>observe_forwarded\<close>, or \<open>None\<close> at one of its early returns.\<close>

definition forwarded_texts :: "(payload \<Rightarrow> json option) \<Rightarrow> payload \<Rightarrow> payload \<Rightarrow> (pystr list \<times> pystr list) option" where
  "forwarded_texts loads original forwarded =
     (if original = forwarded \<or> forwarded = PayloadNone then None
      else case loads forwarded of
        None \<Rightarrow> None
      | Some frame \<Rightarrow>
          if \<not> is_user_input_submission frame then None
          else (case (if original = PayloadNone then Some [] else map_option user_input_texts (loads original)) of
                  None \<Rightarrow> None
                | Some before \<Rightarrow>
                    if before = user_input_texts frame then None else Some (before, user_input_texts frame)))"

definition make_expansion :: "pystr list \<Rightarrow> pystr list \<Rightarrow> prompt_expansion" where
  "make_expansion before after =
     (let original = bounded_text before 512
      in \<lparr>expansion_original = original,
          expansion_forwarded = bounded_text after (PROMPT_EXPANSION_MAX_CHARACTERS - length original)\<rparr>)"

definition observe_forwarded ::
  "(payload \<Rightarrow> json option) \<Rightarrow> nat \<Rightarrow> payload \<Rightarrow> payload \<Rightarrow> rat \<Rightarrow> expansion_display \<Rightarrow> expansion_display \<times> nat option" where
  "observe_forwarded loads src original forwarded now d =
     (case forwarded_texts loads original forwarded of
        None \<Rightarrow> (d, None)
      | Some (before, after) \<Rightarrow>
          if display_source d \<noteq> Some src then (d, None)
          else (d\<lparr>display_expansion := Some (make_expansion before after),
                  display_expires_at := Some (now + PROMPT_EXPANSION_VISIBLE_SECONDS)\<rparr>, display_wake d))"

definition snapshot :: "rat \<Rightarrow> expansion_display \<Rightarrow> expansion_display \<times> (prompt_expansion option \<times> rat option)" where
  "snapshot now d =
     (let d' = (case display_expires_at d of
                  Some e \<Rightarrow> if e \<le> now then d\<lparr>display_expansion := None, display_expires_at := None\<rparr> else d
                | None \<Rightarrow> d)
      in (d', display_expansion d', display_expires_at d'))"

definition subscribe :: "nat \<Rightarrow> expansion_display \<Rightarrow> expansion_display" where
  "subscribe wake d = d\<lparr>display_wake := Some wake\<rparr>"

definition unsubscribe :: "nat \<Rightarrow> expansion_display \<Rightarrow> expansion_display" where
  "unsubscribe wake d = (if display_wake d = Some wake then d\<lparr>display_wake := None\<rparr> else d)"

datatype display_event =
    DisplayBind nat
  | DisplayRelease nat
  | DisplayForwarded nat payload payload rat
  | DisplaySnapshot rat
  | DisplaySubscribe nat
  | DisplayUnsubscribe nat

fun display_step :: "(payload \<Rightarrow> json option) \<Rightarrow> expansion_display \<Rightarrow> display_event \<Rightarrow> expansion_display" where
  "display_step loads d (DisplayBind src) = fst (bind_source src d)"
| "display_step loads d (DisplayRelease src) = fst (release_source src d)"
| "display_step loads d (DisplayForwarded src original forwarded now) =
     fst (observe_forwarded loads src original forwarded now d)"
| "display_step loads d (DisplaySnapshot now) = fst (snapshot now d)"
| "display_step loads d (DisplaySubscribe wake) = subscribe wake d"
| "display_step loads d (DisplayUnsubscribe wake) = unsubscribe wake d"

definition display_inv :: "expansion_display \<Rightarrow> bool" where
  "display_inv d \<longleftrightarrow>
     (display_expansion d = None \<longleftrightarrow> display_expires_at d = None) \<and>
     (display_source d = None \<longrightarrow> display_expansion d = None) \<and>
     (\<forall>x. display_expansion d = Some x \<longrightarrow>
        length (expansion_original x) + length (expansion_forwarded x) \<le> PROMPT_EXPANSION_MAX_CHARACTERS)"

lemma make_expansion_bounded:
  "length (expansion_original (make_expansion b a)) + length (expansion_forwarded (make_expansion b a))
     \<le> PROMPT_EXPANSION_MAX_CHARACTERS"
proof -
  have o: "length (bounded_text b 512) \<le> 512" by (rule bounded_text_le) simp
  then have "length (bounded_text a (8192 - length (bounded_text b 512))) \<le> 8192 - length (bounded_text b 512)"
    by (intro bounded_text_le) simp
  with o show ?thesis
    by (simp add: make_expansion_def PROMPT_EXPANSION_MAX_CHARACTERS_def Let_def)
qed

lemmas [machine_defs] = bind_source_def release_source_def observe_forwarded_def snapshot_def subscribe_def
  unsubscribe_def

interpretation display: event_machine "display_step loads" display_inv
proof
  fix d e
  assume "display_inv d"
  then show "display_inv (display_step loads d e)"
    by (cases e)
       (auto simp: machine_defs display_inv_def make_expansion_bounded Let_def split: option.splits prod.splits)
qed

text \<open>
  The display is bounded and honest: after any sequence of operations, what a
  snapshot shows has at most 8192 characters in total, comes with the time at which it expires,
  which has not passed, and nothing is shown when no source is bound.
\<close>

theorem snapshot_bounded:
  assumes "snapshot now (foldl (display_step loads) initial_display es) = (d, Some x, expires)"
  shows "length (expansion_original x) + length (expansion_forwarded x) \<le> PROMPT_EXPANSION_MAX_CHARACTERS \<and>
    (\<exists>e. expires = Some e \<and> now < e) \<and> display_source d \<noteq> None"
proof -
  have "display_inv (foldl (display_step loads) initial_display es)"
    by (rule display.run_inv) (simp add: display_inv_def initial_display_def)
  with assms show ?thesis
    by (auto simp: snapshot_def display_inv_def Let_def split: option.splits if_splits)
qed

text \<open>
  Publications are fenced by their source: an observation or a release from a
  source that is not the bound one changes nothing and wakes nobody, and an unchanged or
  undecodable submission never replaces what is shown.
\<close>

theorem display_source_fenced:
  "(display_source d \<noteq> Some src \<longrightarrow>
      observe_forwarded loads src original forwarded now d = (d, None) \<and> release_source src d = (d, None)) \<and>
   (original = forwarded \<or> loads forwarded = None
      \<or> map_option user_input_texts (loads original) = map_option user_input_texts (loads forwarded)
        \<and> original \<noteq> PayloadNone \<longrightarrow>
      observe_forwarded loads src original forwarded now d = (d, None))"
  by (auto simp: observe_forwarded_def release_source_def forwarded_texts_def split: option.splits)

subsection \<open>Witnesses\<close>

theorem bounded_text_correct_witness:
  "bounded_text [lit ''abc'', lit ''defg''] 6 = bounded_text_spec [lit ''abc'', lit ''defg''] 6 \<and>
   length (bounded_text [lit ''abc'', lit ''defg''] 6) \<le> 6"
  by (rule bounded_text_correct) simp

definition demo_loads :: "payload \<Rightarrow> json option" where
  "demo_loads p = (if p = PayloadStr [] then None else Some demo_submission)"

lemma demo_snapshot:
  "snapshot 3 (foldl (display_step demo_loads) initial_display
      [DisplayBind 1, DisplayForwarded 1 PayloadNone (PayloadStr (lit ''x'')) 2]) =
   (\<lparr>display_source = Some 1, display_expansion = Some (make_expansion [] [lit ''hi'']),
      display_expires_at = Some 17, display_wake = None\<rparr>, Some (make_expansion [] [lit ''hi'']), Some 17)"
  by (simp add: machine_defs initial_display_def forwarded_texts_def demo_loads_def hook_eval input_eval
      PROMPT_EXPANSION_VISIBLE_SECONDS_def)

theorem snapshot_bounded_witness:
  "length (expansion_original (make_expansion [] [lit ''hi''])) + length (expansion_forwarded (make_expansion [] [lit ''hi'']))
      \<le> PROMPT_EXPANSION_MAX_CHARACTERS"
  using snapshot_bounded [OF demo_snapshot] by blast

theorem display_source_fenced_witness:
  "observe_forwarded demo_loads 2 PayloadNone (PayloadStr (lit ''x'')) 4 initial_display = (initial_display, None)"
  using display_source_fenced [of initial_display 2 demo_loads PayloadNone "PayloadStr (lit ''x'')" 4]
  by (simp add: initial_display_def)

end
