(* ===== verification/Fenced_Dispatch.thy ===== *)
theory Fenced_Dispatch
  imports Prelude
begin

section \<open>Generation-fenced dispatch\<close>

text \<open>
  The contract shared by the two controllers that send to the model on their own initiative
  (overload recovery and context steering): a pending attempt carries the generation in which it
  was scheduled, every cancellation advances the generation, and an admission consumes the current
  one. A controller is a machine whose events are its critical sections, so a run is any
  interleaving of its threads. \<open>admitted s e\<close> is the generation of the attempt that event \<open>e\<close>
  admits in state \<open>s\<close>.
\<close>

fun admissions :: "('s \<Rightarrow> 'e \<Rightarrow> 's) \<Rightarrow> ('s \<Rightarrow> 'e \<Rightarrow> nat option) \<Rightarrow> 's \<Rightarrow> 'e list \<Rightarrow> nat list" where
  "admissions step admitted s [] = []"
| "admissions step admitted s (e # es) =
     (case admitted s e of None \<Rightarrow> [] | Some g \<Rightarrow> [g]) @ admissions step admitted (step s e) es"

lemma admissions_append:
  "admissions step admitted s (es @ es') =
     admissions step admitted s es @ admissions step admitted (foldl step s es) es'"
  by (induction es arbitrary: s) auto

locale fenced_dispatch = event_machine +
  fixes generation :: "'s \<Rightarrow> nat"
    and admitted :: "'s \<Rightarrow> 'e \<Rightarrow> nat option"
  assumes generation_step: "inv s \<Longrightarrow> generation s \<le> generation (step s e)"
    and admitted_current: "inv s \<Longrightarrow> admitted s e = Some g \<Longrightarrow> g = generation s"
    and admitted_consumes: "inv s \<Longrightarrow> admitted s e = Some g \<Longrightarrow> generation s < generation (step s e)"
begin

lemma generation_run: "inv s \<Longrightarrow> generation s \<le> generation (foldl step s es)"
proof (induction es arbitrary: s)
  case (Cons e es)
  then have "generation s \<le> generation (step s e)" and "inv (step s e)"
    by (auto intro: generation_step step_inv)
  with Cons.IH show ?case by fastforce
qed simp

lemma admissions_after: "inv s \<Longrightarrow> g \<in> set (admissions step admitted s es) \<Longrightarrow> generation s \<le> g"
proof (induction es arbitrary: s)
  case (Cons e es)
  have "inv (step s e)" using Cons.prems(1) by (rule step_inv)
  from Cons.prems(2) consider "admitted s e = Some g" | "g \<in> set (admissions step admitted (step s e) es)"
    by (auto split: option.splits)
  then show ?case
  proof cases
    case 1
    then show ?thesis using admitted_current [OF Cons.prems(1)] by auto
  next
    case 2
    then show ?thesis
      using Cons.IH [OF \<open>inv (step s e)\<close>] generation_step [OF Cons.prems(1), of e] by simp
  qed
qed simp

lemma admissions_increasing: "inv s \<Longrightarrow> sorted_wrt (<) (admissions step admitted s es)"
proof (induction es arbitrary: s)
  case (Cons e es)
  have next_state: "inv (step s e)" using Cons.prems by (rule step_inv)
  then have IH: "sorted_wrt (<) (admissions step admitted (step s e) es)" by (rule Cons.IH)
  show ?case
  proof (cases "admitted s e")
    case (Some g)
    then have "g < generation (step s e)"
      using admitted_current admitted_consumes Cons.prems by metis
    then have "g < g'" if "g' \<in> set (admissions step admitted (step s e) es)" for g'
      using admissions_after [OF next_state that] by simp
    with IH Some show ?thesis by simp
  qed (simp add: IH)
qed simp

lemma admissions_after_fence:
  assumes "inv s" "generation (foldl step s es) < generation (foldl step s (es @ [e]))"
    and "g \<in> set (admissions step admitted (foldl step s (es @ [e])) es')"
  shows "generation (foldl step s es) < g"
  using admissions_after [OF run_inv [OF assms(1)] assms(3)] assms(2) by simp

end

end
