(* ===== verification/Interaction_Pipeline.thy ===== *)
theory Interaction_Pipeline
  imports Protocol_Input_Text
begin

section \<open>The session interaction pipeline\<close>

text \<open>
  \<^verbatim>\<open>src/rodex/interaction_pipeline.py\<close>: resolve, validate, transform, revalidate, deliver, record.
  A target is compared by identity, so the registry maps names to numbers and the callbacks of
  target \<open>t\<close> are \<open>env_target env t\<close>. Callbacks and hooks are parameters: each one is a function of
  the whole state (so it may register, unregister or execute re-entrantly, and it stands for what
  other threads do meanwhile) that returns a value or raises. Field types that the dataclass
  declares are HOL types, so the \<^verbatim>\<open>isinstance\<close> tests on them hold by typing.
\<close>

subsection \<open>Requests and results\<close>

datatype interaction_operation =
    OpMessage | OpDisplayState | OpProtocolInput | OpProtocolOutput | OpTerminalInput | OpTerminalOutput
  | OpInteractiveInput | OpSubmittedCommand | OpInputConfigurationError | OpInputRelease
  | OpSelectPresentationPolicy | OpOpen | OpLocate | OpFocus | OpResize | OpClose | OpSteer | OpInterrupt

fun operation_value :: "interaction_operation \<Rightarrow> string" where
  "operation_value OpMessage = ''message''"
| "operation_value OpDisplayState = ''display_state''"
| "operation_value OpProtocolInput = ''protocol_input''"
| "operation_value OpProtocolOutput = ''protocol_output''"
| "operation_value OpTerminalInput = ''terminal_input''"
| "operation_value OpTerminalOutput = ''terminal_output''"
| "operation_value OpInteractiveInput = ''interactive_input''"
| "operation_value OpSubmittedCommand = ''submitted_command''"
| "operation_value OpInputConfigurationError = ''input_configuration_error''"
| "operation_value OpInputRelease = ''input_release''"
| "operation_value OpSelectPresentationPolicy = ''select_presentation_policy''"
| "operation_value OpOpen = ''open''"
| "operation_value OpLocate = ''locate''"
| "operation_value OpFocus = ''focus''"
| "operation_value OpResize = ''resize''"
| "operation_value OpClose = ''close''"
| "operation_value OpSteer = ''steer''"
| "operation_value OpInterrupt = ''interrupt''"

datatype delivery_status =
    DsCompleted | DsDelivered | DsQueued | DsModelTurnStarted | DsRejected | DsFailed | DsIndeterminate

datatype rejection_reason = ReasonUnspecified | ReasonModelThreadUnbound

record interaction_request =
  req_target :: pystr
  req_operation :: interaction_operation
  req_source :: pystr
  req_text :: "pystr option"
  req_start_model_turn :: bool
  req_payload :: payload
  req_open_if_missing :: bool
  req_size_percent :: "int option"
  req_dispatch_id :: "pystr option"
  req_expected_turn_id :: "pystr option"
  req_expected_thread_id :: "pystr option"
  req_expected_binding :: "pystr option"
  req_request_id :: pystr

text \<open>The exceptions the pipeline distinguishes; \<open>ExnFatal\<close> is one that is not an \<^verbatim>\<open>Exception\<close>.\<close>

datatype 'x exn =
    ExnPromptHook hook_error
  | ExnRejected rejection_reason pystr
  | ExnIndeterminate 'x
  | ExnOther 'x
  | ExnFatal 'x

datatype 'x result_value = ValueNone | ValueHookError hook_error | ValueOf 'x

record 'x interaction_result =
  result_status :: delivery_status
  result_detail :: pystr
  result_value :: "'x result_value"
  result_rejection_reason :: "rejection_reason option"

definition accepted :: "'x interaction_result \<Rightarrow> bool" where
  "accepted r \<longleftrightarrow> result_status r \<notin> {DsRejected, DsFailed, DsIndeterminate}"

record interaction_record =
  rec_request_id :: pystr
  rec_target :: pystr
  rec_source :: pystr
  rec_operation :: interaction_operation
  rec_start_model_turn :: bool
  rec_status :: delivery_status

record 'w pipe =
  pipe_targets :: "(pystr, nat) dict"
  pipe_records :: "interaction_record list"
  pipe_observers :: "nat list"
  pipe_world :: 'w

type_synonym ('w, 'x, 'a) act = "'w pipe \<Rightarrow> 'w pipe \<times> ('x exn + 'a)"

record ('w, 'x) target_ops =
  target_name :: pystr
  target_runtime_identity :: pystr
  target_operations :: "interaction_operation list"
  target_exists :: "('w, 'x, bool) act"
  target_deliver :: "interaction_request \<Rightarrow> ('w, 'x, 'x interaction_result) act"
  target_model_thread_id :: "('w, 'x, pystr option) act"
  target_open :: "('w, 'x, 'x interaction_result) act option"
  target_binding_identity :: "('w, 'x, pystr option) act"
  target_observe_delivered :: "(interaction_request \<Rightarrow> interaction_request \<Rightarrow> ('w, 'x, unit) act) option"

record ('w, 'x) pipeline_env =
  env_hooks :: "(interaction_request \<Rightarrow> ('w, 'x, interaction_request option) act) list"
  env_input_text_hook :: "('w pipe \<Rightarrow> pystr list \<Rightarrow> pystr + prompt_text_edit list list) option"
  env_loads :: "payload \<Rightarrow> json option"
  env_dumps :: "json \<Rightarrow> pystr"
  env_target :: "nat \<Rightarrow> ('w, 'x) target_ops"
  env_observer :: "nat \<Rightarrow> interaction_record \<Rightarrow> ('w, 'x, unit) act"

subsection \<open>Sequencing\<close>

definition reject :: "pystr \<Rightarrow> ('w, 'x, 'a) act" where
  "reject msg = raise (ExnRejected ReasonUnspecified msg)"

text \<open>\<^verbatim>\<open>if c: raise InteractionRejected(msg)\<close>.\<close>

definition reject_if :: "bool \<Rightarrow> pystr \<Rightarrow> ('w, 'x, unit) act" where
  "reject_if c msg = (if c then reject msg else ret ())"

text \<open>A read of the registry under its lock.\<close>

definition lookup_target :: "pystr \<Rightarrow> ('w, 'x, nat option) act" where
  "lookup_target name = (\<lambda>s. (s, Inr (dict_get (pipe_targets s) name)))"

lemma reject_eq [simp]: "reject msg s = (s, Inl (ExnRejected ReasonUnspecified msg))"
  by (simp add: reject_def)

lemma lookup_target_eq [simp]: "lookup_target name s = (s, Inr (dict_get (pipe_targets s) name))"
  by (simp add: lookup_target_def)

lemma reject_if_Inr [simp]: "reject_if c msg s = (s', Inr u) \<longleftrightarrow> \<not> c \<and> s' = s"
  by (auto simp: reject_if_def)

lemma reject_if_Inl [simp]:
  "reject_if c msg s = (s', Inl e) \<longleftrightarrow> c \<and> s' = s \<and> e = ExnRejected ReasonUnspecified msg"
  by (auto simp: reject_if_def)

subsection \<open>Registry\<close>

datatype registry_error = UnnamedTarget | AlreadyRegistered pystr

definition register :: "('w, 'x) pipeline_env \<Rightarrow> nat \<Rightarrow> 'w pipe \<Rightarrow> 'w pipe \<times> (registry_error + unit)" where
  "register env t s =
     (let name = target_name (env_target env t) in
      if name = [] \<or> target_runtime_identity (env_target env t) = [] then (s, Inl UnnamedTarget)
      else if dict_get (pipe_targets s) name \<noteq> None then (s, Inl (AlreadyRegistered name))
      else (s\<lparr>pipe_targets := dict_set name t (pipe_targets s)\<rparr>, Inr ()))"

definition unregister :: "('w, 'x) pipeline_env \<Rightarrow> nat \<Rightarrow> 'w pipe \<Rightarrow> 'w pipe" where
  "unregister env t s =
     (let name = target_name (env_target env t) in
      if dict_get (pipe_targets s) name = Some t then s\<lparr>pipe_targets := dict_pop name (pipe_targets s)\<rparr> else s)"

text \<open>Each subscription is a fresh closure, here the number given by the caller.\<close>

definition subscribe_outcomes :: "nat \<Rightarrow> 'w pipe \<Rightarrow> 'w pipe" where
  "subscribe_outcomes ob s = s\<lparr>pipe_observers := pipe_observers s @ [ob]\<rparr>"

definition unsubscribe_outcomes :: "nat \<Rightarrow> 'w pipe \<Rightarrow> 'w pipe" where
  "unsubscribe_outcomes ob s = s\<lparr>pipe_observers := remove1 ob (pipe_observers s)\<rparr>"

subsection \<open>Validation\<close>

definition blank_option :: "pystr option \<Rightarrow> bool" where
  "blank_option t \<longleftrightarrow> (case t of None \<Rightarrow> True | Some s \<Rightarrow> py_strip s = [])"

definition is_bytes :: "payload \<Rightarrow> bool" where
  "is_bytes p \<longleftrightarrow> (case p of PayloadBytes _ \<Rightarrow> True | _ \<Rightarrow> False)"

definition is_str :: "payload \<Rightarrow> bool" where
  "is_str p \<longleftrightarrow> (case p of PayloadStr _ \<Rightarrow> True | _ \<Rightarrow> False)"

definition request_error :: "interaction_request \<Rightarrow> string option" where
  "request_error r =
     (if req_target r = [] \<or> req_source r = [] then Some ''interaction requires an explicit target and source''
      else if req_operation r = OpMessage
        \<and> (req_text r = None \<or> req_text r = Some [] \<or> req_start_model_turn r \<and> blank_option (req_text r))
        then Some ''message text must be non-empty''
      else if req_operation r \<noteq> OpMessage \<and> req_start_model_turn r
        then Some ''only an explicit message can request a model turn''
      else if req_operation r \<in> {OpSteer, OpInterrupt} \<and> blank_option (req_expected_turn_id r)
        then Some ''exact turn operation requires a turn ID''
      else if req_operation r = OpSteer \<and> blank_option (req_text r) then Some ''steering text must be non-empty''
      else if req_operation r = OpResize
        \<and> (case req_size_percent r of None \<Rightarrow> True | Some n \<Rightarrow> \<not> (1 \<le> n \<and> n \<le> 99))
        then Some ''pane size must be an integer percentage from 1 to 99''
      else if req_operation r \<in> {OpTerminalInput, OpTerminalOutput} \<and> \<not> is_bytes (req_payload r)
        then Some ''terminal operations require a byte-stream payload''
      else if req_operation r \<in> {OpInteractiveInput, OpSubmittedCommand, OpInputConfigurationError, OpInputRelease}
        \<and> req_text r = None
        then Some ''interceptor operations require a text draft''
      else if req_operation r = OpSelectPresentationPolicy \<and> \<not> is_str (req_payload r)
        then Some ''presentation policy selection requires a string payload''
      else None)"

definition validate_request :: "interaction_request \<Rightarrow> ('w, 'x, unit) act" where
  "validate_request r = (case request_error r of None \<Rightarrow> ret () | Some msg \<Rightarrow> reject (lit msg))"

subsection \<open>Protocol structure\<close>

text \<open>
  Whether two decoded values agree after \<^verbatim>\<open>without_text\<close>: objects compare as Python dictionaries
  (order does not matter), a string under \<^verbatim>\<open>text\<close>, \<^verbatim>\<open>delta\<close> or \<^verbatim>\<open>message\<close> matches any other string
  there, and a scalar matches a scalar of the same type and value (the decoder's NaN is one shared
  object, which tuple comparison finds identical to itself).
\<close>

definition TEXT_KEYS :: "pystr list" where
  "TEXT_KEYS = map lit [''text'', ''delta'', ''message'']"

fun is_jstr :: "json \<Rightarrow> bool" where
  "is_jstr (JStr _) = True"
| "is_jstr _ = False"

function (sequential) same_structure :: "json \<Rightarrow> json \<Rightarrow> bool" where
  "same_structure (JDict a) (JDict b) =
     (set (dict_keys a) = set (dict_keys b) \<and>
      (\<forall>k \<in> set (dict_keys a).
         case map_of a k of
           None \<Rightarrow> False
         | Some x \<Rightarrow>
             (case map_of b k of
                None \<Rightarrow> False
              | Some y \<Rightarrow>
                  if k \<in> set TEXT_KEYS \<and> (is_jstr x \<or> is_jstr y) then is_jstr x \<and> is_jstr y
                  else same_structure x y)))"
| "same_structure (JList xs) (JList ys) =
     (length xs = length ys \<and> (\<forall>i \<in> {..<length xs}. same_structure (xs ! i) (ys ! i)))"
| "same_structure JNull JNull = True"
| "same_structure (JBool p) (JBool q) = (p = q)"
| "same_structure (JInt i) (JInt j) = (i = j)"
| "same_structure (JFloat f) (JFloat g) = (f = g)"
| "same_structure (JStr s) (JStr t) = (s = t)"
| "same_structure _ _ = False"
  by pat_completeness auto
termination
  by (relation "measure (\<lambda>(x, y). size x)")
     (simp_all only: in_measure case_prod_conv size_map_of_json size_nth_json lessThan_iff wf_measure)

text \<open>\<^verbatim>\<open>_protocol_structure(p) == _protocol_structure(q)\<close>: undecodable payloads are their own
  structure, and an absent payload is a decoded null.\<close>

definition decode_payload :: "(payload \<Rightarrow> json option) \<Rightarrow> payload \<Rightarrow> json option" where
  "decode_payload loads p = (if p = PayloadNone then Some JNull else loads p)"

definition same_protocol_structure :: "(payload \<Rightarrow> json option) \<Rightarrow> payload \<Rightarrow> payload \<Rightarrow> bool" where
  "same_protocol_structure loads p q =
     (case (decode_payload loads p, decode_payload loads q) of
        (Some x, Some y) \<Rightarrow> same_structure x y
      | (None, None) \<Rightarrow> p = q
      | _ \<Rightarrow> False)"

definition transform_error ::
  "(payload \<Rightarrow> json option) \<Rightarrow> interaction_request \<Rightarrow> interaction_request \<Rightarrow> string option" where
  "transform_error loads original transformed =
     (if transformed\<lparr>req_text := req_text original, req_payload := req_payload original\<rparr> \<noteq> original
        then Some ''interaction hooks may transform content, not target, authority, or intent''
      else if req_payload original = req_payload transformed then None
      else if req_operation original \<in> {OpTerminalInput, OpTerminalOutput} then
        (if is_bytes (req_payload transformed) then None
         else Some ''terminal hooks must preserve a byte-stream payload'')
      else if req_operation original \<in> {OpProtocolInput, OpProtocolOutput} then
        (if same_protocol_structure loads (req_payload original) (req_payload transformed) then None
         else Some ''protocol hooks may change text, not RPC identity or control fields'')
      else Some ''structured state and pane launch payloads are owned by their domain reducer'')"

definition validate_transform ::
  "(payload \<Rightarrow> json option) \<Rightarrow> interaction_request \<Rightarrow> interaction_request \<Rightarrow> ('w, 'x, unit) act" where
  "validate_transform loads original transformed =
     (case transform_error loads original transformed of None \<Rightarrow> ret () | Some msg \<Rightarrow> reject (lit msg))"

subsection \<open>Execution\<close>

definition lookup_operation :: "interaction_operation \<Rightarrow> bool" where
  "lookup_operation op \<longleftrightarrow> op \<in> {OpOpen, OpLocate}"

definition model_operation :: "interaction_request \<Rightarrow> bool" where
  "model_operation r \<longleftrightarrow> req_start_model_turn r \<or> req_operation r \<in> {OpSteer, OpInterrupt}"

record resolved =
  res_target :: nat
  res_exists :: bool
  res_binding :: "pystr option"
  res_thread :: "pystr option"
  res_request :: interaction_request

definition resolve_thread ::
  "('w, 'x) target_ops \<Rightarrow> interaction_request \<Rightarrow> ('w, 'x, pystr option) act" where
  "resolve_thread ops r =
     (if \<not> model_operation r then ret None
      else and_then (target_model_thread_id ops) (\<lambda>th.
        case th of
          None \<Rightarrow> raise (ExnRejected ReasonModelThreadUnbound
                    (req_target r @ lit '' has no unambiguous model thread binding''))
        | Some _ \<Rightarrow> ret th))"

text \<open>Lines 236 to 262: validation, resolution and the checks of the caller's expectations.\<close>

definition resolve_request ::
  "('w, 'x) pipeline_env \<Rightarrow> interaction_request \<Rightarrow> ('w, 'x, resolved) act" where
  "resolve_request env r =
     and_then (validate_request r) (\<lambda>_.
     and_then (lookup_target (req_target r)) (\<lambda>found.
     case found of
       None \<Rightarrow> reject (lit ''unknown interaction target: '' @ req_target r)
     | Some t \<Rightarrow>
         let ops = env_target env t in
         and_then (reject_if (req_operation r \<notin> set (target_operations ops))
           (req_target r @ lit '' does not support '' @ lit (operation_value (req_operation r)))) (\<lambda>_.
         and_then (if lookup_operation (req_operation r) then ret True else target_exists ops) (\<lambda>ex.
         and_then (target_binding_identity ops) (\<lambda>binding.
         and_then (reject_if (req_expected_binding r \<noteq> None \<and> req_expected_binding r \<noteq> binding)
           (lit ''requested interaction binding is stale'')) (\<lambda>_.
         and_then (resolve_thread ops r) (\<lambda>thread.
         and_then (reject_if (req_expected_thread_id r \<noteq> None \<and> req_expected_thread_id r \<noteq> thread)
           (lit ''requested model thread binding is stale'')) (\<lambda>_.
         and_then (reject_if (\<not> ex \<and> \<not> (req_open_if_missing r \<or> req_operation r = OpOpen))
           (lit ''interaction target is not available: '' @ req_target r)) (\<lambda>_.
         ret \<lparr>res_target = t, res_exists = ex, res_binding = binding, res_thread = thread,
               res_request = r\<lparr>req_expected_binding := binding, req_expected_thread_id := thread\<rparr>\<rparr>)))))))))"

text \<open>The text hook applies to protocol input only.\<close>

definition selected_text_hook ::
  "('w, 'x) pipeline_env \<Rightarrow> interaction_request \<Rightarrow> ('w pipe \<Rightarrow> pystr list \<Rightarrow> pystr + prompt_text_edit list list) option" where
  "selected_text_hook env r = (if req_operation r = OpProtocolInput then env_input_text_hook env else None)"

definition apply_selected_text_hook ::
  "('w, 'x) pipeline_env \<Rightarrow> interaction_request \<Rightarrow> ('w, 'x, interaction_request) act" where
  "apply_selected_text_hook env r =
     (case selected_text_hook env r of
        None \<Rightarrow> ret r
      | Some hook \<Rightarrow>
          (\<lambda>s. case apply_user_prompt_hook (env_loads env) (env_dumps env) (hook s) (req_payload r) of
                 Inl e \<Rightarrow> (s, Inl (ExnPromptHook e))
               | Inr p \<Rightarrow> (s, Inr (r\<lparr>req_payload := p\<rparr>))))"

fun run_hooks ::
  "(payload \<Rightarrow> json option) \<Rightarrow> (interaction_request \<Rightarrow> ('w, 'x, interaction_request option) act) list
     \<Rightarrow> interaction_request \<Rightarrow> interaction_request \<Rightarrow> ('w, 'x, interaction_request) act" where
  "run_hooks loads [] request transformed = ret transformed"
| "run_hooks loads (hook # hooks) request transformed =
     and_then (hook transformed) (\<lambda>out.
     case out of
       None \<Rightarrow> reject (lit ''interaction hook must return an InteractionRequest'')
     | Some transformed' \<Rightarrow>
         and_then (validate_transform loads request transformed') (\<lambda>_.
         and_then (validate_request transformed') (\<lambda>_.
         run_hooks loads hooks request transformed')))"

text \<open>The two fences on the registry and on the model thread.\<close>

definition check_registered :: "nat \<Rightarrow> interaction_request \<Rightarrow> pystr \<Rightarrow> ('w, 'x, unit) act" where
  "check_registered t r msg = and_then (lookup_target (req_target r)) (\<lambda>now. reject_if (now \<noteq> Some t) msg)"

definition check_thread ::
  "('w, 'x) target_ops \<Rightarrow> interaction_request \<Rightarrow> pystr option \<Rightarrow> pystr \<Rightarrow> ('w, 'x, unit) act" where
  "check_thread ops r thread msg =
     (if model_operation r then and_then (target_model_thread_id ops) (\<lambda>now. reject_if (now \<noteq> thread) msg)
      else ret ())"

text \<open>Lines 280 to 292: a target that is missing is opened when the caller asked for it. The result
  is an early return, or the binding and the request to deliver.\<close>

definition reopen_target ::
  "('w, 'x) target_ops \<Rightarrow> resolved \<Rightarrow> bool \<Rightarrow> interaction_request \<Rightarrow> interaction_request
     \<Rightarrow> ('w, 'x, 'x interaction_result + pystr option \<times> interaction_request) act" where
  "reopen_target ops res still_exists request transformed =
     (if still_exists \<or> lookup_operation (req_operation request) then ret (Inr (res_binding res, transformed))
      else if res_exists res then reject (lit ''existing interaction target disappeared while processing the operation'')
      else case (if req_open_if_missing request then target_open ops else None) of
        None \<Rightarrow> reject (lit ''interaction target is not available: '' @ req_target request)
      | Some open_target \<Rightarrow>
          and_then open_target (\<lambda>opened.
          if \<not> accepted opened then ret (Inl opened)
          else and_then (target_exists ops) (\<lambda>ex.
            and_then (reject_if (\<not> ex) (lit ''opened interaction target is no longer available'')) (\<lambda>_.
            if res_binding res = None then
              and_then (target_binding_identity ops) (\<lambda>binding.
                ret (Inr (binding, transformed\<lparr>req_expected_binding := binding\<rparr>)))
            else ret (Inr (res_binding res, transformed))))))"

text \<open>Lines 293 to 304: the last fences, the delivery, and the suppressed display handoff.\<close>

definition observe_delivery ::
  "('w, 'x) target_ops \<Rightarrow> 'x interaction_result \<Rightarrow> interaction_request \<Rightarrow> interaction_request \<Rightarrow> ('w, 'x, unit) act" where
  "observe_delivery ops result original transformed =
     (case target_observe_delivered ops of
        Some observe \<Rightarrow>
          if accepted result then
            (\<lambda>s. case observe original transformed s of
                   (s', Inl (ExnFatal x)) \<Rightarrow> (s', Inl (ExnFatal x))
                 | (s', _) \<Rightarrow> (s', Inr ()))
          else ret ()
      | None \<Rightarrow> ret ())"

definition deliver_checked ::
  "('w, 'x) target_ops \<Rightarrow> resolved \<Rightarrow> pystr option \<Rightarrow> interaction_request \<Rightarrow> interaction_request
     \<Rightarrow> ('w, 'x, 'x interaction_result) act" where
  "deliver_checked ops res binding request transformed =
     and_then (check_registered (res_target res) request (lit ''interaction target changed before delivery'')) (\<lambda>_.
     and_then (target_binding_identity ops) (\<lambda>now.
     and_then (reject_if (now \<noteq> binding) (lit ''interaction destination changed before delivery'')) (\<lambda>_.
     and_then (check_thread ops request (res_thread res) (lit ''model thread binding changed before delivery'')) (\<lambda>_.
     and_then (target_deliver ops transformed) (\<lambda>result.
     and_then (observe_delivery ops result (res_request res) transformed) (\<lambda>_.
     ret result))))))"

definition execute_request ::
  "('w, 'x) pipeline_env \<Rightarrow> interaction_request \<Rightarrow> ('w, 'x, 'x interaction_result) act" where
  "execute_request env r =
     and_then (resolve_request env r) (\<lambda>res.
     let ops = env_target env (res_target res) in
     and_then (apply_selected_text_hook env (res_request res)) (\<lambda>request.
     and_then (run_hooks (env_loads env) (env_hooks env) request request) (\<lambda>transformed.
     and_then (check_registered (res_target res) request
       (lit ''interaction target changed while processing the operation'')) (\<lambda>_.
     and_then (check_thread ops request (res_thread res)
       (lit ''model thread binding changed while processing the message'')) (\<lambda>_.
     and_then (if lookup_operation (req_operation request)
                  \<or> env_hooks env = [] \<and> selected_text_hook env (res_request res) = None
               then ret (res_exists res) else target_exists ops) (\<lambda>still_exists.
     and_then (reopen_target ops res still_exists request transformed) (\<lambda>next.
     case next of
       Inl opened \<Rightarrow> ret opened
     | Inr (binding, transformed') \<Rightarrow> deliver_checked ops res binding request transformed')))))))"

definition make_record :: "interaction_request \<Rightarrow> delivery_status \<Rightarrow> interaction_record" where
  "make_record r status =
     \<lparr>rec_request_id = req_request_id r, rec_target = req_target r, rec_source = req_source r,
      rec_operation = req_operation r, rec_start_model_turn = req_start_model_turn r, rec_status = status\<rparr>"

text \<open>\<^verbatim>\<open>deque(maxlen=256)\<close>.\<close>

definition deque_append :: "'a list \<Rightarrow> 'a \<Rightarrow> 'a list" where
  "deque_append xs x = drop (Suc (length xs) - 256) (xs @ [x])"

fun notify_observers :: "(nat \<Rightarrow> interaction_record \<Rightarrow> ('w, 'x, unit) act) \<Rightarrow> interaction_record \<Rightarrow> nat list \<Rightarrow> ('w, 'x, unit) act" where
  "notify_observers observer record [] = ret ()"
| "notify_observers observer record (ob # obs) =
     (\<lambda>s. case observer ob record s of
            (s', Inl (ExnFatal x)) \<Rightarrow> (s', Inl (ExnFatal x))
          | (s', _) \<Rightarrow> notify_observers observer record obs s')"

definition record_outcome ::
  "('w, 'x) pipeline_env \<Rightarrow> interaction_request \<Rightarrow> delivery_status \<Rightarrow> ('w, 'x, unit) act" where
  "record_outcome env r status =
     (\<lambda>s. notify_observers (env_observer env) (make_record r status) (pipe_observers s)
            (s\<lparr>pipe_records := deque_append (pipe_records s) (make_record r status)\<rparr>))"

fun hook_error_message :: "hook_error \<Rightarrow> pystr" where
  "hook_error_message InvalidEdit = lit ''user prompt hook returned an invalid text edit''"
| "hook_error_message InvalidUtf8 = lit ''user prompt hook requires valid UTF-8 text''"
| "hook_error_message WrongItemCount = lit ''user prompt hook returned the wrong number of text items''"
| "hook_error_message (HookRaised msg) = msg"

definition finish :: "('w, 'x) pipeline_env \<Rightarrow> interaction_request \<Rightarrow> 'x interaction_result \<Rightarrow> ('w, 'x, 'x interaction_result) act" where
  "finish env r result = and_then (record_outcome env r (result_status result)) (\<lambda>_. ret result)"

definition execute_interaction ::
  "('w, 'x) pipeline_env \<Rightarrow> interaction_request \<Rightarrow> ('w, 'x, 'x interaction_result) act" where
  "execute_interaction env r =
     (\<lambda>s. case execute_request env r s of
            (s', Inr result) \<Rightarrow> finish env r result s'
          | (s', Inl (ExnPromptHook e)) \<Rightarrow>
              finish env r \<lparr>result_status = DsRejected, result_detail = hook_error_message e,
                result_value = ValueHookError e, result_rejection_reason = None\<rparr> s'
          | (s', Inl (ExnRejected reason msg)) \<Rightarrow>
              finish env r \<lparr>result_status = DsRejected, result_detail = msg, result_value = ValueNone,
                result_rejection_reason = Some reason\<rparr> s'
          | (s', Inl (ExnIndeterminate x)) \<Rightarrow>
              and_then (record_outcome env r DsIndeterminate) (\<lambda>_. raise (ExnIndeterminate x)) s'
          | (s', Inl (ExnOther x)) \<Rightarrow>
              and_then (record_outcome env r DsFailed) (\<lambda>_. raise (ExnOther x)) s'
          | (s', Inl (ExnFatal x)) \<Rightarrow> (s', Inl (ExnFatal x)))"

definition send_message ::
  "('w, 'x) pipeline_env \<Rightarrow> pystr \<Rightarrow> pystr \<Rightarrow> bool \<Rightarrow> pystr \<Rightarrow> bool \<Rightarrow> pystr option \<Rightarrow> pystr
     \<Rightarrow> ('w, 'x, 'x interaction_result) act" where
  "send_message env target msg start_model_turn source open_if_missing dispatch_id request_id =
     execute_interaction env
       \<lparr>req_target = target, req_operation = OpMessage, req_source = source, req_text = Some msg,
        req_start_model_turn = start_model_turn, req_payload = PayloadNone, req_open_if_missing = open_if_missing,
        req_size_percent = None, req_dispatch_id = dispatch_id, req_expected_turn_id = None,
        req_expected_thread_id = None, req_expected_binding = None, req_request_id = request_id\<rparr>"

subsection \<open>Delivery is fenced\<close>

definition same_authority :: "interaction_request \<Rightarrow> interaction_request \<Rightarrow> bool" where
  "same_authority r r' \<longleftrightarrow> r'\<lparr>req_text := req_text r, req_payload := req_payload r\<rparr> = r"

lemma same_authorityD:
  assumes "same_authority r r'"
  shows "req_target r' = req_target r" "req_operation r' = req_operation r"
    "req_start_model_turn r' = req_start_model_turn r" "req_open_if_missing r' = req_open_if_missing r"
    "req_expected_binding r' = req_expected_binding r" "req_expected_thread_id r' = req_expected_thread_id r"
    "model_operation r' = model_operation r"
proof -
  from assms have e: "r = r'\<lparr>req_text := req_text r, req_payload := req_payload r\<rparr>" by (simp add: same_authority_def)
  show "req_target r' = req_target r" "req_operation r' = req_operation r"
    "req_start_model_turn r' = req_start_model_turn r" "req_open_if_missing r' = req_open_if_missing r"
    "req_expected_binding r' = req_expected_binding r" "req_expected_thread_id r' = req_expected_thread_id r"
    "model_operation r' = model_operation r"
    by (subst e, simp add: model_operation_def)+
qed

lemma same_authority_trans: "same_authority a b \<Longrightarrow> same_authority b c \<Longrightarrow> same_authority a c"
  unfolding same_authority_def by (cases a; cases b; cases c) simp

lemma validate_transform_Inr [simp]:
  "validate_transform loads r r' s = (s', Inr u) \<longleftrightarrow> transform_error loads r r' = None \<and> s' = s"
  by (auto simp: validate_transform_def split: option.split)

lemma validate_request_Inr [simp]: "validate_request r s = (s', Inr u) \<longleftrightarrow> request_error r = None \<and> s' = s"
  by (auto simp: validate_request_def split: option.split)

lemma transform_error_authority: "transform_error loads r r' = None \<Longrightarrow> same_authority r r'"
  by (auto simp: transform_error_def same_authority_def split: if_splits)

lemma run_hooks_authority:
  "run_hooks loads hooks request tr s = (s', Inr out) \<Longrightarrow> same_authority request tr \<Longrightarrow> same_authority request out"
  by (induction loads hooks request tr arbitrary: s rule: run_hooks.induct)
     (auto simp: and_then_Inr transform_error_authority split: option.splits)

lemma apply_selected_text_hook_authority:
  "apply_selected_text_hook env r s = (s', Inr r') \<Longrightarrow> same_authority r r' \<and> s' = s"
  by (auto simp: apply_selected_text_hook_def same_authority_def split: option.splits sum.splits)

lemma resolve_request_Inr:
  assumes "resolve_request env r s = (s', Inr res)"
  shows "request_error r = None"
    "req_operation r \<in> set (target_operations (env_target env (res_target res)))"
    "res_request res = r\<lparr>req_expected_binding := res_binding res, req_expected_thread_id := res_thread res\<rparr>"
    "req_expected_binding r \<noteq> None \<Longrightarrow> req_expected_binding r = res_binding res"
    "req_expected_thread_id r \<noteq> None \<Longrightarrow> req_expected_thread_id r = res_thread res"
    "model_operation r \<Longrightarrow> res_thread res \<noteq> None"
  using assms
  by (auto simp: resolve_request_def resolve_thread_def and_then_Inr Let_def split: option.splits if_splits)

lemma reopen_target_Inr:
  assumes "reopen_target ops res still request tr s = (s', Inr next)"
  shows "(\<exists>opened. next = Inl opened \<and> \<not> accepted opened) \<or>
    (\<exists>b. next = Inr (b, tr\<lparr>req_expected_binding := b\<rparr>) \<and> (res_binding res \<noteq> None \<longrightarrow> b = res_binding res))
    \<or> next = Inr (res_binding res, tr)"
  using assms by (auto simp: reopen_target_def and_then_Inr split: if_splits option.splits)

lemma deliver_checked_Inr:
  assumes "deliver_checked ops res binding request tr s = (s', Inr result)"
  obtains sb sd se where "dict_get (pipe_targets s) (req_target request) = Some (res_target res)"
    "target_binding_identity ops s = (sb, Inr binding)"
    "if model_operation request then target_model_thread_id ops sb = (sd, Inr (res_thread res)) else sd = sb"
    "target_deliver ops tr sd = (se, Inr result)"
  using assms
  by (auto simp: deliver_checked_def check_registered_def check_thread_def and_then_Inr split: if_splits)

lemma execute_request_Inr:
  assumes "execute_request env r s = (s', Inr result)"
  obtains (early) "\<not> accepted result"
  | (delivered) res s0 s1 request tr binding where
      "resolve_request env r s = (s0, Inr res)" "same_authority (res_request res) request"
      "same_authority request tr" "res_binding res \<noteq> None \<longrightarrow> binding = res_binding res"
      "deliver_checked (env_target env (res_target res)) res binding request
         (tr\<lparr>req_expected_binding := binding\<rparr>) s1 = (s', Inr result)"
proof -
  let ?ops = "\<lambda>res. env_target env (res_target res)"
  from assms obtain res s0 request tr s1 s2 s3 s4 still nxt where
    res: "resolve_request env r s = (s0, Inr res)"
    and req: "apply_selected_text_hook env (res_request res) s0 = (s1, Inr request)"
    and tr: "run_hooks (env_loads env) (env_hooks env) request request s1 = (s2, Inr tr)"
    and reopen: "reopen_target (?ops res) res still request tr s3 = (s4, Inr nxt)"
    and rest: "(case nxt of Inl opened \<Rightarrow> ret opened
       | Inr (binding, tr') \<Rightarrow> deliver_checked (?ops res) res binding request tr') s4 = (s', Inr result)"
    by (auto simp: execute_request_def and_then_Inr Let_def)
  have a1: "same_authority (res_request res) request"
    using apply_selected_text_hook_authority [OF req] by simp
  have a2: "same_authority request tr"
    by (rule run_hooks_authority [OF tr]) (simp add: same_authority_def)
  have "req_expected_binding tr = res_binding res"
    using a1 a2 same_authorityD(5) resolve_request_Inr(3) [OF res] by simp
  then have "tr\<lparr>req_expected_binding := res_binding res\<rparr> = tr" by (cases tr) simp
  with reopen_target_Inr [OF reopen] rest a1 a2 res show thesis
    by (auto intro: early delivered)
qed

text \<open>
  Property C1. Nothing is delivered past a fence: when a request ends with an accepted result,
  the target that delivered it supports the operation and was registered under the requested name
  after all hooks had run; its binding and, for a model operation, its model thread were read
  again right before the delivery and are the ones the delivered request carries; expectations of
  the caller are among them; and the delivered request differs from the submitted one only in text
  and payload.
\<close>

theorem delivery_fenced:
  assumes "execute_request env r s = (s', Inr result)" and "accepted result"
  shows "\<exists>t sa sb sd se r'.
    dict_get (pipe_targets sa) (req_target r) = Some t \<and> req_operation r \<in> set (target_operations (env_target env t)) \<and>
    target_binding_identity (env_target env t) sa = (sb, Inr (req_expected_binding r')) \<and>
    (if model_operation r
     then target_model_thread_id (env_target env t) sb = (sd, Inr (req_expected_thread_id r')) \<and>
       req_expected_thread_id r' \<noteq> None
     else sd = sb) \<and>
    target_deliver (env_target env t) r' sd = (se, Inr result) \<and>
    (req_expected_binding r \<noteq> None \<longrightarrow> req_expected_binding r' = req_expected_binding r) \<and>
    (req_expected_thread_id r \<noteq> None \<longrightarrow> req_expected_thread_id r' = req_expected_thread_id r) \<and>
    r'\<lparr>req_text := req_text r, req_payload := req_payload r, req_expected_binding := req_expected_binding r,
       req_expected_thread_id := req_expected_thread_id r\<rparr> = r"
  using assms(1)
proof (cases rule: execute_request_Inr)
  case early
  with assms(2) show ?thesis by simp
next
  case (delivered res s0 s1 request tr binding)
  note r = resolve_request_Inr [OF delivered(1)]
  note d1 = same_authorityD [OF delivered(2)]
  note d2 = same_authorityD [OF delivered(3)]
  let ?r' = "tr\<lparr>req_expected_binding := binding\<rparr>"
  let ?ops = "env_target env (res_target res)"
  have m: "model_operation request = model_operation r" using d1(7) r(3) by (simp add: model_operation_def)
  have n: "req_target request = req_target r" using d1(1) r(3) by simp
  have th: "req_expected_thread_id ?r' = res_thread res" using d1(6) d2(6) r(3) by simp
  have shape: "?r'\<lparr>req_text := req_text r, req_payload := req_payload r, req_expected_binding := req_expected_binding r,
       req_expected_thread_id := req_expected_thread_id r\<rparr> = r"
    using same_authority_trans [OF delivered(2,3)] r(3) unfolding same_authority_def
    by (cases r; cases tr) simp
  have caller: "req_expected_binding r \<noteq> None \<longrightarrow> req_expected_binding ?r' = req_expected_binding r"
    "req_expected_thread_id r \<noteq> None \<longrightarrow> req_expected_thread_id ?r' = req_expected_thread_id r"
    using r(4,5) delivered(4) th by auto
  from delivered(5) obtain sb sd se where
    "dict_get (pipe_targets s1) (req_target request) = Some (res_target res)"
    "target_binding_identity ?ops s1 = (sb, Inr binding)"
    "if model_operation request then target_model_thread_id ?ops sb = (sd, Inr (res_thread res)) else sd = sb"
    "target_deliver ?ops ?r' sd = (se, Inr result)"
    by (rule deliver_checked_Inr)
  then show ?thesis
    using r(2,6) m n th shape caller
    by (intro exI [of _ "res_target res"] exI [of _ s1] exI [of _ sb] exI [of _ sd] exI [of _ se] exI [of _ ?r'] conjI)
       simp_all
qed

subsection \<open>What a refused request leaves untouched\<close>

definition keeps :: "('w pipe \<Rightarrow> bool) \<Rightarrow> ('w, 'x, 'a) act \<Rightarrow> bool" where
  "keeps P m \<longleftrightarrow> (\<forall>s. P s \<longrightarrow> P (fst (m s)))"

lemma keepsD: "keeps P m \<Longrightarrow> m s = (s', v) \<Longrightarrow> P s \<Longrightarrow> P s'"
  unfolding keeps_def by (metis fst_conv)

lemma keeps_and_then [intro]:
  assumes "keeps P m" and "\<And>x. keeps P (k x)"
  shows "keeps P (and_then m k)"
  unfolding keeps_def
proof (intro allI impI)
  fix s
  assume "P s"
  obtain s1 v where v: "m s = (s1, v)" by fastforce
  from keepsD [OF assms(1) v \<open>P s\<close>] have "P s1" .
  with assms(2) v show "P (fst (and_then m k s))"
    by (cases v) (simp_all add: and_then_def keeps_def)
qed

lemma keeps_basic [simp]:
  "keeps P (ret x)" "keeps P (raise e)" "keeps P (reject msg)" "keeps P (reject_if c msg)"
  "keeps P (lookup_target n)" "keeps P (validate_request r)" "keeps P (validate_transform loads r r')"
  by (simp_all add: keeps_def reject_if_def validate_request_def validate_transform_def split: option.split)

text \<open>Every hook and every callback but the delivery, the display handoff and the observers.\<close>

definition adapters_keep :: "('w pipe \<Rightarrow> bool) \<Rightarrow> ('w, 'x) pipeline_env \<Rightarrow> bool" where
  "adapters_keep P env \<longleftrightarrow>
     (\<forall>h \<in> set (env_hooks env). \<forall>r. keeps P (h r)) \<and>
     (\<forall>t. keeps P (target_exists (env_target env t)) \<and> keeps P (target_model_thread_id (env_target env t)) \<and>
        keeps P (target_binding_identity (env_target env t)) \<and>
        (\<forall>op. target_open (env_target env t) = Some op \<longrightarrow> keeps P op))"

lemma adapters_keepD:
  assumes "adapters_keep P env"
  shows "h \<in> set (env_hooks env) \<Longrightarrow> keeps P (h r)" "keeps P (target_exists (env_target env t))"
    "keeps P (target_model_thread_id (env_target env t))" "keeps P (target_binding_identity (env_target env t))"
    "target_open (env_target env t) = Some op \<Longrightarrow> keeps P op"
  using assms by (auto simp: adapters_keep_def)

lemma keeps_run_hooks:
  "(\<And>h r. h \<in> set hooks \<Longrightarrow> keeps P (h r)) \<Longrightarrow> keeps P (run_hooks loads hooks request tr)"
  by (induction loads hooks request tr rule: run_hooks.induct)
     (auto intro!: keeps_and_then split: option.split)

lemma keeps_phases:
  assumes "adapters_keep P env"
  shows "keeps P (resolve_request env r)"
    and "keeps P (apply_selected_text_hook env r)"
    and "keeps P (run_hooks (env_loads env) (env_hooks env) request tr)"
    and "keeps P (check_registered t r msg)"
    and "keeps P (check_thread (env_target env t) r th msg)"
    and "keeps P (reopen_target (env_target env t) res still request tr)"
proof -
  note k = adapters_keepD [OF assms]
  show "keeps P (resolve_request env r)"
    unfolding resolve_request_def resolve_thread_def Let_def
    by (intro keeps_and_then) (auto simp: k intro!: keeps_and_then split: option.split)
  show "keeps P (apply_selected_text_hook env r)"
    by (auto simp: apply_selected_text_hook_def keeps_def split: option.split sum.split)
  show "keeps P (run_hooks (env_loads env) (env_hooks env) request tr)"
    by (rule keeps_run_hooks) (rule k)
  show "keeps P (check_registered t r msg)"
    unfolding check_registered_def by (intro keeps_and_then) simp_all
  show "keeps P (check_thread (env_target env t) r th msg)"
    unfolding check_thread_def by (auto simp: k intro!: keeps_and_then)
  show "keeps P (reopen_target (env_target env t) res still request tr)"
    unfolding reopen_target_def
    by (auto simp: k intro!: keeps_and_then split: option.split if_splits)
qed

definition keeps_error :: "('w pipe \<Rightarrow> bool) \<Rightarrow> ('w, 'x, 'a) act \<Rightarrow> bool" where
  "keeps_error P m \<longleftrightarrow> (\<forall>s s' e. P s \<longrightarrow> m s = (s', Inl e) \<longrightarrow> (\<forall>x. e \<noteq> ExnFatal x) \<longrightarrow> P s')"

lemma keeps_error_keeps: "keeps P m \<Longrightarrow> keeps_error P m"
  unfolding keeps_error_def by (blast intro: keepsD)

lemma keeps_error_and_then [intro]:
  assumes "keeps P m" "\<And>x. keeps_error P (k x)"
  shows "keeps_error P (and_then m k)"
  unfolding keeps_error_def and_then_Inl
  using keepsD [OF assms(1)] assms(2) unfolding keeps_error_def by blast

lemma observe_delivery_Inl: "observe_delivery ops result r r' s = (s', Inl e) \<Longrightarrow> \<exists>x. e = ExnFatal x"
  by (auto simp: observe_delivery_def split: option.splits if_splits prod.splits sum.splits exn.splits)

lemma keeps_error_delivery:
  assumes "\<And>r s. \<exists>s' v. target_deliver ops r s = (s', Inr v)"
  shows "keeps_error P (and_then (target_deliver ops tr) (\<lambda>result. and_then (observe_delivery ops result r tr) (\<lambda>_. ret result)))"
proof -
  have "target_deliver ops tr s \<noteq> (s', Inl e)" for s s' e
    using assms [of tr s] by auto
  then show ?thesis
    by (auto simp: keeps_error_def and_then_Inl dest!: observe_delivery_Inl)
qed

lemma keeps_error_deliver_checked:
  assumes "adapters_keep P env" "\<And>t r s. \<exists>s' v. target_deliver (env_target env t) r s = (s', Inr v)"
  shows "keeps_error P (deliver_checked (env_target env t) res binding request tr)"
  unfolding deliver_checked_def
  by (intro keeps_error_and_then keeps_phases [OF assms(1)] adapters_keepD [OF assms(1)] keeps_basic
      keeps_error_delivery assms(2))

text \<open>
  A refusal delivers nothing: if no delivery callback raises, then whenever a
  request raises (rejected, hook error, failed callback) every property of the state that the
  hooks and the other callbacks keep still holds; no delivery or display handoff has touched it.
\<close>

theorem refused_without_delivery:
  assumes "adapters_keep P env"
    and "\<And>t r s. \<exists>s' v. target_deliver (env_target env t) r s = (s', Inr v)"
    and "execute_request env r s = (s', Inl e)" and "\<And>x. e \<noteq> ExnFatal x" and "P s"
  shows "P s'"
proof -
  have "keeps_error P (case nxt of Inl opened \<Rightarrow> ret opened
      | Inr (binding, tr') \<Rightarrow> deliver_checked (env_target env t) res binding request tr')" for nxt t res request
    using keeps_error_deliver_checked [OF assms(1,2)]
    by (auto simp: keeps_error_keeps split: sum.split)
  moreover have "keeps P (if c then ret b else target_exists (env_target env t))" for c b t
    using adapters_keepD(2) [OF assms(1)] by simp
  ultimately have "keeps_error P (execute_request env r)"
    unfolding execute_request_def Let_def
    by (intro keeps_error_and_then keeps_phases [OF assms(1)])
  then show ?thesis using assms(3-5) unfolding keeps_error_def by blast
qed

subsection \<open>One record per execution\<close>

definition leaves_records :: "('w, 'x) pipeline_env \<Rightarrow> bool" where
  "leaves_records env \<longleftrightarrow>
     (\<forall>rs. adapters_keep (\<lambda>s. pipe_records s = rs) env \<and>
        (\<forall>t r. keeps (\<lambda>s. pipe_records s = rs) (target_deliver (env_target env t) r)) \<and>
        (\<forall>t f r r'. target_observe_delivered (env_target env t) = Some f \<longrightarrow> keeps (\<lambda>s. pipe_records s = rs) (f r r')) \<and>
        (\<forall>ob rec. keeps (\<lambda>s. pipe_records s = rs) (env_observer env ob rec)))"

lemma keeps_observe_delivery:
  "(\<And>f. target_observe_delivered ops = Some f \<Longrightarrow> keeps P (f r r')) \<Longrightarrow> keeps P (observe_delivery ops result r r')"
  unfolding observe_delivery_def keeps_def
  by (force split: option.split prod.split sum.split exn.split)

lemma keeps_notify_observers:
  "(\<And>ob. keeps P (observer ob rec)) \<Longrightarrow> keeps P (notify_observers observer rec obs)"
proof (induction obs)
  case (Cons ob obs)
  then have "P s \<Longrightarrow> P (fst (notify_observers observer rec (ob # obs) s))" for s
    by (cases "observer ob rec s")
       (auto simp: keeps_def split: sum.split exn.split dest: keepsD [OF Cons.prems])
  then show ?case by (simp add: keeps_def)
qed simp

lemma execute_request_keeps_records:
  assumes "leaves_records env"
  shows "pipe_records (fst (execute_request env r s)) = pipe_records s"
proof -
  let ?P = "\<lambda>s'. pipe_records s' = pipe_records s"
  have a: "adapters_keep ?P env" and d: "\<And>t r. keeps ?P (target_deliver (env_target env t) r)"
    and o: "\<And>t f r r'. target_observe_delivered (env_target env t) = Some f \<Longrightarrow> keeps ?P (f r r')"
    using assms unfolding leaves_records_def by blast+
  have "keeps ?P (deliver_checked (env_target env t) res binding request tr)" for t res binding request tr
    unfolding deliver_checked_def
    by (intro keeps_and_then keeps_phases [OF a] adapters_keepD [OF a] keeps_basic keeps_observe_delivery d) (rule o)
  then have "keeps ?P (case nxt of Inl opened \<Rightarrow> ret opened
      | Inr (binding, tr') \<Rightarrow> deliver_checked (env_target env t) res binding request tr')" for nxt t res request
    by (auto split: sum.split)
  moreover have "keeps ?P (if c then ret b else target_exists (env_target env t))" for c b t
    using adapters_keepD(2) [OF a] by simp
  ultimately have "keeps ?P (execute_request env r)"
    unfolding execute_request_def Let_def by (intro keeps_and_then keeps_phases [OF a])
  then show ?thesis by (simp add: keeps_def)
qed

lemma record_outcome_records:
  assumes "leaves_records env"
  shows "pipe_records (fst (record_outcome env r status s)) = deque_append (pipe_records s) (make_record r status)"
proof -
  let ?P = "\<lambda>s'. pipe_records s' = deque_append (pipe_records s) (make_record r status)"
  have "keeps ?P (notify_observers (env_observer env) (make_record r status) (pipe_observers s))"
    by (rule keeps_notify_observers) (use assms in \<open>unfold leaves_records_def, blast\<close>)
  then show ?thesis by (simp add: record_outcome_def keeps_def)
qed

lemma notify_observers_Inl: "notify_observers observer rec obs s = (s', Inl e) \<Longrightarrow> \<exists>x. e = ExnFatal x"
  by (induction obs arbitrary: s) (auto split: prod.splits sum.splits exn.splits)

definition status_reported :: "delivery_status \<Rightarrow> 'x exn + 'x interaction_result \<Rightarrow> bool" where
  "status_reported status v \<longleftrightarrow>
     (case v of Inr result \<Rightarrow> status = result_status result
      | Inl (ExnIndeterminate _) \<Rightarrow> status = DsIndeterminate
      | Inl _ \<Rightarrow> status = DsFailed)"

lemma execute_interaction_shape:
  assumes "execute_request env r s = (s1, w)" "\<And>x. w \<noteq> Inl (ExnFatal x)"
  obtains status v where "status_reported status v"
    "execute_interaction env r s = and_then (record_outcome env r status) (\<lambda>_ s. (s, v)) s1"
proof (cases w)
  case (Inr result)
  with assms(1) show thesis
    by (intro that [of "result_status result" "Inr result"])
       (simp_all add: status_reported_def execute_interaction_def finish_def ret_def)
next
  case (Inl e)
  show thesis
  proof (cases e)
    case (ExnPromptHook h)
    with assms(1) Inl show thesis
      by (intro that [of DsRejected "Inr \<lparr>result_status = DsRejected, result_detail = hook_error_message h,
                result_value = ValueHookError h, result_rejection_reason = None\<rparr>"])
         (simp_all add: status_reported_def execute_interaction_def finish_def ret_def)
  next
    case (ExnRejected reason msg)
    with assms(1) Inl show thesis
      by (intro that [of DsRejected "Inr \<lparr>result_status = DsRejected, result_detail = msg, result_value = ValueNone,
                result_rejection_reason = Some reason\<rparr>"])
         (simp_all add: status_reported_def execute_interaction_def finish_def ret_def)
  next
    case (ExnIndeterminate x)
    with assms(1) Inl show thesis
      by (intro that [of DsIndeterminate "Inl e"])
         (simp_all add: status_reported_def execute_interaction_def raise_def)
  next
    case (ExnOther x)
    with assms(1) Inl show thesis
      by (intro that [of DsFailed "Inl e"])
         (simp_all add: status_reported_def execute_interaction_def raise_def)
  qed (use assms(2) Inl in blast)
qed

text \<open>
  Every execution leaves exactly one bounded, content-free record: provided the
  callbacks do not themselves execute requests, an execution that does not end in a
  non-\<^verbatim>\<open>Exception\<close> appends one record of the request with the status it reports (failed or
  indeterminate when it raises), and at most 256 records are kept.
\<close>

theorem one_record_per_execution:
  assumes "leaves_records env" and "execute_interaction env r s = (s', v)" and "\<And>x. v \<noteq> Inl (ExnFatal x)"
  shows "length (pipe_records s') \<le> 256 \<and>
    (\<exists>status. pipe_records s' = deque_append (pipe_records s) (make_record r status) \<and> status_reported status v)"
proof -
  obtain s1 w where w: "execute_request env r s = (s1, w)" by fastforce
  have s1: "pipe_records s1 = pipe_records s"
    using execute_request_keeps_records [OF assms(1), of r s] w by simp
  have "w \<noteq> Inl (ExnFatal x)" for x
    using assms(2) assms(3) [of x] w by (auto simp: execute_interaction_def)
  then obtain status v' where v': "status_reported status v'"
    "execute_interaction env r s = and_then (record_outcome env r status) (\<lambda>_ s. (s, v')) s1"
    by (rule execute_interaction_shape [OF w])
  obtain s2 u where rec: "record_outcome env r status s1 = (s2, u)" by fastforce
  have "u \<noteq> Inl e" for e
  proof
    assume u: "u = Inl e"
    with rec obtain x where "e = ExnFatal x" by (auto simp: record_outcome_def dest: notify_observers_Inl)
    with u assms(2) assms(3) [of x] v'(2) rec show False by (auto simp: and_then_def)
  qed
  with assms(2) v'(2) rec have "v = v'" "s' = s2" by (cases u; simp add: and_then_def)+
  moreover have "pipe_records s2 = deque_append (pipe_records s) (make_record r status)"
    using record_outcome_records [OF assms(1), of r status s1] rec s1 by simp
  moreover have "length (deque_append xs x) \<le> 256" for xs :: "interaction_record list" and x
    by (simp add: deque_append_def)
  ultimately show ?thesis using v'(1) by auto
qed

subsection \<open>Protocol hooks change text only\<close>

datatype json_step = KeyStep pystr | IndexStep nat

fun json_at :: "json_step list \<Rightarrow> json \<Rightarrow> json option" where
  "json_at [] v = Some v"
| "json_at (KeyStep k # p) (JDict d) = (case map_of d k of None \<Rightarrow> None | Some x \<Rightarrow> json_at p x)"
| "json_at (IndexStep i # p) (JList xs) = (if i < length xs then json_at p (xs ! i) else None)"
| "json_at _ _ = None"

fun is_scalar :: "json \<Rightarrow> bool" where
  "is_scalar (JDict _) = False"
| "is_scalar (JList _) = False"
| "is_scalar _ = True"

text \<open>A control value: any scalar but a string directly under a text key.\<close>

fun control_leaf :: "json_step list \<Rightarrow> json \<Rightarrow> bool" where
  "control_leaf [] v = is_scalar v"
| "control_leaf [KeyStep k] v = (is_scalar v \<and> \<not> (k \<in> set TEXT_KEYS \<and> is_jstr v))"
| "control_leaf (_ # p) v = control_leaf p v"

lemma same_structure_scalar: "same_structure a b \<Longrightarrow> is_scalar a \<or> is_scalar b \<Longrightarrow> a = b"
  by (cases "(a, b)" rule: same_structure.cases) auto

lemma json_at_jstr: "is_jstr x \<Longrightarrow> json_at p x = Some v \<Longrightarrow> p = [] \<and> v = x"
  by (cases x; cases p; cases "hd p") auto

lemma control_leaf_tl: "control_leaf (s # p) v \<Longrightarrow> p \<noteq> [] \<or> is_scalar v \<Longrightarrow> control_leaf p v"
  by (cases p; cases s) auto

lemma control_leaf_scalar: "control_leaf p v \<Longrightarrow> is_scalar v"
  by (induction p v rule: control_leaf.induct) auto

lemma same_structure_keys:
  assumes "same_structure (JDict a) (JDict b)"
  shows "(map_of a k = None \<longleftrightarrow> map_of b k = None) \<and>
    (\<forall>x y. map_of a k = Some x \<longrightarrow> map_of b k = Some y \<longrightarrow>
       (if k \<in> set TEXT_KEYS \<and> (is_jstr x \<or> is_jstr y) then is_jstr x \<and> is_jstr y else same_structure x y))"
proof -
  have "map_of a k = None \<longleftrightarrow> map_of b k = None"
    using assms by (simp add: map_of_eq_None_iff)
  moreover have "if k \<in> set TEXT_KEYS \<and> (is_jstr x \<or> is_jstr y) then is_jstr x \<and> is_jstr y else same_structure x y"
    if "map_of a k = Some x" "map_of b k = Some y" for x y
  proof -
    have "k \<in> set (dict_keys a)" using that(1) by (force dest: map_of_SomeD)
    moreover from assms have "\<forall>k \<in> set (dict_keys a). case map_of a k of None \<Rightarrow> False
      | Some x \<Rightarrow> (case map_of b k of None \<Rightarrow> False
         | Some y \<Rightarrow> if k \<in> set TEXT_KEYS \<and> (is_jstr x \<or> is_jstr y) then is_jstr x \<and> is_jstr y else same_structure x y)"
      unfolding same_structure.simps by (rule conjunct2)
    ultimately show ?thesis using that by fastforce
  qed
  ultimately show ?thesis by blast
qed

lemma same_structure_controls:
  "same_structure a b \<Longrightarrow> control_leaf p v \<Longrightarrow> json_at p a = Some v \<longleftrightarrow> json_at p b = Some v"
proof (induction p arbitrary: a b)
  case Nil
  then show ?case using same_structure_scalar by auto
next
  case (Cons st p)
  have sub: "json_at p x = Some v \<longleftrightarrow> json_at p y = Some v" if "same_structure x y" for x y
    using Cons.IH [OF that] control_leaf_tl [OF Cons.prems(2)] control_leaf_scalar [OF Cons.prems(2)] by blast
  show ?case
  proof (cases "is_scalar a \<or> is_scalar b")
    case True
    with same_structure_scalar [OF Cons.prems(1)] show ?thesis by simp
  next
    case False
    then consider (dicts) da db where "a = JDict da" "b = JDict db" | (lists) xs ys where "a = JList xs" "b = JList ys"
      using Cons.prems(1) by (cases a; cases b) auto
    then show ?thesis
    proof cases
      case dicts
      show ?thesis
      proof (cases st)
        case (KeyStep k)
        note keys = same_structure_keys [OF Cons.prems(1) [unfolded dicts], of k]
        show ?thesis
        proof (cases "map_of da k")
          case (Some x)
          with keys obtain y where y: "map_of db k = Some y" by fastforce
          have leaf: "json_at p z \<noteq> Some v" if "k \<in> set TEXT_KEYS" "is_jstr z" for z
            using that Cons.prems(2) KeyStep json_at_jstr [of z p v] by auto
          from keys Some y sub [of x y] leaf [of x] leaf [of y] KeyStep dicts show ?thesis
            by (auto split: if_splits)
        qed (use keys KeyStep dicts in auto)
      qed (use dicts in simp)
    next
      case lists
      then show ?thesis using Cons.prems(1) sub by (cases st) auto
    qed
  qed
qed

text \<open>
  Property C36. A protocol hook cannot change control data: when a transformed protocol request
  passes validation and the original payload decodes, the new payload decodes too and, at every
  path, holds the same control values (identifiers, methods, numbers, Booleans, nulls and every
  string that is not a \<^verbatim>\<open>text\<close>, \<^verbatim>\<open>delta\<close> or \<^verbatim>\<open>message\<close> leaf): none is changed, removed or added.
\<close>

theorem protocol_hooks_keep_controls:
  assumes "transform_error loads r r' = None" and "req_operation r \<in> {OpProtocolInput, OpProtocolOutput}"
    and "decode_payload loads (req_payload r) = Some a"
  shows "\<exists>b. decode_payload loads (req_payload r') = Some b \<and>
    (\<forall>p v. control_leaf p v \<longrightarrow> (json_at p a = Some v \<longleftrightarrow> json_at p b = Some v))"
proof (cases "req_payload r' = req_payload r")
  case False
  with assms obtain b where "decode_payload loads (req_payload r') = Some b" "same_structure a b"
    by (auto simp: transform_error_def same_protocol_structure_def split: if_splits option.splits)
  then show ?thesis using same_structure_controls by blast
qed (use assms(3) in simp)

subsection \<open>The registry\<close>

datatype registry_event = RegRegister nat | RegUnregister nat

fun registry_step :: "('w, 'x) pipeline_env \<Rightarrow> 'w pipe \<Rightarrow> registry_event \<Rightarrow> 'w pipe" where
  "registry_step env s (RegRegister t) = fst (register env t s)"
| "registry_step env s (RegUnregister t) = unregister env t s"

definition registry_inv :: "('w, 'x) pipeline_env \<Rightarrow> 'w pipe \<Rightarrow> bool" where
  "registry_inv env s \<longleftrightarrow>
     distinct (dict_keys (pipe_targets s)) \<and>
     (\<forall>n t. dict_get (pipe_targets s) n = Some t \<longrightarrow>
        n = target_name (env_target env t) \<and> n \<noteq> [] \<and> target_runtime_identity (env_target env t) \<noteq> [])"

lemma register_cases:
  obtains "fst (register env t s) = s"
  | "fst (register env t s) = s\<lparr>pipe_targets := dict_set (target_name (env_target env t)) t (pipe_targets s)\<rparr>"
      "target_name (env_target env t) \<noteq> []" "target_runtime_identity (env_target env t) \<noteq> []"
      "dict_get (pipe_targets s) (target_name (env_target env t)) = None"
  unfolding register_def Let_def by (cases "dict_get (pipe_targets s) (target_name (env_target env t))") force+

lemma registry_inv_set:
  assumes "registry_inv env s" "target_name (env_target env t) \<noteq> []" "target_runtime_identity (env_target env t) \<noteq> []"
  shows "registry_inv env (s\<lparr>pipe_targets := dict_set (target_name (env_target env t)) t (pipe_targets s)\<rparr>)"
  using assms unfolding registry_inv_def by (auto split: if_splits)

lemma registry_inv_pop:
  "registry_inv env s \<Longrightarrow> registry_inv env (s\<lparr>pipe_targets := dict_pop n (pipe_targets s)\<rparr>)"
  unfolding registry_inv_def by (auto split: if_splits)

interpretation registry: event_machine "registry_step env" "registry_inv env"
proof
  fix s e
  assume i: "registry_inv env s"
  show "registry_inv env (registry_step env s e)"
  proof (cases e)
    case (RegRegister t)
    then show ?thesis
      by (cases rule: register_cases [of env t s]) (simp_all add: i registry_inv_set)
  next
    case (RegUnregister t)
    then show ?thesis by (simp add: unregister_def Let_def i registry_inv_pop)
  qed
qed

lemma registry_step_keeps:
  assumes "dict_get (pipe_targets u) n = Some t" "e \<noteq> RegUnregister t"
  shows "dict_get (pipe_targets (registry_step env u e)) n = Some t"
proof (cases e)
  case (RegRegister t')
  with assms show ?thesis by (cases rule: register_cases [of env t' u]) auto
next
  case (RegUnregister t')
  with assms show ?thesis by (auto simp: unregister_def Let_def)
qed

lemma registry_run_keeps:
  "dict_get (pipe_targets u) n = Some t \<Longrightarrow> RegUnregister t \<notin> set es \<Longrightarrow>
     dict_get (pipe_targets (foldl (registry_step env) u es)) n = Some t"
proof (induction es arbitrary: u)
  case (Cons e es)
  then have "dict_get (pipe_targets (registry_step env u e)) n = Some t"
    by (intro registry_step_keeps) auto
  with Cons show ?case by simp
qed simp

text \<open>
  The registry holds each target under its own non-empty name, and only the exact
  target can be removed: over any sequence of registrations and removals a registered target
  stays registered until its own removal, whatever other targets claim the same name.
\<close>

theorem registry_exact:
  assumes "pipe_targets s = []"
  shows "(dict_get (pipe_targets (foldl (registry_step env) s es)) n = Some t \<longrightarrow>
      n = target_name (env_target env t) \<and> n \<noteq> [] \<and> target_runtime_identity (env_target env t) \<noteq> []) \<and>
    (dict_get (pipe_targets (foldl (registry_step env) s es)) n = Some t \<and> RegUnregister t \<notin> set es' \<longrightarrow>
      dict_get (pipe_targets (foldl (registry_step env) s (es @ es'))) n = Some t)"
proof (intro conjI impI)
  have "registry_inv env (foldl (registry_step env) s es)"
    by (rule registry.run_inv) (simp add: registry_inv_def assms)
  moreover assume "dict_get (pipe_targets (foldl (registry_step env) s es)) n = Some t"
  ultimately show "n = target_name (env_target env t)" "n \<noteq> []" "target_runtime_identity (env_target env t) \<noteq> []"
    unfolding registry_inv_def by blast+
next
  assume "dict_get (pipe_targets (foldl (registry_step env) s es)) n = Some t \<and> RegUnregister t \<notin> set es'"
  then show "dict_get (pipe_targets (foldl (registry_step env) s (es @ es'))) n = Some t"
    by (simp add: registry_run_keeps)
qed

subsection \<open>Witnesses\<close>

definition demo_result :: "unit interaction_result" where
  "demo_result = \<lparr>result_status = DsDelivered, result_detail = [], result_value = ValueNone, result_rejection_reason = None\<rparr>"

definition demo_target :: "(nat, unit) target_ops" where
  "demo_target =
     \<lparr>target_name = lit ''codex'', target_runtime_identity = lit ''r'', target_operations = [OpMessage],
      target_exists = ret True, target_deliver = (\<lambda>r s. (s\<lparr>pipe_world := Suc (pipe_world s)\<rparr>, Inr demo_result)),
      target_model_thread_id = ret (Some (lit ''t1'')), target_open = None,
      target_binding_identity = ret (Some (lit ''b1'')), target_observe_delivered = None\<rparr>"

definition demo_pipeline_env :: "(nat, unit) pipeline_env" where
  "demo_pipeline_env =
     \<lparr>env_hooks = [\<lambda>r. ret (Some r)], env_input_text_hook = None, env_loads = (\<lambda>_. None), env_dumps = (\<lambda>_. []),
      env_target = (\<lambda>_. demo_target), env_observer = (\<lambda>_ _. ret ())\<rparr>"

definition demo_request :: interaction_request where
  "demo_request =
     \<lparr>req_target = lit ''codex'', req_operation = OpMessage, req_source = lit ''rodex'', req_text = Some (lit ''go''),
      req_start_model_turn = True, req_payload = PayloadNone, req_open_if_missing = False, req_size_percent = None,
      req_dispatch_id = None, req_expected_turn_id = None, req_expected_thread_id = None, req_expected_binding = None,
      req_request_id = lit ''id''\<rparr>"

definition demo_pipe :: "nat pipe" where
  "demo_pipe = \<lparr>pipe_targets = [(lit ''codex'', 0)], pipe_records = [], pipe_observers = [], pipe_world = 0\<rparr>"

lemma py_strip_go: "py_strip (lit ''go'') \<noteq> []"
  by (simp add: py_strip_eq_Nil) (simp add: lit_def py_isspace_def)

lemmas pipeline_eval = demo_result_def demo_target_def demo_pipeline_env_def demo_request_def demo_pipe_def
  execute_request_def resolve_request_def resolve_thread_def validate_request_def request_error_def validate_transform_def
  transform_error_def check_registered_def check_thread_def reopen_target_def deliver_checked_def observe_delivery_def
  apply_selected_text_hook_def selected_text_hook_def model_operation_def lookup_operation_def blank_option_def
  reject_if_def and_then_def accepted_def Let_def py_strip_go

lemma demo_execute:
  "execute_request demo_pipeline_env demo_request demo_pipe = (demo_pipe\<lparr>pipe_world := 1\<rparr>, Inr demo_result)"
  by (simp add: pipeline_eval)

theorem delivery_fenced_witness:
  "\<exists>t sa sb sd se r'.
    dict_get (pipe_targets sa) (req_target demo_request) = Some t \<and>
    req_operation demo_request \<in> set (target_operations (env_target demo_pipeline_env t)) \<and>
    target_binding_identity (env_target demo_pipeline_env t) sa = (sb, Inr (req_expected_binding r')) \<and>
    target_model_thread_id (env_target demo_pipeline_env t) sb = (sd, Inr (req_expected_thread_id r')) \<and>
    target_deliver (env_target demo_pipeline_env t) r' sd = (se, Inr demo_result)"
proof -
  have "model_operation demo_request" by (simp add: model_operation_def demo_request_def)
  then show ?thesis
    using delivery_fenced [OF demo_execute] by (simp add: accepted_def demo_result_def) blast
qed

lemma demo_unknown:
  "execute_request demo_pipeline_env demo_request (demo_pipe\<lparr>pipe_targets := []\<rparr>) =
     (demo_pipe\<lparr>pipe_targets := []\<rparr>, Inl (ExnRejected ReasonUnspecified (lit ''unknown interaction target: '' @ lit ''codex'')))"
  by (simp add: pipeline_eval)

theorem refused_without_delivery_witness:
  "pipe_world (fst (execute_request demo_pipeline_env demo_request (demo_pipe\<lparr>pipe_targets := []\<rparr>))) = 0"
proof -
  have "pipe_world (demo_pipe\<lparr>pipe_targets := []\<rparr>) = 0"
    by (rule refused_without_delivery [OF _ _ demo_unknown, where P = "\<lambda>s. pipe_world s = 0"])
       (simp_all add: adapters_keep_def demo_pipeline_env_def demo_target_def demo_pipe_def)
  then show ?thesis by (simp add: demo_unknown)
qed

theorem one_record_per_execution_witness:
  "length (pipe_records (fst (execute_interaction demo_pipeline_env demo_request demo_pipe))) \<le> 256"
proof -
  have env: "leaves_records demo_pipeline_env"
    by (simp add: leaves_records_def adapters_keep_def demo_pipeline_env_def demo_target_def keeps_def)
  have "\<exists>s'. execute_interaction demo_pipeline_env demo_request demo_pipe = (s', Inr demo_result)"
    by (simp add: execute_interaction_def demo_execute finish_def record_outcome_def and_then_def)
       (simp add: demo_pipe_def)
  then obtain s' where e: "execute_interaction demo_pipeline_env demo_request demo_pipe = (s', Inr demo_result)" ..
  with one_record_per_execution [OF env e] show ?thesis by simp
qed

definition demo_protocol :: "pystr \<Rightarrow> interaction_request" where
  "demo_protocol body = demo_request\<lparr>req_operation := OpProtocolInput, req_start_model_turn := False,
     req_payload := PayloadStr body\<rparr>"

definition demo_protocol_loads :: "payload \<Rightarrow> json option" where
  "demo_protocol_loads p =
     (case p of PayloadStr body \<Rightarrow> Some (JDict [(lit ''id'', JInt 1), (lit ''text'', JStr body)]) | _ \<Rightarrow> None)"

theorem protocol_hooks_keep_controls_witness:
  "\<exists>b. decode_payload demo_protocol_loads (req_payload (demo_protocol (lit ''b''))) = Some b \<and>
    (\<forall>p v. control_leaf p v \<longrightarrow>
      (json_at p (JDict [(lit ''id'', JInt 1), (lit ''text'', JStr (lit ''a''))]) = Some v \<longleftrightarrow> json_at p b = Some v))"
  by (rule protocol_hooks_keep_controls [where r = "demo_protocol (lit ''a'')"])
     (simp_all add: demo_protocol_def demo_request_def transform_error_def same_protocol_structure_def
       decode_payload_def demo_protocol_loads_def TEXT_KEYS_def)

theorem registry_exact_witness:
  "dict_get (pipe_targets (foldl (registry_step demo_pipeline_env) (demo_pipe\<lparr>pipe_targets := []\<rparr>)
      ([RegRegister 0] @ [RegRegister 1, RegUnregister 1]))) (lit ''codex'') = Some 0"
  using registry_exact [of "demo_pipe\<lparr>pipe_targets := []\<rparr>" demo_pipeline_env "[RegRegister 0]" "lit ''codex''" 0
      "[RegRegister 1, RegUnregister 1]"]
  by (simp add: register_def demo_pipeline_env_def demo_target_def Let_def)

end
