(* ===== verification/Overload_Recovery.thy ===== *)
theory Overload_Recovery
  imports Fenced_Dispatch Interaction_Pipeline
begin

section \<open>Recovery from model overload\<close>

text \<open>
  \<^verbatim>\<open>src/rodex/server_overloaded_recovery.py\<close>. Every critical section of the controller (a
  \<^verbatim>\<open>with self._lock\<close> block) is one function on the state; the public operations compose them, and a
  run is any sequence of critical sections, so every interleaving of callers, timers and the
  dispatch thread is one. Attempts and deferred calls are compared by identity in the code: here
  they carry the generation in which they were created, which is unique. The clocks are read by the
  caller of the event; the deferred-call factory is assumed to return.
\<close>

definition SERVER_OVERLOADED_INITIAL_DELAY_SECONDS :: nat where
  "SERVER_OVERLOADED_INITIAL_DELAY_SECONDS = 30"

definition SERVER_OVERLOADED_RESET_WINDOW_SECONDS :: rat where
  "SERVER_OVERLOADED_RESET_WINDOW_SECONDS = 5 * 60"

definition SERVER_OVERLOADED_MAX_DELAY_SECONDS :: nat where
  "SERVER_OVERLOADED_MAX_DELAY_SECONDS = 16 * 60"

definition SERVER_OVERLOADED_OBSERVED_TURN_LIMIT :: nat where
  "SERVER_OVERLOADED_OBSERVED_TURN_LIMIT = 256"

definition SERVER_OVERLOADED_RECOVERY_SOURCE :: pystr where
  "SERVER_OVERLOADED_RECOVERY_SOURCE = lit ''server-overloaded-recovery''"

definition SERVER_OVERLOADED_CONTINUATION_TEXT :: pystr where
  "SERVER_OVERLOADED_CONTINUATION_TEXT = lit ''Continue...''"

subsection \<open>Backoff\<close>

fun bit_length :: "nat \<Rightarrow> nat" where
  "bit_length n = (if n = 0 then 0 else Suc (bit_length (n div 2)))"

declare bit_length.simps [simp del]

definition recovery_delay_seconds :: "int \<Rightarrow> nat" where
  "recovery_delay_seconds server_overloaded_count =
     (let doublings_before_cap =
            bit_length (SERVER_OVERLOADED_MAX_DELAY_SECONDS div SERVER_OVERLOADED_INITIAL_DELAY_SECONDS) - 1;
          exponent = min (nat (max (server_overloaded_count - 1) 0)) doublings_before_cap
      in min (SERVER_OVERLOADED_INITIAL_DELAY_SECONDS * 2 ^ exponent) SERVER_OVERLOADED_MAX_DELAY_SECONDS)"

lemma doublings: "bit_length (SERVER_OVERLOADED_MAX_DELAY_SECONDS div SERVER_OVERLOADED_INITIAL_DELAY_SECONDS) = 6"
  by (simp add: SERVER_OVERLOADED_MAX_DELAY_SECONDS_def SERVER_OVERLOADED_INITIAL_DELAY_SECONDS_def bit_length.simps)

lemma recovery_delay_eq: "recovery_delay_seconds c = min (30 * 2 ^ nat (c - 1)) 960"
proof -
  have d: "recovery_delay_seconds c = min (30 * 2 ^ min (nat (max (c - 1) 0)) 5) 960"
    unfolding recovery_delay_seconds_def doublings
    by (simp add: SERVER_OVERLOADED_MAX_DELAY_SECONDS_def SERVER_OVERLOADED_INITIAL_DELAY_SECONDS_def Let_def)
  show ?thesis
  proof (cases "nat (c - 1) \<le> 5")
    case True
    then show ?thesis unfolding d by (simp add: max_def min_def)
  next
    case False
    then have "(2::nat) ^ 5 \<le> 2 ^ nat (c - 1)" by (intro power_increasing) auto
    with False show ?thesis unfolding d by (auto simp: min_def max_def)
  qed
qed

text \<open>
  The backoff is the documented one: the \<open>n\<close>-th consecutive overload waits
  \<open>30 * 2 ^ (n - 1)\<close> seconds, capped at 16 minutes, although the code caps the exponent by a bit
  length; delays lie between 30 and 960 seconds and never shrink as the count grows.
\<close>

theorem recovery_delay_schedule:
  "recovery_delay_seconds (int (Suc n)) = min (30 * 2 ^ n) 960 \<and>
   30 \<le> recovery_delay_seconds c \<and> recovery_delay_seconds c \<le> 960 \<and>
   recovery_delay_seconds c \<le> recovery_delay_seconds (c + 1)"
proof -
  have "(2::nat) ^ nat (c - 1) \<le> 2 ^ nat (c + 1 - 1)" by (intro power_increasing) auto
  then have "30 * (2::nat) ^ nat (c - 1) \<le> 30 * 2 ^ nat (c + 1 - 1)" by simp
  then have "min (30 * (2::nat) ^ nat (c - 1)) 960 \<le> min (30 * 2 ^ nat (c + 1 - 1)) 960"
    by (rule min.mono) simp
  moreover have "30 \<le> min (30 * (2::nat) ^ nat (c - 1)) 960" by (simp add: Suc_le_eq)
  ultimately show ?thesis by (simp add: recovery_delay_eq)
qed

subsection \<open>State and critical sections\<close>

record recovery_attempt =
  att_thread_id :: pystr
  att_failed_turn_id :: pystr
  att_count :: int
  att_delay_seconds :: nat
  att_last_at_utc :: pystr
  att_dispatch_id :: pystr
  att_serial :: nat

record recovery =
  rc_root_thread_id :: "pystr option"
  rc_count :: int
  rc_last_monotonic :: "rat option"
  rc_last_at_utc :: "pystr option"
  rc_observed :: "(pystr \<times> pystr) list"
  rc_pending_attempt :: "recovery_attempt option"
  rc_pending_call :: "nat option"
  rc_requests :: "(pystr, nat \<times> recovery_attempt) dict"
  rc_generation :: nat
  rc_closed :: bool

definition initial_recovery :: recovery where
  "initial_recovery =
     \<lparr>rc_root_thread_id = None, rc_count = 0, rc_last_monotonic = None, rc_last_at_utc = None, rc_observed = [],
      rc_pending_attempt = None, rc_pending_call = None, rc_requests = [], rc_generation = 0, rc_closed = False\<rparr>"

text \<open>What a section does outside the state: the deferred calls it cancels or creates, and the
  log lines.\<close>

datatype recovery_effect =
    CancelCall nat
  | StartCall nat nat
  | LogObserved recovery_attempt
  | LogCancelled recovery_attempt pystr
  | LogScheduleFailed pystr
  | LogDispatchFailed recovery_attempt pystr
  | LogDispatchResult recovery_attempt bool delivery_status pystr

text \<open>\<^verbatim>\<open>_bounded_log_value\<close> of a rendered value.\<close>

definition bounded_log_value :: "pystr \<Rightarrow> pystr" where
  "bounded_log_value v = take 240 (map (\<lambda>c. if c = 10 then 32 else c) (map (\<lambda>c. if c = 13 then 32 else c) v))"

definition clear_pending :: "recovery \<Rightarrow> recovery" where
  "clear_pending s = s\<lparr>rc_generation := Suc (rc_generation s), rc_pending_attempt := None, rc_pending_call := None\<rparr>"

text \<open>The effects of what \<^verbatim>\<open>_clear_pending_locked\<close> returned.\<close>

definition cancel_effects :: "recovery \<Rightarrow> pystr \<Rightarrow> recovery_effect list" where
  "cancel_effects s reason =
     (case rc_pending_call s of None \<Rightarrow> [] | Some c \<Rightarrow> [CancelCall c]) @
     (case rc_pending_attempt s of None \<Rightarrow> [] | Some a \<Rightarrow> [LogCancelled a reason])"

definition bind_root_thread :: "pystr \<Rightarrow> recovery \<Rightarrow> recovery \<times> (unit + recovery_effect list)" where
  "bind_root_thread thread_id s =
     (if thread_id = [] then (s, Inl ())
      else if rc_closed s \<or> rc_root_thread_id s = Some thread_id then (s, Inr [])
      else if rc_root_thread_id s \<noteq> None then
        ((clear_pending s)\<lparr>rc_count := 0, rc_last_monotonic := None, rc_last_at_utc := None, rc_observed := [],
           rc_root_thread_id := Some thread_id\<rparr>, Inr (cancel_effects s (lit ''root thread changed'')))
      else (s\<lparr>rc_root_thread_id := Some thread_id\<rparr>, Inr []))"

definition make_attempt :: "pystr \<Rightarrow> pystr \<Rightarrow> int \<Rightarrow> pystr \<Rightarrow> nat \<Rightarrow> recovery_attempt" where
  "make_attempt thread_id turn_id count utc serial =
     \<lparr>att_thread_id = thread_id, att_failed_turn_id = turn_id, att_count = count,
      att_delay_seconds = recovery_delay_seconds count, att_last_at_utc = utc,
      att_dispatch_id = lit ''rodex:server-overloaded:'' @ thread_id @ lit '':'' @ turn_id, att_serial = serial\<rparr>"

definition next_count :: "recovery \<Rightarrow> rat \<Rightarrow> int" where
  "next_count s now =
     (case rc_last_monotonic s of
        Some previous \<Rightarrow>
          if 0 \<le> now - previous \<and> now - previous \<le> SERVER_OVERLOADED_RESET_WINDOW_SECONDS then rc_count s + 1 else 1
      | None \<Rightarrow> 1)"

text \<open>\<^verbatim>\<open>popitem(last=False)\<close> once the ordered dictionary is over its limit.\<close>

definition remember_turn :: "pystr \<times> pystr \<Rightarrow> (pystr \<times> pystr) list \<Rightarrow> (pystr \<times> pystr) list" where
  "remember_turn k ks =
     (if length (ks @ [k]) > SERVER_OVERLOADED_OBSERVED_TURN_LIMIT then tl (ks @ [k]) else ks @ [k])"

definition schedule_recovery :: "pystr \<Rightarrow> pystr \<Rightarrow> rat \<Rightarrow> pystr \<Rightarrow> recovery \<Rightarrow> recovery \<times> recovery_effect list" where
  "schedule_recovery thread_id failed_turn_id now utc s =
     (if rc_closed s \<or> rc_root_thread_id s \<noteq> Some thread_id then (s, [])
      else if (thread_id, failed_turn_id) \<in> set (rc_observed s) then (s, [])
      else
        let count = next_count s now;
            gen = Suc (rc_generation s);
            attempt = make_attempt thread_id failed_turn_id count utc gen
        in (s\<lparr>rc_observed := remember_turn (thread_id, failed_turn_id) (rc_observed s), rc_count := count,
              rc_last_monotonic := Some now, rc_last_at_utc := Some utc, rc_generation := gen,
              rc_pending_attempt := Some attempt, rc_pending_call := Some gen\<rparr>,
            (case rc_pending_call s of None \<Rightarrow> [] | Some c \<Rightarrow> [CancelCall c])
            @ [LogObserved attempt, StartCall gen (att_delay_seconds attempt)]))"

text \<open>Starting the deferred call failed.\<close>

definition start_failed :: "nat \<Rightarrow> pystr \<Rightarrow> recovery \<Rightarrow> recovery \<times> recovery_effect list" where
  "start_failed call err s =
     (if rc_pending_call s = Some call then clear_pending s else s, [LogScheduleFailed (bounded_log_value err)])"

text \<open>The timer fired: the first critical section of \<^verbatim>\<open>_dispatch_pending\<close>, then the one that
  registers the request, then the one of its \<^verbatim>\<open>finally\<close>.\<close>

definition dispatch_begin :: "nat \<Rightarrow> recovery \<Rightarrow> recovery \<times> recovery_attempt option" where
  "dispatch_begin gen s =
     (if rc_closed s \<or> gen \<noteq> rc_generation s \<or> rc_pending_attempt s = None \<or> rc_pending_call s = None then (s, None)
      else (s\<lparr>rc_pending_call := None\<rparr>, rc_pending_attempt s))"

definition recovery_request :: "recovery_attempt \<Rightarrow> pystr \<Rightarrow> interaction_request" where
  "recovery_request a request_id =
     \<lparr>req_target = lit ''main'', req_operation = OpMessage, req_source = SERVER_OVERLOADED_RECOVERY_SOURCE,
      req_text = Some SERVER_OVERLOADED_CONTINUATION_TEXT, req_start_model_turn = True, req_payload = PayloadNone,
      req_open_if_missing = False, req_size_percent = None, req_dispatch_id = Some (att_dispatch_id a),
      req_expected_turn_id = None, req_expected_thread_id = Some (att_thread_id a), req_expected_binding = None,
      req_request_id = request_id\<rparr>"

definition dispatch_register :: "pystr \<Rightarrow> nat \<Rightarrow> recovery_attempt \<Rightarrow> recovery \<Rightarrow> recovery" where
  "dispatch_register request_id gen a s = s\<lparr>rc_requests := dict_set request_id (gen, a) (rc_requests s)\<rparr>"

definition dispatch_end :: "pystr \<Rightarrow> nat \<Rightarrow> recovery \<Rightarrow> recovery" where
  "dispatch_end request_id gen s =
     (let s' = s\<lparr>rc_requests := dict_pop request_id (rc_requests s)\<rparr>
      in if gen = rc_generation s' then clear_pending s' else s')"

text \<open>What the dispatch thread logs once the pipeline returned or raised.\<close>

definition dispatch_log ::
  "recovery_attempt \<Rightarrow> pystr + unit interaction_result \<Rightarrow> recovery_effect list" where
  "dispatch_log a outcome =
     (case outcome of
        Inl err \<Rightarrow> [LogDispatchFailed a (bounded_log_value err)]
      | Inr result \<Rightarrow> [LogDispatchResult a (accepted result) (result_status result)
          (if result_detail result = [] then lit ''none'' else bounded_log_value (result_detail result))])"

datatype admit_refusal = NoTrustedAdmission | CancelledBeforeAdmission

definition admit_dispatch :: "interaction_request \<Rightarrow> recovery \<Rightarrow> recovery \<times> (admit_refusal + recovery_attempt option)" where
  "admit_dispatch r s =
     (if req_source r \<noteq> SERVER_OVERLOADED_RECOVERY_SOURCE then (s, Inr None)
      else
        let s' = s\<lparr>rc_requests := dict_pop (req_request_id r) (rc_requests s)\<rparr> in
        case dict_get (rc_requests s) (req_request_id r) of
          None \<Rightarrow> (s', Inl NoTrustedAdmission)
        | Some (gen, a) \<Rightarrow>
            if rc_closed s \<or> gen \<noteq> rc_generation s \<or> rc_pending_attempt s \<noteq> Some a
               \<or> req_dispatch_id r \<noteq> Some (att_dispatch_id a) \<or> req_expected_thread_id r \<noteq> Some (att_thread_id a)
            then (s', Inl CancelledBeforeAdmission)
            else (clear_pending s', Inr (Some a)))"

definition cancel_pending :: "pystr \<Rightarrow> recovery \<Rightarrow> recovery \<times> recovery_effect list" where
  "cancel_pending reason s =
     (if rc_closed s \<or> rc_pending_attempt s = None then (s, [])
      else (clear_pending s, cancel_effects s reason))"

definition close_recovery :: "recovery \<Rightarrow> recovery \<times> recovery_effect list" where
  "close_recovery s =
     (if rc_closed s then (s, [])
      else ((clear_pending s)\<lparr>rc_closed := True\<rparr>, cancel_effects s (lit ''runtime closed'')))"

subsection \<open>Protocol events and outcomes\<close>

definition overload_failure :: "recovery \<Rightarrow> message \<Rightarrow> (pystr \<times> pystr) option" where
  "overload_failure s event =
     (if jfield event ''method'' \<noteq> JStr (lit ''turn/completed'') then None
      else case jfield event ''params'' of
        JDict params \<Rightarrow>
          (case (as_id (jfield params ''threadId''), jfield params ''turn'') of
             (Some thread_id, JDict turn) \<Rightarrow>
               (case (as_id (jfield turn ''id''), jfield turn ''error'') of
                  (Some turn_id, JDict error) \<Rightarrow>
                    if jfield turn ''status'' \<noteq> JStr (lit ''failed'')
                       \<or> jfield error ''codexErrorInfo'' \<noteq> JStr (lit ''serverOverloaded'') then None
                    else if rc_closed s \<or> rc_root_thread_id s \<noteq> Some thread_id then None
                    else Some (thread_id, turn_id)
                | _ \<Rightarrow> None)
           | _ \<Rightarrow> None)
      | _ \<Rightarrow> None)"

definition bind_first_started_thread :: "message \<Rightarrow> recovery \<Rightarrow> recovery \<times> recovery_effect list" where
  "bind_first_started_thread event s =
     (case as_id (jpath (jpath (jfield event ''params'') ''thread'') ''id'') of
        None \<Rightarrow> (s, [])
      | Some thread_id \<Rightarrow>
          if \<not> rc_closed s \<and> rc_root_thread_id s = None
          then (case bind_root_thread thread_id s of (s', Inr effs) \<Rightarrow> (s', effs) | (s', Inl _) \<Rightarrow> (s', []))
          else (s, []))"

definition observe_protocol_event :: "message option \<Rightarrow> rat \<Rightarrow> pystr \<Rightarrow> recovery \<Rightarrow> recovery \<times> recovery_effect list" where
  "observe_protocol_event event now utc s =
     (case event of
        None \<Rightarrow> (s, [])
      | Some ev \<Rightarrow>
          if jfield ev ''method'' = JStr (lit ''thread/started'') then bind_first_started_thread ev s
          else (case overload_failure s ev of
                  None \<Rightarrow> (s, [])
                | Some (thread_id, turn_id) \<Rightarrow> schedule_recovery thread_id turn_id now utc s))"

definition observe_interaction_outcome :: "interaction_record \<Rightarrow> recovery \<Rightarrow> recovery \<times> recovery_effect list" where
  "observe_interaction_outcome rec s =
     (if rec_operation rec \<noteq> OpTerminalInput \<or> rec_source rec \<noteq> lit ''terminal-gateway'' then (s, [])
      else cancel_pending (lit ''user input observed'') s)"

record recovery_snapshot =
  snap_root_thread_id :: "pystr option"
  snap_count :: int
  snap_last_at_utc :: "pystr option"
  snap_pending_delay :: "nat option"
  snap_pending_failed_turn_id :: "pystr option"

definition recovery_snapshot_of :: "recovery \<Rightarrow> recovery_snapshot" where
  "recovery_snapshot_of s =
     \<lparr>snap_root_thread_id = rc_root_thread_id s, snap_count = rc_count s, snap_last_at_utc = rc_last_at_utc s,
      snap_pending_delay = map_option att_delay_seconds (rc_pending_attempt s),
      snap_pending_failed_turn_id = map_option att_failed_turn_id (rc_pending_attempt s)\<rparr>"

subsection \<open>Interleavings\<close>

datatype recovery_event =
    RcBind pystr
  | RcProtocol "message option" rat pystr
  | RcSchedule pystr pystr rat pystr
  | RcOutcome interaction_record
  | RcDisconnect
  | RcClose
  | RcStartFailed nat pystr
  | RcDispatchBegin nat
  | RcDispatchRegister pystr nat recovery_attempt
  | RcAdmit interaction_request
  | RcDispatchEnd pystr nat

fun recovery_step :: "recovery \<Rightarrow> recovery_event \<Rightarrow> recovery" where
  "recovery_step s (RcBind t) = fst (bind_root_thread t s)"
| "recovery_step s (RcProtocol ev now utc) = fst (observe_protocol_event ev now utc s)"
| "recovery_step s (RcSchedule t turn now utc) = fst (schedule_recovery t turn now utc s)"
| "recovery_step s (RcOutcome rec) = fst (observe_interaction_outcome rec s)"
| "recovery_step s RcDisconnect = fst (cancel_pending (lit ''primary connection disconnected'') s)"
| "recovery_step s RcClose = fst (close_recovery s)"
| "recovery_step s (RcStartFailed call err) = fst (start_failed call err s)"
| "recovery_step s (RcDispatchBegin gen) = fst (dispatch_begin gen s)"
| "recovery_step s (RcDispatchRegister rid gen a) = dispatch_register rid gen a s"
| "recovery_step s (RcAdmit r) = fst (admit_dispatch r s)"
| "recovery_step s (RcDispatchEnd rid gen) = dispatch_end rid gen s"

fun recovery_admitted :: "recovery \<Rightarrow> recovery_event \<Rightarrow> nat option" where
  "recovery_admitted s (RcAdmit r) =
     (case snd (admit_dispatch r s) of Inr (Some a) \<Rightarrow> Some (att_serial a) | _ \<Rightarrow> None)"
| "recovery_admitted s _ = None"

definition attempt_ok :: "recovery \<Rightarrow> recovery_attempt \<Rightarrow> bool" where
  "attempt_ok s a \<longleftrightarrow>
     att_serial a = rc_generation s \<and> rc_root_thread_id s = Some (att_thread_id a) \<and> 1 \<le> att_count a \<and>
     att_delay_seconds a = recovery_delay_seconds (att_count a) \<and> \<not> rc_closed s \<and>
     (att_thread_id a, att_failed_turn_id a) \<in> set (rc_observed s)"

definition recovery_inv :: "recovery \<Rightarrow> bool" where
  "recovery_inv s \<longleftrightarrow>
     (\<forall>a. rc_pending_attempt s = Some a \<longrightarrow> attempt_ok s a) \<and>
     (rc_pending_call s \<noteq> None \<longrightarrow> rc_pending_attempt s \<noteq> None) \<and> 0 \<le> rc_count s \<and>
     length (rc_observed s) \<le> SERVER_OVERLOADED_OBSERVED_TURN_LIMIT \<and> distinct (rc_observed s)"

lemma recovery_inv_clear:
  "recovery_inv s \<Longrightarrow> recovery_inv (clear_pending s)"
  "recovery_inv s \<Longrightarrow> recovery_inv ((clear_pending s)\<lparr>rc_closed := c\<rparr>)"
  by (simp_all add: recovery_inv_def clear_pending_def)

lemma remember_turn_ok:
  assumes "length ks \<le> SERVER_OVERLOADED_OBSERVED_TURN_LIMIT" "distinct ks" "k \<notin> set ks"
  shows "length (remember_turn k ks) \<le> SERVER_OVERLOADED_OBSERVED_TURN_LIMIT \<and> distinct (remember_turn k ks) \<and>
    k \<in> set (remember_turn k ks)"
  using assms by (cases ks) (auto simp: remember_turn_def SERVER_OVERLOADED_OBSERVED_TURN_LIMIT_def)

lemma next_count_pos: "0 \<le> rc_count s \<Longrightarrow> 1 \<le> next_count s now"
  by (auto simp: next_count_def split: option.split)

lemma schedule_recovery_inv: "recovery_inv s \<Longrightarrow> recovery_inv (fst (schedule_recovery t turn now utc s))"
  using remember_turn_ok [of "rc_observed s" "(t, turn)"] next_count_pos [of s now]
  by (auto simp: schedule_recovery_def recovery_inv_def attempt_ok_def make_attempt_def Let_def)

lemma bind_root_thread_inv: "recovery_inv s \<Longrightarrow> recovery_inv (fst (bind_root_thread t s))"
  by (auto simp: bind_root_thread_def recovery_inv_def attempt_ok_def clear_pending_def
      SERVER_OVERLOADED_OBSERVED_TURN_LIMIT_def)

lemma fst_bind_first: "fst (bind_first_started_thread ev s) = s \<or> (\<exists>t. fst (bind_first_started_thread ev s) = fst (bind_root_thread t s))"
proof (cases "as_id (jpath (jpath (jfield ev ''params'') ''thread'') ''id'')")
  case (Some t)
  then show ?thesis
    by (cases "bind_root_thread t s"; cases "snd (bind_root_thread t s)")
       (auto simp: bind_first_started_thread_def intro: exI [of _ t])
qed (simp add: bind_first_started_thread_def)

lemma fst_observe_protocol_event:
  obtains "fst (observe_protocol_event ev now utc s) = s"
  | t where "fst (observe_protocol_event ev now utc s) = fst (bind_root_thread t s)"
  | t turn where "fst (observe_protocol_event ev now utc s) = fst (schedule_recovery t turn now utc s)"
proof (cases ev)
  case (Some e)
  show thesis
  proof (cases "jfield e ''method'' = JStr (lit ''thread/started'')")
    case True
    with Some fst_bind_first [of e s] show thesis
      using that(1,2) by (auto simp: observe_protocol_event_def)
  next
    case False
    with Some show thesis
      using that(1,3) by (cases "overload_failure s e") (auto simp: observe_protocol_event_def)
  qed
qed (use that(1) in \<open>simp add: observe_protocol_event_def\<close>)

lemma cancel_pending_inv: "recovery_inv s \<Longrightarrow> recovery_inv (fst (cancel_pending reason s))"
  by (simp add: cancel_pending_def recovery_inv_clear)

lemma admit_dispatch_inv: "recovery_inv s \<Longrightarrow> recovery_inv (fst (admit_dispatch r s))"
  by (auto simp: admit_dispatch_def recovery_inv_def attempt_ok_def clear_pending_def Let_def split: option.split)

lemma recovery_step_inv: "recovery_inv s \<Longrightarrow> recovery_inv (recovery_step s e)"
proof (cases e)
  case (RcProtocol ev now utc)
  assume "recovery_inv s"
  with RcProtocol show ?thesis
    by (cases rule: fst_observe_protocol_event [of ev now utc s])
       (simp_all add: bind_root_thread_inv schedule_recovery_inv)
next
  case (RcDispatchBegin g)
  assume "recovery_inv s"
  with RcDispatchBegin show ?thesis by (auto simp: dispatch_begin_def recovery_inv_def attempt_ok_def)
next
  case (RcDispatchRegister rid g a)
  assume "recovery_inv s"
  with RcDispatchRegister show ?thesis by (auto simp: dispatch_register_def recovery_inv_def attempt_ok_def)
next
  case (RcDispatchEnd rid g)
  assume "recovery_inv s"
  with RcDispatchEnd show ?thesis
    by (auto simp: dispatch_end_def recovery_inv_def attempt_ok_def clear_pending_def Let_def)
qed (simp_all add: bind_root_thread_inv schedule_recovery_inv cancel_pending_inv admit_dispatch_inv
    observe_interaction_outcome_def close_recovery_def start_failed_def recovery_inv_clear)

lemma bind_generation: "rc_generation s \<le> rc_generation (fst (bind_root_thread t s))"
  by (simp add: bind_root_thread_def clear_pending_def)

lemma schedule_generation: "rc_generation s \<le> rc_generation (fst (schedule_recovery t turn now utc s))"
  by (simp add: schedule_recovery_def Let_def)

lemma recovery_generation_step: "rc_generation s \<le> rc_generation (recovery_step s e)"
proof (cases e)
  case (RcProtocol ev now utc)
  then show ?thesis
    by (cases rule: fst_observe_protocol_event [of ev now utc s]) (simp_all add: bind_generation schedule_generation)
next
  case (RcAdmit r)
  then show ?thesis
    by (auto simp: admit_dispatch_def clear_pending_def Let_def split: option.split)
qed (simp_all add: bind_generation schedule_generation observe_interaction_outcome_def cancel_pending_def
    close_recovery_def start_failed_def clear_pending_def dispatch_begin_def dispatch_register_def dispatch_end_def Let_def)

lemma recovery_admittedD:
  assumes "recovery_admitted s e = Some g"
  obtains r a where "e = RcAdmit r" "rc_pending_attempt s = Some a" "g = att_serial a"
    "rc_generation (recovery_step s e) = Suc (rc_generation s)" "\<not> rc_closed s"
    "req_expected_thread_id r = Some (att_thread_id a)"
proof (cases e)
  case (RcAdmit r)
  with assms show thesis
    by (intro that [of r "the (rc_pending_attempt s)"])
       (auto simp: admit_dispatch_def clear_pending_def Let_def split: if_splits option.splits sum.splits)
qed (use assms in simp_all)

interpretation recovery: fenced_dispatch recovery_step recovery_inv rc_generation recovery_admitted
proof
  fix s e g
  assume i: "recovery_inv s"
  show "recovery_inv (recovery_step s e)" using i by (rule recovery_step_inv)
  show "rc_generation s \<le> rc_generation (recovery_step s e)" by (rule recovery_generation_step)
  assume a: "recovery_admitted s e = Some g"
  show "g = rc_generation s"
    by (rule recovery_admittedD [OF a]) (use i in \<open>auto simp: recovery_inv_def attempt_ok_def\<close>)
  show "rc_generation s < rc_generation (recovery_step s e)"
    by (rule recovery_admittedD [OF a]) simp
qed

lemma initial_recovery_inv: "recovery_inv initial_recovery"
  by (simp add: recovery_inv_def initial_recovery_def)

text \<open>
  Property C18. At most one continuation per scheduled attempt: in every interleaving of the
  controller's critical sections the generations of the admitted attempts strictly increase, so no
  attempt is admitted twice and no attempt is admitted after a later one.
\<close>

theorem recovery_admitted_once:
  "sorted_wrt (<) (admissions recovery_step recovery_admitted initial_recovery es)"
  by (rule recovery.admissions_increasing [OF initial_recovery_inv])

text \<open>The events that cancel a pending attempt: terminal input by the user, a disconnect, closing,
  and a change of the root thread.\<close>

definition cancels :: "recovery \<Rightarrow> recovery_event \<Rightarrow> bool" where
  "cancels s e \<longleftrightarrow>
     (case e of
        RcOutcome rec \<Rightarrow> rec_operation rec = OpTerminalInput \<and> rec_source rec = lit ''terminal-gateway''
      | RcDisconnect \<Rightarrow> True
      | RcClose \<Rightarrow> True
      | RcBind t \<Rightarrow> t \<noteq> [] \<and> rc_root_thread_id s \<noteq> Some t
      | _ \<Rightarrow> False)"

text \<open>
  Cancellation is final: if an attempt is pending when the user types, the
  connection drops, the runtime closes or the root thread changes, then in every continuation of
  the run that attempt is never admitted, even when its timer had fired and its request was
  already on its way through the pipeline.
\<close>

theorem recovery_cancel_final:
  assumes "s = foldl recovery_step initial_recovery es" and "rc_pending_attempt s = Some a" and "cancels s e"
  shows "att_serial a \<notin> set (admissions recovery_step recovery_admitted (recovery_step s e) es')"
proof
  have i: "recovery_inv s" unfolding assms(1) by (rule recovery.run_inv [OF initial_recovery_inv])
  with assms(2) have a: "att_serial a = rc_generation s" "\<not> rc_closed s" "rc_root_thread_id s \<noteq> None"
    by (auto simp: recovery_inv_def attempt_ok_def)
  assume "att_serial a \<in> set (admissions recovery_step recovery_admitted (recovery_step s e) es')"
  then have "rc_generation (recovery_step s e) \<le> att_serial a"
    by (rule recovery.admissions_after [OF recovery_step_inv [OF i]])
  moreover have "rc_generation s < rc_generation (recovery_step s e)"
    using assms(2,3) a
    by (cases e) (auto simp: cancels_def observe_interaction_outcome_def cancel_pending_def close_recovery_def
        bind_root_thread_def clear_pending_def)
  ultimately show False using a by simp
qed

text \<open>
  What is pending is always legitimate: after any interleaving, a pending attempt
  is for the current root thread of an open controller, waits between 30 seconds and 16 minutes
  as its consecutive count prescribes, and its failed turn is remembered, so the same failure
  cannot schedule again; at most 256 turns are remembered.
\<close>

theorem recovery_pending_legitimate:
  assumes "s = foldl recovery_step initial_recovery es"
  shows "length (rc_observed s) \<le> 256 \<and>
    (\<forall>a. rc_pending_attempt s = Some a \<longrightarrow>
       rc_root_thread_id s = Some (att_thread_id a) \<and> \<not> rc_closed s \<and>
       att_delay_seconds a = min (30 * 2 ^ nat (att_count a - 1)) 960 \<and>
       (\<forall>now utc. schedule_recovery (att_thread_id a) (att_failed_turn_id a) now utc s = (s, [])))"
proof -
  have "recovery_inv s" unfolding assms by (rule recovery.run_inv [OF initial_recovery_inv])
  then show ?thesis
    by (auto simp: recovery_inv_def attempt_ok_def recovery_delay_eq schedule_recovery_def
        SERVER_OVERLOADED_OBSERVED_TURN_LIMIT_def)
qed

subsection \<open>Witnesses\<close>

definition demo_overload_run :: "recovery_event list" where
  "demo_overload_run = [RcBind (lit ''t1''), RcSchedule (lit ''t1'') (lit ''u1'') 10 (lit ''now'')]"

lemma demo_overload_pending:
  "rc_pending_attempt (foldl recovery_step initial_recovery demo_overload_run)
     = Some (make_attempt (lit ''t1'') (lit ''u1'') 1 (lit ''now'') 1)"
  by (simp add: demo_overload_run_def initial_recovery_def bind_root_thread_def schedule_recovery_def next_count_def Let_def)

theorem recovery_cancel_final_witness:
  "1 \<notin> set (admissions recovery_step recovery_admitted
       (recovery_step (foldl recovery_step initial_recovery demo_overload_run) RcDisconnect) [])"
  using recovery_cancel_final [OF refl demo_overload_pending, of RcDisconnect "[]"]
  by (simp add: cancels_def make_attempt_def)

theorem recovery_pending_legitimate_witness:
  "length (rc_observed (foldl recovery_step initial_recovery demo_overload_run)) \<le> 256"
  using recovery_pending_legitimate [OF refl, of demo_overload_run] by blast

end
