(* ===== verification/Context_Steering.thy ===== *)
theory Context_Steering
  imports Fenced_Dispatch Interaction_Pipeline
begin

section \<open>Steering at the context threshold\<close>

text \<open>
  \<^verbatim>\<open>src/rodex/context_threshold_steering.py\<close>. As for overload recovery, each critical section is
  one function on the state and a run is any interleaving of them; attempts and deferred calls
  carry the generation in which they were created as their identity, request identifiers are the
  fresh ones the caller draws, and the deferred-call factory is assumed to return. Percentages are
  exact rationals.
\<close>

definition CONTEXT_STEER_SOURCE :: pystr where
  "CONTEXT_STEER_SOURCE = lit ''context-threshold-steer''"

definition CONTEXT_BINDING_RETRY_DELAYS_SECONDS :: "rat list" where
  "CONTEXT_BINDING_RETRY_DELAYS_SECONDS = [1 / 4, 1, 2]"

record steer_attempt =
  sa_thread_id :: pystr
  sa_turn_id :: pystr
  sa_context_percent :: rat
  sa_threshold_percent :: rat
  sa_dispatch_id :: pystr
  sa_serial :: nat

record steering =
  cs_threshold_percent :: rat
  cs_message :: pystr
  cs_root_thread_id :: "pystr option"
  cs_registered_thread_id :: "pystr option"
  cs_connection_generation :: "pystr option"
  cs_dispatch_ready :: bool
  cs_active_turn_id :: "pystr option"
  cs_context_percent :: "rat option"
  cs_threshold_armed :: bool
  cs_binding_retry_count :: nat
  cs_compaction_ids :: "pystr set"
  cs_pending_attempt :: "steer_attempt option"
  cs_pending_call :: "nat option"
  cs_requests :: "(pystr, nat \<times> steer_attempt) dict"
  cs_admitted_ids :: "pystr set"
  cs_last_completed :: "pystr option"
  cs_generation :: nat
  cs_closed :: bool

text \<open>An \<^verbatim>\<open>int\<close> or a finite \<^verbatim>\<open>float\<close>, not a Boolean.\<close>

fun finite_number :: "json \<Rightarrow> rat option" where
  "finite_number (JInt i) = Some (of_int i)"
| "finite_number (JFloat (Finite q)) = Some q"
| "finite_number _ = None"

datatype steering_error = BadThreshold | BadMessage | BadThread | BadPercent

definition new_steering :: "json \<Rightarrow> pystr \<Rightarrow> steering_error + steering" where
  "new_steering threshold message =
     (case finite_number threshold of
        None \<Rightarrow> Inl BadThreshold
      | Some q \<Rightarrow>
          if \<not> (0 < q \<and> q \<le> 100) then Inl BadThreshold
          else if py_strip message = [] then Inl BadMessage
          else Inr
            \<lparr>cs_threshold_percent = q, cs_message = message, cs_root_thread_id = None, cs_registered_thread_id = None,
             cs_connection_generation = None, cs_dispatch_ready = False, cs_active_turn_id = None,
             cs_context_percent = None, cs_threshold_armed = True, cs_binding_retry_count = 0, cs_compaction_ids = {},
             cs_pending_attempt = None, cs_pending_call = None, cs_requests = [], cs_admitted_ids = {},
             cs_last_completed = None, cs_generation = 0, cs_closed = False\<rparr>)"

datatype steer_effect =
    SteerCancelCall nat
  | SteerStartCall steer_attempt nat rat
  | SteerLogFailed steer_attempt bool pystr
  | SteerLogDispatch steer_attempt bool delivery_status "rejection_reason option" bool
  | SteerLogScheduleFailed pystr

definition steer_clear :: "steering \<Rightarrow> steering" where
  "steer_clear s =
     s\<lparr>cs_generation := Suc (cs_generation s), cs_pending_attempt := None, cs_pending_call := None\<rparr>"

definition steer_cancel :: "steering \<Rightarrow> steer_effect list" where
  "steer_cancel s = (case cs_pending_call s of None \<Rightarrow> [] | Some c \<Rightarrow> [SteerCancelCall c])"

definition above_threshold :: "steering \<Rightarrow> bool" where
  "above_threshold s \<longleftrightarrow> (case cs_context_percent s of None \<Rightarrow> False | Some p \<Rightarrow> cs_threshold_percent s \<le> p)"

definition schedule_if_ready :: "rat \<Rightarrow> steering \<Rightarrow> steering \<times> steer_effect list" where
  "schedule_if_ready delay s =
     (if cs_closed s \<or> \<not> cs_dispatch_ready s \<or> cs_root_thread_id s = None \<or> cs_active_turn_id s = None
         \<or> \<not> above_threshold s \<or> \<not> cs_threshold_armed s \<or> cs_compaction_ids s \<noteq> {}
         \<or> cs_pending_attempt s \<noteq> None
      then (s, [])
      else
        let gen = Suc (cs_generation s);
            thread = the (cs_root_thread_id s);
            turn = the (cs_active_turn_id s);
            attempt = \<lparr>sa_thread_id = thread, sa_turn_id = turn, sa_context_percent = the (cs_context_percent s),
              sa_threshold_percent = cs_threshold_percent s,
              sa_dispatch_id = lit ''rodex:context-threshold:'' @ thread @ lit '':'' @ turn @ lit '':'' @ py_str_nat gen,
              sa_serial = gen\<rparr>
        in (s\<lparr>cs_generation := gen, cs_pending_attempt := Some attempt, cs_pending_call := Some gen\<rparr>,
            [SteerStartCall attempt gen delay]))"

subsection \<open>Bindings\<close>

definition steer_bind_root_thread :: "pystr \<Rightarrow> steering \<Rightarrow> steering \<times> (steering_error + steer_effect list)" where
  "steer_bind_root_thread thread_id s =
     (if thread_id = [] then (s, Inl BadThread)
      else if cs_closed s then (s, Inr [])
      else
        let ready = cs_root_thread_id s = Some thread_id \<and> cs_connection_generation s \<noteq> None;
            s1 = s\<lparr>cs_registered_thread_id := Some thread_id, cs_dispatch_ready := ready\<rparr>;
            s2 = (if ready then s1 else steer_clear s1)
        in case schedule_if_ready 0 s2 of
             (s3, effs) \<Rightarrow> (s3, Inr ((if ready then [] else steer_cancel s1) @ effs)))"

definition bind_primary_thread :: "pystr option \<Rightarrow> pystr option \<Rightarrow> steering \<Rightarrow> steering \<times> steer_effect list" where
  "bind_primary_thread thread_id connection s =
     (if cs_closed s \<or> thread_id = cs_root_thread_id s \<and> connection = cs_connection_generation s then (s, [])
      else
        ((steer_clear s)\<lparr>
           cs_threshold_armed :=
             (if thread_id \<noteq> None \<and> thread_id \<noteq> cs_registered_thread_id s then True else cs_threshold_armed s),
           cs_root_thread_id := thread_id, cs_connection_generation := connection,
           cs_dispatch_ready := (connection \<noteq> None \<and> thread_id \<noteq> None \<and> thread_id = cs_registered_thread_id s),
           cs_active_turn_id := None, cs_context_percent := None, cs_binding_retry_count := 0,
           cs_compaction_ids := {}\<rparr>, steer_cancel s))"

definition accept_binding :: "pystr \<Rightarrow> pystr option \<Rightarrow> steering \<Rightarrow> bool" where
  "accept_binding thread_id connection s \<longleftrightarrow>
     connection \<noteq> None \<and> connection = cs_connection_generation s \<and> cs_root_thread_id s = Some thread_id"

subsection \<open>Observations\<close>

definition turn_id_of :: "message \<Rightarrow> pystr option" where
  "turn_id_of params = as_id (jpath (jfield params ''turn'') ''id'')"

text \<open>A status type that is a list or an object makes the membership test raise in the code, before
  any change; here it is simply not one of the three names.\<close>

definition status_type :: "message \<Rightarrow> json" where
  "status_type params =
     (let status = (case jfield params ''thread'' of JDict t \<Rightarrow> jfield t ''status'' | _ \<Rightarrow> jfield params ''status'')
      in jpath status ''type'')"

definition observe_turn_started :: "pystr \<Rightarrow> steering \<Rightarrow> steering \<times> steer_effect list" where
  "observe_turn_started turn_id s =
     (let replaced = cs_active_turn_id s \<noteq> None \<and> cs_active_turn_id s \<noteq> Some turn_id;
          s1 = (if replaced then steer_clear s else s)
      in case schedule_if_ready 0 (s1\<lparr>cs_active_turn_id := Some turn_id\<rparr>) of
           (s2, effs) \<Rightarrow> (s2, (if replaced then steer_cancel s else []) @ effs))"

definition end_turn :: "steering \<Rightarrow> steering \<times> steer_effect list" where
  "end_turn s = ((steer_clear s)\<lparr>cs_active_turn_id := None, cs_compaction_ids := {}\<rparr>, steer_cancel s)"

definition observe_compaction :: "bool \<Rightarrow> pystr \<Rightarrow> steering \<Rightarrow> steering \<times> steer_effect list" where
  "observe_compaction started item_id s =
     (if started then
        ((steer_clear s)\<lparr>cs_compaction_ids := insert item_id (cs_compaction_ids s), cs_context_percent := None,
           cs_threshold_armed := False\<rparr>, steer_cancel s)
      else (s\<lparr>cs_compaction_ids := cs_compaction_ids s - {item_id}\<rparr>, []))"

definition observe_steer_event :: "message option \<Rightarrow> pystr option \<Rightarrow> steering \<Rightarrow> steering \<times> steer_effect list" where
  "observe_steer_event event connection s =
     (case event of
        None \<Rightarrow> (s, [])
      | Some ev \<Rightarrow>
          (case (jfield ev ''method'', jfield ev ''params'') of
             (JStr method, JDict params) \<Rightarrow>
               (case as_id (jfield params ''threadId'') of
                  None \<Rightarrow> (s, [])
                | Some thread_id \<Rightarrow>
                    if cs_closed s \<or> \<not> accept_binding thread_id connection s then (s, [])
                    else if method = lit ''turn/started'' then
                      (case turn_id_of params of None \<Rightarrow> (s, []) | Some turn_id \<Rightarrow> observe_turn_started turn_id s)
                    else if method = lit ''turn/completed'' then
                      (if cs_active_turn_id s = None \<or> turn_id_of params = cs_active_turn_id s then end_turn s
                       else (s, []))
                    else if method = lit ''thread/status/changed'' then
                      (if status_type params \<in> JStr ` set (map lit [''idle'', ''systemError'', ''notLoaded''])
                       then end_turn s else (s, []))
                    else if method = lit ''item/started'' \<or> method = lit ''item/completed'' then
                      (case jfield params ''item'' of
                         JDict item \<Rightarrow>
                           if jfield item ''type'' \<noteq> JStr (lit ''contextCompaction'') then (s, [])
                           else (case as_id (jfield item ''id'') of
                                   None \<Rightarrow> (s, [])
                                 | Some item_id \<Rightarrow> observe_compaction (method = lit ''item/started'') item_id s)
                       | _ \<Rightarrow> (s, []))
                    else (s, []))
           | _ \<Rightarrow> (s, [])))"

definition observe_context_percent ::
  "pystr \<Rightarrow> json \<Rightarrow> pystr option \<Rightarrow> steering \<Rightarrow> steering \<times> (steering_error + steer_effect list)" where
  "observe_context_percent thread_id percent connection s =
     (if thread_id = [] then (s, Inl BadThread)
      else case finite_number percent of
        None \<Rightarrow> (s, Inl BadPercent)
      | Some p \<Rightarrow>
          if p < 0 then (s, Inl BadPercent)
          else if cs_closed s \<or> \<not> accept_binding thread_id connection s \<or> cs_compaction_ids s \<noteq> {} then (s, Inr [])
          else
            let s1 = s\<lparr>cs_context_percent := Some p\<rparr> in
            if p < cs_threshold_percent s then
              ((steer_clear s1)\<lparr>cs_threshold_armed := True, cs_binding_retry_count := 0\<rparr>, Inr (steer_cancel s))
            else (case schedule_if_ready 0 s1 of (s2, effs) \<Rightarrow> (s2, Inr effs)))"

subsection \<open>Dispatch\<close>

definition steer_start_failed :: "nat \<Rightarrow> pystr \<Rightarrow> steering \<Rightarrow> steering \<times> steer_effect list" where
  "steer_start_failed call err s =
     (if cs_pending_call s = Some call then (steer_clear s)\<lparr>cs_threshold_armed := True\<rparr> else s,
      [SteerLogScheduleFailed err])"

definition steer_dispatch_begin :: "nat \<Rightarrow> steering \<Rightarrow> steering \<times> steer_attempt option" where
  "steer_dispatch_begin gen s =
     (if cs_closed s \<or> gen \<noteq> cs_generation s \<or> cs_pending_attempt s = None \<or> cs_pending_call s = None then (s, None)
      else (s\<lparr>cs_pending_call := None\<rparr>, cs_pending_attempt s))"

definition steer_request :: "steering \<Rightarrow> steer_attempt \<Rightarrow> pystr \<Rightarrow> interaction_request" where
  "steer_request s a request_id =
     \<lparr>req_target = lit ''main'', req_operation = OpSteer, req_source = CONTEXT_STEER_SOURCE,
      req_text = Some (cs_message s), req_start_model_turn = False, req_payload = PayloadNone,
      req_open_if_missing = False, req_size_percent = None, req_dispatch_id = Some (sa_dispatch_id a),
      req_expected_turn_id = Some (sa_turn_id a), req_expected_thread_id = Some (sa_thread_id a),
      req_expected_binding = None, req_request_id = request_id\<rparr>"

definition steer_dispatch_register :: "pystr \<Rightarrow> nat \<Rightarrow> steer_attempt \<Rightarrow> steering \<Rightarrow> steering \<times> bool" where
  "steer_dispatch_register request_id gen a s =
     (if cs_closed s \<or> gen \<noteq> cs_generation s \<or> cs_pending_attempt s \<noteq> Some a then (s, False)
      else (s\<lparr>cs_requests := dict_set request_id (gen, a) (cs_requests s)\<rparr>, True))"

datatype steer_refusal = SteerNoAdmission | SteerStale

definition steer_stale :: "steering \<Rightarrow> nat \<Rightarrow> steer_attempt \<Rightarrow> interaction_request \<Rightarrow> bool" where
  "steer_stale s gen a r \<longleftrightarrow>
     cs_closed s \<or> gen \<noteq> cs_generation s \<or> cs_pending_attempt s \<noteq> Some a \<or> \<not> cs_dispatch_ready s
     \<or> cs_root_thread_id s \<noteq> Some (sa_thread_id a) \<or> cs_active_turn_id s \<noteq> Some (sa_turn_id a)
     \<or> cs_compaction_ids s \<noteq> {} \<or> \<not> above_threshold s \<or> req_operation r \<noteq> OpSteer
     \<or> req_expected_thread_id r \<noteq> Some (sa_thread_id a) \<or> req_expected_turn_id r \<noteq> Some (sa_turn_id a)
     \<or> req_dispatch_id r \<noteq> Some (sa_dispatch_id a) \<or> req_text r \<noteq> Some (cs_message s)"

definition steer_admit_dispatch :: "interaction_request \<Rightarrow> steering \<Rightarrow> steering \<times> (steer_refusal + steer_attempt option)" where
  "steer_admit_dispatch r s =
     (if req_source r \<noteq> CONTEXT_STEER_SOURCE then (s, Inr None)
      else
        let s' = s\<lparr>cs_requests := dict_pop (req_request_id r) (cs_requests s)\<rparr> in
        case dict_get (cs_requests s) (req_request_id r) of
          None \<Rightarrow> (s', Inl SteerNoAdmission)
        | Some (gen, a) \<Rightarrow>
            if steer_stale s gen a r then (s', Inl SteerStale)
            else ((steer_clear s')\<lparr>cs_admitted_ids := insert (req_request_id r) (cs_admitted_ids s),
                    cs_threshold_armed := False\<rparr>, Inr (Some a)))"

datatype steer_outcome = SteerReturned "unit interaction_result" | SteerRaised pystr | SteerAborted

definition retryable :: "steering \<Rightarrow> bool \<Rightarrow> steer_outcome \<Rightarrow> bool" where
  "retryable s was_admitted outcome \<longleftrightarrow>
     \<not> was_admitted \<and>
     (case outcome of
        SteerReturned r \<Rightarrow> result_status r = DsRejected \<and> result_rejection_reason r = Some ReasonModelThreadUnbound
      | _ \<Rightarrow> False) \<and>
     cs_binding_retry_count s < length CONTEXT_BINDING_RETRY_DELAYS_SECONDS"

text \<open>The critical section of the \<^verbatim>\<open>finally\<close> block. If the attempt is still the pending one, it
  either retries a refusal that proves nothing was delivered, or gives up this crossing.\<close>

definition steer_settle :: "nat \<Rightarrow> steer_attempt \<Rightarrow> bool \<Rightarrow> steer_outcome \<Rightarrow> steering \<Rightarrow> steering \<times> steer_effect list" where
  "steer_settle gen a was_admitted outcome s =
     (if gen = cs_generation s \<and> cs_pending_attempt s = Some a then
        (if retryable s was_admitted outcome then
           schedule_if_ready (CONTEXT_BINDING_RETRY_DELAYS_SECONDS ! cs_binding_retry_count s)
             ((steer_clear s)\<lparr>cs_binding_retry_count := Suc (cs_binding_retry_count s)\<rparr>)
         else ((steer_clear s)\<lparr>cs_threshold_armed := False\<rparr>, []))
      else (s, []))"

definition steer_complete :: "steer_attempt \<Rightarrow> bool \<Rightarrow> steer_outcome \<Rightarrow> steering \<Rightarrow> steering" where
  "steer_complete a was_admitted outcome s =
     (case outcome of
        SteerReturned r \<Rightarrow>
          if was_admitted \<and> result_status r = DsCompleted
          then s\<lparr>cs_last_completed := Some (sa_dispatch_id a)\<rparr> else s
      | _ \<Rightarrow> s)"

definition steer_dispatch_end ::
  "pystr \<Rightarrow> nat \<Rightarrow> steer_attempt \<Rightarrow> steer_outcome \<Rightarrow> steering \<Rightarrow> steering \<times> bool \<times> steer_effect list" where
  "steer_dispatch_end request_id gen a outcome s =
     (let was_admitted = request_id \<in> cs_admitted_ids s;
          s1 = s\<lparr>cs_requests := dict_pop request_id (cs_requests s), cs_admitted_ids := cs_admitted_ids s - {request_id}\<rparr>
      in case steer_settle gen a was_admitted outcome s1 of
           (s2, effs) \<Rightarrow> (steer_complete a was_admitted outcome s2, was_admitted, effs))"

text \<open>What is logged after it, before a retry is started.\<close>

definition steer_dispatch_log :: "steer_attempt \<Rightarrow> bool \<Rightarrow> steer_outcome \<Rightarrow> steer_effect list \<Rightarrow> steer_effect list" where
  "steer_dispatch_log a was_admitted outcome retry =
     (case outcome of
        SteerRaised err \<Rightarrow> [SteerLogFailed a was_admitted err]
      | SteerReturned r \<Rightarrow>
          SteerLogDispatch a (was_admitted \<and> result_status r = DsCompleted) (result_status r)
            (result_rejection_reason r) (retry \<noteq> []) # retry
      | SteerAborted \<Rightarrow> [])"

definition steer_reset :: "steering \<Rightarrow> steering \<times> steer_effect list" where
  "steer_reset s =
     (if cs_closed s then (s, [])
      else ((steer_clear s)\<lparr>cs_root_thread_id := None, cs_connection_generation := None, cs_dispatch_ready := False,
              cs_active_turn_id := None, cs_context_percent := None, cs_compaction_ids := {}\<rparr>, steer_cancel s))"

definition steer_close :: "steering \<Rightarrow> steering \<times> steer_effect list" where
  "steer_close s =
     (if cs_closed s then (s, [])
      else ((steer_clear s)\<lparr>cs_closed := True, cs_active_turn_id := None, cs_context_percent := None,
              cs_compaction_ids := {}\<rparr>, steer_cancel s))"

record steering_snapshot =
  ss_root_thread_id :: "pystr option"
  ss_dispatch_ready :: bool
  ss_active_turn_id :: "pystr option"
  ss_context_percent :: "rat option"
  ss_threshold_armed :: bool
  ss_compacting :: bool
  ss_pending_turn_id :: "pystr option"
  ss_last_completed :: "pystr option"

definition steering_snapshot_of :: "steering \<Rightarrow> steering_snapshot" where
  "steering_snapshot_of s =
     \<lparr>ss_root_thread_id = cs_root_thread_id s, ss_dispatch_ready = cs_dispatch_ready s,
      ss_active_turn_id = cs_active_turn_id s, ss_context_percent = cs_context_percent s,
      ss_threshold_armed = cs_threshold_armed s, ss_compacting = (cs_compaction_ids s \<noteq> {}),
      ss_pending_turn_id = map_option sa_turn_id (cs_pending_attempt s), ss_last_completed = cs_last_completed s\<rparr>"

subsection \<open>Interleavings\<close>

datatype steer_event =
    CsBindRoot pystr
  | CsBindPrimary "pystr option" "pystr option"
  | CsProtocol "message option" "pystr option"
  | CsPercent pystr json "pystr option"
  | CsReset
  | CsClose
  | CsStartFailed nat pystr
  | CsDispatchBegin nat
  | CsDispatchRegister pystr nat steer_attempt
  | CsAdmit interaction_request
  | CsDispatchEnd pystr nat steer_attempt steer_outcome

fun steering_step :: "steering \<Rightarrow> steer_event \<Rightarrow> steering" where
  "steering_step s (CsBindRoot t) = fst (steer_bind_root_thread t s)"
| "steering_step s (CsBindPrimary t c) = fst (bind_primary_thread t c s)"
| "steering_step s (CsProtocol ev c) = fst (observe_steer_event ev c s)"
| "steering_step s (CsPercent t p c) = fst (observe_context_percent t p c s)"
| "steering_step s CsReset = fst (steer_reset s)"
| "steering_step s CsClose = fst (steer_close s)"
| "steering_step s (CsStartFailed call err) = fst (steer_start_failed call err s)"
| "steering_step s (CsDispatchBegin gen) = fst (steer_dispatch_begin gen s)"
| "steering_step s (CsDispatchRegister rid gen a) = fst (steer_dispatch_register rid gen a s)"
| "steering_step s (CsAdmit r) = fst (steer_admit_dispatch r s)"
| "steering_step s (CsDispatchEnd rid gen a outcome) = fst (steer_dispatch_end rid gen a outcome s)"

fun steer_admitted :: "steering \<Rightarrow> steer_event \<Rightarrow> nat option" where
  "steer_admitted s (CsAdmit r) =
     (case snd (steer_admit_dispatch r s) of Inr (Some a) \<Rightarrow> Some (sa_serial a) | _ \<Rightarrow> None)"
| "steer_admitted s _ = None"

text \<open>What a pending attempt requires of the state: it is of the current generation, and every
  condition under which it was scheduled still holds.\<close>

definition steer_live :: "steering \<Rightarrow> steer_attempt \<Rightarrow> bool" where
  "steer_live s a \<longleftrightarrow>
     sa_serial a = cs_generation s \<and> \<not> cs_closed s \<and> cs_dispatch_ready s \<and> cs_root_thread_id s = Some (sa_thread_id a) \<and>
     cs_active_turn_id s = Some (sa_turn_id a) \<and> above_threshold s \<and> cs_threshold_armed s \<and> cs_compaction_ids s = {}"

definition steering_inv :: "steering \<Rightarrow> bool" where
  "steering_inv s \<longleftrightarrow>
     (\<forall>a. cs_pending_attempt s = Some a \<longrightarrow> steer_live s a) \<and>
     (cs_pending_call s \<noteq> None \<longrightarrow> cs_pending_attempt s \<noteq> None) \<and>
     (cs_dispatch_ready s \<longrightarrow>
        cs_root_thread_id s \<noteq> None \<and> cs_root_thread_id s = cs_registered_thread_id s \<and>
        cs_connection_generation s \<noteq> None) \<and>
     cs_binding_retry_count s \<le> length CONTEXT_BINDING_RETRY_DELAYS_SECONDS"

lemma above_threshold_iff:
  "above_threshold s \<longleftrightarrow> (\<exists>p. cs_context_percent s = Some p \<and> cs_threshold_percent s \<le> p)"
  by (auto simp: above_threshold_def split: option.split)

lemmas steering_invs = steering_inv_def steer_live_def above_threshold_iff steer_clear_def

lemma schedule_if_ready_inv: "steering_inv s \<Longrightarrow> steering_inv (fst (schedule_if_ready d s))"
  by (auto simp: schedule_if_ready_def steering_inv_def steer_live_def Let_def above_threshold_iff split: option.splits)

lemma schedule_if_ready_armed: "cs_threshold_armed (fst (schedule_if_ready d s)) = cs_threshold_armed s"
  by (simp add: schedule_if_ready_def Let_def)

lemma schedule_if_ready_generation: "cs_generation s \<le> cs_generation (fst (schedule_if_ready d s))"
  by (simp add: schedule_if_ready_def Let_def)

lemma fst_case_pair [simp]: "fst (case p of (a, b) \<Rightarrow> (a, f a b)) = fst p"
  by (cases p) simp

lemma steer_bind_root_inv: "steering_inv s \<Longrightarrow> steering_inv (fst (steer_bind_root_thread t s))"
  by (auto simp: steer_bind_root_thread_def Let_def intro!: schedule_if_ready_inv)
     (auto simp: steering_invs split: option.splits)

lemma bind_primary_inv: "steering_inv s \<Longrightarrow> steering_inv (fst (bind_primary_thread t c s))"
  by (auto simp: bind_primary_thread_def steering_invs split: option.splits)

lemma turn_started_inv: "steering_inv s \<Longrightarrow> steering_inv (fst (observe_turn_started turn s))"
  by (auto simp: observe_turn_started_def Let_def intro!: schedule_if_ready_inv)
     (auto simp: steering_invs split: option.splits)

lemma end_turn_inv: "steering_inv s \<Longrightarrow> steering_inv (fst (end_turn s))"
  by (auto simp: end_turn_def steering_invs)

lemma compaction_inv: "steering_inv s \<Longrightarrow> steering_inv (fst (observe_compaction st i s))"
  by (auto simp: observe_compaction_def steering_invs split: option.splits)

text \<open>The outcomes of a protocol event.\<close>

lemma observe_steer_event_result:
  "observe_steer_event ev c s = (s, []) \<or> (\<exists>turn. observe_steer_event ev c s = observe_turn_started turn s) \<or>
   observe_steer_event ev c s = end_turn s \<or> (\<exists>st i. observe_steer_event ev c s = observe_compaction st i s)"
proof (cases ev)
  case (Some e)
  show ?thesis
  proof (cases "\<exists>meth params t. jfield e ''method'' = JStr meth \<and> jfield e ''params'' = JDict params \<and>
      as_id (jfield params ''threadId'') = Some t")
    case True
    then obtain meth params t where eq: "jfield e ''method'' = JStr meth" "jfield e ''params'' = JDict params"
      "as_id (jfield params ''threadId'') = Some t" by blast
    have "\<exists>st i. (case jfield params ''item'' of
           JDict item \<Rightarrow>
             if jfield item ''type'' \<noteq> JStr (lit ''contextCompaction'') then (s, [])
             else (case as_id (jfield item ''id'') of None \<Rightarrow> (s, [])
                   | Some item_id \<Rightarrow> observe_compaction (meth = lit ''item/started'') item_id s)
         | _ \<Rightarrow> (s, [])) \<in> {(s, []), observe_compaction st i s}"
      by (auto split: json.split option.split)
    then show ?thesis
      using Some eq unfolding observe_steer_event_def
      by (auto split: option.split)
  next
    case False
    then show ?thesis
      using Some by (cases "jfield e ''method''"; cases "jfield e ''params''")
        (auto simp: observe_steer_event_def split: option.split)
  qed
qed (simp add: observe_steer_event_def)

lemma observe_steer_event_cases:
  obtains "observe_steer_event ev c s = (s, [])"
  | turn where "observe_steer_event ev c s = observe_turn_started turn s"
  | "observe_steer_event ev c s = end_turn s"
  | st i where "observe_steer_event ev c s = observe_compaction st i s"
  using observe_steer_event_result [of ev c s] by blast

lemma observe_percent_cases:
  obtains "fst (observe_context_percent t p c s) = s"
  | q where "fst (observe_context_percent t p c s) =
        (steer_clear (s\<lparr>cs_context_percent := Some q\<rparr>))\<lparr>cs_threshold_armed := True, cs_binding_retry_count := 0\<rparr>"
      "q < cs_threshold_percent s" "finite_number p = Some q"
      "\<not> cs_closed s" "accept_binding t c s" "cs_compaction_ids s = {}"
  | q where "fst (observe_context_percent t p c s) = fst (schedule_if_ready 0 (s\<lparr>cs_context_percent := Some q\<rparr>))"
      "cs_threshold_percent s \<le> q"
proof (cases "t = [] \<or> finite_number p = None \<or> the (finite_number p) < 0 \<or> cs_closed s \<or> \<not> accept_binding t c s
    \<or> cs_compaction_ids s \<noteq> {}")
  case True
  then show thesis
    by (intro that(1)) (auto simp: observe_context_percent_def split: option.split)
next
  case False
  then obtain q where q: "finite_number p = Some q" by auto
  with False show thesis
    using that(2,3) [of q] by (cases "q < cs_threshold_percent s") (auto simp: observe_context_percent_def Let_def)
qed

lemma observe_percent_inv: "steering_inv s \<Longrightarrow> steering_inv (fst (observe_context_percent t p c s))"
  by (cases rule: observe_percent_cases [of t p c s])
     (auto intro!: schedule_if_ready_inv, auto simp: steering_invs split: option.splits)

lemma steer_event_inv: "steering_inv s \<Longrightarrow> steering_inv (fst (observe_steer_event ev c s))"
  by (cases rule: observe_steer_event_cases [of ev c s])
     (simp_all add: turn_started_inv end_turn_inv compaction_inv)

lemma steer_complete_fields [simp]:
  "cs_generation (steer_complete a w outcome s) = cs_generation s"
  "cs_threshold_armed (steer_complete a w outcome s) = cs_threshold_armed s"
  "steering_inv (steer_complete a w outcome s) = steering_inv s"
  by (auto simp: steer_complete_def steering_inv_def steer_live_def above_threshold_iff split: steer_outcome.split)

lemma steer_settle_inv: "steering_inv s \<Longrightarrow> steering_inv (fst (steer_settle gen a w outcome s))"
  by (auto simp: steer_settle_def retryable_def intro!: schedule_if_ready_inv)
     (auto simp: steering_invs split: option.splits)

lemma steer_settle_armed:
  "steering_inv s \<Longrightarrow> cs_threshold_armed (fst (steer_settle gen a w outcome s)) \<Longrightarrow> cs_threshold_armed s"
  by (auto simp: steer_settle_def schedule_if_ready_armed steer_clear_def split: if_splits)

lemma steer_settle_generation: "cs_generation s \<le> cs_generation (fst (steer_settle gen a w outcome s))"
  using schedule_if_ready_generation [of "(steer_clear s)\<lparr>cs_binding_retry_count := Suc (cs_binding_retry_count s)\<rparr>"]
  by (auto simp: steer_settle_def steer_clear_def intro: Suc_leD)

lemma fst_dispatch_end:
  "fst (steer_dispatch_end rid gen a outcome s) =
     steer_complete a (rid \<in> cs_admitted_ids s) outcome (fst (steer_settle gen a (rid \<in> cs_admitted_ids s) outcome
       (s\<lparr>cs_requests := dict_pop rid (cs_requests s), cs_admitted_ids := cs_admitted_ids s - {rid}\<rparr>)))"
  by (simp add: steer_dispatch_end_def Let_def split: prod.split)

lemma steer_requests_inv:
  "steering_inv (s\<lparr>cs_requests := r\<rparr>) = steering_inv s"
  "steering_inv (s\<lparr>cs_requests := r, cs_admitted_ids := i\<rparr>) = steering_inv s"
  by (auto simp: steering_inv_def steer_live_def above_threshold_iff)

lemma steer_admit_cases:
  obtains "steer_admit_dispatch r s = (s, Inr None)"
  | x where "steer_admit_dispatch r s = (s\<lparr>cs_requests := dict_pop (req_request_id r) (cs_requests s)\<rparr>, Inl x)"
  | gen a where "steer_admit_dispatch r s =
        ((steer_clear (s\<lparr>cs_requests := dict_pop (req_request_id r) (cs_requests s)\<rparr>))\<lparr>
           cs_admitted_ids := insert (req_request_id r) (cs_admitted_ids s), cs_threshold_armed := False\<rparr>, Inr (Some a))"
      "\<not> steer_stale s gen a r" "req_source r = CONTEXT_STEER_SOURCE"
proof (cases "req_source r = CONTEXT_STEER_SOURCE")
  case True
  show thesis
  proof (cases "dict_get (cs_requests s) (req_request_id r)")
    case None
    with True show thesis by (intro that(2)) (simp add: steer_admit_dispatch_def Let_def)
  next
    case (Some p)
    obtain gen a where "p = (gen, a)" by fastforce
    with True Some that(2) [of SteerStale] that(3) [of a gen] show thesis
      by (cases "steer_stale s gen a r") (simp_all add: steer_admit_dispatch_def Let_def)
  qed
qed (use that(1) in \<open>simp add: steer_admit_dispatch_def\<close>)

lemma steer_admit_inv: "steering_inv s \<Longrightarrow> steering_inv (fst (steer_admit_dispatch r s))"
  by (cases rule: steer_admit_cases [of r s]) (simp_all add: steer_requests_inv, auto simp: steering_invs)

lemma steering_step_inv: "steering_inv s \<Longrightarrow> steering_inv (steering_step s e)"
proof (cases e)
  case (CsStartFailed call err)
  assume "steering_inv s"
  with CsStartFailed show ?thesis by (auto simp: steer_start_failed_def steering_invs split: option.splits)
next
  case (CsDispatchBegin g)
  assume "steering_inv s"
  with CsDispatchBegin show ?thesis by (auto simp: steer_dispatch_begin_def steering_invs split: option.splits)
next
  case CsReset
  assume "steering_inv s"
  with CsReset show ?thesis by (auto simp: steer_reset_def steering_invs split: option.splits)
next
  case CsClose
  assume "steering_inv s"
  with CsClose show ?thesis by (auto simp: steer_close_def steering_invs split: option.splits)
qed (simp_all add: steer_bind_root_inv bind_primary_inv steer_event_inv observe_percent_inv steer_admit_inv
    steer_dispatch_register_def steer_requests_inv fst_dispatch_end steer_settle_inv)

lemma steering_generation_step: "cs_generation s \<le> cs_generation (steering_step s e)"
proof (cases e)
  case (CsBindRoot t)
  then show ?thesis
    using schedule_if_ready_generation [of _ 0]
    by (auto simp: steer_bind_root_thread_def Let_def steer_clear_def intro: order_trans [OF _ schedule_if_ready_generation])
next
  case (CsProtocol ev c)
  then show ?thesis
    by (cases rule: observe_steer_event_cases [of ev c s])
       (auto simp: observe_turn_started_def end_turn_def observe_compaction_def steer_clear_def Let_def
         intro: order_trans [OF _ schedule_if_ready_generation])
next
  case (CsPercent t p c)
  then show ?thesis
    by (cases rule: observe_percent_cases [of t p c s])
       (auto simp: steer_clear_def intro: order_trans [OF _ schedule_if_ready_generation])
next
  case (CsAdmit r)
  then show ?thesis by (cases rule: steer_admit_cases [of r s]) (simp_all add: steer_clear_def)
next
  case (CsDispatchEnd rid gen a outcome)
  then show ?thesis
    using steer_settle_generation
      [of "s\<lparr>cs_requests := dict_pop rid (cs_requests s), cs_admitted_ids := cs_admitted_ids s - {rid}\<rparr>"]
    by (simp add: fst_dispatch_end)
qed (simp_all add: bind_primary_thread_def steer_reset_def steer_close_def steer_start_failed_def steer_dispatch_begin_def
    steer_dispatch_register_def steer_clear_def)

lemma steer_admittedD:
  assumes "steer_admitted s e = Some g"
  obtains r gen a where "e = CsAdmit r" "g = sa_serial a" "\<not> steer_stale s gen a r"
    "cs_generation (steering_step s e) = Suc (cs_generation s)" "\<not> cs_threshold_armed (steering_step s e)"
proof (cases e)
  case (CsAdmit r)
  then show thesis
    using assms that by (cases rule: steer_admit_cases [of r s]) (auto simp: steer_clear_def)
qed (use assms in simp_all)

lemma not_stale_pending: "\<not> steer_stale s gen a r \<Longrightarrow> cs_pending_attempt s = Some a"
  by (simp add: steer_stale_def)

interpretation steering: fenced_dispatch steering_step steering_inv cs_generation steer_admitted
proof
  fix s e g
  assume i: "steering_inv s"
  show "steering_inv (steering_step s e)" using i by (rule steering_step_inv)
  show "cs_generation s \<le> cs_generation (steering_step s e)" by (rule steering_generation_step)
  assume a: "steer_admitted s e = Some g"
  show "g = cs_generation s"
    by (rule steer_admittedD [OF a]) (use i in \<open>auto simp: steering_inv_def steer_live_def dest: not_stale_pending\<close>)
  show "cs_generation s < cs_generation (steering_step s e)"
    by (rule steer_admittedD [OF a]) simp
qed

lemma new_steering_inv: "new_steering threshold msg = Inr s \<Longrightarrow> steering_inv s"
  by (auto simp: new_steering_def steering_inv_def split: option.splits if_splits)

subsection \<open>Crossings\<close>

text \<open>The observations that begin a new crossing: a percentage below the threshold, accepted for the
  bound thread outside a compaction, and the selection of a thread that is not the registered one.\<close>

definition rearms :: "steering \<Rightarrow> steer_event \<Rightarrow> bool" where
  "rearms s e \<longleftrightarrow>
     (case e of
        CsBindPrimary t c \<Rightarrow>
          \<not> cs_closed s \<and> t \<noteq> None \<and> t \<noteq> cs_registered_thread_id s \<and>
          \<not> (t = cs_root_thread_id s \<and> c = cs_connection_generation s)
      | CsPercent t p c \<Rightarrow>
          \<not> cs_closed s \<and> accept_binding t c s \<and> cs_compaction_ids s = {} \<and>
          (\<exists>q. finite_number p = Some q \<and> q < cs_threshold_percent s)
      | _ \<Rightarrow> False)"

lemma steering_stays_disarmed:
  assumes "steering_inv s" "\<not> cs_threshold_armed s" "\<not> rearms s e"
  shows "\<not> cs_threshold_armed (steering_step s e)"
proof (cases e)
  case (CsBindRoot t)
  with assms(2) show ?thesis
    by (simp add: steer_bind_root_thread_def Let_def schedule_if_ready_armed steer_clear_def)
next
  case (CsBindPrimary t c)
  with assms(2,3) show ?thesis
    by (auto simp: bind_primary_thread_def rearms_def steer_clear_def)
next
  case (CsProtocol ev c)
  with assms(2) show ?thesis
    by (cases rule: observe_steer_event_cases [of ev c s])
       (simp_all add: observe_turn_started_def end_turn_def observe_compaction_def steer_clear_def Let_def
         schedule_if_ready_armed)
next
  case (CsPercent t p c)
  with assms(2,3) show ?thesis
    by (cases rule: observe_percent_cases [of t p c s]) (auto simp: rearms_def schedule_if_ready_armed)
next
  case (CsStartFailed call err)
  have "cs_pending_call s = None"
    using assms(1,2) by (auto simp: steering_inv_def steer_live_def)
  with CsStartFailed assms(2) show ?thesis by (simp add: steer_start_failed_def)
next
  case (CsAdmit r)
  with assms(2) show ?thesis by (cases rule: steer_admit_cases [of r s]) (simp_all add: steer_clear_def)
next
  case (CsDispatchEnd rid gen a outcome)
  let ?s1 = "s\<lparr>cs_requests := dict_pop rid (cs_requests s), cs_admitted_ids := cs_admitted_ids s - {rid}\<rparr>"
  have "steering_inv ?s1" using assms(1) by (simp add: steer_requests_inv)
  from steer_settle_armed [OF this] CsDispatchEnd assms(2) show ?thesis
    by (auto simp: fst_dispatch_end)
qed (use assms(2) in \<open>simp_all add: steer_reset_def steer_close_def steer_dispatch_begin_def steer_dispatch_register_def
    steer_clear_def\<close>)

lemma disarmed_run:
  assumes "steering_inv s" "\<not> cs_threshold_armed s" "cs_threshold_armed (foldl steering_step s es)"
  shows "\<exists>es\<^sub>1 e es\<^sub>2. es = es\<^sub>1 @ e # es\<^sub>2 \<and> rearms (foldl steering_step s es\<^sub>1) e"
  using assms
proof (induction es arbitrary: s)
  case (Cons e es)
  show ?case
  proof (cases "rearms s e")
    case True
    then show ?thesis by (intro exI [of _ "[]"]) simp
  next
    case False
    with Cons.prems have "\<not> cs_threshold_armed (steering_step s e)" by (intro steering_stays_disarmed)
    from Cons.IH [OF steering_step_inv [OF Cons.prems(1)] this] Cons.prems(3) obtain es\<^sub>1 x es\<^sub>2 where
      "es = es\<^sub>1 @ x # es\<^sub>2" "rearms (foldl steering_step (steering_step s e) es\<^sub>1) x" by auto
    then show ?thesis by (intro exI [of _ "e # es\<^sub>1"]) auto
  qed
qed simp

text \<open>
  Property C17. At most one steer per crossing: if a steer was admitted and, after any
  interleaving of further critical sections (retries, reconnections, compactions, late timers
  included), another one is admitted, then in between the context was observed below the
  threshold, or another thread than the registered one was selected.
\<close>

theorem one_steer_per_crossing:
  assumes "new_steering threshold msg = Inr s0" and "s = foldl steering_step s0 es"
    and "steer_admitted s e = Some g" and "steer_admitted (foldl steering_step (steering_step s e) es') e' = Some g'"
  shows "\<exists>es\<^sub>1 x es\<^sub>2. es' = es\<^sub>1 @ x # es\<^sub>2 \<and> rearms (foldl steering_step (steering_step s e) es\<^sub>1) x"
proof (rule disarmed_run)
  show i: "steering_inv (steering_step s e)"
    unfolding assms(2) by (intro steering_step_inv steering.run_inv new_steering_inv [OF assms(1)])
  show "\<not> cs_threshold_armed (steering_step s e)"
    by (rule steer_admittedD [OF assms(3)]) simp
  have "steering_inv (foldl steering_step (steering_step s e) es')" by (rule steering.run_inv [OF i])
  then show "cs_threshold_armed (foldl steering_step (steering_step s e) es')"
    by (rule_tac steer_admittedD [OF assms(4)])
       (auto simp: steering_inv_def steer_live_def dest: not_stale_pending)
qed

text \<open>
  An admitted steer has full authority: in every reachable state, an admitted
  request is a steer with the configured message, addressed to the registered main thread of the
  live connection and to its active turn, while the context is at or above the threshold and no
  compaction is running.
\<close>

theorem steer_authority:
  assumes "new_steering threshold msg = Inr s0" and "s = foldl steering_step s0 es"
    and "steer_admitted s (CsAdmit r) = Some g"
  shows "req_operation r = OpSteer \<and> req_text r = Some (cs_message s) \<and> \<not> cs_closed s \<and>
    req_expected_thread_id r \<noteq> None \<and> req_expected_thread_id r = cs_registered_thread_id s \<and>
    cs_root_thread_id s = cs_registered_thread_id s \<and> cs_connection_generation s \<noteq> None \<and>
    req_expected_turn_id r \<noteq> None \<and> req_expected_turn_id r = cs_active_turn_id s \<and>
    (\<exists>p. cs_context_percent s = Some p \<and> cs_threshold_percent s \<le> p) \<and> cs_compaction_ids s = {}"
proof -
  have i: "steering_inv s"
    unfolding assms(2) by (rule steering.run_inv [OF new_steering_inv [OF assms(1)]])
  obtain gen a where "\<not> steer_stale s gen a r"
    by (rule steer_admittedD [OF assms(3)]) auto
  then have a: "cs_dispatch_ready s" "cs_root_thread_id s = Some (sa_thread_id a)"
    "req_expected_thread_id r = Some (sa_thread_id a)" "req_expected_turn_id r = Some (sa_turn_id a)"
    "cs_active_turn_id s = Some (sa_turn_id a)" "\<not> cs_closed s" "above_threshold s" "cs_compaction_ids s = {}"
    "req_operation r = OpSteer" "req_text r = Some (cs_message s)"
    by (simp_all add: steer_stale_def)
  moreover have "cs_registered_thread_id s = Some (sa_thread_id a)" "cs_connection_generation s \<noteq> None"
    using i a(1,2) by (auto simp: steering_inv_def)
  ultimately show ?thesis by (simp add: above_threshold_iff)
qed

text \<open>
  Attempts are admitted in order and at most once: in every interleaving the
  generations of the admitted steers strictly increase, and whatever advances the generation
  (a new turn, a disconnect, a compaction, closing) withdraws the pending attempt for good.
\<close>

theorem steer_admitted_once:
  assumes "new_steering threshold msg = Inr s0"
  shows "sorted_wrt (<) (admissions steering_step steer_admitted s0 es) \<and>
    (\<forall>a e es'. cs_pending_attempt (foldl steering_step s0 es) = Some a \<longrightarrow>
       cs_generation (foldl steering_step s0 es) < cs_generation (foldl steering_step s0 (es @ [e])) \<longrightarrow>
       sa_serial a \<notin> set (admissions steering_step steer_admitted (foldl steering_step s0 (es @ [e])) es'))"
proof (intro conjI allI impI notI)
  note i = new_steering_inv [OF assms]
  show "sorted_wrt (<) (admissions steering_step steer_admitted s0 es)"
    by (rule steering.admissions_increasing [OF i])
  fix a e es'
  assume p: "cs_pending_attempt (foldl steering_step s0 es) = Some a"
    and g: "cs_generation (foldl steering_step s0 es) < cs_generation (foldl steering_step s0 (es @ [e]))"
    and m: "sa_serial a \<in> set (admissions steering_step steer_admitted (foldl steering_step s0 (es @ [e])) es')"
  have "steering_inv (foldl steering_step s0 es)" by (rule steering.run_inv [OF i])
  with p have "sa_serial a = cs_generation (foldl steering_step s0 es)"
    by (simp add: steering_inv_def steer_live_def)
  with steering.admissions_after_fence [OF i g m] show False by simp
qed

subsection \<open>Witnesses\<close>

definition demo_steering :: steering where
  "demo_steering =
     \<lparr>cs_threshold_percent = 70, cs_message = lit ''go'', cs_root_thread_id = None, cs_registered_thread_id = None,
      cs_connection_generation = None, cs_dispatch_ready = False, cs_active_turn_id = None,
      cs_context_percent = None, cs_threshold_armed = True, cs_binding_retry_count = 0, cs_compaction_ids = {},
      cs_pending_attempt = None, cs_pending_call = None, cs_requests = [], cs_admitted_ids = {},
      cs_last_completed = None, cs_generation = 0, cs_closed = False\<rparr>"

lemma demo_steering_new: "new_steering (JInt 70) (lit ''go'') = Inr demo_steering"
  by (simp add: new_steering_def demo_steering_def py_strip_go)

definition demo_turn_started :: message where
  "demo_turn_started = [(lit ''method'', JStr (lit ''turn/started'')),
     (lit ''params'', JDict [(lit ''threadId'', JStr (lit ''t1'')), (lit ''turn'', JDict [(lit ''id'', JStr (lit ''u1''))])])]"

definition demo_attempt :: "rat \<Rightarrow> nat \<Rightarrow> steer_attempt" where
  "demo_attempt p gen =
     \<lparr>sa_thread_id = lit ''t1'', sa_turn_id = lit ''u1'', sa_context_percent = p, sa_threshold_percent = 70,
      sa_dispatch_id = lit ''rodex:context-threshold:'' @ lit ''t1'' @ lit '':'' @ lit ''u1'' @ lit '':'' @ py_str_nat gen,
      sa_serial = gen\<rparr>"

definition demo_steer_run :: "steer_event list" where
  "demo_steer_run =
     [CsBindRoot (lit ''t1''), CsBindPrimary (Some (lit ''t1'')) (Some (lit ''c1'')),
      CsProtocol (Some demo_turn_started) (Some (lit ''c1'')), CsPercent (lit ''t1'') (JInt 80) (Some (lit ''c1'')),
      CsDispatchBegin 3, CsDispatchRegister (lit ''r1'') 3 (demo_attempt 80 3)]"

definition demo_steer_rerun :: "steer_event list" where
  "demo_steer_rerun =
     [CsPercent (lit ''t1'') (JInt 10) (Some (lit ''c1'')), CsPercent (lit ''t1'') (JInt 90) (Some (lit ''c1'')),
      CsDispatchBegin 6, CsDispatchRegister (lit ''r2'') 6 (demo_attempt 90 6)]"

definition demo_steer_request :: "rat \<Rightarrow> nat \<Rightarrow> pystr \<Rightarrow> interaction_request" where
  "demo_steer_request p gen rid = steer_request demo_steering (demo_attempt p gen) rid"

lemmas steer_eval = steer_bind_root_thread_def bind_primary_thread_def observe_steer_event_def observe_context_percent_def
  schedule_if_ready_def steer_clear_def above_threshold_def accept_binding_def turn_id_of_def observe_turn_started_def
  steer_dispatch_begin_def steer_dispatch_register_def demo_turn_started_def as_id_def jpath_def jfield_def Let_def

lemma demo_steer_state:
  "foldl steering_step demo_steering demo_steer_run =
     demo_steering\<lparr>cs_root_thread_id := Some (lit ''t1''), cs_registered_thread_id := Some (lit ''t1''),
       cs_connection_generation := Some (lit ''c1''), cs_dispatch_ready := True, cs_active_turn_id := Some (lit ''u1''),
       cs_context_percent := Some 80, cs_pending_attempt := Some (demo_attempt 80 3),
       cs_requests := [(lit ''r1'', (3, demo_attempt 80 3))], cs_generation := 3\<rparr>"
  by (simp add: demo_steer_run_def demo_steering_def steer_eval demo_attempt_def numeral_3_eq_3)

lemma demo_steer_admit:
  "steer_admitted (foldl steering_step demo_steering demo_steer_run) (CsAdmit (demo_steer_request 80 3 (lit ''r1''))) = Some 3"
  unfolding demo_steer_state
  by (simp add: demo_steer_request_def steer_request_def steer_admit_dispatch_def steer_stale_def
      demo_steering_def above_threshold_def Let_def demo_attempt_def)

lemma demo_steer_consumed:
  "steering_step (foldl steering_step demo_steering demo_steer_run) (CsAdmit (demo_steer_request 80 3 (lit ''r1''))) =
     demo_steering\<lparr>cs_root_thread_id := Some (lit ''t1''), cs_registered_thread_id := Some (lit ''t1''),
       cs_connection_generation := Some (lit ''c1''), cs_dispatch_ready := True, cs_active_turn_id := Some (lit ''u1''),
       cs_context_percent := Some 80, cs_threshold_armed := False, cs_admitted_ids := {lit ''r1''}, cs_generation := 4\<rparr>"
  unfolding demo_steer_state
  by (simp add: demo_steer_request_def steer_request_def steer_admit_dispatch_def steer_stale_def steer_clear_def
      demo_steering_def above_threshold_def Let_def demo_attempt_def dict_pop_def)

lemma demo_steer_restate:
  "foldl steering_step (steering_step (foldl steering_step demo_steering demo_steer_run)
      (CsAdmit (demo_steer_request 80 3 (lit ''r1'')))) demo_steer_rerun =
     demo_steering\<lparr>cs_root_thread_id := Some (lit ''t1''), cs_registered_thread_id := Some (lit ''t1''),
       cs_connection_generation := Some (lit ''c1''), cs_dispatch_ready := True, cs_active_turn_id := Some (lit ''u1''),
       cs_context_percent := Some 90, cs_admitted_ids := {lit ''r1''}, cs_pending_attempt := Some (demo_attempt 90 6),
       cs_requests := [(lit ''r2'', (6, demo_attempt 90 6))], cs_generation := 6\<rparr>"
  unfolding demo_steer_consumed
  by (simp add: demo_steer_rerun_def demo_steering_def steer_eval demo_attempt_def)

lemma demo_steer_again:
  "steer_admitted (foldl steering_step (steering_step (foldl steering_step demo_steering demo_steer_run)
      (CsAdmit (demo_steer_request 80 3 (lit ''r1'')))) demo_steer_rerun) (CsAdmit (demo_steer_request 90 6 (lit ''r2''))) = Some 6"
  unfolding demo_steer_restate
  by (simp add: demo_steer_request_def steer_request_def steer_admit_dispatch_def steer_stale_def
      demo_steering_def above_threshold_def Let_def demo_attempt_def)

theorem one_steer_per_crossing_witness:
  "\<exists>es\<^sub>1 x es\<^sub>2. demo_steer_rerun = es\<^sub>1 @ x # es\<^sub>2 \<and>
     rearms (foldl steering_step (steering_step (foldl steering_step demo_steering demo_steer_run)
       (CsAdmit (demo_steer_request 80 3 (lit ''r1'')))) es\<^sub>1) x"
  by (rule one_steer_per_crossing [OF demo_steering_new refl demo_steer_admit demo_steer_again])

theorem steer_authority_witness:
  "req_expected_thread_id (demo_steer_request 80 3 (lit ''r1'')) =
     cs_registered_thread_id (foldl steering_step demo_steering demo_steer_run)"
  using steer_authority [OF demo_steering_new refl demo_steer_admit] by blast

theorem steer_admitted_once_witness:
  "sorted_wrt (<) (admissions steering_step steer_admitted demo_steering demo_steer_run)"
  using steer_admitted_once [OF demo_steering_new, of demo_steer_run] by blast

end
