(* ===== verification/Lookup_Table.thy ===== *)
theory Lookup_Table
  imports Prelude
begin

section \<open>Natural-key lookup tables\<close>

text \<open>
  \<^verbatim>\<open>src/rodex_sql/lookups.py\<close> and \<^verbatim>\<open>src/rodex_sql/index_retry.py\<close> over a table with an
  \<^verbatim>\<open>INTEGER PRIMARY KEY AUTOINCREMENT\<close> identifier and a unique index on its key columns. A table is
  the list of its rows \<open>(id, key, payload)\<close> and the largest identifier ever issued; an insert whose
  key is present is the integrity error that the unique index raises. All statements run inside one
  transaction of the caller, so a table operation is a function.
\<close>

record ('k, 'p) lookup_rows =
  rows :: "(nat \<times> 'k \<times> 'p) list"
  sequence :: nat

definition empty_rows :: "('k, 'p) lookup_rows" where
  "empty_rows = \<lparr>rows = [], sequence = 0\<rparr>"

text \<open>\<^verbatim>\<open>SELECT id FROM t WHERE key = ?\<close>, then \<^verbatim>\<open>fetchone\<close>.\<close>

definition select_lookup_id :: "('k, 'p) lookup_rows \<Rightarrow> 'k \<Rightarrow> nat option" where
  "select_lookup_id t k = map_option fst (List.find (\<lambda>(_, k', _). k' = k) (rows t))"

definition select_payload :: "('k, 'p) lookup_rows \<Rightarrow> nat \<Rightarrow> 'p option" where
  "select_payload t i = map_option (\<lambda>(_, _, p). p) (List.find (\<lambda>(i', _, _). i' = i) (rows t))"

definition insert_row :: "('k, 'p) lookup_rows \<Rightarrow> 'k \<Rightarrow> 'p \<Rightarrow> (('k, 'p) lookup_rows \<times> nat) option" where
  "insert_row t k p =
     (if k \<in> set (map (\<lambda>(_, k', _). k') (rows t)) then None
      else Some (\<lparr>rows = rows t @ [(Suc (sequence t), k, p)], sequence = Suc (sequence t)\<rparr>, Suc (sequence t)))"

definition select_or_insert_lookup_id :: "('k, 'p) lookup_rows \<Rightarrow> 'k \<Rightarrow> 'p \<Rightarrow> (('k, 'p) lookup_rows \<times> nat) option" where
  "select_or_insert_lookup_id t k p =
     (case select_lookup_id t k of Some i \<Rightarrow> Some (t, i) | None \<Rightarrow> insert_row t k p)"

definition table_inv :: "('k, 'p) lookup_rows \<Rightarrow> bool" where
  "table_inv t \<longleftrightarrow>
     distinct (map (\<lambda>(_, k, _). k) (rows t)) \<and> distinct (map fst (rows t)) \<and>
     (\<forall>i \<in> set (map fst (rows t)). 1 \<le> i \<and> i \<le> sequence t)"

subsection \<open>The contract\<close>

text \<open>What the clients of a lookup table rely on.\<close>

locale unique_lookup =
  fixes tinv :: "'t \<Rightarrow> bool"
    and select :: "'t \<Rightarrow> 'k \<Rightarrow> nat option"
    and payload_of :: "'t \<Rightarrow> nat \<Rightarrow> 'p option"
    and ins :: "'t \<Rightarrow> 'k \<Rightarrow> 'p \<Rightarrow> ('t \<times> nat) option"
  assumes ins_None: "tinv t \<Longrightarrow> ins t k p = None \<longleftrightarrow> select t k \<noteq> None"
    and ins_inv: "tinv t \<Longrightarrow> ins t k p = Some (t', i) \<Longrightarrow> tinv t'"
    and select_ins: "tinv t \<Longrightarrow> ins t k p = Some (t', i) \<Longrightarrow> select t' = (select t)(k \<mapsto> i)"
    and payload_ins: "tinv t \<Longrightarrow> ins t k p = Some (t', i) \<Longrightarrow> payload_of t' = (payload_of t)(i \<mapsto> p)"
    and fresh_ins: "tinv t \<Longrightarrow> ins t k p = Some (t', i) \<Longrightarrow> select t k' \<noteq> Some i \<and> payload_of t i = None"
    and select_payload: "tinv t \<Longrightarrow> select t k = Some i \<Longrightarrow> payload_of t i \<noteq> None"
begin

lemma ins_absent: "tinv t \<Longrightarrow> select t k = None \<Longrightarrow> \<exists>t' i. ins t k p = Some (t', i)"
  using ins_None [of t k p] by fastforce

lemma ins_keeps_others:
  assumes "tinv t" "ins t k p = Some (t', i)" "select t k' = Some j"
  shows "select t' k' = Some j \<and> payload_of t' j = payload_of t j"
proof -
  have "select t k = None" using assms(1,2) ins_None [of t k p] by auto
  with assms(3) have "k' \<noteq> k" by auto
  moreover have "j \<noteq> i" using fresh_ins [OF assms(1,2), of k'] assms(3) by auto
  ultimately show ?thesis
    using select_ins [OF assms(1,2)] payload_ins [OF assms(1,2)] assms(3) by simp
qed

end

lemma find_key:
  "distinct (map (\<lambda>(_, k, _). k) rs) \<Longrightarrow> (i, k, p) \<in> set rs \<Longrightarrow> List.find (\<lambda>(_, k', _). k' = k) rs = Some (i, k, p)"
  by (induction rs) force+

lemma find_append: "List.find P (xs @ ys) = (case List.find P xs of None \<Rightarrow> List.find P ys | Some x \<Rightarrow> Some x)"
  by (induction xs) auto

lemma select_None_iff: "select_lookup_id t k = None \<longleftrightarrow> k \<notin> set (map (\<lambda>(_, k', _). k') (rows t))"
  by (force simp: select_lookup_id_def find_None_iff)

lemma select_Some_in: "select_lookup_id t k = Some i \<Longrightarrow> \<exists>p. (i, k, p) \<in> set (rows t)"
  by (auto simp: select_lookup_id_def find_Some_iff in_set_conv_nth) (metis nth_mem)

lemma select_payload_None_iff: "select_payload t i = None \<longleftrightarrow> i \<notin> set (map fst (rows t))"
  by (force simp: select_payload_def find_None_iff)

interpretation lookup_rows: unique_lookup table_inv select_lookup_id select_payload insert_row
proof
  fix t t' :: "('k, 'p) lookup_rows" and k k' p i
  assume inv: "table_inv t"
  show "insert_row t k p = None \<longleftrightarrow> select_lookup_id t k \<noteq> None"
    by (simp add: insert_row_def select_None_iff)
  show "select_payload t i \<noteq> None" if "select_lookup_id t k = Some i"
    using select_Some_in [OF that] unfolding select_payload_None_iff by force
  assume ins: "insert_row t k p = Some (t', i)"
  then have k: "k \<notin> set (map (\<lambda>(_, k', _). k') (rows t))" and i: "i = Suc (sequence t)"
    and t': "t' = \<lparr>rows = rows t @ [(i, k, p)], sequence = i\<rparr>"
    by (auto simp: insert_row_def split: if_splits)
  have fresh: "i \<notin> set (map fst (rows t))" using inv i by (auto simp: table_inv_def)
  show "table_inv t'" using inv k fresh by (auto simp: table_inv_def t' i)
  have "select_lookup_id t k = None" using k by (simp add: select_None_iff)
  then show "select_lookup_id t' = (select_lookup_id t)(k \<mapsto> i)"
    by (auto simp: fun_eq_iff t' select_lookup_id_def find_append split: option.split)
  have "select_payload t i = None" using fresh by (simp add: select_payload_None_iff)
  then show "select_payload t' = (select_payload t)(i \<mapsto> p)"
    by (auto simp: fun_eq_iff t' select_payload_def find_append split: option.split)
  show "select_lookup_id t k' \<noteq> Some i \<and> select_payload t i = None"
    using fresh unfolding select_payload_None_iff by (force dest: select_Some_in)
qed

lemma empty_rows_inv: "table_inv empty_rows"
  by (simp add: table_inv_def empty_rows_def)

lemma select_or_insert_select:
  assumes "table_inv t"
  obtains t' i where "select_or_insert_lookup_id t k p = Some (t', i)" "select_lookup_id t' k = Some i" "table_inv t'"
proof (cases "select_lookup_id t k")
  case (Some i)
  with assms show thesis by (intro that [of t i]) (simp_all add: select_or_insert_lookup_id_def)
next
  case None
  with lookup_rows.ins_absent [OF assms] obtain t' i where ins: "insert_row t k p = Some (t', i)" by blast
  with None show thesis
    using that [of t' i] lookup_rows.select_ins [OF assms ins] lookup_rows.ins_inv [OF assms ins]
    by (simp add: select_or_insert_lookup_id_def)
qed

subsection \<open>Retry policy\<close>

definition INDEX_RE_TRY_ATTEMPTS :: nat where
  "INDEX_RE_TRY_ATTEMPTS = 10"

definition index_re_try_attempt_numbers :: "nat list" where
  "index_re_try_attempt_numbers = [1..<INDEX_RE_TRY_ATTEMPTS + 1]"

end
