(* ===== verification/Cool_Names.thy ===== *)
theory Cool_Names
  imports Lookup_Table Codex_Cli Protocol_Input_Text
begin

section \<open>Human-friendly names\<close>

text \<open>
  \<^verbatim>\<open>src/cool_name/functions.py\<close>: validation of display names, the two signed 64-bit halves of the
  MD5 digest that form the natural key, and allocation, reservation and lookup inside one
  transaction. The digest function is the parameter \<open>md5f\<close> (16 bytes each below 256 is what the code
  relies on, the hypothesis \<open>is_digest\<close>; collisions are possible), the name generator is a function
  of the word count and the attempt number.
\<close>

subsection \<open>Display names\<close>

definition RODEX_LOCAL_RESERVED_WORDS :: "pystr list" where
  "RODEX_LOCAL_RESERVED_WORDS =
     map lit [''alias'', ''create'', ''detach'', ''running'', ''send'', ''tail'', ''wait'']"

definition RODEX_RESERVED_WORDS :: "pystr list" where
  "RODEX_RESERVED_WORDS = codex_cli_0_151_0_command_tokens @ RODEX_LOCAL_RESERVED_WORDS"

datatype cool_name_error =
    EmptyCoolName | UnsafeCoolName | ReservedCoolName pystr | IdentityOccupied | GenerationExhausted
  | IntegrityError | NameNotEncodable

definition normalise_cool_name :: "pystr \<Rightarrow> cool_name_error + pystr" where
  "normalise_cool_name v = (let n = py_strip v in if n = [] then Inl EmptyCoolName else Inr n)"

definition ascii_alnum :: "nat \<Rightarrow> bool" where
  "ascii_alnum c \<longleftrightarrow> 48 \<le> c \<and> c \<le> 57 \<or> 65 \<le> c \<and> c \<le> 90 \<or> 97 \<le> c \<and> c \<le> 122"

text \<open>\<^verbatim>\<open>_SAFE_RODEX_DISPLAY_NAME.fullmatch\<close>.\<close>

definition safe_display_name :: "pystr \<Rightarrow> bool" where
  "safe_display_name n \<longleftrightarrow>
     (case n of
        [] \<Rightarrow> False
      | c # cs \<Rightarrow> ascii_alnum c \<and> length cs \<le> 79 \<and> (\<forall>d \<in> set cs. ascii_alnum d \<or> d = 95 \<or> d = 45))"

text \<open>\<^verbatim>\<open>casefold\<close>, on the code points whose folding is ASCII: the capital letters, the long s, the
  Kelvin sign, the sharp s in both cases and the Latin ligatures. The folding of every other
  non-ASCII code point contains a non-ASCII character, so it occurs in no reserved word; such a
  code point is left as it is.\<close>

definition casefold_char :: "nat \<Rightarrow> pystr" where
  "casefold_char c =
     (if 65 \<le> c \<and> c \<le> 90 then [c + 32]
      else if c = 383 then lit ''s'' else if c = 8490 then lit ''k''
      else if c = 223 \<or> c = 7838 then lit ''ss''
      else if c = 64256 then lit ''ff'' else if c = 64257 then lit ''fi'' else if c = 64258 then lit ''fl''
      else if c = 64259 then lit ''ffi'' else if c = 64260 then lit ''ffl''
      else if c = 64261 \<or> c = 64262 then lit ''st''
      else [c])"

definition casefold :: "pystr \<Rightarrow> pystr" where
  "casefold s = concat (map casefold_char s)"

definition is_reserved_rodex_name :: "pystr \<Rightarrow> cool_name_error + bool" where
  "is_reserved_rodex_name v =
     (case normalise_cool_name v of
        Inl e \<Rightarrow> Inl e
      | Inr n \<Rightarrow> Inr (casefold n \<in> set RODEX_RESERVED_WORDS))"

definition normalise_rodex_display_name :: "pystr \<Rightarrow> cool_name_error + pystr" where
  "normalise_rodex_display_name v =
     (case normalise_cool_name v of
        Inl e \<Rightarrow> Inl e
      | Inr n \<Rightarrow>
          if \<not> safe_display_name n then Inl UnsafeCoolName
          else (case is_reserved_rodex_name n of
                  Inl e \<Rightarrow> Inl e
                | Inr reserved \<Rightarrow> if reserved then Inl (ReservedCoolName n) else Inr n))"

lemma safe_not_space: "safe_display_name n \<Longrightarrow> \<forall>c \<in> set n. \<not> py_isspace c"
  by (cases n) (auto simp: safe_display_name_def ascii_alnum_def py_isspace_def)

lemma py_strip_no_space:
  assumes "\<forall>c \<in> set s. \<not> py_isspace c"
  shows "py_strip s = s"
proof -
  have "dropWhile py_isspace xs = xs" if "\<forall>c \<in> set xs. \<not> py_isspace c" for xs
    using that by (cases xs) auto
  from this [of s] this [of "rev s"] assms show ?thesis by (simp add: py_strip_def)
qed

lemma normalise_display_eq:
  "normalise_rodex_display_name v = Inr n \<longleftrightarrow>
     n = py_strip v \<and> safe_display_name n \<and> casefold n \<notin> set RODEX_RESERVED_WORDS"
  by (auto simp: normalise_rodex_display_name_def is_reserved_rodex_name_def normalise_cool_name_def Let_def
      py_strip_no_space safe_display_name_def safe_not_space split: sum.splits if_splits list.splits)

lemma normalise_display_idem: "normalise_rodex_display_name v = Inr n \<Longrightarrow> normalise_rodex_display_name n = Inr n"
  using py_strip_no_space [OF safe_not_space] by (auto simp: normalise_display_eq)

lemma safe_encodable: "safe_display_name n \<Longrightarrow> utf8_encode n = Some n"
proof -
  assume "safe_display_name n"
  then have a: "\<forall>c \<in> set n. c < 128"
    by (cases n) (auto simp: safe_display_name_def ascii_alnum_def)
  then have "concat (map utf8_char n) = n"
    by (induction n) (auto simp: utf8_char_def)
  moreover have "\<not> (\<exists>c \<in> set n. is_surrogate c)" using a by (auto simp: is_surrogate_def)
  ultimately show ?thesis by (simp add: utf8_encode_def utf8_def)
qed

subsection \<open>Signed halves\<close>

definition HALF_MODULUS :: int where
  "HALF_MODULUS = 2 ^ 64"

definition HALF_SIGN_BIT :: int where
  "HALF_SIGN_BIT = 2 ^ (64 - 1)"

fun int_from_bytes :: "nat list \<Rightarrow> int" where
  "int_from_bytes bs = foldl (\<lambda>acc b. acc * 256 + int b) 0 bs"

definition unsigned_half_to_signed :: "int \<Rightarrow> int" where
  "unsigned_half_to_signed v = (if HALF_SIGN_BIT \<le> v then v - HALF_MODULUS else v)"

definition digest_signed_ints :: "nat list \<Rightarrow> int \<times> int" where
  "digest_signed_ints digest =
     (unsigned_half_to_signed (int_from_bytes (take 8 digest)), unsigned_half_to_signed (int_from_bytes (drop 8 digest)))"

definition cool_name_md5_signed_ints :: "(nat list \<Rightarrow> nat list) \<Rightarrow> pystr \<Rightarrow> cool_name_error + (int \<times> int)" where
  "cool_name_md5_signed_ints md5f n =
     (case utf8_encode n of None \<Rightarrow> Inl NameNotEncodable | Some bs \<Rightarrow> Inr (digest_signed_ints (md5f bs)))"

definition is_digest :: "nat list \<Rightarrow> bool" where
  "is_digest d \<longleftrightarrow> length d = 16 \<and> (\<forall>b \<in> set d. b < 256)"

lemma int_from_bytes_snoc: "int_from_bytes (bs @ [b]) = int_from_bytes bs * 256 + int b"
  by simp

lemma int_from_bytes_bounds: "\<forall>b \<in> set bs. b < 256 \<Longrightarrow> 0 \<le> int_from_bytes bs \<and> int_from_bytes bs < 256 ^ length bs"
proof (induction bs rule: rev_induct)
  case (snoc b bs)
  then have "0 \<le> int_from_bytes bs" "int_from_bytes bs + 1 \<le> 256 ^ length bs" "int b < 256"
    by auto
  then show ?case by (simp add: algebra_simps)
qed simp

lemma byte_step_inject:
  fixes x y :: int
  assumes "x * 256 + int a = y * 256 + int c" "a < 256" "c < 256"
  shows "x = y \<and> a = c"
proof -
  have "(x * 256 + int a) div 256 = x" "(x * 256 + int a) mod 256 = int a"
    "(y * 256 + int c) div 256 = y" "(y * 256 + int c) mod 256 = int c"
    using assms(2,3) by simp_all
  with assms(1) show ?thesis by simp
qed

lemma int_from_bytes_inject:
  "length as = length bs \<Longrightarrow> \<forall>b \<in> set as. b < 256 \<Longrightarrow> \<forall>b \<in> set bs. b < 256 \<Longrightarrow>
     int_from_bytes as = int_from_bytes bs \<Longrightarrow> as = bs"
proof (induction as arbitrary: bs rule: rev_induct)
  case (snoc a as)
  from snoc.prems(1) obtain cs c where bs: "bs = cs @ [c]" by (cases bs rule: rev_cases) auto
  have e: "int_from_bytes as * 256 + int a = int_from_bytes cs * 256 + int c"
    using snoc.prems(4) bs by simp
  have "a < 256" "c < 256" using snoc.prems bs by auto
  from byte_step_inject [OF e this] have "int_from_bytes as = int_from_bytes cs" "a = c" by blast+
  with snoc bs show ?case by (auto simp del: int_from_bytes.simps)
qed simp

lemma digest_halves:
  assumes "is_digest d"
  shows "0 \<le> int_from_bytes (take 8 d)" "int_from_bytes (take 8 d) < HALF_MODULUS"
    "0 \<le> int_from_bytes (drop 8 d)" "int_from_bytes (drop 8 d) < HALF_MODULUS"
proof -
  have "\<forall>b \<in> set (take 8 d). b < 256" "\<forall>b \<in> set (drop 8 d). b < 256"
    using assms by (auto simp: is_digest_def dest: in_set_takeD in_set_dropD)
  moreover have "length (take 8 d) = 8" "length (drop 8 d) = 8" using assms by (simp_all add: is_digest_def)
  ultimately show "0 \<le> int_from_bytes (take 8 d)" "int_from_bytes (take 8 d) < HALF_MODULUS"
    "0 \<le> int_from_bytes (drop 8 d)" "int_from_bytes (drop 8 d) < HALF_MODULUS"
    using int_from_bytes_bounds [of "take 8 d"] int_from_bytes_bounds [of "drop 8 d"]
    by (simp_all add: HALF_MODULUS_def del: int_from_bytes.simps)
qed

lemma unsigned_half_inject:
  "0 \<le> u \<Longrightarrow> u < HALF_MODULUS \<Longrightarrow> 0 \<le> v \<Longrightarrow> v < HALF_MODULUS \<Longrightarrow>
     unsigned_half_to_signed u = unsigned_half_to_signed v \<Longrightarrow> u = v"
  by (auto simp: unsigned_half_to_signed_def HALF_MODULUS_def HALF_SIGN_BIT_def split: if_splits)

lemma unsigned_half_range:
  "0 \<le> u \<Longrightarrow> u < HALF_MODULUS \<Longrightarrow>
     - (2 ^ 63) \<le> unsigned_half_to_signed u \<and> unsigned_half_to_signed u < 2 ^ 63"
  by (auto simp: unsigned_half_to_signed_def HALF_MODULUS_def HALF_SIGN_BIT_def)

text \<open>
  The stored key is exactly the digest: both integers fit a signed 64-bit column,
  and two digests give the same pair only if they are the same 16 bytes, so a lookup by the two
  integers finds a name exactly when the digests agree.
\<close>

theorem signed_ints_faithful:
  assumes "is_digest d" and "is_digest d'"
  shows "(digest_signed_ints d = digest_signed_ints d' \<longleftrightarrow> d = d') \<and>
    (case digest_signed_ints d of (a, b) \<Rightarrow>
       - (2 ^ 63) \<le> a \<and> a < 2 ^ 63 \<and> - (2 ^ 63) \<le> b \<and> b < 2 ^ 63)"
proof -
  note h = digest_halves [OF assms(1)] and h' = digest_halves [OF assms(2)]
  have "d = d'" if "digest_signed_ints d = digest_signed_ints d'"
  proof -
    from that h h' have "int_from_bytes (take 8 d) = int_from_bytes (take 8 d')"
      "int_from_bytes (drop 8 d) = int_from_bytes (drop 8 d')"
      by (auto simp: digest_signed_ints_def simp del: int_from_bytes.simps intro: unsigned_half_inject)
    moreover have "\<forall>b \<in> set d. b < 256" "\<forall>b \<in> set d'. b < 256" "length d = 16" "length d' = 16"
      using assms by (auto simp: is_digest_def)
    ultimately have "take 8 d = take 8 d'" "drop 8 d = drop 8 d'"
      by (auto intro!: int_from_bytes_inject dest: in_set_takeD in_set_dropD simp del: int_from_bytes.simps)
    then show ?thesis by (metis append_take_drop_id)
  qed
  then show ?thesis
    using unsigned_half_range [OF h(1,2)] unsigned_half_range [OF h(3,4)]
    by (auto simp: digest_signed_ints_def simp del: int_from_bytes.simps)
qed

subsection \<open>Allocation, reservation and lookup\<close>

type_synonym cool_table = "(int \<times> int, pystr) lookup_rows"

definition attempt_plan :: "(nat \<times> nat) list" where
  "attempt_plan = concat (map (\<lambda>words. map (\<lambda>k. (words, k)) index_re_try_attempt_numbers) [2, 3])"

fun allocate_loop ::
  "(nat list \<Rightarrow> nat list) \<Rightarrow> (nat \<Rightarrow> nat \<Rightarrow> pystr) \<Rightarrow> cool_table \<Rightarrow> (nat \<times> nat) list
     \<Rightarrow> cool_name_error + (cool_table \<times> nat \<times> pystr)" where
  "allocate_loop md5f gen t [] = Inl GenerationExhausted"
| "allocate_loop md5f gen t ((words, k) # plan) =
     (case normalise_rodex_display_name (gen words k) of
        Inl _ \<Rightarrow> allocate_loop md5f gen t plan
      | Inr n \<Rightarrow>
          (case cool_name_md5_signed_ints md5f n of
             Inl e \<Rightarrow> Inl e
           | Inr key \<Rightarrow>
               if select_lookup_id t key \<noteq> None then allocate_loop md5f gen t plan
               else (case insert_row t key n of
                       None \<Rightarrow> Inl IntegrityError
                     | Some (t', i) \<Rightarrow> Inr (t', i, n))))"

definition allocate_unique_cool_name ::
  "(nat list \<Rightarrow> nat list) \<Rightarrow> (nat \<Rightarrow> nat \<Rightarrow> pystr) \<Rightarrow> cool_table \<Rightarrow> cool_name_error + (cool_table \<times> nat \<times> pystr)" where
  "allocate_unique_cool_name md5f gen t = allocate_loop md5f gen t attempt_plan"

definition get_unique_id_from_cool_name :: "(nat list \<Rightarrow> nat list) \<Rightarrow> pystr \<Rightarrow> cool_table \<Rightarrow> cool_name_error + nat option" where
  "get_unique_id_from_cool_name md5f v t =
     (case normalise_cool_name v of
        Inl e \<Rightarrow> Inl e
      | Inr n \<Rightarrow>
          (case cool_name_md5_signed_ints md5f n of
             Inl e \<Rightarrow> Inl e
           | Inr key \<Rightarrow> Inr (select_lookup_id t key)))"

definition lookup_cool_name :: "(nat list \<Rightarrow> nat list) \<Rightarrow> pystr \<Rightarrow> cool_table \<Rightarrow> cool_name_error + (nat \<times> pystr) option" where
  "lookup_cool_name md5f v t =
     (case normalise_cool_name v of
        Inl e \<Rightarrow> Inl e
      | Inr n \<Rightarrow>
          (case cool_name_md5_signed_ints md5f n of
             Inl e \<Rightarrow> Inl e
           | Inr key \<Rightarrow>
               (case select_lookup_id t key of None \<Rightarrow> Inr None | Some i \<Rightarrow> Inr (Some (i, n)))))"

definition reserve_specific_cool_name ::
  "(nat list \<Rightarrow> nat list) \<Rightarrow> pystr \<Rightarrow> cool_table \<Rightarrow> cool_name_error + (cool_table \<times> nat \<times> pystr)" where
  "reserve_specific_cool_name md5f v t =
     (case normalise_rodex_display_name v of
        Inl e \<Rightarrow> Inl e
      | Inr n \<Rightarrow>
          (case cool_name_md5_signed_ints md5f n of
             Inl e \<Rightarrow> Inl e
           | Inr key \<Rightarrow>
               (case select_lookup_id t key of
                  Some i \<Rightarrow>
                    if select_payload t i \<noteq> Some n then Inl IdentityOccupied else Inr (t, i, n)
                | None \<Rightarrow>
                    (case insert_row t key n of
                       None \<Rightarrow> Inl IntegrityError
                     | Some (t', i) \<Rightarrow> Inr (t', i, n)))))"

subsection \<open>Correctness\<close>

abbreviation name_key :: "(nat list \<Rightarrow> nat list) \<Rightarrow> pystr \<Rightarrow> int \<times> int" where
  "name_key md5f n \<equiv> digest_signed_ints (md5f n)"

lemma display_key:
  "normalise_rodex_display_name v = Inr n \<Longrightarrow> cool_name_md5_signed_ints md5f n = Inr (name_key md5f n)"
  by (auto simp: normalise_display_eq cool_name_md5_signed_ints_def dest: safe_encodable)

text \<open>A candidate is usable when it is a valid display name whose key is free.\<close>

definition usable :: "(nat list \<Rightarrow> nat list) \<Rightarrow> cool_table \<Rightarrow> pystr \<Rightarrow> bool" where
  "usable md5f t v \<longleftrightarrow>
     (\<exists>n. normalise_rodex_display_name v = Inr n \<and> select_lookup_id t (name_key md5f n) = None)"

lemma allocate_loop_correct:
  assumes "table_inv t"
  shows "case allocate_loop md5f gen t plan of
      Inl e \<Rightarrow> e = GenerationExhausted \<and> (\<forall>(w, k) \<in> set plan. \<not> usable md5f t (gen w k))
    | Inr (t', i, n) \<Rightarrow>
        (\<exists>pre w k post. plan = pre @ (w, k) # post \<and> (\<forall>(w', k') \<in> set pre. \<not> usable md5f t (gen w' k')) \<and>
           normalise_rodex_display_name (gen w k) = Inr n) \<and>
        select_lookup_id t (name_key md5f n) = None \<and> insert_row t (name_key md5f n) n = Some (t', i)"
proof (induction plan)
  case (Cons wk plan)
  obtain w k where wk: "wk = (w, k)" by fastforce
  have skip: ?case if "\<not> usable md5f t (gen w k)" "allocate_loop md5f gen t (wk # plan) = allocate_loop md5f gen t plan"
  proof -
    show ?thesis
    proof (cases "allocate_loop md5f gen t plan")
      case (Inl e)
      with Cons.IH that wk show ?thesis by simp
    next
      case (Inr r)
      obtain t' i n where r: "r = (t', i, n)" by (cases r)
      from Cons.IH obtain pre w' k' post where "plan = pre @ (w', k') # post"
        "\<forall>(w', k') \<in> set pre. \<not> usable md5f t (gen w' k')" "normalise_rodex_display_name (gen w' k') = Inr n"
        "select_lookup_id t (name_key md5f n) = None" "insert_row t (name_key md5f n) n = Some (t', i)"
        unfolding Inr r sum.case prod.case by blast
      then have "wk # plan = (wk # pre) @ (w', k') # post \<and>
          (\<forall>(w', k') \<in> set (wk # pre). \<not> usable md5f t (gen w' k')) \<and>
          normalise_rodex_display_name (gen w' k') = Inr n"
        using that(1) wk by simp
      then show ?thesis
        unfolding that(2) Inr r sum.case prod.case
        using \<open>select_lookup_id t (name_key md5f n) = None\<close> \<open>insert_row t (name_key md5f n) n = Some (t', i)\<close>
        by blast
    qed
  qed
  show ?case
  proof (cases "normalise_rodex_display_name (gen w k)")
    case (Inl e)
    then show ?thesis by (intro skip) (simp_all add: usable_def wk)
  next
    case (Inr n)
    note key = display_key [OF Inr, of md5f]
    show ?thesis
    proof (cases "select_lookup_id t (name_key md5f n)")
      case (Some i)
      with Inr key show ?thesis by (intro skip) (simp_all add: usable_def wk)
    next
      case None
      with lookup_rows.ins_absent [OF assms] obtain t' i where "insert_row t (name_key md5f n) n = Some (t', i)" by blast
      with Inr key None wk show ?thesis by (auto intro: exI [of _ "[]"])
    qed
  qed
qed simp

lemma inserted_lookup:
  assumes "table_inv t" "normalise_rodex_display_name v = Inr n" "insert_row t (name_key md5f n) n = Some (t', i)"
  shows "lookup_cool_name md5f n t' = Inr (Some (i, n)) \<and> table_inv t' \<and> select_payload t' i = Some n \<and>
    (\<forall>m r. lookup_cool_name md5f m t = Inr (Some r) \<longrightarrow> lookup_cool_name md5f m t' = Inr (Some r))"
proof (intro conjI allI impI)
  have "py_strip n = n" "n \<noteq> []"
    using assms(2) by (auto simp: normalise_display_eq safe_display_name_def)
  then show "lookup_cool_name md5f n t' = Inr (Some (i, n))"
    using display_key [OF assms(2), of md5f] lookup_rows.select_ins [OF assms(1,3)]
    by (simp add: lookup_cool_name_def normalise_cool_name_def)
  show "table_inv t'" using lookup_rows.ins_inv [OF assms(1,3)] .
  show "select_payload t' i = Some n" using lookup_rows.payload_ins [OF assms(1,3)] by simp
  fix m r
  assume "lookup_cool_name md5f m t = Inr (Some r)"
  then show "lookup_cool_name md5f m t' = Inr (Some r)"
    using lookup_rows.ins_keeps_others [OF assms(1,3)]
    by (auto simp: lookup_cool_name_def split: sum.splits option.splits)
qed

lemma length_attempt_plan: "length attempt_plan = 20"
  by (simp add: attempt_plan_def index_re_try_attempt_numbers_def INDEX_RE_TRY_ATTEMPTS_def)

text \<open>
  Property C32. Allocation is exact and bounded: over any table and any generator it makes at
  most twenty attempts, ten with two words and then ten with three; it fails only when every
  candidate is invalid or taken; otherwise it returns the first usable candidate, which is then
  found by lookup under the new identifier while every earlier lookup keeps its answer. The unique
  index never raises.
\<close>

theorem allocate_correct:
  assumes "table_inv t"
  shows "length attempt_plan = 20 \<and>
    (case allocate_unique_cool_name md5f gen t of
       Inl e \<Rightarrow> e = GenerationExhausted \<and> (\<forall>(w, k) \<in> set attempt_plan. \<not> usable md5f t (gen w k))
     | Inr (t', i, n) \<Rightarrow>
         (\<exists>pre w k post. attempt_plan = pre @ (w, k) # post \<and> (\<forall>(w', k') \<in> set pre. \<not> usable md5f t (gen w' k')) \<and>
            normalise_rodex_display_name (gen w k) = Inr n \<and> usable md5f t (gen w k)) \<and>
         table_inv t' \<and> lookup_cool_name md5f n t' = Inr (Some (i, n)) \<and>
         (\<forall>m r. lookup_cool_name md5f m t = Inr (Some r) \<longrightarrow> lookup_cool_name md5f m t' = Inr (Some r)))"
proof (cases "allocate_unique_cool_name md5f gen t")
  case (Inl e)
  with allocate_loop_correct [OF assms, where md5f = md5f and gen = gen and plan = attempt_plan] show ?thesis
    by (simp add: allocate_unique_cool_name_def length_attempt_plan)
next
  case (Inr r)
  obtain t' i n where r: "r = (t', i, n)" by (cases r)
  from allocate_loop_correct [OF assms, where md5f = md5f and gen = gen and plan = attempt_plan] Inr r
  obtain pre w k post where plan: "attempt_plan = pre @ (w, k) # post" "\<forall>(w', k') \<in> set pre. \<not> usable md5f t (gen w' k')"
      "normalise_rodex_display_name (gen w k) = Inr n"
    and free: "select_lookup_id t (name_key md5f n) = None" and ins: "insert_row t (name_key md5f n) n = Some (t', i)"
    by (auto simp: allocate_unique_cool_name_def)
  have "usable md5f t (gen w k)" using plan(3) free by (auto simp: usable_def)
  with plan Inr r inserted_lookup [where md5f = md5f, OF assms plan(3) ins] show ?thesis
    by (simp add: length_attempt_plan) blast
qed

text \<open>
  Reservation selects first: a reservation that succeeds leaves the normalised name
  resolvable under the returned identifier, keeps every other lookup, and is idempotent; it is
  refused as occupied exactly when another name already holds the same digest.
\<close>

theorem reserve_correct:
  assumes "table_inv t" and "normalise_rodex_display_name v = Inr n"
  shows "case reserve_specific_cool_name md5f v t of
      Inr (t', i, n') \<Rightarrow>
        n' = n \<and> table_inv t' \<and> lookup_cool_name md5f n t' = Inr (Some (i, n)) \<and>
        reserve_specific_cool_name md5f v t' = Inr (t', i, n) \<and>
        (\<forall>m r. lookup_cool_name md5f m t = Inr (Some r) \<longrightarrow> lookup_cool_name md5f m t' = Inr (Some r))
    | Inl e \<Rightarrow>
        e = IdentityOccupied \<and>
        (\<exists>i n'. select_lookup_id t (name_key md5f n) = Some i \<and> select_payload t i = Some n' \<and> n' \<noteq> n)"
proof (cases "select_lookup_id t (name_key md5f n)")
  case None
  with lookup_rows.ins_absent [OF assms(1)] obtain t' i where ins: "insert_row t (name_key md5f n) n = Some (t', i)" by blast
  have res: "reserve_specific_cool_name md5f v t = Inr (t', i, n)"
    using assms(2) display_key [OF assms(2), of md5f] None ins by (simp add: reserve_specific_cool_name_def)
  have "select_lookup_id t' (name_key md5f n) = Some i"
    using lookup_rows.select_ins [OF assms(1) ins] by simp
  with inserted_lookup [where md5f = md5f, OF assms ins] assms(2) display_key [OF assms(2), of md5f] show ?thesis
    unfolding res by (simp add: reserve_specific_cool_name_def)
next
  case (Some i)
  obtain p where p: "select_payload t i = Some p"
    using lookup_rows.select_payload [OF assms(1) Some] by auto
  have "py_strip n = n" "n \<noteq> []"
    using assms(2) by (auto simp: normalise_display_eq safe_display_name_def)
  with Some p assms display_key [OF assms(2), of md5f] show ?thesis
    by (simp add: reserve_specific_cool_name_def lookup_cool_name_def normalise_cool_name_def)
qed

subsection \<open>Witnesses\<close>

definition demo_md5 :: "nat list \<Rightarrow> nat list" where
  "demo_md5 bs = take 16 (map (\<lambda>b. b mod 256) bs @ replicate 16 0)"

lemma demo_md5_digest: "is_digest (demo_md5 bs)"
  by (auto simp: is_digest_def demo_md5_def dest!: in_set_takeD)

theorem signed_ints_faithful_witness:
  "digest_signed_ints (demo_md5 [1]) = digest_signed_ints (demo_md5 [2]) \<longleftrightarrow> demo_md5 [1] = demo_md5 [2]"
  using signed_ints_faithful [OF demo_md5_digest demo_md5_digest, of "[1]" "[2]"] by blast

theorem allocate_correct_witness:
  "case allocate_unique_cool_name demo_md5 (\<lambda>w k. lit ''wait'') empty_rows of
     Inl e \<Rightarrow> e = GenerationExhausted | Inr _ \<Rightarrow> True"
  using allocate_correct [OF empty_rows_inv, of demo_md5 "\<lambda>w k. lit ''wait''"] by (auto split: sum.split)

lemma demo_name: "normalise_rodex_display_name [102, 111, 120] = Inr [102, 111, 120]"
  unfolding normalise_display_eq
proof (intro conjI)
  show "safe_display_name [102, 111, 120]" by (simp add: safe_display_name_def ascii_alnum_def)
  then show "[102, 111, 120] = py_strip [102, 111, 120]" using py_strip_no_space [OF safe_not_space] by simp
  show "casefold [102, 111, 120] \<notin> set RODEX_RESERVED_WORDS"
    by (simp add: casefold_def casefold_char_def RODEX_RESERVED_WORDS_def RODEX_LOCAL_RESERVED_WORDS_def
        codex_cli_0_151_0_command_tokens_def lit_def)
qed

theorem reserve_correct_witness:
  "case reserve_specific_cool_name demo_md5 [102, 111, 120] empty_rows of
     Inr (t', i, n') \<Rightarrow> n' = [102, 111, 120] | Inl e \<Rightarrow> e = IdentityOccupied"
  using reserve_correct [OF empty_rows_inv demo_name, of demo_md5] by (auto split: sum.splits)

end
