(* ===== verification/Input_Menu.thy ===== *)
theory Input_Menu
  imports Interaction_Pipeline
begin

section \<open>Input interception: configuration and menu\<close>

text \<open>
  \<^verbatim>\<open>src/rodex/input_interceptor_config.py\<close> and \<^verbatim>\<open>src/rodex/input_menu.py\<close>. A rule is its expression
  text with the answer of \<^verbatim>\<open>re.fullmatch\<close> as a predicate; for the configured rules the predicate is
  written out. The \<^verbatim>\<open>__post_init__\<close> checks are the \<open>..._ok\<close> predicates. The menu operations that can
  raise return a sum.
\<close>

subsection \<open>Configuration\<close>

record configured_action =
  act_target :: pystr
  act_operation :: interaction_operation
  act_payload :: pystr

definition configured_action_ok :: "configured_action \<Rightarrow> bool" where
  "configured_action_ok a \<longleftrightarrow> act_target a \<noteq> [] \<and> act_payload a \<noteq> []"

record interception_rule =
  reg_exp_intercept :: pystr
  rule_matches :: "pystr \<Rightarrow> bool"
  rule_helper_text :: pystr

definition rule_ok :: "interception_rule \<Rightarrow> bool" where
  "rule_ok r \<longleftrightarrow>
     py_startswith (reg_exp_intercept r) (lit ''^'') \<and> py_endswith (reg_exp_intercept r) (lit ''$'') \<and> \<not> rule_matches r []"

record interception_option =
  iopt_name :: pystr
  iopt_helper_text :: pystr
  iopt_action :: "configured_action option"

definition option_ok :: "interception_option \<Rightarrow> bool" where
  "option_ok p \<longleftrightarrow> iopt_name p \<noteq> [] \<and> \<not> (\<exists>c \<in> set (iopt_name p). py_isspace c)"

record argument_menu =
  am_heading :: pystr
  am_subheading :: pystr
  am_options :: "interception_option list"

definition argument_menu_ok :: "argument_menu \<Rightarrow> bool" where
  "argument_menu_ok m \<longleftrightarrow> distinct (map iopt_name (am_options m))"

record registration =
  reg_name :: pystr
  reg_completion_text :: pystr
  reg_live :: interception_rule
  reg_on_enter :: interception_rule
  reg_argument_menu :: argument_menu

definition option_submission :: "registration \<Rightarrow> interception_option \<Rightarrow> pystr" where
  "option_submission r p = reg_completion_text r @ lit '' '' @ iopt_name p"

definition registration_target :: "registration \<Rightarrow> pystr" where
  "registration_target r = lit ''input-interceptor:'' @ reg_name r"

definition registration_ok :: "registration \<Rightarrow> bool" where
  "registration_ok r \<longleftrightarrow>
     reg_name r \<noteq> [] \<and> reg_completion_text r \<noteq> [] \<and> (\<forall>c \<in> set (reg_completion_text r). c < 128) \<and>
     \<not> (\<exists>c \<in> set (reg_completion_text r). py_isspace c) \<and> rule_matches (reg_live r) (reg_completion_text r) \<and>
     (\<forall>p \<in> set (am_options (reg_argument_menu r)). rule_matches (reg_on_enter r) (option_submission r p))"

text \<open>The configured rules. A live expression matches the listed prefixes of a command; an Enter
  expression matches the command, a space and the rest of one line.\<close>

definition live_rule :: "string \<Rightarrow> string list \<Rightarrow> string \<Rightarrow> interception_rule" where
  "live_rule expr words helper =
     \<lparr>reg_exp_intercept = lit expr, rule_matches = (\<lambda>t. t \<in> set (map lit words)), rule_helper_text = lit helper\<rparr>"

definition enter_rule :: "string \<Rightarrow> string \<Rightarrow> interception_rule" where
  "enter_rule expr command =
     \<lparr>reg_exp_intercept = lit expr,
      rule_matches = (\<lambda>t. py_startswith t (lit command) \<and> 10 \<notin> set (drop (length command) t)),
      rule_helper_text = []\<rparr>"

definition policy_option :: "string \<Rightarrow> string \<Rightarrow> interception_option" where
  "policy_option name helper =
     \<lparr>iopt_name = lit name, iopt_helper_text = lit helper,
      iopt_action = Some \<lparr>act_target = lit ''presentation-policy'', act_operation = OpSelectPresentationPolicy,
        act_payload = lit name\<rparr>\<rparr>"

definition INPUT_INTERCEPTORS :: "registration list" where
  "INPUT_INTERCEPTORS =
     [\<lparr>reg_name = lit ''rodex'', reg_completion_text = lit ''/rodex'',
       reg_live = live_rule ''^/ro(?:d(?:ex?)?)?$'' [''/ro'', ''/rod'', ''/rode'', ''/rodex''] ''issue a rodex command'',
       reg_on_enter = enter_rule ''^/rodex (.*?)$'' ''/rodex '',
       reg_argument_menu =
         \<lparr>am_heading = lit ''This line here should be in the config, select argument:'',
          am_subheading = lit ''This 2nd line should also be configurable for the rodex...'',
          am_options = [policy_option ''light'' ''display commentary only'',
            policy_option ''dark'' ''display the normal Codex interface'',
            \<lparr>iopt_name = lit ''dusk'', iopt_helper_text = lit ''Dusky one'', iopt_action = None\<rparr>]\<rparr>\<rparr>,
      \<lparr>reg_name = lit ''rodx'', reg_completion_text = lit ''/rodx'',
       reg_live = live_rule ''^/ro(?:dx?)?$'' [''/ro'', ''/rod'', ''/rodx'']
         ''dummy test to see if we can move up and down in the rodex/rodx menu here'',
       reg_on_enter = enter_rule ''^/rodx (.*?)$'' ''/rodx '',
       reg_argument_menu = \<lparr>am_heading = lit ''Select argument:'', am_subheading = [], am_options = []\<rparr>\<rparr>]"

subsection \<open>Views\<close>

datatype menu_stage = StageCommands | StageArguments

record menu_view =
  view_draft :: pystr
  view_native_prefix :: pystr
  view_rows :: "(pystr \<times> pystr) list"
  view_selected_index :: "nat option"
  view_stage :: menu_stage
  view_heading :: pystr
  view_subheading :: pystr

definition view_ok :: "menu_view \<Rightarrow> bool" where
  "view_ok v \<longleftrightarrow>
     (view_stage v = StageArguments \<longrightarrow> view_rows v \<noteq> []) \<and>
     (if view_rows v \<noteq> [] then (case view_selected_index v of None \<Rightarrow> False | Some i \<Rightarrow> i < length (view_rows v))
      else view_selected_index v = None)"

subsection \<open>The menu\<close>

record menu =
  menu_registrations :: "registration list"
  menu_draft :: pystr
  menu_stage :: menu_stage
  menu_selected_name :: "pystr option"
  menu_option_index :: nat

datatype menu_error = MenuNoSelection | MenuAssertion | MenuInvalidView | MenuOptionIndex

definition matching_commands :: "menu \<Rightarrow> registration list" where
  "matching_commands m = filter (\<lambda>r. rule_matches (reg_live r) (menu_draft m)) (menu_registrations m)"

definition selected_command :: "menu \<Rightarrow> registration option" where
  "selected_command m = List.find (\<lambda>r. Some (reg_name r) = menu_selected_name m) (menu_registrations m)"

definition menu_options :: "registration \<Rightarrow> interception_option list" where
  "menu_options r = am_options (reg_argument_menu r)"

definition selected_option :: "menu \<Rightarrow> menu_error + interception_option option" where
  "selected_option m =
     (case selected_command m of
        Some r \<Rightarrow>
          if menu_stage m \<noteq> StageArguments \<or> menu_options r = [] then Inr None
          else if menu_option_index m < length (menu_options r) then Inr (Some (menu_options r ! menu_option_index m))
          else Inl MenuOptionIndex
      | None \<Rightarrow> Inr None)"

definition update_draft :: "pystr \<Rightarrow> menu \<Rightarrow> menu" where
  "update_draft draft m =
     (let m' = m\<lparr>menu_draft := draft\<rparr>; names = map reg_name (matching_commands m') in
      if menu_selected_name m' \<in> Some ` set names then m'
      else m'\<lparr>menu_selected_name := (case names of [] \<Rightarrow> None | n # _ \<Rightarrow> Some n)\<rparr>)"

definition new_menu :: "registration list \<Rightarrow> pystr \<Rightarrow> menu" where
  "new_menu regs draft =
     update_draft draft
       \<lparr>menu_registrations = regs, menu_draft = draft, menu_stage = StageCommands, menu_selected_name = None,
        menu_option_index = 0\<rparr>"

text \<open>The index of the selected command among the matches.\<close>

definition selected_index :: "menu \<Rightarrow> nat option" where
  "selected_index m =
     List.find (\<lambda>i. Some (reg_name (matching_commands m ! i)) = menu_selected_name m) [0..<length (matching_commands m)]"

definition cyclic :: "nat \<Rightarrow> int \<Rightarrow> nat \<Rightarrow> nat" where
  "cyclic i offset n = nat ((int i + offset) mod int n)"

definition move_selection :: "int \<Rightarrow> menu \<Rightarrow> menu_error + menu" where
  "move_selection offset m =
     (if menu_stage m = StageArguments then
        (case selected_command m of
           Some r \<Rightarrow>
             if menu_options r \<noteq> [] then
               Inr (m\<lparr>menu_option_index := cyclic (menu_option_index m) offset (length (menu_options r))\<rparr>)
             else Inr m
         | None \<Rightarrow> Inr m)
      else if matching_commands m = [] then Inr m
      else (case selected_index m of
              None \<Rightarrow> Inl MenuNoSelection
            | Some i \<Rightarrow>
                Inr (m\<lparr>menu_selected_name :=
                  Some (reg_name (matching_commands m ! cyclic i offset (length (matching_commands m))))\<rparr>)))"

definition open_arguments :: "menu \<Rightarrow> menu" where
  "open_arguments m =
     (case selected_command m of
        Some r \<Rightarrow> if menu_options r = [] then m else m\<lparr>menu_stage := StageArguments, menu_option_index := 0\<rparr>
      | None \<Rightarrow> m)"

definition back_to_commands :: "menu \<Rightarrow> menu" where
  "back_to_commands m = m\<lparr>menu_stage := StageCommands\<rparr>"

definition checked_view :: "menu_view \<Rightarrow> menu_error + menu_view" where
  "checked_view v = (if view_ok v then Inr v else Inl MenuInvalidView)"

definition view :: "pystr \<Rightarrow> menu \<Rightarrow> menu_error + menu_view" where
  "view native_prefix m =
     (if menu_stage m = StageArguments then
        (case selected_command m of
           None \<Rightarrow> Inl MenuAssertion
         | Some r \<Rightarrow>
             checked_view
               \<lparr>view_draft = menu_draft m, view_native_prefix = native_prefix,
                view_rows = map (\<lambda>p. (iopt_name p, iopt_helper_text p)) (menu_options r),
                view_selected_index = (if menu_options r \<noteq> [] then Some (menu_option_index m) else None),
                view_stage = menu_stage m, view_heading = am_heading (reg_argument_menu r),
                view_subheading = am_subheading (reg_argument_menu r)\<rparr>)
      else
        checked_view
          \<lparr>view_draft = menu_draft m, view_native_prefix = native_prefix,
           view_rows = map (\<lambda>r. (reg_completion_text r, rule_helper_text (reg_live r))) (matching_commands m),
           view_selected_index = selected_index m, view_stage = StageCommands, view_heading = [],
           view_subheading = []\<rparr>)"

subsection \<open>Selection invariant\<close>

definition menu_inv :: "menu \<Rightarrow> bool" where
  "menu_inv m \<longleftrightarrow>
     (if matching_commands m = [] then menu_selected_name m = None
      else menu_selected_name m \<in> Some ` set (map reg_name (matching_commands m))) \<and>
     (menu_stage m = StageArguments \<longrightarrow>
        (\<exists>r. selected_command m = Some r \<and> menu_option_index m < length (menu_options r)))"

lemma matching_simps [simp]:
  "matching_commands (m\<lparr>menu_stage := s\<rparr>) = matching_commands m"
  "matching_commands (m\<lparr>menu_selected_name := n\<rparr>) = matching_commands m"
  "matching_commands (m\<lparr>menu_option_index := i\<rparr>) = matching_commands m"
  by (simp_all add: matching_commands_def)

lemma selected_simps [simp]:
  "selected_command (m\<lparr>menu_stage := s\<rparr>) = selected_command m"
  "selected_command (m\<lparr>menu_draft := d\<rparr>) = selected_command m"
  "selected_command (m\<lparr>menu_option_index := i\<rparr>) = selected_command m"
  by (simp_all add: selected_command_def)

lemma update_draft_inv: "menu_stage m = StageCommands \<Longrightarrow> menu_inv (update_draft d m)"
  by (auto simp: update_draft_def menu_inv_def Let_def split: list.split)

lemma new_menu_inv: "menu_inv (new_menu regs d)"
  unfolding new_menu_def by (rule update_draft_inv) simp

lemma selected_index_Some:
  assumes "menu_inv m" "matching_commands m \<noteq> []"
  shows "\<exists>i. selected_index m = Some i \<and> i < length (matching_commands m)"
proof -
  from assms obtain r where r: "r \<in> set (matching_commands m)" "menu_selected_name m = Some (reg_name r)"
    by (auto simp: menu_inv_def)
  then obtain j where "j < length (matching_commands m)" "matching_commands m ! j = r" by (auto simp: in_set_conv_nth)
  with r(2) have "selected_index m \<noteq> None" by (auto simp: selected_index_def find_None_iff)
  then obtain i where "selected_index m = Some i" by blast
  then show ?thesis by (auto simp: selected_index_def find_Some_iff)
qed

lemma selected_index_None: "matching_commands m = [] \<Longrightarrow> selected_index m = None"
  by (simp add: selected_index_def)

lemma cyclic_less: "0 < n \<Longrightarrow> cyclic i offset n < n"
  unfolding cyclic_def by (metis Euclidean_Rings.pos_mod_bound nat_less_iff of_nat_0_less_iff pos_mod_sign)

lemma view_total:
  assumes "menu_inv m"
  shows "\<exists>v. view np m = Inr v"
proof (cases "menu_stage m")
  case StageCommands
  then show ?thesis
    using selected_index_Some [OF assms] selected_index_None [of m]
    by (cases "matching_commands m = []") (auto simp: view_def checked_view_def view_ok_def)
next
  case StageArguments
  with assms obtain r where "selected_command m = Some r" "menu_option_index m < length (menu_options r)"
    by (auto simp: menu_inv_def)
  with StageArguments show ?thesis by (auto simp: view_def checked_view_def view_ok_def)
qed

lemma move_selection_inv:
  assumes "menu_inv m"
  shows "\<exists>m'. move_selection offset m = Inr m' \<and> menu_inv m'"
proof (cases "menu_stage m")
  case StageArguments
  with assms obtain r where r: "selected_command m = Some r" "menu_option_index m < length (menu_options r)"
    by (auto simp: menu_inv_def)
  with cyclic_less [of "length (menu_options r)"] StageArguments assms show ?thesis
    by (auto simp: move_selection_def menu_inv_def)
next
  case StageCommands
  show ?thesis
  proof (cases "matching_commands m = []")
    case False
    with selected_index_Some [OF assms] obtain i where "selected_index m = Some i" by blast
    with False StageCommands cyclic_less [of "length (matching_commands m)"] show ?thesis
      by (auto simp: move_selection_def menu_inv_def)
  qed (use StageCommands assms in \<open>simp add: move_selection_def\<close>)
qed

lemma open_arguments_inv: "menu_inv m \<Longrightarrow> menu_inv (open_arguments m)"
  by (auto simp: open_arguments_def menu_inv_def split: option.split)

lemma back_to_commands_inv: "menu_inv m \<Longrightarrow> menu_inv (back_to_commands m)"
  by (auto simp: back_to_commands_def menu_inv_def)

lemma selected_option_total: "menu_inv m \<Longrightarrow> \<exists>p. selected_option m = Inr p"
  by (auto simp: selected_option_def menu_inv_def split: option.splits)

lemma menu_registrations_simps [simp]:
  "menu_registrations (update_draft d m) = menu_registrations m" "menu_stage (update_draft d m) = menu_stage m"
  "menu_draft (update_draft d m) = d"
  "menu_registrations (new_menu regs d) = regs" "menu_stage (new_menu regs d) = StageCommands"
  "menu_draft (new_menu regs d) = d"
  by (simp_all add: update_draft_def new_menu_def Let_def)

end
