(* ===== verification/Terminal_Input.thy ===== *)
theory Terminal_Input
  imports Prelude
begin

section \<open>Terminal input framing\<close>

text \<open>
  The decoder of \<^verbatim>\<open>src/rodex/terminal_input.py\<close>: UTF-8 text, control keys, terminal replies, escape
  sequences and bracketed paste framed across arbitrary reads. Bytes are natural numbers below
  256. One iteration of the loop of \<^verbatim>\<open>feed\<close> is \<open>decode_step\<close>; the loop is \<open>decode_loop\<close>, which
  terminates because every continuing iteration consumes a byte.
\<close>

type_synonym bytes = "nat list"

definition PASTE_START :: bytes where
  "PASTE_START = [27, 91, 50, 48, 48, 126]"

definition PASTE_END :: bytes where
  "PASTE_END = [27, 91, 50, 48, 49, 126]"

definition MAX_LOCAL_DRAFT_BYTES :: nat where
  "MAX_LOCAL_DRAFT_BYTES = 65536"

definition ESCAPE_WAIT_SECONDS :: rat where
  "ESCAPE_WAIT_SECONDS = 35 / 1000"

definition INCOMPLETE_FRAME_WAIT_SECONDS :: rat where
  "INCOMPLETE_FRAME_WAIT_SECONDS = 25 / 100"

subsection \<open>Byte-string primitives\<close>

text \<open>\<^verbatim>\<open>bytes.find\<close>, \<open>None\<close> for -1.\<close>

fun py_find :: "bytes \<Rightarrow> bytes \<Rightarrow> nat option" where
  "py_find [] m = (if m = [] then Some 0 else None)"
| "py_find (x # xs) m = (if py_startswith (x # xs) m then Some 0 else map_option Suc (py_find xs m))"

text \<open>\<^verbatim>\<open>bytes.split\<close> on one byte.\<close>

fun py_split :: "nat \<Rightarrow> bytes \<Rightarrow> bytes list" where
  "py_split sep [] = [[]]"
| "py_split sep (x # xs) =
     (if x = sep then [] # py_split sep xs
      else case py_split sep xs of [] \<Rightarrow> [[x]] | f # fs \<Rightarrow> (x # f) # fs)"

definition bytes_isspace :: "nat \<Rightarrow> bool" where
  "bytes_isspace c \<longleftrightarrow> 9 \<le> c \<and> c \<le> 13 \<or> c = 32"

definition is_digit_byte :: "nat \<Rightarrow> bool" where
  "is_digit_byte c \<longleftrightarrow> 48 \<le> c \<and> c \<le> 57"

text \<open>Decimal digits with single underscores between them.\<close>

fun digit_groups :: "bytes \<Rightarrow> bool" where
  "digit_groups [] = False"
| "digit_groups [c] = is_digit_byte c"
| "digit_groups (c # d # cs) =
     (is_digit_byte c \<and> (if d = 95 then digit_groups cs else digit_groups (d # cs)))"

text \<open>\<^verbatim>\<open>int(b)\<close> for bytes in base ten, with the 4300 digit limit; \<open>None\<close> is the \<^verbatim>\<open>ValueError\<close>.\<close>

definition py_int_bytes :: "bytes \<Rightarrow> int option" where
  "py_int_bytes b =
     (let s = rev (dropWhile bytes_isspace (rev (dropWhile bytes_isspace b)));
          negative = (take 1 s = [45]);
          body = (if take 1 s = [45] \<or> take 1 s = [43] then drop 1 s else s);
          digits = filter is_digit_byte body
      in if \<not> digit_groups body \<or> length digits > 4300 then None
         else (let v = foldl (\<lambda>acc d. acc * 10 + (int d - 48)) 0 digits in Some (if negative then - v else v)))"

fun all_ints :: "bytes list \<Rightarrow> int list option" where
  "all_ints [] = Some []"
| "all_ints (b # bs) =
     (case py_int_bytes b of
        None \<Rightarrow> None
      | Some i \<Rightarrow> map_option (\<lambda>is. i # is) (all_ints bs))"

subsection \<open>UTF-8 decoding\<close>

definition cont_byte :: "nat \<Rightarrow> bool" where
  "cont_byte b \<longleftrightarrow> 128 \<le> b \<and> b < 192"

text \<open>Strict decoding: no overlong forms, no surrogates, nothing above U+10FFFF.\<close>

fun utf8_decode :: "bytes \<Rightarrow> pystr option" where
  "utf8_decode [] = Some []"
| "utf8_decode (b # bs) =
     (if b < 128 then map_option ((#) b) (utf8_decode bs)
      else if 194 \<le> b \<and> b \<le> 223 then
        (case bs of
           c1 # r \<Rightarrow>
             if cont_byte c1 then map_option ((#) ((b - 192) * 64 + (c1 - 128))) (utf8_decode r) else None
         | _ \<Rightarrow> None)
      else if 224 \<le> b \<and> b \<le> 239 then
        (case bs of
           c1 # c2 # r \<Rightarrow>
             if cont_byte c1 \<and> cont_byte c2 \<and> (b = 224 \<longrightarrow> 160 \<le> c1) \<and> (b = 237 \<longrightarrow> c1 < 160)
             then map_option ((#) ((b - 224) * 4096 + (c1 - 128) * 64 + (c2 - 128))) (utf8_decode r) else None
         | _ \<Rightarrow> None)
      else if 240 \<le> b \<and> b \<le> 244 then
        (case bs of
           c1 # c2 # c3 # r \<Rightarrow>
             if cont_byte c1 \<and> cont_byte c2 \<and> cont_byte c3 \<and> (b = 240 \<longrightarrow> 144 \<le> c1) \<and> (b = 244 \<longrightarrow> c1 < 144)
             then map_option ((#) ((b - 240) * 262144 + (c1 - 128) * 4096 + (c2 - 128) * 64 + (c3 - 128))) (utf8_decode r)
             else None
         | _ \<Rightarrow> None)
      else None)"

subsection \<open>Events and escape sequences\<close>

datatype input_kind =
    KindText | KindPaste | KindOpaquePaste | KindControl | KindTerminalReply | KindNavigation | KindEscapeSequence
  | KindOpaque

record input_event =
  ev_kind :: input_kind
  ev_raw :: bytes
  ev_text :: pystr

definition mk_event :: "input_kind \<Rightarrow> bytes \<Rightarrow> pystr \<Rightarrow> input_event" where
  "mk_event k raw txt = \<lparr>ev_kind = k, ev_raw = raw, ev_text = txt\<rparr>"

definition NAV_UP :: "bytes list" where
  "NAV_UP = [[27, 91, 65], [27, 79, 65], [27, 91, 49, 65], [27, 91, 49, 59, 49, 65]]"

definition NAV_DOWN :: "bytes list" where
  "NAV_DOWN = [[27, 91, 66], [27, 79, 66], [27, 91, 49, 66], [27, 91, 49, 59, 49, 66]]"

definition is_reply_sequence :: "bytes \<Rightarrow> bool" where
  "is_reply_sequence raw \<longleftrightarrow>
     raw = [27, 91, 73] \<or> raw = [27, 91, 79]
     \<or> py_startswith raw [27, 91]
       \<and> ((raw \<noteq> [] \<and> last raw \<in> {82, 99, 110, 116}) \<or> py_endswith raw [36, 121])"

text \<open>\<^verbatim>\<open>"a" <= text.lower() <= "z"\<close> for one character: the ASCII letters, and the two other characters
  whose lower case begins with an ASCII letter, U+0130 and U+212A.\<close>

definition letter_range :: "nat \<Rightarrow> bool" where
  "letter_range c \<longleftrightarrow> 65 \<le> c \<and> c \<le> 90 \<or> 97 \<le> c \<and> c \<le> 122 \<or> c = 304 \<or> c = 8490"

text \<open>\<^verbatim>\<open>ord(text.upper())\<close>, on ASCII and on the two characters above.\<close>

definition upper_char :: "nat \<Rightarrow> nat" where
  "upper_char c = (if 97 \<le> c \<and> c \<le> 122 then c - 32 else c)"

definition key_char :: "int \<Rightarrow> nat \<Rightarrow> nat" where
  "key_char modifiers c =
     (if modifiers div 4 mod 2 = 1 \<and> (letter_range c \<or> c \<in> {64, 91, 92, 93, 94, 95}) then upper_char c mod 32
      else if modifiers mod 2 = 1 \<and> c < 128 then upper_char c
      else c)"

text \<open>The key identity of a CSI-u or modifyOtherKeys sequence: \<open>Inl\<close> a key release, \<open>Inr\<close> the
  modifiers and the code point; \<open>None\<close> for another sequence or a \<^verbatim>\<open>ValueError\<close>.\<close>

definition key_identity :: "bytes \<Rightarrow> (unit + int \<times> int) option" where
  "key_identity raw =
     (let fields = py_split 59 (take (length raw - 3) (drop 2 raw)) in
      if py_startswith raw [27, 91] \<and> py_endswith raw [117] \<and> length fields \<le> 3 then
        (case all_ints (py_split 58 (fields ! 0)) of
           None \<Rightarrow> None
         | Some codepoints \<Rightarrow>
             (case (if length fields \<ge> 2 then all_ints (py_split 58 (fields ! 1)) else Some [1]) of
                None \<Rightarrow> None
              | Some modifier_fields \<Rightarrow>
                  let modifiers = modifier_fields ! 0 - 1 in
                  if length modifier_fields > 1 \<and> modifier_fields ! 1 = 3 then Some (Inl ())
                  else Some (Inr (modifiers,
                    if modifiers mod 2 = 1 \<and> length codepoints > 1 then codepoints ! 1 else codepoints ! 0))))
      else if py_startswith raw [27, 91, 50, 55, 59] \<and> py_endswith raw [126] \<and> length fields = 3 then
        (case (py_int_bytes (fields ! 1), py_int_bytes (fields ! 2)) of
           (Some m, Some c) \<Rightarrow> Some (Inr (m - 1, c))
         | _ \<Rightarrow> None)
      else None)"

definition decode_key :: "bytes \<Rightarrow> int \<Rightarrow> int \<Rightarrow> input_event" where
  "decode_key raw modifiers codepoint =
     (if modifiers = 0 \<and> codepoint \<in> {57352, 57353} then
        mk_event KindNavigation raw (lit (if codepoint = 57352 then ''up'' else ''down''))
      else if modifiers \<notin> {0, 1, 4, 5} \<or> \<not> (0 \<le> codepoint \<and> codepoint < 57344)
        \<or> 55296 \<le> codepoint \<and> codepoint \<le> 57343 then mk_event KindEscapeSequence raw []
      else if modifiers \<noteq> 0 \<and> (codepoint < 32 \<or> codepoint = 127) then mk_event KindEscapeSequence raw []
      else
        let c = key_char modifiers (nat codepoint)
        in mk_event (if c < 32 \<or> c = 127 then KindControl else KindText) raw [c])"

definition decode_escape_sequence :: "bytes \<Rightarrow> input_event" where
  "decode_escape_sequence raw =
     (if raw \<in> set NAV_UP then mk_event KindNavigation raw (lit ''up'')
      else if raw \<in> set NAV_DOWN then mk_event KindNavigation raw (lit ''down'')
      else if is_reply_sequence raw then mk_event KindTerminalReply raw []
      else case key_identity raw of
        None \<Rightarrow> mk_event KindEscapeSequence raw []
      | Some (Inl _) \<Rightarrow> mk_event KindTerminalReply raw []
      | Some (Inr (modifiers, codepoint)) \<Rightarrow> decode_key raw modifiers codepoint)"

subsection \<open>The decoder\<close>

datatype decode_outcome =
    StepWait
  | StepFlush input_event bytes bool bool
  | StepEvent input_event nat bool bool

definition starts_reply :: "bytes \<Rightarrow> bool" where
  "starts_reply p \<longleftrightarrow> take 2 p \<in> {[27, 93], [27, 80], [27, 95], [27, 94]}"

definition reply_end :: "bytes \<Rightarrow> nat option" where
  "reply_end p =
     (case (py_find p [7], py_find p [27, 92]) of
        (None, None) \<Rightarrow> None
      | (Some i, None) \<Rightarrow> Some (i + 1)
      | (None, Some j) \<Rightarrow> Some (j + 2)
      | (Some i, Some j) \<Rightarrow> Some (min (i + 1) (j + 2)))"

definition reply_step :: "bool \<Rightarrow> bool \<Rightarrow> bytes \<Rightarrow> decode_outcome" where
  "reply_step sp sr p =
     (case reply_end p of
        None \<Rightarrow>
          if length p > MAX_LOCAL_DRAFT_BYTES
          then StepFlush (mk_event KindTerminalReply (butlast p) []) [last p] sp True
          else StepWait
      | Some amount \<Rightarrow> StepEvent (mk_event KindTerminalReply (take amount p) []) amount sp False)"

text \<open>A complete paste: its text, or opaque when it was streamed or is not UTF-8.\<close>

definition paste_event :: "bool \<Rightarrow> bytes \<Rightarrow> input_event" where
  "paste_event sp raw =
     (if sp then mk_event KindOpaquePaste raw []
      else case utf8_decode (take (length raw - length PASTE_END - length PASTE_START) (drop (length PASTE_START) raw)) of
        None \<Rightarrow> mk_event KindOpaquePaste raw []
      | Some t \<Rightarrow> mk_event KindPaste raw t)"

definition paste_step :: "bool \<Rightarrow> bool \<Rightarrow> bytes \<Rightarrow> decode_outcome" where
  "paste_step sp sr p =
     (case py_find p PASTE_END of
        None \<Rightarrow>
          if length p > MAX_LOCAL_DRAFT_BYTES
          then (let amount = length p - length PASTE_END
                in StepFlush (mk_event KindOpaquePaste (take amount p) []) (drop amount p) True sr)
          else StepWait
      | Some end_at \<Rightarrow>
          (let amount = end_at + length PASTE_END;
               raw = take amount p
           in StepEvent (paste_event sp raw) amount False sr))"

text \<open>The index of the final byte of a control sequence.\<close>

definition csi_final :: "bytes \<Rightarrow> nat option" where
  "csi_final p = map_option (\<lambda>i. i + 2)
     (let k = length (takeWhile (\<lambda>b. \<not> (64 \<le> b \<and> b \<le> 126)) (drop 2 p))
      in if k < length (drop 2 p) then Some k else None)"

definition escape_step :: "bool \<Rightarrow> bool \<Rightarrow> bytes \<Rightarrow> decode_outcome" where
  "escape_step sp sr p =
     (if length p = 1 then StepWait
      else if p ! 1 = 27 then StepEvent (mk_event KindControl (take 1 p) []) 1 sp sr
      else if py_startswith PASTE_START p then StepWait
      else if p ! 1 = 91 \<or> p ! 1 = 79 then
        (case csi_final p of
           None \<Rightarrow>
             if length p > MAX_LOCAL_DRAFT_BYTES then StepFlush (mk_event KindOpaque p []) [] sp sr else StepWait
         | Some final \<Rightarrow> StepEvent (decode_escape_sequence (take (final + 1) p)) (final + 1) sp sr)
      else StepEvent (decode_escape_sequence (take 2 p)) 2 sp sr)"

definition utf8_amount :: "nat \<Rightarrow> nat" where
  "utf8_amount b =
     (if 194 \<le> b \<and> b \<le> 223 then 2 else if 224 \<le> b \<and> b \<le> 239 then 3 else if 240 \<le> b \<and> b \<le> 244 then 4 else 1)"

definition text_step :: "bool \<Rightarrow> bool \<Rightarrow> bytes \<Rightarrow> decode_outcome" where
  "text_step sp sr p =
     (if hd p < 32 \<or> hd p = 127 then StepEvent (mk_event KindControl (take 1 p) []) 1 sp sr
      else
        let amount = utf8_amount (hd p) in
        if length p < amount then StepWait
        else (case utf8_decode (take amount p) of
                None \<Rightarrow> StepEvent (mk_event KindOpaque (take 1 p) []) 1 sp sr
              | Some t \<Rightarrow> StepEvent (mk_event KindText (take amount p) t) amount sp sr))"

definition decode_step :: "bool \<Rightarrow> bool \<Rightarrow> bytes \<Rightarrow> decode_outcome" where
  "decode_step sp sr p =
     (if \<not> sp \<and> (sr \<or> starts_reply p) then reply_step sp sr p
      else if sp \<or> py_startswith p PASTE_START then paste_step sp sr p
      else if hd p = 27 then escape_step sp sr p
      else text_step sp sr p)"

lemma decode_step_amount: "decode_step sp sr p = StepEvent ev n sp' sr' \<Longrightarrow> 0 < n"
  by (auto simp: decode_step_def reply_step_def reply_end_def paste_step_def escape_step_def text_step_def Let_def
      PASTE_END_def utf8_amount_def split: if_splits option.splits)

function decode_loop :: "bool \<Rightarrow> bool \<Rightarrow> bytes \<Rightarrow> input_event list \<times> bytes \<times> bool \<times> bool" where
  "decode_loop sp sr p =
     (if p = [] then ([], p, sp, sr)
      else case decode_step sp sr p of
        StepWait \<Rightarrow> ([], p, sp, sr)
      | StepFlush ev keep sp' sr' \<Rightarrow> ([ev], keep, sp', sr')
      | StepEvent ev n sp' sr' \<Rightarrow>
          (case decode_loop sp' sr' (drop n p) of (evs, st) \<Rightarrow> (ev # evs, st)))"
  by pat_completeness auto
termination
  by (relation "measure (\<lambda>(sp, sr, p). length p)") (auto dest: decode_step_amount)

declare decode_loop.simps [simp del]

record decoder =
  dec_pending :: bytes
  dec_last_data_at :: "rat option"
  dec_streaming_paste :: bool
  dec_streaming_reply :: bool

definition initial_decoder :: decoder where
  "initial_decoder = \<lparr>dec_pending = [], dec_last_data_at = None, dec_streaming_paste = False, dec_streaming_reply = False\<rparr>"

definition feed :: "bytes \<Rightarrow> rat \<Rightarrow> decoder \<Rightarrow> decoder \<times> input_event list" where
  "feed data now d =
     (case decode_loop (dec_streaming_paste d) (dec_streaming_reply d) (dec_pending d @ data) of
        (evs, p, sp, sr) \<Rightarrow>
          (\<lparr>dec_pending = p, dec_last_data_at = (if data \<noteq> [] then Some now else dec_last_data_at d),
            dec_streaming_paste = sp, dec_streaming_reply = sr\<rparr>, evs))"

definition incomplete_deadline :: "decoder \<Rightarrow> rat option" where
  "incomplete_deadline d =
     (if dec_pending d = [] then None
      else case dec_last_data_at d of
        None \<Rightarrow> None
      | Some seen \<Rightarrow>
          if dec_streaming_paste d \<or> py_startswith (dec_pending d) PASTE_START then None
          else if dec_streaming_reply d \<and> dec_pending d = [27] then None
          else Some (seen + (if dec_pending d = [27] then ESCAPE_WAIT_SECONDS else INCOMPLETE_FRAME_WAIT_SECONDS)))"

definition expire_incomplete :: "rat \<Rightarrow> decoder \<Rightarrow> decoder \<times> input_event list" where
  "expire_incomplete now d =
     (case incomplete_deadline d of
        None \<Rightarrow> (d, [])
      | Some deadline \<Rightarrow>
          if now < deadline then (d, [])
          else
            let p = dec_pending d;
                reply = dec_streaming_reply d \<or> starts_reply p;
                raw = (if reply \<and> last p = 27 then butlast p else p);
                kind = (if reply then KindTerminalReply else if p = [27] then KindControl else KindOpaque)
            in (d\<lparr>dec_pending := drop (length raw) p, dec_streaming_reply := (dec_streaming_reply d \<or> reply)\<rparr>,
                if raw \<noteq> [] then [mk_event kind raw []] else []))"

subsection \<open>No byte is lost\<close>

lemma ev_raw_mk_event [simp]: "ev_raw (mk_event k raw t) = raw"
  by (simp add: mk_event_def)

lemma ev_raw_decode_key [simp]: "ev_raw (decode_key raw m c) = raw"
  by (simp add: decode_key_def Let_def)

lemma ev_raw_decode_escape [simp]: "ev_raw (decode_escape_sequence raw) = raw"
  by (auto simp: decode_escape_sequence_def split: option.split sum.split)

lemma ev_raw_paste_event [simp]: "ev_raw (paste_event sp raw) = raw"
  by (auto simp: paste_event_def split: option.split)

lemma decode_step_event_raw: "decode_step sp sr p = StepEvent ev n sp' sr' \<Longrightarrow> ev_raw ev = take n p"
  by (auto simp: decode_step_def reply_step_def paste_step_def escape_step_def text_step_def Let_def
      split: if_splits option.splits)

lemma decode_step_flush_raw: "p \<noteq> [] \<Longrightarrow> decode_step sp sr p = StepFlush ev keep sp' sr' \<Longrightarrow> ev_raw ev @ keep = p"
  by (auto simp: decode_step_def reply_step_def paste_step_def escape_step_def text_step_def Let_def
      split: if_splits option.splits)

lemma decode_loop_conserves:
  "decode_loop sp sr p = (evs, keep, sp', sr') \<Longrightarrow> concat (map ev_raw evs) @ keep = p"
proof (induction sp sr p arbitrary: evs keep sp' sr' rule: decode_loop.induct)
  case (1 sp sr p)
  show ?case
  proof (cases "p = []")
    case False
    show ?thesis
    proof (cases "decode_step sp sr p")
      case (StepEvent ev n sp1 sr1)
      obtain evs1 st where loop: "decode_loop sp1 sr1 (drop n p) = (evs1, st)" by (rule prod.exhaust)
      with "1.prems" False StepEvent have "evs = ev # evs1" "st = (keep, sp', sr')"
        by (simp_all add: decode_loop.simps [of sp sr p])
      with "1.IH" [OF False StepEvent] loop have "concat (map ev_raw evs1) @ keep = drop n p" by simp
      with \<open>evs = ev # evs1\<close> decode_step_event_raw [OF StepEvent] show ?thesis by simp
    qed (use "1.prems" False decode_step_flush_raw [OF False] in \<open>auto simp: decode_loop.simps [of sp sr p]\<close>)
  qed (use "1.prems" in \<open>simp add: decode_loop.simps\<close>)
qed

datatype decoder_event = DecFeed bytes rat | DecExpire rat

fun decoder_step :: "decoder \<Rightarrow> decoder_event \<Rightarrow> decoder \<times> input_event list" where
  "decoder_step d (DecFeed data now) = feed data now d"
| "decoder_step d (DecExpire now) = expire_incomplete now d"

fun decoder_run :: "decoder \<Rightarrow> decoder_event list \<Rightarrow> decoder \<times> input_event list" where
  "decoder_run d [] = (d, [])"
| "decoder_run d (e # es) =
     (case decoder_step d e of (d', evs) \<Rightarrow> (case decoder_run d' es of (d'', evs') \<Rightarrow> (d'', evs @ evs')))"

fun fed_bytes :: "decoder_event list \<Rightarrow> bytes" where
  "fed_bytes [] = []"
| "fed_bytes (DecFeed data now # es) = data @ fed_bytes es"
| "fed_bytes (DecExpire now # es) = fed_bytes es"

lemma feed_conserves: "feed data now d = (d', evs) \<Longrightarrow> concat (map ev_raw evs) @ dec_pending d' = dec_pending d @ data"
  using decode_loop_conserves [of "dec_streaming_paste d" "dec_streaming_reply d" "dec_pending d @ data"]
  by (auto simp: feed_def split: prod.splits)

lemma expire_conserves: "expire_incomplete now d = (d', evs) \<Longrightarrow> concat (map ev_raw evs) @ dec_pending d' = dec_pending d"
proof -
  assume e: "expire_incomplete now d = (d', evs)"
  let ?p = "dec_pending d"
  have raw: "(if c then butlast ?p else ?p) @ drop (length (if c then butlast ?p else ?p)) ?p = ?p" for c
    by (cases ?p rule: rev_cases) auto
  show ?thesis
  proof (cases "incomplete_deadline d")
    case (Some deadline)
    show ?thesis
    proof (cases "now < deadline")
      case False
      define c where "c = ((dec_streaming_reply d \<or> starts_reply ?p) \<and> last ?p = 27)"
      from e Some False have "dec_pending d' = drop (length (if c then butlast ?p else ?p)) ?p"
        by (auto simp: expire_incomplete_def Let_def c_def)
      moreover from e Some False have "concat (map ev_raw evs) = (if c then butlast ?p else ?p)"
        by (auto simp: expire_incomplete_def Let_def c_def)
      ultimately show ?thesis using raw [of c] by simp
    qed (use e Some in \<open>simp add: expire_incomplete_def\<close>)
  qed (use e in \<open>simp add: expire_incomplete_def\<close>)
qed

text \<open>
  The decoder loses and invents no byte: after any sequence of reads and expiries,
  the raw bytes of the emitted events followed by the pending bytes are exactly the bytes that were
  read, in order, whatever the input.
\<close>

theorem decoder_conserves_bytes:
  "concat (map ev_raw (snd (decoder_run initial_decoder es))) @ dec_pending (fst (decoder_run initial_decoder es))
     = fed_bytes es"
proof -
  have "concat (map ev_raw (snd (decoder_run d es))) @ dec_pending (fst (decoder_run d es)) = dec_pending d @ fed_bytes es" for d
  proof (induction es arbitrary: d)
    case (Cons e es)
    obtain d' evs where step: "decoder_step d e = (d', evs)" by fastforce
    have "concat (map ev_raw evs) @ dec_pending d' @ fed_bytes es = dec_pending d @ fed_bytes (e # es)"
      using step feed_conserves [of _ _ d d' evs] expire_conserves [of _ d d' evs]
      by (cases e) (auto simp flip: append_assoc)
    moreover obtain d'' evs' where run: "decoder_run d' es = (d'', evs')" by fastforce
    ultimately show ?case using Cons.IH [of d'] step by simp
  qed simp
  then show ?thesis by (simp add: initial_decoder_def)
qed

subsection \<open>Bounded buffering\<close>

lemma decode_step_wait: "decode_step sp sr p = StepWait \<Longrightarrow> length p \<le> MAX_LOCAL_DRAFT_BYTES"
proof -
  assume w: "decode_step sp sr p = StepWait"
  have "length p \<le> 6" if "py_startswith PASTE_START p"
    using that by (auto simp: py_startswith_iff PASTE_START_def dest!: arg_cong [where f = length])
  with w show ?thesis
    by (auto simp: decode_step_def reply_step_def paste_step_def escape_step_def text_step_def Let_def utf8_amount_def
        MAX_LOCAL_DRAFT_BYTES_def split: if_splits option.splits)
qed

lemma decode_step_flush_keep: "decode_step sp sr p = StepFlush ev keep sp' sr' \<Longrightarrow> length keep \<le> MAX_LOCAL_DRAFT_BYTES"
  by (auto simp: decode_step_def reply_step_def paste_step_def escape_step_def text_step_def Let_def PASTE_END_def
      MAX_LOCAL_DRAFT_BYTES_def split: if_splits option.splits)

lemma decode_loop_bounded:
  "decode_loop sp sr p = (evs, keep, sp', sr') \<Longrightarrow> length keep \<le> MAX_LOCAL_DRAFT_BYTES"
proof (induction sp sr p arbitrary: evs keep sp' sr' rule: decode_loop.induct)
  case (1 sp sr p)
  show ?case
  proof (cases "p = []")
    case False
    show ?thesis
    proof (cases "decode_step sp sr p")
      case StepWait
      with "1.prems" False decode_step_wait show ?thesis by (auto simp: decode_loop.simps [of sp sr p])
    next
      case (StepFlush ev k sp1 sr1)
      with "1.prems" False decode_step_flush_keep [OF StepFlush] show ?thesis by (simp add: decode_loop.simps [of sp sr p])
    next
      case (StepEvent ev n sp1 sr1)
      obtain evs1 k sp2 sr2 where loop: "decode_loop sp1 sr1 (drop n p) = (evs1, k, sp2, sr2)" by (metis prod_cases4)
      with "1.IH" [OF False StepEvent loop] "1.prems" False StepEvent show ?thesis
        by (simp add: decode_loop.simps [of sp sr p])
    qed
  qed (use "1.prems" in \<open>simp add: decode_loop.simps\<close>)
qed

text \<open>
  Buffering is bounded: after every read, however large, at most 65536 bytes stay
  pending; an oversized paste or reply is streamed as opaque data instead.
\<close>

theorem feed_bounded: "length (dec_pending (fst (feed data now d))) \<le> MAX_LOCAL_DRAFT_BYTES"
  using decode_loop_bounded [of "dec_streaming_paste d" "dec_streaming_reply d" "dec_pending d @ data"]
  by (simp add: feed_def split: prod.split)

subsection \<open>Framing does not depend on read boundaries\<close>

lemma py_find_bound: "py_find p m = Some i \<Longrightarrow> i + length m \<le> length p"
proof (induction p m arbitrary: i rule: py_find.induct)
  case (2 x xs m)
  then show ?case
    by (auto simp: py_startswith_iff split: if_splits dest!: arg_cong [where f = length])
qed (auto split: if_splits)

lemma py_startswith_append: "py_startswith (p @ q) m \<Longrightarrow> length m \<le> length p \<Longrightarrow> py_startswith p m"
  by (simp add: py_startswith_take)

lemma py_startswith_extend: "py_startswith p m \<Longrightarrow> py_startswith (p @ q) m"
  by (auto simp: py_startswith_iff)

lemma py_find_append: "py_find p m = Some i \<Longrightarrow> py_find (p @ q) m = Some i"
proof (induction p m arbitrary: i rule: py_find.induct)
  case (1 m)
  then show ?case by (cases q) (auto split: if_splits)
next
  case (2 x xs m)
  show ?case
  proof (cases "py_startswith (x # xs) m")
    case True
    with "2.prems" py_startswith_extend [OF True, of q] show ?thesis by simp
  next
    case False
    with "2.prems" obtain z where z: "py_find xs m = Some z" "i = Suc z" by auto
    have "\<not> py_startswith (x # xs @ q) m"
      using False py_find_bound [OF z(1)] py_startswith_append [of "x # xs" q m] by auto
    with False z "2.IH" show ?thesis by auto
  qed
qed

lemma py_find_beyond: "py_find p m = None \<Longrightarrow> py_find (p @ q) m = Some j \<Longrightarrow> length p < j + length m"
proof (induction p m arbitrary: j rule: py_find.induct)
  case (2 x xs m)
  show ?case
  proof (cases "py_startswith (x # xs @ q) m")
    case True
    with 2 py_startswith_append [of "x # xs" q m] have "length (x # xs) < length m"
      by (auto split: if_splits intro: ccontr)
    then show ?thesis by simp
  next
    case False
    with "2.prems" obtain j' where "py_find (xs @ q) m = Some j'" "j = Suc j'" by auto
    with 2 show ?thesis by (auto split: if_splits)
  qed
qed (auto split: if_splits)

lemma reply_end_append: "reply_end p = Some a \<Longrightarrow> reply_end (p @ q) = Some a \<and> a \<le> length p"
  using py_find_bound [of p "[7]"] py_find_bound [of p "[27, 92]"] py_find_append [of p "[7]" _ q]
    py_find_append [of p "[27, 92]" _ q] py_find_beyond [of p "[7]" q] py_find_beyond [of p "[27, 92]" q]
  by (fastforce simp: reply_end_def split: option.splits)

lemma starts_reply_append: "2 \<le> length p \<Longrightarrow> starts_reply (p @ q) = starts_reply p"
  by (simp add: starts_reply_def)

lemma starts_reply_hd: "starts_reply p \<Longrightarrow> hd p = 27 \<and> 2 \<le> length p"
  by (cases p; cases "tl p") (auto simp: starts_reply_def)

lemma takeWhile_append_found:
  "length (takeWhile P xs) < length xs \<Longrightarrow> takeWhile P (xs @ ys) = takeWhile P xs"
  by (metis length_takeWhile_le not_less takeWhile_append1 takeWhile_eq_all_conv)

lemma csi_final_append: "csi_final p = Some f \<Longrightarrow> csi_final (p @ q) = Some f \<and> f < length p"
  by (auto simp: csi_final_def Let_def takeWhile_append_found split: if_splits)

lemma escape_step_append:
  assumes "escape_step sp sr p = StepEvent ev n sp' sr'" "p \<noteq> []"
  shows "escape_step sp sr (p @ q) = StepEvent ev n sp' sr' \<and> n \<le> length p"
proof -
  from assms have len: "2 \<le> length p" by (cases p) (auto simp: escape_step_def Suc_le_eq split: if_splits)
  then have "(p @ q) ! 1 = p ! 1" "take 1 (p @ q) = take 1 p" "take 2 (p @ q) = take 2 p"
    by (simp_all add: nth_append)
  moreover have "\<not> py_startswith PASTE_START (p @ q)" if "\<not> py_startswith PASTE_START p"
    using that by (auto simp: py_startswith_iff)
  ultimately show ?thesis
    using assms len csi_final_append [of p _ q]
    by (auto simp: escape_step_def split: if_splits option.splits)
qed

lemma text_step_append:
  assumes "text_step sp sr p = StepEvent ev n sp' sr'" "p \<noteq> []"
  shows "text_step sp sr (p @ q) = StepEvent ev n sp' sr' \<and> n \<le> length p"
proof -
  have "take k (p @ q) = take k p" if "\<not> length p < k" for k using that by simp
  moreover have "hd (p @ q) = hd p" "1 \<le> length p" using assms(2) by (simp_all add: Suc_le_eq)
  ultimately show ?thesis
    using assms(1) by (auto simp: text_step_def Let_def simp del: take_append split: if_splits option.splits)
qed

lemma paste_step_append:
  assumes "paste_step sp sr p = StepEvent ev n sp' sr'"
  shows "paste_step sp sr (p @ q) = StepEvent ev n sp' sr' \<and> n \<le> length p"
proof -
  from assms obtain i where i: "py_find p PASTE_END = Some i"
    by (auto simp: paste_step_def Let_def split: option.splits if_splits)
  have "take (i + length PASTE_END) (p @ q) = take (i + length PASTE_END) p"
    using py_find_bound [OF i] by simp
  with py_find_append [OF i, of q] py_find_bound [OF i] i assms show ?thesis
    by (auto simp: paste_step_def Let_def simp del: take_append)
qed

lemma reply_step_append:
  assumes "reply_step sp sr p = StepEvent ev n sp' sr'"
  shows "reply_step sp sr (p @ q) = StepEvent ev n sp' sr' \<and> n \<le> length p"
proof -
  from assms obtain a where a: "reply_end p = Some a"
    by (auto simp: reply_step_def split: option.splits if_splits)
  with reply_end_append [OF a, of q] assms show ?thesis by (auto simp: reply_step_def)
qed

lemma decode_step_append:
  assumes "decode_step sp sr p = StepEvent ev n sp' sr'" "p \<noteq> []"
  shows "decode_step sp sr (p @ q) = StepEvent ev n sp' sr' \<and> n \<le> length p"
proof (cases "\<not> sp \<and> (sr \<or> starts_reply p)")
  case True
  then have "\<not> sp \<and> (sr \<or> starts_reply (p @ q))"
    using starts_reply_hd [of p] starts_reply_append [of p q] by auto
  with True assms reply_step_append show ?thesis by (simp add: decode_step_def)
next
  case not_reply: False
  show ?thesis
  proof (cases "sp \<or> py_startswith p PASTE_START")
    case True
    then have "py_startswith (p @ q) PASTE_START \<or> sp" by (auto simp: py_startswith_iff)
    moreover have "sp \<or> \<not> starts_reply (p @ q)"
      using True not_reply starts_reply_append [of p q] by (auto simp: py_startswith_iff PASTE_START_def)
    ultimately show ?thesis
      using True not_reply assms paste_step_append by (auto simp: decode_step_def)
  next
    case not_paste: False
    have step: "(if hd p = 27 then escape_step sp sr p else text_step sp sr p) = StepEvent ev n sp' sr'"
      using assms not_reply not_paste by (auto simp: decode_step_def)
    have esc: "2 \<le> length p \<and> \<not> py_startswith PASTE_START p" if "hd p = 27"
      using step that assms(2)
      by (cases p; cases "tl p") (auto simp: escape_step_def PASTE_START_def split: if_splits)
    have "\<not> starts_reply (p @ q)"
      using not_reply not_paste esc starts_reply_append [of p q] starts_reply_hd [of "p @ q"] assms(2) by auto
    moreover have "\<not> py_startswith (p @ q) PASTE_START"
    proof
      assume a: "py_startswith (p @ q) PASTE_START"
      then have "hd p = 27" using assms(2) by (cases p) (auto simp: PASTE_START_def)
      moreover have "py_startswith PASTE_START p \<or> py_startswith p PASTE_START"
        using a unfolding py_startswith_iff append_eq_append_conv2 by metis
      ultimately show False using esc not_paste by auto
    qed
    ultimately show ?thesis
      using step not_reply not_paste assms(2) escape_step_append [OF _ assms(2)] text_step_append [OF _ assms(2)]
      by (auto simp: decode_step_def split: if_splits)
  qed
qed

lemma decode_step_no_flush: "length p \<le> MAX_LOCAL_DRAFT_BYTES \<Longrightarrow> decode_step sp sr p \<noteq> StepFlush ev keep sp' sr'"
  by (auto simp: decode_step_def reply_step_def paste_step_def escape_step_def text_step_def Let_def
      split: option.split)

lemma decode_loop_append:
  assumes "length (p @ q) \<le> MAX_LOCAL_DRAFT_BYTES"
  shows "decode_loop sp sr (p @ q) =
    (case decode_loop sp sr p of (evs, keep, sp', sr') \<Rightarrow>
       (case decode_loop sp' sr' (keep @ q) of (evs', st) \<Rightarrow> (evs @ evs', st)))"
  using assms
proof (induction sp sr p rule: decode_loop.induct)
  case (1 sp sr p)
  show ?case
  proof (cases "p = []")
    case True
    then show ?thesis by (simp add: decode_loop.simps [of sp sr "[]"])
  next
    case False
    show ?thesis
    proof (cases "decode_step sp sr p")
      case StepWait
      with False show ?thesis by (simp add: decode_loop.simps [of sp sr p])
    next
      case (StepFlush ev keep sp1 sr1)
      with decode_step_no_flush [of p] "1.prems" show ?thesis by simp
    next
      case (StepEvent ev n sp1 sr1)
      note ap = decode_step_append [OF StepEvent False, of q]
      have drop: "drop n (p @ q) = drop n p @ q" using ap by simp
      have "length (drop n p @ q) \<le> MAX_LOCAL_DRAFT_BYTES" using "1.prems" by simp
      note IH = "1.IH" [OF False StepEvent this]
      have "decode_loop sp sr (p @ q) = (case decode_loop sp1 sr1 (drop n p @ q) of (evs, st) \<Rightarrow> (ev # evs, st))"
        using ap drop False by (simp add: decode_loop.simps [of sp sr "p @ q"] del: drop_append)
      moreover have "decode_loop sp sr p = (case decode_loop sp1 sr1 (drop n p) of (evs, st) \<Rightarrow> (ev # evs, st))"
        using StepEvent False by (simp add: decode_loop.simps [of sp sr p])
      ultimately show ?thesis
        by (simp add: IH split: prod.split)
    qed
  qed
qed

text \<open>
  Property C28. Framing does not depend on how reads are split: as long as the buffered input
  stays within the limit, reading \<open>a\<close> and then \<open>b\<close> emits the same events and leaves the same
  decoder state as reading them at once, so no key, reply, paste or character is framed differently
  because it arrived in pieces.
\<close>

theorem feed_chunking:
  assumes "length (dec_pending d) + length a + length b \<le> MAX_LOCAL_DRAFT_BYTES"
    and "feed a now d = (d1, evs1)" and "feed b now d1 = (d2, evs2)"
  shows "feed (a @ b) now d = (d2, evs1 @ evs2)"
proof -
  obtain keep sp sr where l1: "decode_loop (dec_streaming_paste d) (dec_streaming_reply d) (dec_pending d @ a) = (evs1, keep, sp, sr)"
    and d1: "dec_pending d1 = keep" "dec_streaming_paste d1 = sp" "dec_streaming_reply d1 = sr"
      "dec_last_data_at d1 = (if a \<noteq> [] then Some now else dec_last_data_at d)"
    using assms(2) by (auto simp: feed_def split: prod.splits)
  have "decode_loop (dec_streaming_paste d) (dec_streaming_reply d) ((dec_pending d @ a) @ b) =
      (case decode_loop sp sr (keep @ b) of (evs', st) \<Rightarrow> (evs1 @ evs', st))"
    using decode_loop_append [of "dec_pending d @ a" b] assms(1) l1 by simp
  with assms(3) d1 show ?thesis
    by (auto simp: feed_def split: prod.splits)
qed

subsection \<open>Control characters from outside ASCII\<close>

text \<open>The letter test folds case before it masks, so two characters outside ASCII count as letters
  and are masked with their own code point. Control with the Kelvin sign is reported as the control
  key \<^verbatim>\<open>\n\<close>, which the interceptor treats as Enter.\<close>

lemma control_kelvin_is_line_feed:
  "decode_escape_sequence [27, 91, 56, 52, 57, 48, 59, 53, 117] =
     mk_event KindControl [27, 91, 56, 52, 57, 48, 59, 53, 117] [10]"
  by (simp add: decode_escape_sequence_def NAV_UP_def NAV_DOWN_def is_reply_sequence_def key_identity_def
      py_int_bytes_def bytes_isspace_def is_digit_byte_def decode_key_def key_char_def letter_range_def upper_char_def Let_def)

subsection \<open>Witnesses\<close>

lemma demo_escape_wait: "feed [27] 1 initial_decoder =
    (\<lparr>dec_pending = [27], dec_last_data_at = Some 1, dec_streaming_paste = False, dec_streaming_reply = False\<rparr>, [])"
  by (simp add: feed_def initial_decoder_def decode_loop.simps decode_step_def starts_reply_def escape_step_def
      PASTE_START_def)

lemma demo_escape_rest: "feed [91, 65] 1
    \<lparr>dec_pending = [27], dec_last_data_at = Some 1, dec_streaming_paste = False, dec_streaming_reply = False\<rparr> =
    (\<lparr>dec_pending = [], dec_last_data_at = Some 1, dec_streaming_paste = False, dec_streaming_reply = False\<rparr>,
     [mk_event KindNavigation [27, 91, 65] (lit ''up'')])"
  by (simp add: feed_def decode_loop.simps decode_step_def starts_reply_def escape_step_def PASTE_START_def
      csi_final_def decode_escape_sequence_def NAV_UP_def)

theorem feed_chunking_witness:
  "feed ([27] @ [91, 65]) 1 initial_decoder =
    (\<lparr>dec_pending = [], dec_last_data_at = Some 1, dec_streaming_paste = False, dec_streaming_reply = False\<rparr>,
     [] @ [mk_event KindNavigation [27, 91, 65] (lit ''up'')])"
  by (rule feed_chunking [OF _ demo_escape_wait demo_escape_rest])
     (simp add: initial_decoder_def MAX_LOCAL_DRAFT_BYTES_def)

end
