(* ===== verification/Text_Codec.thy ===== *)
theory Text_Codec
  imports Protocol_Input_Text Terminal_Input
begin

section \<open>UTF-8 in both directions\<close>

text \<open>
  The encoder that the submitted-text edits and the input interceptor use and the strict decoder of
  the terminal input are inverse to each other: this is what ties the text of decoded events to the
  bytes the interceptor sends back.
\<close>

definition encodable :: "pystr \<Rightarrow> bool" where
  "encodable t \<longleftrightarrow> (\<forall>c \<in> set t. \<not> is_surrogate c)"

definition scalar :: "nat \<Rightarrow> bool" where
  "scalar c \<longleftrightarrow> c < 1114112 \<and> \<not> is_surrogate c"

lemma encodable_simps [simp]:
  "encodable []" "encodable (s @ t) \<longleftrightarrow> encodable s \<and> encodable t"
  by (auto simp: encodable_def)

lemma encodable_parts: "encodable t \<Longrightarrow> encodable (butlast t)" "encodable t \<Longrightarrow> encodable (drop n t)"
  by (auto simp: encodable_def dest: in_set_butlastD in_set_dropD)

lemma utf8_encode_encodable: "encodable t \<Longrightarrow> utf8_encode t = Some (utf8 t)"
  by (auto simp: encodable_def utf8_encode_def)

text \<open>The base-64 digits of a code point.\<close>

lemma div_4096: "c div 4096 = c div 64 div (64 :: nat)" and div_262144: "c div 262144 = c div 64 div 64 div (64 :: nat)"
  by (simp_all add: div_mult2_eq [symmetric])

lemma utf8_char_digits:
  assumes "x < 64" "y < 64" "z < 64"
  shows "2 \<le> a \<Longrightarrow> a < 32 \<Longrightarrow> utf8_char (a * 64 + x) = [192 + a, 128 + x]"
    and "32 \<le> a * 64 + x \<Longrightarrow> a < 16 \<Longrightarrow> utf8_char ((a * 64 + x) * 64 + y) = [224 + a, 128 + x, 128 + y]"
    and "16 \<le> a * 64 + x \<Longrightarrow> utf8_char (((a * 64 + x) * 64 + y) * 64 + z) = [240 + a, 128 + x, 128 + y, 128 + z]"
proof -
  have d: "(u * 64 + v) div 64 = u" "(u * 64 + v) mod 64 = v" if "v < 64" for u v :: nat using that by simp_all
  show "2 \<le> a \<Longrightarrow> a < 32 \<Longrightarrow> utf8_char (a * 64 + x) = [192 + a, 128 + x]"
    using assms unfolding utf8_char_def d [OF assms(1)] by auto
  show "32 \<le> a * 64 + x \<Longrightarrow> a < 16 \<Longrightarrow> utf8_char ((a * 64 + x) * 64 + y) = [224 + a, 128 + x, 128 + y]"
    using assms unfolding utf8_char_def div_4096 d [OF assms(1)] d [OF assms(2)] by auto
  show "16 \<le> a * 64 + x \<Longrightarrow> utf8_char (((a * 64 + x) * 64 + y) * 64 + z) = [240 + a, 128 + x, 128 + y, 128 + z]"
    using assms unfolding utf8_char_def div_4096 div_262144 d [OF assms(1)] d [OF assms(2)] d [OF assms(3)] by auto
qed

lemma utf8_decode_digits:
  assumes "x < 64" "y < 64" "z < 64"
  shows "2 \<le> a \<Longrightarrow> a < 32 \<Longrightarrow> utf8_decode ((192 + a) # (128 + x) # bs) = map_option ((#) (a * 64 + x)) (utf8_decode bs)"
    and "32 \<le> a * 64 + x \<Longrightarrow> a < 16 \<Longrightarrow> \<not> is_surrogate ((a * 64 + x) * 64 + y) \<Longrightarrow>
      utf8_decode ((224 + a) # (128 + x) # (128 + y) # bs) = map_option ((#) ((a * 64 + x) * 64 + y)) (utf8_decode bs)"
    and "16 \<le> a * 64 + x \<Longrightarrow> a * 64 + x < 272 \<Longrightarrow>
      utf8_decode ((240 + a) # (128 + x) # (128 + y) # (128 + z) # bs) =
        map_option ((#) (((a * 64 + x) * 64 + y) * 64 + z)) (utf8_decode bs)"
  using assms by (auto simp: cont_byte_def is_surrogate_def algebra_simps)

lemma utf8_decode_char:
  assumes "scalar c"
  shows "utf8_decode (utf8_char c @ bs) = map_option ((#) c) (utf8_decode bs)"
proof -
  have b: "u mod 64 < 64" for u :: nat by simp
  have c1: "c = c div 64 * 64 + c mod 64"
    and c2: "c = (c div 64 div 64 * 64 + c div 64 mod 64) * 64 + c mod 64"
    and c3: "c = ((c div 64 div 64 div 64 * 64 + c div 64 div 64 mod 64) * 64 + c div 64 mod 64) * 64 + c mod 64"
    by simp_all
  consider "c < 128" | "128 \<le> c" "c < 2048" | "2048 \<le> c" "c < 65536" | "65536 \<le> c" "c < 1114112"
    using assms unfolding scalar_def by (metis leI)
  then show ?thesis
  proof cases
    case 1
    then show ?thesis by (simp add: utf8_char_def)
  next
    case 2
    then have a: "2 \<le> c div 64" "c div 64 < 32" by auto
    show ?thesis
      using utf8_char_digits(1) [OF b b b a, of c] utf8_decode_digits(1) [OF b b b a, of c bs] by (simp flip: c1)
  next
    case 3
    then have a: "32 \<le> c div 64 div 64 * 64 + c div 64 mod 64" "c div 64 div 64 < 16" by auto
    show ?thesis
      using utf8_char_digits(2) [OF b b b a, of c] utf8_decode_digits(2) [OF b b b a, of c bs] assms
      by (simp add: scalar_def flip: c2)
  next
    case 4
    then have a: "16 \<le> c div 64 div 64 div 64 * 64 + c div 64 div 64 mod 64"
      "c div 64 div 64 div 64 * 64 + c div 64 div 64 mod 64 < 272" by auto
    show ?thesis
      using utf8_char_digits(3) [OF b b b a(1), of "c div 64" c] utf8_decode_digits(3) [OF b b b a, of "c div 64" c bs]
      by (simp flip: c3)
  qed
qed

lemma utf8_decode_utf8: "\<forall>c \<in> set t. scalar c \<Longrightarrow> utf8_decode (utf8 t) = Some t"
  by (induction t) (simp_all add: utf8_def utf8_decode_char)

lemma cont_byte_digit:
  assumes "cont_byte b"
  obtains x where "x < 64" "b = 128 + x"
  using assms that [of "b - 128"] by (auto simp: cont_byte_def)

text \<open>What the decoder takes first from its input is the encoding of one scalar value.\<close>

lemma utf8_decode_first:
  assumes "utf8_decode (b # bs) = Some t"
  obtains c r t' where "b # bs = utf8_char c @ r" "scalar c" "t = c # t'" "utf8_decode r = Some t'" "length r \<le> length bs"
proof -
  consider (one) "b < 128" | (two) "194 \<le> b" "b \<le> 223" | (three) "224 \<le> b" "b \<le> 239" | (four) "240 \<le> b" "b \<le> 244"
    using assms by (auto split: if_splits)
  then show thesis
  proof cases
    case one
    with assms show thesis
      by (intro that [of b bs "tl t"]) (auto simp: utf8_char_def scalar_def is_surrogate_def)
  next
    case two
    with assms obtain d r where bs: "bs = d # r" "cont_byte d" by (auto split: list.splits if_splits)
    from bs(2) obtain x where x: "x < 64" "d = 128 + x" by (rule cont_byte_digit)
    obtain a where a: "b = 192 + a" "2 \<le> a" "a < 32" using two by (intro that [of "b - 192"]) auto
    with assms bs x show thesis
      using utf8_char_digits(1) [OF x(1) x(1) x(1) a(2,3)] utf8_decode_digits(1) [OF x(1) x(1) x(1) a(2,3), of r]
      by (intro that [of "a * 64 + x" r "tl t"]) (auto simp: scalar_def is_surrogate_def)
  next
    case three
    with assms obtain d e r where bs: "bs = d # e # r" "cont_byte d" "cont_byte e" "b = 224 \<longrightarrow> 160 \<le> d" "b = 237 \<longrightarrow> d < 160"
      by (auto split: list.splits if_splits)
    from bs(2) obtain x where x: "x < 64" "d = 128 + x" by (rule cont_byte_digit)
    from bs(3) obtain y where y: "y < 64" "e = 128 + y" by (rule cont_byte_digit)
    obtain a where a: "b = 224 + a" "a < 16" using three by (intro that [of "b - 224"]) auto
    have low: "32 \<le> a * 64 + x" using bs(4) a x by (cases a) auto
    have sur: "\<not> is_surrogate ((a * 64 + x) * 64 + y)"
      using bs(5) a x y by (cases "a = 13") (auto simp: is_surrogate_def)
    from assms bs a x y sur low show thesis
      using utf8_char_digits(2) [OF x(1) y(1) y(1) low a(2)] utf8_decode_digits(2) [OF x(1) y(1) y(1) low a(2) sur, of r]
      by (intro that [of "(a * 64 + x) * 64 + y" r "tl t"]) (auto simp: scalar_def)
  next
    case four
    with assms obtain d e f r where bs: "bs = d # e # f # r" "cont_byte d" "cont_byte e" "cont_byte f"
        "b = 240 \<longrightarrow> 144 \<le> d" "b = 244 \<longrightarrow> d < 144"
      by (auto split: list.splits if_splits)
    from bs(2) obtain x where x: "x < 64" "d = 128 + x" by (rule cont_byte_digit)
    from bs(3) obtain y where y: "y < 64" "e = 128 + y" by (rule cont_byte_digit)
    from bs(4) obtain z where z: "z < 64" "f = 128 + z" by (rule cont_byte_digit)
    obtain a where a: "b = 240 + a" "a < 5" using four by (intro that [of "b - 240"]) auto
    have low: "16 \<le> a * 64 + x" using bs(5) a x by (cases a) auto
    have high: "a * 64 + x < 272" using bs(6) a x by (cases "a = 4") auto
    from assms bs a x y z low high show thesis
      using utf8_char_digits(3) [OF x(1) y(1) z(1) low] utf8_decode_digits(3) [OF x(1) y(1) z(1) low high, of r]
      by (intro that [of "((a * 64 + x) * 64 + y) * 64 + z" r "tl t"]) (auto simp: scalar_def is_surrogate_def)
  qed
qed

lemma utf8_decode_sound: "utf8_decode bs = Some t \<Longrightarrow> utf8 t = bs \<and> (\<forall>c \<in> set t. scalar c)"
proof (induction "length bs" arbitrary: bs t rule: less_induct)
  case less
  show ?case
  proof (cases bs)
    case Nil
    with less.prems show ?thesis by simp
  next
    case (Cons b rest)
    with less.prems have "utf8_decode (b # rest) = Some t" by (simp only:)
    then obtain c r t' where c: "b # rest = utf8_char c @ r" "scalar c" "t = c # t'" "utf8_decode r = Some t'"
        "length r \<le> length rest"
      by (rule utf8_decode_first)
    from c(5) Cons have "length r < length bs" by simp
    with less.hyps [of r t'] c Cons show ?thesis by (simp add: utf8_def)
  qed
qed

text \<open>
  UTF-8 decoding and encoding are inverse: the strict decoder of terminal input accepts
  a byte string exactly when it is the encoding of a text of Unicode scalar values, and then returns
  that text. Overlong forms, surrogates and values beyond U+10FFFF are refused.
\<close>

theorem utf8_round_trip:
  "utf8_decode bs = Some t \<longleftrightarrow> list_all (\<lambda>c. c < 1114112) t \<and> utf8_encode t = Some bs"
  using utf8_decode_sound [of bs t] utf8_decode_utf8 [of t]
  by (auto simp: utf8_encode_eq_Some list_all_iff scalar_def)

lemma utf8_decode_encodable: "utf8_decode bs = Some t \<Longrightarrow> encodable t"
  using utf8_decode_sound [of bs t] by (auto simp: encodable_def scalar_def)

end
