(* ===== verification/Input_Interceptor.thy ===== *)
theory Input_Interceptor
  imports Input_Menu Text_Codec
begin

section \<open>Input interception: takeover and release\<close>

text \<open>
  \<^verbatim>\<open>TerminalInputInterceptor\<close> of \<^verbatim>\<open>src/rodex/terminal_input.py\<close>. The state holds the bytes forwarded
  to the native terminal; the check of the native prefix, the interaction pipeline and the view
  serialisation are parameters, the first two as functions of a world state, and the pipeline may
  raise. Every \<^verbatim>\<open>assert\<close> and every exception of the menu is a value of \<open>ic_error\<close>.
\<close>

datatype 'x ic_error = IcMenu menu_error | IcAssertion | IcEncode | IcPipeline "'x exn"

record 'w interceptor =
  ic_candidate :: pystr
  ic_menu :: "menu option"
  ic_forwarded_prefix :: pystr
  ic_discard_paired_lf :: bool
  ic_forwarded :: bytes
  ic_world :: 'w

record ('w, 'x) interceptor_env =
  ie_registrations :: "registration list"
  ie_confirm_native_prefix :: "pystr \<Rightarrow> 'w \<Rightarrow> 'w \<times> bool"
  ie_execute :: "interaction_request \<Rightarrow> 'w \<Rightarrow> 'w \<times> ('x exn + 'x interaction_result)"
  ie_serialize :: "menu_view \<Rightarrow> pystr"
  ie_request_id :: pystr

type_synonym ('w, 'x, 'a) ic_action = "('w interceptor, 'x ic_error, 'a) action"

definition INPUT_MENU_TARGET :: pystr where
  "INPUT_MENU_TARGET = lit ''input-interceptor-menu''"

definition names_unique :: "('w, 'x) interceptor_env \<Rightarrow> bool" where
  "names_unique env \<longleftrightarrow> distinct (map reg_name (ie_registrations env))"

definition initial_interceptor :: "'w \<Rightarrow> 'w interceptor" where
  "initial_interceptor w =
     \<lparr>ic_candidate = [], ic_menu = None, ic_forwarded_prefix = [], ic_discard_paired_lf = False, ic_forwarded = [],
      ic_world = w\<rparr>"

text \<open>\<^verbatim>\<open>event.key\<close>; the text of a control event is one ASCII character.\<close>

definition event_key :: "input_event \<Rightarrow> bytes" where
  "event_key e = (if ev_kind e = KindControl \<and> ev_text e \<noteq> [] then ev_text e else ev_raw e)"

definition is_control :: "input_event \<Rightarrow> bytes list \<Rightarrow> bool" where
  "is_control e keys \<longleftrightarrow> ev_kind e = KindControl \<and> event_key e \<in> set keys"

subsection \<open>Primitive actions\<close>

definition get :: "('w interceptor \<Rightarrow> 'a) \<Rightarrow> ('w, 'x, 'a) ic_action" where
  "get f = (\<lambda>s. (s, Inr (f s)))"

definition modify :: "('w interceptor \<Rightarrow> 'w interceptor) \<Rightarrow> ('w, 'x, unit) ic_action" where
  "modify f = (\<lambda>s. (f s, Inr ()))"

definition forward :: "bytes \<Rightarrow> ('w, 'x, unit) ic_action" where
  "forward bs = modify (\<lambda>s. s\<lparr>ic_forwarded := ic_forwarded s @ bs\<rparr>)"

definition confirm_native_prefix :: "('w, 'x) interceptor_env \<Rightarrow> pystr \<Rightarrow> ('w, 'x, bool) ic_action" where
  "confirm_native_prefix env p =
     (\<lambda>s. case ie_confirm_native_prefix env p (ic_world s) of (w, b) \<Rightarrow> (s\<lparr>ic_world := w\<rparr>, Inr b))"

definition execute_ic :: "('w, 'x) interceptor_env \<Rightarrow> interaction_request \<Rightarrow> ('w, 'x, 'x interaction_result) ic_action" where
  "execute_ic env r =
     (\<lambda>s. case ie_execute env r (ic_world s) of
            (w, Inl e) \<Rightarrow> (s\<lparr>ic_world := w\<rparr>, Inl (IcPipeline e))
          | (w, Inr result) \<Rightarrow> (s\<lparr>ic_world := w\<rparr>, Inr result))"

definition encoded :: "pystr \<Rightarrow> ('w, 'x, bytes) ic_action" where
  "encoded t = (case utf8_encode t of None \<Rightarrow> raise IcEncode | Some bs \<Rightarrow> ret bs)"

fun lift_menu :: "menu_error + 'a \<Rightarrow> ('w, 'x, 'a) ic_action" where
  "lift_menu (Inl e) = raise (IcMenu e)"
| "lift_menu (Inr x) = ret x"

text \<open>\<^verbatim>\<open>assert self._menu is not None\<close>.\<close>

definition require_menu :: "('w, 'x, menu) ic_action" where
  "require_menu = and_then (get ic_menu) (\<lambda>m. case m of None \<Rightarrow> raise IcAssertion | Some m \<Rightarrow> ret m)"

definition ic_request :: "('w, 'x) interceptor_env \<Rightarrow> pystr \<Rightarrow> interaction_operation \<Rightarrow> pystr \<Rightarrow> payload \<Rightarrow> interaction_request" where
  "ic_request env target op txt payload =
     \<lparr>req_target = target, req_operation = op, req_source = lit ''terminal-interceptor'', req_text = Some txt,
      req_start_model_turn = False, req_payload = payload, req_open_if_missing = False, req_size_percent = None,
      req_dispatch_id = None, req_expected_turn_id = None, req_expected_thread_id = None, req_expected_binding = None,
      req_request_id = ie_request_id env\<rparr>"

subsection \<open>Publication and release\<close>

definition publish :: "('w, 'x) interceptor_env \<Rightarrow> interaction_operation \<Rightarrow> menu \<Rightarrow> ('w, 'x, bool) ic_action" where
  "publish env op m =
     and_then (get ic_forwarded_prefix) (\<lambda>p.
     and_then (lift_menu (view p m)) (\<lambda>v.
     and_then (execute_ic env (ic_request env INPUT_MENU_TARGET op (menu_draft m) (PayloadStr (ie_serialize env v)))) (\<lambda>r.
     ret (accepted r))))"

definition release :: "('w, 'x) interceptor_env \<Rightarrow> ('w, 'x, unit) ic_action" where
  "release env =
     and_then (get ic_menu) (\<lambda>m.
     and_then
       (case m of
          None \<Rightarrow> ret ()
        | Some m' \<Rightarrow>
            and_then (publish env OpInputRelease m') (\<lambda>_.
            modify (\<lambda>s. s\<lparr>ic_candidate := ic_forwarded_prefix s\<rparr>)))
       (\<lambda>_. modify (\<lambda>s. s\<lparr>ic_menu := None, ic_forwarded_prefix := []\<rparr>)))"

definition transition_menu :: "('w, 'x) interceptor_env \<Rightarrow> (menu \<Rightarrow> menu_error + menu) \<Rightarrow> ('w, 'x, unit) ic_action" where
  "transition_menu env transition =
     and_then require_menu (\<lambda>m.
     and_then (lift_menu (transition m)) (\<lambda>candidate.
     and_then (publish env OpInteractiveInput candidate) (\<lambda>ok.
     if ok then modify (\<lambda>s. s\<lparr>ic_menu := Some candidate\<rparr>) else ret ())))"

definition complete_local_request ::
  "('w, 'x) interceptor_env \<Rightarrow> registration \<Rightarrow> interaction_operation \<Rightarrow> pystr \<Rightarrow> pystr \<Rightarrow> ('w, 'x, bool) ic_action" where
  "complete_local_request env entry op txt forwarded_prefix =
     and_then (confirm_native_prefix env forwarded_prefix) (\<lambda>ok.
     if \<not> ok then ret False
     else and_then (execute_ic env (ic_request env (registration_target entry) op txt PayloadNone)) (\<lambda>result.
       if \<not> accepted result then ret False
       else and_then (forward (replicate (length forwarded_prefix) 127)) (\<lambda>_.
         and_then (release env) (\<lambda>_.
         and_then (modify (\<lambda>s. s\<lparr>ic_candidate := []\<rparr>)) (\<lambda>_.
         ret True)))))"

definition enter_matches :: "registration list \<Rightarrow> pystr \<Rightarrow> registration list" where
  "enter_matches regs draft = filter (\<lambda>r. rule_matches (reg_on_enter r) draft) regs"

definition submit ::
  "('w, 'x) interceptor_env \<Rightarrow> pystr \<Rightarrow> pystr \<Rightarrow> registration option \<Rightarrow> ('w, 'x, bool) ic_action" where
  "submit env draft forwarded_prefix selected =
     (let regs = (case selected of Some r \<Rightarrow> [r] | None \<Rightarrow> ie_registrations env) in
      case enter_matches regs draft of
        [entry] \<Rightarrow> complete_local_request env entry OpSubmittedCommand draft forwarded_prefix
      | _ \<Rightarrow> ret False)"

definition return_to_native :: "('w, 'x) interceptor_env \<Rightarrow> bytes \<Rightarrow> ('w, 'x, unit) ic_action" where
  "return_to_native env raw =
     and_then require_menu (\<lambda>m.
     and_then (get ic_forwarded_prefix) (\<lambda>p.
     and_then (encoded (drop (length p) (menu_draft m))) (\<lambda>held_suffix.
     and_then (forward (PASTE_START @ held_suffix @ PASTE_END)) (\<lambda>_.
     and_then (release env) (\<lambda>_.
     and_then (modify (\<lambda>s. s\<lparr>ic_candidate := []\<rparr>)) (\<lambda>_.
     forward raw))))))"

subsection \<open>Events while the menu is open\<close>

text \<open>The keys of the argument picker.\<close>

definition accept_arguments :: "('w, 'x) interceptor_env \<Rightarrow> input_event \<Rightarrow> menu \<Rightarrow> ('w, 'x, unit) ic_action" where
  "accept_arguments env e m =
     (if is_control e [[27]] then transition_menu env (\<lambda>m. Inr (back_to_commands m))
      else if is_control e [[3]] then release env
      else if is_control e [[13], [10]] then
        and_then (modify (\<lambda>s. s\<lparr>ic_discard_paired_lf := (event_key e = [13])\<rparr>)) (\<lambda>_.
        and_then (lift_menu (selected_option m)) (\<lambda>choice.
        case (selected_command m, choice) of
          (Some entry, Some p) \<Rightarrow>
            and_then (get ic_forwarded_prefix) (\<lambda>prefix_text.
            and_then (submit env (option_submission entry p) prefix_text (Some entry)) (\<lambda>_. ret ()))
        | _ \<Rightarrow> ret ()))
      else ret ())"

text \<open>Enter in the command list.\<close>

definition accept_enter :: "('w, 'x) interceptor_env \<Rightarrow> input_event \<Rightarrow> menu \<Rightarrow> ('w, 'x, unit) ic_action" where
  "accept_enter env e m =
     and_then (modify (\<lambda>s. s\<lparr>ic_discard_paired_lf := (event_key e = [13])\<rparr>)) (\<lambda>_.
     case selected_command m of
       Some entry \<Rightarrow>
         if menu_options entry \<noteq> [] then transition_menu env (\<lambda>m. Inr (open_arguments m))
         else and_then (get ic_forwarded_prefix) (\<lambda>p.
           and_then (complete_local_request env entry OpInputConfigurationError (reg_completion_text entry) p) (\<lambda>_. ret ()))
     | None \<Rightarrow>
         if length (enter_matches (ie_registrations env) (menu_draft m)) \<noteq> 1 then return_to_native env (ev_raw e)
         else and_then (get ic_forwarded_prefix) (\<lambda>p.
           and_then (submit env (menu_draft m) p None) (\<lambda>_. ret ())))"

text \<open>The end of \<^verbatim>\<open>_accept_local\<close> after an edit of the draft.\<close>

definition after_edit :: "('w, 'x) interceptor_env \<Rightarrow> menu \<Rightarrow> ('w, 'x, unit) ic_action" where
  "after_edit env m =
     and_then (modify (\<lambda>s. s\<lparr>ic_menu := Some m\<rparr>)) (\<lambda>_.
     and_then (get ic_forwarded_prefix) (\<lambda>p.
     if menu_draft m = p then release env
     else and_then (publish env OpInteractiveInput m) (\<lambda>ok.
       if ok then ret () else return_to_native env [])))"

definition accept_commands :: "('w, 'x) interceptor_env \<Rightarrow> input_event \<Rightarrow> menu \<Rightarrow> ('w, 'x, unit) ic_action" where
  "accept_commands env e m =
     (if ev_kind e \<in> {KindText, KindPaste} then
        and_then (encoded (menu_draft m @ ev_text e)) (\<lambda>bs.
        if length bs > MAX_LOCAL_DRAFT_BYTES then return_to_native env (ev_raw e)
        else after_edit env (update_draft (menu_draft m @ ev_text e) m))
      else if is_control e [[27], [3]] then release env
      else if is_control e [[127], [8]] then after_edit env (update_draft (butlast (menu_draft m)) m)
      else if is_control e [[9]] then
        (case selected_command m of
           Some entry \<Rightarrow> transition_menu env (\<lambda>m. Inr (update_draft (reg_completion_text entry) m))
         | None \<Rightarrow> ret ())
      else if is_control e [[13], [10]] then accept_enter env e m
      else return_to_native env (ev_raw e))"

definition accept_local :: "('w, 'x) interceptor_env \<Rightarrow> input_event \<Rightarrow> ('w, 'x, unit) ic_action" where
  "accept_local env e =
     and_then require_menu (\<lambda>m.
     if ev_kind e = KindNavigation then
       transition_menu env (move_selection (if ev_text e = lit ''up'' then - 1 else 1))
     else if menu_stage m = StageArguments then accept_arguments env e m
     else accept_commands env e m)"

subsection \<open>Events while the native editor owns the input\<close>

text \<open>Whether the menu takes over the candidate: it is published, or released again.\<close>

definition try_takeover :: "('w, 'x) interceptor_env \<Rightarrow> pystr \<Rightarrow> pystr \<Rightarrow> ('w, 'x, bool) ic_action" where
  "try_takeover env held candidate =
     (let m = new_menu (ie_registrations env) candidate in
      if matching_commands m = [] then ret False
      else and_then (confirm_native_prefix env held) (\<lambda>ok.
        if \<not> ok then ret False
        else and_then (modify (\<lambda>s. s\<lparr>ic_menu := Some m, ic_forwarded_prefix := held\<rparr>)) (\<lambda>_.
          and_then (publish env OpInteractiveInput m) (\<lambda>published.
          if published then ret True else and_then (release env) (\<lambda>_. ret False)))))"

definition accept_native :: "('w, 'x) interceptor_env \<Rightarrow> input_event \<Rightarrow> ('w, 'x, unit) ic_action" where
  "accept_native env e =
     and_then (get ic_candidate) (\<lambda>held.
     if ev_kind e \<in> {KindText, KindPaste} then
       (let candidate = held @ ev_text e in
        and_then (try_takeover env held candidate) (\<lambda>taken.
        if taken then ret ()
        else and_then (encoded candidate) (\<lambda>bs.
          and_then (modify (\<lambda>s. s\<lparr>ic_candidate := (if length bs \<le> MAX_LOCAL_DRAFT_BYTES then candidate else [])\<rparr>)) (\<lambda>_.
          forward (ev_raw e)))))
     else if is_control e [[13], [10]] then
       and_then (modify (\<lambda>s. s\<lparr>ic_discard_paired_lf := (event_key e = [13])\<rparr>)) (\<lambda>_.
       and_then (submit env held held None) (\<lambda>handled.
       if handled then ret ()
       else and_then (modify (\<lambda>s. s\<lparr>ic_candidate := []\<rparr>)) (\<lambda>_. forward (ev_raw e))))
     else if is_control e [[127], [8]] then
       and_then (modify (\<lambda>s. s\<lparr>ic_candidate := butlast held\<rparr>)) (\<lambda>_. forward (ev_raw e))
     else and_then (modify (\<lambda>s. s\<lparr>ic_candidate := []\<rparr>)) (\<lambda>_. forward (ev_raw e)))"

definition accept_event :: "('w, 'x) interceptor_env \<Rightarrow> input_event \<Rightarrow> ('w, 'x, unit) ic_action" where
  "accept_event env e =
     (if ev_kind e = KindTerminalReply then forward (ev_raw e)
      else and_then (get ic_discard_paired_lf) (\<lambda>discard.
        and_then (modify (\<lambda>s. s\<lparr>ic_discard_paired_lf := False\<rparr>)) (\<lambda>_.
        if discard \<and> event_key e = [10] then ret ()
        else and_then (get ic_menu) (\<lambda>m.
          if m \<noteq> None then accept_local env e else accept_native env e))))"

text \<open>The events of one read, each accepted in turn; what an event raised does not stop the next.\<close>

fun accept_events :: "('w, 'x) interceptor_env \<Rightarrow> input_event list \<Rightarrow> 'w interceptor \<Rightarrow> 'w interceptor \<times> ('x ic_error + unit) list" where
  "accept_events env [] s = (s, [])"
| "accept_events env (e # es) s =
     (case accept_event env e s of (s1, r) \<Rightarrow> (case accept_events env es s1 of (s2, rs) \<Rightarrow> (s2, r # rs)))"

subsection \<open>The interceptor never reaches an invalid menu\<close>

definition menu_good :: "('w, 'x) interceptor_env \<Rightarrow> menu \<Rightarrow> bool" where
  "menu_good env m \<longleftrightarrow> menu_inv m \<and> menu_registrations m = ie_registrations env \<and> encodable (menu_draft m)"

definition ic_inv :: "('w, 'x) interceptor_env \<Rightarrow> 'w interceptor \<Rightarrow> bool" where
  "ic_inv env s \<longleftrightarrow>
     encodable (ic_candidate s) \<and> encodable (ic_forwarded_prefix s) \<and> (\<forall>m. ic_menu s = Some m \<longrightarrow> menu_good env m)"

text \<open>The only exception left is one of the interaction pipeline.\<close>

definition from_pipeline :: "('w, 'x) interceptor_env \<Rightarrow> 'x ic_error \<Rightarrow> 'w interceptor \<Rightarrow> bool" where
  "from_pipeline env e s \<longleftrightarrow> (\<exists>x. e = IcPipeline x) \<and> ic_inv env s"

definition env_ok :: "('w, 'x) interceptor_env \<Rightarrow> bool" where
  "env_ok env \<longleftrightarrow> (\<forall>r \<in> set (ie_registrations env). registration_ok r)"

abbreviation ic_keeps :: "('w, 'x) interceptor_env \<Rightarrow> ('w, 'x, 'a) ic_action \<Rightarrow> 'w interceptor \<Rightarrow> bool" where
  "ic_keeps env act \<equiv> wp act (\<lambda>_. ic_inv env) (from_pipeline env)"

lemma wp_get [simp]: "wp (get f) Q E s = Q (f s) s"
  by (simp add: wp_def get_def)

lemma wp_modify [simp]: "wp (modify f) Q E s = Q () (f s)"
  by (simp add: wp_def modify_def)

lemma wp_forward [simp]: "wp (forward bs) Q E s = Q () (s\<lparr>ic_forwarded := ic_forwarded s @ bs\<rparr>)"
  by (simp add: forward_def)

lemma wp_require_menu: "ic_menu s = Some m \<Longrightarrow> wp require_menu Q E s = Q m s"
  by (simp add: require_menu_def)

lemma wp_encoded: "encodable t \<Longrightarrow> wp (encoded t) Q E s = Q (utf8 t) s"
  by (simp add: encoded_def utf8_encode_encodable)

lemma wp_confirm: "(\<And>w b. Q b (s\<lparr>ic_world := w\<rparr>)) \<Longrightarrow> wp (confirm_native_prefix env p) Q E s"
  by (simp add: wp_def confirm_native_prefix_def split: prod.split)

lemma wp_execute:
  "(\<And>w r. Q r (s\<lparr>ic_world := w\<rparr>)) \<Longrightarrow> (\<And>w x. E (IcPipeline x) (s\<lparr>ic_world := w\<rparr>)) \<Longrightarrow> wp (execute_ic env r) Q E s"
  by (simp add: wp_def execute_ic_def split: prod.split sum.split)

lemma wp_publish:
  assumes "menu_inv m" "\<And>w b. Q b (s\<lparr>ic_world := w\<rparr>)" "\<And>w x. E (IcPipeline x) (s\<lparr>ic_world := w\<rparr>)"
  shows "wp (publish env op m) Q E s"
proof -
  obtain v where "view (ic_forwarded_prefix s) m = Inr v" using view_total [OF assms(1)] by blast
  then show ?thesis by (auto simp: publish_def intro!: wp_execute assms(2,3))
qed

lemma ic_inv_world [simp]: "ic_inv env (s\<lparr>ic_world := w\<rparr>) = ic_inv env s"
  by (simp add: ic_inv_def)

lemma ic_inv_forwarded [simp]: "ic_inv env (s\<lparr>ic_forwarded := b\<rparr>) = ic_inv env s"
  by (simp add: ic_inv_def)

lemma ic_inv_discard [simp]: "ic_inv env (s\<lparr>ic_discard_paired_lf := b\<rparr>) = ic_inv env s"
  by (simp add: ic_inv_def)

lemma ic_inv_candidate: "ic_inv env s \<Longrightarrow> encodable c \<Longrightarrow> ic_inv env (s\<lparr>ic_candidate := c\<rparr>)"
  by (simp add: ic_inv_def)

lemma ic_inv_menu: "ic_inv env s \<Longrightarrow> menu_good env m \<Longrightarrow> ic_inv env (s\<lparr>ic_menu := Some m\<rparr>)"
  by (simp add: ic_inv_def)

lemma ic_inv_closed: "ic_inv env s \<Longrightarrow> ic_inv env (s\<lparr>ic_menu := None, ic_forwarded_prefix := []\<rparr>)"
  by (simp add: ic_inv_def)

lemma from_pipeline_IcPipeline [simp]: "from_pipeline env (IcPipeline x) s = ic_inv env s"
  by (simp add: from_pipeline_def)

lemma keeps_release:
  assumes "ic_inv env s"
  shows "wp (release env) (\<lambda>_ s'. ic_inv env s' \<and> ic_menu s' = None) (from_pipeline env) s"
proof (cases "ic_menu s")
  case None
  with ic_inv_closed [OF assms] show ?thesis by (simp add: release_def)
next
  case (Some m)
  with assms have "menu_inv m" "encodable (ic_forwarded_prefix s)" by (auto simp: ic_inv_def menu_good_def)
  with assms show ?thesis
    by (auto simp: release_def Some ic_inv_def intro!: wp_publish)
qed

lemma wp_release:
  assumes "ic_inv env s" "\<And>s'. ic_inv env s' \<Longrightarrow> ic_menu s' = None \<Longrightarrow> Q () s'"
  shows "wp (release env) Q (from_pipeline env) s"
  using keeps_release [OF assms(1)] by (rule wp_mono) (auto intro: assms(2))

lemma keeps_transition:
  assumes "ic_inv env s" "ic_menu s = Some m" "transition m = Inr m'" "menu_good env m'"
  shows "ic_keeps env (transition_menu env transition) s"
proof -
  from assms(4) have "menu_inv m'" by (simp add: menu_good_def)
  with assms show ?thesis
    by (auto simp: transition_menu_def wp_require_menu intro!: wp_publish ic_inv_menu)
qed

lemma keeps_complete_local: "ic_inv env s \<Longrightarrow> ic_keeps env (complete_local_request env entry op txt p) s"
  by (auto simp: complete_local_request_def intro!: wp_confirm wp_execute wp_release ic_inv_candidate)

lemma keeps_submit: "ic_inv env s \<Longrightarrow> ic_keeps env (submit env draft p sel) s"
  by (auto simp: submit_def Let_def keeps_complete_local split: list.split)

lemma wp_submit:
  assumes "ic_inv env s" "\<And>b s'. ic_inv env s' \<Longrightarrow> Q b s'"
  shows "wp (submit env draft p sel) Q (from_pipeline env) s"
  using keeps_submit [OF assms(1)] by (rule wp_mono) (auto intro: assms(2))

lemma wp_complete_local:
  assumes "ic_inv env s" "\<And>b s'. ic_inv env s' \<Longrightarrow> Q b s'"
  shows "wp (complete_local_request env entry op txt p) Q (from_pipeline env) s"
  using keeps_complete_local [OF assms(1)] by (rule wp_mono) (auto intro: assms(2))

lemma keeps_return_to_native:
  assumes "ic_inv env s" "ic_menu s = Some m"
  shows "ic_keeps env (return_to_native env raw) s"
proof -
  from assms have "encodable (drop (length (ic_forwarded_prefix s)) (menu_draft m))"
    by (auto simp: ic_inv_def menu_good_def encodable_parts)
  with assms show ?thesis
    by (auto simp: return_to_native_def wp_require_menu wp_encoded intro!: wp_release ic_inv_candidate)
qed

lemma keeps_after_edit:
  assumes "ic_inv env s" "menu_good env m"
  shows "ic_keeps env (after_edit env m) s"
proof -
  have s: "ic_inv env (s\<lparr>ic_menu := Some m\<rparr>)" using assms by (rule ic_inv_menu)
  have m: "menu_inv m" using assms(2) by (simp add: menu_good_def)
  show ?thesis
    using s by (auto simp: after_edit_def intro!: wp_publish m keeps_return_to_native wp_release)
qed

lemma keeps_accept_arguments:
  assumes "ic_inv env s" "ic_menu s = Some m"
  shows "ic_keeps env (accept_arguments env e m) s"
proof -
  from assms have m: "menu_good env m" by (simp add: ic_inv_def)
  then obtain p where p: "selected_option m = Inr p" using selected_option_total by (auto simp: menu_good_def)
  have "menu_good env (back_to_commands m)"
    using m back_to_commands_inv [of m] by (simp add: menu_good_def) (simp add: back_to_commands_def)
  with assms p show ?thesis
    by (auto simp: accept_arguments_def intro!: keeps_transition wp_release wp_submit split: option.split)
qed

lemma selected_command_mem: "selected_command m = Some r \<Longrightarrow> r \<in> set (menu_registrations m)"
  by (auto simp: selected_command_def find_Some_iff in_set_conv_nth)

lemma keeps_accept_enter:
  assumes "ic_inv env s" "ic_menu s = Some m"
  shows "ic_keeps env (accept_enter env e m) s"
proof -
  from assms have "menu_good env m" by (simp add: ic_inv_def)
  then have "menu_good env (open_arguments m)"
    using open_arguments_inv [of m] by (auto simp: menu_good_def open_arguments_def split: option.split)
  with assms show ?thesis
    by (auto simp: accept_enter_def intro!: keeps_transition wp_complete_local keeps_return_to_native wp_submit
        split: option.split)
qed

lemma keeps_accept_commands:
  assumes "env_ok env" "ic_inv env s" "ic_menu s = Some m" "menu_stage m = StageCommands" "encodable (ev_text e)"
  shows "ic_keeps env (accept_commands env e m) s"
proof -
  from assms(2,3) have m: "menu_good env m" by (simp add: ic_inv_def)
  have edit: "menu_good env (update_draft d m)" if "encodable d" for d
    using m that update_draft_inv [OF assms(4), of d] by (simp add: menu_good_def)
  have tab: "encodable (reg_completion_text r)" if "selected_command m = Some r" for r
    using selected_command_mem [OF that] m assms(1)
    by (auto simp: menu_good_def env_ok_def registration_ok_def encodable_def is_surrogate_def dest!: bspec)
  have draft: "encodable (menu_draft m)" using m by (simp add: menu_good_def)
  show ?thesis
    using assms draft
    by (auto simp: accept_commands_def wp_encoded encodable_parts
        intro!: keeps_transition wp_release keeps_return_to_native keeps_after_edit keeps_accept_enter edit tab
        split: option.split)
qed

lemma keeps_accept_local:
  assumes "env_ok env" "ic_inv env s" "ic_menu s = Some m" "encodable (ev_text e)"
  shows "ic_keeps env (accept_local env e) s"
proof -
  from assms(2,3) have m: "menu_good env m" by (simp add: ic_inv_def)
  have move: "ic_keeps env (transition_menu env (move_selection k)) s" for k
  proof -
    obtain m' where m': "move_selection k m = Inr m'" "menu_inv m'"
      using move_selection_inv m unfolding menu_good_def by blast
    then have "menu_registrations m' = menu_registrations m" "menu_draft m' = menu_draft m"
      by (auto simp: move_selection_def split: if_splits option.splits)
    with m m'(2) have "menu_good env m'" by (simp add: menu_good_def)
    with assms(2,3) m'(1) show ?thesis by (rule keeps_transition)
  qed
  show ?thesis
    using assms move menu_stage.exhaust
    by (auto simp: accept_local_def wp_require_menu intro!: keeps_accept_arguments keeps_accept_commands)
qed

lemma keeps_takeover:
  assumes "ic_inv env s" "encodable held" "encodable candidate"
  shows "ic_keeps env (try_takeover env held candidate) s"
proof -
  let ?m = "new_menu (ie_registrations env) candidate"
  have m: "menu_good env ?m" using assms(3) new_menu_inv by (simp add: menu_good_def)
  have inv: "ic_inv env (s\<lparr>ic_menu := Some ?m, ic_forwarded_prefix := held\<rparr>)"
    using assms m by (simp add: ic_inv_def)
  show ?thesis
    using assms(1) inv new_menu_inv
    by (auto simp: try_takeover_def Let_def intro!: wp_confirm wp_publish wp_release)
qed

lemma wp_takeover:
  assumes "ic_inv env s" "encodable held" "encodable candidate" "\<And>b s'. ic_inv env s' \<Longrightarrow> Q b s'"
  shows "wp (try_takeover env held candidate) Q (from_pipeline env) s"
  using keeps_takeover [OF assms(1-3)] by (rule wp_mono) (auto intro: assms(4))

lemma keeps_accept_native:
  assumes "ic_inv env s" "encodable (ev_text e)"
  shows "ic_keeps env (accept_native env e) s"
proof -
  have held: "encodable (ic_candidate s)" using assms(1) by (simp add: ic_inv_def)
  with assms show ?thesis
    by (auto simp: accept_native_def Let_def wp_encoded encodable_parts intro!: wp_takeover wp_submit ic_inv_candidate)
qed

lemma keeps_accept_event:
  assumes "env_ok env" "ic_inv env s" "encodable (ev_text e)"
  shows "ic_keeps env (accept_event env e) s"
  using assms by (auto simp: accept_event_def intro!: keeps_accept_local keeps_accept_native)

subsection \<open>Events of the decoder\<close>

lemma ev_text_mk_event [simp]: "ev_text (mk_event k raw t) = t" "ev_kind (mk_event k raw t) = k"
  by (simp_all add: mk_event_def)

lemma key_char_encodable:
  assumes "\<not> is_surrogate c"
  shows "\<not> is_surrogate (key_char m c)"
proof -
  have "upper_char c mod 32 < 32" by simp
  moreover have "c < 128 \<Longrightarrow> upper_char c < 128" by (auto simp: upper_char_def)
  ultimately show ?thesis using assms by (auto simp: key_char_def is_surrogate_def)
qed

lemma decode_key_encodable: "encodable (ev_text (decode_key raw m c))"
proof -
  have "\<not> is_surrogate (nat c)" if "\<not> (55296 \<le> c \<and> c \<le> 57343)" "0 \<le> c" using that by (auto simp: is_surrogate_def)
  then show ?thesis
    using key_char_encodable [of "nat c" m]
    by (auto simp: decode_key_def Let_def encodable_def is_surrogate_def lit_def)
qed

lemma lit_encodable: "encodable (lit t)"
proof -
  have "of_char c < (256 :: nat)" for c by (metis mod_less_divisor of_char_mod_256 zero_less_numeral)
  then have "\<not> is_surrogate (of_char c)" for c by (simp add: is_surrogate_def not_le less_trans [of _ 256])
  then show ?thesis by (auto simp: encodable_def lit_def)
qed

lemma decode_escape_encodable: "encodable (ev_text (decode_escape_sequence raw))"
  by (auto simp: decode_escape_sequence_def decode_key_encodable lit_encodable split: option.split sum.split)

lemma paste_event_encodable: "encodable (ev_text (paste_event sp raw))"
  by (auto simp: paste_event_def dest: utf8_decode_encodable split: option.split)

lemma decode_step_encodable:
  "decode_step sp sr p = StepEvent ev n sp' sr' \<Longrightarrow> encodable (ev_text ev)"
  "decode_step sp sr p = StepFlush ev keep sp' sr' \<Longrightarrow> encodable (ev_text ev)"
  by (auto simp: decode_step_def reply_step_def paste_step_def escape_step_def text_step_def Let_def
      paste_event_encodable decode_escape_encodable dest: utf8_decode_encodable split: if_splits option.splits)

lemma decode_loop_encodable: "list_all (\<lambda>e. encodable (ev_text e)) (fst (decode_loop sp sr p))"
proof (induction sp sr p rule: decode_loop.induct)
  case (1 sp sr p)
  show ?case
  proof (cases "p = []")
    case True
    then show ?thesis by (simp add: decode_loop.simps)
  next
    case False
    then show ?thesis
      by (cases "decode_step sp sr p")
        (auto simp: decode_loop.simps [of sp sr p] decode_step_encodable split: prod.split dest: "1.IH" [rotated])
  qed
qed

lemma decoder_step_encodable: "list_all (\<lambda>e. encodable (ev_text e)) (snd (decoder_step d e))"
proof (cases e)
  case (DecFeed data now)
  then show ?thesis
    using decode_loop_encodable [of "dec_streaming_paste d" "dec_streaming_reply d" "dec_pending d @ data"]
    by (auto simp: feed_def split: prod.split)
qed (auto simp: expire_incomplete_def Let_def split: option.split)

lemma decoder_run_encodable: "list_all (\<lambda>e. encodable (ev_text e)) (snd (decoder_run d es))"
  using decoder_step_encodable
  by (induction d es rule: decoder_run.induct) (auto split: prod.split, metis snd_conv)

lemma accept_events_keeps:
  assumes "env_ok env" "ic_inv env s" "list_all (\<lambda>e. encodable (ev_text e)) evs"
    and "accept_events env evs s = (s', rs)"
  shows "ic_inv env s' \<and> (\<forall>r \<in> set rs. r = Inr () \<or> (\<exists>x. r = Inl (IcPipeline x)))"
  using assms(2-)
proof (induction evs arbitrary: s s' rs)
  case Nil
  then show ?case by simp
next
  case (Cons e evs)
  obtain s1 r where r: "accept_event env e s = (s1, r)" by (rule prod.exhaust)
  obtain rs' where rs': "accept_events env evs s1 = (s', rs')" "rs = r # rs'"
    using Cons.prems(3) r by (auto split: prod.splits)
  have "ic_keeps env (accept_event env e) s" using assms(1) Cons.prems by (intro keeps_accept_event) auto
  with r have "ic_inv env s1" "r = Inr () \<or> (\<exists>x. r = Inl (IcPipeline x))"
    by (auto simp: wp_def from_pipeline_def split: sum.splits)
  with Cons.IH [OF _ _ rs'(1)] Cons.prems(2) rs'(2) show ?case by auto
qed

text \<open>
  Property C37. Whatever bytes the terminal delivers, in whatever reads and with whatever expiries, and
  however the native-prefix check and the interaction pipeline answer, the interceptor handles every
  decoded event without a failed assertion, without an exception of the menu (a selection without a
  match, an index out of range, an invalid view) and without an encoding error. The only exception
  an event can end with is one that the pipeline raised, and the next event is handled all the same.
\<close>

theorem interceptor_never_invalid:
  assumes "env_ok env"
  shows "list_all (\<lambda>r. r = Inr () \<or> (\<exists>x. r = Inl (IcPipeline x)))
    (snd (accept_events env (snd (decoder_run initial_decoder es)) (initial_interceptor w)))"
proof -
  obtain s' rs where run: "accept_events env (snd (decoder_run initial_decoder es)) (initial_interceptor w) = (s', rs)"
    by (rule prod.exhaust)
  have "ic_inv env (initial_interceptor w)" by (simp add: ic_inv_def initial_interceptor_def)
  from accept_events_keeps [OF assms this decoder_run_encodable run] run show ?thesis by (simp add: list_all_iff)
qed

text \<open>The configuration of the program satisfies the checks of its classes.\<close>

lemma input_interceptors_ok:
  "list_all registration_ok INPUT_INTERCEPTORS"
  "list_all (\<lambda>r. rule_ok (reg_live r) \<and> rule_ok (reg_on_enter r)) INPUT_INTERCEPTORS"
  "list_all (\<lambda>r. argument_menu_ok (reg_argument_menu r) \<and> list_all option_ok (menu_options r)) INPUT_INTERCEPTORS"
  "distinct (map reg_name INPUT_INTERCEPTORS)"
  by (simp_all add: INPUT_INTERCEPTORS_def registration_ok_def live_rule_def enter_rule_def policy_option_def
      option_submission_def rule_ok_def argument_menu_ok_def option_ok_def menu_options_def lit_def py_isspace_def)

definition ic_demo_result :: "delivery_status \<Rightarrow> unit interaction_result" where
  "ic_demo_result st = \<lparr>result_status = st, result_detail = [], result_value = ValueNone, result_rejection_reason = None\<rparr>"

text \<open>A pipeline that accepts every request and raises on the third.\<close>

definition ic_demo_env :: "(nat, unit) interceptor_env" where
  "ic_demo_env =
     \<lparr>ie_registrations = INPUT_INTERCEPTORS, ie_confirm_native_prefix = (\<lambda>_ w. (w, True)),
      ie_execute = (\<lambda>_ w. (Suc w, if w = 2 then Inl (ExnOther ()) else Inr (ic_demo_result DsCompleted))),
      ie_serialize = view_draft, ie_request_id = lit ''r''\<rparr>"

theorem interceptor_never_invalid_witness:
  "env_ok ic_demo_env \<and>
   list_all (\<lambda>r. r = Inr () \<or> (\<exists>x. r = Inl (IcPipeline x)))
     (snd (accept_events ic_demo_env (snd (decoder_run initial_decoder
        [DecFeed (lit ''/ro'') 0, DecFeed [27] 1, DecExpire 2, DecFeed (lit ''od'' @ [13, 10]) 3])) (initial_interceptor 0)))"
proof -
  have "env_ok ic_demo_env" using input_interceptors_ok(1) by (simp add: env_ok_def ic_demo_env_def list_all_iff)
  from this and interceptor_never_invalid [OF this] show ?thesis by (rule conjI)
qed

subsection \<open>What reaches the native terminal\<close>

text \<open>Actions that forward nothing.\<close>

lemma quiet_publish:
  assumes "\<And>b w. Q b (s\<lparr>ic_world := w\<rparr>)" "\<And>e w. E e (s\<lparr>ic_world := w\<rparr>)"
  shows "wp (publish env op m) Q E s"
  using assms(1) assms(2) [of _ "ic_world s"] assms(2)
  by (cases "view (ic_forwarded_prefix s) m") (auto simp: publish_def intro!: wp_execute)

lemma quiet_release:
  assumes "\<And>s'. ic_forwarded s' = ic_forwarded s \<Longrightarrow> Q () s'" "\<And>e s'. ic_forwarded s' = ic_forwarded s \<Longrightarrow> E e s'"
  shows "wp (release env) Q E s"
  using assms by (cases "ic_menu s") (auto simp: release_def intro!: quiet_publish)

lemma quiet_transition:
  assumes "\<And>s'. ic_forwarded s' = ic_forwarded s \<Longrightarrow> Q () s'" "\<And>e s'. ic_forwarded s' = ic_forwarded s \<Longrightarrow> E e s'"
    and "ic_menu s = Some m"
  shows "wp (transition_menu env transition) Q E s"
  using assms by (cases "transition m") (auto simp: transition_menu_def wp_require_menu intro!: quiet_publish)

text \<open>The backspaces of a completed local request come only right after the native prefix was confirmed
  and the pipeline accepted the request.\<close>

definition verified_handoff :: "('w, 'x) interceptor_env \<Rightarrow> pystr \<Rightarrow> bool" where
  "verified_handoff env p \<longleftrightarrow>
     (\<exists>w w1 w2 r res. ie_confirm_native_prefix env p w = (w1, True) \<and> ie_execute env r w1 = (w2, Inr res) \<and> accepted res \<and>
        req_operation r \<in> {OpSubmittedCommand, OpInputConfigurationError})"

definition erases :: "('w, 'x) interceptor_env \<Rightarrow> pystr \<Rightarrow> bytes \<Rightarrow> bool" where
  "erases env p out \<longleftrightarrow> out = replicate (length p) 127 \<and> verified_handoff env p"

definition completed :: "('w, 'x) interceptor_env \<Rightarrow> pystr \<Rightarrow> bool \<Rightarrow> bytes \<Rightarrow> bool" where
  "completed env p b out \<longleftrightarrow> (if b then erases env p out else out = [])"

abbreviation sends :: "'w interceptor \<Rightarrow> (bytes \<Rightarrow> bool) \<Rightarrow> 'w interceptor \<Rightarrow> bool" where
  "sends s A s' \<equiv> \<exists>out. ic_forwarded s' = ic_forwarded s @ out \<and> A out"

lemma wp_execute_eq:
  "ie_execute env r (ic_world s) = (w, x) \<Longrightarrow>
    wp (execute_ic env r) Q E s =
      (case x of Inl e \<Rightarrow> E (IcPipeline e) (s\<lparr>ic_world := w\<rparr>) | Inr v \<Rightarrow> Q v (s\<lparr>ic_world := w\<rparr>))"
  by (auto simp: wp_def execute_ic_def split: sum.split)

lemma wp_confirm_eq:
  "ie_confirm_native_prefix env p (ic_world s) = (w, b) \<Longrightarrow> wp (confirm_native_prefix env p) Q E s = Q b (s\<lparr>ic_world := w\<rparr>)"
  by (auto simp: wp_def confirm_native_prefix_def)

lemma sends_complete_local:
  assumes "op \<in> {OpSubmittedCommand, OpInputConfigurationError}"
  shows "wp (complete_local_request env entry op txt p)
    (\<lambda>b. sends s (completed env p b))
    (\<lambda>_. sends s (\<lambda>out. out = [] \<or> erases env p out)) s"
proof -
  let ?r = "ic_request env (registration_target entry) op txt PayloadNone"
  obtain w1 ok where c: "ie_confirm_native_prefix env p (ic_world s) = (w1, ok)" by (rule prod.exhaust)
  obtain w2 x where x: "ie_execute env ?r w1 = (w2, x)" by (rule prod.exhaust)
  have x': "ie_execute env ?r (ic_world (s\<lparr>ic_world := w1\<rparr>)) = (w2, x)" using x by simp
  have op: "req_operation ?r = op" by (simp add: ic_request_def)
  have v: "erases env p (replicate (length p) 127)" if "ok" "x = Inr res" "accepted res" for res
    unfolding erases_def verified_handoff_def using that c x op assms
    by (intro conjI refl exI [of _ "ic_world s"] exI [of _ w1] exI [of _ w2] exI [of _ ?r] exI [of _ res]) simp_all
  show ?thesis
    using v by (cases x) (auto simp: complete_local_request_def wp_confirm_eq [OF c] wp_execute_eq [OF x'] completed_def intro!: quiet_release)
qed

lemma sends_submit:
  "wp (submit env draft p sel)
    (\<lambda>b. sends s (completed env p b))
    (\<lambda>_. sends s (\<lambda>out. out = [] \<or> erases env p out)) s"
  by (auto simp: submit_def Let_def completed_def [of _ _ False] sends_complete_local split: list.split)

text \<open>A held draft returns as one bracketed paste of what the native editor does not have yet, before
  the raw bytes of the event that released it.\<close>

definition pasted :: "pystr \<Rightarrow> pystr \<Rightarrow> bytes" where
  "pasted p draft = PASTE_START @ utf8 (drop (length p) draft) @ PASTE_END"

lemma sends_return_to_native:
  assumes "ic_menu s = Some m"
  shows "wp (return_to_native env raw)
    (\<lambda>_. sends s (\<lambda>out. out = pasted (ic_forwarded_prefix s) (menu_draft m) @ raw))
    (\<lambda>_. sends s (\<lambda>out. out = [] \<or> out = pasted (ic_forwarded_prefix s) (menu_draft m))) s"
proof -
  let ?h = "drop (length (ic_forwarded_prefix s)) (menu_draft m)"
  show ?thesis
  proof (cases "utf8_encode ?h")
    case None
    with assms show ?thesis by (simp add: return_to_native_def wp_require_menu encoded_def)
  next
    case (Some bs)
    then have "bs = utf8 ?h" by (simp add: utf8_encode_eq_Some)
    with assms Some show ?thesis
      by (auto simp: return_to_native_def wp_require_menu encoded_def pasted_def intro!: quiet_release)
  qed
qed

text \<open>What one event may forward, by who owns the input when it arrives.\<close>

definition may_forward :: "('w, 'x) interceptor_env \<Rightarrow> 'w interceptor \<Rightarrow> input_event \<Rightarrow> bytes \<Rightarrow> bool" where
  "may_forward env s e out \<longleftrightarrow>
     (if ev_kind e = KindTerminalReply then out = ev_raw e
      else if out = [] then True
      else case ic_menu s of
        None \<Rightarrow> out = ev_raw e \<or> is_control e [[13], [10]] \<and> erases env (ic_candidate s) out
      | Some m \<Rightarrow>
          is_control e [[13], [10]] \<and> erases env (ic_forwarded_prefix s) out
          \<or> menu_stage m \<noteq> StageArguments \<and>
            (\<exists>draft \<in> {menu_draft m, menu_draft m @ ev_text e, butlast (menu_draft m)}.
               out \<in> {pasted (ic_forwarded_prefix s) draft, pasted (ic_forwarded_prefix s) draft @ ev_raw e}))"

abbreviation sends_allowed :: "('w, 'x) interceptor_env \<Rightarrow> input_event \<Rightarrow> 'w interceptor \<Rightarrow> ('w, 'x, 'a) ic_action \<Rightarrow> bool" where
  "sends_allowed env e s act \<equiv> wp act (\<lambda>_. sends s (may_forward env s e)) (\<lambda>_. sends s (may_forward env s e)) s"

lemma may_forward_Nil: "ev_kind e \<noteq> KindTerminalReply \<Longrightarrow> may_forward env s e []"
  by (simp add: may_forward_def)

lemma may_forward_erases:
  "ev_kind e \<noteq> KindTerminalReply \<Longrightarrow> is_control e [[13], [10]] \<Longrightarrow>
    erases env (case ic_menu s of None \<Rightarrow> ic_candidate s | Some m \<Rightarrow> ic_forwarded_prefix s) out \<Longrightarrow> may_forward env s e out"
  by (auto simp: may_forward_def split: option.split)

lemma is_control_kind: "is_control e ks \<Longrightarrow> ev_kind e = KindControl"
  by (simp add: is_control_def)

lemma may_forward_discard [simp]: "may_forward env (s\<lparr>ic_discard_paired_lf := b\<rparr>) = may_forward env s"
  by (auto simp: may_forward_def fun_eq_iff split: option.split)

lemma sends_local_completion:
  assumes "is_control e [[13], [10]]" "ic_menu s = Some m"
    and Q: "\<And>b s'. sends s (may_forward env s e) s' \<Longrightarrow> Q b s'" and E: "\<And>x s'. sends s (may_forward env s e) s' \<Longrightarrow> E x s'"
  shows "op \<in> {OpSubmittedCommand, OpInputConfigurationError} \<Longrightarrow>
      wp (complete_local_request env entry op txt (ic_forwarded_prefix s)) Q E s"
    and "wp (submit env draft (ic_forwarded_prefix s) sel) Q E s"
proof -
  have k: "may_forward env s e out" if "out = [] \<or> erases env (ic_forwarded_prefix s) out" for out
    using that may_forward_Nil [of e env s] may_forward_erases [of e env s out] is_control_kind [OF assms(1)] assms(1,2) by auto
  show "wp (complete_local_request env entry op txt (ic_forwarded_prefix s)) Q E s"
    if "op \<in> {OpSubmittedCommand, OpInputConfigurationError}"
    using sends_complete_local [OF that] by (rule wp_mono) (auto intro!: Q E k simp: completed_def split: if_splits)
  show "wp (submit env draft (ic_forwarded_prefix s) sel) Q E s"
    using sends_submit by (rule wp_mono) (auto intro!: Q E k simp: completed_def split: if_splits)
qed

lemma sends_pasted:
  assumes "ic_menu s = Some m" "menu_stage m \<noteq> StageArguments" "ev_kind e \<noteq> KindTerminalReply"
    and "draft \<in> {menu_draft m, menu_draft m @ ev_text e, butlast (menu_draft m)}"
  shows "may_forward env s e (pasted (ic_forwarded_prefix s) draft)"
    "may_forward env s e (pasted (ic_forwarded_prefix s) draft @ ev_raw e)"
  using assms by (auto simp: may_forward_def)

lemma sends_release_native:
  assumes "ic_menu s = Some m" "menu_stage m \<noteq> StageArguments" "ev_kind e \<noteq> KindTerminalReply"
  shows "sends_allowed env e s (return_to_native env (ev_raw e))"
  using sends_return_to_native [OF assms(1)]
  by (rule wp_mono) (use sends_pasted [OF assms, of "menu_draft m" env] may_forward_Nil [OF assms(3)] in auto)

lemma sends_after_edit:
  assumes "ic_menu s = Some m" "menu_stage m \<noteq> StageArguments" "ev_kind e \<noteq> KindTerminalReply"
    and "menu_draft m' \<in> {menu_draft m @ ev_text e, butlast (menu_draft m)}"
  shows "sends_allowed env e s (after_edit env m')"
proof -
  have p: "may_forward env s e (pasted (ic_forwarded_prefix s) (menu_draft m'))"
    using sends_pasted(1) [OF assms(1-3), of "menu_draft m'" env] assms(4) by auto
  have n: "may_forward env s e []" using assms(3) by (rule may_forward_Nil)
  have returned: "wp (return_to_native env []) (\<lambda>_. sends s (may_forward env s e)) (\<lambda>_. sends s (may_forward env s e))
      (s\<lparr>ic_menu := Some m', ic_world := w\<rparr>)" for w
  proof -
    have "ic_menu (s\<lparr>ic_menu := Some m', ic_world := w\<rparr>) = Some m'" by simp
    from sends_return_to_native [OF this, of env "[]"] show ?thesis
      by (rule wp_mono) (use p n in auto)
  qed
  show ?thesis
    using n returned by (auto simp: after_edit_def intro!: quiet_publish quiet_release)
qed

lemma sends_accept_arguments:
  assumes "ic_menu s = Some m" "ev_kind e \<noteq> KindTerminalReply"
  shows "sends_allowed env e s (accept_arguments env e m)"
proof -
  have n: "may_forward env s e []" using assms(2) by (rule may_forward_Nil)
  have submit: "wp (submit env d (ic_forwarded_prefix s) sel) (\<lambda>_. sends s (may_forward env s e)) (\<lambda>_. sends s (may_forward env s e))
      (s\<lparr>ic_discard_paired_lf := b\<rparr>)" if "is_control e [[13], [10]]" for d sel b
    using sends_local_completion(2) [OF that, of "s\<lparr>ic_discard_paired_lf := b\<rparr>" m env
        "\<lambda>_. sends s (may_forward env s e)" "\<lambda>_. sends s (may_forward env s e)" d sel] assms(1)
    by simp
  show ?thesis
    using n assms submit
    by (cases "selected_option m")
      (auto simp: accept_arguments_def intro!: quiet_transition quiet_release split: option.split)
qed

lemma sends_accept_enter:
  assumes "ic_menu s = Some m" "menu_stage m \<noteq> StageArguments" "is_control e [[13], [10]]"
  shows "sends_allowed env e s (accept_enter env e m)"
proof -
  have e: "ev_kind e \<noteq> KindTerminalReply" using is_control_kind [OF assms(3)] by simp
  have n: "may_forward env s e []" using e by (rule may_forward_Nil)
  let ?s = "s\<lparr>ic_discard_paired_lf := (event_key e = [13])\<rparr>"
  have m: "ic_menu ?s = Some m" using assms(1) by simp
  have "wp (return_to_native env (ev_raw e)) (\<lambda>_. sends s (may_forward env s e)) (\<lambda>_. sends s (may_forward env s e)) ?s"
    using sends_release_native [OF m assms(2) e, of env] by simp
  moreover have "wp (complete_local_request env entry OpInputConfigurationError t (ic_forwarded_prefix s))
      (\<lambda>_. sends s (may_forward env s e)) (\<lambda>_. sends s (may_forward env s e)) ?s"
    and "wp (submit env d (ic_forwarded_prefix s) sel)
      (\<lambda>_. sends s (may_forward env s e)) (\<lambda>_. sends s (may_forward env s e)) ?s" for entry t d sel
    using sends_local_completion [OF assms(3) m, of env "\<lambda>_. sends s (may_forward env s e)" "\<lambda>_. sends s (may_forward env s e)"]
    by simp_all
  ultimately show ?thesis
    using n assms(1) by (auto simp: accept_enter_def intro!: quiet_transition split: option.split)
qed

lemma sends_accept_commands:
  assumes "ic_menu s = Some m" "menu_stage m \<noteq> StageArguments" "ev_kind e \<noteq> KindTerminalReply"
  shows "sends_allowed env e s (accept_commands env e m)"
proof -
  note n = may_forward_Nil [OF assms(3), of env s]
  have edit: "sends_allowed env e s (and_then (encoded (menu_draft m @ ev_text e)) (\<lambda>bs.
        if length bs > MAX_LOCAL_DRAFT_BYTES then return_to_native env (ev_raw e)
        else after_edit env (update_draft (menu_draft m @ ev_text e) m)))"
    using n sends_release_native [OF assms, of env] sends_after_edit [OF assms, of "update_draft (menu_draft m @ ev_text e) m" env]
    by (cases "utf8_encode (menu_draft m @ ev_text e)") (auto simp: encoded_def)
  show ?thesis
    unfolding accept_commands_def
    using n edit sends_release_native [OF assms, of env] sends_accept_enter [OF assms(1,2), of e env]
      sends_after_edit [OF assms, of "update_draft (butlast (menu_draft m)) m" env] assms(1)
    by (auto simp del: wp_and_then intro!: quiet_transition quiet_release split: option.split)
qed

lemma sends_accept_local:
  assumes "ic_menu s = Some m" "ev_kind e \<noteq> KindTerminalReply"
  shows "sends_allowed env e s (accept_local env e)"
  using assms may_forward_Nil [OF assms(2), of env s] sends_accept_arguments [OF assms, of env]
    sends_accept_commands [OF assms(1) _ assms(2), of env]
  by (auto simp: accept_local_def wp_require_menu intro!: quiet_transition)

lemma quiet_takeover:
  assumes "\<And>b s'. ic_forwarded s' = ic_forwarded s \<Longrightarrow> Q b s'" "\<And>e s'. ic_forwarded s' = ic_forwarded s \<Longrightarrow> E e s'"
  shows "wp (try_takeover env held candidate) Q E s"
  using assms by (auto simp: try_takeover_def Let_def intro!: wp_confirm quiet_publish quiet_release)

lemma sends_accept_native:
  assumes "ic_menu s = None" "ev_kind e \<noteq> KindTerminalReply"
  shows "sends_allowed env e s (accept_native env e)"
proof -
  note n = may_forward_Nil [OF assms(2), of env s]
  have raw: "may_forward env s e (ev_raw e)" using assms by (simp add: may_forward_def)
  have erase: "may_forward env s e out" if "is_control e [[13], [10]]" "erases env (ic_candidate s) out" for out
    using may_forward_erases [OF assms(2) that(1), of env s out] that(2) assms(1) by simp
  have enter: "wp (submit env (ic_candidate s) (ic_candidate s) None)
      (\<lambda>b. if b then sends s (may_forward env s e) else (\<lambda>s'. ic_forwarded s' = ic_forwarded s))
      (\<lambda>_. sends s (may_forward env s e)) (s\<lparr>ic_discard_paired_lf := b\<rparr>)" if "is_control e [[13], [10]]" for b
    using sends_submit [of env "ic_candidate s" "ic_candidate s" None "s\<lparr>ic_discard_paired_lf := b\<rparr>"]
    by (rule wp_mono) (auto simp: completed_def intro: n erase [OF that] split: if_splits)
  have enter': "sends_allowed env e s (accept_native env e)" if c: "is_control e [[13], [10]]"
  proof -
    have "ev_kind e \<notin> {KindText, KindPaste}" using is_control_kind [OF c] by simp
    moreover have "wp (submit env (ic_candidate s) (ic_candidate s) None)
        (\<lambda>handled. wp (if handled then ret () else and_then (modify (\<lambda>s. s\<lparr>ic_candidate := []\<rparr>)) (\<lambda>_. forward (ev_raw e)))
          (\<lambda>_. sends s (may_forward env s e)) (\<lambda>_. sends s (may_forward env s e)))
        (\<lambda>_. sends s (may_forward env s e)) (s\<lparr>ic_discard_paired_lf := b\<rparr>)" for b
      by (rule wp_mono [OF enter [OF c]]) (use raw in \<open>auto split: if_splits\<close>)
    ultimately show ?thesis using c by (simp add: accept_native_def)
  qed
  show ?thesis
  proof (cases "is_control e [[13], [10]]")
    case True
    then show ?thesis by (rule enter')
  next
    case False
    then show ?thesis
      using n raw
      by (cases "utf8_encode (ic_candidate s @ ev_text e)")
        (auto simp: accept_native_def Let_def encoded_def intro!: quiet_takeover)
  qed
qed


text \<open>
  The bracketed paste is not always one paste for the native editor: the draft is the concatenation
  of several events, and two pastes can together spell the end marker that neither contains. The
  text after it then arrives as keystrokes; here a carriage return pasted into the held draft is
  decoded as Enter.
\<close>

lemma returned_draft_can_submit:
  "mk_event KindControl [13] [] \<in> set (fst (decode_loop False False
     (pasted (lit ''/r'') (lit ''/ro'' @ [27, 91, 50, 48] @ [49, 126] @ [13]))))"
proof -
  let ?bytes = "[27, 91, 50, 48, 48, 126, 111, 27, 91, 50, 48, 49, 126, 13, 27, 91, 50, 48, 49, 126] :: bytes"
  have bytes: "pasted (lit ''/r'') (lit ''/ro'' @ [27, 91, 50, 48] @ [49, 126] @ [13]) = ?bytes"
    by (simp add: pasted_def lit_def utf8_def utf8_char_def PASTE_END_def PASTE_START_def)
  have paste: "decode_step False False ?bytes =
      StepEvent (mk_event KindPaste [27, 91, 50, 48, 48, 126, 111, 27, 91, 50, 48, 49, 126] [111]) 13 False False"
    by (simp add: decode_step_def starts_reply_def PASTE_START_def PASTE_END_def paste_step_def paste_event_def Let_def)
  have enter: "decode_step False False [13, 27, 91, 50, 48, 49, 126] = StepEvent (mk_event KindControl [13] []) 1 False False"
    by (simp add: decode_step_def starts_reply_def PASTE_START_def text_step_def)
  show ?thesis unfolding bytes
    by (simp add: decode_loop.simps [of False False ?bytes] decode_loop.simps [of False False "[13, 27, 91, 50, 48, 49, 126]"]
        paste enter split: prod.split)
qed

end
