(* ===== verification/Prefix_Function.thy ===== *)
theory Prefix_Function
  imports Prelude
begin

section \<open>Linear-time matching of line sequences\<close>

text \<open>
  The Knuth-Morris-Pratt loops of \<^verbatim>\<open>src/rodex/session_tail.py\<close>: the prefix function that three routines
  share, the search for every end of a pattern, and the overlaps of a suffix of one sequence with a
  prefix of another. The inner \<^verbatim>\<open>while\<close> follows the table without a bound of its own, so it is a partial
  function; an index out of range is \<open>None\<close> as well. The theorems show that neither happens and
  that every routine computes its quadratic specification.
\<close>

subsection \<open>The loops\<close>

partial_function (option) fall_back :: "'a list \<Rightarrow> nat list \<Rightarrow> 'a \<Rightarrow> nat \<Rightarrow> nat option" where
  "fall_back p pl x c =
     (if c = 0 then Some 0
      else if length p \<le> c \<or> length pl \<le> c - 1 then None
      else if x \<noteq> p ! c then fall_back p pl x (pl ! (c - 1))
      else Some c)"

definition prefix_step :: "'a list \<Rightarrow> nat \<Rightarrow> nat list \<Rightarrow> nat list option" where
  "prefix_step p i pl =
     (case fall_back p pl (p ! i) (pl ! (i - 1)) of
        None \<Rightarrow> None
      | Some c \<Rightarrow> Some (pl @ [if p ! i = p ! c then c + 1 else c]))"

fun prefix_loop :: "'a list \<Rightarrow> nat list \<Rightarrow> nat list \<Rightarrow> nat list option" where
  "prefix_loop p [] pl = Some pl"
| "prefix_loop p (i # is) pl = (case prefix_step p i pl of None \<Rightarrow> None | Some pl' \<Rightarrow> prefix_loop p is pl')"

definition prefix_lengths :: "'a list \<Rightarrow> nat list option" where
  "prefix_lengths p = (if p = [] then Some [] else prefix_loop p [1..<length p] [0])"

text \<open>One value of the search: the matched length before the test for a complete match.\<close>

definition search_step :: "'a list \<Rightarrow> nat list \<Rightarrow> 'a \<Rightarrow> nat \<Rightarrow> nat option" where
  "search_step p pl x m =
     (case fall_back p pl x m of
        None \<Rightarrow> None
      | Some c \<Rightarrow> if p = [] then None else Some (if x = p ! c then c + 1 else c))"

fun search_loop :: "'a list \<Rightarrow> nat list \<Rightarrow> 'a list \<Rightarrow> nat \<Rightarrow> nat \<Rightarrow> nat list option" where
  "search_loop p pl [] i m = Some []"
| "search_loop p pl (x # xs) i m =
     (case search_step p pl x m of
        None \<Rightarrow> None
      | Some c \<Rightarrow>
          if c = length p then map_option (\<lambda>es. (i + 1) # es) (search_loop p pl xs (i + 1) (pl ! (c - 1)))
          else search_loop p pl xs (i + 1) c)"

definition subsequence_ends :: "'a list \<Rightarrow> 'a list \<Rightarrow> nat list option" where
  "subsequence_ends pattern values =
     (case prefix_lengths pattern of None \<Rightarrow> None | Some pl \<Rightarrow> search_loop pattern pl values 0 0)"

text \<open>The sentinel is \<open>None\<close>.\<close>

definition combined :: "'a list \<Rightarrow> 'a list \<Rightarrow> 'a option list" where
  "combined previous current = map Some current @ [None] @ map Some previous"

definition suffix_prefix_overlap :: "'a list \<Rightarrow> 'a list \<Rightarrow> nat option" where
  "suffix_prefix_overlap previous current =
     (if previous = [] \<or> current = [] then Some 0
      else case prefix_lengths (combined previous current) of
        None \<Rightarrow> None
      | Some pl \<Rightarrow> Some (min (last pl) (min (length previous) (length current))))"

partial_function (option) chain :: "nat list \<Rightarrow> nat \<Rightarrow> nat list \<Rightarrow> nat list option" where
  "chain pl k overlaps =
     (if k = 0 then Some overlaps
      else if length pl \<le> k - 1 then None
      else chain pl (pl ! (k - 1)) (overlaps @ [k]))"

definition suffix_prefix_overlaps :: "'a list \<Rightarrow> 'a list \<Rightarrow> nat list option" where
  "suffix_prefix_overlaps previous current =
     (if previous = [] \<or> current = [] then Some []
      else case prefix_lengths (combined previous current) of
        None \<Rightarrow> None
      | Some pl \<Rightarrow> chain pl (min (last pl) (min (length previous) (length current))) [])"

subsection \<open>Overlaps\<close>

text \<open>\<open>overlap w p k\<close>: the last \<open>k\<close> values of \<open>w\<close> are the first \<open>k\<close> of \<open>p\<close>.\<close>

definition overlap :: "'a list \<Rightarrow> 'a list \<Rightarrow> nat \<Rightarrow> bool" where
  "overlap w p k \<longleftrightarrow> k \<le> length w \<and> k \<le> length p \<and> drop (length w - k) w = take k p"

lemma overlap_0 [simp]: "overlap w p 0"
  by (simp add: overlap_def)

lemma overlap_le: "overlap w p k \<Longrightarrow> k \<le> length w" "overlap w p k \<Longrightarrow> k \<le> length p"
  by (simp_all add: overlap_def)

lemma overlap_Suc: "overlap (w @ [x]) p (Suc k) \<longleftrightarrow> overlap w p k \<and> k < length p \<and> p ! k = x"
  by (auto simp: overlap_def take_Suc_conv_app_nth)

text \<open>A proper border of the prefix of length \<open>c\<close>.\<close>

abbreviation border :: "'a list \<Rightarrow> nat \<Rightarrow> nat \<Rightarrow> bool" where
  "border p c k \<equiv> overlap (tl (take c p)) p k"

lemma border_iff: "0 < c \<Longrightarrow> c \<le> length p \<Longrightarrow> border p c k \<longleftrightarrow> k < c \<and> drop (c - k) (take c p) = take k p"
proof -
  assume c: "0 < c" "c \<le> length p"
  have "drop (c - 1 - k) (tl (take c p)) = drop (c - k) (take c p)" if "k < c"
    using that c by (simp add: drop_Suc [symmetric] Suc_diff_Suc)
  with c show ?thesis by (auto simp: overlap_def)
qed

lemma overlap_border:
  assumes "overlap w p c" "0 < c" "border p c k"
  shows "overlap w p k"
proof -
  have c: "c \<le> length w" "c \<le> length p" "drop (length w - c) w = take c p" using assms(1) by (auto simp: overlap_def)
  have k: "k < c" "drop (c - k) (take c p) = take k p" using assms(2,3) border_iff [of c p k] c(2) by auto
  have "drop (length w - k) w = drop (c - k) (drop (length w - c) w)" using c(1) k(1) by simp
  with c k show ?thesis by (simp add: overlap_def)
qed

lemma border_of_overlap:
  assumes "overlap w p c" "overlap w p k" "k < c"
  shows "border p c k"
proof -
  have c: "c \<le> length w" "c \<le> length p" "drop (length w - c) w = take c p" using assms(1) by (auto simp: overlap_def)
  have "drop (length w - k) w = drop (c - k) (drop (length w - c) w)" using c(1) assms(3) by simp
  with assms(2) c have "drop (c - k) (take c p) = take k p" by (simp add: overlap_def)
  with assms(3) c(2) show ?thesis using border_iff [of c p k] by simp
qed

definition longest :: "(nat \<Rightarrow> bool) \<Rightarrow> nat \<Rightarrow> bool" where
  "longest P k \<longleftrightarrow> P k \<and> (\<forall>j. P j \<longrightarrow> j \<le> k)"

text \<open>A correct table for the first \<open>length pl\<close> prefixes.\<close>

definition table_ok :: "'a list \<Rightarrow> nat list \<Rightarrow> bool" where
  "table_ok p pl \<longleftrightarrow> length pl \<le> length p \<and> (\<forall>i < length pl. longest (border p (Suc i)) (pl ! i))"

lemma table_okD:
  assumes "table_ok p pl" "0 < c" "c \<le> length pl"
  shows "longest (border p c) (pl ! (c - 1))" "pl ! (c - 1) < c"
proof -
  obtain d where d: "c = Suc d" using assms(2) gr0_implies_Suc by blast
  with assms show l: "longest (border p c) (pl ! (c - 1))" by (simp add: table_ok_def)
  have "c \<le> length p" using assms by (simp add: table_ok_def)
  with l assms(2) show "pl ! (c - 1) < c" using border_iff [of c p "pl ! (c - 1)"] by (simp add: longest_def)
qed

text \<open>The lengths that the next value \<open>x\<close> extends.\<close>

definition extends :: "'a list \<Rightarrow> 'a list \<Rightarrow> 'a \<Rightarrow> nat \<Rightarrow> bool" where
  "extends w p x k \<longleftrightarrow> overlap w p k \<and> k < length p \<and> p ! k = x"

lemma fall_back_spec:
  assumes "table_ok p pl" "overlap w p c" "c < length p" "c \<le> length pl" "\<forall>k. extends w p x k \<longrightarrow> k \<le> c"
  shows "\<exists>r. fall_back p pl x c = Some r \<and> overlap w p r \<and> r < length p \<and> (r = 0 \<or> p ! r = x)
    \<and> (\<forall>k. extends w p x k \<longrightarrow> k \<le> r)"
  using assms(2-)
proof (induction c rule: less_induct)
  case (less c)
  show ?case
  proof (cases "c = 0 \<or> x = p ! c")
    case True
    have "fall_back p pl x c = Some c"
      using True less.prems(2,3) by (subst fall_back.simps) auto
    with True less.prems show ?thesis by auto
  next
    case False
    let ?c = "pl ! (c - 1)"
    have c: "0 < c" using False by simp
    note b = table_okD [OF assms(1) c less.prems(3)]
    have "overlap w p ?c" using overlap_border [OF less.prems(1) c] b(1) by (simp add: longest_def)
    moreover have "\<forall>k. extends w p x k \<longrightarrow> k \<le> ?c"
    proof (intro allI impI)
      fix k assume k: "extends w p x k"
      have "k \<noteq> c" using k False by (auto simp: extends_def)
      with less.prems(4) k have "k < c" by (simp add: le_neq_implies_less)
      moreover have "overlap w p k" using k by (simp add: extends_def)
      ultimately have "border p c k" using border_of_overlap [OF less.prems(1)] by blast
      with b(1) show "k \<le> ?c" by (simp add: longest_def)
    qed
    moreover have "fall_back p pl x c = fall_back p pl x ?c"
      using False c less.prems(2,3) by (subst fall_back.simps) auto
    ultimately show ?thesis
      using less.IH [OF b(2)] b(2) less.prems(2,3) by simp
  qed
qed

text \<open>Extending a matched value keeps the matched length maximal.\<close>

lemma longest_extend:
  assumes "overlap w p r" "r < length p" "r = 0 \<or> p ! r = x" "\<forall>k. extends w p x k \<longrightarrow> k \<le> r"
  shows "longest (overlap (w @ [x]) p) (if x = p ! r then r + 1 else r)"
proof -
  have "j \<le> (if x = p ! r then r + 1 else r)" if "overlap (w @ [x]) p j" for j
  proof (cases j)
    case (Suc k)
    with that have "extends w p x k" by (auto simp: overlap_Suc extends_def)
    then have "k \<le> r" "p ! k = x" using assms(4) by (auto simp: extends_def)
    with assms(3) Suc show ?thesis by auto
  qed simp
  moreover have "overlap (w @ [x]) p (if x = p ! r then r + 1 else r)"
    using assms(1-3) by (auto simp: overlap_Suc)
  ultimately show ?thesis by (simp add: longest_def)
qed

lemma table_ok_start: "p \<noteq> [] \<Longrightarrow> table_ok p [0]"
  by (cases p) (auto simp: table_ok_def longest_def overlap_def)

lemma prefix_step_ok:
  assumes "table_ok p pl" "0 < length pl" "length pl < length p"
  shows "\<exists>pl'. prefix_step p (length pl) pl = Some pl' \<and> table_ok p pl' \<and> length pl' = Suc (length pl)"
proof -
  let ?i = "length pl" let ?w = "tl (take ?i p)" let ?x = "p ! ?i"
  note b = table_okD [OF assms(1,2) order_refl]
  have "\<forall>k. extends ?w p ?x k \<longrightarrow> k \<le> pl ! (?i - 1)" using b(1) by (auto simp: extends_def longest_def)
  then obtain r where r: "fall_back p pl ?x (pl ! (?i - 1)) = Some r" "overlap ?w p r" "r < length p"
      "r = 0 \<or> p ! r = ?x" "\<forall>k. extends ?w p ?x k \<longrightarrow> k \<le> r"
    using fall_back_spec [OF assms(1), of ?w "pl ! (?i - 1)" ?x] b assms(3) by (auto simp: longest_def)
  have w: "tl (take (Suc ?i) p) = ?w @ [?x]"
    using assms(2,3) by (auto simp: take_Suc_conv_app_nth tl_append split: list.split)
  have "longest (border p (Suc ?i)) (if ?x = p ! r then r + 1 else r)"
    unfolding w using r(2-5) by (rule longest_extend)
  with assms have "table_ok p (pl @ [if ?x = p ! r then r + 1 else r])"
    by (auto simp: table_ok_def nth_append less_Suc_eq)
  with r(1) show ?thesis by (simp add: prefix_step_def)
qed

lemma prefix_loop_ok:
  assumes "table_ok p pl" "0 < length pl"
  shows "\<exists>pl'. prefix_loop p [length pl..<length p] pl = Some pl' \<and> table_ok p pl' \<and> length pl' = length p"
  using assms
proof (induction "length p - length pl" arbitrary: pl)
  case 0
  then show ?case by (auto simp: table_ok_def)
next
  case (Suc n)
  then have less: "length pl < length p" by simp
  then obtain pl' where pl': "prefix_step p (length pl) pl = Some pl'" "table_ok p pl'" "length pl' = Suc (length pl)"
    using prefix_step_ok [OF Suc.prems] by blast
  with Suc.hyps(1) [of pl'] Suc.hyps(2) less show ?case by (auto simp: upt_conv_Cons)
qed

lemma prefix_lengths_ok:
  obtains pl where "prefix_lengths p = Some pl" "table_ok p pl" "length pl = length p"
proof (cases "p = []")
  case True
  then show thesis by (intro that [of "[]"]) (auto simp: prefix_lengths_def table_ok_def)
next
  case False
  then show thesis
    using prefix_loop_ok [OF table_ok_start [OF False]] that by (auto simp: prefix_lengths_def)
qed

subsection \<open>The search\<close>

definition ends_at :: "'a list \<Rightarrow> 'a list \<Rightarrow> nat \<Rightarrow> bool" where
  "ends_at pattern values e \<longleftrightarrow>
     length pattern \<le> e \<and> e \<le> length values \<and> take (length pattern) (drop (e - length pattern) values) = pattern"

lemma ends_at_iff: "e \<le> length values \<Longrightarrow> ends_at pattern values e \<longleftrightarrow> overlap (take e values) pattern (length pattern)"
  by (auto simp: ends_at_def overlap_def min_def drop_take)

definition partial_match :: "'a list \<Rightarrow> 'a list \<Rightarrow> nat \<Rightarrow> bool" where
  "partial_match w p k \<longleftrightarrow> overlap w p k \<and> k < length p"

lemma search_step_ok:
  assumes "table_ok p pl" "length pl = length p" "longest (partial_match w p) m"
  shows "\<exists>c. search_step p pl x m = Some c \<and> longest (overlap (w @ [x]) p) c"
proof -
  have m: "overlap w p m" "m < length p" using assms(3) by (auto simp: longest_def partial_match_def)
  have "\<forall>k. extends w p x k \<longrightarrow> k \<le> m" using assms(3) by (auto simp: extends_def longest_def partial_match_def)
  then obtain r where r: "fall_back p pl x m = Some r" "overlap w p r" "r < length p" "r = 0 \<or> p ! r = x"
      "\<forall>k. extends w p x k \<longrightarrow> k \<le> r"
    using fall_back_spec [OF assms(1) m(1,2), of x] assms(2) m(2) by auto
  from longest_extend [OF r(2-5)] r(1,3) show ?thesis by (auto simp: search_step_def)
qed

lemma search_continues:
  assumes "table_ok p pl" "length pl = length p" "p \<noteq> []" "longest (overlap w p) c"
  shows "longest (partial_match w p) (if c = length p then pl ! (c - 1) else c)"
proof (cases "c = length p")
  case False
  have "c \<le> length p" using assms(4) overlap_le(2) by (auto simp: longest_def)
  with False assms(4) show ?thesis by (auto simp: longest_def partial_match_def)
next
  case True
  then have c: "0 < c" "c \<le> length pl" "overlap w p c" using assms by (auto simp: longest_def)
  note b = table_okD [OF assms(1) c(1,2)]
  have "overlap w p (pl ! (c - 1))" using overlap_border [OF c(3,1)] b(1) by (simp add: longest_def)
  moreover have "k \<le> pl ! (c - 1)" if "overlap w p k" "k < length p" for k
    using border_of_overlap [OF c(3) that(1)] that(2) True b(1) by (simp add: longest_def)
  ultimately show ?thesis using True b(2) by (auto simp: longest_def partial_match_def)
qed

lemma search_loop_ok:
  assumes "table_ok p pl" "length pl = length p" "p \<noteq> []" "longest (partial_match w p) m"
  shows "search_loop p pl xs (length w) m =
    Some (filter (ends_at p (w @ xs)) [Suc (length w)..<Suc (length (w @ xs))])"
  using assms(4)
proof (induction xs arbitrary: w m)
  case (Cons x xs)
  obtain c where c: "search_step p pl x m = Some c" "longest (overlap (w @ [x]) p) c"
    using search_step_ok [OF assms(1,2) Cons.prems] by blast
  have "ends_at p (w @ x # xs) (Suc (length w)) \<longleftrightarrow> overlap (w @ [x]) p (length p)"
    by (simp add: ends_at_iff)
  also have "\<dots> \<longleftrightarrow> c = length p"
    using c(2) overlap_le(2) [of "w @ [x]" p c] by (auto simp: longest_def intro: antisym)
  finally have hit: "ends_at p (w @ x # xs) (Suc (length w)) \<longleftrightarrow> c = length p" .
  from Cons.IH [OF search_continues [OF assms(1-3) c(2)]]
  have rest: "search_loop p pl xs (Suc (length w)) (if c = length p then pl ! (c - 1) else c) =
      Some (filter (ends_at p (w @ x # xs)) [Suc (Suc (length w))..<Suc (length (w @ x # xs))])" by simp
  have split: "[Suc (length w)..<Suc (length (w @ x # xs))] =
      Suc (length w) # [Suc (Suc (length w))..<Suc (length (w @ x # xs))]"
    by (rule upt_conv_Cons) simp
  show ?case
    unfolding split using rest hit c(1) by (auto simp del: upt_Suc)
qed simp

subsection \<open>Suffix and prefix\<close>

lemma combined_nth:
  "i < length current \<Longrightarrow> combined previous current ! i = Some (current ! i)"
  "combined previous current ! length current = None"
  by (simp_all add: combined_def nth_append)

lemma combined_border:
  "border (combined previous current) (length (combined previous current)) k \<longleftrightarrow> overlap previous current k"
proof -
  let ?u = "combined previous current" let ?n = "length ?u"
  have n: "?n = Suc (length current + length previous)" by (simp add: combined_def)
  have b: "border ?u ?n k \<longleftrightarrow> k < ?n \<and> drop (?n - k) ?u = take k ?u" using border_iff [of ?n ?u k] n by simp
  consider (small) "k \<le> length previous" "k \<le> length current" | (mid) "k \<le> length previous" "length current < k"
    | (large) "length previous < k" by linarith
  then show ?thesis
  proof cases
    case small
    then have "drop (?n - k) ?u = map Some (drop (length previous - k) previous)" "take k ?u = map Some (take k current)"
      by (simp_all add: combined_def drop_map Suc_diff_le take_map)
    with small n b show ?thesis by (simp add: overlap_def inj_map_eq_map)
  next
    case mid
    then have "set (drop (?n - k) ?u) \<subseteq> range Some" by (auto simp: combined_def Suc_diff_le drop_map)
    moreover have "None \<in> set (take k ?u)" using mid by (cases "k - length current") (auto simp: combined_def)
    ultimately have "\<not> border ?u ?n k" using b by force
    with mid show ?thesis by (auto dest: overlap_le)
  next
    case large
    have "drop (?n - k) ?u \<noteq> take k ?u" if "k < ?n"
    proof
      let ?j = "k - Suc (length previous)"
      assume eq: "drop (?n - k) ?u = take k ?u"
      have "(?n - k) + ?j = length current" "?j < k" "?j < length current" using that large n by auto
      then have "drop (?n - k) ?u ! ?j = None" "take k ?u ! ?j = Some (current ! ?j)"
        using that by (simp_all add: combined_nth)
      with eq show False by simp
    qed
    with b large show ?thesis by (auto dest: overlap_le)
  qed
qed

lemma last_border:
  obtains pl where "prefix_lengths (combined previous current) = Some pl" "table_ok (combined previous current) pl"
    "length pl = length (combined previous current)" "longest (overlap previous current) (last pl)"
proof -
  let ?u = "combined previous current"
  obtain pl where pl: "prefix_lengths ?u = Some pl" "table_ok ?u pl" "length pl = length ?u" by (rule prefix_lengths_ok)
  have pos: "0 < length ?u" by (simp add: combined_def)
  with pl have "longest (overlap previous current) (pl ! (length pl - 1))"
    using table_okD(1) [OF pl(2), of "length ?u"] unfolding combined_border by simp
  moreover have "pl ! (length pl - 1) = last pl" using pl(3) pos by (intro last_conv_nth [symmetric]) auto
  ultimately show thesis using pl by (intro that) simp_all
qed

lemma longest_bounded: "longest (overlap w p) k \<Longrightarrow> min k (min (length w) (length p)) = k"
  using overlap_le [of w p k] by (auto simp: longest_def)

lemma filter_rev_upt_skip:
  assumes "c < k" "P k" "\<And>j. P j \<Longrightarrow> j < k \<Longrightarrow> j \<le> c"
  shows "filter P (rev [1..<Suc k]) = k # filter P (rev [1..<Suc c])"
proof -
  have "[1..<Suc k] = [1..<Suc c] @ [Suc c..<k] @ [k]"
    using assms(1) upt_add_eq_append [of 1 "Suc c" "k - Suc c"] by simp
  moreover have "filter P (rev [Suc c..<k]) = []" using assms(3) by (fastforce simp: filter_empty_conv)
  ultimately show ?thesis using assms(2) by (simp del: upt_Suc)
qed

lemma chain_ok:
  fixes previous current :: "'a list"
  defines "u \<equiv> combined previous current"
  assumes "table_ok u pl" "length pl = length u" "overlap previous current k"
  shows "chain pl k acc = Some (acc @ filter (overlap previous current) (rev [1..<Suc k]))"
  using assms(4)
proof (induction k arbitrary: acc rule: less_induct)
  case (less k)
  show ?case
  proof (cases "k = 0")
    case True
    then show ?thesis by (subst chain.simps) simp
  next
    case False
    let ?c = "pl ! (k - 1)"
    have at: "overlap (tl (take (length u) u)) u j \<longleftrightarrow> overlap previous current j" for j
      unfolding u_def by (rule combined_border)
    have k: "0 < k" "k \<le> length pl" using False overlap_le(2) [of "tl (take (length u) u)" u k] at less.prems assms(3) by auto
    note b = table_okD [OF assms(2) k]
    have c: "overlap previous current ?c"
      using overlap_border [of "tl (take (length u) u)" u k ?c] at less.prems k(1) b(1) by (simp add: longest_def)
    have "j \<le> ?c" if "overlap previous current j" "j < k" for j
      using border_of_overlap [of "tl (take (length u) u)" u k j] at less.prems that b(1) by (simp add: longest_def)
    then have f: "filter (overlap previous current) (rev [1..<Suc k]) =
        k # filter (overlap previous current) (rev [1..<Suc ?c])"
      using b(2) less.prems by (intro filter_rev_upt_skip) auto
    show ?thesis
      unfolding f using less.IH [OF b(2) c, of "acc @ [k]"] k by (subst chain.simps) (auto simp del: upt_Suc)
  qed
qed

subsection \<open>The routines compute their specifications\<close>

lemma subsequence_ends_eq:
  assumes "pattern \<noteq> []"
  shows "subsequence_ends pattern values = Some (filter (ends_at pattern values) [1..<Suc (length values)])"
proof -
  obtain pl where pl: "prefix_lengths pattern = Some pl" "table_ok pattern pl" "length pl = length pattern"
    by (rule prefix_lengths_ok)
  have "longest (partial_match [] pattern) 0" using assms by (auto simp: longest_def partial_match_def overlap_def)
  from search_loop_ok [OF pl(2,3) assms this] pl(1) show ?thesis by (simp add: subsequence_ends_def del: upt_Suc)
qed

lemma overlap_empty: "w = [] \<or> p = [] \<Longrightarrow> overlap w p k \<longleftrightarrow> k = 0"
  by (auto simp: overlap_def)

lemma suffix_prefix_overlap_longest:
  "\<exists>k. suffix_prefix_overlap previous current = Some k \<and> longest (overlap previous current) k"
proof (cases "previous = [] \<or> current = []")
  case True
  then show ?thesis by (auto simp: suffix_prefix_overlap_def longest_def overlap_empty)
next
  case False
  obtain pl where pl: "prefix_lengths (combined previous current) = Some pl" "longest (overlap previous current) (last pl)"
    using last_border [of previous current] by blast
  with False longest_bounded [OF pl(2)] show ?thesis by (simp add: suffix_prefix_overlap_def)
qed

lemma suffix_prefix_overlaps_eq:
  "suffix_prefix_overlaps previous current =
    Some (filter (overlap previous current) (rev [1..<Suc (min (length previous) (length current))]))"
proof (cases "previous = [] \<or> current = []")
  case True
  then show ?thesis by (auto simp: suffix_prefix_overlaps_def)
next
  case False
  let ?P = "overlap previous current" let ?n = "min (length previous) (length current)"
  obtain pl where pl: "prefix_lengths (combined previous current) = Some pl" "table_ok (combined previous current) pl"
      "length pl = length (combined previous current)" "longest ?P (last pl)"
    using last_border [of previous current] by blast
  let ?k = "last pl"
  have k: "?P ?k" "\<And>j. ?P j \<Longrightarrow> j \<le> ?k" using pl(4) by (auto simp: longest_def)
  have "[1..<Suc ?n] = [1..<Suc ?k] @ [Suc ?k..<Suc ?n]"
    using upt_add_eq_append [of 1 "Suc ?k" "?n - ?k"] overlap_le [OF k(1)] by (simp del: upt_Suc)
  moreover have "filter ?P (rev [Suc ?k..<Suc ?n]) = []" using k(2) by (fastforce simp: filter_empty_conv)
  ultimately have "filter ?P (rev [1..<Suc ?n]) = filter ?P (rev [1..<Suc ?k])" by (simp del: upt_Suc)
  with chain_ok [OF pl(2,3) k(1), of "[]"] False pl(1) longest_bounded [OF pl(4)] show ?thesis
    by (simp add: suffix_prefix_overlaps_def del: upt_Suc)
qed

text \<open>
  Property C22. The linear-time searches of the tail follower return, without ever leaving their
  arrays or looping, what their quadratic specifications say: every end of the pattern in the
  values in increasing order, the longest suffix of the previous lines that is a prefix of the
  current ones, and all such non-empty overlaps in decreasing order.
\<close>

theorem searches_correct:
  "subsequence_ends (x # xs) values = Some (filter (ends_at (x # xs) values) [1..<Suc (length values)]) \<and>
   (\<exists>k. suffix_prefix_overlap previous current = Some k \<and> longest (overlap previous current) k) \<and>
   suffix_prefix_overlaps previous current =
     Some (filter (overlap previous current) (rev [1..<Suc (min (length previous) (length current))]))"
  using subsequence_ends_eq [of "x # xs" "values"] suffix_prefix_overlap_longest suffix_prefix_overlaps_eq by blast

end
