(* ===== verification/Session_Tail.thy ===== *)
theory Session_Tail
  imports Prefix_Function Command_Contract
begin

section \<open>Following the terminal text of a session\<close>

text \<open>
  \<^verbatim>\<open>src/rodex/session_tail.py\<close>: the grammar of the tail command, the cursor that turns successive
  captures of a tmux pane into the lines to print, and the polling loop. A line is a text, a
  capture is a list of lines split by its history count. The three regular expressions are written
  out as the deterministic parsers they are. \<open>None\<close> of an advance is the request for a full capture;
  the matching routines of \<open>Prefix_Function\<close> can fail in their types only, which \<open>TailIndex\<close> records.
\<close>

type_synonym line = pystr

subsection \<open>Requests\<close>

definition DEFAULT_TAIL_LINE_COUNT :: nat where
  "DEFAULT_TAIL_LINE_COUNT = 10"

definition TAIL_POLL_INTERVAL_SECONDS :: rat where
  "TAIL_POLL_INTERVAL_SECONDS = 4 / 10"

definition TAIL_MAX_IDLE_POLL_INTERVAL_SECONDS :: rat where
  "TAIL_MAX_IDLE_POLL_INTERVAL_SECONDS = 32 / 10"

definition TAIL_SETTLED_POLL_COUNT :: nat where
  "TAIL_SETTLED_POLL_COUNT = 3"

definition TAIL_CURSOR_HISTORY_LINE_COUNT :: nat where
  "TAIL_CURSOR_HISTORY_LINE_COUNT = 256"

definition STATUS_REGION_MAX_LINE_COUNT :: nat where
  "STATUS_REGION_MAX_LINE_COUNT = 6"

datatype tail_error = TailUsage | TailIndex

record session_tail_request =
  tail_session_name :: pystr
  tail_line_count :: nat
  tail_from_start :: bool
  tail_follow :: bool

definition is_digit :: "nat \<Rightarrow> bool" where
  "is_digit c \<longleftrightarrow> 48 \<le> c \<and> c < 58"

text \<open>\<^verbatim>\<open>[0-9]+\<close> on the whole text, and its value; \<^verbatim>\<open>int\<close> refuses more than 4300 digits.\<close>

definition all_digits :: "pystr \<Rightarrow> bool" where
  "all_digits t \<longleftrightarrow> t \<noteq> [] \<and> list_all is_digit t"

definition decimal :: "pystr \<Rightarrow> nat" where
  "decimal t = foldl (\<lambda>v d. v * 10 + (d - 48)) 0 t"

definition unsigned :: "pystr \<Rightarrow> pystr" where
  "unsigned t = (case t of c # r \<Rightarrow> if c = 43 \<or> c = 45 then r else t | [] \<Rightarrow> t)"

definition parse_line_count :: "pystr \<Rightarrow> tail_error + nat \<times> bool" where
  "parse_line_count value =
     (if \<not> all_digits (unsigned value) then Inl TailUsage
      else let digits = dropWhile (\<lambda>c. c = 43 \<or> c = 45) value in
        if length digits > 4300 then Inl TailUsage
        else Inr (decimal (if digits = [] then [48] else digits), py_startswith value (lit ''+'')))"

definition short_line_count :: "pystr \<Rightarrow> bool" where
  "short_line_count t \<longleftrightarrow> (case t of c # r \<Rightarrow> c = 45 \<and> all_digits r | [] \<Rightarrow> False)"

text \<open>The loop over the arguments, with the values parsed so far.\<close>

record tail_options =
  opt_session_name :: "pystr option"
  opt_line_count :: nat
  opt_from_start :: bool
  opt_follow :: bool
  opt_options_enabled :: bool

fun parse_tail_loop :: "pystr list \<Rightarrow> tail_options \<Rightarrow> tail_error + tail_options" where
  "parse_tail_loop [] p = Inr p"
| "parse_tail_loop (a # as) p =
     (if opt_options_enabled p \<and> a = lit ''--'' then parse_tail_loop as (p\<lparr>opt_options_enabled := False\<rparr>)
      else if opt_options_enabled p \<and> a \<in> {lit ''-f'', lit ''--follow''} then parse_tail_loop as (p\<lparr>opt_follow := True\<rparr>)
      else if opt_options_enabled p \<and> a \<in> {lit ''-n'', lit ''--lines''} then
        (case as of
           [] \<Rightarrow> Inl TailUsage
         | v # as' \<Rightarrow>
             (case parse_line_count v of
                Inl e \<Rightarrow> Inl e
              | Inr (n, s) \<Rightarrow> parse_tail_loop as' (p\<lparr>opt_line_count := n, opt_from_start := s\<rparr>)))
      else if opt_options_enabled p \<and> py_startswith a (lit ''--lines='') then
        (case parse_line_count (drop (length (lit ''--lines='')) a) of
           Inl e \<Rightarrow> Inl e
         | Inr (n, s) \<Rightarrow> parse_tail_loop as (p\<lparr>opt_line_count := n, opt_from_start := s\<rparr>))
      else if opt_options_enabled p \<and> short_line_count a then
        (case parse_line_count a of
           Inl e \<Rightarrow> Inl e
         | Inr (n, s) \<Rightarrow> parse_tail_loop as (p\<lparr>opt_line_count := n, opt_from_start := s\<rparr>))
      else if opt_options_enabled p \<and> py_startswith a (lit ''-'') then Inl TailUsage
      else if opt_session_name p \<noteq> None \<or> a = [] then Inl TailUsage
      else parse_tail_loop as (p\<lparr>opt_session_name := Some a\<rparr>))"

definition parse_session_tail_request :: "pystr list \<Rightarrow> tail_error + session_tail_request" where
  "parse_session_tail_request arguments =
     (case arguments of
        [] \<Rightarrow> Inl TailUsage
      | a # as \<Rightarrow>
          if a \<noteq> TAIL_COMMAND then Inl TailUsage
          else case parse_tail_loop as
              \<lparr>opt_session_name = None, opt_line_count = DEFAULT_TAIL_LINE_COUNT, opt_from_start = False, opt_follow = False,
               opt_options_enabled = True\<rparr> of
            Inl e \<Rightarrow> Inl e
          | Inr p \<Rightarrow>
              (case opt_session_name p of
                 None \<Rightarrow> Inl TailUsage
               | Some name \<Rightarrow>
                   Inr \<lparr>tail_session_name = name, tail_line_count = opt_line_count p, tail_from_start = opt_from_start p,
                        tail_follow = opt_follow p\<rparr>))"

text \<open>\<^verbatim>\<open>xs[-n:]\<close>: with \<open>n = 0\<close> the whole list.\<close>

definition last_items :: "nat \<Rightarrow> 'a list \<Rightarrow> 'a list" where
  "last_items n xs = (if n = 0 then xs else drop (length xs - n) xs)"

definition select_initial_lines :: "line list \<Rightarrow> session_tail_request \<Rightarrow> line list" where
  "select_initial_lines snapshot request =
     (if tail_from_start request then drop (tail_line_count request - 1) snapshot
      else if tail_line_count request = 0 then []
      else last_items (tail_line_count request) snapshot)"

definition written :: "line list \<Rightarrow> pystr" where
  "written lines = concat (map (\<lambda>l. l @ [10]) lines)"

subsection \<open>Captures\<close>

record scrollback_snapshot =
  snap_lines :: "line list"
  snap_history_line_count :: nat

definition snapshot_ok :: "scrollback_snapshot \<Rightarrow> bool" where
  "snapshot_ok s \<longleftrightarrow> snap_history_line_count s \<le> length (snap_lines s)"

definition snap_history_lines :: "scrollback_snapshot \<Rightarrow> line list" where
  "snap_history_lines s = take (snap_history_line_count s) (snap_lines s)"

definition snap_visible_lines :: "scrollback_snapshot \<Rightarrow> line list" where
  "snap_visible_lines s = drop (snap_history_line_count s) (snap_lines s)"

record scrollback_state =
  scroll_history_line_count :: nat
  scroll_history_tail_lines :: "line list"
  scroll_visible_lines :: "line list"
  scroll_runtime_identity :: pystr

definition scrollback_state_ok :: "scrollback_state \<Rightarrow> bool" where
  "scrollback_state_ok s \<longleftrightarrow>
     length (scroll_history_tail_lines s) \<le> scroll_history_line_count s \<and> scroll_runtime_identity s \<noteq> []"

subsection \<open>The visible region\<close>

definition composer_line :: "line \<Rightarrow> bool" where
  "composer_line l \<longleftrightarrow> (case l of c # r \<Rightarrow> c = 8250 \<and> (take 1 r = [32] \<or> r = [] \<or> r = [10]) | [] \<Rightarrow> False)"

definition status_continuation_line :: "line \<Rightarrow> bool" where
  "status_continuation_line l \<longleftrightarrow> l \<noteq> [] \<and> py_isspace (hd l) \<and> dropWhile py_isspace l \<noteq> []"

definition eat_spaces :: "pystr \<Rightarrow> pystr option" where
  "eat_spaces t = (if t \<noteq> [] \<and> py_isspace (hd t) then Some (dropWhile py_isspace t) else None)"

definition eat :: "pystr \<Rightarrow> pystr \<Rightarrow> pystr option" where
  "eat w t = (if py_startswith t w then Some (drop (length w) t) else None)"

definition eat_digits :: "pystr \<Rightarrow> pystr option" where
  "eat_digits t = (if t \<noteq> [] \<and> is_digit (hd t) then Some (dropWhile is_digit t) else None)"

definition eat_unit :: "nat \<Rightarrow> pystr \<Rightarrow> pystr" where
  "eat_unit u t =
     (case eat_digits t of None \<Rightarrow> t | Some r \<Rightarrow> (case eat [u, 32] r of None \<Rightarrow> t | Some r' \<Rightarrow> r'))"

definition COMPACTING :: pystr where
  "COMPACTING = lit ''Compacting context''"

definition activities :: "pystr list" where
  "activities = [lit ''Working'', lit ''Waiting for background terminal'', COMPACTING]"

definition timer_follows :: "pystr \<Rightarrow> bool" where
  "timer_follows t \<longleftrightarrow>
     (case eat_spaces t of
        None \<Rightarrow> False
      | Some t1 \<Rightarrow>
          (case eat [40] t1 of
             None \<Rightarrow> False
           | Some t2 \<Rightarrow>
               (case eat_digits (eat_unit 109 (eat_unit 104 t2)) of
                  None \<Rightarrow> False
                | Some t3 \<Rightarrow>
                    (case eat [115] t3 of
                       None \<Rightarrow> False
                     | Some t4 \<Rightarrow>
                         (case eat_spaces t4 of
                            None \<Rightarrow> False
                          | Some t5 \<Rightarrow>
                              (case eat [8226] t5 of
                                 None \<Rightarrow> False
                               | Some t6 \<Rightarrow> eat_spaces t6 \<noteq> None))))))"

text \<open>The activity of an active status line.\<close>

definition active_status :: "line \<Rightarrow> pystr option" where
  "active_status l =
     (case (if take 1 l \<in> {[8226], [9702]} then eat_spaces (drop 1 l) else Some l) of
        None \<Rightarrow> None
      | Some t \<Rightarrow> List.find (\<lambda>a. case eat a t of None \<Rightarrow> False | Some r \<Rightarrow> timer_follows r) activities)"

fun status_start :: "line list \<Rightarrow> nat list \<Rightarrow> nat option" where
  "status_start lines [] = None"
| "status_start lines (j # js) =
     (if active_status (lines ! j) \<noteq> None then Some j
      else if lines ! j = [] \<or> status_continuation_line (lines ! j) then status_start lines js
      else None)"

definition settled_content :: "line list \<Rightarrow> line list" where
  "settled_content lines =
     (case List.find (\<lambda>i. composer_line (lines ! i)) (rev [0..<length lines]) of
        None \<Rightarrow> lines
      | Some i \<Rightarrow>
          (case status_start lines (rev [i - STATUS_REGION_MAX_LINE_COUNT..<i]) of
             None \<Rightarrow> take i lines
           | Some j \<Rightarrow> take j lines))"

subsection \<open>New lines of a redrawn pane\<close>

fun common_prefix :: "'a list \<Rightarrow> 'a list \<Rightarrow> nat" where
  "common_prefix (x # xs) (y # ys) = (if x = y then Suc (common_prefix xs ys) else 0)"
| "common_prefix _ _ = 0"

text \<open>The backward loop, on the reversed lists and with its bound.\<close>

fun common_suffix :: "nat \<Rightarrow> 'a list \<Rightarrow> 'a list \<Rightarrow> nat" where
  "common_suffix (Suc b) (x # xs) (y # ys) = (if x = y then Suc (common_suffix b xs ys) else 0)"
| "common_suffix _ _ _ = 0"

definition new_rendered_lines :: "'a list \<Rightarrow> 'a list \<Rightarrow> 'a list option" where
  "new_rendered_lines previous current =
     (if previous = current then Some []
      else case suffix_prefix_overlap previous current of
        None \<Rightarrow> None
      | Some k \<Rightarrow>
          if k \<noteq> 0 then Some (drop k current)
          else let p = common_prefix previous current;
                   q = common_suffix (min (length previous) (length current) - p) (rev previous) (rev current)
               in Some (drop p (take (length current - q) current)))"

subsection \<open>Continuity of the history\<close>

definition committed_prefix_matches_visible :: "'a list \<Rightarrow> 'a list \<Rightarrow> bool" where
  "committed_prefix_matches_visible committed observed \<longleftrightarrow>
     (let n = min (length committed) (length observed) in take n committed = take n observed)"

text \<open>The choice among the candidate positions: the only one that the visible lines continue, or the
  latest possible one when none is continued.\<close>

definition choose_end :: "'a list \<Rightarrow> 'a list \<Rightarrow> int \<Rightarrow> nat list \<Rightarrow> 'a list \<Rightarrow> nat option" where
  "choose_end previous current growth candidates observed =
     (let matching = filter (\<lambda>e. committed_prefix_matches_visible (drop e current) observed) candidates
      in if length matching = 1 then Some (hd matching)
         else if matching = [] \<and> growth > 0 then
           (let end_at = nat (int (length current) - growth); retained = min (length previous) end_at
            in if end_at \<in> set candidates \<and> last_items retained previous = drop (end_at - retained) (take end_at current)
               then Some end_at else None)
         else None)"

text \<open>\<open>Inl\<close> only for a failure of the matching routines; \<open>Inr None\<close> when the prior tail is not located.\<close>

definition history_sequence_end ::
  "'a list \<Rightarrow> 'a list \<Rightarrow> nat \<Rightarrow> nat \<Rightarrow> 'a list \<Rightarrow> tail_error + nat option" where
  "history_sequence_end previous current previous_count current_count observed =
     (if previous = [] then Inr (Some 0)
      else
        let growth = int current_count - int previous_count;
            latest = int (length current) - growth
        in if latest < 0 then Inr None
           else if growth = 0 \<and> length previous \<le> length current \<and> last_items (length previous) current = previous
           then Inr (Some (length current))
           else
             (case (subsequence_ends previous current, suffix_prefix_overlaps previous current) of
                (Some ends, Some overlaps) \<Rightarrow>
                  Inr (choose_end previous current growth (remdups (filter (\<lambda>e. int e \<le> latest) (ends @ overlaps))) observed)
              | _ \<Rightarrow> Inl TailIndex))"

subsection \<open>The cursor\<close>

record tail_cursor =
  cur_history_line_count :: nat
  cur_history_lines :: "line list"
  cur_observed_visible :: "line list"
  cur_compaction_notice :: "line list option"
  cur_published_visible :: "line list"
  cur_candidate_visible :: "line list"
  cur_candidate_poll_count :: nat
  cur_settled_poll_count :: nat

definition has_unsettled_visible_output :: "tail_cursor \<Rightarrow> bool" where
  "has_unsettled_visible_output c \<longleftrightarrow> cur_candidate_visible c \<noteq> cur_published_visible c"

text \<open>The opening lines of a compaction notice, up to the composer.\<close>

definition notice_lines :: "line list \<Rightarrow> line list" where
  "notice_lines region = filter (\<lambda>l. l \<noteq> []) (takeWhile (\<lambda>l. \<not> composer_line l) region)"

definition settle :: "line list \<Rightarrow> line list option \<Rightarrow> line list option \<times> line list" where
  "settle visible notice =
     (let content = settled_content visible;
          region = drop (length content) visible;
          activity = (case region of [] \<Rightarrow> None | l # _ \<Rightarrow> active_status l)
      in if activity \<noteq> Some COMPACTING then (None, content)
         else let n = (case notice of None \<Rightarrow> notice_lines region | Some n \<Rightarrow> n) in (Some n, content @ n))"

definition new_cursor :: "scrollback_snapshot \<Rightarrow> nat \<Rightarrow> tail_cursor option" where
  "new_cursor snap polls =
     (if polls < 1 then None
      else case settle (snap_visible_lines snap) None of
        (notice, v) \<Rightarrow>
          Some \<lparr>cur_history_line_count = snap_history_line_count snap,
            cur_history_lines = last_items TAIL_CURSOR_HISTORY_LINE_COUNT (snap_history_lines snap),
            cur_observed_visible = snap_visible_lines snap, cur_compaction_notice = notice, cur_published_visible = v,
            cur_candidate_visible = v, cur_candidate_poll_count = 0, cur_settled_poll_count = polls\<rparr>)"

definition rebaseline :: "scrollback_snapshot \<Rightarrow> tail_cursor \<Rightarrow> tail_cursor" where
  "rebaseline snap c =
     (case settle (snap_visible_lines snap) None of
        (notice, v) \<Rightarrow>
          c\<lparr>cur_history_line_count := snap_history_line_count snap,
            cur_history_lines := last_items TAIL_CURSOR_HISTORY_LINE_COUNT (snap_history_lines snap),
            cur_observed_visible := snap_visible_lines snap, cur_compaction_notice := notice, cur_published_visible := v,
            cur_candidate_visible := v, cur_candidate_poll_count := 0\<rparr>)"

text \<open>Committed lines that the pane already showed are skipped once, in order.\<close>

fun emit_committed :: "'a list \<Rightarrow> 'a list \<Rightarrow> 'a list \<times> 'a list" where
  "emit_committed [] observed = ([], observed)"
| "emit_committed (l # ls) [] = (case emit_committed ls [] of (es, r) \<Rightarrow> (l # es, r))"
| "emit_committed (l # ls) (v # observed) =
     (case emit_committed ls observed of (es, r) \<Rightarrow> (if l = v then es else l # es, r))"

definition new_committed_history ::
  "line list \<Rightarrow> nat \<Rightarrow> tail_cursor \<Rightarrow> tail_error + (tail_cursor \<times> line list) option" where
  "new_committed_history history count c =
     (if count < cur_history_line_count c then Inr None
      else case history_sequence_end (cur_history_lines c) history (cur_history_line_count c) count (cur_observed_visible c) of
        Inl e \<Rightarrow> Inl e
      | Inr end_at \<Rightarrow>
          if cur_history_lines c \<noteq> [] \<and> end_at = None then Inr None
          else (case emit_committed (drop (case end_at of None \<Rightarrow> 0 | Some e \<Rightarrow> e) history) (cur_observed_visible c) of
                  (emitted, observed) \<Rightarrow>
                    Inr (Some (c\<lparr>cur_history_line_count := count,
                      cur_history_lines := last_items TAIL_CURSOR_HISTORY_LINE_COUNT history,
                      cur_observed_visible := observed\<rparr>, emitted))))"

definition observe_visible :: "line list \<Rightarrow> tail_cursor \<Rightarrow> tail_error + tail_cursor \<times> line list" where
  "observe_visible visible c =
     (case settle visible (cur_compaction_notice c) of
        (notice, v) \<Rightarrow>
          (let polls = (if v \<noteq> cur_candidate_visible c then 1 else cur_candidate_poll_count c + 1);
               c' = c\<lparr>cur_compaction_notice := notice, cur_candidate_visible := v, cur_candidate_poll_count := polls\<rparr>
           in if cur_settled_poll_count c \<le> polls \<and> v \<noteq> cur_published_visible c then
                (case new_rendered_lines (cur_published_visible c) v of
                   None \<Rightarrow> Inl TailIndex
                 | Some ls \<Rightarrow> Inr (c'\<lparr>cur_published_visible := v, cur_observed_visible := visible\<rparr>, ls))
              else Inr (c', [])))"

definition advance_with ::
  "line list \<Rightarrow> nat \<Rightarrow> line list \<Rightarrow> tail_cursor \<Rightarrow> tail_error + (tail_cursor \<times> line list) option" where
  "advance_with history count visible c =
     (case new_committed_history history count c of
        Inl e \<Rightarrow> Inl e
      | Inr None \<Rightarrow> Inr None
      | Inr (Some (c1, emitted)) \<Rightarrow>
          (case observe_visible visible c1 of
             Inl e \<Rightarrow> Inl e
           | Inr (c2, shown) \<Rightarrow> Inr (Some (c2, emitted @ shown))))"

definition try_advance_state :: "scrollback_state \<Rightarrow> tail_cursor \<Rightarrow> tail_error + (tail_cursor \<times> line list) option" where
  "try_advance_state st c = advance_with (scroll_history_tail_lines st) (scroll_history_line_count st) (scroll_visible_lines st) c"

definition advance :: "scrollback_snapshot \<Rightarrow> tail_cursor \<Rightarrow> tail_error + tail_cursor \<times> line list" where
  "advance snap c =
     (case advance_with (snap_history_lines snap) (snap_history_line_count snap) (snap_visible_lines snap) c of
        Inl e \<Rightarrow> Inl e
      | Inr None \<Rightarrow> Inr (rebaseline snap c, [])
      | Inr (Some r) \<Rightarrow> Inr r)"

subsection \<open>The polling loop\<close>

text \<open>What the captures and the revalidation of one poll answer; they may raise \<open>'x\<close>.\<close>

record 'x poll_answer =
  poll_state :: "'x + scrollback_state"
  poll_snapshot :: "'x + scrollback_snapshot"
  poll_revalidate :: "'x option"

record follow_state =
  follow_observed :: scrollback_state
  follow_cursor :: tail_cursor
  follow_interval :: rat

datatype 'x follow_error = FollowRaised 'x | FollowTail tail_error

text \<open>A full capture, revalidated.\<close>

definition full_capture :: "'x poll_answer \<Rightarrow> 'x + scrollback_snapshot" where
  "full_capture a =
     (case poll_snapshot a of
        Inl x \<Rightarrow> Inl x
      | Inr snap \<Rightarrow> (case poll_revalidate a of Some x \<Rightarrow> Inl x | None \<Rightarrow> Inr snap))"

definition follow_poll ::
  "rat \<Rightarrow> rat \<Rightarrow> 'x poll_answer \<Rightarrow> follow_state \<Rightarrow> 'x follow_error + follow_state \<times> line list" where
  "follow_poll interval max_interval a f =
     (case poll_state a of
        Inl x \<Rightarrow> Inl (FollowRaised x)
      | Inr st \<Rightarrow>
          if st = follow_observed f \<and> \<not> has_unsettled_visible_output (follow_cursor f) then
            Inr (f\<lparr>follow_interval := min (follow_interval f * 2) max_interval\<rparr>, [])
          else
            (case (if scroll_runtime_identity st \<noteq> scroll_runtime_identity (follow_observed f) then
                     (case full_capture a of
                        Inl x \<Rightarrow> Inl (FollowRaised x)
                      | Inr snap \<Rightarrow> Inr (rebaseline snap (follow_cursor f), []))
                   else
                     (case try_advance_state st (follow_cursor f) of
                        Inl e \<Rightarrow> Inl (FollowTail e)
                      | Inr (Some r) \<Rightarrow> Inr r
                      | Inr None \<Rightarrow>
                          (case full_capture a of
                             Inl x \<Rightarrow> Inl (FollowRaised x)
                           | Inr snap \<Rightarrow>
                               (case advance snap (follow_cursor f) of Inl e \<Rightarrow> Inl (FollowTail e) | Inr r \<Rightarrow> Inr r)))) of
               Inl e \<Rightarrow> Inl e
             | Inr (c, emitted) \<Rightarrow>
                 Inr (\<lparr>follow_observed = st, follow_cursor = c, follow_interval = interval\<rparr>, emitted)))"

fun follow_polls ::
  "rat \<Rightarrow> rat \<Rightarrow> 'x poll_answer list \<Rightarrow> follow_state \<Rightarrow> 'x follow_error + follow_state \<times> line list" where
  "follow_polls interval max_interval [] f = Inr (f, [])"
| "follow_polls interval max_interval (a # as) f =
     (case follow_poll interval max_interval a f of
        Inl e \<Rightarrow> Inl e
      | Inr (f', ls) \<Rightarrow>
          (case follow_polls interval max_interval as f' of Inl e \<Rightarrow> Inl e | Inr (f'', ls') \<Rightarrow> Inr (f'', ls @ ls')))"

datatype 'x follow_start_error = PollIntervalNotPositive | MaxIntervalTooShort | StartRaised 'x

text \<open>The prologue: the first captures, the requested lines, and a fresh cursor.\<close>

definition follow_start ::
  "session_tail_request \<Rightarrow> rat \<Rightarrow> rat \<Rightarrow> 'x poll_answer \<Rightarrow> 'x follow_start_error + follow_state \<times> line list" where
  "follow_start request interval max_interval a =
     (if interval \<le> 0 then Inl PollIntervalNotPositive
      else if max_interval < interval then Inl MaxIntervalTooShort
      else case poll_state a of
        Inl x \<Rightarrow> Inl (StartRaised x)
      | Inr st \<Rightarrow>
          (case full_capture a of
             Inl x \<Rightarrow> Inl (StartRaised x)
           | Inr snap \<Rightarrow>
               (case new_cursor snap TAIL_SETTLED_POLL_COUNT of
                  None \<Rightarrow> Inl PollIntervalNotPositive
                | Some c \<Rightarrow>
                    Inr (\<lparr>follow_observed = st, follow_cursor = c, follow_interval = interval\<rparr>,
                         select_initial_lines (snap_lines snap) request))))"

subsection \<open>The request grammar\<close>

lemma decimal_snoc: "decimal (t @ [d]) = decimal t * 10 + (d - 48)"
  by (simp add: decimal_def)

lemma decimal_py_str_nat: "decimal (py_str_nat n) = n"
proof (induction n rule: py_str_nat.induct)
  case (1 n)
  then show ?case
    by (subst py_str_nat.simps) (auto simp: decimal_snoc, simp add: decimal_def)
qed

lemma py_str_nat_all_digits: "all_digits (py_str_nat n)"
  using py_str_nat_digits [of n] by (auto simp: all_digits_def is_digit_def list_all_iff)

lemma parse_line_count_str:
  assumes len: "length (py_str_nat n) \<le> 4300"
  shows "parse_line_count ((if fs then [43] else []) @ py_str_nat n) = Inr (n, fs)"
proof -
  obtain d ds where d: "py_str_nat n = d # ds" by (cases "py_str_nat n") auto
  with py_str_nat_digits [of n] have r: "48 \<le> d" "d < 58" by auto
  have strip: "dropWhile (\<lambda>c. c = 43 \<or> c = 45) (py_str_nat n) = py_str_nat n" using r by (simp add: d)
  have uns: "unsigned ((if fs then [43] else []) @ py_str_nat n) = py_str_nat n" using r by (simp add: unsigned_def d)
  have sign: "py_startswith ((if fs then [43] else []) @ py_str_nat n) (lit ''+'') = fs"
    using r by (simp add: d lit_def)
  show ?thesis
    using len strip uns sign decimal_py_str_nat [of n] py_str_nat_all_digits [of n]
    by (cases fs) (simp_all add: parse_line_count_def Let_def)
qed

text \<open>The canonical spelling of a request.\<close>

definition tail_arguments :: "session_tail_request \<Rightarrow> pystr list" where
  "tail_arguments r =
     [TAIL_COMMAND] @ (if tail_follow r then [lit ''-f''] else [])
     @ [lit ''-n'', (if tail_from_start r then [43] else []) @ py_str_nat (tail_line_count r), lit ''--'', tail_session_name r]"

text \<open>
  Every tail request with a session name and a line count that Python's int accepts is
  the parse of its canonical spelling, whatever characters the name contains.
\<close>

theorem parse_tail_round_trip:
  assumes "tail_session_name r \<noteq> []" "length (py_str_nat (tail_line_count r)) \<le> 4300"
  shows "parse_session_tail_request (tail_arguments r) = Inr r"
proof -
  have count: "parse_line_count ((if tail_from_start r then [43] else []) @ py_str_nat (tail_line_count r)) =
      Inr (tail_line_count r, tail_from_start r)"
    using assms(2) by (rule parse_line_count_str)
  show ?thesis
    using assms(1)
    by (cases "tail_follow r") (simp_all add: parse_session_tail_request_def tail_arguments_def count)
qed

theorem parse_tail_round_trip_witness:
  "parse_session_tail_request (tail_arguments
     \<lparr>tail_session_name = lit ''-f'', tail_line_count = 25, tail_from_start = True, tail_follow = False\<rparr>) =
   Inr \<lparr>tail_session_name = lit ''-f'', tail_line_count = 25, tail_from_start = True, tail_follow = False\<rparr>"
  by (rule parse_tail_round_trip) (simp_all add: py_str_nat.simps)

subsection \<open>Redrawn panes\<close>

lemma common_prefix_take: "take (common_prefix xs ys) xs = take (common_prefix xs ys) ys"
  "common_prefix xs ys \<le> length xs" "common_prefix xs ys \<le> length ys"
  by (induction xs ys rule: common_prefix.induct) auto

lemma common_suffix_take: "take (common_suffix b xs ys) xs = take (common_suffix b xs ys) ys" "common_suffix b xs ys \<le> b"
  "common_suffix b xs ys \<le> length xs" "common_suffix b xs ys \<le> length ys"
  by (induction b xs ys rule: common_suffix.induct) auto

lemma take_drop_middle: "p + q \<le> length xs \<Longrightarrow> xs = take p xs @ drop p (take (length xs - q) xs) @ drop (length xs - q) xs"
proof -
  assume "p + q \<le> length xs"
  then have "take p xs = take p (take (length xs - q) xs)" by simp
  then show ?thesis by (metis append_assoc append_take_drop_id)
qed

text \<open>
  When the visible pane is redrawn, the lines printed are exactly the current text minus
  what the previous text already held: either the current text continues a suffix of the previous
  one, or the two agree before and after the printed lines.
\<close>

theorem rendered_lines_new:
  "\<exists>printed before after old.
     new_rendered_lines previous current = Some printed \<and> current = before @ printed @ after \<and>
     (previous = old @ before \<and> after = [] \<or> previous = before @ old @ after)"
proof (cases "previous = current")
  case True
  then show ?thesis by (intro exI [of _ "[]"] exI [of _ current] exI [of _ "[]"] exI [of _ "[]"]) (simp add: new_rendered_lines_def)
next
  case False
  obtain k where k: "suffix_prefix_overlap previous current = Some k" "overlap previous current k"
    using suffix_prefix_overlap_longest [of previous current] by (auto simp: longest_def)
  show ?thesis
  proof (cases "k = 0")
    case False
    have "previous = take (length previous - k) previous @ take k current"
      using k(2) by (metis append_take_drop_id overlap_def)
    with k False \<open>previous \<noteq> current\<close> show ?thesis
      by (intro exI [of _ "drop k current"] exI [of _ "take k current"] exI [of _ "[]"]
          exI [of _ "take (length previous - k) previous"]) (simp add: new_rendered_lines_def)
  next
    case True
    let ?p = "common_prefix previous current"
    let ?q = "common_suffix (min (length previous) (length current) - ?p) (rev previous) (rev current)"
    note p = common_prefix_take [of previous current]
    note q = common_suffix_take [where b = "min (length previous) (length current) - ?p" and xs = "rev previous" and ys = "rev current"]
    let ?after = "drop (length current - ?q) current"
    have after: "drop (length previous - ?q) previous = ?after" using q(1) by (simp add: take_rev)
    have len: "?p + ?q \<le> length previous" "?p + ?q \<le> length current" using p(2,3) q(2) by auto
    have "new_rendered_lines previous current = Some (drop ?p (take (length current - ?q) current))"
      using True k(1) \<open>previous \<noteq> current\<close> by (simp add: new_rendered_lines_def Let_def)
    moreover have "current = take ?p current @ drop ?p (take (length current - ?q) current) @ ?after"
      using len(2) by (rule take_drop_middle)
    moreover have "previous = take ?p current @ drop ?p (take (length previous - ?q) previous) @ ?after"
      using take_drop_middle [OF len(1)] unfolding p(1) after .
    ultimately show ?thesis by blast
  qed
qed

subsection \<open>Committed history\<close>

text \<open>A position of the current history to which the previous tail can extend.\<close>

definition aligned :: "'a list \<Rightarrow> 'a list \<Rightarrow> nat \<Rightarrow> bool" where
  "aligned previous current e \<longleftrightarrow>
     (\<exists>old. take e current = old @ previous) \<or> (\<exists>old. previous = old @ take e current)"

lemma ends_at_aligned: "ends_at previous current e \<Longrightarrow> aligned previous current e"
  unfolding ends_at_def aligned_def
  by (metis append_take_drop_id drop_take diff_diff_cancel)

lemma overlap_aligned: "overlap previous current e \<Longrightarrow> aligned previous current e"
  unfolding overlap_def aligned_def by (metis append_take_drop_id)

definition end_candidates :: "'a list \<Rightarrow> 'a list \<Rightarrow> int \<Rightarrow> nat list" where
  "end_candidates previous current latest =
     remdups (filter (\<lambda>e. int e \<le> latest)
       (filter (ends_at previous current) [1..<Suc (length current)]
        @ filter (overlap previous current) (rev [1..<Suc (min (length previous) (length current))])))"

lemma end_candidates_aligned:
  "e \<in> set (end_candidates previous current latest) \<Longrightarrow> aligned previous current e \<and> int e \<le> latest"
  by (auto simp: end_candidates_def dest: ends_at_aligned overlap_aligned simp del: upt_Suc)

text \<open>What the search for the prior tail returns: it never fails, and a position it returns is one the
  prior tail extends to, with at least the reported growth after it.\<close>

lemma history_sequence_end_sound:
  assumes "previous \<noteq> []"
  shows "\<exists>r. history_sequence_end previous current n m observed = Inr r \<and>
    (\<forall>e. r = Some e \<longrightarrow> aligned previous current e \<and> int e + (int m - int n) \<le> int (length current))"
proof -
  let ?growth = "int m - int n" let ?latest = "int (length current) - ?growth"
  let ?cs = "end_candidates previous current ?latest"
  let ?ms = "filter (\<lambda>e. committed_prefix_matches_visible (drop e current) observed) ?cs"
  consider (short) "?latest < 0"
    | (idle) "0 \<le> ?latest" "?growth = 0 \<and> length previous \<le> length current \<and> last_items (length previous) current = previous"
    | (search) "0 \<le> ?latest" "\<not> (?growth = 0 \<and> length previous \<le> length current \<and> last_items (length previous) current = previous)"
    by linarith
  then show ?thesis
  proof cases
    case short
    with assms show ?thesis by (simp add: history_sequence_end_def Let_def)
  next
    case idle
    have "aligned previous current (length current)"
      using idle assms unfolding aligned_def last_items_def by (metis append_take_drop_id length_0_conv order_refl take_all)
    with assms idle show ?thesis by (simp add: history_sequence_end_def Let_def)
  next
    case search
    have eq: "history_sequence_end previous current n m observed = Inr (choose_end previous current ?growth ?cs observed)"
      unfolding history_sequence_end_def subsequence_ends_eq [OF assms] suffix_prefix_overlaps_eq end_candidates_def Let_def
      using assms search by (simp only: if_False not_less [symmetric] simp_thms option.case prod.case split: if_split)
    have "hd ?ms \<in> set ?cs" if "length ?ms = 1" using that by (cases ?ms) (auto dest: filter_eq_ConsD)
    with end_candidates_aligned [of _ previous current ?latest]
    have "aligned previous current e \<and> int e \<le> ?latest" if "choose_end previous current ?growth ?cs observed = Some e" for e
      using that unfolding choose_end_def Let_def by (auto split: if_splits simp del: length_filter_conv_card)
    with eq show ?thesis by (simp add: add.commute le_diff_eq)
  qed
qed

text \<open>The positions of the new lines that the pane had not shown at the same place.\<close>

definition unseen :: "'a list \<Rightarrow> 'a list \<Rightarrow> nat list" where
  "unseen ls observed = filter (\<lambda>i. \<not> (i < length observed \<and> observed ! i = ls ! i)) [0..<length ls]"

lemma unseen_Cons:
  "unseen (l # ls) observed =
    (if observed \<noteq> [] \<and> hd observed = l then [] else [0]) @ map Suc (unseen ls (tl observed))"
proof -
  have "[0..<length (l # ls)] = 0 # map Suc [0..<length ls]" by (simp add: upt_conv_Cons map_Suc_upt del: upt_Suc)
  then show ?thesis by (cases observed) (simp_all add: unseen_def filter_map comp_def del: upt_Suc)
qed

lemma emit_committed_eq: "emit_committed ls observed = (map ((!) ls) (unseen ls observed), drop (length ls) observed)"
  by (induction ls observed rule: emit_committed.induct) (simp_all add: unseen_Cons comp_def, simp add: unseen_def)

lemma last_items_length: "0 < n \<Longrightarrow> length (last_items n xs) \<le> n"
  by (simp add: last_items_def)

lemma new_committed_history_total: "\<exists>r. new_committed_history history count c = Inr r"
proof (cases "cur_history_lines c = []")
  case True
  then show ?thesis by (simp add: new_committed_history_def history_sequence_end_def split: prod.split)
next
  case False
  from history_sequence_end_sound [OF this, of history "cur_history_line_count c" count "cur_observed_visible c"]
  obtain r where "history_sequence_end (cur_history_lines c) history (cur_history_line_count c) count (cur_observed_visible c) = Inr r"
    by blast
  then show ?thesis by (simp add: new_committed_history_def split: prod.split)
qed


subsection \<open>The visible pane is printed once it has settled\<close>

lemma new_rendered_lines_total: "\<exists>ls. new_rendered_lines previous current = Some ls"
  using suffix_prefix_overlap_longest [of previous current] by (auto simp: new_rendered_lines_def Let_def)

lemma new_committed_history_keeps:
  assumes "new_committed_history history count c = Inr (Some (c', emitted))"
  shows "cur_published_visible c' = cur_published_visible c" "cur_candidate_visible c' = cur_candidate_visible c"
    "cur_candidate_poll_count c' = cur_candidate_poll_count c" "cur_settled_poll_count c' = cur_settled_poll_count c"
  using assms by (auto simp: new_committed_history_def split: sum.splits if_splits prod.splits)

lemma observe_visible_result:
  obtains c' ls where "observe_visible visible c = Inr (c', ls)" "cur_settled_poll_count c' = cur_settled_poll_count c"
    "cur_candidate_poll_count c' =
       (if cur_candidate_visible c' = cur_candidate_visible c then Suc (cur_candidate_poll_count c) else 1)"
    "cur_published_visible c' =
       (if cur_settled_poll_count c \<le> cur_candidate_poll_count c' then cur_candidate_visible c' else cur_published_visible c)"
proof -
  obtain notice v where v: "settle visible (cur_compaction_notice c) = (notice, v)" by (rule prod.exhaust)
  obtain ls where "new_rendered_lines (cur_published_visible c) v = Some ls" using new_rendered_lines_total by blast
  with v show thesis by (cases "observe_visible visible c") (auto simp: observe_visible_def Let_def intro!: that split: if_splits)
qed

lemma advance_with_result:
  obtains (lost) "advance_with history count visible c = Inr None"
    | (continued) c' ls where "advance_with history count visible c = Inr (Some (c', ls))"
      "cur_settled_poll_count c' = cur_settled_poll_count c"
      "cur_candidate_poll_count c' =
         (if cur_candidate_visible c' = cur_candidate_visible c then Suc (cur_candidate_poll_count c) else 1)"
      "cur_published_visible c' =
         (if cur_settled_poll_count c \<le> cur_candidate_poll_count c' then cur_candidate_visible c' else cur_published_visible c)"
proof -
  obtain r where r: "new_committed_history history count c = Inr r" using new_committed_history_total by blast
  show thesis
  proof (cases r)
    case None
    with r lost show thesis by (simp add: advance_with_def)
  next
    case (Some p)
    obtain c1 emitted where p: "p = (c1, emitted)" by (rule prod.exhaust)
    note keep = new_committed_history_keeps [OF r [unfolded Some p]]
    obtain c' ls where "observe_visible visible c1 = Inr (c', ls)" "cur_settled_poll_count c' = cur_settled_poll_count c1"
      "cur_candidate_poll_count c' =
         (if cur_candidate_visible c' = cur_candidate_visible c1 then Suc (cur_candidate_poll_count c1) else 1)"
      "cur_published_visible c' =
         (if cur_settled_poll_count c1 \<le> cur_candidate_poll_count c' then cur_candidate_visible c' else cur_published_visible c1)"
      by (rule observe_visible_result [of visible c1])
    with r Some p keep show thesis by (intro continued [of c' "emitted @ ls"]) (simp_all add: advance_with_def)
  qed
qed

text \<open>The cursors after each of a sequence of captures that continue one another.\<close>

fun advance_all :: "tail_cursor \<Rightarrow> (line list \<times> nat \<times> line list) list \<Rightarrow> tail_cursor list option" where
  "advance_all c [] = Some []"
| "advance_all c ((history, count, visible) # polls) =
     (case advance_with history count visible c of
        Inr (Some (c', ls)) \<Rightarrow> map_option ((#) c') (advance_all c' polls)
      | _ \<Rightarrow> None)"

lemma advance_all_Cons:
  assumes "advance_all c (p # polls) = Some cs"
  obtains c' cs' where "cs = c' # cs'" "advance_all c' polls = Some cs'" "cur_settled_poll_count c' = cur_settled_poll_count c"
    "cur_candidate_poll_count c' =
       (if cur_candidate_visible c' = cur_candidate_visible c then Suc (cur_candidate_poll_count c) else 1)"
    "cur_published_visible c' =
       (if cur_settled_poll_count c \<le> cur_candidate_poll_count c' then cur_candidate_visible c' else cur_published_visible c)"
proof -
  obtain history count visible where p: "p = (history, count, visible)" by (rule prod_cases3)
  show thesis
  proof (rule advance_with_result [of history count visible c])
    assume "advance_with history count visible c = Inr None"
    with assms p show thesis by simp
  next
    fix c' ls
    assume "advance_with history count visible c = Inr (Some (c', ls))"
      "cur_settled_poll_count c' = cur_settled_poll_count c"
      "cur_candidate_poll_count c' =
         (if cur_candidate_visible c' = cur_candidate_visible c then Suc (cur_candidate_poll_count c) else 1)"
      "cur_published_visible c' =
         (if cur_settled_poll_count c \<le> cur_candidate_poll_count c' then cur_candidate_visible c' else cur_published_visible c)"
    with assms p show thesis by (cases "advance_all c' polls") (auto intro: that)
  qed
qed

definition settling :: "line list \<Rightarrow> nat \<Rightarrow> tail_cursor \<Rightarrow> bool" where
  "settling v k c \<longleftrightarrow>
     cur_candidate_visible c = v \<and> k \<le> cur_candidate_poll_count c \<and>
     (cur_settled_poll_count c \<le> cur_candidate_poll_count c \<longrightarrow> cur_published_visible c = v)"

lemma settling_run:
  assumes "advance_all c polls = Some cs" "list_all (\<lambda>c'. cur_candidate_visible c' = v) cs" "settling v k c"
  shows "settling v (k + length polls) (last (c # cs)) \<and> cur_settled_poll_count (last (c # cs)) = cur_settled_poll_count c"
  using assms
proof (induction polls arbitrary: c cs k)
  case (Cons p polls)
  from Cons.prems(1) obtain c' cs' where step: "cs = c' # cs'" "advance_all c' polls = Some cs'"
      "cur_settled_poll_count c' = cur_settled_poll_count c"
      "cur_candidate_poll_count c' =
         (if cur_candidate_visible c' = cur_candidate_visible c then Suc (cur_candidate_poll_count c) else 1)"
      "cur_published_visible c' =
         (if cur_settled_poll_count c \<le> cur_candidate_poll_count c' then cur_candidate_visible c' else cur_published_visible c)"
    by (rule advance_all_Cons)
  then have "settling v (Suc k) c'" using Cons.prems(2,3) by (auto simp: settling_def split: if_splits)
  from Cons.IH [OF step(2) _ this] step(1,3) Cons.prems(2) show ?case by simp
qed simp

text \<open>
  Property C33. The visible pane is printed once it stands still: after the configured number of
  consecutive captures with the same settled content, that content has been published and the
  follower has nothing left to settle, so it may slow its polling.
\<close>

theorem visible_settles:
  assumes "advance_all c polls = Some cs" "list_all (\<lambda>c'. cur_candidate_visible c' = v) cs"
    and "cur_settled_poll_count c \<le> length polls" "polls \<noteq> []"
  shows "cur_published_visible (last cs) = v \<and> \<not> has_unsettled_visible_output (last cs)"
proof -
  obtain p polls' where polls: "polls = p # polls'" using assms(4) by (cases polls) auto
  with assms(1) obtain c' cs' where step: "cs = c' # cs'" "advance_all c' polls' = Some cs'"
      "cur_settled_poll_count c' = cur_settled_poll_count c"
      "cur_candidate_poll_count c' =
         (if cur_candidate_visible c' = cur_candidate_visible c then Suc (cur_candidate_poll_count c) else 1)"
      "cur_published_visible c' =
         (if cur_settled_poll_count c \<le> cur_candidate_poll_count c' then cur_candidate_visible c' else cur_published_visible c)"
    using advance_all_Cons by metis
  then have "settling v 1 c'" using assms(2) by (auto simp: settling_def split: if_splits)
  with settling_run [OF step(2), of v 1] assms(2,3) step(1,3) polls
  have "settling v (length polls) (last cs)" "cur_settled_poll_count (last cs) \<le> length polls" by auto
  then show ?thesis by (auto simp: settling_def has_unsettled_visible_output_def)
qed

definition counted :: "line list list \<Rightarrow> tail_cursor \<Rightarrow> bool" where
  "counted seen c \<longleftrightarrow>
     cur_candidate_poll_count c \<le> length seen \<and> list_all (\<lambda>s. s = cur_candidate_visible c) (take (cur_candidate_poll_count c) seen)"

lemma counted_run:
  assumes "advance_all c polls = Some cs" "counted seen c"
  shows "counted (rev (map cur_candidate_visible cs) @ seen) (last (c # cs)) \<and>
    cur_settled_poll_count (last (c # cs)) = cur_settled_poll_count c"
  using assms
proof (induction polls arbitrary: c cs seen)
  case (Cons p polls)
  from Cons.prems(1) obtain c' cs' where step: "cs = c' # cs'" "advance_all c' polls = Some cs'"
      "cur_settled_poll_count c' = cur_settled_poll_count c"
      "cur_candidate_poll_count c' =
         (if cur_candidate_visible c' = cur_candidate_visible c then Suc (cur_candidate_poll_count c) else 1)"
    by (rule advance_all_Cons)
  then have "counted (cur_candidate_visible c' # seen) c'" using Cons.prems(2) by (auto simp: counted_def split: if_splits)
  from Cons.IH [OF step(2) this] step(1,3) show ?case by simp
qed simp

lemma advance_all_snoc:
  "advance_all c (polls @ [p]) = Some cs \<Longrightarrow>
    \<exists>cs' c'. cs = cs' @ [c'] \<and> advance_all c polls = Some cs' \<and> advance_all (last (c # cs')) [p] = Some [c']"
proof (induction polls arbitrary: c cs)
  case Nil
  then obtain c' where "cs = [c']" using advance_all_Cons by (metis advance_all.simps(1) append_Nil option.inject)
  with Nil show ?case by simp
next
  case (Cons q polls)
  obtain history count visible where q: "q = (history, count, visible)" by (rule prod_cases3)
  with Cons.prems obtain c1 ls cs1 where c1: "advance_with history count visible c = Inr (Some (c1, ls))"
      "cs = c1 # cs1" "advance_all c1 (polls @ [p]) = Some cs1"
    by (auto split: sum.splits option.splits)
  from Cons.IH [OF c1(3)] c1(1,2) q show ?case by (auto split: if_splits)
qed

text \<open>
  Property C34. The visible pane is never printed early: starting from a fresh or rebaselined cursor, a
  capture changes the published content only when it ends at least the configured number of
  consecutive captures that all settled on exactly the new content.
\<close>

theorem visible_not_early:
  assumes "cur_candidate_poll_count c = 0" "advance_all c (polls @ [p]) = Some (cs @ [c'])"
    and "cur_published_visible c' \<noteq> cur_published_visible (last (c # cs))"
  shows "cur_settled_poll_count c \<le> Suc (length cs) \<and>
    list_all (\<lambda>c''. cur_candidate_visible c'' = cur_published_visible c')
      (drop (Suc (length cs) - cur_settled_poll_count c) (cs @ [c']))"
proof -
  let ?d = "last (c # cs)" let ?n = "cur_settled_poll_count c"
  from advance_all_snoc [OF assms(2)] have run: "advance_all c polls = Some cs" "advance_all ?d [p] = Some [c']" by auto
  have "counted [] c" using assms(1) by (simp add: counted_def)
  from counted_run [OF assms(2) this] counted_run [OF run(1) this]
  have seen: "counted (rev (map cur_candidate_visible (cs @ [c']))) c'" and n: "cur_settled_poll_count ?d = ?n" by simp_all
  from run(2) obtain c1 cs1 where "[c'] = c1 # cs1"
      "cur_published_visible c1 =
         (if cur_settled_poll_count ?d \<le> cur_candidate_poll_count c1 then cur_candidate_visible c1 else cur_published_visible ?d)"
    by (rule advance_all_Cons)
  with assms(3) n have c': "?n \<le> cur_candidate_poll_count c'" "cur_published_visible c' = cur_candidate_visible c'"
    by (auto split: if_splits)
  let ?seen = "rev (map cur_candidate_visible (cs @ [c']))"
  have "set (take ?n ?seen) \<subseteq> set (take (cur_candidate_poll_count c') ?seen)" using c'(1) by (rule set_take_subset_set_take)
  with seen c'(2) have "list_all (\<lambda>s. s = cur_published_visible c') (take ?n ?seen)"
    by (auto simp: counted_def list_all_iff)
  moreover have "take ?n ?seen = rev (map cur_candidate_visible (drop (Suc (length cs) - ?n) (cs @ [c'])))"
    by (simp add: take_rev drop_map del: rev_append map_append)
  ultimately have "list_all (\<lambda>c''. cur_candidate_visible c'' = cur_published_visible c') (drop (Suc (length cs) - ?n) (cs @ [c']))"
    by (simp add: list_all_iff del: drop_append)
  moreover have "?n \<le> Suc (length cs)" using seen c'(1) by (simp add: counted_def)
  ultimately show ?thesis by simp
qed

subsection \<open>The loop\<close>

lemma advance_total: "\<exists>r. advance snap c = Inr r"
  by (rule advance_with_result [of "snap_history_lines snap" "snap_history_line_count snap" "snap_visible_lines snap" c])
    (simp_all add: advance_def)

lemma try_advance_total: "\<exists>r. try_advance_state st c = Inr r"
  by (rule advance_with_result [of "scroll_history_tail_lines st" "scroll_history_line_count st" "scroll_visible_lines st" c])
    (simp_all add: try_advance_state_def)

definition interval_ok :: "rat \<Rightarrow> rat \<Rightarrow> follow_state \<Rightarrow> bool" where
  "interval_ok interval max_interval f \<longleftrightarrow> interval \<le> follow_interval f \<and> follow_interval f \<le> max_interval"

lemma follow_poll_result:
  assumes "0 < interval" "interval \<le> max_interval" "interval_ok interval max_interval f"
  shows "case follow_poll interval max_interval a f of
    Inl e \<Rightarrow> \<exists>x. e = FollowRaised x | Inr (f', ls) \<Rightarrow> interval_ok interval max_interval f'"
proof -
  obtain r where r: "\<And>st. try_advance_state st (follow_cursor f) = Inr (r st)"
    using try_advance_total [of _ "follow_cursor f"] by metis
  obtain q where q: "\<And>snap. advance snap (follow_cursor f) = Inr (q snap)"
    using advance_total [of _ "follow_cursor f"] by metis
  have "follow_interval f \<le> follow_interval f * 2" using assms(1,3) by (simp add: interval_ok_def)
  then have "interval_ok interval max_interval (f\<lparr>follow_interval := min (follow_interval f * 2) max_interval\<rparr>)"
    using assms by (auto simp: interval_ok_def)
  then show ?thesis
    using assms(2) by (auto simp: follow_poll_def interval_ok_def r q split: sum.split option.split prod.split)
qed

lemma follow_polls_result:
  assumes "0 < interval" "interval \<le> max_interval" "interval_ok interval max_interval f"
  shows "case follow_polls interval max_interval answers f of
    Inl e \<Rightarrow> \<exists>x. e = FollowRaised x | Inr (f', ls) \<Rightarrow> interval_ok interval max_interval f'"
  using assms(3)
proof (induction answers arbitrary: f)
  case (Cons a answers)
  note step = follow_poll_result [OF assms(1,2) Cons.prems, of a]
  show ?case
  proof (cases "follow_poll interval max_interval a f")
    case (Inr p)
    obtain f' ls where p: "p = (f', ls)" by (rule prod.exhaust)
    with step Inr have "interval_ok interval max_interval f'" by simp
    from Cons.IH [OF this] Inr p show ?thesis by (auto split: sum.splits prod.splits)
  qed (use step in simp)
qed simp

text \<open>
  The follower polls at its configured pace and never fails by itself: after any number of
  polls the interval lies between the poll interval and the idle maximum, and an exception can only
  come from a capture or from the revalidation.
\<close>

theorem follow_bounded:
  assumes "follow_start request interval max_interval a = Inr (f, shown)"
  shows "case follow_polls interval max_interval answers f of
    Inl e \<Rightarrow> \<exists>x. e = FollowRaised x
  | Inr (f', printed) \<Rightarrow> 0 < follow_interval f' \<and> interval \<le> follow_interval f' \<and> follow_interval f' \<le> max_interval"
proof -
  from assms have i: "0 < interval" "interval \<le> max_interval" "follow_interval f = interval"
    by (auto simp: follow_start_def split: if_splits sum.splits option.splits)
  then have "interval_ok interval max_interval f" by (simp add: interval_ok_def)
  from follow_polls_result [OF i(1,2) this, of answers] i(1) show ?thesis
    by (auto simp: interval_ok_def split: sum.splits)
qed

subsection \<open>Instances\<close>

definition tail_demo_snapshot :: scrollback_snapshot where
  "tail_demo_snapshot = \<lparr>snap_lines = [lit ''a'', lit ''b'', lit ''c''], snap_history_line_count = 2\<rparr>"

definition tail_demo_cursor :: tail_cursor where
  "tail_demo_cursor = the (new_cursor tail_demo_snapshot 2)"

lemmas tail_eval = tail_demo_cursor_def tail_demo_snapshot_def new_cursor_def settle_def settled_content_def composer_line_def
  snap_visible_lines_def snap_history_lines_def last_items_def TAIL_CURSOR_HISTORY_LINE_COUNT_def Let_def

lemma tail_demo_cursor_eq:
  "tail_demo_cursor =
    \<lparr>cur_history_line_count = 2, cur_history_lines = [lit ''a'', lit ''b''], cur_observed_visible = [lit ''c''],
     cur_compaction_notice = None, cur_published_visible = [lit ''c''], cur_candidate_visible = [lit ''c''],
     cur_candidate_poll_count = 0, cur_settled_poll_count = 2\<rparr>"
  by (simp add: tail_eval lit_def)

abbreviation tail_demo_history :: "line list" where
  "tail_demo_history \<equiv> [lit ''a'', lit ''b'', lit ''c'', lit ''d'']"

lemma tail_demo_history_end:
  "history_sequence_end [lit ''a'', lit ''b''] tail_demo_history 2 4 [lit ''c''] = Inr (Some 2)"
  by (simp add: history_sequence_end_def Let_def last_items_def subsequence_ends_eq suffix_prefix_overlaps_eq ends_at_def
      overlap_def choose_end_def committed_prefix_matches_visible_def upt_rec numeral_eq_Suc)


definition tail_demo_poll :: "line list \<times> nat \<times> line list" where
  "tail_demo_poll = ([lit ''a'', lit ''b''], 2, [lit ''x''])"

lemma tail_demo_advance:
  "advance_all tail_demo_cursor [tail_demo_poll, tail_demo_poll] =
    Some [tail_demo_cursor\<lparr>cur_candidate_visible := [lit ''x''], cur_candidate_poll_count := 1\<rparr>,
      tail_demo_cursor\<lparr>cur_candidate_visible := [lit ''x''], cur_candidate_poll_count := 2, cur_published_visible := [lit ''x''],
        cur_observed_visible := [lit ''x'']\<rparr>]"
proof -
  obtain ls where ls: "new_rendered_lines [lit ''c''] [lit ''x''] = Some ls" using new_rendered_lines_total by blast
  have x: "settle [lit ''x''] n = (None, [lit ''x''])" for n
    by (simp add: settle_def settled_content_def composer_line_def lit_def)
  show ?thesis
    by (simp add: tail_demo_poll_def tail_demo_cursor_eq advance_with_def new_committed_history_def history_sequence_end_def
        last_items_def TAIL_CURSOR_HISTORY_LINE_COUNT_def observe_visible_def x ls)
qed

theorem visible_settles_witness:
  "\<exists>cs. advance_all tail_demo_cursor [tail_demo_poll, tail_demo_poll] = Some cs \<and>
     cur_published_visible (last cs) = [lit ''x''] \<and> \<not> has_unsettled_visible_output (last cs)"
  using visible_settles [OF tail_demo_advance, of "[lit ''x'']"] tail_demo_advance by (simp add: tail_demo_cursor_eq)

theorem visible_not_early_witness:
  "\<exists>cs c'. advance_all tail_demo_cursor ([tail_demo_poll] @ [tail_demo_poll]) = Some (cs @ [c']) \<and>
     cur_published_visible c' \<noteq> cur_published_visible (last (tail_demo_cursor # cs)) \<and>
     list_all (\<lambda>c''. cur_candidate_visible c'' = cur_published_visible c')
       (drop (Suc (length cs) - cur_settled_poll_count tail_demo_cursor) (cs @ [c']))"
proof -
  let ?c1 = "tail_demo_cursor\<lparr>cur_candidate_visible := [lit ''x''], cur_candidate_poll_count := 1\<rparr>"
  let ?c2 = "tail_demo_cursor\<lparr>cur_candidate_visible := [lit ''x''], cur_candidate_poll_count := 2, cur_published_visible := [lit ''x''],
        cur_observed_visible := [lit ''x'']\<rparr>"
  have run: "advance_all tail_demo_cursor ([tail_demo_poll] @ [tail_demo_poll]) = Some ([?c1] @ [?c2])" using tail_demo_advance by simp
  have "cur_candidate_poll_count tail_demo_cursor = 0" by (simp add: tail_demo_cursor_eq)
  moreover have "cur_published_visible ?c2 \<noteq> cur_published_visible (last (tail_demo_cursor # [?c1]))" by (simp add: tail_demo_cursor_eq lit_def)
  ultimately show ?thesis using visible_not_early [OF _ run] run by blast
qed

definition tail_demo_state :: scrollback_state where
  "tail_demo_state = \<lparr>scroll_history_line_count = 2, scroll_history_tail_lines = [lit ''a'', lit ''b''],
     scroll_visible_lines = [lit ''c''], scroll_runtime_identity = lit ''r''\<rparr>"

definition tail_demo_answer :: "unit poll_answer" where
  "tail_demo_answer = \<lparr>poll_state = Inr tail_demo_state, poll_snapshot = Inr tail_demo_snapshot, poll_revalidate = None\<rparr>"

definition tail_demo_request :: session_tail_request where
  "tail_demo_request = \<lparr>tail_session_name = lit ''s'', tail_line_count = 1, tail_from_start = False, tail_follow = True\<rparr>"

theorem follow_bounded_witness:
  "\<exists>f. follow_start tail_demo_request 1 4 tail_demo_answer = Inr (f, [lit ''c'']) \<and>
     (case follow_polls 1 4 [tail_demo_answer, tail_demo_answer, tail_demo_answer] f of
        Inl e \<Rightarrow> \<exists>x. e = FollowRaised x
      | Inr (f', printed) \<Rightarrow> 0 < follow_interval f' \<and> 1 \<le> follow_interval f' \<and> follow_interval f' \<le> 4)"
proof -
  have "new_cursor tail_demo_snapshot TAIL_SETTLED_POLL_COUNT \<noteq> None"
    by (simp add: new_cursor_def TAIL_SETTLED_POLL_COUNT_def split: prod.split)
  then obtain c where c: "new_cursor tail_demo_snapshot TAIL_SETTLED_POLL_COUNT = Some c" by blast
  have "select_initial_lines (snap_lines tail_demo_snapshot) tail_demo_request = [lit ''c'']"
    by (simp add: select_initial_lines_def last_items_def tail_demo_request_def tail_demo_snapshot_def)
  with c obtain f where f: "follow_start tail_demo_request 1 4 tail_demo_answer = Inr (f, [lit ''c''])"
    by (simp add: follow_start_def tail_demo_answer_def full_capture_def)
  from f follow_bounded [OF f] show ?thesis by blast
qed

end
