(* ===== verification/Observer_State.thy ===== *)
theory Observer_State
  imports Protocol_Values "HOL-Library.Sublist"
begin

section \<open>Observer snapshots\<close>

text \<open>
  The snapshot half of \<^verbatim>\<open>ObserverStateReducer\<close> in \<^verbatim>\<open>src/rodex/observer_state.py\<close>: active events, tombstones
  and removed targets of the producer, the bounded snapshot it publishes, and the consumer that
  replays snapshots. Events are decoded messages, dictionaries keep their insertion order. The
  length of the JSON encoding is a parameter \<open>enc\<close>, as is the \<^verbatim>\<open>str\<close> of a float, a list or a dict
  (\<open>rep\<close>); the theorems hold for all of them. The record is extended by the correlation state in
  \<open>Observer_Correlation\<close>; the operations here work on either.
\<close>

type_synonym event = message
type_synonym state_key = "pystr \<times> pystr \<times> pystr"

definition OBSERVER_SCHEMA :: pystr where
  "OBSERVER_SCHEMA = lit ''rodex-agent-observer-v4''"

definition OBSERVER_SNAPSHOT_MAX_BYTES :: nat where
  "OBSERVER_SNAPSHOT_MAX_BYTES = 256 * 1024 - 256"

definition OBSERVER_SNAPSHOT_EVENT_LIMIT :: nat where
  "OBSERVER_SNAPSHOT_EVENT_LIMIT = 64"

subsection \<open>Identity of events\<close>

fun truthy :: "json \<Rightarrow> bool" where
  "truthy JNull = False"
| "truthy (JBool b) = b"
| "truthy (JInt i) = (i \<noteq> 0)"
| "truthy (JFloat f) = (f \<noteq> Finite 0)"
| "truthy (JStr s) = (s \<noteq> [])"
| "truthy (JList xs) = (xs \<noteq> [])"
| "truthy (JDict d) = (d \<noteq> [])"

definition py_str_int :: "int \<Rightarrow> pystr" where
  "py_str_int i = (if i < 0 then [45] else []) @ py_str_nat (nat \<bar>i\<bar>)"

fun py_str :: "(json \<Rightarrow> pystr) \<Rightarrow> json \<Rightarrow> pystr" where
  "py_str rep (JStr s) = s"
| "py_str rep JNull = lit ''None''"
| "py_str rep (JBool b) = (if b then lit ''True'' else lit ''False'')"
| "py_str rep (JInt i) = py_str_int i"
| "py_str rep j = rep j"

definition str_or_global :: "(json \<Rightarrow> pystr) \<Rightarrow> json \<Rightarrow> pystr" where
  "str_or_global rep j = (if truthy j then py_str rep j else lit ''global'')"

definition event_kind :: "(json \<Rightarrow> pystr) \<Rightarrow> event \<Rightarrow> pystr" where
  "event_kind rep e = (case dict_get e (lit ''kind'') of None \<Rightarrow> lit ''unknown'' | Some v \<Rightarrow> py_str rep v)"

text \<open>The thread of the key: the target, else the thread; of an agent activity, the agent.\<close>

definition event_thread :: "(json \<Rightarrow> pystr) \<Rightarrow> event \<Rightarrow> json" where
  "event_thread rep e =
     (let thread = (if as_id (jfield e ''target_thread_id'') \<noteq> None then jfield e ''target_thread_id'' else jfield e ''thread_id'')
      in case jfield e ''item'' of
           JDict item \<Rightarrow>
             if event_kind rep e = lit ''app_server_subagent_activity'' \<and> as_id (jfield item ''agent_thread_id'') \<noteq> None
             then jfield item ''agent_thread_id'' else thread
         | _ \<Rightarrow> thread)"

definition observer_state_event_key :: "(json \<Rightarrow> pystr) \<Rightarrow> event \<Rightarrow> state_key" where
  "observer_state_event_key rep e =
     (let kind = event_kind rep e; thread = event_thread rep e in
      case as_id (jpath (jfield e ''item'') ''id'') of
        Some item_id \<Rightarrow> (str_or_global rep thread, item_id, kind)
      | None \<Rightarrow>
          (case as_id (jfield e ''activity_item_id'') of
             Some activity_id \<Rightarrow> (str_or_global rep thread, activity_id, kind)
           | None \<Rightarrow>
               if kind = lit ''trace_published'' then (lit ''global'', lit ''latest'', kind)
               else (str_or_global rep thread, lit ''latest'', kind)))"

definition observer_event_target_thread_id :: "event \<Rightarrow> pystr option" where
  "observer_event_target_thread_id e =
     (case as_id (jfield e ''target_thread_id'') of
        Some t \<Rightarrow> Some t
      | None \<Rightarrow>
          (case as_id (jpath (jfield e ''item'') ''agent_thread_id'') of
             Some t \<Rightarrow> Some t
           | None \<Rightarrow> as_id (jfield e ''thread_id'')))"

definition ascii_lower :: "pystr \<Rightarrow> pystr" where
  "ascii_lower = map (\<lambda>c. if 65 \<le> c \<and> c \<le> 90 then c + 32 else c)"

text \<open>No character outside ASCII has a lower case that spells one of the four words.\<close>

definition is_terminal_event :: "event \<Rightarrow> bool" where
  "is_terminal_event e \<longleftrightarrow>
     jfield e ''method'' = JStr (lit ''item/completed'') \<or>
     (case as_str (jpath (jfield e ''item'') ''activity_kind'') of
        None \<Rightarrow> False
      | Some k \<Rightarrow> ascii_lower k \<in> {lit ''completed'', lit ''failed'', lit ''aborted'', lit ''shutdown''})"

definition event_mentions_target :: "event \<Rightarrow> pystr \<Rightarrow> bool" where
  "event_mentions_target e target \<longleftrightarrow>
     observer_event_target_thread_id e = Some target \<or>
     (case as_list (jpath (jfield e ''item'') ''receiver_thread_ids'') of None \<Rightarrow> False | Some ids \<Rightarrow> JStr target \<in> set ids)"

subsection \<open>State and snapshot\<close>

record observer_state =
  obs_epoch :: int
  obs_revision :: int
  obs_active :: "(state_key, event) dict"
  obs_tombstones :: "(state_key, event) dict"
  obs_removed_targets :: "pystr list"
  obs_dropped_event_count :: nat

definition snapshot_value :: "'a observer_state_scheme \<Rightarrow> message" where
  "snapshot_value s =
     [(lit ''schema'', JStr OBSERVER_SCHEMA),
      (lit ''kind'', JStr (lit ''observer_state_snapshot'')),
      (lit ''epoch'', JInt (obs_epoch s)),
      (lit ''revision'', JInt (obs_revision s)),
      (lit ''state'', JDict
        [(lit ''events'', JList (map (JDict \<circ> snd) (obs_active s))),
         (lit ''tombstones'', JList (map (JDict \<circ> snd) (obs_tombstones s))),
         (lit ''removedTargetThreadIds'', JList (map JStr (obs_removed_targets s)))]),
      (lit ''overflow'', JDict
        [(lit ''dropped_event_count'', JInt (int (obs_dropped_event_count s))),
         (lit ''state_complete'', JBool (obs_dropped_event_count s = 0))])]"

definition retained :: "'a observer_state_scheme \<Rightarrow> nat" where
  "retained s = length (obs_active s) + length (obs_tombstones s) + length (obs_removed_targets s)"

definition drop_oldest_for_size :: "'a observer_state_scheme \<Rightarrow> 'a observer_state_scheme" where
  "drop_oldest_for_size s =
     (if obs_active s \<noteq> [] then s\<lparr>obs_active := tl (obs_active s), obs_dropped_event_count := obs_dropped_event_count s + 1\<rparr>
      else if obs_tombstones s \<noteq> [] then
        s\<lparr>obs_tombstones := tl (obs_tombstones s), obs_dropped_event_count := obs_dropped_event_count s + 1\<rparr>
      else s\<lparr>obs_removed_targets := tl (obs_removed_targets s), obs_dropped_event_count := obs_dropped_event_count s + 1\<rparr>)"

lemma retained_drop_for_size: "retained s \<noteq> 0 \<Longrightarrow> retained (drop_oldest_for_size s) < retained s"
  by (auto simp: retained_def drop_oldest_for_size_def)

text \<open>The loop of \<^verbatim>\<open>snapshot\<close>: it stops when the encoding fits or nothing is left.\<close>

function fit_snapshot :: "(message \<Rightarrow> nat) \<Rightarrow> 'a observer_state_scheme \<Rightarrow> 'a observer_state_scheme" where
  "fit_snapshot enc s =
     (if enc (snapshot_value s) \<le> OBSERVER_SNAPSHOT_MAX_BYTES \<or> retained s = 0 then s
      else fit_snapshot enc (drop_oldest_for_size s))"
  by pat_completeness auto
termination
  by (relation "measure (\<lambda>(enc, s). retained s)") (auto intro: retained_drop_for_size)

declare fit_snapshot.simps [simp del]

definition take_snapshot :: "(message \<Rightarrow> nat) \<Rightarrow> 'a observer_state_scheme \<Rightarrow> 'a observer_state_scheme \<times> message" where
  "take_snapshot enc s = (let s' = fit_snapshot enc s in (s', snapshot_value s'))"

definition drop_oldest_for_count :: "'a observer_state_scheme \<Rightarrow> 'a observer_state_scheme" where
  "drop_oldest_for_count s =
     (if obs_tombstones s \<noteq> [] then
        s\<lparr>obs_tombstones := tl (obs_tombstones s), obs_dropped_event_count := obs_dropped_event_count s + 1\<rparr>
      else if obs_removed_targets s \<noteq> [] then
        s\<lparr>obs_removed_targets := tl (obs_removed_targets s), obs_dropped_event_count := obs_dropped_event_count s + 1\<rparr>
      else s\<lparr>obs_active := tl (obs_active s), obs_dropped_event_count := obs_dropped_event_count s + 1\<rparr>)"

lemma retained_drop_for_count: "retained s \<noteq> 0 \<Longrightarrow> retained (drop_oldest_for_count s) < retained s"
  by (auto simp: retained_def drop_oldest_for_count_def)

function enforce_bounds :: "'a observer_state_scheme \<Rightarrow> 'a observer_state_scheme" where
  "enforce_bounds s =
     (if retained s \<le> OBSERVER_SNAPSHOT_EVENT_LIMIT then s else enforce_bounds (drop_oldest_for_count s))"
  by pat_completeness auto
termination
  by (relation "measure retained") (auto simp: OBSERVER_SNAPSHOT_EVENT_LIMIT_def intro: retained_drop_for_count)

declare enforce_bounds.simps [simp del]

definition advance_revision :: "'a observer_state_scheme \<Rightarrow> 'a observer_state_scheme" where
  "advance_revision s = s\<lparr>obs_revision := obs_revision s + 1\<rparr>"

subsection \<open>Producer operations\<close>

definition observe_event :: "(json \<Rightarrow> pystr) \<Rightarrow> (message \<Rightarrow> nat) \<Rightarrow> event \<Rightarrow> 'a observer_state_scheme \<Rightarrow> 'a observer_state_scheme \<times> message" where
  "observe_event rep enc e s =
     (let key = observer_state_event_key rep e;
          s1 = (case observer_event_target_thread_id e of
                  None \<Rightarrow> s
                | Some t \<Rightarrow> s\<lparr>obs_removed_targets := filter (\<lambda>x. x \<noteq> t) (obs_removed_targets s)\<rparr>);
          active = dict_pop key (obs_active s1);
          tombstones = dict_pop key (obs_tombstones s1);
          s2 = (if is_terminal_event e
                then s1\<lparr>obs_active := active, obs_tombstones := tombstones @ [(key, e)]\<rparr>
                else s1\<lparr>obs_active := active @ [(key, e)], obs_tombstones := tombstones\<rparr>)
      in take_snapshot enc (enforce_bounds (advance_revision s2)))"

text \<open>One event of a pruned collection: kept, kept for its other receivers, or removed.\<close>

definition prune_event :: "pystr \<Rightarrow> event \<Rightarrow> event option" where
  "prune_event target e =
     (if \<not> event_mentions_target e target then Some e
      else case jfield e ''item'' of
        JDict item \<Rightarrow>
          (case as_list (jfield item ''receiver_thread_ids'') of
             None \<Rightarrow> None
           | Some receivers \<Rightarrow>
               let remaining = filter (\<lambda>r. r \<noteq> JStr target) receivers in
               if remaining = [] then None
               else Some (dict_set (lit ''item'') (JDict (dict_set (lit ''receiver_thread_ids'') (JList remaining) item)) e))
      | _ \<Rightarrow> None)"

definition prune_collection :: "pystr \<Rightarrow> (state_key, event) dict \<Rightarrow> (state_key, event) dict" where
  "prune_collection target d = List.map_filter (\<lambda>(k, e). map_option (Pair k) (prune_event target e)) d"

datatype observer_error = ObserverEmptyTarget | ObserverKeyError | ObserverRootChanged | ObserverMalformed | ObserverUnknownAgent

definition prune_target ::
  "(message \<Rightarrow> nat) \<Rightarrow> pystr \<Rightarrow> 'a observer_state_scheme \<Rightarrow> observer_error + 'a observer_state_scheme \<times> message" where
  "prune_target enc target s =
     (if target = [] then Inl ObserverEmptyTarget
      else Inr (take_snapshot enc (enforce_bounds (advance_revision
        (s\<lparr>obs_active := prune_collection target (obs_active s), obs_tombstones := prune_collection target (obs_tombstones s),
           obs_removed_targets := filter (\<lambda>x. x \<noteq> target) (obs_removed_targets s) @ [target]\<rparr>)))))"

text \<open>The part of \<^verbatim>\<open>reset_epoch\<close> and \<^verbatim>\<open>discard_producer_state\<close> on this state.\<close>

definition clear_events :: "'a observer_state_scheme \<Rightarrow> 'a observer_state_scheme" where
  "clear_events s = s\<lparr>obs_active := [], obs_tombstones := [], obs_removed_targets := []\<rparr>"

definition reset_events :: "'a observer_state_scheme \<Rightarrow> 'a observer_state_scheme" where
  "reset_events s =
     (clear_events s)\<lparr>obs_epoch := obs_epoch s + 1, obs_revision := obs_revision s + 1, obs_dropped_event_count := 0\<rparr>"

subsection \<open>The consumer\<close>

definition event_mapping :: "(json \<Rightarrow> pystr) \<Rightarrow> json \<Rightarrow> (state_key, event) dict option" where
  "event_mapping rep v =
     (case as_list v of
        None \<Rightarrow> None
      | Some xs \<Rightarrow>
          if list_all (\<lambda>x. case as_dict x of None \<Rightarrow> False | Some e \<Rightarrow> jfield e ''schema'' = JStr OBSERVER_SCHEMA) xs
          then Some (fold (\<lambda>x d. case as_dict x of None \<Rightarrow> d | Some e \<Rightarrow> dict_set (observer_state_event_key rep e) e d) xs [])
          else None)"

record parsed_snapshot =
  parsed_epoch :: int
  parsed_revision :: int
  parsed_active :: "(state_key, event) dict"
  parsed_tombstones :: "(state_key, event) dict"
  parsed_removed :: "pystr list"
  parsed_dropped :: nat

fun as_count :: "json \<Rightarrow> int option" where
  "as_count (JInt i) = (if i < 0 then None else Some i)"
| "as_count _ = None"

definition parse_snapshot :: "(json \<Rightarrow> pystr) \<Rightarrow> message \<Rightarrow> parsed_snapshot option" where
  "parse_snapshot rep m =
     (if jfield m ''schema'' \<noteq> JStr OBSERVER_SCHEMA \<or> jfield m ''kind'' \<noteq> JStr (lit ''observer_state_snapshot'') then None
      else case (as_count (jfield m ''epoch''), as_count (jfield m ''revision''), as_dict (jfield m ''state''), as_dict (jfield m ''overflow'')) of
        (Some epoch, Some revision, Some st, Some overflow) \<Rightarrow>
          (case (as_count (jfield overflow ''dropped_event_count''), jfield overflow ''state_complete'') of
             (Some dropped, JBool whole) \<Rightarrow>
               if whole \<noteq> (dropped = 0) then None
               else (case (event_mapping rep (jfield st ''events''), event_mapping rep (jfield st ''tombstones''),
                           as_list (jfield st ''removedTargetThreadIds'')) of
                       (Some active, Some tombstones, Some removed) \<Rightarrow>
                         if length active + length tombstones + length removed > OBSERVER_SNAPSHOT_EVENT_LIMIT then None
                         else Some \<lparr>parsed_epoch = epoch, parsed_revision = revision, parsed_active = active,
                           parsed_tombstones = tombstones, parsed_removed = List.map_filter as_id removed,
                           parsed_dropped = nat dropped\<rparr>
                     | _ \<Rightarrow> None)
           | _ \<Rightarrow> None)
      | _ \<Rightarrow> None)"

record observer_delta =
  delta_epoch :: int
  delta_revision :: int
  delta_epoch_changed :: bool
  delta_state_replaced :: bool
  delta_upserted :: "event list"
  delta_tombstones :: "event list"
  delta_removed :: "pystr list"
  delta_active :: "event list"

text \<open>The keys of a dict comprehension over a list.\<close>

definition remdups_first :: "'a list \<Rightarrow> 'a list" where
  "remdups_first xs = rev (remdups (rev xs))"

definition initial_consumer :: observer_state where
  "initial_consumer =
     \<lparr>obs_epoch = - 1, obs_revision = - 1, obs_active = [], obs_tombstones = [], obs_removed_targets = [],
      obs_dropped_event_count = 0\<rparr>"

definition initial_producer :: observer_state where
  "initial_producer =
     \<lparr>obs_epoch = 0, obs_revision = 0, obs_active = [], obs_tombstones = [], obs_removed_targets = [],
      obs_dropped_event_count = 0\<rparr>"

definition empty_delta :: "observer_state \<Rightarrow> observer_delta" where
  "empty_delta s =
     \<lparr>delta_epoch = obs_epoch s, delta_revision = obs_revision s, delta_epoch_changed = False, delta_state_replaced = False,
      delta_upserted = [], delta_tombstones = [], delta_removed = [], delta_active = map snd (obs_active s)\<rparr>"

definition changed_events :: "(state_key, event) dict \<Rightarrow> (state_key, event) dict \<Rightarrow> event list" where
  "changed_events old incoming = map snd (filter (\<lambda>(k, e). case dict_get old k of None \<Rightarrow> True | Some e' \<Rightarrow> \<not> py_eq (JDict e') (JDict e)) incoming)"

definition consume_snapshot :: "(json \<Rightarrow> pystr) \<Rightarrow> message \<Rightarrow> observer_state \<Rightarrow> observer_state \<times> observer_delta" where
  "consume_snapshot rep m s =
     (case parse_snapshot rep m of
        None \<Rightarrow> (s, empty_delta s)
      | Some p \<Rightarrow>
          if parsed_epoch p < obs_epoch s \<or> parsed_epoch p = obs_epoch s \<and> parsed_revision p \<le> obs_revision s
          then (s, empty_delta s)
          else
            let epoch_changed = (parsed_epoch p \<noteq> obs_epoch s) in
            if \<not> epoch_changed \<and> parsed_dropped p < obs_dropped_event_count s then (s, empty_delta s)
            else
              let replaced = (epoch_changed \<or> parsed_dropped p > obs_dropped_event_count s);
                  prior = (if replaced then clear_events s else s);
                  s' = s\<lparr>obs_epoch := parsed_epoch p, obs_revision := parsed_revision p,
                    obs_dropped_event_count := parsed_dropped p, obs_active := parsed_active p,
                    obs_tombstones := parsed_tombstones p, obs_removed_targets := remdups_first (parsed_removed p)\<rparr>
              in (s', \<lparr>delta_epoch = parsed_epoch p, delta_revision = parsed_revision p, delta_epoch_changed = epoch_changed,
                   delta_state_replaced = replaced, delta_upserted = changed_events (obs_active prior) (parsed_active p),
                   delta_tombstones = changed_events (obs_tombstones prior) (parsed_tombstones p),
                   delta_removed = filter (\<lambda>t. t \<notin> set (obs_removed_targets prior)) (remdups_first (parsed_removed p)),
                   delta_active = map snd (parsed_active p)\<rparr>))"

subsection \<open>Well-formed states\<close>

definition events_ok :: "(json \<Rightarrow> pystr) \<Rightarrow> (state_key, event) dict \<Rightarrow> bool" where
  "events_ok rep d \<longleftrightarrow>
     distinct (dict_keys d) \<and>
     list_all (\<lambda>(k, e). observer_state_event_key rep e = k \<and> jfield e ''schema'' = JStr OBSERVER_SCHEMA) d"

definition obs_wf :: "(json \<Rightarrow> pystr) \<Rightarrow> 'a observer_state_scheme \<Rightarrow> bool" where
  "obs_wf rep s \<longleftrightarrow>
     0 \<le> obs_epoch s \<and> 0 \<le> obs_revision s \<and> events_ok rep (obs_active s) \<and> events_ok rep (obs_tombstones s) \<and>
     distinct (obs_removed_targets s) \<and> [] \<notin> set (obs_removed_targets s)"

lemma events_ok_tl: "events_ok rep d \<Longrightarrow> events_ok rep (tl d)"
  by (cases d) (auto simp: events_ok_def)

lemma events_ok_pop: "events_ok rep d \<Longrightarrow> events_ok rep (dict_pop k d)"
  using set_dict_pop_subset [of k d] by (auto simp: events_ok_def list_all_iff)

lemma events_ok_append:
  "events_ok rep d \<Longrightarrow> k \<notin> set (dict_keys d) \<Longrightarrow> observer_state_event_key rep e = k \<Longrightarrow> jfield e ''schema'' = JStr OBSERVER_SCHEMA \<Longrightarrow>
    events_ok rep (d @ [(k, e)])"
  by (auto simp: events_ok_def)

lemma dict_pop_notin: "k \<notin> set (dict_keys (dict_pop k d))"
  by (auto simp: dict_pop_def)

lemma events_ok_last:
  "events_ok rep d \<Longrightarrow> jfield e ''schema'' = JStr OBSERVER_SCHEMA \<Longrightarrow>
    events_ok rep (dict_pop (observer_state_event_key rep e) d @ [(observer_state_event_key rep e, e)])"
  by (rule events_ok_append [OF events_ok_pop dict_pop_notin]) simp_all

lemma distinct_tl': "distinct xs \<Longrightarrow> distinct (tl xs)" and notin_tl: "x \<notin> set xs \<Longrightarrow> x \<notin> set (tl xs)"
  by (cases xs; simp)+

lemma drop_for_size_wf: "obs_wf rep s \<Longrightarrow> obs_wf rep (drop_oldest_for_size s)"
  by (auto simp: obs_wf_def drop_oldest_for_size_def events_ok_tl distinct_tl' notin_tl)

lemma drop_for_count_wf: "obs_wf rep s \<Longrightarrow> obs_wf rep (drop_oldest_for_count s)"
  by (auto simp: obs_wf_def drop_oldest_for_count_def events_ok_tl distinct_tl' notin_tl)

text \<open>Dropping keeps the position and only raises the count of dropped events.\<close>

definition same_position :: "'a observer_state_scheme \<Rightarrow> 'a observer_state_scheme \<Rightarrow> bool" where
  "same_position s t \<longleftrightarrow>
     obs_epoch t = obs_epoch s \<and> obs_revision t = obs_revision s \<and> obs_dropped_event_count s \<le> obs_dropped_event_count t
     \<and> retained t \<le> retained s"

lemma same_position_refl [simp]: "same_position s s"
  by (simp add: same_position_def)

lemma same_position_trans: "same_position s t \<Longrightarrow> same_position t u \<Longrightarrow> same_position s u"
  by (simp add: same_position_def)

lemma drop_same_position: "same_position s (drop_oldest_for_size s)" "same_position s (drop_oldest_for_count s)"
  by (simp_all add: same_position_def drop_oldest_for_size_def drop_oldest_for_count_def retained_def)

lemma fit_snapshot_result:
  "obs_wf rep s \<Longrightarrow> obs_wf rep (fit_snapshot enc s) \<and> same_position s (fit_snapshot enc s) \<and>
    (enc (snapshot_value (fit_snapshot enc s)) \<le> OBSERVER_SNAPSHOT_MAX_BYTES \<or> retained (fit_snapshot enc s) = 0)"
proof (induction enc s rule: fit_snapshot.induct)
  case (1 enc s)
  show ?case
  proof (cases "enc (snapshot_value s) \<le> OBSERVER_SNAPSHOT_MAX_BYTES \<or> retained s = 0")
    case True
    with 1 show ?thesis by (subst (1 2 3 4) fit_snapshot.simps) auto
  next
    case False
    with "1.IH" drop_for_size_wf [OF "1.prems"] have "obs_wf rep (fit_snapshot enc (drop_oldest_for_size s))"
      "same_position (drop_oldest_for_size s) (fit_snapshot enc (drop_oldest_for_size s))"
      "enc (snapshot_value (fit_snapshot enc (drop_oldest_for_size s))) \<le> OBSERVER_SNAPSHOT_MAX_BYTES
        \<or> retained (fit_snapshot enc (drop_oldest_for_size s)) = 0" by auto
    moreover have "fit_snapshot enc s = fit_snapshot enc (drop_oldest_for_size s)"
      using False by (subst fit_snapshot.simps) simp
    ultimately show ?thesis using drop_same_position(1) same_position_trans by metis
  qed
qed

lemma enforce_bounds_result:
  "obs_wf rep s \<Longrightarrow> obs_wf rep (enforce_bounds s) \<and> same_position s (enforce_bounds s) \<and>
    retained (enforce_bounds s) \<le> OBSERVER_SNAPSHOT_EVENT_LIMIT"
proof (induction s rule: enforce_bounds.induct)
  case (1 s)
  show ?case
  proof (cases "retained s \<le> OBSERVER_SNAPSHOT_EVENT_LIMIT")
    case True
    with 1 show ?thesis by (subst (1 2 3) enforce_bounds.simps) auto
  next
    case False
    with "1.IH" drop_for_count_wf [OF "1.prems"] have "obs_wf rep (enforce_bounds (drop_oldest_for_count s))"
      "same_position (drop_oldest_for_count s) (enforce_bounds (drop_oldest_for_count s))"
      "retained (enforce_bounds (drop_oldest_for_count s)) \<le> OBSERVER_SNAPSHOT_EVENT_LIMIT" by auto
    moreover have "enforce_bounds s = enforce_bounds (drop_oldest_for_count s)"
      using False by (subst enforce_bounds.simps) simp
    ultimately show ?thesis using drop_same_position(2) same_position_trans by metis
  qed
qed

lemma prune_event_keeps:
  assumes "prune_event target e = Some e'"
  shows "observer_state_event_key rep e' = observer_state_event_key rep e" "jfield e' ''schema'' = jfield e ''schema''"
proof -
  have "observer_state_event_key rep e' = observer_state_event_key rep e \<and> jfield e' ''schema'' = jfield e ''schema''"
  proof (cases "event_mentions_target e target")
    case False
    with assms show ?thesis by (simp add: prune_event_def)
  next
    case True
    with assms obtain item receivers where item: "jfield e ''item'' = JDict item"
        "e' = dict_set (lit ''item'') (JDict (dict_set (lit ''receiver_thread_ids'')
           (JList (filter (\<lambda>r. r \<noteq> JStr target) receivers)) item)) e"
      by (auto simp: prune_event_def Let_def split: json.splits option.splits if_splits)
    then have kind: "event_kind rep e' = event_kind rep e" by (simp add: event_kind_def)
    have thread: "event_thread rep e' = event_thread rep e" using item kind by (auto simp: event_thread_def)
    have path: "jpath (jfield e' ''item'') ''id'' = jpath (jfield e ''item'') ''id''" using item by (simp add: jpath_def)
    have activity: "jfield e' ''activity_item_id'' = jfield e ''activity_item_id''" using item by simp
    have "observer_state_event_key rep e' = observer_state_event_key rep e"
      unfolding observer_state_event_key_def kind thread path activity ..
    moreover have "jfield e' ''schema'' = jfield e ''schema''" using item by simp
    ultimately show ?thesis ..
  qed
  then show "observer_state_event_key rep e' = observer_state_event_key rep e" "jfield e' ''schema'' = jfield e ''schema''"
    by simp_all
qed

lemma prune_collection_ok:
  assumes "events_ok rep d"
  shows "events_ok rep (prune_collection target d)"
proof -
  have keys: "set (dict_keys (prune_collection target d)) \<subseteq> set (dict_keys d)" for d
    by (induction d) (auto simp: prune_collection_def map_filter_simps split: option.splits)
  show ?thesis
    using assms
  proof (induction d)
    case Nil
    then show ?case by (simp add: prune_collection_def map_filter_simps events_ok_def)
  next
    case (Cons p d)
    obtain k e where p: "p = (k, e)" by (rule prod.exhaust)
    have "events_ok rep (prune_collection target d)" using Cons by (simp add: events_ok_def)
    with Cons.prems p keys [of d] prune_event_keeps(1) [of target e _ rep] prune_event_keeps(2) [of target e] show ?case
      by (cases "prune_event target e") (auto simp: prune_collection_def map_filter_simps events_ok_def)
  qed
qed

lemma length_prune_collection: "length (prune_collection target d) \<le> length d"
  by (simp add: prune_collection_def List.map_filter_def)

text \<open>What a published snapshot reports.\<close>

definition published_ok :: "(json \<Rightarrow> pystr) \<Rightarrow> (message \<Rightarrow> nat) \<Rightarrow> 'a observer_state_scheme \<Rightarrow> bool" where
  "published_ok rep enc s \<longleftrightarrow>
     obs_wf rep s \<and> retained s \<le> OBSERVER_SNAPSHOT_EVENT_LIMIT \<and>
     (enc (snapshot_value s) \<le> OBSERVER_SNAPSHOT_MAX_BYTES \<or> retained s = 0)"

text \<open>The order of publications: a later epoch, or a later revision of the same epoch.\<close>

definition newer :: "'a observer_state_scheme \<Rightarrow> 'b observer_state_scheme \<Rightarrow> bool" where
  "newer s t \<longleftrightarrow>
     obs_epoch s < obs_epoch t \<or>
     obs_epoch s = obs_epoch t \<and> obs_revision s < obs_revision t \<and> obs_dropped_event_count s \<le> obs_dropped_event_count t"

lemma publish_result:
  assumes "obs_wf rep s" "take_snapshot enc (enforce_bounds (advance_revision s)) = (s', m)"
  shows "published_ok rep enc s' \<and> m = snapshot_value s' \<and> newer s s' \<and> obs_epoch s' = obs_epoch s"
proof -
  let ?a = "advance_revision s" let ?b = "enforce_bounds ?a"
  have "obs_wf rep ?a" using assms(1) by (simp add: obs_wf_def advance_revision_def)
  from enforce_bounds_result [OF this] have b: "obs_wf rep ?b" "same_position ?a ?b" "retained ?b \<le> OBSERVER_SNAPSHOT_EVENT_LIMIT"
    by auto
  note f = fit_snapshot_result [OF b(1), of enc]
  have "s' = fit_snapshot enc ?b" "m = snapshot_value s'" using assms(2) by (auto simp: take_snapshot_def Let_def)
  with f b show ?thesis by (auto simp: published_ok_def newer_def same_position_def advance_revision_def)
qed

lemma newer_same: "newer s s' \<Longrightarrow> obs_epoch t = obs_epoch s \<Longrightarrow> obs_revision t = obs_revision s \<Longrightarrow>
    obs_dropped_event_count t = obs_dropped_event_count s \<Longrightarrow> newer t s'"
  by (simp add: newer_def)

lemma observe_event_result:
  assumes "obs_wf rep s" "jfield e ''schema'' = JStr OBSERVER_SCHEMA" "observe_event rep enc e s = (s', m)"
  shows "published_ok rep enc s' \<and> m = snapshot_value s' \<and> newer s s' \<and> obs_epoch s' = obs_epoch s"
proof -
  let ?k = "observer_state_event_key rep e"
  let ?s1 = "case observer_event_target_thread_id e of None \<Rightarrow> s
    | Some t \<Rightarrow> s\<lparr>obs_removed_targets := filter (\<lambda>x. x \<noteq> t) (obs_removed_targets s)\<rparr>"
  define s2 where "s2 = (if is_terminal_event e
    then ?s1\<lparr>obs_active := dict_pop ?k (obs_active ?s1), obs_tombstones := dict_pop ?k (obs_tombstones ?s1) @ [(?k, e)]\<rparr>
    else ?s1\<lparr>obs_active := dict_pop ?k (obs_active ?s1) @ [(?k, e)], obs_tombstones := dict_pop ?k (obs_tombstones ?s1)\<rparr>)"
  have "obs_wf rep ?s1" using assms(1) by (auto simp: obs_wf_def split: option.split)
  then have "obs_wf rep s2"
    unfolding s2_def using assms(2) by (simp add: obs_wf_def events_ok_pop events_ok_last)
  moreover have "take_snapshot enc (enforce_bounds (advance_revision s2)) = (s', m)"
    using assms(3) by (simp add: observe_event_def Let_def s2_def)
  ultimately have "published_ok rep enc s' \<and> m = snapshot_value s' \<and> newer s2 s' \<and> obs_epoch s' = obs_epoch s2"
    by (rule publish_result)
  moreover have "obs_epoch s2 = obs_epoch s" "obs_revision s2 = obs_revision s" "obs_dropped_event_count s2 = obs_dropped_event_count s"
    by (auto simp: s2_def split: option.split)
  ultimately show ?thesis using newer_same [of s2 s' s] by simp
qed

lemma prune_target_result:
  assumes "obs_wf rep s" "prune_target enc target s = Inr (s', m)"
  shows "published_ok rep enc s' \<and> m = snapshot_value s' \<and> newer s s' \<and> obs_epoch s' = obs_epoch s"
proof -
  let ?s = "s\<lparr>obs_active := prune_collection target (obs_active s), obs_tombstones := prune_collection target (obs_tombstones s),
    obs_removed_targets := filter (\<lambda>x. x \<noteq> target) (obs_removed_targets s) @ [target]\<rparr>"
  have t: "target \<noteq> []" "take_snapshot enc (enforce_bounds (advance_revision ?s)) = (s', m)"
    using assms(2) by (auto simp: prune_target_def split: if_splits)
  have "obs_wf rep ?s" using assms(1) t(1) by (auto simp: obs_wf_def prune_collection_ok)
  from publish_result [OF this t(2)] newer_same [of ?s s' s] show ?thesis by simp
qed

subsection \<open>Reading a snapshot back\<close>

lemma fold_dict_set_distinct:
  assumes "distinct (dict_keys (d0 @ d))"
    and "list_all (\<lambda>(k, e). key e = k) d"
  shows "fold (\<lambda>e d. dict_set (key e) e d) (map snd d) d0 = d0 @ d"
  using assms
proof (induction d arbitrary: d0)
  case (Cons p d)
  obtain k e where p: "p = (k, e)" by (rule prod.exhaust)
  with Cons.prems have "dict_set (key e) e d0 = d0 @ [(k, e)]" by (auto simp: dict_set_fresh)
  with Cons.IH [of "d0 @ [(k, e)]"] Cons.prems p show ?case by simp
qed simp

lemma event_mapping_values:
  assumes "events_ok rep d"
  shows "event_mapping rep (JList (map (JDict \<circ> snd) d)) = Some d"
proof -
  have "fold (\<lambda>x d. case as_dict x of None \<Rightarrow> d | Some e \<Rightarrow> dict_set (observer_state_event_key rep e) e d)
      (map (JDict \<circ> snd) d) [] = fold (\<lambda>e d. dict_set (observer_state_event_key rep e) e d) (map snd d) []"
    by (simp add: fold_map comp_def)
  also have "\<dots> = [] @ d" using assms by (intro fold_dict_set_distinct) (auto simp: events_ok_def list_all_iff)
  finally show ?thesis using assms by (auto simp: event_mapping_def events_ok_def list_all_iff)
qed

lemma removed_values: "[] \<notin> set xs \<Longrightarrow> List.map_filter as_id (map JStr xs) = xs"
  by (induction xs) (auto simp: map_filter_simps as_id_def)

lemma remdups_first_distinct: "distinct xs \<Longrightarrow> remdups_first xs = xs"
  by (simp add: remdups_first_def distinct_remdups_id)

lemma snapshot_fields [simp]:
  "jfield (snapshot_value s) ''schema'' = JStr OBSERVER_SCHEMA"
  "jfield (snapshot_value s) ''kind'' = JStr (lit ''observer_state_snapshot'')"
  "jfield (snapshot_value s) ''epoch'' = JInt (obs_epoch s)"
  "jfield (snapshot_value s) ''revision'' = JInt (obs_revision s)"
  by (simp_all add: snapshot_value_def jfield_def)

lemma parse_snapshot_value:
  assumes "obs_wf rep s" "retained s \<le> OBSERVER_SNAPSHOT_EVENT_LIMIT"
  shows "parse_snapshot rep (snapshot_value s) =
    Some \<lparr>parsed_epoch = obs_epoch s, parsed_revision = obs_revision s, parsed_active = obs_active s,
      parsed_tombstones = obs_tombstones s, parsed_removed = obs_removed_targets s, parsed_dropped = obs_dropped_event_count s\<rparr>"
proof -
  let ?st = "[(lit ''events'', JList (map (JDict \<circ> snd) (obs_active s))),
         (lit ''tombstones'', JList (map (JDict \<circ> snd) (obs_tombstones s))),
         (lit ''removedTargetThreadIds'', JList (map JStr (obs_removed_targets s)))]"
  let ?ov = "[(lit ''dropped_event_count'', JInt (int (obs_dropped_event_count s))),
         (lit ''state_complete'', JBool (obs_dropped_event_count s = 0))]"
  have st: "jfield (snapshot_value s) ''state'' = JDict ?st" and ov: "jfield (snapshot_value s) ''overflow'' = JDict ?ov"
    by (simp_all add: snapshot_value_def jfield_def)
  have fields: "jfield ?st ''events'' = JList (map (JDict \<circ> snd) (obs_active s))"
    "jfield ?st ''tombstones'' = JList (map (JDict \<circ> snd) (obs_tombstones s))"
    "jfield ?st ''removedTargetThreadIds'' = JList (map JStr (obs_removed_targets s))"
    "jfield ?ov ''dropped_event_count'' = JInt (int (obs_dropped_event_count s))"
    "jfield ?ov ''state_complete'' = JBool (obs_dropped_event_count s = 0)"
    by (simp_all add: jfield_def)
  have wf: "0 \<le> obs_epoch s" "0 \<le> obs_revision s" "events_ok rep (obs_active s)" "events_ok rep (obs_tombstones s)"
    "[] \<notin> set (obs_removed_targets s)" using assms(1) by (auto simp: obs_wf_def)
  show ?thesis
    using wf assms(2)
    by (simp add: parse_snapshot_def st ov fields event_mapping_values removed_values retained_def del: jfield_dict_set)
qed

lemma consume_newer:
  assumes "obs_wf rep s" "retained s \<le> OBSERVER_SNAPSHOT_EVENT_LIMIT" "newer c s"
  shows "fst (consume_snapshot rep (snapshot_value s) c) = observer_state.truncate s"
proof -
  have "distinct (obs_removed_targets s)" using assms(1) by (simp add: obs_wf_def)
  with assms(3) show ?thesis
    by (auto simp: consume_snapshot_def parse_snapshot_value [OF assms(1,2)] newer_def Let_def remdups_first_distinct
        observer_state.truncate_def)
qed

lemma consume_stale:
  assumes "parse_snapshot rep m = None \<or> (\<exists>p. parse_snapshot rep m = Some p \<and>
    (parsed_epoch p < obs_epoch c \<or> parsed_epoch p = obs_epoch c \<and> parsed_revision p \<le> obs_revision c))"
  shows "consume_snapshot rep m c = (c, empty_delta c)"
  using assms by (auto simp: consume_snapshot_def split: option.split)

lemma subseq_sorted_wrt: "subseq xs ys \<Longrightarrow> sorted_wrt P ys \<Longrightarrow> sorted_wrt P xs \<and> set xs \<subseteq> set ys"
  by (induction rule: list_emb.induct) auto

subsection \<open>Publishers and consumers\<close>

text \<open>
  What a publisher of snapshots promises: every operation keeps its states well-formed, no operation
  goes back in the order of publications, and what it publishes is the bounded snapshot of its state.
\<close>

definition not_older :: "'a observer_state_scheme \<Rightarrow> 'b observer_state_scheme \<Rightarrow> bool" where
  "not_older s t \<longleftrightarrow>
     obs_epoch s < obs_epoch t \<or>
     obs_epoch s = obs_epoch t \<and> obs_revision s \<le> obs_revision t \<and> obs_dropped_event_count s \<le> obs_dropped_event_count t"

lemma not_older_trans: "not_older s t \<Longrightarrow> not_older t u \<Longrightarrow> not_older s u"
  by (auto simp: not_older_def)

lemma newer_not_older: "newer s t \<Longrightarrow> not_older s t"
  by (auto simp: newer_def not_older_def)

lemma not_older_cases:
  "not_older s t \<Longrightarrow> newer s t \<or> obs_epoch t = obs_epoch s \<and> obs_revision t = obs_revision s"
  by (auto simp: newer_def not_older_def)

locale snapshot_publisher =
  fixes step :: "'x observer_state_scheme \<Rightarrow> 'e \<Rightarrow> 'x observer_state_scheme \<times> message option"
    and rep :: "json \<Rightarrow> pystr"
    and admissible :: "'e \<Rightarrow> bool"
    and inv :: "'x observer_state_scheme \<Rightarrow> bool"
  assumes step_inv: "inv s \<Longrightarrow> admissible e \<Longrightarrow> inv (fst (step s e))"
    and inv_wf: "inv s \<Longrightarrow> obs_wf rep s"
    and step_order: "inv s \<Longrightarrow> admissible e \<Longrightarrow> not_older s (fst (step s e))"
    and publishes: "inv s \<Longrightarrow> admissible e \<Longrightarrow> step s e = (s', Some m) \<Longrightarrow>
      m = snapshot_value s' \<and> retained s' \<le> OBSERVER_SNAPSHOT_EVENT_LIMIT"
begin

text \<open>The states whose snapshots a run publishes.\<close>

fun run :: "'x observer_state_scheme \<Rightarrow> 'e list \<Rightarrow> 'x observer_state_scheme list" where
  "run s [] = []"
| "run s (e # es) =
     (case step s e of (s', m) \<Rightarrow> (if m = None then run s' es else s' # run s' es))"

lemma run_published:
  "inv s \<Longrightarrow> list_all admissible es \<Longrightarrow>
    sorted_wrt not_older (run s es) \<and> list_all (not_older s) (run s es) \<and>
    list_all (\<lambda>t. obs_wf rep t \<and> retained t \<le> OBSERVER_SNAPSHOT_EVENT_LIMIT) (run s es)"
proof (induction es arbitrary: s)
  case (Cons e es)
  obtain s' m where st: "step s e = (s', m)" by (rule prod.exhaust)
  with Cons.prems step_inv [of s e] step_order [of s e] have s': "inv s'" "not_older s s'" by auto
  note IH = Cons.IH [OF s'(1)]
  have tl: "list_all (not_older s) (run s' es)"
    using IH Cons.prems(2) s'(2) by (auto simp: list_all_iff intro: not_older_trans)
  show ?case
  proof (cases m)
    case None
    with st IH Cons.prems(2) tl show ?thesis by simp
  next
    case (Some x)
    with st Cons.prems publishes [of s e s' x] inv_wf [OF s'(1)]
    have "retained s' \<le> OBSERVER_SNAPSHOT_EVENT_LIMIT" "obs_wf rep s'" by auto
    with st IH Cons.prems(2) tl Some s'(2) show ?thesis by (auto simp: list_all_iff)
  qed
qed simp

text \<open>A consumer at a delivered state, fed with states that are not older.\<close>

lemma consume_run:
  assumes "sorted_wrt not_older (t # xs)"
    and "list_all (\<lambda>t. obs_wf rep t \<and> retained t \<le> OBSERVER_SNAPSHOT_EVENT_LIMIT) xs"
  shows "\<exists>u \<in> set (t # xs). obs_epoch u = obs_epoch (last (t # xs)) \<and> obs_revision u = obs_revision (last (t # xs)) \<and>
    foldl (\<lambda>c t. fst (consume_snapshot rep (snapshot_value t) c)) (observer_state.truncate t) xs = observer_state.truncate u"
  using assms
proof (induction xs rule: rev_induct)
  case (snoc x xs)
  then obtain u where u: "u \<in> set (t # xs)" "obs_epoch u = obs_epoch (last (t # xs))" "obs_revision u = obs_revision (last (t # xs))"
      "foldl (\<lambda>c t. fst (consume_snapshot rep (snapshot_value t) c)) (observer_state.truncate t) xs = observer_state.truncate u"
    by (auto simp: sorted_wrt_append)
  have x: "obs_wf rep x" "retained x \<le> OBSERVER_SNAPSHOT_EVENT_LIMIT" using snoc.prems(2) by auto
  have "not_older u x" using snoc.prems(1) u(1) by (auto simp: sorted_wrt_append)
  then consider "newer (observer_state.truncate u) x" | "obs_epoch x = obs_epoch u" "obs_revision x = obs_revision u"
    using not_older_cases [of u x] by (auto simp: newer_def observer_state.truncate_def)
  then show ?case
  proof cases
    case 1
    from consume_newer [OF x 1] u(4) show ?thesis by (intro bexI [of _ x]) auto
  next
    case 2
    then have "consume_snapshot rep (snapshot_value x) (observer_state.truncate u) =
        (observer_state.truncate u, empty_delta (observer_state.truncate u))"
      using parse_snapshot_value [OF x] by (intro consume_stale) (auto simp: observer_state.truncate_def)
    with 2 u show ?thesis by (intro bexI [of _ u]) auto
  qed
qed simp

lemma consumer_follows:
  assumes "inv s" "list_all admissible es" "subseq delivered (run s es)" "delivered \<noteq> []" "obs_epoch c < obs_epoch s"
  shows "\<exists>u \<in> set delivered. obs_epoch u = obs_epoch (last delivered) \<and> obs_revision u = obs_revision (last delivered) \<and>
    foldl (\<lambda>c t. fst (consume_snapshot rep (snapshot_value t) c)) c delivered = observer_state.truncate u"
proof -
  note r = run_published [OF assms(1,2)]
  have sub: "set delivered \<subseteq> set (run s es)" "sorted_wrt not_older delivered"
    using subseq_sorted_wrt [OF assms(3)] r by auto
  obtain t xs where d: "delivered = t # xs" using assms(4) by (cases delivered) auto
  have ok: "list_all (\<lambda>t. obs_wf rep t \<and> retained t \<le> OBSERVER_SNAPSHOT_EVENT_LIMIT) delivered"
    using r sub(1) by (auto simp: list_all_iff)
  have "not_older s t" using r sub(1) d by (auto simp: list_all_iff)
  with assms(5) have "newer c t" by (auto simp: newer_def not_older_def)
  then have "fst (consume_snapshot rep (snapshot_value t) c) = observer_state.truncate t"
    using ok d by (intro consume_newer) auto
  with consume_run [of t xs] sub(2) ok d show ?thesis by simp
qed

end

end
