(* ===== verification/Observer_Correlation.thy ===== *)
theory Observer_Correlation
  imports Observer_State
begin

section \<open>Observer producer: agents and correlations\<close>

text \<open>
  The producer half of \<^verbatim>\<open>ObserverStateReducer\<close> that extends the snapshot state: which agents are known
  and running, and the bounded facts that correlate requests, activities and completions. Python's
  sets are lists without repetition. A correlation object is updated in place through its
  dictionary, so every operation reads and writes it under its key. The clock readings and the
  answer of the active-turn reader are arguments. Raising is a value: \<open>ObserverKeyError\<close> stands for
  a \<^verbatim>\<open>KeyError\<close> or \<^verbatim>\<open>StopIteration\<close> on the reducer's own tables, \<open>ObserverMalformed\<close> for a missing or
  ill-typed field of an event it is given, \<open>ObserverUnknownAgent\<close> for the start event of an agent
  that is not running or has no path.
\<close>

definition OBSERVER_PROJECTED_LIST_ITEM_LIMIT :: nat where
  "OBSERVER_PROJECTED_LIST_ITEM_LIMIT = 64"

definition OBSERVER_RECOVERED_TARGET_LIMIT :: nat where
  "OBSERVER_RECOVERED_TARGET_LIMIT = 256"

definition OBSERVER_CORRELATION_METADATA_LIMIT :: nat where
  "OBSERVER_CORRELATION_METADATA_LIMIT = 512"

definition OBSERVER_CORRELATION_PAYLOAD_LIMIT :: nat where
  "OBSERVER_CORRELATION_PAYLOAD_LIMIT = 128"

definition OBSERVER_CORRELATION_PAYLOAD_MAX_BYTES :: nat where
  "OBSERVER_CORRELATION_PAYLOAD_MAX_BYTES = 512 * 1024"

definition OBSERVER_CORRELATION_RETENTION_SECONDS :: rat where
  "OBSERVER_CORRELATION_RETENTION_SECONDS = 300"

type_synonym cor_key = "int \<times> pystr \<times> pystr"

record correlation =
  cor_expires_at :: rat
  cor_uncertain :: bool
  cor_targets :: "pystr list"
  cor_finished_targets :: "pystr list"
  cor_started_targets :: "pystr list"
  cor_context_sent_targets :: "pystr list"
  cor_activity_completed_targets :: "pystr list"
  cor_activities :: "(pystr, event) dict"
  cor_invocation_phases :: "pystr list"

record active_work =
  work_turn_id :: "pystr option"
  work_request_id :: "pystr option"

record producer = observer_state +
  prod_known_agents :: "pystr list"
  prod_agent_paths :: "(pystr, pystr) dict"
  prod_active_work :: "(pystr, active_work) dict"
  prod_parent_message :: "event option"
  prod_root_thread_id :: "pystr option"
  prod_correlations :: "(cor_key, correlation) dict"
  prod_invocations :: "(cor_key, event) dict"
  prod_invocation_targets :: "(pystr, cor_key list) dict"
  prod_history_incomplete :: bool

definition new_producer :: producer where
  "new_producer =
     \<lparr>obs_epoch = 0, obs_revision = 0, obs_active = [], obs_tombstones = [], obs_removed_targets = [],
      obs_dropped_event_count = 0, prod_known_agents = [], prod_agent_paths = [], prod_active_work = [],
      prod_parent_message = None, prod_root_thread_id = None, prod_correlations = [], prod_invocations = [],
      prod_invocation_targets = [], prod_history_incomplete = False\<rparr>"

type_synonym 'a producer_action = "(producer, observer_error, 'a) action"

definition gets :: "(producer \<Rightarrow> 'a) \<Rightarrow> 'a producer_action" where
  "gets f = (\<lambda>s. (s, Inr (f s)))"

definition update :: "(producer \<Rightarrow> producer) \<Rightarrow> unit producer_action" where
  "update f = (\<lambda>s. (f s, Inr ()))"

definition mark_correlation_incomplete :: "producer \<Rightarrow> producer" where
  "mark_correlation_incomplete s =
     advance_revision (s\<lparr>prod_history_incomplete := True, obs_dropped_event_count := obs_dropped_event_count s + 1\<rparr>)"

subsection \<open>Correlations\<close>

definition correlation_key :: "pystr \<Rightarrow> producer \<Rightarrow> cor_key" where
  "correlation_key item_id s = (obs_epoch s, (case prod_root_thread_id s of None \<Rightarrow> [] | Some r \<Rightarrow> r), item_id)"

text \<open>The index entries of an evicted correlation; a missing entry is a \<^verbatim>\<open>KeyError\<close>.\<close>

fun unindex :: "cor_key \<Rightarrow> pystr list \<Rightarrow> (pystr, cor_key list) dict \<Rightarrow> (pystr, cor_key list) dict option" where
  "unindex key [] ix = Some ix"
| "unindex key (t # ts) ix =
     (case dict_get ix t of
        None \<Rightarrow> None
      | Some keys \<Rightarrow>
          let keys' = filter (\<lambda>k. k \<noteq> key) keys
          in unindex key ts (if keys' = [] then dict_pop t ix else dict_set t keys' ix))"

definition evict_correlation :: "cor_key \<Rightarrow> unit producer_action" where
  "evict_correlation key s =
     (case dict_get (prod_correlations s) key of
        None \<Rightarrow> (s, Inl ObserverKeyError)
      | Some c \<Rightarrow>
          let s1 = s\<lparr>prod_correlations := dict_pop key (prod_correlations s), prod_invocations := dict_pop key (prod_invocations s)\<rparr>
          in case unindex key (cor_targets c) (prod_invocation_targets s1) of
               None \<Rightarrow> (s1, Inl ObserverKeyError)
             | Some ix \<Rightarrow> (mark_correlation_incomplete (s1\<lparr>prod_invocation_targets := ix\<rparr>), Inr ()))"

lemma evict_shrinks:
  assumes "prod_correlations s \<noteq> []" "evict_correlation (fst (hd (prod_correlations s))) s = (s', Inr ())"
  shows "length (prod_correlations s') < length (prod_correlations s)"
proof -
  obtain k c d where d: "prod_correlations s = (k, c) # d" using assms(1) by (cases "prod_correlations s") auto
  with assms(2) have "prod_correlations s' = dict_pop k d"
    by (auto simp: evict_correlation_def Let_def mark_correlation_incomplete_def advance_revision_def dict_pop_def
        split: option.splits)
  with d length_dict_pop_le [of k d] show ?thesis by simp
qed

function make_room :: "unit producer_action" where
  "make_room s =
     (if length (prod_correlations s) < OBSERVER_CORRELATION_METADATA_LIMIT then (s, Inr ())
      else case evict_correlation (fst (hd (prod_correlations s))) s of
        (s', Inl e) \<Rightarrow> (s', Inl e)
      | (s', Inr _) \<Rightarrow> make_room s')"
  by pat_completeness auto
termination
  by (relation "measure (\<lambda>s. length (prod_correlations s))")
    (auto simp: OBSERVER_CORRELATION_METADATA_LIMIT_def intro: evict_shrinks [OF _ sym])

declare make_room.simps [simp del]

definition new_correlation :: "rat \<Rightarrow> producer \<Rightarrow> correlation" where
  "new_correlation now s =
     \<lparr>cor_expires_at = now + OBSERVER_CORRELATION_RETENTION_SECONDS, cor_uncertain = prod_history_incomplete s, cor_targets = [],
      cor_finished_targets = [], cor_started_targets = [], cor_context_sent_targets = [], cor_activity_completed_targets = [],
      cor_activities = [], cor_invocation_phases = []\<rparr>"

text \<open>\<^verbatim>\<open>_correlation\<close>: the correlation of an item, created when it is missing.\<close>

definition get_correlation :: "rat \<Rightarrow> pystr \<Rightarrow> correlation producer_action" where
  "get_correlation now item_id =
     and_then (gets (\<lambda>s. dict_get (prod_correlations s) (correlation_key item_id s))) (\<lambda>found.
     case found of
       Some c \<Rightarrow> ret c
     | None \<Rightarrow>
         and_then make_room (\<lambda>_.
         and_then (gets (new_correlation now)) (\<lambda>c.
         and_then (update (\<lambda>s. s\<lparr>prod_correlations := dict_set (correlation_key item_id s) c (prod_correlations s)\<rparr>)) (\<lambda>_.
         ret c))))"

text \<open>A change of the correlation object of an item that exists.\<close>

definition change_correlation :: "pystr \<Rightarrow> (correlation \<Rightarrow> correlation) \<Rightarrow> producer \<Rightarrow> producer" where
  "change_correlation item_id f s =
     (case dict_get (prod_correlations s) (correlation_key item_id s) of
        None \<Rightarrow> s
      | Some c \<Rightarrow> s\<lparr>prod_correlations := dict_set (correlation_key item_id s) (f c) (prod_correlations s)\<rparr>)"

definition read_correlation :: "pystr \<Rightarrow> correlation producer_action" where
  "read_correlation item_id =
     and_then (gets (\<lambda>s. dict_get (prod_correlations s) (correlation_key item_id s))) (\<lambda>c.
     case c of None \<Rightarrow> raise ObserverKeyError | Some c \<Rightarrow> ret c)"

definition target_limit_reached :: "pystr \<Rightarrow> correlation \<Rightarrow> bool" where
  "target_limit_reached target c \<longleftrightarrow>
     target \<notin> set (cor_targets c) \<and> OBSERVER_PROJECTED_LIST_ITEM_LIMIT \<le> length (cor_targets c)"

definition index_target :: "pystr \<Rightarrow> pystr \<Rightarrow> unit producer_action" where
  "index_target item_id target =
     and_then (read_correlation item_id) (\<lambda>c.
     if target_limit_reached target c then update mark_correlation_incomplete
     else update (\<lambda>s.
       let key = correlation_key item_id s;
           keys = (case dict_get (prod_invocation_targets s) target of None \<Rightarrow> [] | Some ks \<Rightarrow> ks)
       in (change_correlation item_id (\<lambda>c. c\<lparr>cor_targets := List.insert target (cor_targets c)\<rparr>) s)
          \<lparr>prod_invocation_targets := dict_set target (List.insert key keys) (prod_invocation_targets s)\<rparr>))"

fun index_targets :: "pystr \<Rightarrow> pystr list \<Rightarrow> unit producer_action" where
  "index_targets item_id [] = ret ()"
| "index_targets item_id (t # ts) = and_then (index_target item_id t) (\<lambda>_. index_targets item_id ts)"

definition payload_bytes :: "(message \<Rightarrow> nat) \<Rightarrow> producer \<Rightarrow> nat" where
  "payload_bytes enc s = sum_list (map (enc \<circ> snd) (prod_invocations s))"

function enforce_payload_loop :: "(message \<Rightarrow> nat) \<Rightarrow> int \<Rightarrow> unit producer_action" where
  "enforce_payload_loop enc bytes s =
     (if length (prod_invocations s) \<le> OBSERVER_CORRELATION_PAYLOAD_LIMIT \<and> bytes \<le> int OBSERVER_CORRELATION_PAYLOAD_MAX_BYTES
      then (s, Inr ())
      else case prod_invocations s of
        [] \<Rightarrow> (s, Inl ObserverKeyError)
      | (key, m) # rest \<Rightarrow>
          (case dict_get (prod_correlations s) key of
             None \<Rightarrow> (s\<lparr>prod_invocations := rest\<rparr>, Inl ObserverKeyError)
           | Some c \<Rightarrow>
               enforce_payload_loop enc (bytes - int (enc m))
                 (mark_correlation_incomplete
                   (s\<lparr>prod_correlations := dict_set key (c\<lparr>cor_uncertain := True\<rparr>) (prod_correlations s),
                      prod_invocations := rest\<rparr>))))"
  by pat_completeness auto
termination
  by (relation "measure (\<lambda>(enc, bytes, s). length (prod_invocations s))")
    (auto simp: mark_correlation_incomplete_def advance_revision_def)

declare enforce_payload_loop.simps [simp del]

definition enforce_payload_bounds :: "(message \<Rightarrow> nat) \<Rightarrow> unit producer_action" where
  "enforce_payload_bounds enc s = enforce_payload_loop enc (int (payload_bytes enc s)) s"

subsection \<open>Agents\<close>

definition observer_bind_root_thread :: "pystr \<Rightarrow> unit producer_action" where
  "observer_bind_root_thread root_id =
     and_then (gets prod_root_thread_id) (\<lambda>r.
     if r \<notin> {None, Some root_id} then raise ObserverRootChanged
     else update (\<lambda>s. s\<lparr>prod_root_thread_id := Some root_id\<rparr>))"

definition knows_agent :: "pystr \<Rightarrow> producer \<Rightarrow> bool" where
  "knows_agent target s \<longleftrightarrow> target \<in> set (prod_known_agents s)"

definition tracks_target :: "pystr \<Rightarrow> producer \<Rightarrow> bool" where
  "tracks_target target s \<longleftrightarrow> target \<in> set (dict_keys (prod_active_work s))"

definition tracked_target_thread_ids :: "producer \<Rightarrow> pystr list" where
  "tracked_target_thread_ids s = dict_keys (prod_active_work s)"

definition running_agent_count :: "producer \<Rightarrow> nat" where
  "running_agent_count s = length (prod_active_work s)"

text \<open>Room for one more known agent: there is some, or one that is not running is retired.\<close>

definition admit_agent :: "pystr \<Rightarrow> bool producer_action" where
  "admit_agent target =
     and_then (gets id) (\<lambda>s.
     if length (prod_known_agents s) < OBSERVER_RECOVERED_TARGET_LIMIT then
       and_then (update (\<lambda>s. s\<lparr>prod_known_agents := List.insert target (prod_known_agents s)\<rparr>)) (\<lambda>_. ret True)
     else case List.find (\<lambda>t. \<not> tracks_target t s) (dict_keys (prod_agent_paths s)) of
       None \<Rightarrow> and_then (update mark_correlation_incomplete) (\<lambda>_. ret False)
     | Some retired \<Rightarrow>
         and_then (update (\<lambda>s. mark_correlation_incomplete
           (s\<lparr>prod_known_agents := filter (\<lambda>t. t \<noteq> retired) (prod_known_agents s),
              prod_agent_paths := dict_pop retired (prod_agent_paths s)\<rparr>))) (\<lambda>_.
         and_then (update (\<lambda>s. s\<lparr>prod_known_agents := List.insert target (prod_known_agents s)\<rparr>)) (\<lambda>_. ret True)))"

definition remember_agent :: "pystr \<Rightarrow> pystr option \<Rightarrow> bool producer_action" where
  "remember_agent target path =
     and_then (gets (knows_agent target)) (\<lambda>known.
     and_then (if known then ret True else admit_agent target) (\<lambda>ok.
     if \<not> ok then ret False
     else case path of
       None \<Rightarrow> ret True
     | Some p \<Rightarrow> and_then (update (\<lambda>s. s\<lparr>prod_agent_paths := dict_set target p (prod_agent_paths s)\<rparr>)) (\<lambda>_. ret True)))"

definition no_work :: active_work where
  "no_work = \<lparr>work_turn_id = None, work_request_id = None\<rparr>"

definition merged_work :: "pystr option \<Rightarrow> pystr option \<Rightarrow> active_work \<Rightarrow> active_work" where
  "merged_work turn request previous =
     (let continues = (turn = None \<or> work_turn_id previous \<in> {None, turn})
      in \<lparr>work_turn_id = (if turn \<noteq> None then turn else work_turn_id previous),
          work_request_id = (if request \<noteq> None then request else if continues then work_request_id previous else None)\<rparr>)"

definition record_work :: "pystr \<Rightarrow> pystr option \<Rightarrow> pystr option \<Rightarrow> bool producer_action" where
  "record_work target turn request =
     and_then (remember_agent target None) (\<lambda>ok.
     if \<not> ok then ret False
     else and_then (gets prod_active_work) (\<lambda>work.
       let previous = (case dict_get work target of None \<Rightarrow> no_work | Some w \<Rightarrow> w);
           current = merged_work turn request previous
       in and_then (update (\<lambda>s. s\<lparr>prod_active_work := dict_set target current (prod_active_work s)\<rparr>)) (\<lambda>_.
          ret (dict_get work target = None \<or> current \<noteq> previous))))"

text \<open>The active-turn reader of an uncertain correlation: \<open>None\<close> when it raised.\<close>

type_synonym turn_reader = "pystr \<Rightarrow> (bool \<times> pystr option) option"

definition reconciled_turn :: "turn_reader \<Rightarrow> pystr \<Rightarrow> pystr option" where
  "reconciled_turn reader target =
     (case reader target of Some (True, Some turn) \<Rightarrow> Some turn | _ \<Rightarrow> None)"

definition start_agent_work ::
  "rat \<Rightarrow> turn_reader \<Rightarrow> pystr \<Rightarrow> pystr option \<Rightarrow> pystr option \<Rightarrow> bool producer_action" where
  "start_agent_work now reader target turn request =
     (case request of
        None \<Rightarrow> record_work target turn None
      | Some item_id \<Rightarrow>
          and_then (get_correlation now item_id) (\<lambda>c.
          if target_limit_reached target c then and_then (update mark_correlation_incomplete) (\<lambda>_. ret False)
          else and_then (index_target item_id target) (\<lambda>_.
            if target \<in> set (cor_started_targets c) \<or> target \<in> set (cor_finished_targets c) then ret False
            else if cor_uncertain c then
              (case reconciled_turn reader target of
                 None \<Rightarrow> ret False
               | Some active \<Rightarrow> record_work target (Some active) None)
            else and_then (update (change_correlation item_id
                (\<lambda>c. c\<lparr>cor_started_targets := List.insert target (cor_started_targets c)\<rparr>))) (\<lambda>_.
              record_work target turn request))))"

definition finish_agent_work :: "pystr \<Rightarrow> pystr option \<Rightarrow> pystr option \<Rightarrow> bool producer_action" where
  "finish_agent_work target turn request =
     and_then (gets (\<lambda>s. dict_get (prod_active_work s) target)) (\<lambda>active.
     case active of
       None \<Rightarrow> ret False
     | Some w \<Rightarrow>
         if turn \<noteq> None \<and> work_turn_id w \<noteq> None \<and> turn \<noteq> work_turn_id w then ret False
         else if request \<noteq> None \<and> request \<noteq> work_request_id w then ret False
         else and_then (update (\<lambda>s. s\<lparr>prod_active_work := dict_pop target (prod_active_work s)\<rparr>)) (\<lambda>_. ret True))"

definition opt_json :: "pystr option \<Rightarrow> json" where
  "opt_json x = (case x of None \<Rightarrow> JNull | Some t \<Rightarrow> JStr t)"

definition agent_work_started_event :: "pystr \<Rightarrow> pystr \<Rightarrow> event producer_action" where
  "agent_work_started_event target root_id =
     and_then (gets (\<lambda>s. (dict_get (prod_agent_paths s) target, dict_get (prod_active_work s) target))) (\<lambda>found.
     case found of
       (Some path, Some w) \<Rightarrow>
         ret [(lit ''schema'', JStr OBSERVER_SCHEMA), (lit ''kind'', JStr (lit ''agent_work_started'')), (lit ''thread_id'', JStr root_id),
              (lit ''target_thread_id'', JStr target), (lit ''agent_path'', JStr path), (lit ''turn_id'', opt_json (work_turn_id w))]
     | _ \<Rightarrow> raise ObserverUnknownAgent)"

definition remember_parent_user_message :: "event option \<Rightarrow> unit producer_action" where
  "remember_parent_user_message e = update (\<lambda>s. s\<lparr>prod_parent_message := e\<rparr>)"

subsection \<open>Activities and invocations\<close>

definition from_root :: "event \<Rightarrow> producer \<Rightarrow> bool" where
  "from_root e s \<longleftrightarrow> jfield e ''thread_id'' = opt_json (prod_root_thread_id s)"

definition is_known_activity :: "pystr \<Rightarrow> producer \<Rightarrow> bool" where
  "is_known_activity item_id s \<longleftrightarrow>
     (case dict_get (prod_correlations s) (correlation_key item_id s) of None \<Rightarrow> False | Some c \<Rightarrow> cor_activities c \<noteq> [])"

definition activities_of :: "pystr \<Rightarrow> producer \<Rightarrow> event list" where
  "activities_of item_id s =
     (case dict_get (prod_correlations s) (correlation_key item_id s) of
        None \<Rightarrow> []
      | Some c \<Rightarrow>
          if cor_uncertain c then []
          else map snd (filter (\<lambda>(t, _). t \<notin> set (cor_finished_targets c)) (cor_activities c)))"

definition collaboration_invocation :: "pystr \<Rightarrow> producer \<Rightarrow> event option" where
  "collaboration_invocation item_id s = dict_get (prod_invocations s) (correlation_key item_id s)"

text \<open>The fields of an activity item that the code reads by subscription.\<close>

definition item_field :: "(json \<Rightarrow> pystr) \<Rightarrow> string \<Rightarrow> event \<Rightarrow> pystr option" where
  "item_field rep name e =
     (case dict_get e (lit ''item'') of
        Some (JDict item) \<Rightarrow> map_option (py_str rep) (dict_get item (lit name))
      | _ \<Rightarrow> None)"

definition required :: "'a option \<Rightarrow> 'a producer_action" where
  "required x = (case x of None \<Rightarrow> raise ObserverMalformed | Some v \<Rightarrow> ret v)"

definition remember_activity :: "(json \<Rightarrow> pystr) \<Rightarrow> rat \<Rightarrow> pystr \<Rightarrow> event \<Rightarrow> bool producer_action" where
  "remember_activity rep now item_id e =
     and_then (gets (from_root e)) (\<lambda>own.
     if \<not> own then ret False
     else and_then (get_correlation now item_id) (\<lambda>c.
       and_then (required (item_field rep ''agent_thread_id'' e)) (\<lambda>target.
       if target \<in> set (cor_finished_targets c) then ret False
       else if target_limit_reached target c then and_then (update mark_correlation_incomplete) (\<lambda>_. ret False)
       else and_then (required (item_field rep ''agent_path'' e)) (\<lambda>path.
         and_then (remember_agent target (Some path)) (\<lambda>ok.
         if \<not> ok then ret False
         else if (case dict_get (cor_activities c) target of None \<Rightarrow> False | Some previous \<Rightarrow> py_eq (JDict previous) (JDict e))
         then ret False
         else and_then (update (change_correlation item_id (\<lambda>c. c\<lparr>cor_activities :=
             dict_set target (filter (\<lambda>(k, _). k \<noteq> lit ''collaboration_invocation'') e) (cor_activities c)\<rparr>))) (\<lambda>_.
           and_then (index_target item_id target) (\<lambda>_. ret True)))))))"

text \<open>The receivers of an invocation; the projection that builds invocations always makes them a list.\<close>

definition invocation_receivers :: "(json \<Rightarrow> pystr) \<Rightarrow> event \<Rightarrow> pystr list option" where
  "invocation_receivers rep e =
     (case dict_get e (lit ''item'') of
        Some (JDict item) \<Rightarrow>
          (case dict_get item (lit ''receiver_thread_ids'') of Some (JList xs) \<Rightarrow> Some (map (py_str rep) xs) | _ \<Rightarrow> None)
      | _ \<Rightarrow> None)"

definition retains_invocation :: "correlation \<Rightarrow> bool" where
  "retains_invocation c \<longleftrightarrow>
     \<not> cor_uncertain c \<and> \<not> (cor_targets c \<noteq> [] \<and> set (cor_targets c) \<subseteq> set (cor_finished_targets c))"

definition remember_collaboration_invocation ::
  "(json \<Rightarrow> pystr) \<Rightarrow> (message \<Rightarrow> nat) \<Rightarrow> rat \<Rightarrow> pystr \<Rightarrow> event \<Rightarrow> bool producer_action" where
  "remember_collaboration_invocation rep enc now item_id e =
     and_then (gets (from_root e)) (\<lambda>own.
     if \<not> own then ret False
     else and_then (get_correlation now item_id) (\<lambda>c.
       let phase = py_str rep (jfield e ''method'') in
       if phase \<in> set (cor_invocation_phases c) \<or> lit ''item/completed'' \<in> set (cor_invocation_phases c) then ret False
       else and_then (update (change_correlation item_id
           (\<lambda>c. c\<lparr>cor_invocation_phases := List.insert phase (cor_invocation_phases c)\<rparr>))) (\<lambda>_.
         and_then (required (invocation_receivers rep e)) (\<lambda>receivers.
             and_then (index_targets item_id receivers) (\<lambda>_.
             and_then (read_correlation item_id) (\<lambda>c.
             and_then (if retains_invocation c then
                 and_then (update (\<lambda>s. s\<lparr>prod_invocations := dict_set (correlation_key item_id s) e (prod_invocations s)\<rparr>)) (\<lambda>_.
                   enforce_payload_bounds enc)
               else ret ()) (\<lambda>_. ret True)))))))"

definition correlation_is_uncertain :: "rat \<Rightarrow> pystr \<Rightarrow> bool producer_action" where
  "correlation_is_uncertain now item_id = and_then (get_correlation now item_id) (\<lambda>c. ret (cor_uncertain c))"

definition root_request_context_was_sent :: "rat \<Rightarrow> pystr \<Rightarrow> pystr \<Rightarrow> bool producer_action" where
  "root_request_context_was_sent now item_id target =
     and_then (get_correlation now item_id) (\<lambda>c.
     ret (cor_uncertain c \<or> target \<in> set (cor_context_sent_targets c) \<or> target \<in> set (cor_finished_targets c)))"

definition mark_root_request_context_sent :: "rat \<Rightarrow> pystr \<Rightarrow> pystr \<Rightarrow> unit producer_action" where
  "mark_root_request_context_sent now item_id target =
     and_then (get_correlation now item_id) (\<lambda>_.
     update (change_correlation item_id (\<lambda>c. c\<lparr>cor_context_sent_targets := List.insert target (cor_context_sent_targets c)\<rparr>)))"

definition correlation_settled :: "correlation \<Rightarrow> bool" where
  "correlation_settled c \<longleftrightarrow>
     cor_targets c \<noteq> [] \<and>
     (set (cor_targets c) \<subseteq> set (cor_finished_targets c) \<or>
      lit ''item/completed'' \<in> set (cor_invocation_phases c) \<and>
      set (cor_targets c) \<subseteq> set (cor_finished_targets c) \<union> set (cor_activity_completed_targets c))"

definition settle_correlation :: "rat \<Rightarrow> pystr \<Rightarrow> unit producer_action" where
  "settle_correlation now item_id =
     and_then (get_correlation now item_id) (\<lambda>c.
     if correlation_settled c then
       update (\<lambda>s. s\<lparr>prod_invocations := dict_pop (correlation_key item_id s) (prod_invocations s)\<rparr>)
     else ret ())"

definition complete_activity :: "rat \<Rightarrow> pystr \<Rightarrow> pystr \<Rightarrow> unit producer_action" where
  "complete_activity now item_id target =
     and_then (get_correlation now item_id) (\<lambda>_.
     and_then (update (change_correlation item_id
       (\<lambda>c. c\<lparr>cor_activity_completed_targets := List.insert target (cor_activity_completed_targets c)\<rparr>))) (\<lambda>_.
     settle_correlation now item_id))"

subsection \<open>Retirement\<close>

text \<open>One indexed correlation of a terminal target.\<close>

definition finish_target_under :: "rat \<Rightarrow> pystr \<Rightarrow> cor_key \<Rightarrow> unit producer_action" where
  "finish_target_under now target key =
     and_then (gets (\<lambda>s. dict_get (prod_correlations s) key)) (\<lambda>found.
     case found of
       None \<Rightarrow> ret ()
     | Some c \<Rightarrow>
         and_then (update (\<lambda>s. s\<lparr>prod_correlations := dict_set key
           (c\<lparr>cor_finished_targets := List.insert target (cor_finished_targets c),
              cor_activities := dict_pop target (cor_activities c)\<rparr>) (prod_correlations s)\<rparr>)) (\<lambda>_.
         settle_correlation now (snd (snd key))))"

fun finish_target_under_all :: "rat \<Rightarrow> pystr \<Rightarrow> cor_key list \<Rightarrow> unit producer_action" where
  "finish_target_under_all now target [] = ret ()"
| "finish_target_under_all now target (k # ks) =
     and_then (finish_target_under now target k) (\<lambda>_. finish_target_under_all now target ks)"

definition lift_prune :: "(message \<Rightarrow> nat) \<Rightarrow> pystr \<Rightarrow> message producer_action" where
  "lift_prune enc target =
     (\<lambda>s. case prune_target enc target s of Inl e \<Rightarrow> (s, Inl e) | Inr (s', m) \<Rightarrow> (s', Inr m))"

definition prune_protocol_target :: "(message \<Rightarrow> nat) \<Rightarrow> rat \<Rightarrow> pystr \<Rightarrow> message producer_action" where
  "prune_protocol_target enc now target =
     and_then (finish_agent_work target None None) (\<lambda>_.
     and_then (gets (\<lambda>s. case dict_get (prod_invocation_targets s) target of None \<Rightarrow> [] | Some ks \<Rightarrow> ks)) (\<lambda>keys.
     and_then (finish_target_under_all now target keys) (\<lambda>_.
     lift_prune enc target)))"

fun expire_keys :: "rat \<Rightarrow> (cor_key \<times> correlation) list \<Rightarrow> bool \<Rightarrow> bool producer_action" where
  "expire_keys now [] expired = ret expired"
| "expire_keys now ((k, c) # rest) expired =
     (if cor_expires_at c \<le> now then and_then (evict_correlation k) (\<lambda>_. expire_keys now rest True)
      else expire_keys now rest expired)"

definition expire_protocol_state :: "rat \<Rightarrow> bool producer_action" where
  "expire_protocol_state now = and_then (gets prod_correlations) (\<lambda>cs. expire_keys now cs False)"

definition clear_protocol_state :: "producer \<Rightarrow> producer" where
  "clear_protocol_state s =
     s\<lparr>prod_known_agents := [], prod_agent_paths := [], prod_active_work := [], prod_parent_message := None,
       prod_correlations := [], prod_invocations := [], prod_invocation_targets := [], prod_history_incomplete := False\<rparr>"

definition reset_epoch :: "(message \<Rightarrow> nat) \<Rightarrow> message producer_action" where
  "reset_epoch enc = (\<lambda>s. case take_snapshot enc (clear_protocol_state (reset_events s)) of (s', m) \<Rightarrow> (s', Inr m))"

definition discard_producer_state :: "unit producer_action" where
  "discard_producer_state = update (\<lambda>s. clear_protocol_state (clear_events s))"

definition publish_event :: "(json \<Rightarrow> pystr) \<Rightarrow> (message \<Rightarrow> nat) \<Rightarrow> event \<Rightarrow> message producer_action" where
  "publish_event rep enc e = (\<lambda>s. case observe_event rep enc e s of (s', m) \<Rightarrow> (s', Inr m))"

definition publish_snapshot :: "(message \<Rightarrow> nat) \<Rightarrow> message producer_action" where
  "publish_snapshot enc = (\<lambda>s. case take_snapshot enc s of (s', m) \<Rightarrow> (s', Inr m))"

subsection \<open>Consistency of the tables\<close>

text \<open>The index names exactly the correlations of each target, over the dictionaries as maps.\<close>

definition indexed :: "(cor_key \<Rightarrow> correlation option) \<Rightarrow> (pystr \<Rightarrow> cor_key list option) \<Rightarrow> bool" where
  "indexed cor ix \<longleftrightarrow>
     (\<forall>k c. cor k = Some c \<longrightarrow> distinct (cor_targets c) \<and> length (cor_targets c) \<le> OBSERVER_PROJECTED_LIST_ITEM_LIMIT) \<and>
     (\<forall>k t. (\<exists>c. cor k = Some c \<and> t \<in> set (cor_targets c)) \<longleftrightarrow> (\<exists>ks. ix t = Some ks \<and> k \<in> set ks)) \<and>
     (\<forall>t ks. ix t = Some ks \<longrightarrow> ks \<noteq> [])"

lemma indexedI:
  assumes "\<And>k c. cor k = Some c \<Longrightarrow> distinct (cor_targets c) \<and> length (cor_targets c) \<le> OBSERVER_PROJECTED_LIST_ITEM_LIMIT"
    and "\<And>k t. (\<exists>c. cor k = Some c \<and> t \<in> set (cor_targets c)) \<longleftrightarrow> (\<exists>ks. ix t = Some ks \<and> k \<in> set ks)"
    and "\<And>t ks. ix t = Some ks \<Longrightarrow> ks \<noteq> []"
  shows "indexed cor ix"
  using assms unfolding indexed_def by blast

definition index_ok :: "(cor_key, correlation) dict \<Rightarrow> (cor_key, event) dict \<Rightarrow> (pystr, cor_key list) dict \<Rightarrow> bool" where
  "index_ok cors invs ix \<longleftrightarrow>
     distinct (dict_keys cors) \<and> distinct (dict_keys invs) \<and> distinct (dict_keys ix) \<and>
     set (dict_keys invs) \<subseteq> set (dict_keys cors) \<and> indexed (dict_get cors) (dict_get ix)"

definition agents_ok :: "pystr list \<Rightarrow> (pystr, pystr) dict \<Rightarrow> (pystr, active_work) dict \<Rightarrow> bool" where
  "agents_ok known paths work \<longleftrightarrow>
     distinct known \<and> length known \<le> OBSERVER_RECOVERED_TARGET_LIMIT \<and> distinct (dict_keys paths) \<and> distinct (dict_keys work) \<and>
     set (dict_keys paths) \<subseteq> set known \<and> set (dict_keys work) \<subseteq> set known"

definition tables_ok :: "producer \<Rightarrow> bool" where
  "tables_ok s \<longleftrightarrow>
     index_ok (prod_correlations s) (prod_invocations s) (prod_invocation_targets s) \<and>
     length (prod_correlations s) \<le> OBSERVER_CORRELATION_METADATA_LIMIT \<and>
     agents_ok (prod_known_agents s) (prod_agent_paths s) (prod_active_work s)"

definition payloads_ok :: "(message \<Rightarrow> nat) \<Rightarrow> (cor_key, event) dict \<Rightarrow> bool" where
  "payloads_ok enc d \<longleftrightarrow>
     length d \<le> OBSERVER_CORRELATION_PAYLOAD_LIMIT \<and>
     sum_list (map (enc \<circ> snd) d) \<le> OBSERVER_CORRELATION_PAYLOAD_MAX_BYTES"

definition prod_inv :: "(json \<Rightarrow> pystr) \<Rightarrow> (message \<Rightarrow> nat) \<Rightarrow> producer \<Rightarrow> bool" where
  "prod_inv rep enc s \<longleftrightarrow>
     obs_wf rep s \<and> retained s \<le> OBSERVER_SNAPSHOT_EVENT_LIMIT \<and> tables_ok s \<and>
     payloads_ok enc (prod_invocations s)"

lemma map_of_mem: "dict_get d k = Some v \<Longrightarrow> k \<in> set (dict_keys d)"
  by (force dest: map_of_SomeD)

lemma unindex_eq:
  assumes "distinct ts" "distinct (dict_keys ix)" "\<forall>t \<in> set ts. dict_get ix t \<noteq> None"
  shows "\<exists>ix'. unindex key ts ix = Some ix' \<and> distinct (dict_keys ix') \<and>
    (\<forall>t. dict_get ix' t =
      (if t \<in> set ts then (let ks = filter (\<lambda>k. k \<noteq> key) (the (dict_get ix t)) in if ks = [] then None else Some ks)
       else dict_get ix t))"
  using assms
proof (induction ts arbitrary: ix)
  case (Cons t ts)
  then obtain keys where keys: "dict_get ix t = Some keys" by auto
  let ?ks = "filter (\<lambda>k. k \<noteq> key) keys"
  let ?ix = "if ?ks = [] then dict_pop t ix else dict_set t ?ks ix"
  have "distinct (dict_keys ?ix)" using Cons.prems(2) by simp
  moreover have "\<forall>t' \<in> set ts. dict_get ?ix t' = dict_get ix t'" using Cons.prems(1) by auto
  ultimately obtain ix' where ix': "unindex key ts ?ix = Some ix'" "distinct (dict_keys ix')"
      "\<forall>t'. dict_get ix' t' =
        (if t' \<in> set ts then (let ks = filter (\<lambda>k. k \<noteq> key) (the (dict_get ?ix t')) in if ks = [] then None else Some ks)
         else dict_get ?ix t')"
    using Cons.IH [of ?ix] Cons.prems(1,3) by (metis distinct.simps(2) list.set_intros(2))
  have "unindex key (t # ts) ix = Some ix'" using keys ix'(1) by (simp add: Let_def)
  moreover have "dict_get ix' t' =
      (if t' \<in> set (t # ts) then (let ks = filter (\<lambda>k. k \<noteq> key) (the (dict_get ix t')) in if ks = [] then None else Some ks)
       else dict_get ix t')" for t'
    using ix'(3) keys Cons.prems(1) by (auto simp: Let_def)
  ultimately show ?case using ix'(2) by blast
qed auto

lemma index_okD:
  assumes "index_ok cors invs ix"
  shows "distinct (dict_keys cors)" "distinct (dict_keys invs)" "distinct (dict_keys ix)"
    "set (dict_keys invs) \<subseteq> set (dict_keys cors)"
    "dict_get cors k = Some c \<Longrightarrow> distinct (cor_targets c) \<and> length (cor_targets c) \<le> OBSERVER_PROJECTED_LIST_ITEM_LIMIT"
    "(\<exists>c. dict_get cors k = Some c \<and> t \<in> set (cor_targets c)) \<longleftrightarrow> (\<exists>ks. dict_get ix t = Some ks \<and> k \<in> set ks)"
    "dict_get ix t = Some ks \<Longrightarrow> ks \<noteq> []"
  using assms unfolding index_ok_def indexed_def by blast+

lemma index_ok_evict:
  assumes ok: "index_ok cors invs ix" and c: "dict_get cors key = Some c"
  shows "\<exists>ix'. unindex key (cor_targets c) ix = Some ix' \<and> index_ok (dict_pop key cors) (dict_pop key invs) ix'"
proof -
  note D = index_okD [OF ok]
  have "\<forall>t \<in> set (cor_targets c). dict_get ix t \<noteq> None" using D(6) [of key] c by fastforce
  then obtain ix' where ix': "unindex key (cor_targets c) ix = Some ix'" "distinct (dict_keys ix')"
      "\<forall>t. dict_get ix' t =
        (if t \<in> set (cor_targets c) then (let ks = filter (\<lambda>k. k \<noteq> key) (the (dict_get ix t)) in if ks = [] then None else Some ks)
         else dict_get ix t)"
    using unindex_eq [of "cor_targets c" ix key] D(3) D(5) [OF c] by blast
  have old: "\<exists>ks. dict_get ix t = Some ks \<and> key \<in> set ks \<longleftrightarrow> t \<in> set (cor_targets c)" for t
    using D(6) [of key t] c by auto
  have member: "(\<exists>ks. dict_get ix' t = Some ks \<and> k \<in> set ks) \<longleftrightarrow> k \<noteq> key \<and> (\<exists>ks. dict_get ix t = Some ks \<and> k \<in> set ks)" for k t
  proof (cases "t \<in> set (cor_targets c)")
    case True
    then obtain ks where ks: "dict_get ix t = Some ks" using D(6) [of key t] c by auto
    with True ix'(3) show ?thesis by (auto simp: Let_def filter_empty_conv)
  next
    case False
    then have "dict_get ix' t = dict_get ix t" using ix'(3) by simp
    moreover have "\<not> (\<exists>ks. dict_get ix t = Some ks \<and> key \<in> set ks)" using D(6) [of key t] c False by auto
    ultimately show ?thesis by auto
  qed
  have "index_ok (dict_pop key cors) (dict_pop key invs) ix'"
    unfolding index_ok_def indexed_def
  proof (intro conjI allI impI)
    show "set (dict_keys (dict_pop key invs)) \<subseteq> set (dict_keys (dict_pop key cors))"
      using D(4) by (auto simp: dict_pop_keys)
    show "(\<exists>ca. dict_get (dict_pop key cors) k = Some ca \<and> t \<in> set (cor_targets ca)) \<longleftrightarrow>
        (\<exists>ks. dict_get ix' t = Some ks \<and> k \<in> set ks)" for k t
      unfolding member using D(6) [of k t] by auto
    show "distinct (cor_targets ca)" "length (cor_targets ca) \<le> OBSERVER_PROJECTED_LIST_ITEM_LIMIT"
      if "dict_get (dict_pop key cors) k = Some ca" for k ca
      using that D(5) [of k ca] by (auto split: if_splits)
    show "ks \<noteq> []" if "dict_get ix' t = Some ks" for t ks
      using that ix'(3) D(7) [of t ks] by (auto simp: Let_def split: if_splits)
  qed (use D(1-3) ix'(2) in auto)
  with ix'(1) show ?thesis by blast
qed

lemma dict_keys_set_set: "set (dict_keys (dict_set k v d)) = insert k (set (dict_keys d))"
  unfolding dict_keys_set by auto

lemma index_ok_pop_invocation: "index_ok cors invs ix \<Longrightarrow> index_ok cors (dict_pop k invs) ix"
  by (auto simp: index_ok_def dict_pop_keys)

lemma index_ok_set_invocation: "index_ok cors invs ix \<Longrightarrow> k \<in> set (dict_keys cors) \<Longrightarrow> index_ok cors (dict_set k e invs) ix"
  unfolding index_ok_def dict_keys_set_set by simp

lemma index_ok_tl_invocation: "index_ok cors (p # invs) ix \<Longrightarrow> index_ok cors invs ix"
  by (simp add: index_ok_def)

text \<open>A change of a correlation that keeps its targets, and a new correlation.\<close>

lemma index_ok_change:
  assumes "index_ok cors invs ix" "dict_get cors k = Some c" "cor_targets c' = cor_targets c"
  shows "index_ok (dict_set k c' cors) invs ix"
proof -
  note D = index_okD [OF assms(1)]
  have "indexed ((dict_get cors)(k \<mapsto> c')) (dict_get ix)"
  proof (rule indexedI)
    show "distinct (cor_targets d) \<and> length (cor_targets d) \<le> OBSERVER_PROJECTED_LIST_ITEM_LIMIT"
      if "((dict_get cors)(k \<mapsto> c')) k' = Some d" for k' d
      using that D(5) [of k' d] D(5) [OF assms(2)] assms(3) by (cases "k' = k") auto
    show "(\<exists>d. ((dict_get cors)(k \<mapsto> c')) k' = Some d \<and> t \<in> set (cor_targets d)) \<longleftrightarrow>
        (\<exists>ks. dict_get ix t = Some ks \<and> k' \<in> set ks)" for k' t
      using D(6) [of k' t] assms(2,3) by (cases "k' = k") simp_all
  qed (rule D(7))
  with assms(1) show ?thesis unfolding index_ok_def dict_keys_set_set by (simp add: subset_insertI2)
qed

lemma index_ok_new:
  assumes "index_ok cors invs ix" "k \<notin> set (dict_keys cors)" "cor_targets c = []"
  shows "index_ok (dict_set k c cors) invs ix"
proof -
  note D = index_okD [OF assms(1)]
  have none: "dict_get cors k = None" using assms(2) by (simp add: map_of_eq_None_iff)
  have "indexed ((dict_get cors)(k \<mapsto> c)) (dict_get ix)"
  proof (rule indexedI)
    show "distinct (cor_targets d) \<and> length (cor_targets d) \<le> OBSERVER_PROJECTED_LIST_ITEM_LIMIT"
      if "((dict_get cors)(k \<mapsto> c)) k' = Some d" for k' d
      using that D(5) [of k' d] assms(3) by (cases "k' = k") auto
    show "(\<exists>d. ((dict_get cors)(k \<mapsto> c)) k' = Some d \<and> t \<in> set (cor_targets d)) \<longleftrightarrow>
        (\<exists>ks. dict_get ix t = Some ks \<and> k' \<in> set ks)" for k' t
      using D(6) [of k' t] none assms(3) by (cases "k' = k") simp_all
  qed (rule D(7))
  with assms(1) show ?thesis unfolding index_ok_def dict_keys_set_set by (simp add: subset_insertI2)
qed

lemma index_ok_target:
  assumes "index_ok cors invs ix" "dict_get cors k = Some c" "\<not> target_limit_reached t c"
  shows "index_ok (dict_set k (c\<lparr>cor_targets := List.insert t (cor_targets c)\<rparr>) cors) invs
    (dict_set t (List.insert k (case dict_get ix t of None \<Rightarrow> [] | Some ks \<Rightarrow> ks)) ix)"
proof -
  note D = index_okD [OF assms(1)]
  let ?c = "c\<lparr>cor_targets := List.insert t (cor_targets c)\<rparr>"
  let ?ks = "List.insert k (case dict_get ix t of None \<Rightarrow> [] | Some ks \<Rightarrow> ks)"
  have ks: "set ?ks = insert k (case dict_get ix t of None \<Rightarrow> {} | Some ks \<Rightarrow> set ks)" by (simp split: option.split)
  have "indexed ((dict_get cors)(k \<mapsto> ?c)) ((dict_get ix)(t \<mapsto> ?ks))"
  proof (rule indexedI)
    show "distinct (cor_targets d) \<and> length (cor_targets d) \<le> OBSERVER_PROJECTED_LIST_ITEM_LIMIT"
      if "((dict_get cors)(k \<mapsto> ?c)) k' = Some d" for k' d
      using that D(5) [of k' d] D(5) [OF assms(2)] assms(3)
      by (cases "k' = k") (auto simp: target_limit_reached_def List.insert_def)
    show "(\<exists>d. ((dict_get cors)(k \<mapsto> ?c)) k' = Some d \<and> t' \<in> set (cor_targets d)) \<longleftrightarrow>
        (\<exists>ks. ((dict_get ix)(t \<mapsto> ?ks)) t' = Some ks \<and> k' \<in> set ks)" for k' t'
      using D(6) [of k' t'] assms(2) ks by (cases "t' = t"; cases "k' = k"; cases "dict_get ix t") simp_all
    show "ks \<noteq> []" if "((dict_get ix)(t \<mapsto> ?ks)) t' = Some ks" for t' ks
      using that D(7) [of t' ks] ks by (cases "t' = t") (auto simp del: set_insert)
  qed
  with assms(1) show ?thesis unfolding index_ok_def dict_keys_set_set by (simp add: subset_insertI2)
qed

subsection \<open>Every operation keeps the tables\<close>

text \<open>The invariant relative to a state \<open>s0\<close> the producer has not gone back behind. It is loose while
  the payload bounds are being enforced.\<close>

definition prod_ok :: "(json \<Rightarrow> pystr) \<Rightarrow> (message \<Rightarrow> nat) \<Rightarrow> bool \<Rightarrow> producer \<Rightarrow> producer \<Rightarrow> bool" where
  "prod_ok rep enc loose s0 s \<longleftrightarrow>
     obs_wf rep s \<and> retained s \<le> OBSERVER_SNAPSHOT_EVENT_LIMIT \<and> tables_ok s \<and>
     (loose \<or> payloads_ok enc (prod_invocations s)) \<and> not_older s0 s"

definition no_key_error :: "(json \<Rightarrow> pystr) \<Rightarrow> (message \<Rightarrow> nat) \<Rightarrow> producer \<Rightarrow> observer_error \<Rightarrow> producer \<Rightarrow> bool" where
  "no_key_error rep enc s0 e s \<longleftrightarrow> e \<noteq> ObserverKeyError \<and> prod_ok rep enc False s0 s"

lemma prod_inv_ok: "prod_inv rep enc s \<Longrightarrow> prod_ok rep enc False s s"
  by (simp add: prod_inv_def prod_ok_def not_older_def)

lemma payload_sum_pop: "sum_list (map (enc \<circ> snd) (dict_pop k d)) \<le> sum_list (map (enc \<circ> snd) d)" for enc :: "event \<Rightarrow> nat"
  by (induction d) (auto simp: dict_pop_def)

lemma payloads_ok_pop: "payloads_ok enc d \<Longrightarrow> payloads_ok enc (dict_pop k d)"
  using length_dict_pop_le [of k d] payload_sum_pop [of enc k d] by (simp add: payloads_ok_def)

lemma wp_gets [simp]: "wp (gets f) Q E = (\<lambda>s. Q (f s) s)"
  by (simp add: wp_def gets_def fun_eq_iff)

lemma wp_update [simp]: "wp (update f) Q E = (\<lambda>s. Q () (f s))"
  by (simp add: wp_def update_def fun_eq_iff)

lemma mark_fields [simp]:
  "obs_epoch (mark_correlation_incomplete s) = obs_epoch s"
  "obs_active (mark_correlation_incomplete s) = obs_active s"
  "obs_tombstones (mark_correlation_incomplete s) = obs_tombstones s"
  "obs_removed_targets (mark_correlation_incomplete s) = obs_removed_targets s"
  "obs_revision (mark_correlation_incomplete s) = obs_revision s + 1"
  "obs_dropped_event_count (mark_correlation_incomplete s) = obs_dropped_event_count s + 1"
  "prod_root_thread_id (mark_correlation_incomplete s) = prod_root_thread_id s"
  "prod_correlations (mark_correlation_incomplete s) = prod_correlations s"
  "prod_invocations (mark_correlation_incomplete s) = prod_invocations s"
  "prod_invocation_targets (mark_correlation_incomplete s) = prod_invocation_targets s"
  "prod_known_agents (mark_correlation_incomplete s) = prod_known_agents s"
  "prod_agent_paths (mark_correlation_incomplete s) = prod_agent_paths s"
  "prod_active_work (mark_correlation_incomplete s) = prod_active_work s"
  "correlation_key item_id (mark_correlation_incomplete s) = correlation_key item_id s"
  by (simp_all add: mark_correlation_incomplete_def advance_revision_def correlation_key_def)

lemma mark_prod_ok: "prod_ok rep enc loose s0 s \<Longrightarrow> prod_ok rep enc loose s0 (mark_correlation_incomplete s)"
  by (auto simp: prod_ok_def obs_wf_def retained_def tables_ok_def not_older_def)

lemma prod_okD:
  assumes "prod_ok rep enc loose s0 s"
  shows "index_ok (prod_correlations s) (prod_invocations s) (prod_invocation_targets s)"
    "length (prod_correlations s) \<le> OBSERVER_CORRELATION_METADATA_LIMIT"
    "agents_ok (prod_known_agents s) (prod_agent_paths s) (prod_active_work s)" "loose \<or> payloads_ok enc (prod_invocations s)"
  using assms by (auto simp: prod_ok_def tables_ok_def)

text \<open>Replacing the tables.\<close>

lemma prod_ok_tables:
  assumes "prod_ok rep enc loose s0 s" "index_ok cors invs ix" "length cors \<le> OBSERVER_CORRELATION_METADATA_LIMIT" "loose \<or> payloads_ok enc invs"
  shows "prod_ok rep enc loose s0 (s\<lparr>prod_correlations := cors, prod_invocations := invs, prod_invocation_targets := ix\<rparr>)"
  using assms by (auto simp: prod_ok_def obs_wf_def retained_def tables_ok_def not_older_def)

lemma prod_ok_agents:
  assumes "prod_ok rep enc loose s0 s" "agents_ok known paths work"
  shows "prod_ok rep enc loose s0 (s\<lparr>prod_known_agents := known, prod_agent_paths := paths, prod_active_work := work\<rparr>)"
  using assms by (auto simp: prod_ok_def obs_wf_def retained_def tables_ok_def not_older_def)

lemma evict_ok:
  assumes "prod_ok rep enc loose s0 s" "dict_get (prod_correlations s) key = Some c"
  shows "\<exists>s'. evict_correlation key s = (s', Inr ()) \<and> prod_ok rep enc loose s0 s' \<and>
    prod_correlations s' = dict_pop key (prod_correlations s) \<and> obs_epoch s' = obs_epoch s \<and>
    prod_root_thread_id s' = prod_root_thread_id s"
proof -
  obtain ix where ix: "unindex key (cor_targets c) (prod_invocation_targets s) = Some ix"
      "index_ok (dict_pop key (prod_correlations s)) (dict_pop key (prod_invocations s)) ix"
    using index_ok_evict [OF prod_okD(1) [OF assms(1)] assms(2)] by blast
  let ?s = "s\<lparr>prod_correlations := dict_pop key (prod_correlations s), prod_invocations := dict_pop key (prod_invocations s),
    prod_invocation_targets := ix\<rparr>"
  have "prod_ok rep enc loose s0 ?s"
    using assms(1) ix(2)
  proof (rule prod_ok_tables)
    show "length (dict_pop key (prod_correlations s)) \<le> OBSERVER_CORRELATION_METADATA_LIMIT"
      using prod_okD(2) [OF assms(1)] length_dict_pop_le [of key "prod_correlations s"] by linarith
    show "loose \<or> payloads_ok enc (dict_pop key (prod_invocations s))"
      using prod_okD(4) [OF assms(1)] payloads_ok_pop by blast
  qed
  from mark_prod_ok [OF this] show ?thesis
    using assms(2) ix(1) by (simp add: evict_correlation_def Let_def)
qed

lemma make_room_ok:
  "prod_ok rep enc loose s0 s \<Longrightarrow> \<exists>s'. make_room s = (s', Inr ()) \<and> prod_ok rep enc loose s0 s' \<and>
    length (prod_correlations s') < OBSERVER_CORRELATION_METADATA_LIMIT \<and>
    set (dict_keys (prod_correlations s')) \<subseteq> set (dict_keys (prod_correlations s)) \<and>
    obs_epoch s' = obs_epoch s \<and> prod_root_thread_id s' = prod_root_thread_id s"
proof (induction s rule: make_room.induct)
  case (1 s)
  show ?case
  proof (cases "length (prod_correlations s) < OBSERVER_CORRELATION_METADATA_LIMIT")
    case True
    with "1.prems" show ?thesis by (subst make_room.simps) simp
  next
    case False
    then obtain k c d where d: "prod_correlations s = (k, c) # d"
      by (cases "prod_correlations s") (auto simp: OBSERVER_CORRELATION_METADATA_LIMIT_def)
    then obtain s1 where s1: "evict_correlation k s = (s1, Inr ())" "prod_ok rep enc loose s0 s1"
        "prod_correlations s1 = dict_pop k (prod_correlations s)" "obs_epoch s1 = obs_epoch s"
        "prod_root_thread_id s1 = prod_root_thread_id s"
      using evict_ok [OF "1.prems", of k c] by auto
    have e: "evict_correlation (fst (hd (prod_correlations s))) s = (s1, Inr ())" using s1(1) d by simp
    from "1.IH" [OF False e [symmetric] refl s1(2)] obtain s' where
      "make_room s1 = (s', Inr ())" "prod_ok rep enc loose s0 s'" "length (prod_correlations s') < OBSERVER_CORRELATION_METADATA_LIMIT"
      "set (dict_keys (prod_correlations s')) \<subseteq> set (dict_keys (prod_correlations s1))"
      "obs_epoch s' = obs_epoch s1" "prod_root_thread_id s' = prod_root_thread_id s1" by blast
    moreover have "make_room s = make_room s1" using False e by (subst make_room.simps) simp
    ultimately show ?thesis using s1(3-5) by (auto simp: dict_pop_keys)
  qed
qed

end
