(* ===== verification/Observer_Safety.thy ===== *)
theory Observer_Safety
  imports Observer_Correlation
begin

section \<open>Observer producer: safety and publication\<close>

text \<open>
  Rules for every operation of the observer producer over the table invariant of
  \<open>Observer_Correlation\<close>, the operations as one step function, and the properties: no operation
  sequence meets a missing table entry or passes a bound, and a consumer that receives any part of
  the published snapshots in order shows a published state.
\<close>

subsection \<open>Correlations\<close>

definition has_correlation :: "pystr \<Rightarrow> producer \<Rightarrow> bool" where
  "has_correlation item_id s \<longleftrightarrow> dict_get (prod_correlations s) (correlation_key item_id s) \<noteq> None"

lemma payload_field_simps [simp]:
  "correlation_key i (s\<lparr>prod_correlations := cors\<rparr>) = correlation_key i s"
  "correlation_key i (s\<lparr>prod_invocations := invs\<rparr>) = correlation_key i s"
  "correlation_key i (s\<lparr>prod_invocation_targets := ix\<rparr>) = correlation_key i s"
  "correlation_key i (s\<lparr>prod_known_agents := known\<rparr>) = correlation_key i s"
  "correlation_key i (s\<lparr>prod_agent_paths := paths\<rparr>) = correlation_key i s"
  "correlation_key i (s\<lparr>prod_active_work := work\<rparr>) = correlation_key i s"
  by (simp_all add: correlation_key_def)

lemma prod_ok_correlations:
  "prod_ok rep enc loose s0 s \<Longrightarrow> index_ok cors (prod_invocations s) (prod_invocation_targets s) \<Longrightarrow>
    length cors \<le> OBSERVER_CORRELATION_METADATA_LIMIT \<Longrightarrow> prod_ok rep enc loose s0 (s\<lparr>prod_correlations := cors\<rparr>)"
  using prod_ok_tables [of rep enc loose s0 s cors "prod_invocations s" "prod_invocation_targets s"] prod_okD(4) by fastforce

lemma change_ok:
  assumes "prod_ok rep enc loose s0 s" "dict_get (prod_correlations s) k = Some c" "cor_targets c' = cor_targets c"
  shows "prod_ok rep enc loose s0 (s\<lparr>prod_correlations := dict_set k c' (prod_correlations s)\<rparr>)"
proof (rule prod_ok_correlations [OF assms(1)])
  show "index_ok (dict_set k c' (prod_correlations s)) (prod_invocations s) (prod_invocation_targets s)"
    using index_ok_change [OF prod_okD(1) [OF assms(1)] assms(2,3)] .
  show "length (dict_set k c' (prod_correlations s)) \<le> OBSERVER_CORRELATION_METADATA_LIMIT"
    using prod_okD(2) [OF assms(1)] map_of_mem [OF assms(2)] by (auto simp: length_dict_set)
qed

lemma change_correlation_ok:
  assumes "prod_ok rep enc loose s0 s" "\<And>c. cor_targets (f c) = cor_targets c"
  shows "prod_ok rep enc loose s0 (change_correlation item_id f s)"
  using assms by (auto simp: change_correlation_def change_ok split: option.split)

lemma change_correlation_has [simp]: "has_correlation i (change_correlation item_id f s) = has_correlation i s"
  by (auto simp: has_correlation_def change_correlation_def split: option.split)

lemma mark_has [simp]: "has_correlation i (mark_correlation_incomplete s) = has_correlation i s"
  by (simp add: has_correlation_def)

lemma wp_make_room:
  assumes "prod_ok rep enc loose s0 s"
    and "\<And>s'. prod_ok rep enc loose s0 s' \<Longrightarrow> length (prod_correlations s') < OBSERVER_CORRELATION_METADATA_LIMIT \<Longrightarrow>
      set (dict_keys (prod_correlations s')) \<subseteq> set (dict_keys (prod_correlations s)) \<Longrightarrow>
      (\<And>i. correlation_key i s' = correlation_key i s) \<Longrightarrow> Q () s'"
  shows "wp make_room Q E s"
  using make_room_ok [OF assms(1)] assms(2) by (auto simp: wp_def correlation_key_def)

lemma wp_get_correlation:
  assumes "prod_ok rep enc loose s0 s"
    and "\<And>c s'. prod_ok rep enc loose s0 s' \<Longrightarrow> has_correlation item_id s' \<Longrightarrow> Q c s'"
  shows "wp (get_correlation now item_id) Q E s"
proof (cases "dict_get (prod_correlations s) (correlation_key item_id s)")
  case None
  have "wp make_room (\<lambda>_ s'. Q (new_correlation now s')
      (s'\<lparr>prod_correlations := dict_set (correlation_key item_id s') (new_correlation now s') (prod_correlations s')\<rparr>)) E s"
  proof (rule wp_make_room [OF assms(1)], rule assms(2))
    fix s' assume s': "prod_ok rep enc loose s0 s'" "length (prod_correlations s') < OBSERVER_CORRELATION_METADATA_LIMIT"
      "set (dict_keys (prod_correlations s')) \<subseteq> set (dict_keys (prod_correlations s))"
      "\<And>i. correlation_key i s' = correlation_key i s"
    let ?k = "correlation_key item_id s'" let ?c = "new_correlation now s'"
    have "?k \<notin> set (dict_keys (prod_correlations s'))" using s'(3,4) None by (auto simp: map_of_eq_None_iff)
    then have "index_ok (dict_set ?k ?c (prod_correlations s')) (prod_invocations s') (prod_invocation_targets s')"
      by (rule index_ok_new [OF prod_okD(1) [OF s'(1)]]) (simp add: new_correlation_def)
    then show "prod_ok rep enc loose s0 (s'\<lparr>prod_correlations := dict_set ?k ?c (prod_correlations s')\<rparr>)"
      using s'(1,2) by (intro prod_ok_correlations) (auto simp: length_dict_set)
    show "has_correlation item_id (s'\<lparr>prod_correlations := dict_set ?k ?c (prod_correlations s')\<rparr>)"
      by (simp add: has_correlation_def)
  qed
  with None show ?thesis by (simp add: get_correlation_def)
next
  case (Some c)
  with assms show ?thesis by (simp add: get_correlation_def has_correlation_def)
qed

lemma wp_read_correlation:
  assumes "has_correlation item_id s" "\<And>c. dict_get (prod_correlations s) (correlation_key item_id s) = Some c \<Longrightarrow> Q c s"
  shows "wp (read_correlation item_id) Q E s"
  using assms by (auto simp: read_correlation_def has_correlation_def)

lemma wp_index_target:
  assumes "prod_ok rep enc loose s0 s" "has_correlation item_id s"
    and Q: "\<And>s'. prod_ok rep enc loose s0 s' \<Longrightarrow> has_correlation item_id s' \<Longrightarrow> Q () s'"
  shows "wp (index_target item_id target) Q E s"
proof -
  obtain c where c: "dict_get (prod_correlations s) (correlation_key item_id s) = Some c"
    using assms(2) by (auto simp: has_correlation_def)
  show ?thesis
  proof (cases "target_limit_reached target c")
    case True
    with c assms(1,2) show ?thesis
      by (auto simp: index_target_def read_correlation_def intro!: Q mark_prod_ok)
  next
    case False
    let ?k = "correlation_key item_id s"
    let ?cors = "dict_set ?k (c\<lparr>cor_targets := List.insert target (cor_targets c)\<rparr>) (prod_correlations s)"
    let ?ix = "dict_set target (List.insert ?k (case dict_get (prod_invocation_targets s) target of None \<Rightarrow> [] | Some ks \<Rightarrow> ks))
      (prod_invocation_targets s)"
    have "prod_ok rep enc loose s0 (s\<lparr>prod_correlations := ?cors, prod_invocations := prod_invocations s, prod_invocation_targets := ?ix\<rparr>)"
      using assms(1) index_ok_target [OF prod_okD(1) [OF assms(1)] c False] prod_okD(2,4) [OF assms(1)] map_of_mem [OF c]
      by (intro prod_ok_tables) (auto simp: length_dict_set)
    then have "Q () (s\<lparr>prod_correlations := ?cors, prod_invocation_targets := ?ix\<rparr>)"
      by (intro Q) (auto simp: has_correlation_def)
    with False c show ?thesis by (simp add: index_target_def read_correlation_def change_correlation_def)
  qed
qed

lemma wp_index_targets:
  assumes "prod_ok rep enc loose s0 s" "has_correlation item_id s"
    and "\<And>s'. prod_ok rep enc loose s0 s' \<Longrightarrow> has_correlation item_id s' \<Longrightarrow> Q () s'"
  shows "wp (index_targets item_id targets) Q E s"
  using assms(1,2)
proof (induction targets arbitrary: s)
  case (Cons t ts)
  then show ?case by (auto intro!: wp_index_target)
qed (use assms(3) in simp)

lemma enforce_payload_ok:
  "prod_ok rep enc True s0 s \<Longrightarrow> bytes = int (payload_bytes enc s) \<Longrightarrow>
    \<exists>s'. enforce_payload_loop enc bytes s = (s', Inr ()) \<and> prod_ok rep enc False s0 s'"
proof (induction enc bytes s rule: enforce_payload_loop.induct)
  case (1 enc bytes s)
  show ?case
  proof (cases "length (prod_invocations s) \<le> OBSERVER_CORRELATION_PAYLOAD_LIMIT \<and> bytes \<le> int OBSERVER_CORRELATION_PAYLOAD_MAX_BYTES")
    case True
    then have "payloads_ok enc (prod_invocations s)" using "1.prems"(2) by (simp add: payloads_ok_def payload_bytes_def)
    with True "1.prems"(1) show ?thesis by (subst enforce_payload_loop.simps) (simp add: prod_ok_def)
  next
    case False
    then obtain key m rest where inv: "prod_invocations s = (key, m) # rest"
      using "1.prems"(2) by (cases "prod_invocations s") (auto simp: payload_bytes_def)
    note ok = prod_okD(1) [OF "1.prems"(1)]
    obtain c where c: "dict_get (prod_correlations s) key = Some c"
      using index_okD(4) [OF ok] inv by (cases "dict_get (prod_correlations s) key") (auto simp: map_of_eq_None_iff)
    let ?s = "s\<lparr>prod_correlations := dict_set key (c\<lparr>cor_uncertain := True\<rparr>) (prod_correlations s), prod_invocations := rest\<rparr>"
    have "index_ok (dict_set key (c\<lparr>cor_uncertain := True\<rparr>) (prod_correlations s)) rest (prod_invocation_targets s)"
      using index_ok_change [OF ok c, of "c\<lparr>cor_uncertain := True\<rparr>"] inv by (auto intro: index_ok_tl_invocation)
    then have "prod_ok rep enc True s0
        (s\<lparr>prod_correlations := dict_set key (c\<lparr>cor_uncertain := True\<rparr>) (prod_correlations s), prod_invocations := rest,
           prod_invocation_targets := prod_invocation_targets s\<rparr>)"
      using "1.prems"(1) prod_okD(2) [OF "1.prems"(1)] map_of_mem [OF c] by (intro prod_ok_tables) (auto simp: length_dict_set)
    then have "prod_ok rep enc True s0 (mark_correlation_incomplete ?s)" by (intro mark_prod_ok) simp
    moreover have "bytes - int (enc m) = int (payload_bytes enc (mark_correlation_incomplete ?s))"
      using "1.prems"(2) inv by (simp add: payload_bytes_def)
    moreover have "enforce_payload_loop enc bytes s = enforce_payload_loop enc (bytes - int (enc m)) (mark_correlation_incomplete ?s)"
      using False inv c by (subst enforce_payload_loop.simps) auto
    ultimately show ?thesis using "1.IH" [OF False inv refl c] by simp
  qed
qed


lemma wp_enforce_payload_bounds:
  assumes "prod_ok rep enc True s0 s" "\<And>s'. prod_ok rep enc False s0 s' \<Longrightarrow> Q () s'"
  shows "wp (enforce_payload_bounds enc) Q E s"
  using enforce_payload_ok [OF assms(1) refl] assms(2) by (auto simp: wp_def enforce_payload_bounds_def)

subsection \<open>Agents\<close>

lemma prod_ok_known:
  "prod_ok rep enc loose s0 s \<Longrightarrow> agents_ok known (prod_agent_paths s) (prod_active_work s) \<Longrightarrow>
    prod_ok rep enc loose s0 (s\<lparr>prod_known_agents := known\<rparr>)"
  using prod_ok_agents [of rep enc loose s0 s known "prod_agent_paths s" "prod_active_work s"] by simp

lemma prod_ok_work:
  "prod_ok rep enc loose s0 s \<Longrightarrow> agents_ok (prod_known_agents s) (prod_agent_paths s) work \<Longrightarrow>
    prod_ok rep enc loose s0 (s\<lparr>prod_active_work := work\<rparr>)"
  using prod_ok_agents [of rep enc loose s0 s "prod_known_agents s" "prod_agent_paths s" work] by simp

lemma prod_ok_paths:
  "prod_ok rep enc loose s0 s \<Longrightarrow> agents_ok (prod_known_agents s) paths (prod_active_work s) \<Longrightarrow>
    prod_ok rep enc loose s0 (s\<lparr>prod_agent_paths := paths\<rparr>)"
  using prod_ok_agents [of rep enc loose s0 s "prod_known_agents s" paths "prod_active_work s"] by simp

lemma agents_ok_insert:
  "agents_ok known paths work \<Longrightarrow> length known < OBSERVER_RECOVERED_TARGET_LIMIT \<Longrightarrow> agents_ok (List.insert t known) paths work"
  by (auto simp: agents_ok_def List.insert_def)

lemma agents_ok_retire:
  assumes "agents_ok known paths work" "retired \<in> set (dict_keys paths)" "retired \<notin> set (dict_keys work)"
  shows "agents_ok (filter (\<lambda>t. t \<noteq> retired) known) (dict_pop retired paths) work"
    "length (filter (\<lambda>t. t \<noteq> retired) known) < OBSERVER_RECOVERED_TARGET_LIMIT"
proof -
  have "retired \<in> set known" using assms(1,2) by (auto simp: agents_ok_def)
  then have "length (filter (\<lambda>t. t \<noteq> retired) known) < length known" by (intro length_filter_less) auto
  then show "length (filter (\<lambda>t. t \<noteq> retired) known) < OBSERVER_RECOVERED_TARGET_LIMIT" using assms(1) by (simp add: agents_ok_def)
  with assms show "agents_ok (filter (\<lambda>t. t \<noteq> retired) known) (dict_pop retired paths) work"
    by (force simp: agents_ok_def dict_pop_keys)
qed

lemma agents_ok_path: "agents_ok known paths work \<Longrightarrow> t \<in> set known \<Longrightarrow> agents_ok known (dict_set t p paths) work"
  unfolding agents_ok_def dict_keys_set_set by simp

lemma agents_ok_work: "agents_ok known paths work \<Longrightarrow> t \<in> set known \<Longrightarrow> agents_ok known paths (dict_set t w work)"
  unfolding agents_ok_def dict_keys_set_set by simp

lemma agents_ok_finish: "agents_ok known paths work \<Longrightarrow> agents_ok known paths (dict_pop t work)"
  by (auto simp: agents_ok_def dict_pop_keys)

lemma has_agents [simp]:
  "has_correlation i (s\<lparr>prod_known_agents := known\<rparr>) = has_correlation i s"
  "has_correlation i (s\<lparr>prod_agent_paths := paths\<rparr>) = has_correlation i s"
  "has_correlation i (s\<lparr>prod_active_work := work\<rparr>) = has_correlation i s"
  by (simp_all add: has_correlation_def)

lemma wp_admit_agent:
  assumes ok: "prod_ok rep enc loose s0 s"
    and Q: "\<And>b s'. prod_ok rep enc loose s0 s' \<Longrightarrow> (b \<Longrightarrow> knows_agent target s') \<Longrightarrow>
      (\<And>i. has_correlation i s' = has_correlation i s) \<Longrightarrow> Q b s'"
  shows "wp (admit_agent target) Q E s"
proof (cases "length (prod_known_agents s) < OBSERVER_RECOVERED_TARGET_LIMIT")
  case True
  with ok show ?thesis
    by (auto simp: admit_agent_def knows_agent_def intro!: Q prod_ok_known agents_ok_insert prod_okD(3))
next
  case False
  show ?thesis
  proof (cases "List.find (\<lambda>t. \<not> tracks_target t s) (dict_keys (prod_agent_paths s))")
    case None
    with False ok show ?thesis by (auto simp: admit_agent_def intro!: Q mark_prod_ok)
  next
    case (Some retired)
    then have r: "retired \<in> set (dict_keys (prod_agent_paths s))" "retired \<notin> set (dict_keys (prod_active_work s))"
      by (auto simp: find_Some_iff tracks_target_def)
    note a = agents_ok_retire [OF prod_okD(3) [OF ok] r]
    let ?s = "s\<lparr>prod_known_agents := filter (\<lambda>t. t \<noteq> retired) (prod_known_agents s),
      prod_agent_paths := dict_pop retired (prod_agent_paths s)\<rparr>"
    have "prod_ok rep enc loose s0 (?s\<lparr>prod_active_work := prod_active_work s\<rparr>)"
      using prod_ok_agents [OF ok a(1)] by simp
    then have m: "prod_ok rep enc loose s0 (mark_correlation_incomplete ?s)" by (intro mark_prod_ok) simp
    have "prod_ok rep enc loose s0 ((mark_correlation_incomplete ?s)\<lparr>prod_known_agents :=
        List.insert target (prod_known_agents (mark_correlation_incomplete ?s))\<rparr>)"
      using a by (intro prod_ok_known [OF m] agents_ok_insert) simp_all
    then show ?thesis
      using False Some by (auto simp: admit_agent_def knows_agent_def intro!: Q)
  qed
qed

lemma wp_remember_agent:
  assumes ok: "prod_ok rep enc loose s0 s"
    and Q: "\<And>b s'. prod_ok rep enc loose s0 s' \<Longrightarrow> (b \<Longrightarrow> knows_agent target s') \<Longrightarrow>
      (\<And>i. has_correlation i s' = has_correlation i s) \<Longrightarrow> Q b s'"
  shows "wp (remember_agent target path) Q E s"
proof -
  have "wp (if knows_agent target s then ret True else admit_agent target) (\<lambda>b s'. prod_ok rep enc loose s0 s' \<and>
      (b \<longrightarrow> knows_agent target s') \<and> (\<forall>i. has_correlation i s' = has_correlation i s)) E s"
    using ok by (auto intro!: wp_admit_agent)
  then show ?thesis
    unfolding remember_agent_def
    by (auto elim!: wp_mono split: option.split
        intro!: Q prod_ok_paths agents_ok_path prod_okD(3) simp: knows_agent_def)
qed

lemma wp_record_work:
  assumes ok: "prod_ok rep enc loose s0 s"
    and Q: "\<And>b s'. prod_ok rep enc loose s0 s' \<Longrightarrow> Q b s'"
  shows "wp (record_work target turn request) Q E s"
  unfolding record_work_def wp_and_then
  by (rule wp_remember_agent [OF ok])
    (auto simp: Let_def knows_agent_def intro!: Q prod_ok_work agents_ok_work prod_okD(3))

lemma wp_finish_agent_work:
  assumes ok: "prod_ok rep enc loose s0 s"
    and Q: "\<And>b s'. prod_ok rep enc loose s0 s' \<Longrightarrow> Q b s'"
  shows "wp (finish_agent_work target turn request) Q E s"
  using ok by (auto simp: finish_agent_work_def split: option.split intro!: Q prod_ok_work agents_ok_finish prod_okD(3))

subsection \<open>Activities, invocations and retirement\<close>

lemma prod_ok_fresh: "prod_ok rep enc loose s0 s \<Longrightarrow> prod_ok rep enc loose s0 (s\<lparr>prod_parent_message := e\<rparr>)"
  by (simp add: prod_ok_def obs_wf_def retained_def tables_ok_def not_older_def)

lemma wp_required: "(x = None \<Longrightarrow> E ObserverMalformed s) \<Longrightarrow> (\<And>v. x = Some v \<Longrightarrow> Q v s) \<Longrightarrow> wp (required x) Q E s"
  by (simp add: required_def split: option.split)

lemma wp_start_agent_work:
  assumes "prod_ok rep enc loose s0 s" and Q: "\<And>b s'. prod_ok rep enc loose s0 s' \<Longrightarrow> Q b s'"
  shows "wp (start_agent_work now reader target turn request) Q E s"
  unfolding start_agent_work_def using assms(1)
  by (auto split: option.split
      intro!: wp_record_work wp_get_correlation wp_index_target mark_prod_ok change_correlation_ok Q)

lemma no_key_errorI: "prod_ok rep enc False s0 s \<Longrightarrow> e \<noteq> ObserverKeyError \<Longrightarrow> no_key_error rep enc s0 e s"
  by (simp add: no_key_error_def)

lemma wp_remember_activity_fields:
  assumes "prod_ok rep enc False s0 s" and Q: "\<And>b s'. prod_ok rep enc False s0 s' \<Longrightarrow> Q b s'"
    and E: "\<And>s'. item_field rep' ''agent_thread_id'' e = None \<or> item_field rep' ''agent_path'' e = None \<Longrightarrow>
      prod_ok rep enc False s0 s' \<Longrightarrow> E ObserverMalformed s'"
  shows "wp (remember_activity rep' now item_id e) Q E s"
  unfolding remember_activity_def using assms(1)
  by (auto intro!: wp_get_correlation wp_required wp_remember_agent wp_index_target mark_prod_ok change_correlation_ok E Q)

lemma wp_remember_activity:
  assumes "prod_ok rep enc False s0 s" and Q: "\<And>b s'. prod_ok rep enc False s0 s' \<Longrightarrow> Q b s'"
  shows "wp (remember_activity rep' now item_id e) Q (no_key_error rep enc s0) s"
  using assms(1) by (rule wp_remember_activity_fields) (auto intro: Q no_key_errorI)

lemma wp_remember_invocation_fields:
  assumes "prod_ok rep enc False s0 s" and Q: "\<And>b s'. prod_ok rep enc False s0 s' \<Longrightarrow> Q b s'"
    and E: "\<And>s'. invocation_receivers rep' e = None \<Longrightarrow> prod_ok rep enc False s0 s' \<Longrightarrow> E ObserverMalformed s'"
  shows "wp (remember_collaboration_invocation rep' enc now item_id e) Q E s"
proof -
  have retain: "prod_ok rep enc True s0 (t\<lparr>prod_invocations := dict_set (correlation_key item_id t) e (prod_invocations t)\<rparr>)"
    if t: "prod_ok rep enc False s0 t" "has_correlation item_id t" for t
  proof -
    have "correlation_key item_id t \<in> set (dict_keys (prod_correlations t))"
      using t(2) map_of_mem [of "prod_correlations t"] unfolding has_correlation_def by blast
    from index_ok_set_invocation [OF prod_okD(1) [OF t(1)] this, of e]
    show ?thesis using t(1) by (simp add: prod_ok_def tables_ok_def obs_wf_def retained_def not_older_def)
  qed
  show ?thesis
    unfolding remember_collaboration_invocation_def using assms(1)
    by (auto simp: Let_def intro!: wp_get_correlation wp_required wp_index_targets wp_read_correlation
        wp_enforce_payload_bounds [OF retain] change_correlation_ok E Q)
qed

lemma wp_remember_collaboration_invocation:
  assumes "prod_ok rep enc False s0 s" and Q: "\<And>b s'. prod_ok rep enc False s0 s' \<Longrightarrow> Q b s'"
  shows "wp (remember_collaboration_invocation rep' enc now item_id e) Q (no_key_error rep enc s0) s"
  using assms(1) by (rule wp_remember_invocation_fields) (auto intro: Q no_key_errorI)

lemma settle_pop_ok:
  "prod_ok rep enc loose s0 s \<Longrightarrow> prod_ok rep enc loose s0 (s\<lparr>prod_invocations := dict_pop k (prod_invocations s)\<rparr>)"
  by (auto simp: prod_ok_def tables_ok_def obs_wf_def retained_def not_older_def payloads_ok_pop index_ok_pop_invocation)

lemma wp_settle_correlation:
  assumes "prod_ok rep enc loose s0 s" and Q: "\<And>s'. prod_ok rep enc loose s0 s' \<Longrightarrow> Q () s'"
  shows "wp (settle_correlation now item_id) Q E s"
  unfolding settle_correlation_def using assms(1) by (auto intro!: wp_get_correlation settle_pop_ok Q)

lemma wp_complete_activity:
  assumes "prod_ok rep enc loose s0 s" and Q: "\<And>s'. prod_ok rep enc loose s0 s' \<Longrightarrow> Q () s'"
  shows "wp (complete_activity now item_id target) Q E s"
  unfolding complete_activity_def using assms(1)
  by (auto intro!: wp_get_correlation wp_settle_correlation change_correlation_ok Q)

lemma wp_correlation_readers:
  assumes "prod_ok rep enc loose s0 s" and Q: "\<And>b s'. prod_ok rep enc loose s0 s' \<Longrightarrow> Q b s'"
  shows "wp (correlation_is_uncertain now item_id) Q E s" "wp (root_request_context_was_sent now item_id target) Q E s"
  unfolding correlation_is_uncertain_def root_request_context_was_sent_def using assms(1)
  by (auto intro!: wp_get_correlation Q)

lemma wp_mark_root_request_context_sent:
  assumes "prod_ok rep enc loose s0 s" and Q: "\<And>s'. prod_ok rep enc loose s0 s' \<Longrightarrow> Q () s'"
  shows "wp (mark_root_request_context_sent now item_id target) Q E s"
  unfolding mark_root_request_context_sent_def using assms(1) by (auto intro!: wp_get_correlation change_correlation_ok Q)

lemma wp_finish_target_under_all:
  assumes "prod_ok rep enc loose s0 s" and Q: "\<And>s'. prod_ok rep enc loose s0 s' \<Longrightarrow> Q () s'"
  shows "wp (finish_target_under_all now target keys) Q E s"
  using assms(1)
proof (induction keys arbitrary: s)
  case (Cons k ks)
  then show ?case
    by (auto simp: finish_target_under_def split: option.split intro!: wp_settle_correlation change_ok)
qed (simp add: Q)

lemma wp_evict:
  assumes "prod_ok rep enc loose s0 s" "dict_get (prod_correlations s) key \<noteq> None"
    and Q: "\<And>s'. prod_ok rep enc loose s0 s' \<Longrightarrow> prod_correlations s' = dict_pop key (prod_correlations s) \<Longrightarrow> Q () s'"
  shows "wp (evict_correlation key) Q E s"
proof -
  obtain c where "dict_get (prod_correlations s) key = Some c" using assms(2) by auto
  from evict_ok [OF assms(1) this] Q show ?thesis by (auto simp: wp_def)
qed

lemma wp_expire_keys:
  assumes "prod_ok rep enc loose s0 s" "distinct (dict_keys cs)" "set (dict_keys cs) \<subseteq> set (dict_keys (prod_correlations s))"
    and Q: "\<And>b s'. prod_ok rep enc loose s0 s' \<Longrightarrow> Q b s'"
  shows "wp (expire_keys now cs expired) Q E s"
  using assms(1-3)
proof (induction now cs expired arbitrary: s rule: expire_keys.induct)
  case (2 now k c rest expired)
  show ?case
  proof (cases "cor_expires_at c \<le> now")
    case True
    have "wp (evict_correlation k) (\<lambda>_. wp (expire_keys now rest True) Q E) E s"
    proof (rule wp_evict [OF "2.prems"(1)])
      show "dict_get (prod_correlations s) k \<noteq> None" using "2.prems"(3) by (auto simp: map_of_eq_None_iff)
      fix s' assume "prod_ok rep enc loose s0 s'" "prod_correlations s' = dict_pop k (prod_correlations s)"
      then show "wp (expire_keys now rest True) Q E s'"
        using "2.prems"(2,3) by (intro "2.IH"(1) [OF True]) (simp_all add: dict_pop_keys, blast)
    qed
    with True show ?thesis by simp
  next
    case False
    with "2.IH"(2) [OF False "2.prems"(1)] "2.prems"(2,3) show ?thesis by simp
  qed
qed (simp add: Q)

lemma wp_expire_protocol_state:
  assumes "prod_ok rep enc loose s0 s" and "\<And>b s'. prod_ok rep enc loose s0 s' \<Longrightarrow> Q b s'"
  shows "wp (expire_protocol_state now) Q E s"
  unfolding expire_protocol_state_def
  using assms index_okD(1) [OF prod_okD(1) [OF assms(1)]] by (auto intro!: wp_expire_keys)

subsection \<open>Publication\<close>

text \<open>The snapshot half never touches the tables.\<close>

lemma fit_snapshot_more [simp]: "observer_state.more (fit_snapshot enc s) = observer_state.more s"
proof (induction enc s rule: fit_snapshot.induct)
  case (1 enc s)
  then show ?case by (subst fit_snapshot.simps) (simp add: drop_oldest_for_size_def)
qed

lemma enforce_bounds_more [simp]: "observer_state.more (enforce_bounds s) = observer_state.more s"
proof (induction s rule: enforce_bounds.induct)
  case (1 s)
  then show ?case by (subst enforce_bounds.simps) (simp add: drop_oldest_for_count_def)
qed

lemma publish_more [simp]:
  "observer_state.more (fst (take_snapshot enc s)) = observer_state.more s"
  "observer_state.more (advance_revision s) = observer_state.more s"
  by (simp_all add: take_snapshot_def Let_def advance_revision_def)

lemma observe_event_more: "observe_event rep enc e s = (s', m) \<Longrightarrow> observer_state.more s' = observer_state.more s"
  using publish_more(1) [of enc] by (auto simp: observe_event_def Let_def take_snapshot_def split: option.splits if_splits)

lemma prune_target_more: "prune_target enc target s = Inr (s', m) \<Longrightarrow> observer_state.more s' = observer_state.more s"
  by (auto simp: prune_target_def Let_def take_snapshot_def split: if_splits)

lemma tables_more:
  "observer_state.more s' = observer_state.more s \<Longrightarrow>
    tables_ok s' = tables_ok s \<and> prod_invocations s' = prod_invocations (s :: producer)"
  by (cases s; cases s') (simp add: tables_ok_def)

lemma published_prod_ok:
  assumes "prod_ok rep enc False s0 s" "observer_state.more s' = observer_state.more s" "published_ok rep enc s'" "not_older s s'"
  shows "prod_ok rep enc False s0 s'"
  using assms tables_more [OF assms(2)] not_older_trans [of s0 s s'] by (auto simp: prod_ok_def published_ok_def)

lemma prod_ok_wf: "prod_ok rep enc loose s0 s \<Longrightarrow> obs_wf rep s"
  by (simp add: prod_ok_def)

lemma fit_published:
  assumes "obs_wf rep s" "retained s \<le> OBSERVER_SNAPSHOT_EVENT_LIMIT"
  shows "published_ok rep enc (fit_snapshot enc s) \<and> not_older s (fit_snapshot enc s)"
  using fit_snapshot_result [OF assms(1), of enc] assms(2) by (auto simp: published_ok_def same_position_def not_older_def)

text \<open>What each publishing operation promises.\<close>

lemma wp_publish_event:
  assumes "prod_ok rep enc False s0 s" "jfield e ''schema'' = JStr OBSERVER_SCHEMA"
    and "\<And>s'. prod_ok rep enc False s0 s' \<Longrightarrow> published_ok rep enc s' \<Longrightarrow> Q (snapshot_value s') s'"
  shows "wp (publish_event rep enc e) Q E s"
proof -
  obtain s' m where r: "observe_event rep enc e s = (s', m)" by (rule prod.exhaust)
  from observe_event_result [OF prod_ok_wf [OF assms(1)] assms(2) r] observe_event_more [OF r] assms(1,3)
  show ?thesis by (auto simp: wp_def publish_event_def r intro: published_prod_ok newer_not_older)
qed

lemma wp_lift_prune_named:
  assumes "prod_ok rep enc False s0 s"
    and "\<And>s'. prod_ok rep enc False s0 s' \<Longrightarrow> published_ok rep enc s' \<Longrightarrow> Q (snapshot_value s') s'"
    and E: "target = [] \<Longrightarrow> E ObserverEmptyTarget s"
  shows "wp (lift_prune enc target) Q E s"
proof (cases "prune_target enc target s")
  case (Inl e)
  then have "e = ObserverEmptyTarget" "target = []" by (simp_all add: prune_target_def split: if_splits)
  with Inl E show ?thesis by (simp add: wp_def lift_prune_def)
next
  case (Inr r)
  obtain s' m where r: "prune_target enc target s = Inr (s', m)" using Inr by (cases r) simp
  from prune_target_result [OF prod_ok_wf [OF assms(1)] r] prune_target_more [OF r] assms
  show ?thesis by (auto simp: wp_def lift_prune_def r intro: published_prod_ok newer_not_older)
qed

lemma wp_lift_prune:
  assumes "prod_ok rep enc False s0 s"
    and "\<And>s'. prod_ok rep enc False s0 s' \<Longrightarrow> published_ok rep enc s' \<Longrightarrow> Q (snapshot_value s') s'"
  shows "wp (lift_prune enc target) Q (no_key_error rep enc s0) s"
  by (rule wp_lift_prune_named [OF assms(1)]) (use assms in \<open>auto intro: no_key_errorI\<close>)

lemma wp_prune_protocol_target_named:
  assumes "prod_ok rep enc False s0 s"
    and "\<And>s'. prod_ok rep enc False s0 s' \<Longrightarrow> published_ok rep enc s' \<Longrightarrow> Q (snapshot_value s') s'"
    and E: "\<And>s'. target = [] \<Longrightarrow> prod_ok rep enc False s0 s' \<Longrightarrow> E ObserverEmptyTarget s'"
  shows "wp (prune_protocol_target enc now target) Q E s"
  unfolding prune_protocol_target_def using assms
  by (auto intro!: wp_finish_agent_work wp_finish_target_under_all wp_lift_prune_named)

lemma wp_prune_protocol_target:
  assumes "prod_ok rep enc False s0 s"
    and "\<And>s'. prod_ok rep enc False s0 s' \<Longrightarrow> published_ok rep enc s' \<Longrightarrow> Q (snapshot_value s') s'"
  shows "wp (prune_protocol_target enc now target) Q (no_key_error rep enc s0) s"
  by (rule wp_prune_protocol_target_named [OF assms(1)]) (auto intro: assms(2) no_key_errorI)

lemma wp_publish_snapshot:
  assumes "prod_ok rep enc False s0 s"
    and "\<And>s'. prod_ok rep enc False s0 s' \<Longrightarrow> published_ok rep enc s' \<Longrightarrow> Q (snapshot_value s') s'"
  shows "wp (publish_snapshot enc) Q E s"
proof -
  have "published_ok rep enc (fit_snapshot enc s) \<and> not_older s (fit_snapshot enc s)"
    using assms(1) by (intro fit_published) (auto simp: prod_ok_def)
  moreover from this have "prod_ok rep enc False s0 (fit_snapshot enc s)"
    by (intro published_prod_ok [OF assms(1)]) auto
  ultimately show ?thesis using assms(2) by (simp add: wp_def publish_snapshot_def take_snapshot_def Let_def)
qed

lemma cleared_ok: "tables_ok (clear_protocol_state s)" "payloads_ok enc (prod_invocations (clear_protocol_state s))"
  by (simp_all add: tables_ok_def clear_protocol_state_def index_ok_def indexed_def agents_ok_def payloads_ok_def)

lemma wp_reset_epoch:
  assumes "prod_ok rep enc False s0 s"
    and "\<And>s'. prod_ok rep enc False s0 s' \<Longrightarrow> published_ok rep enc s' \<Longrightarrow> Q (snapshot_value s') s'"
  shows "wp (reset_epoch enc) Q E s"
proof -
  let ?s = "clear_protocol_state (reset_events s)"
  have s: "obs_wf rep ?s" "retained ?s = 0" "not_older s0 ?s"
    using assms(1)
    by (auto simp: prod_ok_def obs_wf_def clear_protocol_state_def reset_events_def clear_events_def events_ok_def retained_def not_older_def)
  then have ok: "prod_ok rep enc False s0 ?s" using cleared_ok by (simp add: prod_ok_def)
  have "wp (publish_snapshot enc) Q E ?s" using ok assms(2) by (rule wp_publish_snapshot)
  then show ?thesis by (simp add: wp_def publish_snapshot_def reset_epoch_def)
qed

lemma discard_ok:
  assumes "prod_ok rep enc False s0 s"
  shows "prod_ok rep enc False s0 (clear_protocol_state (clear_events s))"
proof -
  have "obs_wf rep (clear_protocol_state (clear_events s))" "retained (clear_protocol_state (clear_events s)) = 0"
    "not_older s0 (clear_protocol_state (clear_events s))"
    using assms by (auto simp: prod_ok_def obs_wf_def clear_protocol_state_def clear_events_def events_ok_def retained_def not_older_def)
  with cleared_ok show ?thesis by (simp add: prod_ok_def)
qed

subsection \<open>Every sequence of operations\<close>

text \<open>A call of the producer by its owner, with the clock reading and the turn reader it sees.\<close>

datatype observer_call =
    BindRoot pystr
  | StartWork rat turn_reader pystr "pystr option" "pystr option"
  | FinishWork pystr "pystr option" "pystr option"
  | ParentMessage "event option"
  | RememberActivity rat pystr event
  | RememberInvocation rat pystr event
  | ReadUncertain rat pystr
  | ReadContextSent rat pystr pystr
  | MarkContextSent rat pystr pystr
  | CompleteActivity rat pystr pystr
  | SettleCorrelation rat pystr
  | PruneProtocolTarget rat pystr
  | PruneTarget pystr
  | ExpireState rat
  | ObserveEvent event
  | ResetEpoch
  | DiscardState
  | TakeSnapshot

definition silent :: "'a producer_action \<Rightarrow> message option producer_action" where
  "silent m = and_then m (\<lambda>_. ret None)"

definition publishing :: "message producer_action \<Rightarrow> message option producer_action" where
  "publishing m = and_then m (\<lambda>x. ret (Some x))"

fun perform :: "(json \<Rightarrow> pystr) \<Rightarrow> (message \<Rightarrow> nat) \<Rightarrow> observer_call \<Rightarrow> message option producer_action" where
  "perform rep enc (BindRoot r) = silent (observer_bind_root_thread r)"
| "perform rep enc (StartWork now reader t turn request) = silent (start_agent_work now reader t turn request)"
| "perform rep enc (FinishWork t turn request) = silent (finish_agent_work t turn request)"
| "perform rep enc (ParentMessage e) = silent (remember_parent_user_message e)"
| "perform rep enc (RememberActivity now i e) = silent (remember_activity rep now i e)"
| "perform rep enc (RememberInvocation now i e) = silent (remember_collaboration_invocation rep enc now i e)"
| "perform rep enc (ReadUncertain now i) = silent (correlation_is_uncertain now i)"
| "perform rep enc (ReadContextSent now i t) = silent (root_request_context_was_sent now i t)"
| "perform rep enc (MarkContextSent now i t) = silent (mark_root_request_context_sent now i t)"
| "perform rep enc (CompleteActivity now i t) = silent (complete_activity now i t)"
| "perform rep enc (SettleCorrelation now i) = silent (settle_correlation now i)"
| "perform rep enc (PruneProtocolTarget now t) = publishing (prune_protocol_target enc now t)"
| "perform rep enc (PruneTarget t) = publishing (lift_prune enc t)"
| "perform rep enc (ExpireState now) = silent (expire_protocol_state now)"
| "perform rep enc (ObserveEvent e) = publishing (publish_event rep enc e)"
| "perform rep enc ResetEpoch = publishing (reset_epoch enc)"
| "perform rep enc DiscardState = silent discard_producer_state"
| "perform rep enc TakeSnapshot = publishing (publish_snapshot enc)"

text \<open>The events given to \<^verbatim>\<open>observe\<close> are projected: they carry the observer schema.\<close>

fun projected :: "observer_call \<Rightarrow> bool" where
  "projected (ObserveEvent e) = (jfield e ''schema'' = JStr OBSERVER_SCHEMA)"
| "projected _ = True"

definition good_result :: "(json \<Rightarrow> pystr) \<Rightarrow> (message \<Rightarrow> nat) \<Rightarrow> producer \<Rightarrow> message option \<Rightarrow> producer \<Rightarrow> bool" where
  "good_result rep enc s0 m s \<longleftrightarrow>
     prod_ok rep enc False s0 s \<and> (m = None \<or> m = Some (snapshot_value s) \<and> published_ok rep enc s)"

lemma wp_silent_ok: "wp m (\<lambda>_. prod_ok rep enc False s0) E s \<Longrightarrow> wp (silent m) (good_result rep enc s0) E s"
  by (auto simp: silent_def good_result_def elim!: wp_mono)

lemma wp_publishing_ok:
  "wp m (\<lambda>x s'. good_result rep enc s0 (Some x) s') E s \<Longrightarrow> wp (publishing m) (good_result rep enc s0) E s"
  by (simp add: publishing_def)

lemma good_publication: "prod_ok rep enc False s0 s \<Longrightarrow> published_ok rep enc s \<Longrightarrow> good_result rep enc s0 (Some (snapshot_value s)) s"
  by (simp add: good_result_def)

lemma wp_perform:
  assumes "prod_ok rep enc False s0 s" "projected call"
  shows "wp (perform rep enc call) (good_result rep enc s0) (no_key_error rep enc s0) s"
proof (cases call)
  case (BindRoot r)
  have "prod_ok rep enc False s0 (s\<lparr>prod_root_thread_id := x\<rparr>)" for x
    using assms(1) by (simp add: prod_ok_def obs_wf_def retained_def tables_ok_def not_older_def)
  with BindRoot assms(1) show ?thesis
    by (auto simp: observer_bind_root_thread_def intro!: wp_silent_ok no_key_errorI)
next
  case (ParentMessage e)
  with assms(1) show ?thesis by (auto simp: remember_parent_user_message_def intro!: wp_silent_ok prod_ok_fresh)
next
  case DiscardState
  with assms(1) show ?thesis by (auto simp: discard_producer_state_def intro!: wp_silent_ok discard_ok)
qed (use assms in \<open>auto intro!: wp_silent_ok wp_publishing_ok good_publication wp_start_agent_work wp_finish_agent_work
  wp_remember_activity wp_remember_collaboration_invocation wp_correlation_readers wp_mark_root_request_context_sent
  wp_complete_activity wp_settle_correlation wp_prune_protocol_target wp_lift_prune wp_expire_protocol_state
  wp_publish_event wp_reset_epoch wp_publish_snapshot\<close>)

fun perform_all :: "(json \<Rightarrow> pystr) \<Rightarrow> (message \<Rightarrow> nat) \<Rightarrow> observer_call list \<Rightarrow> producer \<Rightarrow> producer \<times> (observer_error + message option) list" where
  "perform_all rep enc [] s = (s, [])"
| "perform_all rep enc (call # calls) s =
     (case perform rep enc call s of (s1, r) \<Rightarrow> (case perform_all rep enc calls s1 of (s2, rs) \<Rightarrow> (s2, r # rs)))"

lemma prod_inv_of_ok: "prod_ok rep enc False s0 s \<Longrightarrow> prod_inv rep enc s"
  by (simp add: prod_ok_def prod_inv_def)

lemma perform_result:
  assumes "prod_inv rep enc s" "projected call" "perform rep enc call s = (s', r)"
  shows "prod_inv rep enc s' \<and> not_older s s' \<and> r \<noteq> Inl ObserverKeyError \<and>
    (\<forall>m. r = Inr (Some m) \<longrightarrow> m = snapshot_value s' \<and> published_ok rep enc s')"
proof -
  from wp_perform [OF prod_inv_ok [OF assms(1)] assms(2)] assms(3)
  have "prod_ok rep enc False s s' \<and> r \<noteq> Inl ObserverKeyError \<and>
      (\<forall>m. r = Inr (Some m) \<longrightarrow> m = snapshot_value s' \<and> published_ok rep enc s')"
    by (auto simp: wp_def no_key_error_def good_result_def split: sum.splits)
  then show ?thesis using prod_inv_of_ok by (auto simp: prod_ok_def)
qed

lemma new_producer_inv: "prod_inv rep enc new_producer"
  by (simp add: prod_inv_def new_producer_def obs_wf_def events_ok_def retained_def tables_ok_def index_ok_def indexed_def
      agents_ok_def payloads_ok_def)

definition published :: "(observer_error + message option) list \<Rightarrow> message list" where
  "published rs = List.map_filter (\<lambda>r. case r of Inl _ \<Rightarrow> None | Inr m \<Rightarrow> m) rs"

lemma published_simps [simp]:
  "published [] = []" "published (Inl e # rs) = published rs" "published (Inr None # rs) = published rs"
  "published (Inr (Some m) # rs) = m # published rs"
  by (simp_all add: published_def map_filter_simps)

definition snapshot_fits :: "(message \<Rightarrow> nat) \<Rightarrow> message \<Rightarrow> bool" where
  "snapshot_fits enc m \<longleftrightarrow>
     enc m \<le> OBSERVER_SNAPSHOT_MAX_BYTES \<or>
     jfield m ''state'' = JDict [(lit ''events'', JList []), (lit ''tombstones'', JList []), (lit ''removedTargetThreadIds'', JList [])]"

lemma published_fits: "published_ok rep enc s \<Longrightarrow> snapshot_fits enc (snapshot_value s)"
  by (auto simp: published_ok_def snapshot_fits_def retained_def snapshot_value_def jfield_def)

lemma perform_all_result:
  "prod_inv rep enc s \<Longrightarrow> list_all projected calls \<Longrightarrow> perform_all rep enc calls s = (s', rs) \<Longrightarrow>
    prod_inv rep enc s' \<and> Inl ObserverKeyError \<notin> set rs \<and> list_all (snapshot_fits enc) (published rs)"
proof (induction calls arbitrary: s rs)
  case (Cons call calls)
  obtain s1 r where p: "perform rep enc call s = (s1, r)" by (rule prod.exhaust)
  obtain rs' where rs: "perform_all rep enc calls s1 = (s', rs')" "rs = r # rs'"
    using Cons.prems(3) p by (auto split: prod.splits)
  have r: "prod_inv rep enc s1" "r \<noteq> Inl ObserverKeyError"
      "\<And>m. r = Inr (Some m) \<Longrightarrow> snapshot_fits enc m"
    using perform_result [OF Cons.prems(1) _ p] Cons.prems(2) published_fits by auto
  with Cons.IH [OF r(1) _ rs(1)] Cons.prems(2) rs(2) show ?case
    by (cases r; cases "projr r") auto
qed simp

definition producer_step ::
  "(json \<Rightarrow> pystr) \<Rightarrow> (message \<Rightarrow> nat) \<Rightarrow> producer \<Rightarrow> observer_call \<Rightarrow> producer \<times> message option" where
  "producer_step rep enc s call = (case perform rep enc call s of (s', Inl _) \<Rightarrow> (s', None) | (s', Inr m) \<Rightarrow> (s', m))"

lemma producer_step_result:
  assumes "prod_inv rep enc s" "projected call" "producer_step rep enc s call = (s', m)"
  shows "prod_inv rep enc s' \<and> not_older s s' \<and> (\<forall>x. m = Some x \<longrightarrow> x = snapshot_value s' \<and> published_ok rep enc s')"
proof -
  obtain s1 r where p: "perform rep enc call s = (s1, r)" by (rule prod.exhaust)
  with assms(3) perform_result [OF assms(1,2) p] show ?thesis by (cases r) (auto simp: producer_step_def)
qed

interpretation observed: snapshot_publisher "producer_step rep enc" rep projected "prod_inv rep enc" for rep enc
proof unfold_locales
  fix s :: producer and e assume s: "prod_inv rep enc s" "projected e"
  note r = producer_step_result [OF s, of "fst (producer_step rep enc s e)" "snd (producer_step rep enc s e)"]
  show "prod_inv rep enc (fst (producer_step rep enc s e))" "not_older s (fst (producer_step rep enc s e))" using r by auto
next
  fix s :: producer assume "prod_inv rep enc s"
  then show "obs_wf rep s" by (simp add: prod_inv_def)
next
  fix s s' :: producer and e m assume "prod_inv rep enc s" "projected e" "producer_step rep enc s e = (s', Some m)"
  from producer_step_result [OF this]
  show "m = snapshot_value s' \<and> retained s' \<le> OBSERVER_SNAPSHOT_EVENT_LIMIT" by (auto simp: published_ok_def)
qed

lemma published_run:
  "prod_inv rep enc s \<Longrightarrow> list_all projected calls \<Longrightarrow>
    published (snd (perform_all rep enc calls s)) = map snapshot_value (observed.run rep enc s calls)"
proof (induction calls arbitrary: s)
  case (Cons call calls)
  obtain s1 r where p: "perform rep enc call s = (s1, r)" by (rule prod.exhaust)
  have r: "prod_inv rep enc s1" "\<And>m. r = Inr (Some m) \<Longrightarrow> m = snapshot_value s1"
    using perform_result [OF Cons.prems(1) _ p] Cons.prems(2) by auto
  have st: "producer_step rep enc s call = (s1, case r of Inl _ \<Rightarrow> None | Inr m \<Rightarrow> m)"
    by (simp add: producer_step_def p split: sum.split)
  have IH: "published (snd (perform_all rep enc calls s1)) = map snapshot_value (observed.run rep enc s1 calls)"
    using Cons.IH [OF r(1)] Cons.prems(2) by simp
  have "snd (perform_all rep enc (call # calls) s) = r # snd (perform_all rep enc calls s1)"
    using p by (simp split: prod.split)
  then show ?case
    using st IH r(2) by (cases r; cases "projr r") auto
qed simp

lemma subseq_map_ex: "subseq ys (map f xs) \<Longrightarrow> \<exists>zs. ys = map f zs \<and> subseq zs xs"
proof (induction xs arbitrary: ys)
  case (Cons x xs)
  show ?case
  proof (cases ys)
    case (Cons y ys')
    show ?thesis
    proof (cases "y = f x")
      case True
      with Cons Cons.prems have "subseq ys' (map f xs)" by simp
      with Cons.IH obtain zs where "ys' = map f zs" "subseq zs xs" by blast
      with Cons True show ?thesis by (intro exI [of _ "x # zs"]) simp
    next
      case False
      with Cons Cons.prems have "subseq ys (map f xs)" by simp
      with Cons.IH obtain zs where "ys = map f zs" "subseq zs xs" by blast
      then show ?thesis by (intro exI [of _ zs]) (simp add: list_emb_Cons)
    qed
  qed auto
qed (use list_emb_Nil2 in fastforce)

subsection \<open>Properties\<close>


definition demo_observed_event :: event where
  "demo_observed_event =
     [(lit ''schema'', JStr OBSERVER_SCHEMA), (lit ''kind'', JStr (lit ''agent_work_started'')), (lit ''thread_id'', JStr (lit ''r'')),
      (lit ''target_thread_id'', JStr (lit ''t'')), (lit ''method'', JStr (lit ''item/started'')),
      (lit ''item'', JDict [(lit ''receiver_thread_ids'', JList [JStr (lit ''t'')])])]"

definition demo_observed_calls :: "observer_call list" where
  "demo_observed_calls =
     [BindRoot (lit ''r''), RememberInvocation 0 (lit ''i'') demo_observed_event, ObserveEvent demo_observed_event,
      PruneProtocolTarget 1 (lit ''t''), ExpireState 400, ResetEpoch, TakeSnapshot]"

lemma demo_calls_projected: "list_all projected demo_observed_calls" "projected (ObserveEvent demo_observed_event)"
  by (simp_all add: demo_observed_calls_def demo_observed_event_def jfield_def)


text \<open>Property C24. Whatever part of the published snapshots reaches a fresh consumer, in order and with any
  losses, the consumer ends in the state of a delivered snapshot, at the epoch and revision of the
  last one.\<close>

theorem observer_consumer_follows:
  assumes "list_all projected calls" "subseq delivered (published (snd (perform_all rep enc calls new_producer)))" "delivered \<noteq> []"
  shows "let c = foldl (\<lambda>c m. fst (consume_snapshot rep m c)) initial_consumer delivered in
    snapshot_value c \<in> set delivered \<and> jfield (last delivered) ''epoch'' = JInt (obs_epoch c) \<and>
    jfield (last delivered) ''revision'' = JInt (obs_revision c)"
proof -
  obtain states where st: "delivered = map snapshot_value states" "subseq states (observed.run rep enc new_producer calls)"
    using assms(2) published_run [OF new_producer_inv assms(1)] subseq_map_ex by metis
  then have ne: "states \<noteq> []" using assms(3) by auto
  have "obs_epoch initial_consumer < obs_epoch new_producer" by (simp add: initial_consumer_def new_producer_def)
  then obtain u where u: "u \<in> set states" "obs_epoch u = obs_epoch (last states)" "obs_revision u = obs_revision (last states)"
      "foldl (\<lambda>c t. fst (consume_snapshot rep (snapshot_value t) c)) initial_consumer states = observer_state.truncate u"
    using observed.consumer_follows [OF new_producer_inv assms(1) st(2) ne] by blast
  have "snapshot_value (observer_state.truncate u) = snapshot_value u"
    by (simp add: snapshot_value_def observer_state.truncate_def)
  moreover have "foldl (\<lambda>c m. fst (consume_snapshot rep m c)) initial_consumer delivered = observer_state.truncate u"
    using u(4) st(1) by (simp add: foldl_map)
  ultimately show ?thesis
    using u(1-3) st(1) ne by (simp add: Let_def last_map observer_state.truncate_def)
qed

lemma demo_published: "published (snd (perform_all (\<lambda>_. []) (\<lambda>_. 0) [TakeSnapshot] new_producer)) = [snapshot_value new_producer]"
  by (simp add: publishing_def publish_snapshot_def take_snapshot_def and_then_def fit_snapshot.simps split: prod.split)

theorem observer_consumer_follows_witness:
  "snapshot_value (foldl (\<lambda>c m. fst (consume_snapshot (\<lambda>_. []) m c)) initial_consumer [snapshot_value new_producer]) \<in>
    {snapshot_value new_producer}"
  using observer_consumer_follows [of "[TakeSnapshot]" "[snapshot_value new_producer]" "\<lambda>_. []" "\<lambda>_. 0"]
  by (simp add: demo_published Let_def del: foldl.simps perform_all.simps)

text \<open>The snapshot of any state the producer can reach is read back by the consumer's parser as
  exactly that state: keys, order, removed targets and the count of dropped events.\<close>

theorem observer_snapshot_round_trip:
  assumes "list_all projected calls" "perform_all rep enc calls new_producer = (s, rs)"
  shows "parse_snapshot rep (snapshot_value s) =
    Some \<lparr>parsed_epoch = obs_epoch s, parsed_revision = obs_revision s, parsed_active = obs_active s,
      parsed_tombstones = obs_tombstones s, parsed_removed = obs_removed_targets s, parsed_dropped = obs_dropped_event_count s\<rparr>"
  using perform_all_result [OF new_producer_inv assms] by (intro parse_snapshot_value) (auto simp: prod_inv_def)

theorem observer_snapshot_round_trip_witness:
  "parse_snapshot (\<lambda>_. []) (snapshot_value (fst (perform_all (\<lambda>_. []) length demo_observed_calls new_producer))) \<noteq> None"
  using observer_snapshot_round_trip [OF demo_calls_projected(1), of "\<lambda>_. []" length, OF prod.collapse [symmetric]] by simp

end
