(* ===== verification/Identity_Codec.thy ===== *)
theory Identity_Codec
  imports Prelude
begin

section \<open>Identities\<close>

text \<open>
  \<^verbatim>\<open>src/rodex_registry/identity.py\<close>: 64-bit Rodex identifiers in three domains, 128-bit Codex
  identifiers, their canonical texts, and the signed 64-bit integers that the database stores.
  Identifiers are integers; the tests that refuse a value of another type are the types here.
  \<^verbatim>\<open>generate\<close> draws a value below the limit and is not modelled.
\<close>

definition UNSIGNED_64_LIMIT :: int where
  "UNSIGNED_64_LIMIT = 2 ^ 64"

definition SIGNED_64_MIN :: int where
  "SIGNED_64_MIN = - (2 ^ 63)"

definition SIGNED_64_MAX :: int where
  "SIGNED_64_MAX = 2 ^ 63 - 1"

datatype id_domain = RodexSessionDomain | RodexRuntimeDomain | RodexRegistryDomain

datatype codex_domain = SessionUuid | ThreadUuid | TurnUuid | ItemUuid

datatype identity_error =
    NotUnsigned64 id_domain
  | NotCanonicalText id_domain
  | OutsideSigned64 id_domain
  | HalfNotUnsigned64
  | HalfOutsideSigned64
  | NotUuid codex_domain
  | NotCanonicalUuid codex_domain

record rodex_id =
  id_domain_of :: id_domain
  id_value :: int

subsection \<open>Hexadecimal text\<close>

definition hex_digit :: "int \<Rightarrow> nat" where
  "hex_digit d = (if d < 10 then 48 + nat d else 87 + nat d)"

definition is_lower_hex :: "nat \<Rightarrow> bool" where
  "is_lower_hex c \<longleftrightarrow> 48 \<le> c \<and> c \<le> 57 \<or> 97 \<le> c \<and> c \<le> 102"

definition is_hex :: "nat \<Rightarrow> bool" where
  "is_hex c \<longleftrightarrow> is_lower_hex c \<or> 65 \<le> c \<and> c \<le> 70"

definition hex_value :: "nat \<Rightarrow> int" where
  "hex_value c = (if c \<le> 57 then int c - 48 else if c \<le> 70 then int c - 55 else int c - 87)"

text \<open>\<^verbatim>\<open>f"{v:x}"\<close> for a non-negative value, \<^verbatim>\<open>f"{v:0wx}"\<close> and \<^verbatim>\<open>int(text, 16)\<close> on hexadecimal digits.\<close>

function hex_text :: "int \<Rightarrow> pystr" where
  "hex_text v = (if v < 16 then [hex_digit v] else hex_text (v div 16) @ [hex_digit (v mod 16)])"
  by pat_completeness auto
termination
  by (relation "measure nat") auto

declare hex_text.simps [simp del]

definition hex_padded :: "nat \<Rightarrow> int \<Rightarrow> pystr" where
  "hex_padded w v = replicate (w - length (hex_text v)) 48 @ hex_text v"

definition int_of_hex :: "pystr \<Rightarrow> int" where
  "int_of_hex s = foldl (\<lambda>acc c. acc * 16 + hex_value c) 0 s"

subsection \<open>Rodex identifiers\<close>

definition make_id :: "id_domain \<Rightarrow> int \<Rightarrow> identity_error + rodex_id" where
  "make_id dm v =
     (if 0 \<le> v \<and> v < UNSIGNED_64_LIMIT then Inr \<lparr>id_domain_of = dm, id_value = v\<rparr> else Inl (NotUnsigned64 dm))"

definition parse_id :: "id_domain \<Rightarrow> pystr \<Rightarrow> identity_error + rodex_id" where
  "parse_id dm s =
     (if length s = 16 \<and> list_all is_lower_hex s then make_id dm (int_of_hex s) else Inl (NotCanonicalText dm))"

definition from_signed_bigint :: "id_domain \<Rightarrow> int \<Rightarrow> identity_error + rodex_id" where
  "from_signed_bigint dm stored =
     (if SIGNED_64_MIN \<le> stored \<and> stored \<le> SIGNED_64_MAX then make_id dm (stored mod UNSIGNED_64_LIMIT)
      else Inl (OutsideSigned64 dm))"

definition as_signed_bigint :: "rodex_id \<Rightarrow> int" where
  "as_signed_bigint i = (if id_value i \<le> SIGNED_64_MAX then id_value i else id_value i - UNSIGNED_64_LIMIT)"

definition id_text :: "rodex_id \<Rightarrow> pystr" where
  "id_text i = hex_padded 16 (id_value i)"

subsection \<open>Codex identifiers\<close>

text \<open>\<^verbatim>\<open>str(uuid)\<close>: 32 digits in groups of 8, 4, 4, 4 and 12.\<close>

definition uuid_text :: "int \<Rightarrow> pystr" where
  "uuid_text v =
     (let h = hex_padded 32 v in
      take 8 h @ 45 # take 4 (drop 8 h) @ 45 # take 4 (drop 12 h) @ 45 # take 4 (drop 16 h) @ 45 # drop 20 h)"

text \<open>\<^verbatim>\<open>s.replace(p, "")\<close>.\<close>

function py_delete :: "pystr \<Rightarrow> pystr \<Rightarrow> pystr" where
  "py_delete p s =
     (if s = [] \<or> p = [] then s
      else if py_startswith s p then py_delete p (drop (length p) s)
      else hd s # py_delete p (tl s))"
  by pat_completeness auto
termination
  by (relation "measure (\<lambda>(p, s). length s)") auto

declare py_delete.simps [simp del]

text \<open>
  \<^verbatim>\<open>uuid.UUID(text)\<close> drops \<^verbatim>\<open>urn:\<close>, \<^verbatim>\<open>uuid:\<close>, outer braces and hyphens and reads 32 hexadecimal
  digits. \<^verbatim>\<open>int(text, 16)\<close> also reads signs, underscores and digits of other scripts, which the
  comparison with the canonical text then refuses; here they are refused at once.
\<close>

definition uuid_int :: "pystr \<Rightarrow> int option" where
  "uuid_int s =
     (let brace = (\<lambda>c. c = 123 \<or> c = 125);
          body = py_delete (lit ''uuid:'') (py_delete (lit ''urn:'') s);
          digits = filter (\<lambda>c. c \<noteq> 45) (rev (dropWhile brace (rev (dropWhile brace body))))
      in if length digits = 32 \<and> list_all is_hex digits then Some (int_of_hex digits) else None)"

definition parse_codex_uuid :: "codex_domain \<Rightarrow> pystr \<Rightarrow> identity_error + int" where
  "parse_codex_uuid dm s =
     (case uuid_int s of
        None \<Rightarrow> Inl (NotUuid dm)
      | Some v \<Rightarrow> if uuid_text v \<noteq> s then Inl (NotCanonicalUuid dm) else Inr v)"

definition unsigned_64_to_signed :: "int \<Rightarrow> identity_error + int" where
  "unsigned_64_to_signed v =
     (if \<not> (0 \<le> v \<and> v < UNSIGNED_64_LIMIT) then Inl HalfNotUnsigned64
      else Inr (if v \<le> SIGNED_64_MAX then v else v - UNSIGNED_64_LIMIT))"

definition signed_64_to_unsigned :: "int \<Rightarrow> identity_error + int" where
  "signed_64_to_unsigned v =
     (if \<not> (SIGNED_64_MIN \<le> v \<and> v \<le> SIGNED_64_MAX) then Inl HalfOutsideSigned64 else Inr (v mod UNSIGNED_64_LIMIT))"

definition split_uuid :: "int \<Rightarrow> identity_error + (int \<times> int)" where
  "split_uuid v =
     (case unsigned_64_to_signed (v div 2 ^ 64) of
        Inl e \<Rightarrow> Inl e
      | Inr high \<Rightarrow> (case unsigned_64_to_signed (v mod UNSIGNED_64_LIMIT) of Inl e \<Rightarrow> Inl e | Inr low \<Rightarrow> Inr (high, low)))"

definition join_uuid :: "int \<Rightarrow> int \<Rightarrow> identity_error + int" where
  "join_uuid high low =
     (case signed_64_to_unsigned high of
        Inl e \<Rightarrow> Inl e
      | Inr h \<Rightarrow> (case signed_64_to_unsigned low of Inl e \<Rightarrow> Inl e | Inr l \<Rightarrow> Inr (h * 2 ^ 64 + l)))"

definition split_codex_id :: "codex_domain \<Rightarrow> pystr \<Rightarrow> identity_error + (int \<times> int)" where
  "split_codex_id dm s = (case parse_codex_uuid dm s of Inl e \<Rightarrow> Inl e | Inr v \<Rightarrow> split_uuid v)"

subsection \<open>Text round trips\<close>

lemma hex_digit_value: "0 \<le> d \<Longrightarrow> d < 16 \<Longrightarrow> hex_value (hex_digit d) = d"
  by (auto simp: hex_digit_def hex_value_def)

lemma hex_digit_lower: "0 \<le> d \<Longrightarrow> d < 16 \<Longrightarrow> is_lower_hex (hex_digit d)"
  by (auto simp: hex_digit_def is_lower_hex_def)

lemma hex_value_range: "is_lower_hex c \<Longrightarrow> 0 \<le> hex_value c \<and> hex_value c < 16 \<and> hex_digit (hex_value c) = c"
  by (auto simp: hex_digit_def hex_value_def is_lower_hex_def)

lemma int_of_hex_append [simp]: "int_of_hex (s @ [c]) = int_of_hex s * 16 + hex_value c"
  by (simp add: int_of_hex_def)

lemma int_of_hex_Nil [simp]: "int_of_hex [] = 0"
  by (simp add: int_of_hex_def)

lemma int_of_hex_zeros: "int_of_hex (replicate n 48 @ s) = int_of_hex s"
  by (induction n) (simp_all add: int_of_hex_def hex_value_def)

text \<open>The digits of a value at a fixed width.\<close>

fun hex_fixed :: "nat \<Rightarrow> int \<Rightarrow> pystr" where
  "hex_fixed 0 v = []"
| "hex_fixed (Suc w) v = hex_fixed w (v div 16) @ [hex_digit (v mod 16)]"

lemma length_hex_fixed [simp]: "length (hex_fixed w v) = w"
  by (induction w arbitrary: v) auto

lemma hex_fixed_zero: "hex_fixed w 0 = replicate w 48"
  by (induction w) (auto simp: hex_digit_def replicate_append_same)

lemma hex_padded_fixed: "0 \<le> v \<Longrightarrow> v < 16 ^ w \<Longrightarrow> 0 < w \<Longrightarrow> length (hex_text v) \<le> w \<and> hex_padded w v = hex_fixed w v"
proof (induction w arbitrary: v)
  case (Suc w)
  show ?case
  proof (cases "v < 16")
    case True
    with Suc.prems(1) have "hex_fixed w (v div 16) = replicate w 48" by (simp add: hex_fixed_zero)
    with True Suc.prems show ?thesis by (simp add: hex_padded_def hex_text.simps [of v])
  next
    case False
    with Suc.prems have "0 < w" by (cases w) auto
    then have "length (hex_text (v div 16)) \<le> w \<and> hex_padded w (v div 16) = hex_fixed w (v div 16)"
      using Suc.prems(1,2) by (intro Suc.IH) (auto simp: div_less_iff_less_mult)
    with False show ?thesis by (simp add: hex_padded_def hex_text.simps [of v])
  qed
qed simp

lemma hex_fixed_lower: "list_all is_lower_hex (hex_fixed w v)"
  by (induction w arbitrary: v) (auto simp: hex_digit_lower)

lemma int_of_hex_fixed: "0 \<le> v \<Longrightarrow> v < 16 ^ w \<Longrightarrow> int_of_hex (hex_fixed w v) = v"
proof (induction w arbitrary: v)
  case (Suc w)
  have "int_of_hex (hex_fixed w (v div 16)) = v div 16"
    using Suc.prems by (intro Suc.IH) (auto simp: div_less_iff_less_mult)
  then show ?case by (simp add: hex_digit_value)
qed simp

lemma hex_fixed_int_of_hex:
  "list_all is_lower_hex s \<Longrightarrow> 0 \<le> int_of_hex s \<and> int_of_hex s < 16 ^ length s \<and> hex_fixed (length s) (int_of_hex s) = s"
proof (induction s rule: rev_induct)
  case (snoc c s)
  then have "0 \<le> hex_value c" "hex_value c < 16" "hex_digit (hex_value c) = c"
    "0 \<le> int_of_hex s" "int_of_hex s < 16 ^ length s" "hex_fixed (length s) (int_of_hex s) = s"
    using hex_value_range by auto
  then show ?case by simp
qed simp

lemma parse_id_text:
  assumes "0 \<le> id_value i" "id_value i < UNSIGNED_64_LIMIT"
  shows "parse_id (id_domain_of i) (id_text i) = Inr i"
proof -
  have v: "id_value i < 16 ^ 16" using assms(2) by (simp add: UNSIGNED_64_LIMIT_def)
  then have "id_text i = hex_fixed 16 (id_value i)"
    unfolding id_text_def using hex_padded_fixed [OF assms(1)] by simp
  then show ?thesis using assms v hex_fixed_lower [of 16 "id_value i"] int_of_hex_fixed [OF assms(1) v]
    by (simp add: parse_id_def make_id_def)
qed

lemma id_text_parse:
  assumes "parse_id dm s = Inr i"
  shows "id_text i = s \<and> id_domain_of i = dm \<and> 0 \<le> id_value i \<and> id_value i < UNSIGNED_64_LIMIT"
proof -
  have s: "length s = 16" "list_all is_lower_hex s" "make_id dm (int_of_hex s) = Inr i"
    using assms by (auto simp: parse_id_def split: if_splits)
  have h: "0 \<le> int_of_hex s" "int_of_hex s < 16 ^ 16" "hex_fixed 16 (int_of_hex s) = s"
    using hex_fixed_int_of_hex [OF s(2)] unfolding s(1) by blast+
  have "hex_padded 16 (int_of_hex s) = s" using hex_padded_fixed [OF h(1,2)] h(3) by simp
  then show ?thesis using s(3) by (auto simp: make_id_def id_text_def split: if_splits)
qed

lemma py_delete_absent: "hd p \<notin> set s \<Longrightarrow> p \<noteq> [] \<Longrightarrow> py_delete p s = s"
proof (induction s)
  case (Cons c s)
  have "\<not> py_startswith (c # s) p" using Cons.prems by (cases p) auto
  with Cons show ?case by (subst py_delete.simps) simp
qed (simp add: py_delete.simps)

lemma filter_take_drop: "filter P (drop m h) = filter P (take n (drop m h)) @ filter P (drop (n + m) h)"
  by (metis append_take_drop_id drop_drop filter_append)

lemma uuid_text_parts:
  "filter (\<lambda>c. c \<noteq> 45) (take 8 h @ 45 # take 4 (drop 8 h) @ 45 # take 4 (drop 12 h) @ 45 # take 4 (drop 16 h) @ 45 # drop 20 h)
    = filter (\<lambda>c. c \<noteq> 45) h"
  using filter_take_drop [of "\<lambda>c. c \<noteq> 45" 0 h 8] filter_take_drop [of "\<lambda>c. c \<noteq> 45" 8 h 4]
    filter_take_drop [of "\<lambda>c. c \<noteq> 45" 12 h 4] filter_take_drop [of "\<lambda>c. c \<noteq> 45" 16 h 4] by simp

lemma dropWhile_none: "list_all (\<lambda>c. \<not> P c) s \<Longrightarrow> dropWhile P s = s"
  by (cases s) auto

lemma uuid_int_text:
  assumes "0 \<le> v" "v < 2 ^ 128"
  shows "uuid_int (uuid_text v) = Some v"
proof -
  let ?h = "hex_fixed 32 v"
  have v: "v < 16 ^ 32" using assms(2) by simp
  have h: "hex_padded 32 v = ?h" using hex_padded_fixed [OF assms(1) v] by simp
  have low: "list_all is_lower_hex ?h" by (rule hex_fixed_lower)
  have "list_all (\<lambda>c. is_lower_hex c \<or> c = 45) (uuid_text v)"
    unfolding uuid_text_def h Let_def using low
    by (auto simp: list_all_iff dest!: in_set_takeD in_set_dropD)
  then have c: "\<forall>c \<in> set (uuid_text v). c \<le> 57 \<or> 97 \<le> c \<and> c \<le> 102" by (auto simp: list_all_iff is_lower_hex_def)
  have "117 \<notin> set (uuid_text v)" using c by auto
  then have "py_delete (lit ''urn:'') (uuid_text v) = uuid_text v" "py_delete (lit ''uuid:'') (uuid_text v) = uuid_text v"
    by (auto intro!: py_delete_absent simp: lit_def)
  then have d: "py_delete (lit ''uuid:'') (py_delete (lit ''urn:'') (uuid_text v)) = uuid_text v" by simp
  have b: "dropWhile (\<lambda>c. c = 123 \<or> c = 125) s = s" if "set s \<subseteq> set (uuid_text v)" for s
    using that c by (intro dropWhile_none) (fastforce simp: list_all_iff)
  have "filter (\<lambda>c. c \<noteq> 45) (uuid_text v) = filter (\<lambda>c. c \<noteq> 45) ?h"
    unfolding uuid_text_def h Let_def by (rule uuid_text_parts)
  also have "\<dots> = ?h" using low by (intro filter_True) (auto simp: list_all_iff is_lower_hex_def)
  finally have "filter (\<lambda>c. c \<noteq> 45) (uuid_text v) = ?h" .
  moreover have "list_all is_hex ?h" using low by (auto simp: list_all_iff is_hex_def)
  ultimately show ?thesis
    unfolding uuid_int_def Let_def d using b [of "uuid_text v"] b [of "rev (uuid_text v)"] int_of_hex_fixed [OF assms(1) v]
    by simp
qed

lemma int_of_hex_range:
  assumes "list_all is_hex s"
  shows "0 \<le> int_of_hex s \<and> int_of_hex s < 16 ^ length s"
  using assms
proof (induction s rule: rev_induct)
  case (snoc c s)
  then have "0 \<le> hex_value c" "hex_value c < 16" by (auto simp: is_hex_def is_lower_hex_def hex_value_def)
  with snoc show ?case by simp
qed simp

lemma parse_codex_uuid_text:
  "parse_codex_uuid dm s = Inr v \<longleftrightarrow> 0 \<le> v \<and> v < 2 ^ 128 \<and> s = uuid_text v"
proof
  assume p: "parse_codex_uuid dm s = Inr v"
  then have u: "uuid_int s = Some v" "uuid_text v = s" by (auto simp: parse_codex_uuid_def split: option.splits if_splits)
  then obtain ds where "length ds = 32" "list_all is_hex ds" "v = int_of_hex ds"
    by (auto simp: uuid_int_def Let_def split: if_splits)
  with int_of_hex_range [of ds] u(2) show "0 \<le> v \<and> v < 2 ^ 128 \<and> s = uuid_text v" by auto
qed (auto simp: parse_codex_uuid_def uuid_int_text)

subsection \<open>Stored integers\<close>

lemmas limits = UNSIGNED_64_LIMIT_def SIGNED_64_MIN_def SIGNED_64_MAX_def

lemma signed_round_trip:
  assumes "0 \<le> v" "v < UNSIGNED_64_LIMIT"
  shows "\<exists>n. unsigned_64_to_signed v = Inr n \<and> SIGNED_64_MIN \<le> n \<and> n \<le> SIGNED_64_MAX \<and> signed_64_to_unsigned n = Inr v"
proof (cases "v \<le> SIGNED_64_MAX")
  case True
  then show ?thesis using assms by (auto simp: unsigned_64_to_signed_def signed_64_to_unsigned_def limits)
next
  case False
  have "(v - UNSIGNED_64_LIMIT) mod UNSIGNED_64_LIMIT = v" using assms by simp
  then show ?thesis using False assms by (auto simp: unsigned_64_to_signed_def signed_64_to_unsigned_def limits)
qed

lemma split_join_uuid:
  assumes "0 \<le> v" "v < 2 ^ 128"
  shows "\<exists>high low. split_uuid v = Inr (high, low) \<and> SIGNED_64_MIN \<le> high \<and> high \<le> SIGNED_64_MAX \<and>
    SIGNED_64_MIN \<le> low \<and> low \<le> SIGNED_64_MAX \<and> join_uuid high low = Inr v"
proof -
  have "0 \<le> v div 2 ^ 64" "v div 2 ^ 64 < UNSIGNED_64_LIMIT"
    using assms by (auto simp: UNSIGNED_64_LIMIT_def div_less_iff_less_mult pos_imp_zdiv_nonneg_iff)
  then obtain high where high: "unsigned_64_to_signed (v div 2 ^ 64) = Inr high" "SIGNED_64_MIN \<le> high" "high \<le> SIGNED_64_MAX"
      "signed_64_to_unsigned high = Inr (v div 2 ^ 64)"
    using signed_round_trip by blast
  have "0 \<le> v mod UNSIGNED_64_LIMIT" "v mod UNSIGNED_64_LIMIT < UNSIGNED_64_LIMIT" by (simp_all add: UNSIGNED_64_LIMIT_def)
  then obtain low where low: "unsigned_64_to_signed (v mod UNSIGNED_64_LIMIT) = Inr low" "SIGNED_64_MIN \<le> low" "low \<le> SIGNED_64_MAX"
      "signed_64_to_unsigned low = Inr (v mod UNSIGNED_64_LIMIT)"
    using signed_round_trip by blast
  have "v div 2 ^ 64 * 2 ^ 64 + v mod UNSIGNED_64_LIMIT = v" unfolding UNSIGNED_64_LIMIT_def by (rule div_mult_mod_eq)
  with high low show ?thesis by (simp add: split_uuid_def join_uuid_def)
qed

lemma as_signed_round_trip:
  assumes "0 \<le> id_value i" "id_value i < UNSIGNED_64_LIMIT"
  shows "SIGNED_64_MIN \<le> as_signed_bigint i \<and> as_signed_bigint i \<le> SIGNED_64_MAX \<and>
    from_signed_bigint (id_domain_of i) (as_signed_bigint i) = Inr i"
proof -
  have "as_signed_bigint i mod UNSIGNED_64_LIMIT = id_value i" using assms by (auto simp: as_signed_bigint_def)
  then show ?thesis using assms by (auto simp: from_signed_bigint_def make_id_def as_signed_bigint_def limits)
qed

subsection \<open>Properties\<close>

text \<open>Rodex identifiers: a text is accepted exactly when it is the canonical text of an identifier of
  64 bits, which is then the result; and the stored integer of every identifier is a signed 64-bit
  integer from which the same identifier is restored.\<close>

theorem rodex_id_round_trip:
  "(parse_id dm s = Inr i \<longleftrightarrow> make_id dm (id_value i) = Inr i \<and> s = id_text i) \<and>
   (make_id dm v = Inr i \<longrightarrow> from_signed_bigint dm (as_signed_bigint i) = Inr i \<and>
      - (2 ^ 63) \<le> as_signed_bigint i \<and> as_signed_bigint i < 2 ^ 63)"
proof -
  have "parse_id dm s = Inr i \<longleftrightarrow> make_id dm (id_value i) = Inr i \<and> s = id_text i"
    using parse_id_text [of i] id_text_parse [of dm s i] by (cases i) (auto simp: make_id_def split: if_splits)
  then show ?thesis using as_signed_round_trip [of i] by (cases i) (auto simp: make_id_def limits split: if_splits)
qed

text \<open>Property C29. Codex identifiers: a text is accepted exactly when it is the canonical lower-case text of a
  128-bit number, the two stored halves are signed 64-bit integers, and joining them restores the
  number; the two texts of different numbers differ.\<close>

theorem codex_id_round_trip:
  assumes "parse_codex_uuid dm s = Inr v"
  shows "s = uuid_text v \<and> (\<forall>s'. parse_codex_uuid dm s' = Inr v \<longrightarrow> s' = s) \<and>
    (\<exists>high low. split_codex_id dm s = Inr (high, low) \<and> - (2 ^ 63) \<le> high \<and> high < 2 ^ 63 \<and> - (2 ^ 63) \<le> low \<and> low < 2 ^ 63 \<and>
      join_uuid high low = Inr v)"
proof -
  have v: "0 \<le> v" "v < 2 ^ 128" "s = uuid_text v" using assms by (simp_all add: parse_codex_uuid_text)
  from split_join_uuid [OF v(1,2)] have "\<exists>high low. split_codex_id dm s = Inr (high, low) \<and>
      - (2 ^ 63) \<le> high \<and> high < 2 ^ 63 \<and> - (2 ^ 63) \<le> low \<and> low < 2 ^ 63 \<and> join_uuid high low = Inr v"
    using assms by (auto simp: split_codex_id_def limits)
  then show ?thesis using v(3) by (simp add: parse_codex_uuid_text)
qed

theorem rodex_id_round_trip_witness:
  "make_id RodexSessionDomain (2 ^ 63) = Inr \<lparr>id_domain_of = RodexSessionDomain, id_value = 2 ^ 63\<rparr> \<and>
   as_signed_bigint \<lparr>id_domain_of = RodexSessionDomain, id_value = 2 ^ 63\<rparr> = - (2 ^ 63) \<and>
   from_signed_bigint RodexSessionDomain (- (2 ^ 63)) = Inr \<lparr>id_domain_of = RodexSessionDomain, id_value = 2 ^ 63\<rparr>"
proof -
  have a: "as_signed_bigint \<lparr>id_domain_of = RodexSessionDomain, id_value = 2 ^ 63\<rparr> = - (2 ^ 63)"
    by (simp add: as_signed_bigint_def limits)
  have m: "make_id RodexSessionDomain (2 ^ 63) = Inr \<lparr>id_domain_of = RodexSessionDomain, id_value = 2 ^ 63\<rparr>"
    by (simp add: make_id_def limits)
  from rodex_id_round_trip [of RodexSessionDomain "[]" "\<lparr>id_domain_of = RodexSessionDomain, id_value = 2 ^ 63\<rparr>" "2 ^ 63"] m a
  show ?thesis by simp
qed

theorem codex_id_round_trip_witness:
  "\<exists>high low. split_codex_id TurnUuid (uuid_text 1) = Inr (high, low) \<and> join_uuid high low = Inr 1"
  using codex_id_round_trip [of TurnUuid "uuid_text 1" 1] by (auto simp: parse_codex_uuid_text)

end
