(* ===== verification/Observer_Projection.thy ===== *)
theory Observer_Projection
  imports Observer_Correlation Identity_Codec
begin

section \<open>Observer projections\<close>

text \<open>
  \<^verbatim>\<open>src/rodex/observer_projection.py\<close>: the four stateless projections of a decoded App Server event into an observer event, with
  bounded identifiers, texts and lists and a report of what was cut. A method that is a list or an object cannot be looked up in
  the set of activity methods, which raises \<^verbatim>\<open>TypeError\<close>; that is the only error. Texts are lists of code points, so their lengths
  are counted as Python counts them.
\<close>

definition OBSERVER_PROJECTED_TEXT_MAX_CHARS :: nat where
  "OBSERVER_PROJECTED_TEXT_MAX_CHARS = 16 * 1024"

definition OBSERVER_PROJECTED_FIELD_MAX_CHARS :: nat where
  "OBSERVER_PROJECTED_FIELD_MAX_CHARS = 1024"

definition OBSERVER_PROJECTED_ID_MAX_CHARS :: nat where
  "OBSERVER_PROJECTED_ID_MAX_CHARS = 256"

datatype projection_error = UnhashableValue

fun is_hashable :: "json \<Rightarrow> bool" where
  "is_hashable (JList xs) = False"
| "is_hashable (JDict d) = False"
| "is_hashable _ = True"

definition collaboration_tool_name :: "pystr \<Rightarrow> json" where
  "collaboration_tool_name t =
     (if t = lit ''spawnAgent'' then JStr (lit ''collaboration.spawn_agent'')
      else if t = lit ''followupTask'' then JStr (lit ''collaboration.followup_task'')
      else if t = lit ''sendMessage'' then JStr (lit ''collaboration.send_message'')
      else JNull)"

subsection \<open>Bounded fields\<close>

definition optional_uuid_text :: "json \<Rightarrow> pystr option" where
  "optional_uuid_text j =
     (case as_str j of
        None \<Rightarrow> None
      | Some s \<Rightarrow> (case uuid_int s of None \<Rightarrow> None | Some v \<Rightarrow> if uuid_text v = s then Some s else None))"

definition projected_identifier :: "json \<Rightarrow> pystr option" where
  "projected_identifier j =
     (case as_str j of
        None \<Rightarrow> None
      | Some s \<Rightarrow> if s = [] \<or> length s > OBSERVER_PROJECTED_ID_MAX_CHARS then None else Some s)"

text \<open>The turn of an event: absent, or a valid identifier; the outer \<open>None\<close> refuses the event.\<close>

definition projected_turn :: "json \<Rightarrow> json option" where
  "projected_turn j = (if j = JNull then Some JNull else map_option JStr (projected_identifier j))"

text \<open>A bounded text and the list of cut fields, which the code extends in place.\<close>

definition projected_text :: "pystr \<Rightarrow> pystr \<Rightarrow> pystr list \<Rightarrow> nat \<Rightarrow> pystr \<times> pystr list" where
  "projected_text v field_name truncated limit =
     (if length v \<le> limit then (v, truncated) else (take limit v, truncated @ [field_name]))"

definition projected_optional :: "json \<Rightarrow> pystr \<Rightarrow> pystr list \<Rightarrow> nat \<Rightarrow> json \<times> pystr list" where
  "projected_optional j field_name truncated limit =
     (case as_str j of
        None \<Rightarrow> (JNull, truncated)
      | Some v \<Rightarrow> (case projected_text v field_name truncated limit of (t, tr) \<Rightarrow> (JStr t, tr)))"

definition overflow_report :: "pystr list \<Rightarrow> (pystr \<times> nat) list \<Rightarrow> json" where
  "overflow_report truncated omitted =
     JDict [(lit ''truncated_fields'', JList (map JStr truncated)),
            (lit ''omitted_list_items'', JDict (map (\<lambda>(k, n). (k, JInt (int n))) omitted))]"

definition attach_overflow :: "event \<Rightarrow> pystr list \<Rightarrow> (pystr \<times> nat) list \<Rightarrow> event" where
  "attach_overflow e truncated omitted =
     (if truncated \<noteq> [] \<or> omitted \<noteq> [] then dict_set (lit ''projection_overflow'') (overflow_report truncated omitted) e else e)"

subsection \<open>Projections\<close>

text \<open>The parameters and the item of an event whose method is admitted and whose item has the given type.\<close>

definition event_item :: "event option \<Rightarrow> (json \<Rightarrow> bool) \<Rightarrow> string \<Rightarrow> (event \<times> message \<times> message) option" where
  "event_item e admitted kind =
     (case e of
        None \<Rightarrow> None
      | Some ev \<Rightarrow>
          if \<not> admitted (jfield ev ''method'') then None
          else case as_dict (jfield ev ''params'') of
            None \<Rightarrow> None
          | Some params \<Rightarrow>
              (case as_dict (jfield params ''item'') of
                 None \<Rightarrow> None
               | Some item \<Rightarrow> if jfield item ''type'' \<noteq> JStr (lit kind) then None else Some (ev, params, item)))"

definition activity_method :: "json \<Rightarrow> bool" where
  "activity_method j \<longleftrightarrow> j = JStr (lit ''item/started'') \<or> j = JStr (lit ''item/completed'')"

definition completed_method :: "json \<Rightarrow> bool" where
  "completed_method j \<longleftrightarrow> j = JStr (lit ''item/completed'')"

text \<open>The test against the set of activity methods.\<close>

definition unhashable_method :: "event option \<Rightarrow> bool" where
  "unhashable_method e \<longleftrightarrow> (case e of None \<Rightarrow> False | Some ev \<Rightarrow> \<not> is_hashable (jfield ev ''method''))"

definition subagent_activity :: "event \<Rightarrow> message \<Rightarrow> message \<Rightarrow> event option" where
  "subagent_activity ev params item =
     (case (projected_identifier (jfield item ''id''), optional_uuid_text (jfield params ''threadId''),
            optional_uuid_text (jfield item ''agentThreadId''), as_id (jfield item ''agentPath''), as_id (jfield item ''kind''),
            projected_turn (jfield params ''turnId'')) of
        (Some item_id, Some thread, Some agent, Some path, Some kind, Some turn) \<Rightarrow>
          (let (kind', tr1) = projected_text kind (lit ''item.activity_kind'') [] OBSERVER_PROJECTED_FIELD_MAX_CHARS;
               (path', tr2) = projected_text path (lit ''item.agent_path'') tr1 OBSERVER_PROJECTED_FIELD_MAX_CHARS
           in Some (attach_overflow
             [(lit ''schema'', JStr OBSERVER_SCHEMA), (lit ''kind'', JStr (lit ''app_server_subagent_activity'')),
              (lit ''method'', jfield ev ''method''), (lit ''thread_id'', JStr thread), (lit ''turn_id'', turn),
              (lit ''item'', JDict
                [(lit ''type'', JStr (lit ''subAgentActivity'')), (lit ''id'', JStr item_id), (lit ''activity_kind'', JStr kind'),
                 (lit ''agent_thread_id'', JStr agent), (lit ''agent_path'', JStr path')])] tr2 []))
      | _ \<Rightarrow> None)"

definition project_subagent_activity_event :: "event option \<Rightarrow> projection_error + event option" where
  "project_subagent_activity_event e =
     (if unhashable_method e then Inl UnhashableValue
      else Inr (case event_item e activity_method ''subAgentActivity'' of
        None \<Rightarrow> None
      | Some (ev, params, item) \<Rightarrow> subagent_activity ev params item))"

text \<open>The receivers that are kept; \<open>None\<close> when one of them is no canonical identifier.\<close>

definition bounded_receivers :: "json list \<Rightarrow> pystr list option" where
  "bounded_receivers ids =
     (let rs = map optional_uuid_text (take OBSERVER_PROJECTED_LIST_ITEM_LIMIT ids)
      in if None \<in> set rs then None else Some (map the rs))"

definition collaboration_invocation_of :: "event \<Rightarrow> message \<Rightarrow> message \<Rightarrow> event option" where
  "collaboration_invocation_of ev params item =
     (let prompt = jfield item ''prompt'' in
      case (projected_identifier (jfield item ''id''), as_id (jfield item ''tool''), as_id (jfield item ''status''),
            optional_uuid_text (jfield params ''threadId''), optional_uuid_text (jfield item ''senderThreadId''),
            as_list (jfield item ''receiverThreadIds''), projected_turn (jfield params ''turnId'')) of
        (Some item_id, Some raw_tool, Some status, Some thread, Some sender, Some ids, Some turn) \<Rightarrow>
          if prompt \<noteq> JNull \<and> as_str prompt = None then None
          else (case bounded_receivers ids of
            None \<Rightarrow> None
          | Some receivers \<Rightarrow>
              (let (tool, tr1) = projected_text raw_tool (lit ''item.raw_tool_name'') [] OBSERVER_PROJECTED_FIELD_MAX_CHARS;
                   (status', tr2) = projected_text status (lit ''item.status'') tr1 OBSERVER_PROJECTED_FIELD_MAX_CHARS;
                   (prompt', tr3) = projected_optional prompt (lit ''item.prompt'') tr2 OBSERVER_PROJECTED_TEXT_MAX_CHARS;
                   omitted = (if length ids > OBSERVER_PROJECTED_LIST_ITEM_LIMIT
                     then [(lit ''item.receiver_thread_ids'', length ids - OBSERVER_PROJECTED_LIST_ITEM_LIMIT)] else [])
               in Some (attach_overflow
                 [(lit ''schema'', JStr OBSERVER_SCHEMA), (lit ''kind'', JStr (lit ''app_server_collaboration_invocation'')),
                  (lit ''method'', jfield ev ''method''), (lit ''thread_id'', JStr thread), (lit ''turn_id'', turn),
                  (lit ''item'', JDict
                    [(lit ''type'', JStr (lit ''collabAgentToolCall'')), (lit ''id'', JStr item_id), (lit ''raw_tool_name'', JStr tool),
                     (lit ''tool_name'', collaboration_tool_name tool), (lit ''status'', JStr status'), (lit ''sender_thread_id'', JStr sender),
                     (lit ''receiver_thread_ids'', JList (map JStr receivers)), (lit ''prompt'', prompt')])] tr3 omitted)))
      | _ \<Rightarrow> None)"

definition project_collaboration_invocation_event :: "event option \<Rightarrow> projection_error + event option" where
  "project_collaboration_invocation_event e =
     (if unhashable_method e then Inl UnhashableValue
      else Inr (case event_item e activity_method ''collabAgentToolCall'' of
        None \<Rightarrow> None
      | Some (ev, params, item) \<Rightarrow> collaboration_invocation_of ev params item))"

definition agent_message :: "message \<Rightarrow> message \<Rightarrow> event option" where
  "agent_message params item =
     (let phase = jfield item ''phase'' in
      case (projected_identifier (jfield item ''id''), as_id (jfield item ''text''), optional_uuid_text (jfield params ''threadId''),
            projected_turn (jfield params ''turnId'')) of
        (Some item_id, Some body, Some thread, Some turn) \<Rightarrow>
          if phase \<noteq> JNull \<and> as_str phase = None then None
          else (let (phase', tr1) = projected_optional phase (lit ''item.phase'') [] OBSERVER_PROJECTED_FIELD_MAX_CHARS;
                    (body', tr2) = projected_text body (lit ''item.text'') tr1 OBSERVER_PROJECTED_TEXT_MAX_CHARS
                in Some (attach_overflow
                  [(lit ''schema'', JStr OBSERVER_SCHEMA), (lit ''kind'', JStr (lit ''app_server_agent_message'')),
                   (lit ''thread_id'', JStr thread), (lit ''turn_id'', turn),
                   (lit ''item'', JDict
                     [(lit ''type'', JStr (lit ''agentMessage'')), (lit ''id'', JStr item_id), (lit ''phase'', phase'),
                      (lit ''text'', JStr body')])] tr2 []))
      | _ \<Rightarrow> None)"

definition project_agent_message_event :: "event option \<Rightarrow> event option" where
  "project_agent_message_event e =
     (case event_item e completed_method ''agentMessage'' of
        None \<Rightarrow> None
      | Some (ev, params, item) \<Rightarrow> agent_message params item)"

text \<open>The text of a content block, if it is a text block.\<close>

definition block_text :: "json \<Rightarrow> pystr option" where
  "block_text b =
     (case as_dict b of
        None \<Rightarrow> None
      | Some d \<Rightarrow> if jfield d ''type'' = JStr (lit ''text'') then as_str (jfield d ''text'') else None)"

definition content_field :: "nat \<Rightarrow> pystr" where
  "content_field i = lit ''item.content['' @ py_str_nat i @ lit ''].text''"

text \<open>The loop over the content: texts, cut fields and the number of blocks left out when the room is used up.\<close>

fun content_loop :: "nat \<Rightarrow> nat \<Rightarrow> json list \<Rightarrow> nat \<Rightarrow> pystr list \<Rightarrow> pystr list \<Rightarrow> pystr list \<times> pystr list \<times> nat option" where
  "content_loop total_blocks i [] remaining truncated texts = (texts, truncated, None)"
| "content_loop total_blocks i (b # bs) remaining truncated texts =
     (case block_text b of
        None \<Rightarrow> content_loop total_blocks (Suc i) bs remaining truncated texts
      | Some t \<Rightarrow>
          if remaining = 0 then (texts, truncated, Some (total_blocks - i))
          else case projected_text t (content_field i) truncated remaining of
            (p, tr) \<Rightarrow> content_loop total_blocks (Suc i) bs (remaining - length p) tr (texts @ [p]))"

definition omitted_blocks :: "nat option \<Rightarrow> json list \<Rightarrow> (pystr \<times> nat) list" where
  "omitted_blocks broke content =
     (if length content > OBSERVER_PROJECTED_LIST_ITEM_LIMIT
      then [(lit ''item.content'', max (case broke of None \<Rightarrow> 0 | Some n \<Rightarrow> n) (length content - OBSERVER_PROJECTED_LIST_ITEM_LIMIT))]
      else case broke of None \<Rightarrow> [] | Some n \<Rightarrow> [(lit ''item.content'', n)])"

definition user_message :: "message \<Rightarrow> message \<Rightarrow> event option" where
  "user_message params item =
     (case (projected_identifier (jfield item ''id''), as_list (jfield item ''content'')) of
        (Some item_id, Some content) \<Rightarrow>
          (let (texts, truncated, broke) =
                 content_loop (length content) 0 (take OBSERVER_PROJECTED_LIST_ITEM_LIMIT content) OBSERVER_PROJECTED_TEXT_MAX_CHARS [] [];
               omitted = omitted_blocks broke content
           in case (optional_uuid_text (jfield params ''threadId''), projected_identifier (jfield params ''turnId'')) of
                (Some thread, Some turn) \<Rightarrow>
                  if list_all (\<lambda>t. t = []) texts then None
                  else Some (attach_overflow
                    [(lit ''schema'', JStr OBSERVER_SCHEMA), (lit ''kind'', JStr (lit ''app_server_user_message'')),
                     (lit ''thread_id'', JStr thread), (lit ''turn_id'', JStr turn),
                     (lit ''item'', JDict
                       [(lit ''type'', JStr (lit ''userMessage'')), (lit ''id'', JStr item_id),
                        (lit ''text_blocks'', JList (map JStr texts))])] truncated omitted)
              | _ \<Rightarrow> None)
      | _ \<Rightarrow> None)"

definition project_user_message_event :: "event option \<Rightarrow> event option" where
  "project_user_message_event e =
     (case event_item e completed_method ''userMessage'' of
        None \<Rightarrow> None
      | Some (ev, params, item) \<Rightarrow> user_message params item)"

subsection \<open>Bounds\<close>

text \<open>The number of characters of all texts and keys of a value.\<close>

fun json_chars :: "json \<Rightarrow> nat" where
  "json_chars (JStr s) = length s"
| "json_chars (JList xs) = sum_list (map json_chars xs)"
| "json_chars (JDict d) = sum_list (map (\<lambda>(k, v). length k + json_chars v) d)"
| "json_chars _ = 0"

lemmas projection_limits = OBSERVER_PROJECTED_TEXT_MAX_CHARS_def OBSERVER_PROJECTED_FIELD_MAX_CHARS_def
  OBSERVER_PROJECTED_ID_MAX_CHARS_def OBSERVER_PROJECTED_LIST_ITEM_LIMIT_def

lemma projected_uuid: "optional_uuid_text j = Some s \<Longrightarrow> j = JStr s \<and> length s = 36"
proof -
  assume "optional_uuid_text j = Some s"
  then obtain v where v: "j = JStr s" "uuid_int s = Some v" "uuid_text v = s"
    by (auto simp: optional_uuid_text_def split: option.splits if_splits)
  then have "parse_codex_uuid ThreadUuid s = Inr v" by (simp add: parse_codex_uuid_def)
  then have "0 \<le> v" "v < 2 ^ 128" by (simp_all add: parse_codex_uuid_text)
  then have "length (hex_padded 32 v) = 32" using hex_padded_fixed [of v 32] by simp
  then have "length (uuid_text v) = 36" by (simp add: uuid_text_def Let_def)
  with v show ?thesis by simp
qed

lemma projected_id: "projected_identifier j = Some s \<Longrightarrow> j = JStr s \<and> s \<noteq> [] \<and> length s \<le> 256"
  by (auto simp: projected_identifier_def projection_limits split: option.splits if_splits)

lemma projected_turn_chars: "projected_turn j = Some t \<Longrightarrow> json_chars t \<le> 256"
  by (auto simp: projected_turn_def dest: projected_id split: if_splits)

text \<open>Cutting a text: its length, and at most its own name is added to the report.\<close>

lemma projected_text_bound:
  "projected_text v f tr n = (t, tr') \<Longrightarrow> length t \<le> n \<and> sum_list (map length tr') \<le> sum_list (map length tr) + length f"
  by (auto simp: projected_text_def split: if_splits)

lemma projected_optional_bound:
  "projected_optional j f tr n = (t, tr') \<Longrightarrow> json_chars t \<le> n \<and> sum_list (map length tr') \<le> sum_list (map length tr) + length f"
  by (auto simp: projected_optional_def dest: projected_text_bound split: option.splits prod.splits)

lemma json_chars_strings: "sum_list (map json_chars (map JStr ts)) = sum_list (map length ts)"
  by (simp add: comp_def)

lemma dict_set_chars: "sum_list (map (\<lambda>(k, v). length k + json_chars v) (dict_set k v d)) \<le>
    sum_list (map (\<lambda>(k, v). length k + json_chars v) d) + length k + json_chars v"
  by (induction k v d rule: dict_set.induct) auto

lemma attach_overflow_chars:
  "json_chars (JDict (attach_overflow e tr om)) \<le> json_chars (JDict e) + 53 + sum_list (map length tr) + sum_list (map (length \<circ> fst) om)"
proof -
  have "sum_list (map (\<lambda>(k, v). length k + json_chars v) (map (\<lambda>(k, n). (k, JInt (int n))) om)) = sum_list (map (length \<circ> fst) om)"
    by (induction om) auto
  then have "json_chars (overflow_report tr om) \<le> 34 + sum_list (map length tr) + sum_list (map (length \<circ> fst) om)"
    by (simp add: overflow_report_def comp_def)
  with dict_set_chars [of "lit ''projection_overflow''" "overflow_report tr om" e] show ?thesis by (auto simp: attach_overflow_def)
qed

lemma activity_bounded:
  assumes "subagent_activity ev params item = Some p" "activity_method (jfield ev ''method'')"
  shows "json_chars (JDict p) \<le> 24576"
proof -
  obtain item_id thread agent path kind turn kind' tr1 path' tr2 where r:
    "projected_identifier (jfield item ''id'') = Some item_id" "optional_uuid_text (jfield params ''threadId'') = Some thread"
    "optional_uuid_text (jfield item ''agentThreadId'') = Some agent" "projected_turn (jfield params ''turnId'') = Some turn"
    "projected_text kind (lit ''item.activity_kind'') [] 1024 = (kind', tr1)" "projected_text path (lit ''item.agent_path'') tr1 1024 = (path', tr2)"
    and p: "p = attach_overflow
             [(lit ''schema'', JStr OBSERVER_SCHEMA), (lit ''kind'', JStr (lit ''app_server_subagent_activity'')),
              (lit ''method'', jfield ev ''method''), (lit ''thread_id'', JStr thread), (lit ''turn_id'', turn),
              (lit ''item'', JDict
                [(lit ''type'', JStr (lit ''subAgentActivity'')), (lit ''id'', JStr item_id), (lit ''activity_kind'', JStr kind'),
                 (lit ''agent_thread_id'', JStr agent), (lit ''agent_path'', JStr path')])] tr2 []"
    using assms(1) unfolding subagent_activity_def projection_limits by (auto split: option.splits prod.splits)
  note b = projected_id [OF r(1)] projected_uuid [OF r(2)] projected_uuid [OF r(3)] projected_turn_chars [OF r(4)]
    projected_text_bound [OF r(5)] projected_text_bound [OF r(6)]
  have m: "json_chars (jfield ev ''method'') \<le> 14" using assms(2) by (auto simp: activity_method_def)
  show ?thesis unfolding p
    by (rule order_trans [OF attach_overflow_chars]) (use b m in \<open>simp add: OBSERVER_SCHEMA_def\<close>)
qed

lemma invocation_bounded:
  assumes "collaboration_invocation_of ev params item = Some p" "activity_method (jfield ev ''method'')"
  shows "json_chars (JDict p) \<le> 24576"
proof -
  obtain item_id raw_tool status thread sender ids turn receivers tool tr1 status' tr2 prompt' tr3 where r:
    "projected_identifier (jfield item ''id'') = Some item_id" "optional_uuid_text (jfield params ''threadId'') = Some thread"
    "optional_uuid_text (jfield item ''senderThreadId'') = Some sender" "projected_turn (jfield params ''turnId'') = Some turn"
    "bounded_receivers ids = Some receivers"
    "projected_text raw_tool (lit ''item.raw_tool_name'') [] 1024 = (tool, tr1)" "projected_text status (lit ''item.status'') tr1 1024 = (status', tr2)"
    "projected_optional (jfield item ''prompt'') (lit ''item.prompt'') tr2 16384 = (prompt', tr3)"
    and p: "p = attach_overflow
                 [(lit ''schema'', JStr OBSERVER_SCHEMA), (lit ''kind'', JStr (lit ''app_server_collaboration_invocation'')),
                  (lit ''method'', jfield ev ''method''), (lit ''thread_id'', JStr thread), (lit ''turn_id'', turn),
                  (lit ''item'', JDict
                    [(lit ''type'', JStr (lit ''collabAgentToolCall'')), (lit ''id'', JStr item_id), (lit ''raw_tool_name'', JStr tool),
                     (lit ''tool_name'', collaboration_tool_name tool), (lit ''status'', JStr status'), (lit ''sender_thread_id'', JStr sender),
                     (lit ''receiver_thread_ids'', JList (map JStr receivers)), (lit ''prompt'', prompt')])] tr3
                 (if length ids > 64 then [(lit ''item.receiver_thread_ids'', length ids - 64)] else [])"
    using assms(1) unfolding collaboration_invocation_of_def projection_limits Let_def
    by (auto split: option.splits prod.splits if_splits)
  note b = projected_id [OF r(1)] projected_uuid [OF r(2)] projected_uuid [OF r(3)] projected_turn_chars [OF r(4)]
    projected_text_bound [OF r(6)] projected_text_bound [OF r(7)] projected_optional_bound [OF r(8)]
  have m: "json_chars (jfield ev ''method'') \<le> 14" using assms(2) by (auto simp: activity_method_def)
  have t: "json_chars (collaboration_tool_name tool) \<le> 27" by (simp add: collaboration_tool_name_def)
  have rs: "sum_list (map length receivers) \<le> 64 * 36"
  proof -
    have "None \<notin> set (map optional_uuid_text (take 64 ids))" "receivers = map the (map optional_uuid_text (take 64 ids))"
      using r(5) by (auto simp only: bounded_receivers_def Let_def projection_limits option.inject split: if_splits)
    then have "length receivers \<le> 64" "\<forall>x \<in> set receivers. length x \<le> 36"
      by (auto simp: image_iff) (metis option.exhaust_sel order_refl projected_uuid)
    then have "sum_list (map length receivers) \<le> length receivers * 36" by (induction receivers) auto
    then show ?thesis using \<open>length receivers \<le> 64\<close> by linarith
  qed
  show ?thesis unfolding p
    by (rule order_trans [OF attach_overflow_chars]) (use b m t rs in \<open>simp add: OBSERVER_SCHEMA_def comp_def\<close>)
qed

lemma message_bounded:
  assumes "agent_message params item = Some p"
  shows "json_chars (JDict p) \<le> 24576"
proof -
  obtain item_id body thread turn phase' tr1 body' tr2 where r:
    "projected_identifier (jfield item ''id'') = Some item_id" "optional_uuid_text (jfield params ''threadId'') = Some thread"
    "projected_turn (jfield params ''turnId'') = Some turn"
    "projected_optional (jfield item ''phase'') (lit ''item.phase'') [] 1024 = (phase', tr1)"
    "projected_text body (lit ''item.text'') tr1 16384 = (body', tr2)"
    and p: "p = attach_overflow
                  [(lit ''schema'', JStr OBSERVER_SCHEMA), (lit ''kind'', JStr (lit ''app_server_agent_message'')),
                   (lit ''thread_id'', JStr thread), (lit ''turn_id'', turn),
                   (lit ''item'', JDict
                     [(lit ''type'', JStr (lit ''agentMessage'')), (lit ''id'', JStr item_id), (lit ''phase'', phase'),
                      (lit ''text'', JStr body')])] tr2 []"
    using assms(1) unfolding agent_message_def projection_limits Let_def
    by (auto split: option.splits prod.splits if_splits)
  note b = projected_id [OF r(1)] projected_uuid [OF r(2)] projected_turn_chars [OF r(3)]
    projected_optional_bound [OF r(4)] projected_text_bound [OF r(5)]
  show ?thesis unfolding p
    by (rule order_trans [OF attach_overflow_chars]) (use b in \<open>simp add: OBSERVER_SCHEMA_def\<close>)
qed

subsection \<open>The content of a user message\<close>

lemma content_loop_full: "content_loop n i bs 0 tr texts = (ts, tr', broke) \<Longrightarrow> ts = texts \<and> tr' = tr \<and> (broke = None \<longrightarrow> List.map_filter block_text bs = [])"
  by (induction bs arbitrary: i) (auto simp: map_filter_simps split: option.splits)

lemma content_field_length: "i < 100 \<Longrightarrow> length (content_field i) \<le> 21"
proof -
  assume i: "i < 100"
  have "length (py_str_nat n) = 1" if "n < 10" for n using that by (subst py_str_nat.simps) simp
  then have "length (py_str_nat i) \<le> 2" using i by (subst py_str_nat.simps) simp
  then show ?thesis by (simp add: content_field_def)
qed

text \<open>The kept texts are the texts of the content up to the room that is left; what is cut or left out is reported.\<close>

lemma content_loop_exact:
  assumes "content_loop n i bs remaining tr texts = (ts, tr', broke)"
  shows "\<exists>xs us. ts = texts @ xs \<and> prefix (concat xs) (concat (List.map_filter block_text bs)) \<and> length (concat xs) \<le> remaining \<and>
    length xs \<le> length bs \<and> tr' = tr @ us \<and> (us = [] \<or> (\<exists>j < i + length bs. us = [content_field j])) \<and>
    (us = [] \<and> broke = None \<longrightarrow> xs = List.map_filter block_text bs)"
  using assms
proof (induction bs arbitrary: i remaining tr texts)
  case Nil
  then show ?case by (simp add: map_filter_simps)
next
  case (Cons b bs)
  show ?case
  proof (cases "block_text b")
    case None
    then have "content_loop n (Suc i) bs remaining tr texts = (ts, tr', broke)" using Cons.prems by simp
    from Cons.IH [OF this] None show ?thesis by (fastforce simp: map_filter_simps)
  next
    case (Some t)
    show ?thesis
    proof (cases "remaining = 0 \<or> length t > remaining")
      case False
      then have run: "content_loop n (Suc i) bs (remaining - length t) tr (texts @ [t]) = (ts, tr', broke)" "length t \<le> remaining"
        using Cons.prems Some by (auto simp: projected_text_def)
      from Cons.IH [OF run(1)] obtain xs us where x: "ts = (texts @ [t]) @ xs" "prefix (concat xs) (concat (List.map_filter block_text bs))"
        "length (concat xs) \<le> remaining - length t" "length xs \<le> length bs" "tr' = tr @ us"
        "us = [] \<or> (\<exists>j < Suc i + length bs. us = [content_field j])" "us = [] \<and> broke = None \<longrightarrow> xs = List.map_filter block_text bs"
        by blast
      show ?thesis
        by (rule exI [of _ "t # xs"], rule exI [of _ us]) (use x run(2) Some in \<open>auto simp: map_filter_simps\<close>)
    next
      case True
      show ?thesis
      proof (cases "remaining = 0")
        case True
        then show ?thesis using content_loop_full [of n i "b # bs" tr texts ts tr' broke] Cons.prems
          by (intro exI [of _ "[]"]) auto
      next
        case False
        then have long: "length t > remaining" using True by simp
        then have "content_loop n (Suc i) bs 0 (tr @ [content_field i]) (texts @ [take remaining t]) = (ts, tr', broke)"
          using Cons.prems Some False by (simp add: projected_text_def)
        from content_loop_full [OF this] have "ts = texts @ [take remaining t]" "tr' = tr @ [content_field i]" by auto
        moreover have "prefix (take remaining t) (t @ concat (List.map_filter block_text bs))" by (simp add: take_is_prefix prefix_prefix)
        ultimately have "ts = texts @ [take remaining t] \<and> prefix (concat [take remaining t]) (concat (List.map_filter block_text (b # bs))) \<and>
            length (concat [take remaining t]) \<le> remaining \<and> tr' = tr @ [content_field i]"
          using Some by (simp add: map_filter_simps)
        moreover have "\<exists>j < i + length (b # bs). [content_field i] = [content_field j]" by (intro exI [of _ i]) simp
        ultimately show ?thesis
          unfolding length_Cons by (metis (no_types, lifting) Suc_le_mono le0 length_Cons list.distinct(1) list.size(3))
      qed
    qed
  qed
qed

lemma user_message_parts:
  assumes "user_message params item = Some p"
  obtains item_id content thread turn texts truncated broke where
    "projected_identifier (jfield item ''id'') = Some item_id" "jfield item ''content'' = JList content"
    "optional_uuid_text (jfield params ''threadId'') = Some thread" "projected_identifier (jfield params ''turnId'') = Some turn"
    "content_loop (length content) 0 (take 64 content) 16384 [] [] = (texts, truncated, broke)"
    "p = attach_overflow
        [(lit ''schema'', JStr OBSERVER_SCHEMA), (lit ''kind'', JStr (lit ''app_server_user_message'')),
         (lit ''thread_id'', JStr thread), (lit ''turn_id'', JStr turn),
         (lit ''item'', JDict
           [(lit ''type'', JStr (lit ''userMessage'')), (lit ''id'', JStr item_id), (lit ''text_blocks'', JList (map JStr texts))])]
        truncated (omitted_blocks broke content)"
  using assms unfolding user_message_def projection_limits Let_def by (auto split: option.splits prod.splits if_splits)

lemma user_bounded:
  assumes "user_message params item = Some p"
  shows "json_chars (JDict p) \<le> 24576"
  using assms
proof (cases rule: user_message_parts)
  case (1 item_id content thread turn texts truncated broke)
  from content_loop_exact [OF 1(5)] obtain us where us: "length (concat texts) \<le> 16384" "truncated = us"
    "us = [] \<or> (\<exists>j < 64. us = [content_field j])"
    by fastforce
  have "sum_list (map length truncated) \<le> 21" using us(2,3) content_field_length by fastforce
  moreover have "sum_list (map (length \<circ> fst) (omitted_blocks broke content)) \<le> 12" by (simp add: omitted_blocks_def split: option.split)
  moreover have "sum_list (map length texts) \<le> 16384" using us(1) by (simp add: length_concat)
  moreover note projected_id [OF 1(1)] projected_uuid [OF 1(3)] projected_id [OF 1(4)]
  ultimately show ?thesis unfolding 1(6)
    by (intro order_trans [OF attach_overflow_chars]) (simp add: OBSERVER_SCHEMA_def comp_def)
qed

subsection \<open>Properties\<close>

text \<open>
  Property C26. Whatever the App Server sends, a projected event has at most 24576 characters in all its texts and keys together:
  identifiers, fields, texts and lists are all cut or refused at their limits, the report of what was cut included.
\<close>

theorem projection_bounded:
  assumes "project_subagent_activity_event e = Inr (Some p) \<or> project_collaboration_invocation_event e = Inr (Some p) \<or>
    project_agent_message_event e = Some p \<or> project_user_message_event e = Some p"
  shows "json_chars (JDict p) \<le> 24576"
proof -
  have "admitted (jfield ev ''method'')" if "event_item e admitted kind = Some (ev, params, item)" for admitted kind ev params item
    using that by (auto simp: event_item_def split: option.splits if_splits)
  then show ?thesis using assms activity_bounded invocation_bounded message_bounded user_bounded
    by (fastforce simp: project_subagent_activity_event_def project_collaboration_invocation_event_def
        project_agent_message_event_def project_user_message_event_def split: option.splits if_splits)
qed

text \<open>
  Property C25. The text blocks of a projected user message are exactly those of the message when nothing is reported as cut or left out;
  otherwise they are its text up to some point, within the limit.
\<close>

theorem user_message_exact:
  assumes "project_user_message_event (Some e) = Some p"
  shows "\<exists>content texts. jpath (jpath (jfield e ''params'') ''item'') ''content'' = JList content \<and>
    jpath (jfield p ''item'') ''text_blocks'' = JList (map JStr texts) \<and>
    prefix (concat texts) (concat (List.map_filter block_text content)) \<and> length (concat texts) \<le> 16384 \<and> length texts \<le> 64 \<and>
    (\<not> jhas p ''projection_overflow'' \<longrightarrow> texts = List.map_filter block_text content)"
proof -
  obtain params item where i: "jfield e ''params'' = JDict params" "jfield params ''item'' = JDict item" "user_message params item = Some p"
    using assms by (auto simp: project_user_message_event_def event_item_def split: option.splits if_splits)
  from i(3) show ?thesis
  proof (cases rule: user_message_parts)
    case (1 item_id content thread turn texts truncated broke)
    from content_loop_exact [OF 1(5)] have x: "prefix (concat texts) (concat (List.map_filter block_text (take 64 content)))"
      "length (concat texts) \<le> 16384" "length texts \<le> 64" "truncated = [] \<and> broke = None \<longrightarrow> texts = List.map_filter block_text (take 64 content)"
      by auto
    have "List.map_filter block_text content = List.map_filter block_text (take 64 content) @ List.map_filter block_text (drop 64 content)"
      by (simp add: map_filter_def filter_append [symmetric] map_append [symmetric] del: filter_append map_append)
    with x(1) have pre: "prefix (concat texts) (concat (List.map_filter block_text content))" by (simp add: prefix_prefix)
    have "truncated = [] \<and> broke = None \<and> length content \<le> 64" if "\<not> jhas p ''projection_overflow''"
      using that unfolding 1(6) by (auto simp: attach_overflow_def omitted_blocks_def projection_limits jhas_def split: if_splits option.splits)
    then have whole: "\<not> jhas p ''projection_overflow'' \<longrightarrow> texts = List.map_filter block_text content" using x(4) by auto
    have "jpath (jfield p ''item'') ''text_blocks'' = JList (map JStr texts)"
      unfolding 1(6) by (auto simp: attach_overflow_def jpath_def jfield_def)
    then show ?thesis using i 1(2) pre x(2,3) whole by (auto simp: jpath_def)
  qed
qed

lemma optional_uuid_canonical: "0 \<le> v \<Longrightarrow> v < 2 ^ 128 \<Longrightarrow> optional_uuid_text (JStr (uuid_text v)) = Some (uuid_text v)"
  by (simp add: optional_uuid_text_def uuid_int_text)

definition sample_message :: event where
  "sample_message =
     [(lit ''method'', JStr (lit ''item/completed'')),
      (lit ''params'', JDict [(lit ''threadId'', JStr (uuid_text 1)), (lit ''turnId'', JStr (lit ''t'')),
        (lit ''item'', JDict [(lit ''type'', JStr (lit ''userMessage'')), (lit ''id'', JStr (lit ''i'')),
          (lit ''content'', JList [JDict [(lit ''type'', JStr (lit ''text'')), (lit ''text'', JStr (lit ''hello''))]])])])]"

lemma sample_projected: "\<exists>p. project_user_message_event (Some sample_message) = Some p \<and>
    jpath (jfield p ''item'') ''text_blocks'' = JList [JStr (lit ''hello'')] \<and> \<not> jhas p ''projection_overflow''"
  by (simp add: project_user_message_event_def event_item_def sample_message_def jfield_def jpath_def jhas_def completed_method_def user_message_def
      projected_identifier_def optional_uuid_canonical projection_limits block_text_def projected_text_def omitted_blocks_def attach_overflow_def)

theorem projection_bounded_witness:
  "\<exists>p. project_user_message_event (Some sample_message) = Some p \<and> json_chars (JDict p) \<le> 24576"
  using sample_projected projection_bounded by blast

theorem user_message_exact_witness:
  "\<exists>p texts. project_user_message_event (Some sample_message) = Some p \<and>
    jpath (jfield p ''item'') ''text_blocks'' = JList (map JStr texts) \<and> length texts \<le> 64"
proof -
  obtain p where p: "project_user_message_event (Some sample_message) = Some p" using sample_projected by blast
  from user_message_exact [OF p] p show ?thesis by blast
qed

end
