(* ===== verification/Observer_Facts.thy ===== *)
theory Observer_Facts
  imports Observer_Safety Observer_Projection
begin

section \<open>Facts the observer coordinator relies on\<close>

text \<open>
  Beyond the table invariant of the observer producer, the coordinator relies on the shape of what it stored: every retained activity
  has its thread, its agent and its identifier, every retained invocation has its item, and every known agent has a path and a
  non-empty name. Each operation maintains these facts and, on such input, raises nothing.
\<close>

definition maintains :: "('s \<Rightarrow> bool) \<Rightarrow> ('s, 'e, 'a) action \<Rightarrow> bool" where
  "maintains P m \<longleftrightarrow> (\<forall>s. P s \<longrightarrow> P (fst (m s)))"

lemma maintains_ret [intro!]: "maintains P (ret x)" "maintains P (raise e)"
  by (simp_all add: maintains_def)

lemma maintains_and_then [intro]: "maintains P m \<Longrightarrow> (\<And>x. maintains P (k x)) \<Longrightarrow> maintains P (and_then m k)"
  unfolding maintains_def and_then_def by (auto split: prod.split sum.split)

lemma maintains_gets [intro!]: "maintains P (gets f)"
  by (simp add: maintains_def gets_def)

lemma maintains_update [intro]: "(\<And>s. P s \<Longrightarrow> P (f s)) \<Longrightarrow> maintains P (update f)"
  by (simp add: maintains_def update_def)

lemma maintains_if [intro!]: "(b \<Longrightarrow> maintains P m) \<Longrightarrow> (\<not> b \<Longrightarrow> maintains P n) \<Longrightarrow> maintains P (if b then m else n)"
  by simp

lemma maintains_option [intro!]: "maintains P m \<Longrightarrow> (\<And>x. maintains P (k x)) \<Longrightarrow> maintains P (case y of None \<Rightarrow> m | Some x \<Rightarrow> k x)"
  by (simp split: option.split)

lemma wp_maintains:
  assumes "wp m Q E s" "maintains P m" "P s"
  shows "wp m (\<lambda>x s'. Q x s' \<and> P s') (\<lambda>e s'. E e s' \<and> P s') s"
  using assms unfolding wp_def maintains_def by (metis (mono_tags, lifting) fst_conv prod.case_eq_if sum.case_eq_if)

subsection \<open>Stored values\<close>

definition vals_ok :: "('v \<Rightarrow> bool) \<Rightarrow> ('k, 'v) dict \<Rightarrow> bool" where
  "vals_ok P d \<longleftrightarrow> list_all (\<lambda>(k, v). P v) d"

lemma vals_ok_Nil [simp]: "vals_ok P []"
  by (simp add: vals_ok_def)

lemma vals_ok_set: "vals_ok P d \<Longrightarrow> P v \<Longrightarrow> vals_ok P (dict_set k v d)"
  unfolding vals_ok_def by (induction k v d rule: dict_set.induct) auto

lemma vals_ok_pop: "vals_ok P d \<Longrightarrow> vals_ok P (dict_pop k d)"
  by (auto simp: vals_ok_def dict_pop_def list_all_iff)

lemma vals_ok_get: "vals_ok P d \<Longrightarrow> dict_get d k = Some v \<Longrightarrow> P v"
  unfolding vals_ok_def list_all_iff by (auto dest!: map_of_SomeD)

definition activity_shape :: "event \<Rightarrow> bool" where
  "activity_shape e \<longleftrightarrow>
     dict_get e (lit ''thread_id'') \<noteq> None \<and>
     (case dict_get e (lit ''item'') of
        Some (JDict item) \<Rightarrow> dict_get item (lit ''agent_thread_id'') \<noteq> None \<and> dict_get item (lit ''id'') \<noteq> None
      | _ \<Rightarrow> False)"

definition stored_ok :: "producer \<Rightarrow> bool" where
  "stored_ok s \<longleftrightarrow>
     vals_ok (\<lambda>c. vals_ok activity_shape (cor_activities c)) (prod_correlations s) \<and>
     vals_ok (\<lambda>e. dict_get e (lit ''item'') \<noteq> None) (prod_invocations s)"

definition agents_of :: "producer \<Rightarrow> pystr list \<times> (pystr, pystr) dict \<times> (pystr, active_work) dict \<times> pystr option" where
  "agents_of s = (prod_known_agents s, prod_agent_paths s, prod_active_work s, prod_root_thread_id s)"

definition named_ok :: "producer \<Rightarrow> bool" where
  "named_ok s \<longleftrightarrow> set (prod_known_agents s) \<subseteq> set (dict_keys (prod_agent_paths s)) \<and> [] \<notin> set (prod_known_agents s)"

text \<open>An operation that maintains what is stored and touches no agent and no root thread.\<close>

definition quiet :: "'a producer_action \<Rightarrow> bool" where
  "quiet m \<longleftrightarrow> (\<forall>a. maintains (\<lambda>s. stored_ok s \<and> agents_of s = a) m)"

lemma quietD: "quiet m \<Longrightarrow> maintains (\<lambda>s. stored_ok s \<and> agents_of s = a) m"
  unfolding quiet_def by blast

lemma quiet_state: "quiet m \<Longrightarrow> stored_ok s \<Longrightarrow> m s = (s', r) \<Longrightarrow> stored_ok s' \<and> agents_of s' = agents_of s"
  unfolding quiet_def maintains_def by (metis fst_conv)

lemma quiet_ret [intro!]: "quiet (ret x)" "quiet (raise e)" "quiet (gets f)"
  by (auto simp: quiet_def)

lemma quiet_and_then [intro]: "quiet m \<Longrightarrow> (\<And>x. quiet (k x)) \<Longrightarrow> quiet (and_then m k)"
  by (auto simp: quiet_def)

lemma quiet_update: "(\<And>s. stored_ok s \<Longrightarrow> stored_ok (f s) \<and> agents_of (f s) = agents_of s) \<Longrightarrow> quiet (update f)"
  by (auto simp: quiet_def)

lemma quiet_if [intro!]: "(b \<Longrightarrow> quiet m) \<Longrightarrow> (\<not> b \<Longrightarrow> quiet n) \<Longrightarrow> quiet (if b then m else n)"
  by simp

lemma quiet_option [intro!]: "quiet m \<Longrightarrow> (\<And>x. quiet (k x)) \<Longrightarrow> quiet (case y of None \<Rightarrow> m | Some x \<Rightarrow> k x)"
  by (simp split: option.split)

lemmas quiet_rules = quiet_and_then quiet_if quiet_option quiet_ret

lemma stored_mark [simp]: "stored_ok (mark_correlation_incomplete s) = stored_ok s" "agents_of (mark_correlation_incomplete s) = agents_of s"
  by (simp_all add: stored_ok_def agents_of_def)

lemma stored_correlation:
  "stored_ok s \<Longrightarrow> vals_ok activity_shape (cor_activities c) \<Longrightarrow> stored_ok (s\<lparr>prod_correlations := dict_set k c (prod_correlations s)\<rparr>)"
  by (simp add: stored_ok_def vals_ok_set)

lemma agents_update [simp]:
  "agents_of (s\<lparr>prod_correlations := x\<rparr>) = agents_of s" "agents_of (s\<lparr>prod_invocations := y\<rparr>) = agents_of s"
  "agents_of (s\<lparr>prod_invocation_targets := z\<rparr>) = agents_of s" "agents_of (s\<lparr>prod_parent_message := m\<rparr>) = agents_of s"
  by (simp_all add: agents_of_def)

lemma stored_update [simp]:
  "stored_ok (s\<lparr>prod_invocation_targets := z\<rparr>) = stored_ok s" "stored_ok (s\<lparr>prod_parent_message := m\<rparr>) = stored_ok s"
  "stored_ok (s\<lparr>prod_root_thread_id := r\<rparr>) = stored_ok s" "stored_ok (s\<lparr>prod_known_agents := k\<rparr>) = stored_ok s"
  "stored_ok (s\<lparr>prod_agent_paths := p\<rparr>) = stored_ok s" "stored_ok (s\<lparr>prod_active_work := w\<rparr>) = stored_ok s"
  by (simp_all add: stored_ok_def)

lemma stored_invocations:
  "stored_ok s \<Longrightarrow> dict_get e (lit ''item'') \<noteq> None \<Longrightarrow> stored_ok (s\<lparr>prod_invocations := dict_set k e (prod_invocations s)\<rparr>)"
  "stored_ok s \<Longrightarrow> stored_ok (s\<lparr>prod_invocations := dict_pop k (prod_invocations s)\<rparr>)"
  by (auto simp: stored_ok_def intro: vals_ok_set vals_ok_pop)

lemma stored_get: "stored_ok s \<Longrightarrow> dict_get (prod_correlations s) k = Some c \<Longrightarrow> vals_ok activity_shape (cor_activities c)"
  unfolding stored_ok_def using vals_ok_get by fastforce

lemma stored_change:
  assumes "stored_ok s" "\<And>c. vals_ok activity_shape (cor_activities c) \<Longrightarrow> vals_ok activity_shape (cor_activities (f c))"
  shows "stored_ok (change_correlation i f s) \<and> agents_of (change_correlation i f s) = agents_of s"
proof (cases "dict_get (prod_correlations s) (correlation_key i s)")
  case (Some c)
  then show ?thesis
    using stored_correlation [OF assms(1) assms(2) [OF stored_get [OF assms(1) Some]]] by (simp add: change_correlation_def)
qed (use assms(1) in \<open>simp add: change_correlation_def\<close>)

subsection \<open>Quiet operations\<close>

lemma quiet_evict: "quiet (evict_correlation key)"
  unfolding quiet_def maintains_def
  by (auto simp: evict_correlation_def Let_def stored_ok_def agents_of_def vals_ok_pop split: option.split)

lemma make_room_quiet: "stored_ok s \<Longrightarrow> stored_ok (fst (make_room s)) \<and> agents_of (fst (make_room s)) = agents_of s"
proof (induction s rule: make_room.induct)
  case (1 s)
  show ?case
  proof (cases "length (prod_correlations s) < OBSERVER_CORRELATION_METADATA_LIMIT")
    case True
    then show ?thesis using 1 by (subst (1 2) make_room.simps) simp
  next
    case False
    obtain s' r where e: "evict_correlation (fst (hd (prod_correlations s))) s = (s', r)" by (rule prod.exhaust)
    with quiet_state [OF quiet_evict "1.prems" e] "1.IH" [OF False e [symmetric]] False show ?thesis
      by (subst (1 2) make_room.simps) (auto split: sum.split)
  qed
qed

lemma quiet_make_room: "quiet make_room"
  using make_room_quiet by (auto simp: quiet_def maintains_def)

lemma quiet_get_correlation: "quiet (get_correlation now item_id)"
proof -
  have n: "quiet (and_then (gets (new_correlation now)) (\<lambda>c.
      and_then (update (\<lambda>s. s\<lparr>prod_correlations := dict_set (correlation_key item_id s) c (prod_correlations s)\<rparr>)) (\<lambda>_. ret c)))"
    unfolding quiet_def maintains_def and_then_def gets_def update_def by (auto intro!: stored_correlation simp: new_correlation_def)
  show ?thesis unfolding get_correlation_def
    by (rule quiet_and_then [OF quiet_ret(3)], rule quiet_option, rule quiet_and_then [OF quiet_make_room], rule n, rule quiet_ret)
qed

lemma quiet_read_correlation: "quiet (read_correlation item_id)"
  unfolding read_correlation_def by (intro quiet_rules)

lemma quiet_index_target: "quiet (index_target item_id target)"
  unfolding index_target_def
  by (intro quiet_rules quiet_read_correlation quiet_update) (simp_all add: Let_def stored_change)

lemma quiet_index_targets: "quiet (index_targets item_id targets)"
  by (induction targets) (simp_all only: index_targets.simps quiet_ret quiet_and_then quiet_index_target)

lemma enforce_payload_quiet:
  "stored_ok s \<Longrightarrow> stored_ok (fst (enforce_payload_loop enc bytes s)) \<and> agents_of (fst (enforce_payload_loop enc bytes s)) = agents_of s"
proof (induction enc bytes s rule: enforce_payload_loop.induct)
  case (1 enc bytes s)
  show ?case
  proof (cases "length (prod_invocations s) \<le> OBSERVER_CORRELATION_PAYLOAD_LIMIT \<and> bytes \<le> int OBSERVER_CORRELATION_PAYLOAD_MAX_BYTES")
    case True
    then show ?thesis using 1 by (subst (1 2) enforce_payload_loop.simps) simp
  next
    case False
    show ?thesis
    proof (cases "prod_invocations s")
      case Nil
      then show ?thesis using 1 False by (subst (1 2) enforce_payload_loop.simps) simp
    next
      case (Cons p rest)
      obtain key m where p: "p = (key, m)" by (rule prod.exhaust)
      have rest: "stored_ok (s\<lparr>prod_invocations := rest\<rparr>)" using "1.prems" Cons by (simp add: stored_ok_def vals_ok_def)
      show ?thesis
      proof (cases "dict_get (prod_correlations s) key")
        case None
        then show ?thesis using rest False Cons p "1.prems" by (subst (1 2) enforce_payload_loop.simps) simp
      next
        case (Some c)
        let ?s = "s\<lparr>prod_correlations := dict_set key (c\<lparr>cor_uncertain := True\<rparr>) (prod_correlations s), prod_invocations := rest\<rparr>"
        have "stored_ok ?s" using rest stored_get [OF "1.prems" Some] by (simp add: stored_ok_def vals_ok_set)
        then have "stored_ok (mark_correlation_incomplete ?s)" "agents_of (mark_correlation_incomplete ?s) = agents_of s"
          by (simp_all add: agents_of_def)
        with "1.IH" [OF False Cons p [symmetric] Some] show ?thesis
          using False Cons p Some "1.prems" by (subst (1 2) enforce_payload_loop.simps) simp
      qed
    qed
  qed
qed

lemma quiet_enforce: "quiet (enforce_payload_bounds enc)"
  using enforce_payload_quiet by (auto simp: quiet_def maintains_def enforce_payload_bounds_def)

lemma quiet_required: "quiet (required x)"
  unfolding required_def by (intro quiet_rules)

lemma quiet_remember_invocation:
  "dict_get e (lit ''item'') \<noteq> None \<Longrightarrow> quiet (remember_collaboration_invocation rep enc now item_id e)"
  unfolding remember_collaboration_invocation_def Let_def
  by (intro quiet_rules quiet_get_correlation quiet_update quiet_required quiet_index_targets quiet_read_correlation quiet_enforce)
    (simp_all add: stored_change stored_invocations(1))

lemma quiet_readers:
  "quiet (correlation_is_uncertain now item_id)" "quiet (root_request_context_was_sent now item_id target)"
  "quiet (mark_root_request_context_sent now item_id target)"
  unfolding correlation_is_uncertain_def root_request_context_was_sent_def mark_root_request_context_sent_def
  by (intro quiet_rules quiet_get_correlation quiet_update; simp add: stored_change)+

lemma quiet_settle: "quiet (settle_correlation now item_id)"
  unfolding settle_correlation_def
  by (intro quiet_rules quiet_get_correlation quiet_update) (simp add: stored_invocations(2))

lemma quiet_complete: "quiet (complete_activity now item_id target)"
  unfolding complete_activity_def
  by (intro quiet_rules quiet_get_correlation quiet_update quiet_settle) (simp add: stored_change)

lemma finish_under_quiet:
  assumes "stored_ok s"
  shows "stored_ok (fst (finish_target_under now target key s)) \<and> agents_of (fst (finish_target_under now target key s)) = agents_of s"
proof (cases "dict_get (prod_correlations s) key")
  case (Some c)
  let ?s = "s\<lparr>prod_correlations := dict_set key (c\<lparr>cor_finished_targets := List.insert target (cor_finished_targets c),
      cor_activities := dict_pop target (cor_activities c)\<rparr>) (prod_correlations s)\<rparr>"
  have "stored_ok ?s" using stored_get [OF assms Some] assms by (intro stored_correlation) (auto intro: vals_ok_pop)
  then have "stored_ok (fst (settle_correlation now (snd (snd key)) ?s)) \<and> agents_of (fst (settle_correlation now (snd (snd key)) ?s)) = agents_of ?s"
    using quiet_settle [of now "snd (snd key)"] unfolding quiet_def maintains_def by blast
  then show ?thesis using Some
    by (simp add: finish_target_under_def and_then_def gets_def update_def)
qed (use assms in \<open>simp add: finish_target_under_def and_then_def gets_def\<close>)

lemma quiet_finish_all: "quiet (finish_target_under_all now target keys)"
proof (induction keys)
  case (Cons k ks)
  have "quiet (finish_target_under now target k)" using finish_under_quiet by (auto simp: quiet_def maintains_def)
  with Cons show ?case by (simp only: finish_target_under_all.simps quiet_and_then)
qed (simp only: finish_target_under_all.simps quiet_ret)

lemma quiet_expire_keys: "quiet (expire_keys now cs expired)"
  by (induction now cs expired rule: expire_keys.induct) (auto simp only: expire_keys.simps intro!: quiet_ret quiet_and_then quiet_evict quiet_if)

lemma quiet_expire: "quiet (expire_protocol_state now)"
  unfolding expire_protocol_state_def by (intro quiet_rules quiet_expire_keys)

lemma facts_more: "observer_state.more s' = observer_state.more s \<Longrightarrow> stored_ok s' = stored_ok s \<and> agents_of s' = agents_of (s :: producer)"
  by (cases s; cases s') (simp add: stored_ok_def agents_of_def)

lemma quiet_publishing: "quiet (publish_event rep enc e)" "quiet (publish_snapshot enc)" "quiet (lift_prune enc target)"
proof -
  show "quiet (publish_event rep enc e)"
    unfolding quiet_def maintains_def publish_event_def by (auto split: prod.split dest!: observe_event_more facts_more)
  show "quiet (publish_snapshot enc)"
    unfolding quiet_def maintains_def publish_snapshot_def using facts_more [OF publish_more(1)] by (auto split: prod.split) (metis fst_conv)+
  show "quiet (lift_prune enc target)"
    unfolding quiet_def maintains_def lift_prune_def by (auto split: sum.split prod.split dest!: prune_target_more facts_more)
qed

lemma quiet_parent: "quiet (remember_parent_user_message e)"
  unfolding remember_parent_user_message_def by (intro quiet_rules quiet_update) simp

subsection \<open>Operations on agents\<close>

lemma ret_bind: "and_then (ret x) k = k x"
  by (simp add: and_then_def fun_eq_iff)

lemma wp_conj:
  assumes "wp m Q E s" "wp m Q' E' s"
  shows "wp m (\<lambda>x s. Q x s \<and> Q' x s) (\<lambda>e s. E e s \<and> E' e s) s"
  using assms by (auto simp: wp_def split: prod.splits sum.splits)

lemma wp_quiet:
  assumes "quiet m" "stored_ok s" "\<And>x s'. stored_ok s' \<Longrightarrow> agents_of s' = agents_of s \<Longrightarrow> Q x s'"
  shows "wp m Q (\<lambda>_ _. True) s"
proof -
  obtain s' r where m: "m s = (s', r)" by (rule prod.exhaust)
  from quiet_state [OF assms(1,2) m] assms(3) show ?thesis by (simp add: wp_def m split: sum.split)
qed

lemma agents_ofD: "agents_of s' = agents_of s \<Longrightarrow>
    prod_known_agents s' = prod_known_agents s \<and> prod_agent_paths s' = prod_agent_paths s \<and> prod_active_work s' = prod_active_work s \<and> prod_root_thread_id s' = prod_root_thread_id s"
  by (simp add: agents_of_def)

lemma named_agents: "agents_of s' = agents_of s \<Longrightarrow> named_ok s \<Longrightarrow> named_ok s'"
  by (simp add: named_ok_def agents_of_def)

lemma keys_image [simp]:
  "fst ` set (dict_set k v d) = insert k (fst ` set d)" "fst ` set (dict_pop k d) = fst ` set d - {k}"
  using dict_keys_set_set [of k v d] by (auto simp: dict_pop_def)

text \<open>The same known agents with the same paths, and the same root thread.\<close>

definition same_names :: "producer \<Rightarrow> producer \<Rightarrow> bool" where
  "same_names s s' \<longleftrightarrow> prod_known_agents s' = prod_known_agents s \<and> prod_agent_paths s' = prod_agent_paths s \<and>
     prod_root_thread_id s' = prod_root_thread_id s"

lemma same_namesD: "same_names s s' \<Longrightarrow> named_ok s' = named_ok s \<and> knows_agent t s' = knows_agent t s"
  by (simp add: same_names_def named_ok_def knows_agent_def)

lemma wp_record_known:
  assumes "knows_agent target s" "stored_ok s"
  shows "wp (record_work target turn request) (\<lambda>_ s'. stored_ok s' \<and> same_names s s' \<and> tracks_target target s') (\<lambda>_ _. True) s"
  using assms by (simp add: record_work_def remember_agent_def Let_def same_names_def tracks_target_def)

lemma start_facts:
  assumes "knows_agent target s" "stored_ok s"
  shows "wp (start_agent_work now reader target turn request)
    (\<lambda>b s'. stored_ok s' \<and> same_names s s' \<and> (b \<or> request = None \<longrightarrow> tracks_target target s')) (\<lambda>_ _. True) s"
proof -
  have work: "wp (record_work target turn' request')
      (\<lambda>b s'. stored_ok s' \<and> same_names s s' \<and> (b \<or> request = None \<longrightarrow> tracks_target target s')) (\<lambda>_ _. True) s1"
    if "stored_ok s1" "agents_of s1 = agents_of s" for turn' request' s1
  proof (rule wp_mono [OF wp_record_known])
    show "knows_agent target s1" "stored_ok s1" using that assms by (auto simp: knows_agent_def agents_of_def)
  qed (use that in \<open>auto simp: same_names_def agents_of_def\<close>)
  have same: "same_names s s1" if "agents_of s1 = agents_of s" for s1 using that by (simp add: same_names_def agents_of_def)
  show ?thesis
  proof (cases request)
    case None
    then show ?thesis using work [of s turn None] assms by (simp add: start_agent_work_def)
  next
    case (Some i)
    let ?Q = "\<lambda>b s'. stored_ok s' \<and> same_names s s' \<and> (b \<or> request = None \<longrightarrow> tracks_target target s')"
    let ?tail = "\<lambda>c. if target \<in> set (cor_started_targets c) \<or> target \<in> set (cor_finished_targets c) then ret False
            else if cor_uncertain c then (case reconciled_turn reader target of None \<Rightarrow> ret False | Some active \<Rightarrow> record_work target (Some active) None)
            else and_then (update (change_correlation i (\<lambda>c. c\<lparr>cor_started_targets := List.insert target (cor_started_targets c)\<rparr>))) (\<lambda>_.
              record_work target turn request)"
    have tail: "wp (?tail c) ?Q (\<lambda>_ _. True) s2" if s2: "stored_ok s2" "agents_of s2 = agents_of s" for s2 c
    proof -
      have "stored_ok (change_correlation i (\<lambda>c. c\<lparr>cor_started_targets := List.insert target (cor_started_targets c)\<rparr>) s2) \<and>
          agents_of (change_correlation i (\<lambda>c. c\<lparr>cor_started_targets := List.insert target (cor_started_targets c)\<rparr>) s2) = agents_of s"
        using stored_change [OF s2(1)] s2(2) by simp
      moreover have "request \<noteq> None" using Some by simp
      ultimately show ?thesis using work s2 same by (auto split: option.split)
    qed
    let ?rest = "\<lambda>c. if target_limit_reached target c then and_then (update mark_correlation_incomplete) (\<lambda>_. ret False)
          else and_then (index_target i target) (\<lambda>_. ?tail c)"
    have "wp (?rest c) ?Q (\<lambda>_ _. True) s1" if s1: "stored_ok s1" "agents_of s1 = agents_of s" for c s1
    proof (cases "target_limit_reached target c")
      case True
      then show ?thesis using s1 same [of "mark_correlation_incomplete s1"] Some by simp
    next
      case False
      have "wp (index_target i target) (\<lambda>_. wp (?tail c) ?Q (\<lambda>_ _. True)) (\<lambda>_ _. True) s1"
        by (rule wp_quiet [OF quiet_index_target s1(1)]) (rule tail, use s1(2) in auto)
      then show ?thesis using False by (simp only: wp_and_then if_False)
    qed
    then have "wp (get_correlation now i) (\<lambda>c. wp (?rest c) ?Q (\<lambda>_ _. True)) (\<lambda>_ _. True) s"
      by (intro wp_quiet [OF quiet_get_correlation assms(2)]) blast
    then have "wp (and_then (get_correlation now i) ?rest) ?Q (\<lambda>_ _. True) s" by (simp only: wp_and_then)
    then show ?thesis using Some by (simp only: start_agent_work_def option.case)
  qed
qed

lemma finish_facts: "stored_ok s \<Longrightarrow> wp (finish_agent_work target turn request) (\<lambda>_ s'. stored_ok s' \<and> same_names s s') (\<lambda>_ _. True) s"
  by (auto simp: finish_agent_work_def same_names_def split: option.split)

lemma wp_remember_path:
  assumes "stored_ok s" "named_ok s" "target \<noteq> []"
  shows "wp (remember_agent target (Some path)) (\<lambda>ok s'. stored_ok s' \<and> named_ok s' \<and>
    prod_root_thread_id s' = prod_root_thread_id s \<and> (ok \<longrightarrow> knows_agent target s')) (\<lambda>_ _. True) s"
proof (cases "knows_agent target s")
  case True
  then show ?thesis using assms by (auto simp: remember_agent_def knows_agent_def named_ok_def)
next
  case False
  then show ?thesis using assms
    by (auto simp: remember_agent_def knows_agent_def admit_agent_def named_ok_def split: option.split)
qed

text \<open>What the coordinator reads of an activity before it hands it over.\<close>

definition activity_event_ok :: "(json \<Rightarrow> pystr) \<Rightarrow> event \<Rightarrow> bool" where
  "activity_event_ok rep e \<longleftrightarrow>
     activity_shape e \<and> item_field rep ''agent_path'' e \<noteq> None \<and> item_field rep ''agent_thread_id'' e \<noteq> Some []"

lemma shape_field: "activity_shape e \<Longrightarrow> item_field rep ''agent_thread_id'' e \<noteq> None \<and> item_field rep ''id'' e \<noteq> None"
  by (auto simp: activity_shape_def item_field_def split: option.splits json.splits)

lemma dict_get_filter_key: "k \<noteq> x \<Longrightarrow> dict_get (filter (\<lambda>(k', _). k' \<noteq> x) d) k = dict_get d k"
  by (induction d) auto

lemma shape_filter: "activity_shape e \<Longrightarrow> activity_shape (filter (\<lambda>(k, _). k \<noteq> lit ''collaboration_invocation'') e)"
  by (simp add: activity_shape_def dict_get_filter_key)

lemma remember_activity_facts:
  assumes "stored_ok s" "named_ok s" "activity_event_ok rep e" "item_field rep ''agent_thread_id'' e = Some target"
  shows "wp (remember_activity rep now item_id e) (\<lambda>ok s'. stored_ok s' \<and> named_ok s' \<and>
    prod_root_thread_id s' = prod_root_thread_id s \<and> (ok \<longrightarrow> knows_agent target s')) (\<lambda>_ _. True) s"
proof -
  let ?Q = "\<lambda>ok s'. stored_ok s' \<and> named_ok s' \<and> prod_root_thread_id s' = prod_root_thread_id s \<and> (ok \<longrightarrow> knows_agent target s')"
  obtain path where path: "item_field rep ''agent_path'' e = Some path" and target: "target \<noteq> []" and shape: "activity_shape e"
    using assms(3,4) by (auto simp: activity_event_ok_def)
  let ?keep = "change_correlation item_id (\<lambda>c. c\<lparr>cor_activities :=
      dict_set target (filter (\<lambda>(k, _). k \<noteq> lit ''collaboration_invocation'') e) (cor_activities c)\<rparr>)"
  let ?store = "\<lambda>c. if (case dict_get (cor_activities c) target of None \<Rightarrow> False | Some previous \<Rightarrow> py_eq (JDict previous) (JDict e)) then ret False
      else and_then (update ?keep) (\<lambda>_. and_then (index_target item_id target) (\<lambda>_. ret True))"
  have store: "wp (?store c) ?Q (\<lambda>_ _. True) s2" if s2: "stored_ok s2" "named_ok s2" "prod_root_thread_id s2 = prod_root_thread_id s" "knows_agent target s2" for c s2
  proof -
    have k: "stored_ok (?keep s2) \<and> agents_of (?keep s2) = agents_of s2"
      by (rule stored_change [OF s2(1)]) (use shape_filter [OF shape] in \<open>simp add: vals_ok_set\<close>)
    have "wp (index_target item_id target) (\<lambda>_. ?Q True) (\<lambda>_ _. True) (?keep s2)"
      using k s2 by (intro wp_quiet [OF quiet_index_target]) (auto simp: named_ok_def knows_agent_def agents_of_def)
    then show ?thesis using s2 by (auto split: option.split)
  qed
  let ?rest = "\<lambda>c. if target \<in> set (cor_finished_targets c) then ret False
      else if target_limit_reached target c then and_then (update mark_correlation_incomplete) (\<lambda>_. ret False)
      else and_then (remember_agent target (Some path)) (\<lambda>ok. if \<not> ok then ret False else ?store c)"
  have rest: "wp (?rest c) ?Q (\<lambda>_ _. True) s1" if s1: "stored_ok s1" "agents_of s1 = agents_of s" for c s1
  proof -
    have r: "prod_root_thread_id s1 = prod_root_thread_id s" using s1(2) by (simp add: agents_of_def)
    have named: "named_ok s1" "named_ok (mark_correlation_incomplete s1)"
      using s1(2) assms(2) named_agents [of s1 s] named_agents [of "mark_correlation_incomplete s1" s] by auto
    have "wp (remember_agent target (Some path)) (\<lambda>ok. wp (if \<not> ok then ret False else ?store c) ?Q (\<lambda>_ _. True)) (\<lambda>_ _. True) s1"
    proof (rule wp_mono [OF wp_remember_path [OF s1(1) named(1) target]])
      fix ok s2 assume s2: "stored_ok s2 \<and> named_ok s2 \<and> prod_root_thread_id s2 = prod_root_thread_id s1 \<and> (ok \<longrightarrow> knows_agent target s2)"
      show "wp (if \<not> ok then ret False else ?store c) ?Q (\<lambda>_ _. True) s2"
      proof (cases ok)
        case True
        with s2 r store [of s2 c] show ?thesis by (simp only: not_True_eq_False if_False)
      next
        case False
        with s2 r show ?thesis by simp
      qed
    qed
    then show ?thesis using s1 named r by simp
  qed
  have run: "wp (and_then (get_correlation now item_id) ?rest) ?Q (\<lambda>_ _. True) s"
    unfolding wp_and_then by (rule wp_quiet [OF quiet_get_correlation assms(1)]) (rule rest)
  have eq: "remember_activity rep now item_id e =
      and_then (gets (from_root e)) (\<lambda>own. if \<not> own then ret False else and_then (get_correlation now item_id) ?rest)"
    by (simp only: remember_activity_def required_def assms(4) path option.case ret_bind)
  show ?thesis
  proof (cases "from_root e s")
    case True
    then show ?thesis using run by (simp only: eq wp_and_then [of "gets (from_root e)"] wp_gets not_True_eq_False if_False)
  next
    case False
    then show ?thesis using assms(1,2) by (simp add: eq)
  qed
qed

lemma prune_facts: "stored_ok s \<Longrightarrow> wp (prune_protocol_target enc now target) (\<lambda>_ s'. stored_ok s' \<and> same_names s s') (\<lambda>_ _. True) s"
proof -
  assume s: "stored_ok s"
  have "quiet (and_then (gets (\<lambda>s. case dict_get (prod_invocation_targets s) target of None \<Rightarrow> [] | Some ks \<Rightarrow> ks)) (\<lambda>keys.
      and_then (finish_target_under_all now target keys) (\<lambda>_. lift_prune enc target)))"
    by (intro quiet_rules quiet_finish_all quiet_publishing)
  then have "wp (and_then (gets (\<lambda>s. case dict_get (prod_invocation_targets s) target of None \<Rightarrow> [] | Some ks \<Rightarrow> ks)) (\<lambda>keys.
      and_then (finish_target_under_all now target keys) (\<lambda>_. lift_prune enc target))) (\<lambda>_ s'. stored_ok s' \<and> same_names s s') (\<lambda>_ _. True) s1"
    if "stored_ok s1" "same_names s s1" for s1
    using that by (elim wp_quiet) (auto simp: same_names_def agents_of_def)
  then show ?thesis unfolding prune_protocol_target_def wp_and_then [of "finish_agent_work target None None"]
    by (intro wp_mono [OF finish_facts [OF s]]) auto
qed

subsection \<open>No operation fails on the coordinator's input\<close>

definition producer_ok :: "(json \<Rightarrow> pystr) \<Rightarrow> (message \<Rightarrow> nat) \<Rightarrow> producer \<Rightarrow> bool" where
  "producer_ok rep enc p \<longleftrightarrow> prod_inv rep enc p \<and> stored_ok p \<and> named_ok p"

abbreviation runs :: "'a producer_action \<Rightarrow> ('a \<Rightarrow> producer \<Rightarrow> bool) \<Rightarrow> producer \<Rightarrow> bool" where
  "runs m Q p \<equiv> wp m Q (\<lambda>_ _. False) p"

lemma runsI:
  assumes "wp m (\<lambda>x p'. prod_ok rep enc False p p' \<and> R x p') (\<lambda>_ _. False) p" "wp m (\<lambda>x p'. stored_ok p' \<and> named_ok p' \<and> S x p') (\<lambda>_ _. True) p"
  shows "runs m (\<lambda>x p'. producer_ok rep enc p' \<and> R x p' \<and> S x p') p"
  by (rule wp_mono [OF wp_conj [OF assms]]) (auto simp: producer_ok_def dest: prod_inv_of_ok)

lemma runs_quiet:
  assumes "producer_ok rep enc p" "quiet m" "wp m (\<lambda>x p'. prod_ok rep enc False p p' \<and> R x p') (\<lambda>_ _. False) p"
  shows "runs m (\<lambda>x p'. producer_ok rep enc p' \<and> R x p' \<and> agents_of p' = agents_of p) p"
proof (rule runsI [OF assms(3)])
  show "wp m (\<lambda>x p'. stored_ok p' \<and> named_ok p' \<and> agents_of p' = agents_of p) (\<lambda>_ _. True) p"
    by (rule wp_quiet [OF assms(2)]) (use assms(1) named_agents in \<open>unfold producer_ok_def, blast+\<close>)
qed

lemma producer_ok_start: "producer_ok rep enc p \<Longrightarrow> prod_ok rep enc False p p"
  by (simp add: producer_ok_def prod_inv_ok)

lemmas quiet_runs = runs_quiet [where R = "\<lambda>_ _. True"]

lemma runs_readers:
  assumes "producer_ok rep enc p"
  shows "runs (correlation_is_uncertain now i) (\<lambda>_ p'. producer_ok rep enc p' \<and> agents_of p' = agents_of p) p"
    "runs (root_request_context_was_sent now i t) (\<lambda>_ p'. producer_ok rep enc p' \<and> agents_of p' = agents_of p) p"
    "runs (mark_root_request_context_sent now i t) (\<lambda>_ p'. producer_ok rep enc p' \<and> agents_of p' = agents_of p) p"
    "runs (complete_activity now i t) (\<lambda>_ p'. producer_ok rep enc p' \<and> agents_of p' = agents_of p) p"
    "runs (settle_correlation now i) (\<lambda>_ p'. producer_ok rep enc p' \<and> agents_of p' = agents_of p) p"
    "runs (expire_protocol_state now) (\<lambda>_ p'. producer_ok rep enc p' \<and> agents_of p' = agents_of p) p"
    "runs (remember_parent_user_message m) (\<lambda>_ p'. producer_ok rep enc p' \<and> agents_of p' = agents_of p) p"
proof -
  note ok = producer_ok_start [OF assms]
  show "runs (correlation_is_uncertain now i) (\<lambda>_ p'. producer_ok rep enc p' \<and> agents_of p' = agents_of p) p"
    using quiet_runs [OF assms quiet_readers(1) wp_correlation_readers(1) [OF ok]] by simp
  show "runs (root_request_context_was_sent now i t) (\<lambda>_ p'. producer_ok rep enc p' \<and> agents_of p' = agents_of p) p"
    using quiet_runs [OF assms quiet_readers(2) wp_correlation_readers(2) [OF ok]] by simp
  show "runs (mark_root_request_context_sent now i t) (\<lambda>_ p'. producer_ok rep enc p' \<and> agents_of p' = agents_of p) p"
    using quiet_runs [OF assms quiet_readers(3) wp_mark_root_request_context_sent [OF ok]] by simp
  show "runs (complete_activity now i t) (\<lambda>_ p'. producer_ok rep enc p' \<and> agents_of p' = agents_of p) p"
    using quiet_runs [OF assms quiet_complete wp_complete_activity [OF ok]] by simp
  show "runs (settle_correlation now i) (\<lambda>_ p'. producer_ok rep enc p' \<and> agents_of p' = agents_of p) p"
    using quiet_runs [OF assms quiet_settle wp_settle_correlation [OF ok]] by simp
  show "runs (expire_protocol_state now) (\<lambda>_ p'. producer_ok rep enc p' \<and> agents_of p' = agents_of p) p"
    using quiet_runs [OF assms quiet_expire wp_expire_protocol_state [OF ok]] by simp
  have "wp (remember_parent_user_message m) (\<lambda>_ p'. prod_ok rep enc False p p' \<and> True) (\<lambda>_ _. False) p"
    using ok by (simp add: remember_parent_user_message_def prod_ok_def obs_wf_def retained_def tables_ok_def not_older_def)
  from quiet_runs [OF assms quiet_parent this]
  show "runs (remember_parent_user_message m) (\<lambda>_ p'. producer_ok rep enc p' \<and> agents_of p' = agents_of p) p" by simp
qed

lemma runs_publish:
  assumes "producer_ok rep enc p"
  shows "jfield e ''schema'' = JStr OBSERVER_SCHEMA \<Longrightarrow>
      runs (publish_event rep enc e) (\<lambda>m p'. producer_ok rep enc p' \<and> snapshot_fits enc m \<and> agents_of p' = agents_of p) p"
    "runs (publish_snapshot enc) (\<lambda>m p'. producer_ok rep enc p' \<and> snapshot_fits enc m \<and> agents_of p' = agents_of p) p"
proof -
  note ok = producer_ok_start [OF assms]
  show "jfield e ''schema'' = JStr OBSERVER_SCHEMA \<Longrightarrow>
      runs (publish_event rep enc e) (\<lambda>m p'. producer_ok rep enc p' \<and> snapshot_fits enc m \<and> agents_of p' = agents_of p) p"
    by (rule runs_quiet [OF assms quiet_publishing(1) wp_publish_event [OF ok]]) (auto dest: published_fits)
  show "runs (publish_snapshot enc) (\<lambda>m p'. producer_ok rep enc p' \<and> snapshot_fits enc m \<and> agents_of p' = agents_of p) p"
    by (rule runs_quiet [OF assms quiet_publishing(2) wp_publish_snapshot [OF ok]]) (auto dest: published_fits)
qed

lemma runs_remember_invocation:
  assumes "producer_ok rep enc p" "dict_get e (lit ''item'') = Some (JDict item)" "dict_get item (lit ''receiver_thread_ids'') = Some (JList xs)"
  shows "runs (remember_collaboration_invocation rep' enc now i e) (\<lambda>_ p'. producer_ok rep enc p' \<and> agents_of p' = agents_of p) p"
proof -
  have r: "invocation_receivers rep' e = Some (map (py_str rep') xs)" by (simp add: invocation_receivers_def assms)
  have "wp (remember_collaboration_invocation rep' enc now i e) (\<lambda>_ p'. prod_ok rep enc False p p' \<and> True) (\<lambda>_ _. False) p"
    by (rule wp_remember_invocation_fields [OF producer_ok_start [OF assms(1)]]) (simp_all add: r)
  from quiet_runs [OF assms(1) quiet_remember_invocation this] assms(2) show ?thesis by simp
qed

lemma runs_start:
  assumes "producer_ok rep enc p" "knows_agent target p"
  shows "runs (start_agent_work now reader target turn request)
    (\<lambda>b p'. producer_ok rep enc p' \<and> same_names p p' \<and> (b \<or> request = None \<longrightarrow> tracks_target target p')) p"
proof -
  have s: "stored_ok p" "named_ok p" using assms(1) by (auto simp: producer_ok_def)
  have "wp (start_agent_work now reader target turn request) (\<lambda>_ p'. prod_ok rep enc False p p' \<and> True) (\<lambda>_ _. False) p"
    by (rule wp_start_agent_work [OF producer_ok_start [OF assms(1)]]) simp
  moreover have "wp (start_agent_work now reader target turn request) (\<lambda>b p'. stored_ok p' \<and> named_ok p' \<and> same_names p p' \<and> (b \<or> request = None \<longrightarrow> tracks_target target p')) (\<lambda>_ _. True) p"
    by (rule wp_mono [OF start_facts [OF assms(2) s(1)]]) (use s(2) same_namesD in auto)
  ultimately have "runs (start_agent_work now reader target turn request) (\<lambda>b p'. producer_ok rep enc p' \<and> True \<and> same_names p p' \<and> (b \<or> request = None \<longrightarrow> tracks_target target p')) p"
    by (rule runsI)
  then show ?thesis by simp
qed

lemma runs_finish:
  assumes "producer_ok rep enc p"
  shows "runs (finish_agent_work target turn request) (\<lambda>_ p'. producer_ok rep enc p' \<and> same_names p p') p"
proof -
  have s: "stored_ok p" "named_ok p" using assms(1) by (auto simp: producer_ok_def)
  have "wp (finish_agent_work target turn request) (\<lambda>_ p'. prod_ok rep enc False p p' \<and> True) (\<lambda>_ _. False) p"
    by (rule wp_finish_agent_work [OF producer_ok_start [OF assms(1)]]) simp
  moreover have "wp (finish_agent_work target turn request) (\<lambda>_ p'. stored_ok p' \<and> named_ok p' \<and> same_names p p') (\<lambda>_ _. True) p"
    by (rule wp_mono [OF finish_facts [OF s(1)]]) (use s(2) same_namesD in auto)
  ultimately have "runs (finish_agent_work target turn request) (\<lambda>b p'. producer_ok rep enc p' \<and> True \<and> same_names p p') p"
    by (rule runsI)
  then show ?thesis by simp
qed

lemma runs_prune:
  assumes "producer_ok rep enc p" "target \<noteq> []"
  shows "runs (prune_protocol_target enc now target) (\<lambda>m p'. producer_ok rep enc p' \<and> snapshot_fits enc m \<and> same_names p p') p"
proof -
  have s: "stored_ok p" "named_ok p" using assms(1) by (auto simp: producer_ok_def)
  have "wp (prune_protocol_target enc now target) (\<lambda>m p'. prod_ok rep enc False p p' \<and> snapshot_fits enc m) (\<lambda>_ _. False) p"
    by (rule wp_prune_protocol_target_named [OF producer_ok_start [OF assms(1)]]) (use assms(2) in \<open>auto dest: published_fits\<close>)
  moreover have "wp (prune_protocol_target enc now target) (\<lambda>_ p'. stored_ok p' \<and> named_ok p' \<and> same_names p p') (\<lambda>_ _. True) p"
    by (rule wp_mono [OF prune_facts [OF s(1)]]) (use s(2) same_namesD in auto)
  ultimately have "runs (prune_protocol_target enc now target) (\<lambda>b p'. producer_ok rep enc p' \<and> snapshot_fits enc b \<and> same_names p p') p"
    by (rule runsI)
  then show ?thesis by simp
qed

lemma runs_remember_activity:
  assumes "producer_ok rep enc p" "activity_event_ok rep' e" "item_field rep' ''agent_thread_id'' e = Some target"
  shows "runs (remember_activity rep' now item_id e) (\<lambda>fresh p'. producer_ok rep enc p' \<and>
    prod_root_thread_id p' = prod_root_thread_id p \<and> (fresh \<longrightarrow> knows_agent target p')) p"
proof -
  have s: "stored_ok p" "named_ok p" using assms(1) by (auto simp: producer_ok_def)
  have "wp (remember_activity rep' now item_id e) (\<lambda>_ p'. prod_ok rep enc False p p' \<and> True) (\<lambda>_ _. False) p"
    by (rule wp_remember_activity_fields [OF producer_ok_start [OF assms(1)]])
      (use assms(2) shape_field [of e rep'] in \<open>auto simp: activity_event_ok_def\<close>)
  from runsI [OF this, of "\<lambda>fresh p'. prod_root_thread_id p' = prod_root_thread_id p \<and> (fresh \<longrightarrow> knows_agent target p')"] show ?thesis
    using remember_activity_facts [OF s assms(2,3)] by simp
qed

lemma cleared_facts: "stored_ok (clear_protocol_state s)" "named_ok (clear_protocol_state s)" "prod_known_agents (clear_protocol_state s) = []"
  "prod_root_thread_id (clear_protocol_state s) = prod_root_thread_id s"
  by (simp_all add: stored_ok_def named_ok_def clear_protocol_state_def)

lemma runs_clear:
  assumes "producer_ok rep enc p"
  shows "runs (reset_epoch enc) (\<lambda>m p'. producer_ok rep enc p' \<and> snapshot_fits enc m \<and> prod_known_agents p' = [] \<and> prod_root_thread_id p' = prod_root_thread_id p) p"
    "runs discard_producer_state (\<lambda>_ p'. producer_ok rep enc p' \<and> prod_known_agents p' = [] \<and> prod_root_thread_id p' = prod_root_thread_id p) p"
proof -
  note ok = producer_ok_start [OF assms]
  have "wp (reset_epoch enc) (\<lambda>m p'. prod_ok rep enc False p p' \<and> snapshot_fits enc m) (\<lambda>_ _. False) p"
    by (rule wp_reset_epoch [OF ok]) (auto dest: published_fits)
  moreover have "wp (reset_epoch enc) (\<lambda>_ p'. stored_ok p' \<and> named_ok p' \<and> prod_known_agents p' = [] \<and> prod_root_thread_id p' = prod_root_thread_id p) (\<lambda>_ _. True) p"
  proof -
    let ?t = "clear_protocol_state (reset_events p)"
    obtain s' m where r: "take_snapshot enc ?t = (s', m)" by (rule prod.exhaust)
    then have "observer_state.more s' = observer_state.more ?t" using publish_more(1) [of enc ?t] by simp
    from facts_more [OF this] cleared_facts [of "reset_events p"] have "stored_ok s'" "named_ok s'" "prod_known_agents s' = []"
      "prod_root_thread_id s' = prod_root_thread_id p"
      by (auto simp: agents_of_def named_ok_def reset_events_def clear_events_def)
    then show ?thesis by (simp add: wp_def reset_epoch_def r)
  qed
  ultimately show "runs (reset_epoch enc) (\<lambda>m p'. producer_ok rep enc p' \<and> snapshot_fits enc m \<and> prod_known_agents p' = [] \<and> prod_root_thread_id p' = prod_root_thread_id p) p"
    by (rule runsI)
  show "runs discard_producer_state (\<lambda>_ p'. producer_ok rep enc p' \<and> prod_known_agents p' = [] \<and> prod_root_thread_id p' = prod_root_thread_id p) p"
    using prod_inv_of_ok [OF discard_ok [OF ok]] cleared_facts [of "clear_events p"] by (simp add: discard_producer_state_def producer_ok_def clear_events_def)
qed

lemma runs_bind_root:
  assumes "producer_ok rep enc p" "prod_root_thread_id p = None"
  shows "runs (observer_bind_root_thread r) (\<lambda>_ p'. producer_ok rep enc p' \<and> prod_known_agents p' = prod_known_agents p) p"
proof -
  have "prod_inv rep enc (p\<lparr>prod_root_thread_id := Some r\<rparr>)"
    using assms(1) by (simp add: producer_ok_def prod_inv_def obs_wf_def retained_def tables_ok_def)
  then show ?thesis using assms by (simp add: observer_bind_root_thread_def producer_ok_def named_ok_def)
qed

lemma runs_work_started:
  assumes "producer_ok rep enc p" "knows_agent target p" "tracks_target target p"
  shows "runs (agent_work_started_event target r) (\<lambda>e p'. p' = p \<and> jfield e ''schema'' = JStr OBSERVER_SCHEMA) p"
proof -
  have "target \<in> set (dict_keys (prod_agent_paths p))" "target \<in> set (dict_keys (prod_active_work p))"
    using assms by (auto simp: producer_ok_def named_ok_def knows_agent_def tracks_target_def)
  then obtain path w where "dict_get (prod_agent_paths p) target = Some path" "dict_get (prod_active_work p) target = Some w"
    by (metis not_None_eq map_of_eq_None_iff set_map)
  then show ?thesis by (simp add: agent_work_started_event_def jfield_def)
qed

lemma activities_shape:
  assumes "stored_ok s" "a \<in> set (activities_of i s)"
  shows "activity_shape a"
proof -
  obtain c t where c: "dict_get (prod_correlations s) (correlation_key i s) = Some c" "(t, a) \<in> set (cor_activities c)"
    using assms(2) that [OF sym] by (fastforce simp: activities_of_def split: option.splits if_splits)
  from stored_get [OF assms(1) c(1)] c(2) show ?thesis by (auto simp: vals_ok_def list_all_iff)
qed

lemma invocation_item: "stored_ok s \<Longrightarrow> collaboration_invocation i s = Some e \<Longrightarrow> dict_get e (lit ''item'') \<noteq> None"
  unfolding stored_ok_def collaboration_invocation_def using vals_ok_get by fastforce

lemma new_producer_ok: "producer_ok rep enc new_producer"
  using new_producer_inv by (simp add: producer_ok_def stored_ok_def named_ok_def new_producer_def)

end
