(* ===== verification/Observer_Coordinator.thy ===== *)
theory Observer_Coordinator
  imports Observer_Facts
begin

section \<open>Observer coordinator\<close>

text \<open>
  \<open>AgentObserverCoordinator\<close> of \<^verbatim>\<open>src/rodex/agent_observer.py\<close>: it fences App Server events to the verified connection, projects
  them, drives the observer producer, sends its snapshots and opens and closes the observer pane. The lock makes every method one step.
  What the coordinator asks of the outside (the clock, the active-turn reader of the bound source, the trace cursor, the pane) is an
  environment whose answers are indexed by the number of questions asked so far. An \<^verbatim>\<open>OSError\<close> of a send is suppressed by the code, so a
  sent snapshot is an entry of a log, and so is every close and creation of the pane. A pane close that is not accepted is retried by a
  timer of the current close generation.
\<close>

datatype coordinator_error =
    UnhashableEvent
  | CursorFailed
  | AssertionFailed
  | CoordinatorClosed
  | AlreadyActivated
  | SessionNotPositive
  | BadSessionText
  | ReducerFailed observer_error

datatype pane_entry =
    PaneClose bool
  | PaneCreate event bool

record coordinator =
  co_producer :: producer
  co_database :: "pystr option"
  co_session :: "int option"
  co_session_text :: "pystr option"
  co_root :: "pystr option"
  co_source :: "pystr option"
  co_source_bound :: bool
  co_reader_bound :: bool
  co_closed :: bool
  co_close_pending :: bool
  co_close_attempts :: nat
  co_close_generation :: nat
  co_retry :: "nat option"
  co_asked :: nat
  co_sent :: "message list"
  co_pane :: "pane_entry list"

text \<open>The answers: \<open>ev_cursor\<close> is \<open>None\<close> when reading the cursor raised.\<close>

record coordinator_env =
  ev_rep :: "json \<Rightarrow> pystr"
  ev_enc :: "message \<Rightarrow> nat"
  ev_abspath :: "pystr \<Rightarrow> pystr"
  ev_now :: "nat \<Rightarrow> rat"
  ev_turn :: "nat \<Rightarrow> turn_reader"
  ev_cursor :: "nat \<Rightarrow> pystr option option"
  ev_close_accepted :: "nat \<Rightarrow> bool"
  ev_closure_confirmed :: "nat \<Rightarrow> bool"
  ev_located :: "nat \<Rightarrow> bool"
  ev_created :: "nat \<Rightarrow> bool"

type_synonym 'a coordinator_action = "(coordinator, coordinator_error, 'a) action"

definition new_coordinator :: coordinator where
  "new_coordinator =
     \<lparr>co_producer = new_producer, co_database = None, co_session = None, co_session_text = None, co_root = None, co_source = None,
      co_source_bound = False, co_reader_bound = True, co_closed = False, co_close_pending = False, co_close_attempts = 0,
      co_close_generation = 0, co_retry = None, co_asked = 0, co_sent = [], co_pane = []\<rparr>"

definition OBSERVER_PANE_CLOSE_RETRY_DELAYS :: "rat list" where
  "OBSERVER_PANE_CLOSE_RETRY_DELAYS = [1 / 10, 1 / 4, 1 / 2]"

subsection \<open>Questions and effects\<close>

definition look :: "(coordinator \<Rightarrow> 'a) \<Rightarrow> 'a coordinator_action" where
  "look f = (\<lambda>s. (s, Inr (f s)))"

definition change :: "(coordinator \<Rightarrow> coordinator) \<Rightarrow> unit coordinator_action" where
  "change f = (\<lambda>s. (f s, Inr ()))"

definition ask :: "(nat \<Rightarrow> 'a) \<Rightarrow> 'a coordinator_action" where
  "ask f = (\<lambda>s. (s\<lparr>co_asked := Suc (co_asked s)\<rparr>, Inr (f (co_asked s))))"

definition need :: "'a option \<Rightarrow> 'a coordinator_action" where
  "need x = (case x of None \<Rightarrow> raise AssertionFailed | Some v \<Rightarrow> ret v)"

text \<open>\<^verbatim>\<open>try ... finally\<close>: the final action runs after a value and after an error.\<close>

definition finally_do :: "'a coordinator_action \<Rightarrow> unit coordinator_action \<Rightarrow> 'a coordinator_action" where
  "finally_do m f =
     (\<lambda>s. case m s of
        (s', Inr x) \<Rightarrow> and_then f (\<lambda>_. ret x) s'
      | (s', Inl e) \<Rightarrow> and_then f (\<lambda>_. raise e) s')"

text \<open>The turn reader in force: that of the bound source, or after a reset one that knows nothing.\<close>

definition reader_of :: "coordinator_env \<Rightarrow> coordinator \<Rightarrow> turn_reader" where
  "reader_of env s = (if co_reader_bound s then ev_turn env (co_asked s) else (\<lambda>_. Some (False, None)))"

definition reducing :: "coordinator_env \<Rightarrow> (rat \<Rightarrow> turn_reader \<Rightarrow> 'a producer_action) \<Rightarrow> 'a coordinator_action" where
  "reducing env f =
     (\<lambda>s. case f (ev_now env (co_asked s)) (reader_of env s) (co_producer s) of
        (p, Inl e) \<Rightarrow> (s\<lparr>co_producer := p, co_asked := Suc (co_asked s)\<rparr>, Inl (ReducerFailed e))
      | (p, Inr x) \<Rightarrow> (s\<lparr>co_producer := p, co_asked := Suc (co_asked s)\<rparr>, Inr x))"

definition send_observer_snapshot :: "message \<Rightarrow> unit coordinator_action" where
  "send_observer_snapshot m = change (\<lambda>s. s\<lparr>co_sent := co_sent s @ [m]\<rparr>)"

definition send_published :: "coordinator_env \<Rightarrow> (rat \<Rightarrow> message producer_action) \<Rightarrow> unit coordinator_action" where
  "send_published env f = and_then (reducing env (\<lambda>now _. f now)) send_observer_snapshot"

definition send_observer_event :: "coordinator_env \<Rightarrow> event \<Rightarrow> unit coordinator_action" where
  "send_observer_event env e = send_published env (\<lambda>_. publish_event (ev_rep env) (ev_enc env) e)"

definition send_current :: "coordinator_env \<Rightarrow> unit coordinator_action" where
  "send_current env = send_published env (\<lambda>_. publish_snapshot (ev_enc env))"

text \<open>\<^verbatim>\<open>str(self._root_thread_id)\<close>.\<close>

definition root_text :: "coordinator \<Rightarrow> pystr" where
  "root_text s = (case co_root s of None \<Rightarrow> lit ''None'' | Some r \<Rightarrow> r)"

definition read_cursor :: "coordinator_env \<Rightarrow> json coordinator_action" where
  "read_cursor env =
     and_then (look (\<lambda>s. co_session s \<noteq> None \<and> co_database s \<noteq> None)) (\<lambda>bound.
     if \<not> bound then raise AssertionFailed
     else and_then (ask (ev_cursor env)) (\<lambda>c.
       case c of None \<Rightarrow> raise CursorFailed | Some cursor \<Rightarrow> ret (opt_json cursor)))"

subsection \<open>Events\<close>

definition publish_agent_work_started :: "coordinator_env \<Rightarrow> pystr \<Rightarrow> unit coordinator_action" where
  "publish_agent_work_started env target =
     and_then (look (\<lambda>s. co_session s \<noteq> None \<and> co_database s \<noteq> None)) (\<lambda>bound.
     if \<not> bound then raise AssertionFailed
     else and_then (look root_text) (\<lambda>r.
       and_then (reducing env (\<lambda>_ _. agent_work_started_event target r)) (\<lambda>e.
       and_then (read_cursor env) (\<lambda>cursor.
       send_observer_event env (dict_set (lit ''after_event_id'') cursor e)))))"

definition prune_target_thread :: "coordinator_env \<Rightarrow> pystr \<Rightarrow> unit coordinator_action" where
  "prune_target_thread env target = send_published env (\<lambda>now. prune_protocol_target (ev_enc env) now target)"

definition dict_text :: "coordinator_env \<Rightarrow> message \<Rightarrow> string \<Rightarrow> pystr" where
  "dict_text env d k = (case dict_get d (lit k) of None \<Rightarrow> [] | Some v \<Rightarrow> py_str (ev_rep env) v)"

definition prune_completed_activity :: "coordinator_env \<Rightarrow> event \<Rightarrow> unit coordinator_action" where
  "prune_completed_activity env e =
     (if jfield e ''method'' \<noteq> JStr (lit ''item/completed'') then ret ()
      else case as_dict (jfield e ''item'') of
        None \<Rightarrow> ret ()
      | Some item \<Rightarrow>
          reducing env (\<lambda>now _. complete_activity now (dict_text env item ''id'') (dict_text env item ''agent_thread_id'')))"

definition turn_of_params :: "message \<Rightarrow> pystr option" where
  "turn_of_params params = as_id (jpath (jfield params ''turn'') ''id'')"

definition finish_lifecycle :: "coordinator_env \<Rightarrow> pystr \<Rightarrow> pystr option \<Rightarrow> unit coordinator_action" where
  "finish_lifecycle env thread turn =
     and_then (reducing env (\<lambda>_ _. finish_agent_work thread turn None)) (\<lambda>finished.
     and_then (look (tracks_target thread \<circ> co_producer)) (\<lambda>tracked.
     if finished \<or> \<not> tracked then prune_target_thread env thread else ret ()))"

definition start_lifecycle :: "coordinator_env \<Rightarrow> pystr \<Rightarrow> pystr option \<Rightarrow> unit coordinator_action" where
  "start_lifecycle env thread turn =
     and_then (reducing env (\<lambda>now reader. start_agent_work now reader thread turn None)) (\<lambda>_.
     publish_agent_work_started env thread)"

definition is_inactive_status :: "json \<Rightarrow> bool" where
  "is_inactive_status j \<longleftrightarrow> j = JStr (lit ''idle'') \<or> j = JStr (lit ''notLoaded'') \<or> j = JStr (lit ''systemError'')"

definition status_lifecycle :: "coordinator_env \<Rightarrow> pystr \<Rightarrow> pystr option \<Rightarrow> json \<Rightarrow> unit coordinator_action" where
  "status_lifecycle env thread turn status =
     (case as_dict status of
        None \<Rightarrow> ret ()
      | Some st \<Rightarrow>
          and_then (if jfield st ''type'' = JStr (lit ''active'') then start_lifecycle env thread None else ret ()) (\<lambda>_.
          if \<not> is_hashable (jfield st ''type'') then raise UnhashableEvent
          else if is_inactive_status (jfield st ''type'') then finish_lifecycle env thread turn
          else ret ()))"

definition agent_lifecycle :: "coordinator_env \<Rightarrow> json \<Rightarrow> message \<Rightarrow> pystr \<Rightarrow> unit coordinator_action" where
  "agent_lifecycle env kind params thread =
     (let turn = turn_of_params params in
      if kind = JStr (lit ''turn/started'') then (if turn \<noteq> None then start_lifecycle env thread turn else ret ())
      else if kind = JStr (lit ''thread/status/changed'') then status_lifecycle env thread turn (jfield params ''status'')
      else if kind = JStr (lit ''turn/completed'') then finish_lifecycle env thread turn
      else ret ())"

definition observe_protocol_work_lifecycle :: "coordinator_env \<Rightarrow> event option \<Rightarrow> unit coordinator_action" where
  "observe_protocol_work_lifecycle env e =
     (case e of
        None \<Rightarrow> ret ()
      | Some ev \<Rightarrow>
          (case as_dict (jfield ev ''params'') of
             None \<Rightarrow> ret ()
           | Some params \<Rightarrow>
               (case as_str (jfield params ''threadId'') of
                  None \<Rightarrow> ret ()
                | Some thread \<Rightarrow>
                    and_then (look root_text) (\<lambda>r.
                    and_then (if jfield ev ''method'' = JStr (lit ''turn/completed'') \<and> thread = r
                      then reducing env (\<lambda>_ _. remember_parent_user_message None) else ret ()) (\<lambda>_.
                    and_then (look (knows_agent thread \<circ> co_producer)) (\<lambda>known.
                    if known then agent_lifecycle env (jfield ev ''method'') params thread else ret ()))))))"

text \<open>\<^verbatim>\<open>_root_request_context_event\<close>; a missing key of the activity is a \<^verbatim>\<open>KeyError\<close>.\<close>

definition root_request_context_event :: "event \<Rightarrow> producer \<Rightarrow> coordinator_error + event option" where
  "root_request_context_event activity p =
     (case prod_parent_message p of
        None \<Rightarrow> Inr None
      | Some parent \<Rightarrow>
          if \<not> py_eq (jfield parent ''turn_id'') (jfield activity ''turn_id'') then Inr None
          else case (as_dict (jfield activity ''item''), as_dict (jfield parent ''item'')) of
            (Some item, Some user_item) \<Rightarrow>
              (case (dict_get activity (lit ''thread_id''), dict_get item (lit ''agent_thread_id''), dict_get item (lit ''id'')) of
                 (Some thread, Some agent, Some item_id) \<Rightarrow>
                   Inr (Some [(lit ''schema'', JStr OBSERVER_SCHEMA), (lit ''kind'', JStr (lit ''root_request_context'')),
                     (lit ''thread_id'', thread), (lit ''turn_id'', jfield activity ''turn_id''), (lit ''target_thread_id'', agent),
                     (lit ''activity_item_id'', item_id), (lit ''item'', JDict user_item)])
               | _ \<Rightarrow> Inl AssertionFailed)
          | _ \<Rightarrow> Inr None)"

definition request_context :: "event \<Rightarrow> event option coordinator_action" where
  "request_context activity =
     and_then (look (root_request_context_event activity \<circ> co_producer)) (\<lambda>r.
     case r of Inl e \<Rightarrow> raise e | Inr x \<Rightarrow> ret x)"

subsection \<open>Collaboration invocations\<close>

text \<open>The receivers of a completed follow-up start work again.\<close>

fun restart_receivers :: "coordinator_env \<Rightarrow> pystr \<Rightarrow> json list \<Rightarrow> unit coordinator_action" where
  "restart_receivers env item_id [] = ret ()"
| "restart_receivers env item_id (j # js) =
     and_then
       (case as_str j of
          None \<Rightarrow> ret ()
        | Some target \<Rightarrow>
            and_then (look (knows_agent target \<circ> co_producer)) (\<lambda>known.
            if \<not> known then ret ()
            else and_then (reducing env (\<lambda>now reader. start_agent_work now reader target None (Some item_id))) (\<lambda>started.
              if started then publish_agent_work_started env target else ret ())))
       (\<lambda>_. restart_receivers env item_id js)"

text \<open>The request contexts that were not sent yet, for the activities of an invocation.\<close>

fun unsent_contexts :: "coordinator_env \<Rightarrow> pystr \<Rightarrow> event list \<Rightarrow> (pystr \<times> event) list coordinator_action" where
  "unsent_contexts env item_id [] = ret []"
| "unsent_contexts env item_id (a # rest) =
     and_then (need (item_field (ev_rep env) ''agent_thread_id'' a)) (\<lambda>target.
     and_then (reducing env (\<lambda>now _. root_request_context_was_sent now item_id target)) (\<lambda>sent.
     and_then (if sent then ret None else request_context a) (\<lambda>ctx.
     and_then (unsent_contexts env item_id rest) (\<lambda>found.
     ret (case ctx of None \<Rightarrow> found | Some c \<Rightarrow> (target, c) # found)))))"

fun send_contexts :: "coordinator_env \<Rightarrow> pystr \<Rightarrow> (pystr \<times> event) list \<Rightarrow> unit coordinator_action" where
  "send_contexts env item_id [] = ret ()"
| "send_contexts env item_id ((target, c) # rest) =
     and_then (reducing env (\<lambda>now _. mark_root_request_context_sent now item_id target)) (\<lambda>_.
     and_then (send_observer_event env c) (\<lambda>_.
     send_contexts env item_id rest))"

definition follow_contexts :: "event \<Rightarrow> event" where
  "follow_contexts e = dict_set (lit ''root_request_context_follows'') (JBool True) e"

definition deliver_invocation :: "coordinator_env \<Rightarrow> pystr \<Rightarrow> event \<Rightarrow> json list \<Rightarrow> unit coordinator_action" where
  "deliver_invocation env item_id invocation receivers =
     and_then (look (activities_of item_id \<circ> co_producer)) (\<lambda>activities.
     and_then (look (\<lambda>s. list_ex (\<lambda>j. case as_str j of None \<Rightarrow> False | Some t \<Rightarrow> tracks_target t (co_producer s)) receivers)) (\<lambda>tracked.
     if activities = [] \<and> \<not> tracked then ret ()
     else and_then (unsent_contexts env item_id activities) (\<lambda>contexts.
       and_then (send_observer_event env (if contexts = [] then invocation else follow_contexts invocation)) (\<lambda>_.
       send_contexts env item_id contexts))))"

text \<open>The body of the \<^verbatim>\<open>try\<close>, for a list of receivers or none.\<close>

definition handle_invocation :: "coordinator_env \<Rightarrow> pystr \<Rightarrow> event \<Rightarrow> message \<Rightarrow> unit coordinator_action" where
  "handle_invocation env item_id invocation item =
     (let receivers = (case as_list (jfield item ''receiver_thread_ids'') of None \<Rightarrow> [] | Some xs \<Rightarrow> xs) in
      and_then (if jfield item ''tool_name'' = JStr (lit ''collaboration.followup_task'') \<and> jfield item ''status'' = JStr (lit ''completed'')
        then restart_receivers env item_id receivers else ret ()) (\<lambda>_.
      and_then (reducing env (\<lambda>now _. correlation_is_uncertain now item_id)) (\<lambda>uncertain.
      if uncertain then send_current env else deliver_invocation env item_id invocation receivers)))"

definition observe_collaboration_invocation :: "coordinator_env \<Rightarrow> event \<Rightarrow> unit coordinator_action" where
  "observe_collaboration_invocation env invocation =
     and_then (look root_text) (\<lambda>r.
     if jfield invocation ''thread_id'' \<noteq> JStr r then ret ()
     else case as_dict (jfield invocation ''item'') of
       None \<Rightarrow> ret ()
     | Some item \<Rightarrow>
         if jfield item ''sender_thread_id'' \<noteq> JStr r then ret ()
         else and_then (need (dict_get item (lit ''id''))) (\<lambda>raw_id.
           let item_id = py_str (ev_rep env) raw_id in
           and_then (reducing env (\<lambda>now _. remember_collaboration_invocation (ev_rep env) (ev_enc env) now item_id invocation)) (\<lambda>fresh.
           if \<not> fresh then ret ()
           else finally_do (handle_invocation env item_id invocation item) (reducing env (\<lambda>now _. settle_correlation now item_id)))))"

subsection \<open>Activities\<close>

definition is_request_tool :: "pystr option \<Rightarrow> bool" where
  "is_request_tool t \<longleftrightarrow>
     t = Some (lit ''collaboration.spawn_agent'') \<or> t = Some (lit ''collaboration.followup_task'') \<or> t = Some (lit ''collaboration.send_message'')"

definition projected_invocation_tool_name :: "event option \<Rightarrow> pystr option" where
  "projected_invocation_tool_name noted = (case noted of None \<Rightarrow> None | Some i \<Rightarrow> as_str (jpath (jfield i ''item'') ''tool_name''))"

definition is_ended_kind :: "json \<Rightarrow> bool" where
  "is_ended_kind j \<longleftrightarrow> j \<in> JStr ` {lit ''completed'', lit ''failed'', lit ''aborted'', lit ''shutdown''}"

text \<open>The work an activity ends or starts; the value is whether work of the target is over.\<close>

definition activity_work :: "coordinator_env \<Rightarrow> json \<Rightarrow> bool \<Rightarrow> pystr \<Rightarrow> pystr \<Rightarrow> bool coordinator_action" where
  "activity_work env kind is_new_spawn target item_id =
     (if is_ended_kind kind then
        and_then (reducing env (\<lambda>_ _. finish_agent_work target None (Some item_id))) (\<lambda>finished.
        and_then (look (tracks_target target \<circ> co_producer)) (\<lambda>tracked.
        ret (finished \<or> \<not> tracked)))
      else if is_new_spawn then
        and_then (reducing env (\<lambda>now reader. start_agent_work now reader target None (Some item_id))) (\<lambda>_. ret False)
      else ret False)"

definition send_activity :: "coordinator_env \<Rightarrow> event \<Rightarrow> event option \<Rightarrow> pystr \<Rightarrow> pystr \<Rightarrow> event coordinator_action" where
  "send_activity env e noted target item_id =
     and_then
       (if is_request_tool (projected_invocation_tool_name noted) then
          and_then (reducing env (\<lambda>now _. root_request_context_was_sent now item_id target)) (\<lambda>sent.
          if sent then ret None else request_context e)
        else ret None) (\<lambda>ctx.
     let e' = (if ctx = None then e else follow_contexts e) in
     and_then (send_observer_event env e') (\<lambda>_.
     and_then (case ctx of None \<Rightarrow> ret () | Some c \<Rightarrow> send_contexts env item_id [(target, c)]) (\<lambda>_.
     ret e')))"

definition uncertain_activity :: "coordinator_env \<Rightarrow> pystr \<Rightarrow> pystr \<Rightarrow> unit coordinator_action" where
  "uncertain_activity env target item_id =
     and_then (reducing env (\<lambda>now reader. start_agent_work now reader target None (Some item_id))) (\<lambda>started.
     and_then (if started then publish_agent_work_started env target else ret ()) (\<lambda>_.
     send_current env))"

definition certain_activity :: "coordinator_env \<Rightarrow> event \<Rightarrow> event option \<Rightarrow> json \<Rightarrow> bool \<Rightarrow> pystr \<Rightarrow> pystr \<Rightarrow> event option coordinator_action" where
  "certain_activity env e noted kind is_new_spawn target item_id =
     and_then (case noted of
         None \<Rightarrow> ret e
       | Some i \<Rightarrow> and_then (need (dict_get i (lit ''item''))) (\<lambda>item. ret (dict_set (lit ''collaboration_invocation'') item e))) (\<lambda>e1.
     and_then (activity_work env kind is_new_spawn target item_id) (\<lambda>completed.
     and_then (send_activity env e1 noted target item_id) (\<lambda>e2.
     and_then (prune_completed_activity env e2) (\<lambda>_.
     and_then (if completed then prune_target_thread env target else ret ()) (\<lambda>_.
     ret (Some e2))))))"

definition observe_activity :: "coordinator_env \<Rightarrow> event \<Rightarrow> event option coordinator_action" where
  "observe_activity env e =
     and_then (look id) (\<lambda>s.
     if co_database s = None \<or> co_root s = None \<or> jfield e ''thread_id'' \<noteq> JStr (root_text s) then ret None
     else and_then (need (item_field (ev_rep env) ''id'' e)) (\<lambda>item_id.
       and_then (need (item_field (ev_rep env) ''agent_thread_id'' e)) (\<lambda>target.
       let noted = collaboration_invocation item_id (co_producer s);
           kind = jpath (jfield e ''item'') ''activity_kind'';
           is_new_spawn = (kind = JStr (lit ''started''))
       in if \<not> is_new_spawn \<and> \<not> is_known_activity item_id (co_producer s) \<and> \<not> knows_agent target (co_producer s) then ret None
          else and_then (if is_new_spawn
              then and_then (read_cursor env) (\<lambda>c. ret (dict_set (lit ''after_event_id'') c e)) else ret e) (\<lambda>e1.
            and_then (reducing env (\<lambda>now _. remember_activity (ev_rep env) now item_id e1)) (\<lambda>fresh.
            if \<not> fresh then ret None
            else and_then (reducing env (\<lambda>now _. correlation_is_uncertain now item_id)) (\<lambda>uncertain.
              if uncertain then and_then (uncertain_activity env target item_id) (\<lambda>_. ret None)
              else certain_activity env e1 noted kind is_new_spawn target item_id))))))"

definition observe_agent_message :: "coordinator_env \<Rightarrow> event \<Rightarrow> unit coordinator_action" where
  "observe_agent_message env m =
     and_then (need (dict_get m (lit ''thread_id''))) (\<lambda>thread.
     and_then (look (tracks_target (py_str (ev_rep env) thread) \<circ> co_producer)) (\<lambda>tracked.
     if tracked then send_observer_event env m else ret ()))"

definition observe_user_message :: "coordinator_env \<Rightarrow> event \<Rightarrow> unit coordinator_action" where
  "observe_user_message env m =
     and_then (look co_root) (\<lambda>r.
     if r \<noteq> None \<and> jfield m ''thread_id'' = opt_json r
     then reducing env (\<lambda>_ _. remember_parent_user_message (Some m)) else ret ())"

definition observe_projected :: "coordinator_env \<Rightarrow> event option \<Rightarrow> event option coordinator_action" where
  "observe_projected env e =
     (case project_collaboration_invocation_event e of
        Inl _ \<Rightarrow> raise UnhashableEvent
      | Inr (Some invocation) \<Rightarrow> and_then (observe_collaboration_invocation env invocation) (\<lambda>_. ret None)
      | Inr None \<Rightarrow>
          (case project_agent_message_event e of
             Some m \<Rightarrow> and_then (observe_agent_message env m) (\<lambda>_. ret None)
           | None \<Rightarrow>
               (case project_user_message_event e of
                  Some m \<Rightarrow> and_then (observe_user_message env m) (\<lambda>_. ret None)
                | None \<Rightarrow>
                    (case project_subagent_activity_event e of
                       Inl _ \<Rightarrow> raise UnhashableEvent
                     | Inr None \<Rightarrow> ret None
                     | Inr (Some a) \<Rightarrow> observe_activity env a))))"

definition observe_protocol_event_locked :: "coordinator_env \<Rightarrow> event option \<Rightarrow> event option coordinator_action" where
  "observe_protocol_event_locked env e =
     and_then (look co_closed) (\<lambda>closed.
     if closed then ret None
     else and_then (observe_protocol_work_lifecycle env e) (\<lambda>_. observe_projected env e))"

subsection \<open>The pane\<close>

definition cancel_pane_close :: "coordinator \<Rightarrow> coordinator" where
  "cancel_pane_close s =
     s\<lparr>co_close_pending := False, co_close_attempts := 0, co_close_generation := Suc (co_close_generation s), co_retry := None\<rparr>"

definition schedule_pane_close_retry :: "coordinator \<Rightarrow> coordinator" where
  "schedule_pane_close_retry s =
     (if co_retry s \<noteq> None \<or> co_close_attempts s > length OBSERVER_PANE_CLOSE_RETRY_DELAYS then s
      else s\<lparr>co_retry := Some (co_close_generation s)\<rparr>)"

text \<open>One attempt to close: the value is whether the pane is gone.\<close>

definition try_close :: "coordinator_env \<Rightarrow> bool coordinator_action" where
  "try_close env =
     and_then (change (\<lambda>s. s\<lparr>co_close_pending := True, co_close_attempts := Suc (co_close_attempts s)\<rparr>)) (\<lambda>_.
     and_then (ask (ev_close_accepted env)) (\<lambda>accepted.
     and_then (if accepted then ret True else ask (ev_closure_confirmed env)) (\<lambda>gone.
     and_then (change (\<lambda>s. s\<lparr>co_pane := co_pane s @ [PaneClose gone]\<rparr>)) (\<lambda>_.
     and_then (change (if gone then cancel_pane_close else schedule_pane_close_retry)) (\<lambda>_.
     ret gone)))))"

definition create_pane :: "coordinator_env \<Rightarrow> event option \<Rightarrow> unit coordinator_action" where
  "create_pane env initial_event =
     and_then (look (\<lambda>s. co_database s \<noteq> None \<and> co_session s \<noteq> None \<and> co_session_text s \<noteq> None \<and> co_root s \<noteq> None)) (\<lambda>bound.
     if \<not> bound then raise AssertionFailed
     else and_then (ask (ev_created env)) (\<lambda>created.
       and_then (change (\<lambda>s. s\<lparr>co_pane := co_pane s @ [PaneCreate (case initial_event of None \<Rightarrow> [] | Some e \<Rightarrow> e) created]\<rparr>)) (\<lambda>_.
       if created then send_current env else ret ())))"

definition reconcile_observer_pane :: "coordinator_env \<Rightarrow> nat \<Rightarrow> event option \<Rightarrow> unit coordinator_action" where
  "reconcile_observer_pane env previously_running initial_event =
     and_then (look id) (\<lambda>s.
     let running = running_agent_count (co_producer s) in
     if running = previously_running \<and> initial_event = None \<and> \<not> co_close_pending s then ret ()
     else and_then (if co_close_pending s \<or> previously_running \<noteq> 0 \<and> running = 0 then try_close env else ret True) (\<lambda>go.
       if \<not> go then ret ()
       else if running = 0 then ret ()
       else and_then (ask (ev_located env)) (\<lambda>located.
         if located then ret () else create_pane env initial_event)))"

text \<open>The callback of a timer of the close generation \<open>g\<close>, which may be delayed or already cancelled.\<close>

definition retry_pane_close :: "coordinator_env \<Rightarrow> nat \<Rightarrow> unit coordinator_action" where
  "retry_pane_close env g =
     and_then (look id) (\<lambda>s.
     if co_closed s \<or> g \<noteq> co_close_generation s then ret ()
     else and_then (change (\<lambda>s. s\<lparr>co_retry := None\<rparr>)) (\<lambda>_.
       if co_close_pending s then reconcile_observer_pane env (running_agent_count (co_producer s)) None else ret ()))"

subsection \<open>Methods\<close>

definition activate :: "coordinator_env \<Rightarrow> pystr \<Rightarrow> int \<Rightarrow> pystr \<Rightarrow> int \<Rightarrow> unit coordinator_action" where
  "activate env path session session_text root_uuid =
     and_then (look id) (\<lambda>s.
     if co_closed s then raise CoordinatorClosed
     else if co_database s \<noteq> None then raise AlreadyActivated
     else if session < 1 then raise SessionNotPositive
     else if \<not> (length session_text = 16 \<and> list_all is_lower_hex session_text) then raise BadSessionText
     else and_then (change (\<lambda>s. s\<lparr>co_database := Some (ev_abspath env path), co_session := Some session, co_session_text := Some session_text,
         co_root := Some (uuid_text root_uuid)\<rparr>)) (\<lambda>_.
       reducing env (\<lambda>_ _. observer_bind_root_thread (uuid_text root_uuid))))"

definition coordinator_reset :: "coordinator_env \<Rightarrow> unit coordinator_action" where
  "coordinator_reset env =
     and_then (look id) (\<lambda>s.
     if co_closed s \<or> co_source_bound s \<and> co_source s = None then ret ()
     else and_then (change (\<lambda>s. s\<lparr>co_source := None, co_reader_bound := False\<rparr>)) (\<lambda>_.
       and_then (send_published env (\<lambda>_. reset_epoch (ev_enc env))) (\<lambda>_.
       reconcile_observer_pane env (running_agent_count (co_producer s)) None)))"

definition bind_protocol_source :: "coordinator_env \<Rightarrow> pystr \<Rightarrow> unit coordinator_action" where
  "bind_protocol_source env source =
     and_then (look co_source) (\<lambda>bound.
     and_then (if bound \<noteq> None \<and> bound \<noteq> Some source then coordinator_reset env else ret ()) (\<lambda>_.
     change (\<lambda>s. s\<lparr>co_source := Some source, co_source_bound := True, co_reader_bound := True\<rparr>)))"

definition reset_protocol_source :: "coordinator_env \<Rightarrow> pystr \<Rightarrow> unit coordinator_action" where
  "reset_protocol_source env source =
     and_then (look co_source) (\<lambda>bound. if bound = Some source then coordinator_reset env else ret ())"

definition observe_protocol_event :: "coordinator_env \<Rightarrow> event option \<Rightarrow> pystr option \<Rightarrow> unit coordinator_action" where
  "observe_protocol_event env e source =
     and_then (look id) (\<lambda>s.
     if co_closed s \<or> source \<noteq> co_source s \<or> co_source_bound s \<and> co_source s = None then ret ()
     else and_then (reducing env (\<lambda>now _. expire_protocol_state now)) (\<lambda>expired.
       and_then (if expired then send_current env else ret ()) (\<lambda>_.
       and_then (look (running_agent_count \<circ> co_producer)) (\<lambda>previously_running.
       and_then (observe_protocol_event_locked env e) (\<lambda>initial_event.
       reconcile_observer_pane env previously_running initial_event)))))"

definition close_coordinator :: "coordinator_env \<Rightarrow> unit coordinator_action" where
  "close_coordinator env =
     and_then (look co_closed) (\<lambda>closed.
     if closed then ret ()
     else and_then (change (\<lambda>s. cancel_pane_close (s\<lparr>co_closed := True\<rparr>))) (\<lambda>_.
       reducing env (\<lambda>_ _. discard_producer_state)))"

end
