(* ===== verification/Coordinator_Safety.thy ===== *)
theory Coordinator_Safety
  imports Observer_Coordinator
begin

section \<open>Observer coordinator: safety\<close>

text \<open>
  A rule for every handler of the coordinator over the invariant of its reducer, the methods as one call type with their results, the
  fence of the connection as its clients see it, and the properties of every sequence of calls.
\<close>

subsection \<open>Rules\<close>

text \<open>The invariant between methods, and what handling an event leaves alone.\<close>

definition coord_ok :: "coordinator_env \<Rightarrow> coordinator \<Rightarrow> bool" where
  "coord_ok env s \<longleftrightarrow>
     producer_ok (ev_rep env) (ev_enc env) (co_producer s) \<and> list_all (snapshot_fits (ev_enc env)) (co_sent s) \<and>
     (co_database s = None \<longrightarrow> prod_known_agents (co_producer s) = [] \<and> prod_root_thread_id (co_producer s) = None) \<and>
     (co_database s \<noteq> None \<longrightarrow> co_session s \<noteq> None \<and> co_session_text s \<noteq> None \<and> co_root s \<noteq> None)"

definition same_setup :: "coordinator \<Rightarrow> coordinator \<Rightarrow> bool" where
  "same_setup s s' \<longleftrightarrow> s' = s\<lparr>co_producer := co_producer s', co_asked := co_asked s', co_sent := co_sent s'\<rparr>"

lemma same_setup_refl [simp]: "same_setup s s"
  by (simp add: same_setup_def)

lemma same_setup_trans: "same_setup s s' \<Longrightarrow> same_setup s' s'' \<Longrightarrow> same_setup s s''"
  unfolding same_setup_def by (cases s; cases s'; cases s'') simp

lemma same_setupD:
  assumes "same_setup s s'"
  shows "co_database s' = co_database s" "co_session s' = co_session s" "co_session_text s' = co_session_text s" "co_root s' = co_root s"
    "co_source s' = co_source s" "co_source_bound s' = co_source_bound s" "co_closed s' = co_closed s"
    "co_close_pending s' = co_close_pending s" "co_close_attempts s' = co_close_attempts s"
    "co_close_generation s' = co_close_generation s" "co_retry s' = co_retry s" "co_pane s' = co_pane s"
  using assms unfolding same_setup_def by (cases s; cases s'; simp)+

text \<open>The errors that come from outside.\<close>

definition outside_error :: "coordinator_error \<Rightarrow> bool" where
  "outside_error e \<longleftrightarrow> e = UnhashableEvent \<or> e = CursorFailed"

definition safe :: "coordinator_env \<Rightarrow> 'a coordinator_action \<Rightarrow> ('a \<Rightarrow> coordinator \<Rightarrow> bool) \<Rightarrow> coordinator \<Rightarrow> bool" where
  "safe env m Q s \<longleftrightarrow>
     (coord_ok env s \<longrightarrow> wp m (\<lambda>x s'. coord_ok env s' \<and> same_setup s s' \<and> Q x s') (\<lambda>e s'. coord_ok env s' \<and> same_setup s s' \<and> outside_error e) s)"

lemma safe_ret: "Q x s \<Longrightarrow> safe env (ret x) Q s"
  by (simp add: safe_def)

lemma safe_raise: "outside_error e \<Longrightarrow> safe env (raise e) Q s"
  by (simp add: safe_def)

lemma safe_and_then:
  assumes "safe env m R s" "\<And>x s'. coord_ok env s' \<Longrightarrow> same_setup s s' \<Longrightarrow> R x s' \<Longrightarrow> safe env (k x) Q s'"
  shows "safe env (and_then m k) Q s"
  unfolding safe_def
proof
  assume ok: "coord_ok env s"
  obtain s1 r where m: "m s = (s1, r)" by (rule prod.exhaust)
  show "wp (and_then m k) (\<lambda>x s'. coord_ok env s' \<and> same_setup s s' \<and> Q x s') (\<lambda>e s'. coord_ok env s' \<and> same_setup s s' \<and> outside_error e) s"
  proof (cases r)
    case (Inl e)
    then show ?thesis using assms(1) ok by (simp add: safe_def wp_def m)
  next
    case (Inr x)
    then have s1: "coord_ok env s1" "same_setup s s1" "R x s1" using assms(1) ok by (simp_all add: safe_def wp_def m)
    from assms(2) [OF this] s1(1)
    have "wp (k x) (\<lambda>x s'. coord_ok env s' \<and> same_setup s1 s' \<and> Q x s') (\<lambda>e s'. coord_ok env s' \<and> same_setup s1 s' \<and> outside_error e) s1"
      by (simp add: safe_def)
    then have "wp (k x) (\<lambda>x s'. coord_ok env s' \<and> same_setup s s' \<and> Q x s') (\<lambda>e s'. coord_ok env s' \<and> same_setup s s' \<and> outside_error e) s1"
      by (rule wp_mono) (use same_setup_trans [OF s1(2)] in auto)
    then show ?thesis by (simp add: wp_def and_then_def m Inr)
  qed
qed

lemma safe_mono: "safe env m R s \<Longrightarrow> (\<And>x s'. coord_ok env s' \<Longrightarrow> same_setup s s' \<Longrightarrow> R x s' \<Longrightarrow> Q x s') \<Longrightarrow> safe env m Q s"
  unfolding safe_def by (auto elim: wp_mono)

lemma safe_if: "(b \<Longrightarrow> safe env m Q s) \<Longrightarrow> (\<not> b \<Longrightarrow> safe env n Q s) \<Longrightarrow> safe env (if b then m else n) Q s"
  by simp

lemma safe_look: "safe env (look f) (\<lambda>x s'. s' = s \<and> x = f s) s"
  by (simp add: safe_def wp_def look_def)

lemma safe_ask: "safe env (ask f) (\<lambda>_ s'. co_producer s' = co_producer s) s"
  by (auto simp: safe_def wp_def ask_def coord_ok_def same_setup_def)

lemma safe_need: "x \<noteq> None \<Longrightarrow> safe env (need x) (\<lambda>v s'. s' = s \<and> x = Some v) s"
  by (auto simp: safe_def wp_def need_def)

lemma safe_look_then: "(\<And>x. x = f s \<Longrightarrow> safe env (k x) Q s) \<Longrightarrow> safe env (and_then (look f) k) Q s"
  by (rule safe_and_then [OF safe_look]) simp

lemma safe_reducing:
  assumes "\<And>now reader. coord_ok env s \<Longrightarrow> producer_ok (ev_rep env) (ev_enc env) (co_producer s) \<Longrightarrow>
    runs (f now reader) (\<lambda>x p'. producer_ok (ev_rep env) (ev_enc env) p' \<and> R x p' \<and>
      prod_root_thread_id p' = prod_root_thread_id (co_producer s) \<and>
      (prod_known_agents p' \<noteq> [] \<longrightarrow> prod_known_agents (co_producer s) \<noteq> [] \<or> co_database s \<noteq> None)) (co_producer s)"
  shows "safe env (reducing env f) (\<lambda>x s'. R x (co_producer s')) s"
  unfolding safe_def
proof
  assume ok: "coord_ok env s"
  let ?now = "ev_now env (co_asked s)" and ?reader = "reader_of env s"
  obtain p r where f: "f ?now ?reader (co_producer s) = (p, r)" by (rule prod.exhaust)
  have "runs (f ?now ?reader) (\<lambda>x p'. producer_ok (ev_rep env) (ev_enc env) p' \<and> R x p' \<and>
      prod_root_thread_id p' = prod_root_thread_id (co_producer s) \<and>
      (prod_known_agents p' \<noteq> [] \<longrightarrow> prod_known_agents (co_producer s) \<noteq> [] \<or> co_database s \<noteq> None)) (co_producer s)"
    using assms ok by (simp add: coord_ok_def)
  then obtain x where "r = Inr x" "producer_ok (ev_rep env) (ev_enc env) p" "R x p" "prod_root_thread_id p = prod_root_thread_id (co_producer s)"
    "prod_known_agents p \<noteq> [] \<longrightarrow> prod_known_agents (co_producer s) \<noteq> [] \<or> co_database s \<noteq> None"
    by (cases r) (auto simp: wp_def f)
  then show "wp (reducing env f) (\<lambda>x s'. coord_ok env s' \<and> same_setup s s' \<and> R x (co_producer s'))
      (\<lambda>e s'. coord_ok env s' \<and> same_setup s s' \<and> outside_error e) s"
    using ok by (auto simp: wp_def reducing_def f coord_ok_def same_setup_def)
qed

text \<open>Operations that touch no agent.\<close>

lemma safe_quiet:
  assumes "\<And>now reader. producer_ok (ev_rep env) (ev_enc env) (co_producer s) \<Longrightarrow>
    runs (f now reader) (\<lambda>_ p'. producer_ok (ev_rep env) (ev_enc env) p' \<and> agents_of p' = agents_of (co_producer s)) (co_producer s)"
  shows "safe env (reducing env f) (\<lambda>_ s'. agents_of (co_producer s') = agents_of (co_producer s)) s"
  by (rule safe_reducing [where R = "\<lambda>_ p'. agents_of p' = agents_of (co_producer s)"], rule wp_mono, rule assms)
    (auto simp: agents_of_def)

lemma safe_readers:
  shows "safe env (reducing env (\<lambda>now _. correlation_is_uncertain now i)) (\<lambda>_ s'. agents_of (co_producer s') = agents_of (co_producer s)) s"
    "safe env (reducing env (\<lambda>now _. root_request_context_was_sent now i t)) (\<lambda>_ s'. agents_of (co_producer s') = agents_of (co_producer s)) s"
    "safe env (reducing env (\<lambda>now _. mark_root_request_context_sent now i t)) (\<lambda>_ s'. agents_of (co_producer s') = agents_of (co_producer s)) s"
    "safe env (reducing env (\<lambda>now _. complete_activity now i t)) (\<lambda>_ s'. agents_of (co_producer s') = agents_of (co_producer s)) s"
    "safe env (reducing env (\<lambda>now _. settle_correlation now i)) (\<lambda>_ s'. agents_of (co_producer s') = agents_of (co_producer s)) s"
    "safe env (reducing env (\<lambda>now _. expire_protocol_state now)) (\<lambda>_ s'. agents_of (co_producer s') = agents_of (co_producer s)) s"
    "safe env (reducing env (\<lambda>now _. remember_parent_user_message m)) (\<lambda>_ s'. agents_of (co_producer s') = agents_of (co_producer s)) s"
  by (rule safe_quiet, erule runs_readers)+

lemma safe_publish:
  assumes "\<And>now. producer_ok (ev_rep env) (ev_enc env) (co_producer s) \<Longrightarrow>
    runs (f now) (\<lambda>m p'. producer_ok (ev_rep env) (ev_enc env) p' \<and> snapshot_fits (ev_enc env) m \<and> R p' \<and>
      prod_root_thread_id p' = prod_root_thread_id (co_producer s) \<and>
      (prod_known_agents p' \<noteq> [] \<longrightarrow> prod_known_agents (co_producer s) \<noteq> [])) (co_producer s)"
  shows "safe env (send_published env f) (\<lambda>_ s'. R (co_producer s')) s"
  unfolding send_published_def
proof (rule safe_and_then)
  show "safe env (reducing env (\<lambda>now _. f now)) (\<lambda>m s'. snapshot_fits (ev_enc env) m \<and> R (co_producer s')) s"
    by (rule safe_reducing [where R = "\<lambda>m p'. snapshot_fits (ev_enc env) m \<and> R p'"], rule wp_mono, rule assms) auto
next
  fix m s' assume "coord_ok env s'" "same_setup s s'" "snapshot_fits (ev_enc env) m \<and> R (co_producer s')"
  then show "safe env (send_observer_snapshot m) (\<lambda>_ s'. R (co_producer s')) s'"
    by (auto simp: safe_def wp_def send_observer_snapshot_def change_def coord_ok_def same_setup_def)
qed

lemma safe_send_event:
  assumes "jfield e ''schema'' = JStr OBSERVER_SCHEMA"
  shows "safe env (send_observer_event env e) (\<lambda>_ s'. agents_of (co_producer s') = agents_of (co_producer s)) s"
  unfolding send_observer_event_def
  by (rule safe_publish [where R = "\<lambda>p'. agents_of p' = agents_of (co_producer s)"], rule wp_mono, rule runs_publish(1) [OF _ assms], assumption)
    (auto simp: agents_of_def)

lemma safe_send_current: "safe env (send_current env) (\<lambda>_ s'. agents_of (co_producer s') = agents_of (co_producer s)) s"
  unfolding send_current_def
  by (rule safe_publish [where R = "\<lambda>p'. agents_of p' = agents_of (co_producer s)"], rule wp_mono, rule runs_publish(2), assumption)
    (auto simp: agents_of_def)

lemma safe_prune:
  assumes "target \<noteq> []"
  shows "safe env (prune_target_thread env target) (\<lambda>_ _. True) s"
  unfolding prune_target_thread_def
  by (rule safe_publish [where R = "\<lambda>_. True"], rule wp_mono, rule runs_prune [OF _ assms], assumption) (auto simp: same_names_def)

lemma safe_start:
  assumes "knows_agent target (co_producer s)"
  shows "safe env (reducing env (\<lambda>now reader. start_agent_work now reader target turn request))
    (\<lambda>b s'. knows_agent target (co_producer s') \<and> (b \<or> request = None \<longrightarrow> tracks_target target (co_producer s'))) s"
  by (rule safe_reducing [where R = "\<lambda>b p'. knows_agent target p' \<and> (b \<or> request = None \<longrightarrow> tracks_target target p')"], rule wp_mono,
      rule runs_start [OF _ assms], assumption) (use assms in \<open>auto simp: same_names_def knows_agent_def\<close>)

lemma safe_finish: "safe env (reducing env (\<lambda>_ _. finish_agent_work target turn request)) (\<lambda>_ s'. same_names (co_producer s) (co_producer s')) s"
  by (rule safe_reducing [where R = "\<lambda>_ p'. same_names (co_producer s) p'"], rule wp_mono, rule runs_finish, assumption)
    (auto simp: same_names_def)

lemma known_name: "coord_ok env s \<Longrightarrow> knows_agent t (co_producer s) \<Longrightarrow> t \<noteq> [] \<and> co_database s \<noteq> None \<and> co_session s \<noteq> None \<and> co_root s \<noteq> None"
  by (auto simp: coord_ok_def producer_ok_def named_ok_def knows_agent_def)

lemma safe_assume: "(coord_ok env s \<Longrightarrow> safe env m Q s) \<Longrightarrow> safe env m Q s"
  by (simp add: safe_def)

lemma safe_drop: "safe env m R s \<Longrightarrow> safe env m (\<lambda>_ _. True) s"
  by (rule safe_mono) simp_all

subsection \<open>Handling an event never fails by itself\<close>

lemma safe_read_cursor:
  assumes "co_session s \<noteq> None" "co_database s \<noteq> None"
  shows "safe env (read_cursor env) (\<lambda>_ s'. co_producer s' = co_producer s) s"
  unfolding read_cursor_def
proof (rule safe_look_then, rule safe_if)
  fix bound assume "bound = (co_session s \<noteq> None \<and> co_database s \<noteq> None)" "\<not> bound"
  then show "safe env (raise AssertionFailed) (\<lambda>_ s'. co_producer s' = co_producer s) s" using assms by simp
next
  show "safe env (and_then (ask (ev_cursor env)) (\<lambda>c. case c of None \<Rightarrow> raise CursorFailed | Some cursor \<Rightarrow> ret (opt_json cursor)))
      (\<lambda>_ s'. co_producer s' = co_producer s) s"
    by (rule safe_and_then [OF safe_ask]) (auto intro: safe_ret safe_raise simp: outside_error_def split: option.split)
qed

lemma knows_same: "agents_of p' = agents_of p \<Longrightarrow> knows_agent t p' = knows_agent t p \<and> tracks_target t p' = tracks_target t p"
  by (simp add: agents_of_def knows_agent_def tracks_target_def)

lemma safe_publish_started:
  assumes "knows_agent t (co_producer s)" "tracks_target t (co_producer s)"
  shows "safe env (publish_agent_work_started env t) (\<lambda>_ s'. agents_of (co_producer s') = agents_of (co_producer s)) s"
proof (rule safe_assume)
  let ?Q = "\<lambda>_ (s' :: coordinator). agents_of (co_producer s') = agents_of (co_producer s)"
  assume ok: "coord_ok env s"
  note bound = known_name [OF ok assms(1)]
  show ?thesis
    unfolding publish_agent_work_started_def
  proof (rule safe_look_then, rule safe_if)
    fix b assume "b = (co_session s \<noteq> None \<and> co_database s \<noteq> None)" "\<not> b"
    then show "safe env (raise AssertionFailed) ?Q s" using bound by simp
  next
    let ?k = "\<lambda>e. and_then (read_cursor env) (\<lambda>cursor. send_observer_event env (dict_set (lit ''after_event_id'') cursor e))"
    have "safe env (and_then (reducing env (\<lambda>_ _. agent_work_started_event t r)) ?k) ?Q s" for r
    proof (rule safe_and_then)
      show "safe env (reducing env (\<lambda>_ _. agent_work_started_event t r))
          (\<lambda>e s'. co_producer s' = co_producer s \<and> jfield e ''schema'' = JStr OBSERVER_SCHEMA) s"
        by (rule safe_reducing [where R = "\<lambda>e p'. p' = co_producer s \<and> jfield e ''schema'' = JStr OBSERVER_SCHEMA"], rule wp_mono,
            rule runs_work_started [OF _ assms], assumption) auto
    next
      fix e s' assume s': "same_setup s s'" "co_producer s' = co_producer s \<and> jfield e ''schema'' = JStr OBSERVER_SCHEMA"
      show "safe env (?k e) ?Q s'"
      proof (rule safe_and_then)
        show "safe env (read_cursor env) (\<lambda>_ s2. co_producer s2 = co_producer s') s'"
          by (rule safe_read_cursor) (use bound same_setupD [OF s'(1)] in auto)
      next
        fix c and s2 :: coordinator assume s2: "co_producer s2 = co_producer s'"
        show "safe env (send_observer_event env (dict_set (lit ''after_event_id'') c e)) ?Q s2"
          by (rule safe_mono, rule safe_send_event) (use s' s2 in simp_all)
      qed
    qed
    then show "safe env (and_then (look root_text) (\<lambda>r. and_then (reducing env (\<lambda>_ _. agent_work_started_event t r)) ?k)) ?Q s"
      by (intro safe_look_then)
  qed
qed

text \<open>After work was started the agent is still known.\<close>

lemma safe_start_lifecycle:
  assumes "knows_agent t (co_producer s)"
  shows "safe env (start_lifecycle env t turn) (\<lambda>_ s'. knows_agent t (co_producer s')) s"
  unfolding start_lifecycle_def
proof (rule safe_and_then [OF safe_start [OF assms]])
  fix b and s1 :: coordinator assume "knows_agent t (co_producer s1) \<and> (b \<or> None = None \<longrightarrow> tracks_target t (co_producer s1))"
  then have k: "knows_agent t (co_producer s1)" "tracks_target t (co_producer s1)" by simp_all
  show "safe env (publish_agent_work_started env t) (\<lambda>_ s'. knows_agent t (co_producer s')) s1"
    by (rule safe_mono [OF safe_publish_started [OF k]]) (use k(1) knows_same in blast)
qed

lemma safe_finish_lifecycle:
  assumes "knows_agent t (co_producer s)"
  shows "safe env (finish_lifecycle env t turn) (\<lambda>_ _. True) s"
proof (rule safe_assume)
  assume "coord_ok env s"
  then have "t \<noteq> []" using known_name assms by blast
  then show ?thesis
    unfolding finish_lifecycle_def
    by (intro safe_and_then [OF safe_finish] safe_look_then safe_if safe_prune safe_ret) auto
qed


lemma safe_status_lifecycle:
  assumes "knows_agent t (co_producer s)"
  shows "safe env (status_lifecycle env t turn status) (\<lambda>_ _. True) s"
proof (cases "as_dict status")
  case None
  then show ?thesis by (auto simp: status_lifecycle_def intro: safe_ret)
next
  case (Some st)
  have "safe env (if jfield st ''type'' = JStr (lit ''active'') then start_lifecycle env t None else ret ()) (\<lambda>_ s'. knows_agent t (co_producer s')) s"
    using assms by (auto intro: safe_start_lifecycle safe_ret)
  then show ?thesis unfolding status_lifecycle_def Some option.case
    by (rule safe_and_then) (intro safe_if safe_raise safe_finish_lifecycle safe_ret; simp add: outside_error_def)
qed

lemma safe_lifecycle: "safe env (observe_protocol_work_lifecycle env e) (\<lambda>_ _. True) s"
proof -
  have agent: "safe env (agent_lifecycle env kind params t) (\<lambda>_ _. True) s1" if "knows_agent t (co_producer s1)" for kind params t s1
    unfolding agent_lifecycle_def Let_def using that
    by (intro safe_if safe_drop [OF safe_start_lifecycle] safe_status_lifecycle safe_finish_lifecycle safe_ret) auto
  show ?thesis
    unfolding observe_protocol_work_lifecycle_def
    by (auto split: option.split intro!: safe_ret safe_look_then safe_and_then [OF safe_drop [OF safe_readers(7)]] agent
        safe_and_then [of env "ret ()" "\<lambda>_ _. True"])
qed

subsection \<open>Invocations\<close>

lemma safe_finally:
  assumes "safe env m R s" "\<And>s'. safe env f (\<lambda>_ _. True) s'"
  shows "safe env (finally_do m f) (\<lambda>_ _. True) s"
  unfolding safe_def
proof
  assume ok: "coord_ok env s"
  obtain s1 r where m: "m s = (s1, r)" by (rule prod.exhaust)
  obtain s2 q where f: "f s1 = (s2, q)" by (rule prod.exhaust)
  have s1: "coord_ok env s1" "same_setup s s1" "\<forall>e. r = Inl e \<longrightarrow> outside_error e"
    using assms(1) ok by (auto simp: safe_def wp_def m split: sum.splits)
  have "coord_ok env s2" "same_setup s1 s2" "\<forall>e. q = Inl e \<longrightarrow> outside_error e"
    using assms(2) [of s1] s1(1) by (auto simp: safe_def wp_def f split: sum.splits)
  then show "wp (finally_do m f) (\<lambda>_ s'. coord_ok env s' \<and> same_setup s s' \<and> True) (\<lambda>e s'. coord_ok env s' \<and> same_setup s s' \<and> outside_error e) s"
    using s1 same_setup_trans [OF s1(2)] by (cases r; cases q) (auto simp: wp_def finally_do_def m and_then_def f)
qed

lemma safe_restart: "safe env (restart_receivers env item_id js) (\<lambda>_ _. True) s"
proof (induction js arbitrary: s)
  case Nil
  then show ?case by (simp only: restart_receivers.simps) (rule safe_ret, simp)
next
  case (Cons j js)
  have started: "safe env (and_then (reducing env (\<lambda>now reader. start_agent_work now reader t None (Some item_id))) (\<lambda>started.
      if started then publish_agent_work_started env t else ret ())) (\<lambda>_ _. True) s" if "knows_agent t (co_producer s)" for t
    by (rule safe_and_then [OF safe_start [OF that]]) (intro safe_if safe_drop [OF safe_publish_started] safe_ret; simp)
  have "safe env (case as_str j of None \<Rightarrow> ret ()
      | Some t \<Rightarrow> and_then (look (knows_agent t \<circ> co_producer)) (\<lambda>known. if \<not> known then ret ()
          else and_then (reducing env (\<lambda>now reader. start_agent_work now reader t None (Some item_id))) (\<lambda>started.
            if started then publish_agent_work_started env t else ret ()))) (\<lambda>_ _. True) s"
  proof (cases "as_str j")
    case (Some t)
    then show ?thesis unfolding Some option.case
      by (intro safe_look_then safe_if safe_ret started) (auto simp del: as_str_eq_Some)
  qed (auto intro: safe_ret)
  then show ?case unfolding restart_receivers.simps by (rule safe_and_then) (rule Cons.IH)
qed

lemma context_event:
  assumes "activity_shape a"
  shows "\<exists>x. root_request_context_event a p = Inr x \<and> (\<forall>c. x = Some c \<longrightarrow> jfield c ''schema'' = JStr OBSERVER_SCHEMA)"
proof (cases "prod_parent_message p")
  case (Some parent)
  from assms obtain item where item: "jfield a ''item'' = JDict item" "dict_get a (lit ''thread_id'') \<noteq> None"
    "dict_get item (lit ''agent_thread_id'') \<noteq> None" "dict_get item (lit ''id'') \<noteq> None"
    by (auto simp: activity_shape_def jfield_def split: option.splits json.splits)
  then show ?thesis using Some
    by (auto simp: root_request_context_event_def jfield_def split: option.split)
qed (simp add: root_request_context_event_def)

lemma safe_context:
  assumes "activity_shape a"
  shows "safe env (request_context a) (\<lambda>x s'. s' = s \<and> (\<forall>c. x = Some c \<longrightarrow> jfield c ''schema'' = JStr OBSERVER_SCHEMA)) s"
proof -
  obtain x where x: "root_request_context_event a (co_producer s) = Inr x" "\<forall>c. x = Some c \<longrightarrow> jfield c ''schema'' = JStr OBSERVER_SCHEMA"
    using context_event [OF assms] by blast
  show ?thesis unfolding request_context_def by (rule safe_look_then) (use x in \<open>auto intro: safe_ret\<close>)
qed

definition contexts_ok :: "(pystr \<times> event) list \<Rightarrow> bool" where
  "contexts_ok cs \<longleftrightarrow> list_all (\<lambda>(t, c). jfield c ''schema'' = JStr OBSERVER_SCHEMA) cs"

lemma safe_unsent:
  assumes "list_all activity_shape activities"
  shows "safe env (unsent_contexts env item_id activities) (\<lambda>cs _. contexts_ok cs) s"
  using assms
proof (induction activities arbitrary: s)
  case Nil
  then show ?case by (simp only: unsent_contexts.simps) (rule safe_ret, simp add: contexts_ok_def)
next
  case (Cons a rest)
  have shape: "activity_shape a" using Cons.prems by simp
  show ?case unfolding unsent_contexts.simps
  proof (rule safe_and_then [OF safe_need])
    show "item_field (ev_rep env) ''agent_thread_id'' a \<noteq> None" using shape_field [OF shape] by blast
  next
    fix t s1
    show "safe env (and_then (reducing env (\<lambda>now _. root_request_context_was_sent now item_id t)) (\<lambda>sent.
        and_then (if sent then ret None else request_context a) (\<lambda>ctx.
        and_then (unsent_contexts env item_id rest) (\<lambda>found.
        ret (case ctx of None \<Rightarrow> found | Some c \<Rightarrow> (t, c) # found))))) (\<lambda>cs _. contexts_ok cs) s1"
    proof (rule safe_and_then [OF safe_drop [OF safe_readers(2)]])
      fix sent s2
      have "safe env (if sent then ret None else request_context a) (\<lambda>x _. \<forall>c. x = Some c \<longrightarrow> jfield c ''schema'' = JStr OBSERVER_SCHEMA) s2"
        by (intro safe_if safe_ret safe_mono [OF safe_context [OF shape]]) auto
      then show "safe env (and_then (if sent then ret None else request_context a) (\<lambda>ctx.
        and_then (unsent_contexts env item_id rest) (\<lambda>found.
        ret (case ctx of None \<Rightarrow> found | Some c \<Rightarrow> (t, c) # found)))) (\<lambda>cs _. contexts_ok cs) s2"
      proof (rule safe_and_then)
        fix ctx s3 assume "\<forall>c. ctx = Some c \<longrightarrow> jfield c ''schema'' = JStr OBSERVER_SCHEMA"
        then show "safe env (and_then (unsent_contexts env item_id rest) (\<lambda>found.
            ret (case ctx of None \<Rightarrow> found | Some c \<Rightarrow> (t, c) # found))) (\<lambda>cs _. contexts_ok cs) s3"
          using Cons.prems by (intro safe_and_then [OF Cons.IH] safe_ret) (auto simp: contexts_ok_def split: option.split)
      qed
    qed
  qed
qed

lemma safe_send_contexts: "contexts_ok cs \<Longrightarrow> safe env (send_contexts env item_id cs) (\<lambda>_ _. True) s"
proof (induction cs arbitrary: s)
  case Nil
  then show ?case by (simp only: send_contexts.simps) (rule safe_ret, simp)
next
  case (Cons p cs)
  obtain t c where p: "p = (t, c)" by (rule prod.exhaust)
  have c: "jfield c ''schema'' = JStr OBSERVER_SCHEMA" "contexts_ok cs" using Cons.prems p by (auto simp: contexts_ok_def)
  show ?case unfolding p send_contexts.simps
    by (rule safe_and_then [OF safe_drop [OF safe_readers(3)]], rule safe_and_then [OF safe_drop [OF safe_send_event [OF c(1)]]])
      (rule Cons.IH [OF c(2)])
qed

lemma safe_deliver:
  assumes "jfield invocation ''schema'' = JStr OBSERVER_SCHEMA"
  shows "safe env (deliver_invocation env item_id invocation receivers) (\<lambda>_ _. True) s"
proof (rule safe_assume)
  assume ok: "coord_ok env s"
  have shapes: "list_all activity_shape (activities_of item_id (co_producer s))"
    using activities_shape ok by (auto simp: coord_ok_def producer_ok_def list_all_iff)
  have schema: "jfield (if cs = [] then invocation else follow_contexts invocation) ''schema'' = JStr OBSERVER_SCHEMA" for cs :: "(pystr \<times> event) list"
    using assms by (simp add: follow_contexts_def)
  have "safe env (and_then (unsent_contexts env item_id (activities_of item_id (co_producer s))) (\<lambda>contexts.
       and_then (send_observer_event env (if contexts = [] then invocation else follow_contexts invocation)) (\<lambda>_.
       send_contexts env item_id contexts))) (\<lambda>_ _. True) s"
    by (rule safe_and_then [OF safe_unsent [OF shapes]], rule safe_and_then [OF safe_drop [OF safe_send_event [OF schema]]])
      (rule safe_send_contexts)
  then show ?thesis unfolding deliver_invocation_def
    by (intro safe_look_then safe_if safe_ret) auto
qed

lemma safe_handle:
  assumes "jfield invocation ''schema'' = JStr OBSERVER_SCHEMA"
  shows "safe env (handle_invocation env item_id invocation item) (\<lambda>_ _. True) s"
proof -
  have rest: "safe env (and_then (reducing env (\<lambda>now _. correlation_is_uncertain now item_id)) (\<lambda>uncertain.
      if uncertain then send_current env else deliver_invocation env item_id invocation receivers)) (\<lambda>_ _. True) s1" for receivers s1
    by (rule safe_and_then [OF safe_drop [OF safe_readers(1)]]) (intro safe_if safe_drop [OF safe_send_current] safe_deliver assms)
  have first: "safe env (if b then restart_receivers env item_id receivers else ret ()) (\<lambda>_ _. True) s" for b receivers
    by (intro safe_if safe_restart safe_ret) simp
  show ?thesis unfolding handle_invocation_def Let_def by (rule safe_and_then [OF first]) (rule rest)
qed

definition invocation_event_ok :: "event \<Rightarrow> bool" where
  "invocation_event_ok e \<longleftrightarrow>
     jfield e ''schema'' = JStr OBSERVER_SCHEMA \<and>
     (\<exists>item xs. dict_get e (lit ''item'') = Some (JDict item) \<and> dict_get item (lit ''receiver_thread_ids'') = Some (JList xs) \<and>
       dict_get item (lit ''id'') \<noteq> None)"

lemma safe_invocation:
  assumes "invocation_event_ok invocation"
  shows "safe env (observe_collaboration_invocation env invocation) (\<lambda>_ _. True) s"
proof -
  obtain item xs where i: "jfield invocation ''schema'' = JStr OBSERVER_SCHEMA" "dict_get invocation (lit ''item'') = Some (JDict item)"
    "dict_get item (lit ''receiver_thread_ids'') = Some (JList xs)" "dict_get item (lit ''id'') \<noteq> None"
    using assms by (auto simp: invocation_event_ok_def)
  have item: "as_dict (jfield invocation ''item'') = Some item" using i(2) by (simp add: jfield_def)
  have remember: "safe env (reducing env (\<lambda>now _. remember_collaboration_invocation (ev_rep env) (ev_enc env) now item_id invocation))
      (\<lambda>_ s'. agents_of (co_producer s') = agents_of (co_producer s1)) s1" for item_id s1
    by (rule safe_quiet, erule runs_remember_invocation [OF _ i(2,3)])
  have settle: "safe env (reducing env (\<lambda>now _. settle_correlation now item_id)) (\<lambda>_ _. True) s1" for item_id s1
    by (rule safe_drop [OF safe_readers(5)])
  have "safe env (and_then (need (dict_get item (lit ''id''))) (\<lambda>raw_id.
      let item_id = py_str (ev_rep env) raw_id in
      and_then (reducing env (\<lambda>now _. remember_collaboration_invocation (ev_rep env) (ev_enc env) now item_id invocation)) (\<lambda>fresh.
      if \<not> fresh then ret ()
      else finally_do (handle_invocation env item_id invocation item) (reducing env (\<lambda>now _. settle_correlation now item_id))))) (\<lambda>_ _. True) s"
    unfolding Let_def
    by (rule safe_and_then [OF safe_need [OF i(4)]], rule safe_and_then [OF safe_drop [OF remember]], rule safe_if, rule safe_ret, simp,
        rule safe_finally [OF safe_handle [OF i(1)]], rule settle)
  then show ?thesis unfolding observe_collaboration_invocation_def item option.case
    by (intro safe_look_then safe_if safe_ret) auto
qed

lemma attach_get: "k \<noteq> lit ''projection_overflow'' \<Longrightarrow> dict_get (attach_overflow e tr om) k = dict_get e k"
  by (simp add: attach_overflow_def)

lemma attach_field: "lit k \<noteq> lit ''projection_overflow'' \<Longrightarrow> jfield (attach_overflow e tr om) k = jfield e k"
  by (simp add: jfield_def attach_get)

lemma jfield_Cons: "jfield ((k', v) # d) k = (if lit k = k' then v else jfield d k)"
  by (simp add: jfield_def)

lemma invocation_projected:
  assumes "project_collaboration_invocation_event e = Inr (Some p)"
  shows "invocation_event_ok p"
proof -
  obtain ev params item where "collaboration_invocation_of ev params item = Some p"
    using assms by (auto simp: project_collaboration_invocation_event_def split: option.splits if_splits)
  then show ?thesis
    unfolding collaboration_invocation_of_def Let_def
    by (auto split: option.splits if_splits prod.splits simp: invocation_event_ok_def attach_get attach_field jfield_Cons)
qed

lemma activity_projected:
  assumes "project_subagent_activity_event e = Inr (Some p)"
  shows "activity_event_ok rep p \<and> jfield p ''schema'' = JStr OBSERVER_SCHEMA"
proof -
  obtain ev params item where "subagent_activity ev params item = Some p"
    using assms by (auto simp: project_subagent_activity_event_def split: option.splits if_splits)
  then show ?thesis
    unfolding subagent_activity_def Let_def
    by (auto split: option.splits if_splits prod.splits dest!: projected_uuid
        simp: activity_event_ok_def activity_shape_def item_field_def attach_get attach_field jfield_Cons)
qed

lemma message_projected:
  assumes "project_agent_message_event e = Some p"
  shows "jfield p ''schema'' = JStr OBSERVER_SCHEMA \<and> dict_get p (lit ''thread_id'') \<noteq> None"
proof -
  obtain params item where "agent_message params item = Some p"
    using assms by (auto simp: project_agent_message_event_def split: option.splits)
  then show ?thesis
    unfolding agent_message_def Let_def
    by (auto split: option.splits if_splits prod.splits simp: attach_get attach_field jfield_Cons)
qed

subsection \<open>Activities\<close>

lemma shape_set: "activity_shape e \<Longrightarrow> k \<noteq> lit ''thread_id'' \<Longrightarrow> k \<noteq> lit ''item'' \<Longrightarrow> activity_shape (dict_set k v e)"
  by (simp add: activity_shape_def)

lemma event_ok_set: "activity_event_ok rep e \<Longrightarrow> k \<noteq> lit ''thread_id'' \<Longrightarrow> k \<noteq> lit ''item'' \<Longrightarrow> activity_event_ok rep (dict_set k v e)"
  by (simp add: activity_event_ok_def item_field_def shape_set)

lemma safe_activity_work:
  assumes "knows_agent t (co_producer s)"
  shows "safe env (activity_work env kind new t i) (\<lambda>_ s'. knows_agent t (co_producer s')) s"
  unfolding activity_work_def
proof (intro safe_if)
  show "safe env (and_then (reducing env (\<lambda>_ _. finish_agent_work t None (Some i))) (\<lambda>finished.
        and_then (look (tracks_target t \<circ> co_producer)) (\<lambda>tracked. ret (finished \<or> \<not> tracked)))) (\<lambda>_ s'. knows_agent t (co_producer s')) s"
    by (rule safe_and_then [OF safe_finish], rule safe_look_then, rule safe_ret) (use assms in \<open>simp add: same_names_def knows_agent_def\<close>)
  show "safe env (and_then (reducing env (\<lambda>now reader. start_agent_work now reader t None (Some i))) (\<lambda>_. ret False))
      (\<lambda>_ s'. knows_agent t (co_producer s')) s"
    by (rule safe_and_then [OF safe_start [OF assms]], rule safe_ret) simp
qed (use assms in \<open>auto intro: safe_ret\<close>)

lemma safe_send_activity:
  assumes "activity_shape e" "jfield e ''schema'' = JStr OBSERVER_SCHEMA"
  shows "safe env (send_activity env e noted t i) (\<lambda>_ _. True) s"
proof -
  let ?R = "\<lambda>x (s' :: coordinator). \<forall>c. x = Some c \<longrightarrow> jfield c ''schema'' = JStr OBSERVER_SCHEMA"
  have ctx: "safe env (if is_request_tool (projected_invocation_tool_name noted) then
          and_then (reducing env (\<lambda>now _. root_request_context_was_sent now i t)) (\<lambda>sent. if sent then ret None else request_context e)
        else ret None) ?R s"
  proof (intro safe_if)
    show "safe env (and_then (reducing env (\<lambda>now _. root_request_context_was_sent now i t)) (\<lambda>sent.
        if sent then ret None else request_context e)) ?R s"
      by (rule safe_and_then [OF safe_drop [OF safe_readers(2)]], rule safe_if, rule safe_ret, simp, rule safe_mono [OF safe_context [OF assms(1)]])
        simp
  qed (simp add: safe_ret)
  show ?thesis unfolding send_activity_def
  proof (rule safe_and_then [OF ctx])
    fix x s1 assume x: "?R x s1"
    have schema: "jfield (if x = None then e else follow_contexts e) ''schema'' = JStr OBSERVER_SCHEMA"
      using assms(2) by (simp add: follow_contexts_def)
    have more: "safe env (case x of None \<Rightarrow> ret () | Some c \<Rightarrow> send_contexts env i [(t, c)]) (\<lambda>_ _. True) s2" for s2
      using x by (cases x) (auto simp del: send_contexts.simps intro!: safe_ret safe_send_contexts simp: contexts_ok_def)
    show "safe env (let e' = (if x = None then e else follow_contexts e) in and_then (send_observer_event env e') (\<lambda>_.
        and_then (case x of None \<Rightarrow> ret () | Some c \<Rightarrow> send_contexts env i [(t, c)]) (\<lambda>_. ret e'))) (\<lambda>_ _. True) s1"
      unfolding Let_def
      by (rule safe_and_then [OF safe_drop [OF safe_send_event [OF schema]]], rule safe_and_then [OF more], rule safe_ret) simp
  qed
qed

lemma safe_prune_completed: "safe env (prune_completed_activity env e) (\<lambda>_ _. True) s"
  unfolding prune_completed_activity_def by (auto split: option.split intro: safe_ret safe_drop [OF safe_readers(4)])

lemma safe_uncertain:
  assumes "knows_agent t (co_producer s)"
  shows "safe env (uncertain_activity env t i) (\<lambda>_ _. True) s"
proof -
  have "safe env (and_then (if b then publish_agent_work_started env t else ret ()) (\<lambda>_. send_current env)) (\<lambda>_ _. True) s1"
    if "knows_agent t (co_producer s1)" "b \<longrightarrow> tracks_target t (co_producer s1)" for b s1
    by (rule safe_and_then [where R = "\<lambda>_ _. True"])
      (use that in \<open>auto intro: safe_drop [OF safe_publish_started] safe_ret safe_drop [OF safe_send_current]\<close>)
  then show ?thesis unfolding uncertain_activity_def by (intro safe_and_then [OF safe_start [OF assms]]) auto
qed

lemma safe_certain:
  assumes "knows_agent t (co_producer s)" "t \<noteq> []" "activity_shape e" "jfield e ''schema'' = JStr OBSERVER_SCHEMA"
    "\<And>x. noted = Some x \<Longrightarrow> dict_get x (lit ''item'') \<noteq> None"
  shows "safe env (certain_activity env e noted kind new t i) (\<lambda>_ _. True) s"
proof -
  have rest: "safe env (and_then (activity_work env kind new t i) (\<lambda>completed.
     and_then (send_activity env e1 noted t i) (\<lambda>e2.
     and_then (prune_completed_activity env e2) (\<lambda>_.
     and_then (if completed then prune_target_thread env t else ret ()) (\<lambda>_. ret (Some e2)))))) (\<lambda>_ _. True) s"
    if e1: "activity_shape e1" "jfield e1 ''schema'' = JStr OBSERVER_SCHEMA" for e1
    by (rule safe_and_then [OF safe_activity_work [OF assms(1)]], rule safe_and_then [OF safe_send_activity [OF e1]],
        rule safe_and_then [OF safe_prune_completed], rule safe_and_then [where R = "\<lambda>_ _. True"])
      (auto intro: safe_prune [OF assms(2)] safe_ret)
  show ?thesis
  proof (cases noted)
    case None
    then show ?thesis unfolding certain_activity_def by (simp only: option.case ret_bind) (use rest [OF assms(3,4)] None in simp)
  next
    case (Some x)
    obtain item where item: "dict_get x (lit ''item'') = Some item" using assms(5) [OF Some] by auto
    have e1: "activity_shape (dict_set (lit ''collaboration_invocation'') item e)"
      "jfield (dict_set (lit ''collaboration_invocation'') item e) ''schema'' = JStr OBSERVER_SCHEMA"
      using assms(3,4) by (simp_all add: shape_set)
    show ?thesis unfolding certain_activity_def
      using rest [OF e1] by (simp only: Some option.case need_def item ret_bind)
  qed
qed

lemma safe_remember_activity:
  assumes "activity_event_ok (ev_rep env) e" "item_field (ev_rep env) ''agent_thread_id'' e = Some t" "co_database s \<noteq> None"
  shows "safe env (reducing env (\<lambda>now _. remember_activity (ev_rep env) now i e)) (\<lambda>fresh s'. fresh \<longrightarrow> knows_agent t (co_producer s')) s"
  by (rule safe_reducing [where R = "\<lambda>fresh p'. fresh \<longrightarrow> knows_agent t p'"], rule wp_mono, erule runs_remember_activity [OF _ assms(1,2)])
    (use assms(3) in auto)

lemma safe_activity:
  assumes "activity_event_ok (ev_rep env) e" "jfield e ''schema'' = JStr OBSERVER_SCHEMA"
  shows "safe env (observe_activity env e) (\<lambda>_ _. True) s"
proof (rule safe_assume)
  assume ok: "coord_ok env s"
  have shape: "activity_shape e" using assms(1) by (simp add: activity_event_ok_def)
  obtain i t where ids: "item_field (ev_rep env) ''id'' e = Some i" "item_field (ev_rep env) ''agent_thread_id'' e = Some t"
    using shape_field [OF shape, of "ev_rep env"] by blast
  then have t: "t \<noteq> []" using assms(1) by (simp add: activity_event_ok_def)
  let ?noted = "collaboration_invocation i (co_producer s)" and ?kind = "jpath (jfield e ''item'') ''activity_kind''"
  let ?new = "?kind = JStr (lit ''started'')"
  have noted: "dict_get x (lit ''item'') \<noteq> None" if "?noted = Some x" for x
    using invocation_item [OF _ that] ok by (auto simp: coord_ok_def producer_ok_def)
  let ?tail = "\<lambda>e1. and_then (reducing env (\<lambda>now _. remember_activity (ev_rep env) now i e1)) (\<lambda>fresh.
      if \<not> fresh then ret None
      else and_then (reducing env (\<lambda>now _. correlation_is_uncertain now i)) (\<lambda>uncertain.
        if uncertain then and_then (uncertain_activity env t i) (\<lambda>_. ret None)
        else certain_activity env e1 ?noted ?kind ?new t i))"
  have tail: "safe env (?tail e1) (\<lambda>_ _. True) s1"
    if e1: "activity_event_ok (ev_rep env) e1" "item_field (ev_rep env) ''agent_thread_id'' e1 = Some t" "jfield e1 ''schema'' = JStr OBSERVER_SCHEMA"
      "co_database s1 \<noteq> None" for e1 s1
  proof (rule safe_and_then [OF safe_remember_activity [OF e1(1,2,4)]], rule safe_if, rule safe_ret, simp, rule safe_and_then [OF safe_readers(1)])
    fix fresh uncertain and s2 s3 :: coordinator
    assume "fresh \<longrightarrow> knows_agent t (co_producer s2)" "\<not> \<not> fresh" "agents_of (co_producer s3) = agents_of (co_producer s2)"
    then have k: "knows_agent t (co_producer s3)" using knows_same by blast
    have "activity_shape e1" using e1(1) by (simp add: activity_event_ok_def)
    then show "safe env (if uncertain then and_then (uncertain_activity env t i) (\<lambda>_. ret None)
        else certain_activity env e1 ?noted ?kind ?new t i) (\<lambda>_ _. True) s3"
      using noted e1(3) by (intro safe_if safe_and_then [OF safe_uncertain [OF k]] safe_ret safe_certain k t) auto
  qed
  have spawn: "safe env (and_then (if ?new then and_then (read_cursor env) (\<lambda>c. ret (dict_set (lit ''after_event_id'') c e)) else ret e) ?tail) (\<lambda>_ _. True) s"
    if db: "co_database s \<noteq> None"
  proof (rule safe_and_then)
    let ?R = "\<lambda>e1 (s' :: coordinator). activity_event_ok (ev_rep env) e1 \<and> item_field (ev_rep env) ''agent_thread_id'' e1 = Some t \<and>
        jfield e1 ''schema'' = JStr OBSERVER_SCHEMA"
    have set: "?R (dict_set (lit ''after_event_id'') c e) s'" for c s'
      using event_ok_set [OF assms(1), of "lit ''after_event_id''" c] ids(2) assms(2) by (simp add: item_field_def)
    have "co_session s \<noteq> None" using ok db by (simp add: coord_ok_def)
    then have "safe env (and_then (read_cursor env) (\<lambda>c. ret (dict_set (lit ''after_event_id'') c e))) ?R s"
      by (rule safe_and_then [OF safe_read_cursor [OF _ db]]) (rule safe_ret, rule set)
    moreover have "safe env (ret e) ?R s" using assms ids(2) by (intro safe_ret) simp
    ultimately show "safe env (if ?new then and_then (read_cursor env) (\<lambda>c. ret (dict_set (lit ''after_event_id'') c e)) else ret e) ?R s"
      by simp
  next
    fix e1 and s1 :: coordinator
    assume su: "same_setup s s1" and e1: "activity_event_ok (ev_rep env) e1 \<and>
        item_field (ev_rep env) ''agent_thread_id'' e1 = Some t \<and> jfield e1 ''schema'' = JStr OBSERVER_SCHEMA"
    have "co_database s1 \<noteq> None" using db same_setupD(1) [OF su] by simp
    then show "safe env (?tail e1) (\<lambda>_ _. True) s1" by (intro tail) (use e1 in blast)+
  qed
  show ?thesis
    unfolding observe_activity_def
  proof (rule safe_look_then)
    fix s0 assume "s0 = id s"
    then have s0: "s0 = s" by simp
    show "safe env (if co_database s0 = None \<or> co_root s0 = None \<or> jfield e ''thread_id'' \<noteq> JStr (root_text s0) then ret None
      else and_then (need (item_field (ev_rep env) ''id'' e)) (\<lambda>item_id.
       and_then (need (item_field (ev_rep env) ''agent_thread_id'' e)) (\<lambda>target.
       let noted = collaboration_invocation item_id (co_producer s0);
           kind = jpath (jfield e ''item'') ''activity_kind'';
           is_new_spawn = (kind = JStr (lit ''started''))
       in if \<not> is_new_spawn \<and> \<not> is_known_activity item_id (co_producer s0) \<and> \<not> knows_agent target (co_producer s0) then ret None
          else and_then (if is_new_spawn
              then and_then (read_cursor env) (\<lambda>c. ret (dict_set (lit ''after_event_id'') c e)) else ret e) (\<lambda>e1.
            and_then (reducing env (\<lambda>now _. remember_activity (ev_rep env) now item_id e1)) (\<lambda>fresh.
            if \<not> fresh then ret None
            else and_then (reducing env (\<lambda>now _. correlation_is_uncertain now item_id)) (\<lambda>uncertain.
              if uncertain then and_then (uncertain_activity env target item_id) (\<lambda>_. ret None)
              else certain_activity env e1 noted kind is_new_spawn target item_id)))))) (\<lambda>_ _. True) s"
      unfolding s0 need_def ids option.case ret_bind Let_def
      by (rule safe_if, rule safe_ret, simp, rule safe_if, rule safe_ret, simp, rule spawn) simp
  qed
qed

lemma safe_projected: "safe env (observe_projected env e) (\<lambda>_ _. True) s"
proof -
  have out: "outside_error UnhashableEvent" by (simp add: outside_error_def)
  have inv: "safe env (and_then (observe_collaboration_invocation env p) (\<lambda>_. ret None)) (\<lambda>_ _. True) s"
    if "project_collaboration_invocation_event e = Inr (Some p)" for p
    by (rule safe_and_then [OF safe_invocation [OF invocation_projected [OF that]]], rule safe_ret) simp
  have message: "safe env (and_then (observe_agent_message env p) (\<lambda>_. ret None)) (\<lambda>_ _. True) s"
    if "project_agent_message_event e = Some p" for p
  proof (rule safe_and_then [where R = "\<lambda>_ _. True"])
    note p = message_projected [OF that]
    show "safe env (observe_agent_message env p) (\<lambda>_ _. True) s"
      unfolding observe_agent_message_def
      by (rule safe_and_then [OF safe_need]) (use p in \<open>auto intro!: safe_look_then safe_drop [OF safe_send_event] safe_ret\<close>)
  qed (simp add: safe_ret)
  have user: "safe env (and_then (observe_user_message env p) (\<lambda>_. ret None)) (\<lambda>_ _. True) s" for p
    by (rule safe_and_then [where R = "\<lambda>_ _. True"])
      (auto simp: observe_user_message_def intro!: safe_look_then safe_drop [OF safe_readers(7)] safe_ret)
  have activity: "safe env (observe_activity env a) (\<lambda>_ _. True) s" if "project_subagent_activity_event e = Inr (Some a)" for a
    using activity_projected [OF that] by (intro safe_activity) auto
  show ?thesis
    unfolding observe_projected_def
    using inv message user activity safe_raise [OF out] safe_ret [of "\<lambda>_ _. True" None s env]
    by (auto split: sum.split option.split)
qed

lemma safe_locked: "safe env (observe_protocol_event_locked env e) (\<lambda>_ _. True) s"
  unfolding observe_protocol_event_locked_def
  by (rule safe_look_then, rule safe_if, rule safe_ret, simp, rule safe_and_then [OF safe_lifecycle], rule safe_projected)

subsection \<open>Every sequence of methods\<close>

text \<open>A call of the coordinator by its owner, its pane or a timer.\<close>

datatype coordinator_call =
    Activate pystr int pystr int
  | BindSource pystr
  | ResetSource pystr
  | ResetAfterDisconnect
  | Observe "event option" "pystr option"
  | RetryFires nat
  | PublishCurrent
  | CloseCoordinator

fun run_call :: "coordinator_env \<Rightarrow> coordinator_call \<Rightarrow> unit coordinator_action" where
  "run_call env (Activate path session text root_uuid) = activate env path session text root_uuid"
| "run_call env (BindSource g) = bind_protocol_source env g"
| "run_call env (ResetSource g) = reset_protocol_source env g"
| "run_call env ResetAfterDisconnect = coordinator_reset env"
| "run_call env (Observe e g) = observe_protocol_event env e g"
| "run_call env (RetryFires g) = retry_pane_close env g"
| "run_call env PublishCurrent = send_current env"
| "run_call env CloseCoordinator = close_coordinator env"

fun run_calls :: "coordinator_env \<Rightarrow> coordinator_call list \<Rightarrow> coordinator \<Rightarrow> coordinator \<times> (coordinator_error + unit) list" where
  "run_calls env [] s = (s, [])"
| "run_calls env (c # cs) s = (case run_call env c s of (s1, r) \<Rightarrow> (case run_calls env cs s1 of (s2, rs) \<Rightarrow> (s2, r # rs)))"

text \<open>What a call may raise: a refused activation, and for an event what comes from outside.\<close>

definition usage_error :: "coordinator_error \<Rightarrow> bool" where
  "usage_error e \<longleftrightarrow> e = CoordinatorClosed \<or> e = AlreadyActivated \<or> e = SessionNotPositive \<or> e = BadSessionText"

fun result_ok :: "coordinator_call \<Rightarrow> coordinator_error + unit \<Rightarrow> bool" where
  "result_ok c (Inr _) = True"
| "result_ok (Activate path session text root_uuid) (Inl e) = usage_error e"
| "result_ok (Observe ev g) (Inl e) = outside_error e"
| "result_ok c (Inl e) = False"

subsubsection \<open>The pane log\<close>

definition unconfirmed :: "pane_entry list \<Rightarrow> bool" where
  "unconfirmed l \<longleftrightarrow> l \<noteq> [] \<and> last l = PaneClose False"

definition is_create :: "pane_entry \<Rightarrow> bool" where
  "is_create x \<longleftrightarrow> (case x of PaneCreate e b \<Rightarrow> True | PaneClose b \<Rightarrow> False)"

text \<open>No pane is created while the close before it is unconfirmed.\<close>

fun pane_order :: "pane_entry list \<Rightarrow> bool" where
  "pane_order [] = True"
| "pane_order [x] = True"
| "pane_order (x # y # rest) = (\<not> (x = PaneClose False \<and> is_create y) \<and> pane_order (y # rest))"

lemma pane_order_snoc: "pane_order (l @ [x]) \<longleftrightarrow> pane_order l \<and> \<not> (unconfirmed l \<and> is_create x)"
  by (induction l rule: pane_order.induct) (auto simp: unconfirmed_def)

definition pane_shut :: "pane_entry list \<Rightarrow> bool" where
  "pane_shut l \<longleftrightarrow> l = [] \<or> \<not> is_create (last l)"

text \<open>A pending close is the last entry of the log, and it is retried by the timer of its generation or the delays are used up.\<close>

definition pane_core :: "coordinator \<Rightarrow> bool" where
  "pane_core s \<longleftrightarrow>
     pane_order (co_pane s) \<and>
     (if co_closed s then \<not> co_close_pending s else co_close_pending s = unconfirmed (co_pane s)) \<and>
     (\<not> co_close_pending s \<longrightarrow> co_retry s = None) \<and> (co_retry s = None \<or> co_retry s = Some (co_close_generation s))"

definition pane_inv :: "coordinator \<Rightarrow> bool" where
  "pane_inv s \<longleftrightarrow>
     pane_core s \<and>
     (co_close_pending s \<longrightarrow> co_retry s = Some (co_close_generation s) \<or> length OBSERVER_PANE_CLOSE_RETRY_DELAYS < co_close_attempts s)"

lemma pane_core_idle: "pane_core s \<Longrightarrow> \<not> co_close_pending s \<Longrightarrow> pane_inv s"
  by (simp add: pane_inv_def)

definition full_ok :: "coordinator_env \<Rightarrow> coordinator \<Rightarrow> bool" where
  "full_ok env s \<longleftrightarrow> coord_ok env s \<and> pane_inv s"

lemma wp_primitives [simp]:
  "wp (look f) Q E = (\<lambda>s. Q (f s) s)" "wp (change g) Q' E = (\<lambda>s. Q' () (g s))"
  "wp (ask h) Q'' E = (\<lambda>s. Q'' (h (co_asked s)) (s\<lparr>co_asked := Suc (co_asked s)\<rparr>))"
  by (simp_all add: wp_def look_def change_def ask_def fun_eq_iff)

text \<open>What the pane handling leaves alone.\<close>

definition same_binding :: "coordinator \<Rightarrow> coordinator \<Rightarrow> bool" where
  "same_binding s s' \<longleftrightarrow>
     co_database s' = co_database s \<and> co_session s' = co_session s \<and> co_session_text s' = co_session_text s \<and> co_root s' = co_root s \<and>
     co_source s' = co_source s \<and> co_source_bound s' = co_source_bound s \<and> co_closed s' = co_closed s"

lemma setup_binding: "same_setup s s' \<Longrightarrow> same_binding s s'"
  by (simp add: same_binding_def same_setupD)

lemma setup_pane: "same_setup s s' \<Longrightarrow> pane_inv s' = pane_inv s"
  by (simp add: pane_inv_def pane_core_def same_setupD)

lemma sure_published:
  assumes "coord_ok env s"
    "\<And>now. producer_ok (ev_rep env) (ev_enc env) (co_producer s) \<Longrightarrow>
      runs (f now) (\<lambda>m p'. producer_ok (ev_rep env) (ev_enc env) p' \<and> snapshot_fits (ev_enc env) m \<and> R p' \<and>
        prod_root_thread_id p' = prod_root_thread_id (co_producer s) \<and>
        (prod_known_agents p' \<noteq> [] \<longrightarrow> prod_known_agents (co_producer s) \<noteq> [])) (co_producer s)"
  shows "wp (send_published env f) (\<lambda>_ s'. coord_ok env s' \<and> same_setup s s' \<and> R (co_producer s')) (\<lambda>_ _. False) s"
proof -
  let ?now = "ev_now env (co_asked s)"
  obtain p r where f: "f ?now (co_producer s) = (p, r)" by (rule prod.exhaust)
  have ok: "producer_ok (ev_rep env) (ev_enc env) (co_producer s)" using assms(1) by (simp add: coord_ok_def)
  from assms(2) [OF this, of ?now] obtain m where "r = Inr m" "producer_ok (ev_rep env) (ev_enc env) p" "snapshot_fits (ev_enc env) m" "R p"
    "prod_root_thread_id p = prod_root_thread_id (co_producer s)" "prod_known_agents p \<noteq> [] \<longrightarrow> prod_known_agents (co_producer s) \<noteq> []"
    by (cases r) (auto simp: wp_def f)
  then show ?thesis using assms(1)
    by (auto simp: send_published_def send_observer_snapshot_def wp_def and_then_def reducing_def f change_def coord_ok_def same_setup_def)
qed

lemma sure_current:
  assumes "coord_ok env s"
  shows "wp (send_current env) (\<lambda>_ s'. coord_ok env s' \<and> same_setup s s' \<and> agents_of (co_producer s') = agents_of (co_producer s)) (\<lambda>_ _. False) s"
  unfolding send_current_def
  by (rule sure_published [OF assms, where R = "\<lambda>p'. agents_of p' = agents_of (co_producer s)"], rule wp_mono, rule runs_publish(2), assumption)
    (auto simp: agents_of_def)

lemma running_agents: "agents_of p' = agents_of p \<Longrightarrow> running_agent_count p' = running_agent_count p"
  by (simp add: agents_of_def running_agent_count_def)

lemma running_known: "producer_ok rep enc p \<Longrightarrow> running_agent_count p \<noteq> 0 \<Longrightarrow> prod_known_agents p \<noteq> []"
  by (auto simp: producer_ok_def prod_inv_def tables_ok_def agents_ok_def running_agent_count_def)

subsubsection \<open>Closing and creating\<close>

lemma try_close_ok:
  assumes "coord_ok env s" "pane_core s" "\<not> co_closed s"
  shows "wp (try_close env) (\<lambda>gone s'. full_ok env s' \<and> same_binding s s' \<and> co_producer s' = co_producer s \<and>
      co_pane s' = co_pane s @ [PaneClose gone] \<and> co_close_pending s' = (\<not> gone)) (\<lambda>_ _. False) s"
  using assms
  by (auto simp: try_close_def full_ok_def coord_ok_def pane_inv_def pane_core_def same_binding_def pane_order_snoc unconfirmed_def is_create_def
      cancel_pane_close_def schedule_pane_close_retry_def)

lemma create_pane_ok:
  assumes "full_ok env s" "\<not> co_closed s" "running_agent_count (co_producer s) \<noteq> 0" "\<not> co_close_pending s"
  shows "wp (create_pane env initial_event) (\<lambda>_ s'. full_ok env s' \<and> same_binding s s' \<and> running_agent_count (co_producer s') = running_agent_count (co_producer s)) (\<lambda>_ _. False) s"
proof -
  have bound: "co_database s \<noteq> None" "co_session s \<noteq> None" "co_session_text s \<noteq> None" "co_root s \<noteq> None"
    using assms(1,3) running_known [of "ev_rep env" "ev_enc env" "co_producer s"] by (auto simp: full_ok_def coord_ok_def)
  let ?s = "s\<lparr>co_asked := Suc (co_asked s), co_pane := co_pane s @ [PaneCreate (case initial_event of None \<Rightarrow> [] | Some e \<Rightarrow> e) (ev_created env (co_asked s))]\<rparr>"
  have ok: "coord_ok env ?s" "pane_inv ?s" "same_binding s ?s"
    using assms by (auto simp: full_ok_def coord_ok_def pane_inv_def pane_core_def pane_order_snoc is_create_def unconfirmed_def same_binding_def)
  have "wp (send_current env) (\<lambda>_ s'. full_ok env s' \<and> same_binding s s' \<and> running_agent_count (co_producer s') = running_agent_count (co_producer s)) (\<lambda>_ _. False) ?s"
  proof (rule wp_mono [OF sure_current [OF ok(1)]])
    fix x s' assume s': "coord_ok env s' \<and> same_setup ?s s' \<and> agents_of (co_producer s') = agents_of (co_producer ?s)"
    then have "agents_of (co_producer s') = agents_of (co_producer s)" by simp
    then have "running_agent_count (co_producer s') = running_agent_count (co_producer s)" by (rule running_agents)
    moreover have "pane_inv s'" "same_binding ?s s'" using s' ok(2) setup_pane setup_binding by blast+
    ultimately show "full_ok env s' \<and> same_binding s s' \<and> running_agent_count (co_producer s') = running_agent_count (co_producer s)"
      using s' ok(3) by (simp add: full_ok_def same_binding_def)
  qed simp
  then show ?thesis using bound ok by (auto simp: create_pane_def full_ok_def)
qed

abbreviation pane_done :: "coordinator_env \<Rightarrow> nat \<Rightarrow> coordinator \<Rightarrow> coordinator \<Rightarrow> bool" where
  "pane_done env prev s s' \<equiv>
     full_ok env s' \<and> same_binding s s' \<and> running_agent_count (co_producer s') = running_agent_count (co_producer s) \<and>
     (running_agent_count (co_producer s) = 0 \<and> (prev \<noteq> 0 \<or> pane_shut (co_pane s)) \<longrightarrow> pane_shut (co_pane s'))"

lemma open_pane_ok:
  assumes "full_ok env s" "\<not> co_closed s" "\<not> co_close_pending s" "running_agent_count (co_producer s) = 0 \<longrightarrow> prev \<noteq> 0 \<longrightarrow> pane_shut (co_pane s)"
  shows "wp (if running_agent_count (co_producer s) = 0 then ret ()
      else and_then (ask (ev_located env)) (\<lambda>located. if located then ret () else create_pane env initial_event))
    (\<lambda>_ s'. pane_done env prev s s') (\<lambda>_ _. False) s"
proof (cases "running_agent_count (co_producer s) = 0")
  case True
  then show ?thesis using assms by (auto simp: same_binding_def)
next
  case False
  let ?s = "s\<lparr>co_asked := Suc (co_asked s)\<rparr>"
  have ok: "full_ok env ?s" "same_binding s ?s" using assms(1) by (simp_all add: full_ok_def coord_ok_def pane_inv_def pane_core_def same_binding_def)
  have "wp (create_pane env initial_event) (\<lambda>_ s'. pane_done env prev s s') (\<lambda>_ _. False) ?s"
    by (rule wp_mono [OF create_pane_ok [OF ok(1)]]) (use assms False in \<open>auto simp: same_binding_def\<close>)
  then show ?thesis using False ok assms by auto
qed

lemma reconcile_ok:
  assumes "coord_ok env s" "pane_core s" "\<not> co_closed s"
  shows "wp (reconcile_observer_pane env prev initial_event) (\<lambda>_ s'. pane_done env prev s s') (\<lambda>_ _. False) s"
proof (cases "running_agent_count (co_producer s) = prev \<and> initial_event = None \<and> \<not> co_close_pending s")
  case True
  then show ?thesis using assms pane_core_idle by (auto simp: full_ok_def reconcile_observer_pane_def same_binding_def)
next
  case False
  let ?running = "running_agent_count (co_producer s)"
  let ?open = "if ?running = 0 then ret () else and_then (ask (ev_located env)) (\<lambda>located. if located then ret () else create_pane env initial_event)"
  let ?close = "co_close_pending s \<or> prev \<noteq> 0 \<and> ?running = 0"
  have "wp (if ?close then try_close env else ret True) (\<lambda>go. wp (if \<not> go then ret () else ?open) (\<lambda>_ s'. pane_done env prev s s') (\<lambda>_ _. False)) (\<lambda>_ _. False) s"
  proof (cases ?close)
    case True
    have "wp (try_close env) (\<lambda>go. wp (if \<not> go then ret () else ?open) (\<lambda>_ s'. pane_done env prev s s') (\<lambda>_ _. False)) (\<lambda>_ _. False) s"
    proof (rule wp_mono [OF try_close_ok [OF assms]])
      fix gone s1
      assume s1: "full_ok env s1 \<and> same_binding s s1 \<and> co_producer s1 = co_producer s \<and>
        co_pane s1 = co_pane s @ [PaneClose gone] \<and> co_close_pending s1 = (\<not> gone)"
      then have shut: "pane_shut (co_pane s1)" by (simp add: pane_shut_def is_create_def)
      have closed: "\<not> co_closed s1" using s1 assms(3) by (simp add: same_binding_def)
      show "wp (if \<not> gone then ret () else ?open) (\<lambda>_ s'. pane_done env prev s s') (\<lambda>_ _. False) s1"
      proof (cases gone)
        case True
        have "wp ?open (\<lambda>_ s'. pane_done env prev s1 s') (\<lambda>_ _. False) s1"
          using open_pane_ok [of env s1 prev initial_event] s1 closed True shut by auto
        then have "wp ?open (\<lambda>_ s'. pane_done env prev s s') (\<lambda>_ _. False) s1"
          by (rule wp_mono) (use s1 shut in \<open>auto simp: same_binding_def\<close>)
        then show ?thesis using True by (simp only: not_True_eq_False if_False)
      next
        case False
        then show ?thesis using s1 shut by simp
      qed
    qed simp
    then show ?thesis using True by (simp only: if_True)
  next
    case False
    then have c: "\<not> co_close_pending s" "?running = 0 \<longrightarrow> prev \<noteq> 0 \<longrightarrow> pane_shut (co_pane s)" by auto
    then have f: "full_ok env s" using assms(1,2) pane_core_idle by (simp add: full_ok_def)
    have "wp ?open (\<lambda>_ s'. pane_done env prev s s') (\<lambda>_ _. False) s" by (rule open_pane_ok [OF f assms(3) c])
    with False show ?thesis by (simp only: if_False wp_ret not_True_eq_False)
  qed
  then show ?thesis using False
    by (simp only: reconcile_observer_pane_def Let_def wp_and_then wp_primitives id_apply if_False)
qed


lemma full_okD: "full_ok env s \<Longrightarrow> coord_ok env s \<and> pane_core s"
  by (simp add: full_ok_def pane_inv_def)

text \<open>What a method keeps: no pane is left open without running agents.\<close>

abbreviation shut_ok :: "coordinator \<Rightarrow> bool" where
  "shut_ok s \<equiv> co_closed s \<or> 0 < running_agent_count (co_producer s) \<or> pane_shut (co_pane s)"

lemma retry_ok:
  assumes "full_ok env s"
  shows "wp (retry_pane_close env g) (\<lambda>_ s'. full_ok env s' \<and> same_binding s s' \<and> (shut_ok s \<longrightarrow> shut_ok s')) (\<lambda>_ _. False) s"
proof (cases "co_closed s \<or> g \<noteq> co_close_generation s")
  case True
  then show ?thesis using assms by (auto simp: retry_pane_close_def same_binding_def)
next
  case False
  let ?s = "s\<lparr>co_retry := None\<rparr>"
  have s1: "coord_ok env ?s" "pane_core ?s" "\<not> co_closed ?s" "same_binding s ?s"
    using assms False by (auto simp: full_ok_def coord_ok_def pane_inv_def pane_core_def same_binding_def)
  have "wp (reconcile_observer_pane env (running_agent_count (co_producer s)) None)
      (\<lambda>_ s'. full_ok env s' \<and> same_binding s s' \<and> (shut_ok s \<longrightarrow> shut_ok s')) (\<lambda>_ _. False) ?s"
    by (rule wp_mono [OF reconcile_ok [OF s1(1-3)]]) (use False s1(4) in \<open>auto simp: same_binding_def\<close>)
  moreover have "full_ok env ?s" if "\<not> co_close_pending s" using s1 that pane_core_idle by (simp add: full_ok_def)
  ultimately show ?thesis using False s1(4) by (auto simp: retry_pane_close_def)
qed

lemma reset_call_ok:
  assumes "full_ok env s"
  shows "wp (coordinator_reset env) (\<lambda>_ s'. full_ok env s' \<and> (shut_ok s \<longrightarrow> shut_ok s') \<and> co_closed s' = co_closed s \<and>
      co_source_bound s' = co_source_bound s \<and>
      co_source s' = (if co_closed s \<or> co_source_bound s \<and> co_source s = None then co_source s else None)) (\<lambda>_ _. False) s"
proof (cases "co_closed s \<or> co_source_bound s \<and> co_source s = None")
  case True
  then show ?thesis using assms by (auto simp: coordinator_reset_def)
next
  case False
  let ?s = "s\<lparr>co_source := None, co_reader_bound := False\<rparr>"
  let ?Q = "\<lambda>_ s'. full_ok env s' \<and> (shut_ok s \<longrightarrow> shut_ok s') \<and> co_closed s' = co_closed s \<and> co_source_bound s' = co_source_bound s \<and> co_source s' = None"
  have s1: "coord_ok env ?s" "pane_inv ?s" using assms by (auto simp: full_ok_def coord_ok_def pane_inv_def pane_core_def)
  have "wp (send_published env (\<lambda>_. reset_epoch (ev_enc env))) (\<lambda>_ s'. coord_ok env s' \<and> same_setup ?s s' \<and> prod_known_agents (co_producer s') = []) (\<lambda>_ _. False) ?s"
    by (rule sure_published [OF s1(1), where R = "\<lambda>p'. prod_known_agents p' = []"], rule wp_mono, rule runs_clear(1), assumption) auto
  then have "wp (send_published env (\<lambda>_. reset_epoch (ev_enc env)))
      (\<lambda>_. wp (reconcile_observer_pane env (running_agent_count (co_producer s)) None) ?Q (\<lambda>_ _. False)) (\<lambda>_ _. False) ?s"
  proof (rule wp_mono)
    fix x s2 assume s2: "coord_ok env s2 \<and> same_setup ?s s2 \<and> prod_known_agents (co_producer s2) = []"
    then have "running_agent_count (co_producer s2) = 0"
      using running_known [of "ev_rep env" "ev_enc env" "co_producer s2"] by (auto simp: coord_ok_def)
    moreover have "pane_core s2" "\<not> co_closed s2" "co_pane s2 = co_pane s" "co_source s2 = None" "co_source_bound s2 = co_source_bound s" "\<not> co_closed s"
      using s2 s1(2) False setup_pane [of ?s s2] by (auto simp: same_setupD pane_inv_def)
    ultimately show "wp (reconcile_observer_pane env (running_agent_count (co_producer s)) None) ?Q (\<lambda>_ _. False) s2"
      using s2 by (intro wp_mono [OF reconcile_ok]) (auto simp: same_binding_def)
  qed simp
  then show ?thesis unfolding coordinator_reset_def by (simp only: wp_and_then wp_primitives id_apply False if_False)
qed

subsubsection \<open>The connection fence\<close>

text \<open>
  The fence as its clients see it: the bound source, whether one was ever bound, and whether the coordinator is closed. Binding another
  source and resetting the bound one move it; nothing else does.
\<close>

type_synonym fence = "pystr option \<times> bool \<times> bool"

definition fence_of :: "coordinator \<Rightarrow> fence" where
  "fence_of s = (co_source s, co_source_bound s, co_closed s)"

fun fence_step :: "coordinator_call \<Rightarrow> fence \<Rightarrow> fence" where
  "fence_step (BindSource g) (current, ever, ended) = (Some g, True, ended)"
| "fence_step (ResetSource g) (current, ever, ended) = (if current = Some g \<and> \<not> ended then (None, ever, ended) else (current, ever, ended))"
| "fence_step ResetAfterDisconnect (current, ever, ended) = (if ended then (current, ever, ended) else (None, ever, ended))"
| "fence_step CloseCoordinator (current, ever, ended) = (current, ever, True)"
| "fence_step c f = f"

text \<open>The calls that are for the current connection.\<close>

fun current_call :: "coordinator_call \<Rightarrow> fence \<Rightarrow> bool" where
  "current_call (Observe e g) (current, ever, ended) = (\<not> ended \<and> g = current \<and> (ever \<longrightarrow> current \<noteq> None))"
| "current_call (ResetSource g) (current, ever, ended) = (\<not> ended \<and> current = Some g)"
| "current_call c f = True"

fun current_calls :: "coordinator_call list \<Rightarrow> fence \<Rightarrow> coordinator_call list" where
  "current_calls [] f = []"
| "current_calls (c # cs) f = (if current_call c f then c # current_calls cs (fence_step c f) else current_calls cs (fence_step c f))"

definition call_done :: "coordinator_env \<Rightarrow> coordinator_call \<Rightarrow> coordinator \<Rightarrow> coordinator_error + unit \<Rightarrow> coordinator \<Rightarrow> bool" where
  "call_done env c s r s' \<longleftrightarrow>
     full_ok env s' \<and> result_ok c r \<and> fence_of s' = fence_step c (fence_of s) \<and> (r = Inr () \<longrightarrow> shut_ok s \<longrightarrow> shut_ok s')"

lemma binding_fence: "same_binding s s' \<Longrightarrow> fence_of s' = fence_of s"
  by (simp add: same_binding_def fence_of_def)

lemma bind_done:
  assumes "full_ok env s"
  shows "wp (bind_protocol_source env g) (\<lambda>_ s'. call_done env (BindSource g) s (Inr ()) s') (\<lambda>e s'. call_done env (BindSource g) s (Inl e) s') s"
proof -
  have "wp (if co_source s \<noteq> None \<and> co_source s \<noteq> Some g then coordinator_reset env else ret ())
      (\<lambda>_ s'. full_ok env s' \<and> (shut_ok s \<longrightarrow> shut_ok s') \<and> co_closed s' = co_closed s) (\<lambda>_ _. False) s"
  proof (cases "co_source s \<noteq> None \<and> co_source s \<noteq> Some g")
    case True
    have "wp (coordinator_reset env) (\<lambda>_ s'. full_ok env s' \<and> (shut_ok s \<longrightarrow> shut_ok s') \<and> co_closed s' = co_closed s) (\<lambda>_ _. False) s"
      by (rule wp_mono [OF reset_call_ok [OF assms]]) auto
    then show ?thesis by (simp only: True if_True simp_thms)
  next
    case False
    then show ?thesis using assms by auto
  qed
  then show ?thesis
    unfolding bind_protocol_source_def wp_and_then wp_primitives
    by (rule wp_mono) (auto simp: call_done_def full_ok_def coord_ok_def pane_inv_def pane_core_def fence_of_def)
qed

lemma reset_done:
  assumes "full_ok env s"
  shows "wp (coordinator_reset env) (\<lambda>_ s'. call_done env ResetAfterDisconnect s (Inr ()) s') (\<lambda>e s'. call_done env ResetAfterDisconnect s (Inl e) s') s"
    "wp (reset_protocol_source env g) (\<lambda>_ s'. call_done env (ResetSource g) s (Inr ()) s') (\<lambda>e s'. call_done env (ResetSource g) s (Inl e) s') s"
proof -
  note r = reset_call_ok [OF assms]
  show "wp (coordinator_reset env) (\<lambda>_ s'. call_done env ResetAfterDisconnect s (Inr ()) s') (\<lambda>e s'. call_done env ResetAfterDisconnect s (Inl e) s') s"
    by (rule wp_mono [OF r]) (auto simp: call_done_def fence_of_def)
  have "wp (coordinator_reset env) (\<lambda>_ s'. call_done env (ResetSource g) s (Inr ()) s') (\<lambda>e s'. call_done env (ResetSource g) s (Inl e) s') s"
    if "co_source s = Some g"
    by (rule wp_mono [OF r]) (use that in \<open>auto simp: call_done_def fence_of_def\<close>)
  then show "wp (reset_protocol_source env g) (\<lambda>_ s'. call_done env (ResetSource g) s (Inr ()) s') (\<lambda>e s'. call_done env (ResetSource g) s (Inl e) s') s"
    using assms by (auto simp: reset_protocol_source_def call_done_def fence_of_def)
qed

lemma retry_done:
  assumes "full_ok env s"
  shows "wp (retry_pane_close env g) (\<lambda>_ s'. call_done env (RetryFires g) s (Inr ()) s') (\<lambda>e s'. call_done env (RetryFires g) s (Inl e) s') s"
  by (rule wp_mono [OF retry_ok [OF assms]]) (auto simp: call_done_def fence_of_def same_binding_def)

lemma current_done:
  assumes "full_ok env s"
  shows "wp (send_current env) (\<lambda>_ s'. call_done env PublishCurrent s (Inr ()) s') (\<lambda>e s'. call_done env PublishCurrent s (Inl e) s') s"
proof -
  have "coord_ok env s" using assms by (simp add: full_ok_def)
  from sure_current [OF this] show ?thesis
  proof (rule wp_mono)
    fix x s' assume s': "coord_ok env s' \<and> same_setup s s' \<and> agents_of (co_producer s') = agents_of (co_producer s)"
    then have "running_agent_count (co_producer s') = running_agent_count (co_producer s)" using running_agents by blast
    with s' assms setup_pane [of s s'] show "call_done env PublishCurrent s (Inr ()) s'"
      by (auto simp: call_done_def fence_of_def full_ok_def same_setupD)
  qed simp
qed

lemma close_done:
  assumes "full_ok env s"
  shows "wp (close_coordinator env) (\<lambda>_ s'. call_done env CloseCoordinator s (Inr ()) s') (\<lambda>e s'. call_done env CloseCoordinator s (Inl e) s') s"
proof (cases "co_closed s")
  case True
  then show ?thesis using assms by (simp add: close_coordinator_def call_done_def fence_of_def)
next
  case False
  let ?s = "cancel_pane_close (s\<lparr>co_closed := True\<rparr>)"
  obtain p r where d: "discard_producer_state (co_producer s) = (p, r)" by (rule prod.exhaust)
  have "producer_ok (ev_rep env) (ev_enc env) (co_producer s)" using assms by (simp add: full_ok_def coord_ok_def)
  from runs_clear(2) [OF this] have p: "r = Inr ()" "producer_ok (ev_rep env) (ev_enc env) p" "prod_known_agents p = []"
    "prod_root_thread_id p = prod_root_thread_id (co_producer s)"
    by (auto simp: wp_def d split: sum.splits)
  have "reducing env (\<lambda>_ _. discard_producer_state) ?s = (?s\<lparr>co_producer := p, co_asked := Suc (co_asked s)\<rparr>, Inr ())"
    using p(1) by (simp add: reducing_def d cancel_pane_close_def)
  moreover have "full_ok env (?s\<lparr>co_producer := p, co_asked := Suc (co_asked s)\<rparr>)"
    using assms p by (auto simp: full_ok_def coord_ok_def pane_inv_def pane_core_def cancel_pane_close_def)
  ultimately show ?thesis using False
    by (simp add: close_coordinator_def wp_def and_then_def look_def change_def call_done_def fence_of_def cancel_pane_close_def)
qed

lemma activate_done:
  assumes "full_ok env s"
  shows "wp (activate env path session text root_uuid) (\<lambda>_ s'. call_done env (Activate path session text root_uuid) s (Inr ()) s')
    (\<lambda>e s'. call_done env (Activate path session text root_uuid) s (Inl e) s') s"
proof -
  have tail: "wp (and_then (change (\<lambda>s. s\<lparr>co_database := Some (ev_abspath env path), co_session := Some session, co_session_text := Some text,
         co_root := Some (uuid_text root_uuid)\<rparr>)) (\<lambda>_. reducing env (\<lambda>_ _. observer_bind_root_thread (uuid_text root_uuid))))
      (\<lambda>_ s'. call_done env (Activate path session text root_uuid) s (Inr ()) s') (\<lambda>e s'. call_done env (Activate path session text root_uuid) s (Inl e) s') s"
    if "co_database s = None"
  proof -
    let ?s = "s\<lparr>co_database := Some (ev_abspath env path), co_session := Some session, co_session_text := Some text, co_root := Some (uuid_text root_uuid)\<rparr>"
    obtain p r where b: "observer_bind_root_thread (uuid_text root_uuid) (co_producer s) = (p, r)" by (rule prod.exhaust)
    have "producer_ok (ev_rep env) (ev_enc env) (co_producer s)" "prod_root_thread_id (co_producer s) = None"
      using assms that by (auto simp: full_ok_def coord_ok_def)
    from runs_bind_root [OF this, of "uuid_text root_uuid"] this(2) have p: "r = Inr ()" "producer_ok (ev_rep env) (ev_enc env) p"
      "running_agent_count p = running_agent_count (co_producer s)"
      using b by (auto simp: wp_def observer_bind_root_thread_def and_then_def gets_def update_def running_agent_count_def split: sum.splits)
    have "reducing env (\<lambda>_ _. observer_bind_root_thread (uuid_text root_uuid)) ?s = (?s\<lparr>co_producer := p, co_asked := Suc (co_asked s)\<rparr>, Inr ())"
      using p(1) by (simp add: reducing_def b)
    moreover have "full_ok env (?s\<lparr>co_producer := p, co_asked := Suc (co_asked s)\<rparr>)"
      using assms p by (auto simp: full_ok_def coord_ok_def pane_inv_def pane_core_def)
    ultimately show ?thesis using p(3) by (simp add: wp_def and_then_def change_def call_done_def fence_of_def)
  qed
  have err: "call_done env (Activate path session text root_uuid) s (Inl e) s" if "usage_error e" for e
    using assms that by (simp add: call_done_def fence_of_def)
  show ?thesis
    by (simp only: activate_def wp_and_then [of "look id"] wp_primitives id_apply wp_if wp_raise)
      (use tail err in \<open>simp add: usage_error_def del: wp_and_then\<close>)
qed

lemma safeD:
  assumes "safe env m Q s" "coord_ok env s"
  shows "wp m (\<lambda>x s'. coord_ok env s' \<and> same_setup s s' \<and> Q x s') (\<lambda>e s'. coord_ok env s' \<and> same_setup s s' \<and> outside_error e) s"
  using assms by (simp add: safe_def)

lemma observe_done:
  assumes "full_ok env s"
  shows "wp (observe_protocol_event env e g) (\<lambda>_ s'. call_done env (Observe e g) s (Inr ()) s') (\<lambda>x s'. call_done env (Observe e g) s (Inl x) s') s"
proof (cases "co_closed s \<or> g \<noteq> co_source s \<or> co_source_bound s \<and> co_source s = None")
  case True
  then show ?thesis using assms by (simp add: observe_protocol_event_def call_done_def fence_of_def)
next
  case False
  then have running: "\<not> co_closed s" by simp
  let ?Q = "\<lambda>_ s'. call_done env (Observe e g) s (Inr ()) s'" and ?E = "\<lambda>x s'. call_done env (Observe e g) s (Inl x) s'"
  have coord: "coord_ok env s" and pane: "pane_inv s" using assms by (simp_all add: full_ok_def)
  have error: "call_done env (Observe e g) s (Inl x) s'" if "coord_ok env s'" "same_setup s s'" "outside_error x" for x s'
    using that pane setup_pane [OF that(2)] by (simp add: call_done_def full_ok_def fence_of_def same_setupD [OF that(2)])
  have last_step: "wp (reconcile_observer_pane env prev initial_event) ?Q ?E s3"
    if s3: "coord_ok env s3" "same_setup s s3" "prev = running_agent_count (co_producer s)" for s3 prev initial_event
  proof -
    have "pane_core s3" "\<not> co_closed s3" using pane setup_pane [OF s3(2)] running by (auto simp: pane_inv_def same_setupD [OF s3(2)])
    from reconcile_ok [OF s3(1) this] show ?thesis
    proof (rule wp_mono)
      fix x s' assume "pane_done env prev s3 s'"
      with s3(3) running show "call_done env (Observe e g) s (Inr ()) s'"
        using setup_binding [OF s3(2)] by (auto simp: call_done_def fence_of_def same_binding_def same_setupD [OF s3(2)])
    qed simp
  qed
  have event: "wp (observe_protocol_event_locked env e) (\<lambda>initial_event. wp (reconcile_observer_pane env prev initial_event) ?Q ?E) ?E s2"
    if s2: "coord_ok env s2" "same_setup s s2" "prev = running_agent_count (co_producer s)" for s2 prev
    by (rule wp_mono [OF safeD [OF safe_locked s2(1)]]) (use s2 last_step error same_setup_trans [OF s2(2)] in blast)+
  have sent: "wp (if expired then send_current env else ret ()) (\<lambda>_ s2. wp (observe_protocol_event_locked env e)
      (\<lambda>initial_event. wp (reconcile_observer_pane env (running_agent_count (co_producer s2)) initial_event) ?Q ?E) ?E s2) ?E s1"
    if s1: "coord_ok env s1" "same_setup s s1" "agents_of (co_producer s1) = agents_of (co_producer s)" for expired s1
  proof -
    have "safe env (if expired then send_current env else ret ()) (\<lambda>_ s2. agents_of (co_producer s2) = agents_of (co_producer s1)) s1"
      by (auto intro: safe_send_current safe_ret)
    from safeD [OF this s1(1)] show ?thesis
    proof (rule wp_mono)
      fix x s2 assume s2: "coord_ok env s2 \<and> same_setup s1 s2 \<and> agents_of (co_producer s2) = agents_of (co_producer s1)"
      then have "agents_of (co_producer s2) = agents_of (co_producer s)" using s1(3) by simp
      then have "running_agent_count (co_producer s2) = running_agent_count (co_producer s)" by (rule running_agents)
      moreover have "coord_ok env s2" "same_setup s s2" using s2 same_setup_trans [OF s1(2)] by blast+
      ultimately show "wp (observe_protocol_event_locked env e)
          (\<lambda>initial_event. wp (reconcile_observer_pane env (running_agent_count (co_producer s2)) initial_event) ?Q ?E) ?E s2"
        by (intro event)
    qed (use error same_setup_trans [OF s1(2)] in blast)
  qed
  have "wp (reducing env (\<lambda>now _. expire_protocol_state now)) (\<lambda>expired. wp (if expired then send_current env else ret ())
      (\<lambda>_ s2. wp (observe_protocol_event_locked env e)
        (\<lambda>initial_event. wp (reconcile_observer_pane env (running_agent_count (co_producer s2)) initial_event) ?Q ?E) ?E s2) ?E) ?E s"
    by (rule wp_mono [OF safeD [OF safe_readers(6) coord]]) (use sent error in blast)+
  then show ?thesis
    by (simp only: observe_protocol_event_def wp_and_then wp_primitives id_apply False if_False o_apply)
qed

lemma run_call_done:
  assumes "full_ok env s" "run_call env c s = (s', r)"
  shows "call_done env c s r s'"
proof -
  have "wp (run_call env c) (\<lambda>_ s'. call_done env c s (Inr ()) s') (\<lambda>x s'. call_done env c s (Inl x) s') s"
    using assms(1)
    by (cases c) (simp_all add: activate_done bind_done reset_done observe_done retry_done current_done close_done)
  then show ?thesis using assms(2) by (simp add: wp_def split: sum.splits)
qed

lemma run_calls_done:
  assumes "full_ok env s" "run_calls env cs s = (s', rs)"
  shows "full_ok env s' \<and> list_all2 result_ok cs rs \<and> (list_all (\<lambda>r. r = Inr ()) rs \<longrightarrow> shut_ok s \<longrightarrow> shut_ok s')"
  using assms
proof (induction cs arbitrary: s rs)
  case (Cons c cs)
  obtain s1 r where c: "run_call env c s = (s1, r)" by (rule prod.exhaust)
  obtain rs' where cs: "run_calls env cs s1 = (s', rs')" "rs = r # rs'" using Cons.prems(2) c by (auto split: prod.splits)
  have d: "full_ok env s1" "result_ok c r" "r = Inr () \<longrightarrow> shut_ok s \<longrightarrow> shut_ok s1"
    using run_call_done [OF Cons.prems(1) c] by (auto simp: call_done_def)
  from Cons.IH [OF d(1) cs(1)] d(2,3) cs(2) show ?case by auto
qed simp

lemma new_full_ok: "full_ok env new_coordinator"
  using new_producer_ok [of "ev_rep env" "ev_enc env"]
  by (simp add: full_ok_def coord_ok_def pane_inv_def pane_core_def new_coordinator_def new_producer_def unconfirmed_def)

lemma run_calls_state: "fst (run_calls env (c # cs) s) = fst (run_calls env cs (fst (run_call env c s)))"
  by (simp split: prod.split)

lemma stale_call:
  assumes "\<not> current_call c (fence_of s)"
  shows "run_call env c s = (s, Inr ())"
  using assms
  by (cases c) (auto simp: fence_of_def observe_protocol_event_def reset_protocol_source_def coordinator_reset_def and_then_def look_def)

subsection \<open>Properties\<close>



text \<open>
  Property C14. Events and resets that are not for the current connection are invisible: removing them from any sequence of calls leaves
  the same coordinator. The connection is the one last bound, until it is reset; an event of an older or of no connection, or after the
  coordinator was closed, changes nothing, and a delayed reset of an old connection does not touch its replacement.
\<close>

theorem stale_calls_invisible:
  "fst (run_calls env cs new_coordinator) = fst (run_calls env (current_calls cs (None, False, False)) new_coordinator)"
proof -
  have "fst (run_calls env cs s) = fst (run_calls env (current_calls cs (fence_of s)) s)" if "full_ok env s" for s
    using that
  proof (induction cs arbitrary: s)
    case (Cons c cs)
    obtain s1 r where c: "run_call env c s = (s1, r)" by (rule prod.exhaust)
    have d: "full_ok env s1" "fence_of s1 = fence_step c (fence_of s)" using run_call_done [OF Cons.prems c] by (auto simp: call_done_def)
    show ?case
    proof (cases "current_call c (fence_of s)")
      case True
      then show ?thesis using Cons.IH [OF d(1)] c d(2) by (simp add: run_calls_state del: run_calls.simps)
    next
      case False
      then have "s1 = s" using stale_call c by fastforce
      then show ?thesis using Cons.IH [OF d(1)] c d(2) False by (simp add: run_calls_state del: run_calls.simps)
    qed
  qed simp
  from this [OF new_full_ok] show ?thesis by (simp add: fence_of_def new_coordinator_def)
qed

text \<open>
  A cursor read that fails after work was started leaves an agent running that was neither published nor given a pane; the next event finds
  the number of running agents unchanged and opens none either.
\<close>

lemma failed_cursor_skips_pane:
  assumes "knows_agent t (co_producer s)" "dict_get (prod_agent_paths (co_producer s)) t = Some path" "co_session s \<noteq> None"
    "co_database s \<noteq> None" "\<And>n. ev_cursor env n = None"
  shows "\<exists>s'. start_lifecycle env t turn s = (s', Inl CursorFailed) \<and> tracks_target t (co_producer s') \<and>
    co_sent s' = co_sent s \<and> co_pane s' = co_pane s"
  using assms
  by (simp add: start_lifecycle_def publish_agent_work_started_def read_cursor_def and_then_def reducing_def look_def ask_def
      start_agent_work_def record_work_def remember_agent_def gets_def update_def Let_def agent_work_started_event_def tracks_target_def)

end
