(* ===== verification/Token_Accounting.thy ===== *)
theory Token_Accounting
  imports Rollout_Lifecycle Identity_Codec
begin

section \<open>Adapting rollout records for the analyzer\<close>

text \<open>
  The record adapters of \<^verbatim>\<open>src/rodex/analytics_analyzer.py\<close>: \<open>adapt_token_record\<close> turns Codex's canonical
  response usage into one stream of cumulative token counts, and \<open>adapt_lifecycle_record\<close> gives every
  record its resolved turn. A thread identifier is its canonical text. A Python error is a value; an operation that
  raises leaves its state as it was, which is also what the code does.
\<close>

datatype usage_label = TokenUsage | ThreadTokenUsage

datatype adapter_error =
    OtherThread
  | NoResponseIdentity
  | TokensMissing usage_label
  | TokensInvalid usage_label pystr
  | CachedAboveInput usage_label
  | ReasoningAboveOutput usage_label
  | ConflictingResponse
  | LostTotal
  | NoCanonicalTotal
  | UnhashableType
  | InvalidTurnId identity_error
  | AdmissionError admit_error
  | AnalyzerRaised
  | WrongSessionMeta
  | Poisoned
  | UserChanged
  | DuplicateThread
  | RetryDiverged
  | SourceIdentityChanged
  | ProjectionFailed

type_synonym token_vec = "(pystr, int) dict"

definition TOKEN_FIELDS :: "pystr list" where
  "TOKEN_FIELDS = [lit ''input_tokens'', lit ''cached_input_tokens'', lit ''cache_write_input_tokens'', lit ''output_tokens'',
     lit ''reasoning_output_tokens'', lit ''total_tokens'']"

record token_accounting =
  canonical_seen :: bool
  latest_canonical_total :: "token_vec option"
  response_fingerprints :: "(pystr, pystr option \<times> int list \<times> int list) dict"

definition new_token_accounting :: token_accounting where
  "new_token_accounting = \<lparr>canonical_seen = False, latest_canonical_total = None, response_fingerprints = []\<rparr>"

fun token_fields :: "usage_label \<Rightarrow> message \<Rightarrow> pystr list \<Rightarrow> adapter_error + token_vec" where
  "token_fields label d [] = Inr []"
| "token_fields label d (name # names) =
     (case (case dict_get d name of None \<Rightarrow> JInt 0 | Some v \<Rightarrow> v) of
        JInt n \<Rightarrow>
          if n < 0 then Inl (TokensInvalid label name)
          else (case token_fields label d names of Inl e \<Rightarrow> Inl e | Inr vec \<Rightarrow> Inr ((name, n) # vec))
      | _ \<Rightarrow> Inl (TokensInvalid label name))"

definition vec_get :: "token_vec \<Rightarrow> string \<Rightarrow> int" where
  "vec_get vec name = (case dict_get vec (lit name) of None \<Rightarrow> 0 | Some n \<Rightarrow> n)"

definition token_vector :: "json \<Rightarrow> usage_label \<Rightarrow> adapter_error + token_vec" where
  "token_vector j label =
     (case as_dict j of
        None \<Rightarrow> Inl (TokensMissing label)
      | Some d \<Rightarrow>
          (case token_fields label d TOKEN_FIELDS of
             Inl e \<Rightarrow> Inl e
           | Inr vec \<Rightarrow>
               if vec_get vec ''cached_input_tokens'' > vec_get vec ''input_tokens'' then Inl (CachedAboveInput label)
               else if vec_get vec ''reasoning_output_tokens'' > vec_get vec ''output_tokens'' then Inl (ReasoningAboveOutput label)
               else Inr vec))"

definition vec_json :: "token_vec \<Rightarrow> json" where
  "vec_json vec = JDict (map (\<lambda>(k, n). (k, JInt n)) vec)"

definition payload_of :: "message \<Rightarrow> message" where
  "payload_of rec = (case as_dict (jfield rec ''payload'') of None \<Rightarrow> [] | Some d \<Rightarrow> d)"

definition token_count_record :: "message \<Rightarrow> pystr option \<Rightarrow> token_vec \<Rightarrow> token_vec \<Rightarrow> message" where
  "token_count_record rec turn tot latest =
     dict_set (lit ''payload'')
       (JDict ([(lit ''type'', JStr (lit ''token_count'')),
                (lit ''info'', JDict [(lit ''total_token_usage'', vec_json tot), (lit ''last_token_usage'', vec_json latest)])]
               @ (case turn of None \<Rightarrow> [] | Some t \<Rightarrow> [(lit ''turn_id'', JStr t)])))
       (dict_set (lit ''type'') (JStr (lit ''event_msg'')) rec)"

fun unhashable :: "json \<Rightarrow> bool" where
  "unhashable (JList _) = True"
| "unhashable (JDict _) = True"
| "unhashable _ = False"

definition adapt_usage_record ::
  "message \<Rightarrow> pystr \<Rightarrow> token_accounting \<Rightarrow> token_accounting \<times> (adapter_error + message)" where
  "adapt_usage_record rec thread st =
     (let payload = payload_of rec in
      if jfield payload ''thread_id'' \<noteq> JNull \<and> jfield payload ''thread_id'' \<noteq> JStr thread then (st, Inl OtherThread)
      else case as_id (jfield payload ''response_id'') of
        None \<Rightarrow> (st, Inl NoResponseIdentity)
      | Some response \<Rightarrow>
          (case token_vector (jfield payload ''usage'') TokenUsage of
             Inl e \<Rightarrow> (st, Inl e)
           | Inr usage \<Rightarrow>
               (case token_vector (jfield payload ''thread_token_usage'') ThreadTokenUsage of
                  Inl e \<Rightarrow> (st, Inl e)
                | Inr tot \<Rightarrow>
                    let turn = as_id (jfield payload ''turn_id'');
                        fingerprint = (turn, map snd usage, map snd tot)
                    in case dict_get (response_fingerprints st) response of
                         None \<Rightarrow>
                           (st\<lparr>response_fingerprints := dict_set response fingerprint (response_fingerprints st),
                               latest_canonical_total := Some tot, canonical_seen := True\<rparr>,
                            Inr (token_count_record rec turn tot usage))
                       | Some previous \<Rightarrow>
                           if previous \<noteq> fingerprint then (st, Inl ConflictingResponse)
                           else (case latest_canonical_total st of
                                   None \<Rightarrow> (st, Inl LostTotal)
                                 | Some latest \<Rightarrow> (st\<lparr>canonical_seen := True\<rparr>, Inr (token_count_record rec turn latest usage))))))"

definition adapt_snapshot_record ::
  "message \<Rightarrow> token_accounting \<Rightarrow> token_accounting \<times> (adapter_error + message)" where
  "adapt_snapshot_record rec st =
     (let payload = payload_of rec in
      if \<not> canonical_seen st then
        (st, Inr (if jfield payload ''type'' = JStr (lit ''token_count'') then rec
                  else dict_set (lit ''payload'') (JDict (dict_set (lit ''type'') (JStr (lit ''token_count'')) payload)) rec))
      else case latest_canonical_total st of
        None \<Rightarrow> (st, Inl NoCanonicalTotal)
      | Some tot \<Rightarrow>
          let info = (case as_dict (jfield payload ''info'') of None \<Rightarrow> [] | Some d \<Rightarrow> d) in
          (st, Inr (dict_set (lit ''payload'')
             (JDict (dict_set (lit ''info'') (JDict (dict_set (lit ''total_token_usage'') (vec_json tot) info))
               (dict_set (lit ''type'') (JStr (lit ''token_count'')) payload))) rec)))"

definition adapt_token_record ::
  "message \<Rightarrow> pystr \<Rightarrow> token_accounting \<Rightarrow> token_accounting \<times> (adapter_error + message)" where
  "adapt_token_record rec thread st =
     (let kind = jfield rec ''type''; payload_kind = jfield (payload_of rec) ''type'' in
      if kind = JStr (lit ''token_usage_record'') then adapt_usage_record rec thread st
      else if kind = JStr (lit ''event_msg'') then
        if unhashable payload_kind then (st, Inl UnhashableType)
        else if payload_kind = JStr (lit ''token_count'') \<or> payload_kind = JStr (lit ''token_usage'') then adapt_snapshot_record rec st
        else (st, Inr rec)
      else (st, Inr rec))"

subsection \<open>Turn scope\<close>

definition canonical_record_turn_id :: "json \<Rightarrow> message \<Rightarrow> identity_error + pystr option" where
  "canonical_record_turn_id kind payload =
     (let metadata = (if kind = JStr (lit ''response_item'')
                      then (case as_dict (jfield payload ''internal_chat_message_metadata_passthrough'') of None \<Rightarrow> [] | Some d \<Rightarrow> d)
                      else payload) in
      case as_id (jfield metadata ''turn_id'') of
        None \<Rightarrow> Inr None
      | Some candidate \<Rightarrow>
          (case parse_codex_uuid TurnUuid candidate of Inl e \<Rightarrow> Inl e | Inr v \<Rightarrow> Inr (Some (uuid_text v))))"

definition thread_scope :: pystr where
  "thread_scope = lit ''rodex:thread-scoped-observation''"

definition is_lifecycle_record :: "json \<Rightarrow> json \<Rightarrow> bool" where
  "is_lifecycle_record kind payload_kind \<longleftrightarrow>
     kind = JStr (lit ''session_meta'') \<or>
     kind = JStr (lit ''event_msg'') \<and> (payload_kind = JStr (lit ''task_started'') \<or>
       payload_kind = JStr (lit ''task_complete'') \<or> payload_kind = JStr (lit ''turn_aborted''))"

definition adapt_lifecycle_record :: "message \<Rightarrow> turn_lifecycle \<Rightarrow> turn_lifecycle \<times> (adapter_error + message)" where
  "adapt_lifecycle_record rec lc =
     (let kind = jfield rec ''type''; payload = payload_of rec;
          scoped = (\<lambda>turn. if is_lifecycle_record kind (jfield payload ''type'') then rec
             else dict_set (lit ''payload'')
               (JDict (dict_set (lit ''turn_id'') (JStr (case turn of None \<Rightarrow> thread_scope | Some t \<Rightarrow> if t = [] then thread_scope else t)) payload)) rec)
      in case canonical_record_turn_id kind payload of
           Inl e \<Rightarrow> if kind \<noteq> JStr (lit ''response_item'') then (lc, Inl (InvalidTurnId e)) else (lc, Inr (scoped None))
         | Inr explicit \<Rightarrow>
             if kind = JStr (lit ''event_msg'') \<and> unhashable (jfield payload ''type'') then (lc, Inl UnhashableType)
             else (case observe lc (as_str kind, as_str (jfield payload ''type''), explicit) of
                (lc', obs) \<Rightarrow> (lc', Inr (scoped (obs_codex_turn_id obs)))))"

subsection \<open>One token stream\<close>

definition token_run :: "pystr \<Rightarrow> message list \<Rightarrow> token_accounting" where
  "token_run thread rs = foldl (\<lambda>st r. fst (adapt_token_record r thread st)) new_token_accounting rs"

text \<open>A canonical total is known exactly when a response was seen, and it is that of the response seen last.\<close>

definition token_inv :: "token_accounting \<Rightarrow> bool" where
  "token_inv st \<longleftrightarrow>
     distinct (dict_keys (response_fingerprints st)) \<and>
     (canonical_seen st \<longleftrightarrow> response_fingerprints st \<noteq> []) \<and>
     (case latest_canonical_total st of
        None \<Rightarrow> response_fingerprints st = []
      | Some tot \<Rightarrow> response_fingerprints st \<noteq> [] \<and> map snd tot = snd (snd (snd (last (response_fingerprints st)))))"

definition token_event :: "message \<Rightarrow> bool" where
  "token_event m \<longleftrightarrow> jfield m ''type'' = JStr (lit ''event_msg'') \<and> jfield (payload_of m) ''type'' = JStr (lit ''token_count'')"

definition reported_total :: "message \<Rightarrow> json" where
  "reported_total m = jpath (jpath (jfield m ''payload'') ''info'') ''total_token_usage''"

lemma payload_of_set [simp]: "payload_of (dict_set (lit ''payload'') (JDict d) rec) = d"
  by (simp add: payload_of_def)

lemma token_inv_new: "token_inv new_token_accounting"
  by (simp add: token_inv_def new_token_accounting_def)

lemma reported_token_count: "reported_total (token_count_record rec turn tot latest) = vec_json tot"
  by (simp add: reported_total_def token_count_record_def jpath_def jfield_def)

text \<open>What one record does, for each kind of record.\<close>

definition token_step_ok :: "token_accounting \<Rightarrow> token_accounting \<times> (adapter_error + message) \<Rightarrow> bool" where
  "token_step_ok st p \<longleftrightarrow>
     token_inv (fst p) \<and> snd p \<noteq> Inl LostTotal \<and> snd p \<noteq> Inl NoCanonicalTotal \<and>
     (\<exists>new. response_fingerprints (fst p) = response_fingerprints st @ new \<and> length new \<le> 1) \<and>
     (\<forall>m. snd p = Inr m \<longrightarrow> token_event m \<longrightarrow> response_fingerprints (fst p) \<noteq> [] \<longrightarrow>
        Some (reported_total m) = map_option vec_json (latest_canonical_total (fst p)))"

lemma token_step_error: "token_inv st \<Longrightarrow> e \<noteq> LostTotal \<Longrightarrow> e \<noteq> NoCanonicalTotal \<Longrightarrow> token_step_ok st (st, Inl e)"
  by (simp add: token_step_ok_def)

lemma token_fields_errors: "token_fields label d names = Inl e \<Longrightarrow> e \<noteq> LostTotal \<and> e \<noteq> NoCanonicalTotal"
  by (induction names arbitrary: e) (auto split: json.splits if_splits option.splits sum.splits)

lemma token_vector_errors: "token_vector j label = Inl e \<Longrightarrow> e \<noteq> LostTotal \<and> e \<noteq> NoCanonicalTotal"
  by (auto simp: token_vector_def dest: token_fields_errors split: option.splits sum.splits if_splits)

lemma usage_step_ok:
  assumes "token_inv st"
  shows "token_step_ok st (adapt_usage_record rec thread st)"
proof -
  let ?p = "payload_of rec"
  show ?thesis
  proof (cases "jfield ?p ''thread_id'' \<noteq> JNull \<and> jfield ?p ''thread_id'' \<noteq> JStr thread")
    case True
    then show ?thesis unfolding adapt_usage_record_def Let_def using token_step_error [OF assms] by simp
  next
    case thread: False
    show ?thesis
    proof (cases "as_id (jfield ?p ''response_id'')")
      case None
      then show ?thesis unfolding adapt_usage_record_def Let_def using thread token_step_error [OF assms] by simp
    next
      case response: (Some response)
      show ?thesis
      proof (cases "token_vector (jfield ?p ''usage'') TokenUsage")
        case (Inl e)
        then show ?thesis unfolding adapt_usage_record_def Let_def
          using thread response token_step_error [OF assms] token_vector_errors [OF Inl] by simp
      next
        case usage: (Inr usage)
        show ?thesis
        proof (cases "token_vector (jfield ?p ''thread_token_usage'') ThreadTokenUsage")
          case (Inl e)
          then show ?thesis unfolding adapt_usage_record_def Let_def
            using thread response usage token_step_error [OF assms] token_vector_errors [OF Inl] by simp
        next
          case tot: (Inr tot)
          let ?f = "(as_id (jfield ?p ''turn_id''), map snd usage, map snd tot)"
          show ?thesis
          proof (cases "dict_get (response_fingerprints st) response")
            case None
            then have "dict_set response ?f (response_fingerprints st) = response_fingerprints st @ [(response, ?f)]"
              by (simp add: dict_set_fresh map_of_eq_None_iff)
            moreover have "response \<notin> set (dict_keys (response_fingerprints st))" using None by (simp add: map_of_eq_None_iff)
            ultimately show ?thesis
              unfolding adapt_usage_record_def Let_def if_not_P [OF thread] response usage tot None option.case sum.case
              using assms by (simp add: token_step_ok_def token_inv_def reported_token_count)
          next
            case (Some previous)
            then have ne: "response_fingerprints st \<noteq> []" by auto
            then obtain latest where latest: "latest_canonical_total st = Some latest"
              using assms by (auto simp: token_inv_def split: option.splits)
            show ?thesis
            proof (cases "previous = ?f")
              case True
              then show ?thesis
                unfolding adapt_usage_record_def Let_def if_not_P [OF thread] response usage tot Some latest option.case sum.case
                using assms latest ne by (simp add: token_step_ok_def token_inv_def reported_token_count)
            next
              case False
              then show ?thesis
                unfolding adapt_usage_record_def Let_def if_not_P [OF thread] response usage tot Some option.case sum.case
                using token_step_error [OF assms] by simp
            qed
          qed
        qed
      qed
    qed
  qed
qed

lemma snapshot_step_ok:
  assumes "token_inv st"
  shows "token_step_ok st (adapt_snapshot_record rec st)"
proof (cases "canonical_seen st")
  case False
  with assms show ?thesis by (simp add: adapt_snapshot_record_def token_step_ok_def token_inv_def Let_def)
next
  case True
  with assms obtain tot where "latest_canonical_total st = Some tot" by (auto simp: token_inv_def split: option.splits)
  with True assms show ?thesis by (simp add: adapt_snapshot_record_def token_step_ok_def Let_def reported_total_def jpath_def)
qed

lemma token_step_ok: "token_inv st \<Longrightarrow> token_step_ok st (adapt_token_record rec thread st)"
proof -
  assume inv: "token_inv st"
  have other: "token_step_ok st (st, Inr rec)" if "\<not> token_event rec" using inv that by (simp add: token_step_ok_def)
  show ?thesis
    unfolding adapt_token_record_def Let_def
    using usage_step_ok [OF inv] snapshot_step_ok [OF inv] other token_step_error [OF inv]
    by (auto simp: token_event_def)
qed

lemma token_run_inv: "token_inv (token_run thread rs)"
proof -
  have "token_inv st \<Longrightarrow> token_inv (fst (adapt_token_record r thread st))" for st r
    using token_step_ok [of st r thread] by (simp add: token_step_ok_def)
  then have "token_inv st \<Longrightarrow> token_inv (foldl (\<lambda>st r. fst (adapt_token_record r thread st)) st rs)" for st
    by (induction rs arbitrary: st) simp_all
  then show ?thesis by (simp add: token_run_def token_inv_new)
qed

subsection \<open>Properties\<close>

text \<open>Property C23. Whatever records came before, adapting the next one never finds the accounting without its total; it
  adds at most one response, whose identity is new; and once a response was seen, every token count that reaches the
  analyzer, including legacy snapshots and repeated responses, reports the cumulative total of the
  response seen last.\<close>

theorem token_stream_canonical:
  assumes "adapt_token_record r thread (token_run thread rs) = (st, Inr m)" "token_event m" "response_fingerprints st \<noteq> []"
  shows "(\<exists>tot. reported_total m = vec_json tot \<and> map snd tot = snd (snd (snd (last (response_fingerprints st))))) \<and>
    distinct (dict_keys (response_fingerprints st)) \<and>
    (\<exists>new. response_fingerprints st = response_fingerprints (token_run thread rs) @ new \<and> length new \<le> 1)"
proof -
  have ok: "token_step_ok (token_run thread rs) (st, Inr m)" using token_step_ok [OF token_run_inv] assms(1) by metis
  then have "token_inv st" "Some (reported_total m) = map_option vec_json (latest_canonical_total st)"
    using assms(2,3) by (simp_all add: token_step_ok_def)
  then show ?thesis using ok by (auto simp: token_step_ok_def token_inv_def split: option.splits)
qed

text \<open>The analyzer never has to guess the turn of a record: every record that is not a lifecycle event is
  passed on with the turn it names itself, or the active turn, or the label of the thread, and with
  the rest of its payload unchanged.\<close>

theorem turn_scope_resolved:
  assumes "adapt_lifecycle_record rec lc = (lc', Inr m)"
    and "\<not> is_lifecycle_record (jfield rec ''type'') (jfield (payload_of rec) ''type'')"
  shows "(\<exists>t. jfield (payload_of m) ''turn_id'' = JStr t \<and> t \<noteq> [] \<and>
      (t = thread_scope \<or> active_turn_id lc = Some t \<or>
       canonical_record_turn_id (jfield rec ''type'') (payload_of rec) = Inr (Some t))) \<and>
    (\<forall>k. k \<noteq> lit ''turn_id'' \<longrightarrow> dict_get (payload_of m) k = dict_get (payload_of rec) k) \<and>
    jfield m ''type'' = jfield rec ''type''"
proof -
  let ?kind = "jfield rec ''type''" and ?p = "payload_of rec"
  have scoped: "\<exists>turn. m = dict_set (lit ''payload'') (JDict (dict_set (lit ''turn_id'')
        (JStr (case turn of None \<Rightarrow> thread_scope | Some t \<Rightarrow> if t = [] then thread_scope else t)) ?p)) rec \<and>
      (turn = None \<or> active_turn_id lc = turn \<or> canonical_record_turn_id ?kind ?p = Inr turn)"
  proof (cases "canonical_record_turn_id ?kind ?p")
    case (Inl e)
    with assms show ?thesis by (intro exI [of _ None]) (auto simp: adapt_lifecycle_record_def Let_def split: if_splits)
  next
    case (Inr explicit)
    obtain lc1 obs where o: "observe lc (as_str ?kind, as_str (jfield ?p ''type''), explicit) = (lc1, obs)" by (rule prod.exhaust)
    have "obs_codex_turn_id (snd (observe lc (as_str ?kind, as_str (jfield ?p ''type''), explicit))) = event_turn_id explicit (active_turn_id lc)"
      by (simp add: Let_def)
    then have "obs_codex_turn_id obs = explicit \<or> obs_codex_turn_id obs = active_turn_id lc"
      unfolding o by (simp add: event_turn_id_def)
    moreover have "m = dict_set (lit ''payload'') (JDict (dict_set (lit ''turn_id'')
        (JStr (case obs_codex_turn_id obs of None \<Rightarrow> thread_scope | Some t \<Rightarrow> if t = [] then thread_scope else t)) ?p)) rec"
      using assms unfolding adapt_lifecycle_record_def Let_def Inr sum.case o prod.case by (auto split: if_splits)
    ultimately show ?thesis using Inr by (intro exI [of _ "obs_codex_turn_id obs"]) auto
  qed
  then obtain turn where m: "m = dict_set (lit ''payload'') (JDict (dict_set (lit ''turn_id'')
        (JStr (case turn of None \<Rightarrow> thread_scope | Some t \<Rightarrow> if t = [] then thread_scope else t)) ?p)) rec"
    and turn: "turn = None \<or> active_turn_id lc = turn \<or> canonical_record_turn_id ?kind ?p = Inr turn" by blast
  let ?t = "case turn of None \<Rightarrow> thread_scope | Some t \<Rightarrow> if t = [] then thread_scope else t"
  have "?t \<noteq> []" "?t = thread_scope \<or> Some ?t = turn" by (auto simp: thread_scope_def split: option.splits)
  then have "jfield (payload_of m) ''turn_id'' = JStr ?t \<and> ?t \<noteq> [] \<and>
      (?t = thread_scope \<or> active_turn_id lc = Some ?t \<or> canonical_record_turn_id ?kind ?p = Inr (Some ?t))"
    using turn by (auto simp: m)
  then show ?thesis by (auto simp: m)
qed

definition demo_usage :: json where
  "demo_usage = JDict [(lit ''input_tokens'', JInt 5), (lit ''total_tokens'', JInt 5)]"

definition demo_usage_record :: message where
  "demo_usage_record = [(lit ''type'', JStr (lit ''token_usage_record'')),
     (lit ''payload'', JDict [(lit ''response_id'', JStr (lit ''r'')), (lit ''usage'', demo_usage), (lit ''thread_token_usage'', demo_usage)])]"

lemma demo_token_vector: "token_vector demo_usage label =
    Inr [(lit ''input_tokens'', 5), (lit ''cached_input_tokens'', 0), (lit ''cache_write_input_tokens'', 0), (lit ''output_tokens'', 0),
      (lit ''reasoning_output_tokens'', 0), (lit ''total_tokens'', 5)]"
  by (simp add: token_vector_def demo_usage_def TOKEN_FIELDS_def vec_get_def)

theorem token_stream_canonical_witness:
  "\<exists>st m tot. adapt_token_record demo_usage_record (lit ''t'') (token_run (lit ''t'') []) = (st, Inr m) \<and>
     reported_total m = vec_json tot \<and> map snd tot = [5, 0, 0, 0, 0, 5]"
proof -
  let ?v = "[(lit ''input_tokens'', 5), (lit ''cached_input_tokens'', 0), (lit ''cache_write_input_tokens'', 0), (lit ''output_tokens'', 0),
      (lit ''reasoning_output_tokens'', 0), (lit ''total_tokens'', 5)] :: token_vec"
  let ?m = "token_count_record demo_usage_record None ?v ?v"
  let ?st = "\<lparr>canonical_seen = True, latest_canonical_total = Some ?v,
      response_fingerprints = [(lit ''r'', None, map snd ?v, map snd ?v)]\<rparr>"
  have a: "adapt_token_record demo_usage_record (lit ''t'') (token_run (lit ''t'') []) = (?st, Inr ?m)"
    by (simp add: adapt_token_record_def adapt_usage_record_def demo_usage_record_def token_run_def new_token_accounting_def
        payload_of_def jfield_def as_id_def Let_def demo_token_vector)
  have "token_event ?m" by (simp add: token_event_def token_count_record_def jfield_def)
  from token_stream_canonical [OF a this] a show ?thesis by auto
qed

theorem turn_scope_resolved_witness:
  "\<exists>lc m. adapt_lifecycle_record [(lit ''type'', JStr (lit ''response_item''))] initial_lifecycle = (lc, Inr m) \<and>
     jfield (payload_of m) ''turn_id'' = JStr thread_scope"
proof -
  let ?rec = "[(lit ''type'', JStr (lit ''response_item''))]"
  let ?m = "dict_set (lit ''payload'') (JDict [(lit ''turn_id'', JStr thread_scope)]) ?rec"
  have k: "jfield ?rec ''type'' = JStr (lit ''response_item'')" and p: "payload_of ?rec = []"
    by (simp_all add: payload_of_def jfield_def)
  have c: "canonical_record_turn_id (JStr (lit ''response_item'')) [] = Inr None"
    by (simp add: canonical_record_turn_id_def jfield_def as_id_def)
  have o: "observe initial_lifecycle (as_str (JStr (lit ''response_item'')), as_str (jfield [] ''type''), None) =
      (initial_lifecycle, \<lparr>obs_codex_turn_id = None, lifecycle_eligible = False\<rparr>)"
    by (simp add: event_turn_id_def initial_lifecycle_def jfield_def)
  have a: "adapt_lifecycle_record ?rec initial_lifecycle = (initial_lifecycle, Inr ?m)"
    unfolding adapt_lifecycle_record_def Let_def p k c sum.case o
    by (simp add: is_lifecycle_record_def jfield_def)
  have "\<not> is_lifecycle_record (jfield ?rec ''type'') (jfield (payload_of ?rec) ''type'')"
    by (simp add: is_lifecycle_record_def jfield_def payload_of_def)
  from turn_scope_resolved [OF a this] have "\<exists>t. jfield (payload_of ?m) ''turn_id'' = JStr t \<and>
      (t = thread_scope \<or> active_turn_id initial_lifecycle = Some t \<or> canonical_record_turn_id (jfield ?rec ''type'') (payload_of ?rec) = Inr (Some t))"
    by blast
  then have "jfield (payload_of ?m) ''turn_id'' = JStr thread_scope"
    by (auto simp: initial_lifecycle_def canonical_record_turn_id_def payload_of_def jfield_def as_id_def)
  with a show ?thesis by blast
qed

end
