(* ===== verification/Order_Statistics.thy ===== *)
theory Order_Statistics
  imports Prelude "HOL-Library.Word" "HOL-Library.Multiset"
begin

section \<open>Incremental order statistics\<close>

text \<open>
  \<^verbatim>\<open>_OrderStatisticMultiset\<close> of \<^verbatim>\<open>src/rodex/analytics_analyzer.py\<close>: a treap with counts, stored sizes and
  stored totals, whose priorities are a 64-bit hash of the key. A node's fields are the fields of
  \<^verbatim>\<open>_OrderNode\<close>; the failed assertions and the raised error are values. Percentiles and medians are
  computed on exact rationals: the program's products of a percentage and a count, and its halves,
  are exact in binary for every count below \<open>2 ^ 49\<close>.
\<close>

unbundle bit_operations_syntax

subsection \<open>Nodes\<close>

datatype order_error = LostValue | MissingChild

datatype order_node =
    NoNode
  | OrderNode (on_key: int) (on_priority: "64 word") (on_count: int) (on_size: int) (on_total: int)
      (on_left: order_node) (on_right: order_node)

definition order_priority :: "int \<Rightarrow> 64 word" where
  "order_priority value =
     (let m0 = of_int value + 0x9E3779B97F4A7C15;
          m1 = (m0 XOR drop_bit 30 m0) * 0xBF58476D1CE4E5B9;
          m2 = (m1 XOR drop_bit 27 m1) * 0x94D049BB133111EB
      in m2 XOR drop_bit 31 m2)"

fun size_of :: "order_node \<Rightarrow> int" where
  "size_of NoNode = 0"
| "size_of (OrderNode k p c s t l r) = s"

fun total_of :: "order_node \<Rightarrow> int" where
  "total_of NoNode = 0"
| "total_of (OrderNode k p c s t l r) = t"

fun refresh :: "order_node \<Rightarrow> order_node" where
  "refresh NoNode = NoNode"
| "refresh (OrderNode k p c s t l r) =
     OrderNode k p c (c + size_of l + size_of r) (k * c + total_of l + total_of r) l r"

fun rotate_left :: "order_node \<Rightarrow> order_error + order_node" where
  "rotate_left (OrderNode k p c s t l (OrderNode k' p' c' s' t' l' r')) =
     Inr (refresh (OrderNode k' p' c' s' t' (refresh (OrderNode k p c s t l l')) r'))"
| "rotate_left _ = Inl MissingChild"

fun rotate_right :: "order_node \<Rightarrow> order_error + order_node" where
  "rotate_right (OrderNode k p c s t (OrderNode k' p' c' s' t' l' r') r) =
     Inr (refresh (OrderNode k' p' c' s' t' l' (refresh (OrderNode k p c s t r' r))))"
| "rotate_right _ = Inl MissingChild"

fun priority_less :: "order_node \<Rightarrow> 64 word \<Rightarrow> bool" where
  "priority_less NoNode p = False"
| "priority_less (OrderNode k q c s t l r) p = (q < p)"

subsection \<open>Operations\<close>

definition map_node :: "('a \<Rightarrow> 'b) \<Rightarrow> order_error + 'a \<Rightarrow> order_error + 'b" where
  "map_node f x = (case x of Inl e \<Rightarrow> Inl e | Inr v \<Rightarrow> Inr (f v))"

fun order_insert :: "order_node \<Rightarrow> int \<Rightarrow> order_error + order_node" where
  "order_insert NoNode key = Inr (OrderNode key (order_priority key) 1 1 key NoNode NoNode)"
| "order_insert (OrderNode k p c s t l r) key =
     (if key = k then Inr (refresh (OrderNode k p (c + 1) s t l r))
      else if key < k then
        (case order_insert l key of
           Inl e \<Rightarrow> Inl e
         | Inr l' \<Rightarrow>
             let node = OrderNode k p c s t l' r in
             map_node refresh (if priority_less l' p then rotate_right node else Inr node))
      else
        (case order_insert r key of
           Inl e \<Rightarrow> Inl e
         | Inr r' \<Rightarrow>
             let node = OrderNode k p c s t l r' in
             map_node refresh (if priority_less r' p then rotate_left node else Inr node)))"

fun nodes :: "order_node \<Rightarrow> nat" where
  "nodes NoNode = 0"
| "nodes (OrderNode k p c s t l r) = Suc (nodes l + nodes r)"

text \<open>The removed node goes down by rotations until a child is missing.\<close>

function order_remove :: "order_node \<Rightarrow> int \<Rightarrow> order_error + order_node" where
  "order_remove NoNode key = Inl LostValue"
| "order_remove (OrderNode k p c s t l r) key =
     (if key < k then map_node (\<lambda>l'. refresh (OrderNode k p c s t l' r)) (order_remove l key)
      else if key > k then map_node (\<lambda>r'. refresh (OrderNode k p c s t l r')) (order_remove r key)
      else if c > 1 then Inr (refresh (OrderNode k p (c - 1) s t l r))
      else if l = NoNode then Inr r
      else if r = NoNode then Inr l
      else if on_priority l < on_priority r then
        (case rotate_right (OrderNode k p c s t l r) of
           Inr (OrderNode k' p' c' s' t' l' r') \<Rightarrow>
             map_node (\<lambda>r''. refresh (OrderNode k' p' c' s' t' l' r'')) (order_remove r' key)
         | _ \<Rightarrow> Inl MissingChild)
      else
        (case rotate_left (OrderNode k p c s t l r) of
           Inr (OrderNode k' p' c' s' t' l' r') \<Rightarrow>
             map_node (\<lambda>l''. refresh (OrderNode k' p' c' s' t' l'' r')) (order_remove l' key)
         | _ \<Rightarrow> Inl MissingChild))"
  by pat_completeness auto
termination
proof (relation "measure (\<lambda>(t, key). nodes t)", goal_cases)
  case (4 k p c s t l r key x2 x21 x22 x23 x24 x25 x26 x27)
  then show ?case by (cases l) auto
next
  case (5 k p c s t l r key x2 x21 x22 x23 x24 x25 x26 x27)
  then show ?case by (cases r) auto
qed auto

fun order_select :: "order_node \<Rightarrow> int \<Rightarrow> order_error + int" where
  "order_select NoNode remaining = Inl MissingChild"
| "order_select (OrderNode k p c s t l r) remaining =
     (if remaining < size_of l then order_select l remaining
      else if remaining < size_of l + c then Inr k
      else order_select r (remaining - (size_of l + c)))"

definition order_percentile :: "order_node \<Rightarrow> int \<Rightarrow> order_error + int" where
  "order_percentile node percentile =
     order_select node (max 0 (\<lceil>of_int (percentile * size_of node) / (100 :: rat)\<rceil> - 1))"

record distribution =
  dist_kind :: pystr
  dist_observation_count :: int
  dist_total :: int
  dist_median :: "rat option"
  dist_p75 :: "int option"
  dist_p90 :: "int option"
  dist_p95 :: "int option"
  dist_maximum :: "int option"

text \<open>The two middle values of an even count; \<^verbatim>\<open>round(x, 1)\<close> leaves a half-integer as it is.\<close>

definition order_median :: "order_node \<Rightarrow> order_error + rat" where
  "order_median node =
     (let middle = size_of node div 2 in
      if size_of node mod 2 \<noteq> 0 then map_node of_int (order_select node middle)
      else case order_select node (middle - 1) of
        Inl e \<Rightarrow> Inl e
      | Inr a \<Rightarrow> map_node (\<lambda>b. of_int (a + b) / 2) (order_select node middle))"

definition distribution_of :: "pystr \<Rightarrow> order_node \<Rightarrow> order_error + distribution" where
  "distribution_of kind node =
     (if node = NoNode then
        Inr \<lparr>dist_kind = kind, dist_observation_count = 0, dist_total = 0, dist_median = None, dist_p75 = None,
          dist_p90 = None, dist_p95 = None, dist_maximum = None\<rparr>
      else case (order_median node, order_percentile node 75, order_percentile node 90, order_percentile node 95,
                 order_select node (size_of node - 1)) of
        (Inr m, Inr a, Inr b, Inr c, Inr d) \<Rightarrow>
          Inr \<lparr>dist_kind = kind, dist_observation_count = size_of node, dist_total = total_of node, dist_median = Some m,
            dist_p75 = Some a, dist_p90 = Some b, dist_p95 = Some c, dist_maximum = Some d\<rparr>
      | _ \<Rightarrow> Inl MissingChild)"

subsection \<open>Invariant and abstraction\<close>

fun vals :: "order_node \<Rightarrow> int list" where
  "vals NoNode = []"
| "vals (OrderNode k p c s t l r) = vals l @ replicate (nat c) k @ vals r"

fun prio_ge :: "64 word \<Rightarrow> order_node \<Rightarrow> bool" where
  "prio_ge q NoNode = True"
| "prio_ge q (OrderNode k p c s t l r) = (q \<le> p)"

text \<open>Search order, positive counts, heap order on the priorities, and stored fields that are up to date.\<close>

fun order_inv :: "order_node \<Rightarrow> bool" where
  "order_inv NoNode = True"
| "order_inv (OrderNode k p c s t l r) =
     ((\<forall>x \<in> set (vals l). x < k) \<and> (\<forall>x \<in> set (vals r). k < x) \<and> 1 \<le> c \<and> p = order_priority k \<and>
      prio_ge p l \<and> prio_ge p r \<and> s = c + size_of l + size_of r \<and> t = k * c + total_of l + total_of r \<and>
      order_inv l \<and> order_inv r)"

lemma prio_ge_trans: "prio_ge q t \<Longrightarrow> q' \<le> q \<Longrightarrow> prio_ge q' t"
  by (cases t) auto

lemma not_priority_less: "\<not> priority_less t p \<longleftrightarrow> prio_ge p t"
  by (cases t) auto

lemma order_inv_fields: "order_inv t \<Longrightarrow> size_of t = int (length (vals t)) \<and> total_of t = sum_list (vals t)"
  by (induction t) (auto simp: sum_list_replicate)

lemma sorted_vals: "order_inv t \<Longrightarrow> sorted (vals t)"
proof (induction t)
  case (OrderNode k p c s t l r)
  then show ?case by (force simp: sorted_append)
qed simp

lemma vals_empty: "order_inv t \<Longrightarrow> vals t = [] \<longleftrightarrow> t = NoNode"
  by (cases t) auto

lemma map_node_simps [simp]: "map_node f (Inr x) = Inr (f x)" "map_node f (Inl e) = Inl e"
  by (simp_all add: map_node_def)

lemma refresh_refresh [simp]: "refresh (refresh t) = refresh t"
  by (cases t) auto

subsection \<open>Insertion\<close>

fun children_ge :: "64 word \<Rightarrow> order_node \<Rightarrow> bool" where
  "children_ge q NoNode = True"
| "children_ge q (OrderNode k p c s t l r) = (prio_ge q l \<and> prio_ge q r)"

text \<open>Either the root kept a priority at least as large as before, or the new value came up and its
  children have one.\<close>

definition grown :: "order_node \<Rightarrow> order_node \<Rightarrow> bool" where
  "grown t t' \<longleftrightarrow> (case t of NoNode \<Rightarrow> \<forall>q. children_ge q t' | OrderNode k p c s tt l r \<Rightarrow> prio_ge p t' \<or> children_ge p t')"

lemma order_insert_correct:
  "order_inv t \<Longrightarrow> \<exists>t'. order_insert t key = Inr t' \<and> order_inv t' \<and> mset (vals t') = add_mset key (mset (vals t)) \<and>
    t' \<noteq> NoNode \<and> grown t t'"
proof (induction t)
  case NoNode
  then show ?case by (simp add: grown_def)
next
  case (OrderNode k p c s tt l r)
  consider "key = k" | "key < k" | "k < key" by linarith
  then show ?case
  proof cases
    case 1
    with OrderNode.prems show ?thesis by (auto simp: grown_def nat_add_distrib)
  next
    case 2
    obtain l' where l': "order_insert l key = Inr l'" "order_inv l'" "mset (vals l') = add_mset key (mset (vals l))" "grown l l'"
      using OrderNode by auto
    have below: "\<forall>x \<in> set (vals l'). x < k"
      using l'(3) 2 OrderNode.prems by (metis insert_iff order_inv.simps(2) set_mset_add_mset_insert set_mset_mset)
    show ?thesis
    proof (cases "priority_less l' p")
      case False
      moreover from this have "prio_ge p l'" by (simp add: not_priority_less)
      ultimately show ?thesis using 2 l' below OrderNode.prems by (auto simp: Let_def grown_def)
    next
      case True
      then obtain k' p' c' s' t' l1 l2 where n: "l' = OrderNode k' p' c' s' t' l1 l2" "p' < p" by (cases l') auto
      have "prio_ge p l1 \<and> prio_ge p l2"
        using l'(4) n OrderNode.prems by (cases l) (auto simp: grown_def intro: prio_ge_trans)
      with 2 l' n below OrderNode.prems show ?thesis by (auto simp: Let_def grown_def)
    qed
  next
    case 3
    obtain r' where r': "order_insert r key = Inr r'" "order_inv r'" "mset (vals r') = add_mset key (mset (vals r))" "grown r r'"
      using OrderNode by auto
    have above: "\<forall>x \<in> set (vals r'). k < x"
      using r'(3) 3 OrderNode.prems by (metis insert_iff order_inv.simps(2) set_mset_add_mset_insert set_mset_mset)
    show ?thesis
    proof (cases "priority_less r' p")
      case False
      moreover from this have "prio_ge p r'" by (simp add: not_priority_less)
      ultimately show ?thesis using 3 r' above OrderNode.prems by (auto simp: Let_def grown_def)
    next
      case True
      then obtain k' p' c' s' t' r1 r2 where n: "r' = OrderNode k' p' c' s' t' r1 r2" "p' < p" by (cases r') auto
      have "prio_ge p r1 \<and> prio_ge p r2"
        using r'(4) n OrderNode.prems by (cases r) (auto simp: grown_def intro: prio_ge_trans)
      with 3 r' n above OrderNode.prems show ?thesis by (auto simp: Let_def grown_def)
    qed
  qed
qed

subsection \<open>Removal\<close>

text \<open>Removing the only occurrence at the root leaves a root that was below it.\<close>

fun sunk :: "order_node \<Rightarrow> int \<Rightarrow> order_node \<Rightarrow> bool" where
  "sunk NoNode key t' = True"
| "sunk (OrderNode k p c s t l r) key t' =
     (prio_ge p t' \<and> (k = key \<and> c \<le> 1 \<longrightarrow> (\<forall>q. prio_ge q l \<and> prio_ge q r \<longrightarrow> prio_ge q t')))"

definition removed :: "order_node \<Rightarrow> int \<Rightarrow> order_node \<Rightarrow> bool" where
  "removed t key t' \<longleftrightarrow> order_inv t' \<and> add_mset key (mset (vals t')) = mset (vals t) \<and> sunk t key t'"

lemma removed_vals:
  assumes "removed t key t'"
  shows "set (vals t) = insert key (set (vals t'))"
proof -
  have "set_mset (mset (vals t)) = set_mset (add_mset key (mset (vals t')))" using assms by (simp add: removed_def)
  then show ?thesis by simp
qed

lemma removed_left:
  assumes "order_inv (OrderNode k p c s t l r)" "key < k" "removed l key l'"
  shows "removed (OrderNode k p c s t l r) key (refresh (OrderNode k p c s t l' r))"
proof -
  have "prio_ge p l'" using assms(1,3) by (cases l) (auto simp: removed_def intro: prio_ge_trans)
  moreover have "\<forall>x \<in> set (vals l'). x < k" using assms(1) removed_vals [OF assms(3)] by auto
  moreover have "add_mset key (mset (vals l')) = mset (vals l)" "order_inv l'" using assms(3) by (simp_all add: removed_def)
  ultimately show ?thesis using assms(1,2) by (auto simp: removed_def)
qed

lemma removed_right:
  assumes "order_inv (OrderNode k p c s t l r)" "k < key" "removed r key r'"
  shows "removed (OrderNode k p c s t l r) key (refresh (OrderNode k p c s t l r'))"
proof -
  have "prio_ge p r'" using assms(1,3) by (cases r) (auto simp: removed_def intro: prio_ge_trans)
  moreover have "\<forall>x \<in> set (vals r'). k < x" using assms(1) removed_vals [OF assms(3)] by auto
  moreover have "add_mset key (mset (vals r')) = mset (vals r)" "order_inv r'" using assms(3) by (simp_all add: removed_def)
  ultimately show ?thesis using assms(1,2) by (auto simp: removed_def)
qed

text \<open>A rotation at the root moves the removed node down; the subtree it heads stays ordered.\<close>

lemma removed_rotate_right:
  assumes "order_inv (OrderNode k p 1 s t (OrderNode k' p' c' s' t' l' r') r)" "p' < on_priority r" "r \<noteq> NoNode"
    and "removed (refresh (OrderNode k p 1 s t r' r)) k r''"
  shows "removed (OrderNode k p 1 s t (OrderNode k' p' c' s' t' l' r') r) k
    (refresh (OrderNode k' p' c' x y l' r''))"
proof -
  have "prio_ge p' r" using assms(2,3) by (cases r) auto
  then have "prio_ge p' r''" using assms(1,4) by (auto simp: removed_def)
  moreover have "\<forall>x \<in> insert k (set (vals r') \<union> set (vals r)). k' < x" using assms(1) by (auto intro: less_trans [of k' k])
  then have "\<forall>x \<in> set (vals r''). k' < x" using removed_vals [OF assms(4)] by auto
  moreover note this
  moreover have "add_mset k (mset (vals r'')) = mset (vals r') + add_mset k (mset (vals r))" "order_inv r''"
    using assms(4) by (simp_all add: removed_def)
  ultimately show ?thesis using assms(1) by (auto simp: removed_def)
qed

lemma removed_rotate_left:
  assumes "order_inv (OrderNode k p 1 s t l (OrderNode k' p' c' s' t' l' r'))" "p' \<le> on_priority l" "l \<noteq> NoNode"
    and "removed (refresh (OrderNode k p 1 s t l l')) k l''"
  shows "removed (OrderNode k p 1 s t l (OrderNode k' p' c' s' t' l' r')) k
    (refresh (OrderNode k' p' c' x y l'' r'))"
proof -
  have "prio_ge p' l" using assms(2,3) by (cases l) auto
  then have "prio_ge p' l''" using assms(1,4) by (auto simp: removed_def)
  moreover have "\<forall>x \<in> insert k (set (vals l) \<union> set (vals l')). x < k'" using assms(1) by (auto intro: less_trans [of _ k k'])
  then have "\<forall>x \<in> set (vals l''). x < k'" using removed_vals [OF assms(4)] by auto
  moreover note this
  moreover have "add_mset k (mset (vals l'')) = mset (vals l) + add_mset k (mset (vals l'))" "order_inv l''"
    using assms(4) by (simp_all add: removed_def)
  ultimately show ?thesis using assms(1) by (auto simp: removed_def)
qed

lemma order_remove_correct:
  "order_inv t \<Longrightarrow>
    (if key \<in> set (vals t) then \<exists>t'. order_remove t key = Inr t' \<and> removed t key t' else order_remove t key = Inl LostValue)"
proof (induction t key rule: order_remove.induct)
  case (1 key)
  then show ?case by simp
next
  case (2 k p c s t l r key)
  let ?t = "OrderNode k p c s t l r"
  consider (below) "key < k" | (above) "k < key" | (many) "key = k" "c > 1" | (root) "key = k" "c = 1"
    using "2.prems" by fastforce
  then show ?case
  proof cases
    case below
    then have "key \<in> set (vals ?t) \<longleftrightarrow> key \<in> set (vals l)" using "2.prems" by auto
    with below "2.IH"(1) [OF below] "2.prems" removed_left [OF "2.prems" below] show ?thesis by (auto split: if_splits)
  next
    case above
    then have "key \<in> set (vals ?t) \<longleftrightarrow> key \<in> set (vals r)" using "2.prems" by auto
    with above "2.IH"(2) "2.prems" removed_right [OF "2.prems" above] show ?thesis by (auto split: if_splits)
  next
    case many
    have c: "nat c = Suc (nat (c - 1))" using many by simp
    have "removed ?t key (refresh (OrderNode k p (c - 1) s t l r))"
      using many "2.prems" unfolding removed_def by (auto simp: c simp del: nat_minus_as_int)
    with many show ?thesis by simp
  next
    case root
    then have mem: "key \<in> set (vals ?t)" by simp
    show ?thesis
    proof (cases "l = NoNode \<or> r = NoNode")
      case True
      with root "2.prems" show ?thesis by (auto simp: removed_def)
    next
      case False
      then obtain k1 p1 c1 s1 t1 l1 r1 where l: "l = OrderNode k1 p1 c1 s1 t1 l1 r1" by (cases l) auto
      obtain k2 p2 c2 s2 t2 l2 r2 where r: "r = OrderNode k2 p2 c2 s2 t2 l2 r2" using False by (cases r) auto
      show ?thesis
      proof (cases "p1 < p2")
        case True
        let ?n = "refresh (OrderNode k p c s t r1 r)"
        have "order_inv ?n" "key \<in> set (vals ?n)" using "2.prems" root l by (auto intro: prio_ge_trans)
        then obtain r'' where r'': "order_remove ?n key = Inr r''" "removed ?n key r''"
          using "2.IH"(3) [OF _ _ _ _ _ _ _ refl] root True l r by auto
        with removed_rotate_right [of k p s t k1 p1 c1 s1 t1 l1 r1 r r''] "2.prems" root True l r mem show ?thesis by auto
      next
        case False
        let ?n = "refresh (OrderNode k p c s t l l2)"
        have "order_inv ?n" "key \<in> set (vals ?n)" using "2.prems" root r by (auto intro: prio_ge_trans)
        then obtain l'' where l'': "order_remove ?n key = Inr l''" "removed ?n key l''"
          using "2.IH"(4) [OF _ _ _ _ _ _ _ refl] root False l r by auto
        with removed_rotate_left [of k p s t l k2 p2 c2 s2 t2 l2 r2 l''] "2.prems" root False l r mem show ?thesis by auto
      qed
    qed
  qed
qed

subsection \<open>Selection\<close>

lemma order_select_correct:
  "order_inv t \<Longrightarrow> 0 \<le> i \<Longrightarrow> i < size_of t \<Longrightarrow> order_select t i = Inr (vals t ! nat i)"
proof (induction t arbitrary: i)
  case (OrderNode k p c s tt l r)
  have sz: "size_of l = int (length (vals l))" "size_of r = int (length (vals r))" "1 \<le> c"
    using OrderNode.prems order_inv_fields by auto
  consider "i < size_of l" | "size_of l \<le> i" "i < size_of l + c" | "size_of l + c \<le> i" by linarith
  then show ?case
  proof cases
    case 1
    with OrderNode sz show ?thesis by (auto simp: nth_append)
  next
    case 2
    with OrderNode.prems sz show ?thesis by (auto simp: nth_append)
  next
    case 3
    then have "order_select r (i - (size_of l + c)) = Inr (vals r ! nat (i - (size_of l + c)))"
      using OrderNode.prems by (intro OrderNode.IH(2)) auto
    moreover have "nat i - length (vals l) - nat c = nat (i - (size_of l + c))" using sz 3 by (simp add: nat_diff_distrib)
    ultimately show ?thesis using 3 OrderNode.prems sz by (auto simp: nth_append)
  qed
qed simp

text \<open>The nearest-rank percentile of a sorted list, and its median.\<close>

definition nearest_rank :: "int list \<Rightarrow> int \<Rightarrow> int" where
  "nearest_rank xs percentile = xs ! nat (max 0 (\<lceil>of_int (percentile * int (length xs)) / (100 :: rat)\<rceil> - 1))"

definition list_median :: "int list \<Rightarrow> rat" where
  "list_median xs =
     (let n = length xs in
      if odd n then of_int (xs ! (n div 2)) else of_int (xs ! (n div 2 - 1) + xs ! (n div 2)) / 2)"

lemma order_percentile_correct:
  assumes "order_inv t" "t \<noteq> NoNode" "percentile \<le> 100"
  shows "order_percentile t percentile = Inr (nearest_rank (vals t) percentile)"
proof -
  have n: "size_of t = int (length (vals t))" "0 < size_of t"
    using order_inv_fields [OF assms(1)] vals_empty [OF assms(1)] assms(2) by auto
  then have "percentile * size_of t \<le> 100 * size_of t" using assms(3) by (intro mult_right_mono) auto
  then have "(of_int (percentile * size_of t) :: rat) \<le> of_int (100 * size_of t)" by (subst of_int_le_iff)
  then have "of_int (percentile * size_of t) / (100 :: rat) \<le> of_int (size_of t)" by (simp add: divide_le_eq)
  then have "\<lceil>of_int (percentile * size_of t) / (100 :: rat)\<rceil> \<le> size_of t" by (simp add: ceiling_le_iff)
  then show ?thesis
    using n order_select_correct [OF assms(1)] unfolding order_percentile_def nearest_rank_def by simp
qed

lemma order_median_correct:
  assumes "order_inv t" "t \<noteq> NoNode"
  shows "order_median t = Inr (list_median (vals t))"
proof -
  have n: "size_of t = int (length (vals t))" "0 < length (vals t)"
    using order_inv_fields [OF assms(1)] vals_empty [OF assms(1)] assms(2) by auto
  have sel: "order_select t (int i) = Inr (vals t ! i)" if "i < length (vals t)" for i
    using order_select_correct [OF assms(1), of "int i"] that n by simp
  have parity: "size_of t mod 2 \<noteq> 0 \<longleftrightarrow> odd (length (vals t))" unfolding n(1) by presburger
  have middle: "size_of t div 2 = int (length (vals t) div 2)" unfolding n(1) by (simp add: zdiv_int)
  show ?thesis
  proof (cases "odd (length (vals t))")
    case True
    with n(2) sel [of "length (vals t) div 2"] show ?thesis
      unfolding order_median_def list_median_def Let_def parity middle by simp
  next
    case False
    then have "1 \<le> length (vals t) div 2" using n(2) by presburger
    then have e: "int (length (vals t) div 2) - 1 = int (length (vals t) div 2 - 1)" by (simp add: of_nat_diff)
    have a: "order_select t (int (length (vals t) div 2) - 1) = Inr (vals t ! (length (vals t) div 2 - 1))"
      unfolding e using n(2) by (intro sel) linarith
    have b: "order_select t (int (length (vals t) div 2)) = Inr (vals t ! (length (vals t) div 2))"
      using n(2) by (intro sel) auto
    show ?thesis
      unfolding order_median_def list_median_def Let_def parity middle a b using False by simp
  qed
qed

text \<open>The distribution of an ordered tree, in terms of its sorted values.\<close>

definition list_distribution :: "pystr \<Rightarrow> int list \<Rightarrow> distribution" where
  "list_distribution kind xs =
     (if xs = [] then
        \<lparr>dist_kind = kind, dist_observation_count = 0, dist_total = 0, dist_median = None, dist_p75 = None,
          dist_p90 = None, dist_p95 = None, dist_maximum = None\<rparr>
      else
        \<lparr>dist_kind = kind, dist_observation_count = int (length xs), dist_total = sum_list xs,
          dist_median = Some (list_median xs), dist_p75 = Some (nearest_rank xs 75), dist_p90 = Some (nearest_rank xs 90),
          dist_p95 = Some (nearest_rank xs 95), dist_maximum = Some (Max (set xs))\<rparr>)"

lemma sorted_vals_of_mset: "order_inv t \<Longrightarrow> sorted_list_of_multiset (mset (vals t)) = vals t"
  using sorted_vals by (simp add: sort_key_id_if_sorted sorted_list_of_multiset_mset)

lemma distribution_of_vals:
  assumes "order_inv t"
  shows "distribution_of kind t = Inr (list_distribution kind (vals t))"
proof (cases "t = NoNode")
  case True
  then show ?thesis by (simp add: distribution_of_def list_distribution_def)
next
  case False
  let ?xs = "vals t"
  have n: "?xs \<noteq> []" "size_of t = int (length ?xs)" "total_of t = sum_list ?xs"
    using vals_empty [OF assms] order_inv_fields [OF assms] False by auto
  have i: "0 \<le> size_of t - 1" "nat (size_of t - 1) = length ?xs - 1" unfolding n(2) using n(1) by simp_all
  have "order_select t (size_of t - 1) = Inr (last ?xs)"
    using order_select_correct [OF assms i(1)] unfolding last_conv_nth [OF n(1)] i(2) by simp
  moreover have "last ?xs = Max (set ?xs)"
  proof (rule Max_eqI [symmetric])
    show "y \<le> last ?xs" if "y \<in> set ?xs" for y
      using sorted_vals [OF assms] n(1) that by (auto simp: sorted_iff_nth_mono last_conv_nth in_set_conv_nth)
  qed (use n(1) in auto)
  ultimately have top: "order_select t (size_of t - 1) = Inr (Max (set ?xs))" by simp
  show ?thesis
    unfolding distribution_of_def list_distribution_def top order_median_correct [OF assms False]
    using False order_percentile_correct [OF assms False] n by simp
qed

lemma distribution_of_content:
  assumes "order_inv t" "order_inv t'" "mset (vals t) = mset (vals t')"
  shows "distribution_of kind t = distribution_of kind t'"
proof -
  have "vals t = vals t'" using sorted_vals_of_mset assms by metis
  then show ?thesis using assms(1,2) by (simp add: distribution_of_vals)
qed

subsection \<open>The interface\<close>

text \<open>What a client of the multiset relies on: adding and discarding act on the multiset of values, and
  discarding fails exactly when the value is missing.\<close>

locale value_multiset =
  fixes empty :: "'t"
    and add :: "'t \<Rightarrow> int \<Rightarrow> 'e + 't"
    and discard :: "'t \<Rightarrow> int \<Rightarrow> 'e + 't"
    and content :: "'t \<Rightarrow> int multiset"
    and inv :: "'t \<Rightarrow> bool"
  assumes empty_ok: "inv empty" "content empty = {#}"
    and add_ok: "inv t \<Longrightarrow> \<exists>t'. add t x = Inr t' \<and> inv t' \<and> content t' = add_mset x (content t)"
    and discard_ok: "inv t \<Longrightarrow> x \<in># content t \<Longrightarrow> \<exists>t'. discard t x = Inr t' \<and> inv t' \<and> content t' = content t - {#x#}"
    and discard_absent: "inv t \<Longrightarrow> x \<notin># content t \<Longrightarrow> \<exists>e. discard t x = Inl e"
begin

text \<open>A sequence of additions (\<open>True\<close>) and removals (\<open>False\<close>).\<close>

fun run_changes :: "'t \<Rightarrow> (bool \<times> int) list \<Rightarrow> 'e + 't" where
  "run_changes t [] = Inr t"
| "run_changes t ((b, x) # cs) =
     (case (if b then add t x else discard t x) of Inl e \<Rightarrow> Inl e | Inr t' \<Rightarrow> run_changes t' cs)"

fun apply_changes :: "int multiset \<Rightarrow> (bool \<times> int) list \<Rightarrow> int multiset option" where
  "apply_changes m [] = Some m"
| "apply_changes m ((b, x) # cs) =
     (if b then apply_changes (add_mset x m) cs else if x \<in># m then apply_changes (m - {#x#}) cs else None)"

lemma run_changes_refines:
  "inv t \<Longrightarrow> case apply_changes (content t) cs of
     None \<Rightarrow> \<exists>e. run_changes t cs = Inl e
   | Some m \<Rightarrow> \<exists>t'. run_changes t cs = Inr t' \<and> inv t' \<and> content t' = m"
proof (induction cs arbitrary: t)
  case (Cons p cs)
  obtain b x where p: "p = (b, x)" by (rule prod.exhaust)
  consider "b" | "\<not> b" "x \<in># content t" | "\<not> b" "x \<notin># content t" by blast
  then show ?case
  proof cases
    case 1
    obtain t' where t': "add t x = Inr t'" "inv t'" "content t' = add_mset x (content t)" using add_ok [OF Cons.prems] by blast
    then have "run_changes t (p # cs) = run_changes t' cs" "apply_changes (content t) (p # cs) = apply_changes (content t') cs"
      using 1 p by simp_all
    then show ?thesis using Cons.IH [OF t'(2)] by (simp only:)
  next
    case 2
    obtain t' where t': "discard t x = Inr t'" "inv t'" "content t' = content t - {#x#}"
      using discard_ok [OF Cons.prems] 2(2) by blast
    then have "run_changes t (p # cs) = run_changes t' cs" "apply_changes (content t) (p # cs) = apply_changes (content t') cs"
      using 2 p by simp_all
    then show ?thesis using Cons.IH [OF t'(2)] by (simp only:)
  next
    case 3
    with discard_absent [OF Cons.prems, of x] p show ?thesis by auto
  qed
qed simp

end

interpretation treap: value_multiset NoNode order_insert order_remove "\<lambda>t. mset (vals t)" order_inv
proof unfold_locales
  fix t x assume t: "order_inv t"
  show "\<exists>t'. order_insert t x = Inr t' \<and> order_inv t' \<and> mset (vals t') = add_mset x (mset (vals t))"
    using order_insert_correct [OF t] by blast
  show "\<exists>t'. order_remove t x = Inr t' \<and> order_inv t' \<and> mset (vals t') = mset (vals t) - {#x#}" if m: "x \<in># mset (vals t)"
  proof -
    obtain t' where "order_remove t x = Inr t'" "removed t x t'"
      using order_remove_correct [OF t, of x] m by (auto split: if_splits)
    moreover from this have "mset (vals t) = add_mset x (mset (vals t'))" "order_inv t'" by (simp_all add: removed_def)
    ultimately show ?thesis by simp
  qed
  show "\<exists>e. order_remove t x = Inl e" if "x \<notin># mset (vals t)"
    using order_remove_correct [OF t, of x] that by simp
qed simp_all

subsection \<open>Properties\<close>

definition order_changes :: "order_node \<Rightarrow> (bool \<times> int) list \<Rightarrow> order_error + order_node" where
  "order_changes = treap.run_changes"

definition multiset_changes :: "int multiset \<Rightarrow> (bool \<times> int) list \<Rightarrow> int multiset option" where
  "multiset_changes = treap.apply_changes"

text \<open>Property C20. The treap is a multiset: for every sequence of additions and removals, with all the
  rotations they cause, the result is an ordered, heap-ordered tree with exact stored sizes and
  totals that holds the multiset of the values added and not removed, and the sequence fails exactly
  when it removes a value that is not there.\<close>

theorem order_multiset_refines:
  "case multiset_changes {#} cs of
     None \<Rightarrow> \<exists>e. order_changes NoNode cs = Inl e
   | Some m \<Rightarrow> \<exists>t. order_changes NoNode cs = Inr t \<and> order_inv t \<and> mset (vals t) = m"
  unfolding order_changes_def multiset_changes_def using treap.run_changes_refines [of NoNode cs] by simp

text \<open>The reported distribution of an ordered tree never fails and is that of the sorted list
  of its values: their number and sum, the median, the nearest-rank percentiles and the maximum.\<close>

theorem distribution_correct:
  assumes "order_inv t" "t \<noteq> NoNode"
  shows "let xs = sorted_list_of_multiset (mset (vals t)) in
    distribution_of kind t =
      Inr \<lparr>dist_kind = kind, dist_observation_count = int (length xs), dist_total = sum_list xs,
        dist_median = Some (list_median xs), dist_p75 = Some (nearest_rank xs 75), dist_p90 = Some (nearest_rank xs 90),
        dist_p95 = Some (nearest_rank xs 95), dist_maximum = Some (Max (set xs))\<rparr>"
  unfolding sorted_vals_of_mset [OF assms(1)] Let_def distribution_of_vals [OF assms(1)]
  using assms(2) vals_empty [OF assms(1)] by (simp add: list_distribution_def)

theorem distribution_correct_witness:
  "\<exists>t. order_changes NoNode [(True, 5)] = Inr t \<and> map_node dist_maximum (distribution_of (lit ''d'') t) = Inr (Some 5)"
  using distribution_correct [of "OrderNode 5 (order_priority 5) 1 1 5 NoNode NoNode" "lit ''d''"]
  by (simp add: order_changes_def Let_def)

end
