(* ===== verification/Statistics_Index.thy ===== *)
theory Statistics_Index
  imports Order_Statistics "HOL-Library.List_Lexorder" "HOL-Library.Product_Lexorder"
begin

section \<open>The incremental statistics index\<close>

text \<open>
  \<^verbatim>\<open>_IncrementalProjectionIndex\<close> of \<^verbatim>\<open>src/rodex/analytics_analyzer.py\<close>: aggregates over the turns of a session
  that are kept up to date by replacing one turn at a time, and ledgers that follow the resident
  analyzer by looking only at what a batch touched. The analyzer is a package outside the repository: what the
  index reads of it is the record \<open>analyzer\<close>, over the package's own type of turns. A turn carries the fields the index reads. Sets that the
  code iterates over are lists in any order.
\<close>

type_synonym turn_key = "pystr \<times> pystr"

record named_count =
  nc_kind :: pystr
  nc_name :: pystr
  nc_occurrences :: int

record turn_statistics =
  ts_thread_id :: pystr
  ts_turn_id :: pystr
  ts_started_at :: "pystr option"
  ts_outcome :: pystr
  ts_duration_ms :: "int option"
  ts_time_to_first_token_ms :: "int option"
  ts_total_tokens :: int
  ts_commands_executed_count :: int
  ts_model_tool_requests_count :: int
  ts_file_change_operations_count :: int
  ts_file_change_distinct_paths_count :: int
  ts_web_operations_count :: int
  ts_workspace_digest :: "pystr option"
  ts_model :: "pystr option"
  ts_reasoning_effort :: "pystr option"
  ts_local_start_hour :: "int option"
  ts_hands_on :: bool
  ts_completed_after_nonzero_command :: bool
  ts_edited_then_verified :: bool
  ts_web_follow_through :: bool
  ts_named_counts :: "named_count list"

text \<open>A table of counts is a \<^verbatim>\<open>Counter\<close> or another mapping.\<close>

datatype count_table = CounterTable "(pystr, int) dict" | PlainTable "(pystr, int) dict"

record 't analyzer =
  an_turns :: "(turn_key, 't) dict"
  an_command_durations_ms :: "int list"
  an_context_observations :: "rat list"
  an_command_hashes :: "(pystr, int) dict"
  an_path_operation_counts :: "(pystr, int) dict"
  an_tool_requests :: "(turn_key, pystr) dict"
  an_tool_outputs :: "turn_key list"
  an_commands :: nat
  an_command_statuses :: count_table
  an_command_families :: count_table
  an_file_change_types :: count_table
  an_web_action_types :: count_table
  an_collaboration_tools :: count_table
  an_goal_statuses :: count_table
  an_input_tokens :: int
  an_cached_input_tokens :: int
  an_output_tokens :: int
  an_reasoning_output_tokens :: int

record batch_touches =
  touched_turn_keys :: "turn_key list"
  touched_command_hashes :: "pystr list"
  touched_path_hashes :: "pystr list"
  touched_tool_keys :: "turn_key list"

record projection_index =
  ix_turns :: "(turn_key, turn_statistics) dict"
  ix_outcomes :: "(pystr, int) dict"
  ix_workspaces :: "(pystr, int) dict"
  ix_models :: "(pystr, int) dict"
  ix_reasoning_efforts :: "(pystr, int) dict"
  ix_local_hours :: "(int, int) dict"
  ix_hands_on :: int
  ix_failed_command_turns :: int
  ix_recovered_turns :: int
  ix_edited_turns :: int
  ix_verified_after_edit :: int
  ix_web_turns :: int
  ix_web_follow_through :: int
  ix_completed_durations :: order_node
  ix_ttfts :: order_node
  ix_turn_tokens :: order_node
  ix_commands_per_turn :: order_node
  ix_tools_per_turn :: order_node
  ix_files_per_turn :: order_node
  ix_command_durations :: order_node
  ix_command_duration_count :: nat
  ix_context_observation_count :: nat
  ix_context_high_water :: rat
  ix_command_hash_counts :: "(pystr, int) dict"
  ix_repeated_commands :: int
  ix_path_counts :: "(pystr, int) dict"
  ix_revisited_paths :: int
  ix_tool_requests :: "(turn_key, pystr) dict"
  ix_tool_names :: "(pystr, int) dict"
  ix_paired_tool_keys :: "turn_key list"

datatype index_error = IndexOrder order_error | IndexReport | IndexKeyError

subsection \<open>Counters and distributions\<close>

definition counter_get :: "('k, int) dict \<Rightarrow> 'k \<Rightarrow> int" where
  "counter_get c k = (case dict_get c k of None \<Rightarrow> 0 | Some v \<Rightarrow> v)"

definition adjust_counter :: "'k \<Rightarrow> int \<Rightarrow> ('k, int) dict \<Rightarrow> ('k, int) dict" where
  "adjust_counter k direction c =
     (let v = counter_get c k + direction in if v = 0 then dict_pop k c else dict_set k v c)"

definition adjust_optional :: "'k option \<Rightarrow> int \<Rightarrow> ('k, int) dict \<Rightarrow> ('k, int) dict" where
  "adjust_optional k direction c = (case k of None \<Rightarrow> c | Some k \<Rightarrow> adjust_counter k direction c)"

definition lift_order :: "order_error + 'a \<Rightarrow> index_error + 'a" where
  "lift_order x = (case x of Inl e \<Rightarrow> Inl (IndexOrder e) | Inr v \<Rightarrow> Inr v)"

definition adjust_distribution :: "int option \<Rightarrow> int \<Rightarrow> order_node \<Rightarrow> index_error + order_node" where
  "adjust_distribution value direction d =
     (case value of
        None \<Rightarrow> Inr d
      | Some v \<Rightarrow> lift_order (if direction > 0 then order_insert d v else order_remove d v))"

definition bind_index :: "index_error + 'a \<Rightarrow> ('a \<Rightarrow> index_error + 'b) \<Rightarrow> index_error + 'b" where
  "bind_index x f = (case x of Inl e \<Rightarrow> Inl e | Inr v \<Rightarrow> f v)"

definition of_flag :: "bool \<Rightarrow> int" where
  "of_flag b = (if b then 1 else 0)"

subsection \<open>Turns\<close>

definition has_failed_command :: "turn_statistics \<Rightarrow> bool" where
  "has_failed_command t \<longleftrightarrow>
     list_ex (\<lambda>n. nc_kind n = lit ''command_exit_status'' \<and> nc_name n = lit ''nonzero_exit'' \<and> nc_occurrences n > 0)
       (ts_named_counts t)"

definition completed_value :: "(turn_statistics \<Rightarrow> int option) \<Rightarrow> turn_statistics \<Rightarrow> int option" where
  "completed_value f t = (if ts_outcome t = lit ''completed'' then f t else None)"

definition adjust_counts :: "turn_statistics \<Rightarrow> int \<Rightarrow> projection_index \<Rightarrow> projection_index" where
  "adjust_counts t direction ix = ix
     \<lparr>ix_outcomes := adjust_counter (ts_outcome t) direction (ix_outcomes ix),
      ix_workspaces := adjust_optional (ts_workspace_digest t) direction (ix_workspaces ix),
      ix_models := adjust_optional (ts_model t) direction (ix_models ix),
      ix_reasoning_efforts := adjust_optional (ts_reasoning_effort t) direction (ix_reasoning_efforts ix),
      ix_local_hours := adjust_optional (ts_local_start_hour t) direction (ix_local_hours ix),
      ix_hands_on := ix_hands_on ix + direction * of_flag (ts_hands_on t),
      ix_failed_command_turns := ix_failed_command_turns ix + direction * of_flag (has_failed_command t),
      ix_recovered_turns := ix_recovered_turns ix + direction * of_flag (ts_completed_after_nonzero_command t),
      ix_edited_turns := ix_edited_turns ix + direction * of_flag (ts_file_change_operations_count t > 0),
      ix_verified_after_edit := ix_verified_after_edit ix + direction * of_flag (ts_edited_then_verified t),
      ix_web_turns := ix_web_turns ix + direction * of_flag (ts_web_operations_count t > 0),
      ix_web_follow_through := ix_web_follow_through ix + direction * of_flag (ts_web_follow_through t)\<rparr>"

definition adjust_turn :: "turn_statistics \<Rightarrow> int \<Rightarrow> projection_index \<Rightarrow> index_error + projection_index" where
  "adjust_turn t direction ix0 =
     (let ix = adjust_counts t direction ix0 in
      bind_index (adjust_distribution (completed_value ts_duration_ms t) direction (ix_completed_durations ix)) (\<lambda>d1.
      bind_index (adjust_distribution (completed_value ts_time_to_first_token_ms t) direction (ix_ttfts ix)) (\<lambda>d2.
      bind_index (adjust_distribution (Some (ts_total_tokens t)) direction (ix_turn_tokens ix)) (\<lambda>d3.
      bind_index (adjust_distribution (Some (ts_commands_executed_count t)) direction (ix_commands_per_turn ix)) (\<lambda>d4.
      bind_index (adjust_distribution (Some (ts_model_tool_requests_count t)) direction (ix_tools_per_turn ix)) (\<lambda>d5.
      bind_index (adjust_distribution (Some (ts_file_change_distinct_paths_count t)) direction (ix_files_per_turn ix)) (\<lambda>d6.
      Inr (ix\<lparr>ix_completed_durations := d1, ix_ttfts := d2, ix_turn_tokens := d3, ix_commands_per_turn := d4,
        ix_tools_per_turn := d5, ix_files_per_turn := d6\<rparr>))))))))"

definition statistics_key :: "turn_statistics \<Rightarrow> turn_key" where
  "statistics_key t = (ts_thread_id t, ts_turn_id t)"

definition replace_turn :: "turn_statistics \<Rightarrow> projection_index \<Rightarrow> index_error + projection_index" where
  "replace_turn t ix =
     bind_index (case dict_get (ix_turns ix) (statistics_key t) of None \<Rightarrow> Inr ix | Some previous \<Rightarrow> adjust_turn previous (- 1) ix) (\<lambda>ix1.
     adjust_turn t 1 (ix1\<lparr>ix_turns := dict_set (statistics_key t) t (ix_turns ix1)\<rparr>))"

fun replace_turns :: "turn_statistics list \<Rightarrow> projection_index \<Rightarrow> index_error + projection_index" where
  "replace_turns [] ix = Inr ix"
| "replace_turns (t # ts) ix = bind_index (replace_turn t ix) (replace_turns ts)"

subsection \<open>A new index\<close>

text \<open>\<^verbatim>\<open>_OrderStatisticMultiset(values)\<close>, \<^verbatim>\<open>Counter(values)\<close> and \<^verbatim>\<open>max(values, default=0.0)\<close>.\<close>

fun order_of :: "int list \<Rightarrow> order_node \<Rightarrow> index_error + order_node" where
  "order_of [] d = Inr d"
| "order_of (v # vs) d = bind_index (lift_order (order_insert d v)) (order_of vs)"

definition increment :: "'k \<Rightarrow> ('k, int) dict \<Rightarrow> ('k, int) dict" where
  "increment k c = dict_set k (counter_get c k + 1) c"

definition high_water :: "rat list \<Rightarrow> rat" where
  "high_water rs = (if rs = [] then 0 else Max (set rs))"

definition repeat_contribution :: "int \<Rightarrow> int" where
  "repeat_contribution n = (if n > 1 then n else 0)"

definition revisited :: "int \<Rightarrow> int" where
  "revisited n = of_flag (n \<ge> 2)"

definition weigh :: "(int \<Rightarrow> int) \<Rightarrow> ('k, int) dict \<Rightarrow> int" where
  "weigh w d = sum_list (map (\<lambda>(k, v). w v) d)"

definition blank_index :: "'t analyzer \<Rightarrow> order_node \<Rightarrow> projection_index" where
  "blank_index a durations =
       \<lparr>ix_turns = [], ix_outcomes = [], ix_workspaces = [], ix_models = [], ix_reasoning_efforts = [], ix_local_hours = [],
        ix_hands_on = 0, ix_failed_command_turns = 0, ix_recovered_turns = 0, ix_edited_turns = 0, ix_verified_after_edit = 0,
        ix_web_turns = 0, ix_web_follow_through = 0, ix_completed_durations = NoNode, ix_ttfts = NoNode,
        ix_turn_tokens = NoNode, ix_commands_per_turn = NoNode, ix_tools_per_turn = NoNode, ix_files_per_turn = NoNode,
        ix_command_durations = durations, ix_command_duration_count = length (an_command_durations_ms a),
        ix_context_observation_count = length (an_context_observations a),
        ix_context_high_water = high_water (an_context_observations a),
        ix_command_hash_counts = an_command_hashes a, ix_repeated_commands = weigh repeat_contribution (an_command_hashes a),
        ix_path_counts = an_path_operation_counts a, ix_revisited_paths = weigh revisited (an_path_operation_counts a),
        ix_tool_requests = an_tool_requests a, ix_tool_names = fold increment (map snd (an_tool_requests a)) [],
        ix_paired_tool_keys = filter (\<lambda>k. k \<in> set (an_tool_outputs a)) (dict_keys (an_tool_requests a))\<rparr>"

definition new_index :: "'t analyzer \<Rightarrow> turn_statistics list \<Rightarrow> index_error + projection_index" where
  "new_index a turns =
     bind_index (order_of (an_command_durations_ms a) NoNode) (\<lambda>d. replace_turns turns (blank_index a d))"

subsection \<open>Refreshing the index\<close>

fun refresh_turns :: "('t \<Rightarrow> turn_statistics option) \<Rightarrow> 't analyzer \<Rightarrow> turn_key list \<Rightarrow> projection_index \<Rightarrow> turn_statistics list
    \<Rightarrow> index_error + (projection_index \<times> turn_statistics list)" where
  "refresh_turns report a [] ix changed = Inr (ix, changed)"
| "refresh_turns report a (k # ks) ix changed =
     (case dict_get (an_turns a) k of
        None \<Rightarrow> refresh_turns report a ks ix changed
      | Some turn \<Rightarrow>
          (case report turn of
             None \<Rightarrow> Inl IndexReport
           | Some parsed \<Rightarrow>
               bind_index (replace_turn parsed ix) (\<lambda>ix'. refresh_turns report a ks ix' (changed @ [parsed]))))"

definition refresh_durations :: "'t analyzer \<Rightarrow> projection_index \<Rightarrow> index_error + projection_index" where
  "refresh_durations a ix =
     bind_index (order_of (drop (ix_command_duration_count ix) (an_command_durations_ms a)) (ix_command_durations ix)) (\<lambda>d.
     Inr (ix\<lparr>ix_command_durations := d, ix_command_duration_count := length (an_command_durations_ms a),
       ix_context_high_water := foldl max (ix_context_high_water ix) (drop (ix_context_observation_count ix) (an_context_observations a)),
       ix_context_observation_count := length (an_context_observations a)\<rparr>))"

text \<open>One table of counts with a weight that is kept up to date at the touched keys.\<close>

fun refresh_counts :: "(int \<Rightarrow> int) \<Rightarrow> (pystr, int) dict \<Rightarrow> pystr list \<Rightarrow> (pystr, int) dict \<times> int
    \<Rightarrow> index_error + ((pystr, int) dict \<times> int)" where
  "refresh_counts w source [] p = Inr p"
| "refresh_counts w source (k # ks) (counts, n) =
     (case dict_get source k of
        None \<Rightarrow> Inl IndexKeyError
      | Some current \<Rightarrow>
          refresh_counts w source ks (dict_set k current counts, n + (w current - w (counter_get counts k))))"

definition refresh_tool :: "'t analyzer \<Rightarrow> turn_key \<Rightarrow> projection_index \<Rightarrow> projection_index" where
  "refresh_tool a k ix0 =
     (let ix = (case (dict_get (ix_tool_requests ix0) k, dict_get (an_tool_requests a) k) of
                  (None, Some name) \<Rightarrow>
                    ix0\<lparr>ix_tool_requests := dict_set k name (ix_tool_requests ix0), ix_tool_names := increment name (ix_tool_names ix0)\<rparr>
                | _ \<Rightarrow> ix0) in
      if k \<notin> set (ix_paired_tool_keys ix) \<and> dict_get (an_tool_requests a) k \<noteq> None \<and> k \<in> set (an_tool_outputs a)
      then ix\<lparr>ix_paired_tool_keys := ix_paired_tool_keys ix @ [k]\<rparr> else ix)"

definition changed_order :: "turn_statistics \<Rightarrow> pystr \<times> pystr \<times> pystr" where
  "changed_order t = (ts_thread_id t, (case ts_started_at t of None \<Rightarrow> [] | Some s \<Rightarrow> s), ts_turn_id t)"

definition refresh_index :: "('t \<Rightarrow> turn_statistics option) \<Rightarrow> 't analyzer \<Rightarrow> batch_touches \<Rightarrow> projection_index
    \<Rightarrow> index_error + (projection_index \<times> turn_statistics list)" where
  "refresh_index report a touches ix0 =
     bind_index (refresh_turns report a (touched_turn_keys touches) ix0 []) (\<lambda>(ix1, changed).
     bind_index (refresh_durations a ix1) (\<lambda>ix2.
     bind_index (refresh_counts repeat_contribution (an_command_hashes a) (touched_command_hashes touches)
                   (ix_command_hash_counts ix2, ix_repeated_commands ix2)) (\<lambda>(hashes, repeated).
     bind_index (refresh_counts revisited (an_path_operation_counts a) (touched_path_hashes touches)
                   (ix_path_counts ix2, ix_revisited_paths ix2)) (\<lambda>(paths, again).
     Inr (fold (refresh_tool a) (touched_tool_keys touches)
            (ix2\<lparr>ix_command_hash_counts := hashes, ix_repeated_commands := repeated, ix_path_counts := paths, ix_revisited_paths := again\<rparr>),
          sort_key changed_order changed)))))"

subsection \<open>The projected statistics\<close>

text \<open>\<^verbatim>\<open>round(x, 1)\<close> on exact rationals: to tenths, ties to even.\<close>

definition round1 :: "rat \<Rightarrow> rat" where
  "round1 x =
     (let y = 10 * x; f = \<lfloor>y\<rfloor>; r = y - of_int f in
      of_int (if r < 1 / 2 then f else if r > 1 / 2 then f + 1 else if even f then f else f + 1) / 10)"

definition rate :: "int \<Rightarrow> int \<Rightarrow> rat option" where
  "rate numerator denominator =
     (if denominator = 0 then None else Some (round1 (of_int numerator / of_int denominator * 100)))"

definition table_dict :: "count_table \<Rightarrow> (pystr, int) dict" where
  "table_dict t = (case t of CounterTable c \<Rightarrow> c | PlainTable c \<Rightarrow> c)"

definition named_count_projections :: "pystr \<Rightarrow> count_table \<Rightarrow> bool \<Rightarrow> named_count list" where
  "named_count_projections kind t use_most_common =
     (let items = (case (use_most_common, t) of
                     (True, CounterTable c) \<Rightarrow> sort_key (\<lambda>(k, v). - v) c
                   | _ \<Rightarrow> sort_key fst (table_dict t)) in
      map (\<lambda>(k, v). \<lparr>nc_kind = kind, nc_name = k, nc_occurrences = v\<rparr>) (filter (\<lambda>(k, v). v > 0) items))"

definition index_named_counts :: "'t analyzer \<Rightarrow> projection_index \<Rightarrow> named_count list" where
  "index_named_counts a ix = concat (map (\<lambda>(kind, t, b). named_count_projections kind t b)
     [(lit ''command_exit_status'', an_command_statuses a, False),
      (lit ''command_family'', an_command_families a, True),
      (lit ''model_tool'', CounterTable (ix_tool_names ix), True),
      (lit ''file_change_type'', an_file_change_types a, False),
      (lit ''web_action'', an_web_action_types a, False),
      (lit ''collaboration_tool'', an_collaboration_tools a, True),
      (lit ''model'', CounterTable (ix_models ix), True),
      (lit ''reasoning_effort'', CounterTable (ix_reasoning_efforts ix), True),
      (lit ''goal_status'', an_goal_statuses a, False)])"

fun distributions_of :: "(pystr \<times> order_node) list \<Rightarrow> index_error + distribution list" where
  "distributions_of [] = Inr []"
| "distributions_of ((kind, d) # ds) =
     bind_index (lift_order (distribution_of kind d)) (\<lambda>x. bind_index (distributions_of ds) (\<lambda>xs. Inr (x # xs)))"

definition index_distributions :: "projection_index \<Rightarrow> index_error + distribution list" where
  "index_distributions ix = distributions_of
     [(lit ''completed_turn_duration_ms'', ix_completed_durations ix), (lit ''time_to_first_token_ms'', ix_ttfts ix),
      (lit ''per_turn_total_tokens'', ix_turn_tokens ix), (lit ''command_duration_ms'', ix_command_durations ix),
      (lit ''commands_per_turn'', ix_commands_per_turn ix), (lit ''tool_requests_per_turn'', ix_tools_per_turn ix),
      (lit ''files_per_turn'', ix_files_per_turn ix)]"

definition busiest :: "('k, int) dict \<Rightarrow> int" where
  "busiest c = (if c = [] then 0 else Max (set (map snd c)))"

definition busiest_hour :: "(int, int) dict \<Rightarrow> int option" where
  "busiest_hour c = (case sort_key (\<lambda>(k, v). - v) c of [] \<Rightarrow> None | (h, v) # _ \<Rightarrow> Some h)"

record session_counts =
  sp_turns_started :: nat
  sp_turns_completed :: int
  sp_turns_aborted :: int
  sp_turns_open :: int
  sp_context_observations :: nat
  sp_context_high_water_percent :: rat
  sp_tool_outputs_paired :: nat
  sp_distinct_workspaces :: nat
  sp_hands_on :: int
  sp_nonzero_command_turns :: int
  sp_subsequently_completed :: int
  sp_repeated_commands :: int
  sp_edited_turns :: int
  sp_verified_after_edit :: int
  sp_web_turns :: int
  sp_web_follow_through :: int
  sp_revisited_paths :: int
  sp_workspace_turns :: int
  sp_busiest_workspace :: int
  sp_local_hour_turns :: int
  sp_busiest_hour_turns :: int

record session_rates =
  sr_hands_on :: "rat option"
  sr_completed_after_nonzero :: "rat option"
  sr_command_zero_exit :: "rat option"
  sr_command_repeat :: "rat option"
  sr_cached_input :: "rat option"
  sr_reasoning_output :: "rat option"
  sr_edit_then_verify :: "rat option"
  sr_web_follow_through :: "rat option"
  sr_file_revisit :: "rat option"
  sr_busiest_workspace :: "rat option"

definition index_counts :: "'t analyzer \<Rightarrow> projection_index \<Rightarrow> session_counts" where
  "index_counts a ix =
     \<lparr>sp_turns_started = length (ix_turns ix), sp_turns_completed = counter_get (ix_outcomes ix) (lit ''completed''),
      sp_turns_aborted = counter_get (ix_outcomes ix) (lit ''aborted''), sp_turns_open = counter_get (ix_outcomes ix) (lit ''open''),
      sp_context_observations = length (an_context_observations a),
      sp_context_high_water_percent = round1 (ix_context_high_water ix * 100),
      sp_tool_outputs_paired = length (ix_paired_tool_keys ix), sp_distinct_workspaces = length (ix_workspaces ix),
      sp_hands_on = ix_hands_on ix, sp_nonzero_command_turns = ix_failed_command_turns ix,
      sp_subsequently_completed = ix_recovered_turns ix, sp_repeated_commands = ix_repeated_commands ix,
      sp_edited_turns = ix_edited_turns ix, sp_verified_after_edit = ix_verified_after_edit ix,
      sp_web_turns = ix_web_turns ix, sp_web_follow_through = ix_web_follow_through ix,
      sp_revisited_paths = ix_revisited_paths ix, sp_workspace_turns = weigh id (ix_workspaces ix),
      sp_busiest_workspace = busiest (ix_workspaces ix), sp_local_hour_turns = weigh id (ix_local_hours ix),
      sp_busiest_hour_turns = busiest (ix_local_hours ix)\<rparr>"

definition index_rates :: "'t analyzer \<Rightarrow> projection_index \<Rightarrow> session_rates" where
  "index_rates a ix =
     (let zero = counter_get (table_dict (an_command_statuses a)) (lit ''zero_exit'');
          nonzero = counter_get (table_dict (an_command_statuses a)) (lit ''nonzero_exit'') in
      \<lparr>sr_hands_on = rate (ix_hands_on ix) (int (length (ix_turns ix))),
       sr_completed_after_nonzero = rate (ix_recovered_turns ix) (ix_failed_command_turns ix),
       sr_command_zero_exit = rate zero (zero + nonzero),
       sr_command_repeat = rate (ix_repeated_commands ix) (int (an_commands a)),
       sr_cached_input = rate (an_cached_input_tokens a) (an_input_tokens a),
       sr_reasoning_output = rate (an_reasoning_output_tokens a) (an_output_tokens a),
       sr_edit_then_verify = rate (ix_verified_after_edit ix) (ix_edited_turns ix),
       sr_web_follow_through = rate (ix_web_follow_through ix) (ix_web_turns ix),
       sr_file_revisit = rate (ix_revisited_paths ix) (int (length (an_path_operation_counts a))),
       sr_busiest_workspace = rate (busiest (ix_workspaces ix)) (weigh id (ix_workspaces ix))\<rparr>)"

subsection \<open>What the aggregates mean\<close>

text \<open>A counter counts, for each key, the turns that have it, and has no entry for a key without turns. A
  distribution holds the values of the turns that have one.\<close>

definition counted :: "'a multiset \<Rightarrow> ('a \<Rightarrow> 'k option) \<Rightarrow> ('k, int) dict \<Rightarrow> bool" where
  "counted M f c \<longleftrightarrow> distinct (dict_keys c) \<and>
     (\<forall>k. dict_get c k =
        (if size (filter_mset (\<lambda>t. f t = Some k) M) = 0 then None else Some (int (size (filter_mset (\<lambda>t. f t = Some k) M)))))"

definition flagged :: "turn_statistics multiset \<Rightarrow> (turn_statistics \<Rightarrow> bool) \<Rightarrow> int" where
  "flagged M f = int (size (filter_mset f M))"

definition spread :: "turn_statistics multiset \<Rightarrow> (turn_statistics \<Rightarrow> int option) \<Rightarrow> order_node \<Rightarrow> bool" where
  "spread M f d \<longleftrightarrow> order_inv d \<and> mset (vals d) = image_mset (the \<circ> f) (filter_mset (\<lambda>t. f t \<noteq> None) M)"

definition aggregates :: "turn_statistics multiset \<Rightarrow> projection_index \<Rightarrow> bool" where
  "aggregates M ix \<longleftrightarrow>
     counted M (Some \<circ> ts_outcome) (ix_outcomes ix) \<and> counted M ts_workspace_digest (ix_workspaces ix) \<and>
     counted M ts_model (ix_models ix) \<and> counted M ts_reasoning_effort (ix_reasoning_efforts ix) \<and>
     counted M ts_local_start_hour (ix_local_hours ix) \<and>
     ix_hands_on ix = flagged M ts_hands_on \<and> ix_failed_command_turns ix = flagged M has_failed_command \<and>
     ix_recovered_turns ix = flagged M ts_completed_after_nonzero_command \<and>
     ix_edited_turns ix = flagged M (\<lambda>t. ts_file_change_operations_count t > 0) \<and>
     ix_verified_after_edit ix = flagged M ts_edited_then_verified \<and>
     ix_web_turns ix = flagged M (\<lambda>t. ts_web_operations_count t > 0) \<and>
     ix_web_follow_through ix = flagged M ts_web_follow_through \<and>
     spread M (completed_value ts_duration_ms) (ix_completed_durations ix) \<and>
     spread M (completed_value ts_time_to_first_token_ms) (ix_ttfts ix) \<and>
     spread M (Some \<circ> ts_total_tokens) (ix_turn_tokens ix) \<and>
     spread M (Some \<circ> ts_commands_executed_count) (ix_commands_per_turn ix) \<and>
     spread M (Some \<circ> ts_model_tool_requests_count) (ix_tools_per_turn ix) \<and>
     spread M (Some \<circ> ts_file_change_distinct_paths_count) (ix_files_per_turn ix)"

lemma counted_get: "counted M f c \<Longrightarrow> counter_get c k = int (size (filter_mset (\<lambda>t. f t = Some k) M))"
  by (auto simp: counted_def counter_get_def)

lemma counted_add:
  assumes "counted M f c"
  shows "counted (add_mset t M) f (adjust_optional (f t) 1 c)"
proof (cases "f t")
  case None
  with assms show ?thesis by (simp add: counted_def adjust_optional_def)
next
  case (Some k)
  have g: "counter_get c k + 1 = int (size (filter_mset (\<lambda>u. f u = Some k) (add_mset t M)))"
    using counted_get [OF assms, of k] Some by simp
  then have "adjust_counter k 1 c = dict_set k (int (size (filter_mset (\<lambda>u. f u = Some k) (add_mset t M)))) c"
    unfolding adjust_counter_def Let_def g using Some by simp
  with assms Some show ?thesis by (auto simp: counted_def adjust_optional_def)
qed

lemma counted_remove:
  assumes "counted (add_mset t M) f c"
  shows "counted M f (adjust_optional (f t) (- 1) c)"
proof (cases "f t")
  case None
  with assms show ?thesis by (simp add: counted_def adjust_optional_def)
next
  case (Some k)
  have g: "counter_get c k + - 1 = int (size (filter_mset (\<lambda>u. f u = Some k) M))"
    using counted_get [OF assms, of k] Some by simp
  show ?thesis
    unfolding adjust_optional_def Some option.case adjust_counter_def Let_def g
    using assms Some by (auto simp: counted_def)
qed

lemma flagged_add: "flagged (add_mset t M) f = flagged M f + of_flag (f t)"
  by (simp add: flagged_def of_flag_def)

lemma lift_order_Inr [simp]: "lift_order (Inr x) = Inr x"
  by (simp add: lift_order_def)

lemma spread_add:
  assumes "spread M f d"
  shows "\<exists>d'. adjust_distribution (f t) 1 d = Inr d' \<and> spread (add_mset t M) f d'"
proof (cases "f t")
  case None
  with assms show ?thesis by (auto simp: adjust_distribution_def spread_def)
next
  case (Some v)
  obtain d' where "order_insert d v = Inr d'" "order_inv d'" "mset (vals d') = add_mset v (mset (vals d))"
    using assms treap.add_ok [of d v] unfolding spread_def by blast
  with assms Some show ?thesis by (auto simp: adjust_distribution_def spread_def)
qed

lemma spread_remove:
  assumes "spread (add_mset t M) f d"
  shows "\<exists>d'. adjust_distribution (f t) (- 1) d = Inr d' \<and> spread M f d'"
proof (cases "f t")
  case None
  with assms show ?thesis by (auto simp: adjust_distribution_def spread_def)
next
  case (Some v)
  have "v \<in># mset (vals d)" "order_inv d" using assms Some unfolding spread_def by auto
  then obtain d' where "order_remove d v = Inr d'" "order_inv d'" "mset (vals d') = mset (vals d) - {#v#}"
    using treap.discard_ok [of d v] by blast
  with assms Some show ?thesis by (auto simp: adjust_distribution_def spread_def)
qed

lemma bind_index_Inr [simp]: "bind_index (Inr x) f = f x"
  by (simp add: bind_index_def)

text \<open>The fields that the turns do not touch.\<close>

definition ledger :: "projection_index \<Rightarrow> _" where
  "ledger ix = (ix_turns ix, ix_command_durations ix, ix_command_duration_count ix, ix_context_observation_count ix,
     ix_context_high_water ix, ix_command_hash_counts ix, ix_repeated_commands ix, ix_path_counts ix,
     ix_revisited_paths ix, ix_tool_requests ix, ix_tool_names ix, ix_paired_tool_keys ix)"

lemma adjust_turn_add:
  assumes "aggregates M ix"
  shows "\<exists>ix'. adjust_turn t 1 ix = Inr ix' \<and> aggregates (add_mset t M) ix' \<and> ledger ix' = ledger ix"
proof -
  note a = assms [unfolded aggregates_def]
  obtain d1 where d1: "adjust_distribution (completed_value ts_duration_ms t) 1 (ix_completed_durations ix) = Inr d1"
      "spread (add_mset t M) (completed_value ts_duration_ms) d1" using spread_add a by blast
  obtain d2 where d2: "adjust_distribution (completed_value ts_time_to_first_token_ms t) 1 (ix_ttfts ix) = Inr d2"
      "spread (add_mset t M) (completed_value ts_time_to_first_token_ms) d2" using spread_add a by blast
  have s: "\<exists>d'. adjust_distribution (Some (g t)) 1 d = Inr d' \<and> spread (add_mset t M) (Some \<circ> g) d'"
    if "spread M (Some \<circ> g) d" for g d using spread_add [OF that, of t] by simp
  obtain d3 where d3: "adjust_distribution (Some (ts_total_tokens t)) 1 (ix_turn_tokens ix) = Inr d3"
      "spread (add_mset t M) (Some \<circ> ts_total_tokens) d3" using s a by blast
  obtain d4 where d4: "adjust_distribution (Some (ts_commands_executed_count t)) 1 (ix_commands_per_turn ix) = Inr d4"
      "spread (add_mset t M) (Some \<circ> ts_commands_executed_count) d4" using s a by blast
  obtain d5 where d5: "adjust_distribution (Some (ts_model_tool_requests_count t)) 1 (ix_tools_per_turn ix) = Inr d5"
      "spread (add_mset t M) (Some \<circ> ts_model_tool_requests_count) d5" using s a by blast
  obtain d6 where d6: "adjust_distribution (Some (ts_file_change_distinct_paths_count t)) 1 (ix_files_per_turn ix) = Inr d6"
      "spread (add_mset t M) (Some \<circ> ts_file_change_distinct_paths_count) d6" using s a by blast
  have o: "counted (add_mset t M) (Some \<circ> ts_outcome) (adjust_counter (ts_outcome t) 1 (ix_outcomes ix))"
    using counted_add [of M "Some \<circ> ts_outcome" "ix_outcomes ix" t] a by (simp add: adjust_optional_def)
  show ?thesis
    unfolding adjust_turn_def adjust_counts_def Let_def aggregates_def
    using a d1 d2 d3 d4 d5 d6 o by (simp add: counted_add flagged_add ledger_def)
qed

lemma adjust_turn_remove:
  assumes "aggregates (add_mset t M) ix"
  shows "\<exists>ix'. adjust_turn t (- 1) ix = Inr ix' \<and> aggregates M ix' \<and> ledger ix' = ledger ix"
proof -
  note a = assms [unfolded aggregates_def]
  obtain d1 where d1: "adjust_distribution (completed_value ts_duration_ms t) (- 1) (ix_completed_durations ix) = Inr d1"
      "spread M (completed_value ts_duration_ms) d1" using spread_remove a by blast
  obtain d2 where d2: "adjust_distribution (completed_value ts_time_to_first_token_ms t) (- 1) (ix_ttfts ix) = Inr d2"
      "spread M (completed_value ts_time_to_first_token_ms) d2" using spread_remove a by blast
  have s: "\<exists>d'. adjust_distribution (Some (g t)) (- 1) d = Inr d' \<and> spread M (Some \<circ> g) d'"
    if "spread (add_mset t M) (Some \<circ> g) d" for g d using spread_remove [OF that] by simp
  obtain d3 where d3: "adjust_distribution (Some (ts_total_tokens t)) (- 1) (ix_turn_tokens ix) = Inr d3"
      "spread M (Some \<circ> ts_total_tokens) d3" using s a by blast
  obtain d4 where d4: "adjust_distribution (Some (ts_commands_executed_count t)) (- 1) (ix_commands_per_turn ix) = Inr d4"
      "spread M (Some \<circ> ts_commands_executed_count) d4" using s a by blast
  obtain d5 where d5: "adjust_distribution (Some (ts_model_tool_requests_count t)) (- 1) (ix_tools_per_turn ix) = Inr d5"
      "spread M (Some \<circ> ts_model_tool_requests_count) d5" using s a by blast
  obtain d6 where d6: "adjust_distribution (Some (ts_file_change_distinct_paths_count t)) (- 1) (ix_files_per_turn ix) = Inr d6"
      "spread M (Some \<circ> ts_file_change_distinct_paths_count) d6" using s a by blast
  have o: "counted M (Some \<circ> ts_outcome) (adjust_counter (ts_outcome t) (- 1) (ix_outcomes ix))"
    using counted_remove [of t M "Some \<circ> ts_outcome" "ix_outcomes ix"] a by (simp add: adjust_optional_def)
  show ?thesis
    unfolding adjust_turn_def adjust_counts_def Let_def aggregates_def
    using a d1 d2 d3 d4 d5 d6 o by (simp add: counted_remove flagged_add ledger_def)
qed

subsection \<open>Replacing turns\<close>

definition current_turns :: "projection_index \<Rightarrow> turn_statistics multiset" where
  "current_turns ix = mset (map snd (ix_turns ix))"

definition turns_ok :: "projection_index \<Rightarrow> bool" where
  "turns_ok ix \<longleftrightarrow> distinct (dict_keys (ix_turns ix)) \<and> aggregates (current_turns ix) ix"

lemma mset_dict_set_fresh: "k \<notin> set (dict_keys d) \<Longrightarrow> mset (map snd (dict_set k v d)) = add_mset v (mset (map snd d))"
  by (simp add: dict_set_fresh)

lemma mset_dict_set_present:
  "dict_get d k = Some w \<Longrightarrow> \<exists>R. mset (map snd d) = add_mset w R \<and> mset (map snd (dict_set k v d)) = add_mset v R"
proof (induction k v d rule: dict_set.induct)
  case (2 k v k' v' d)
  then show ?case by (fastforce simp: add_mset_commute)
qed simp

lemma aggregates_turns [simp]: "aggregates M (ix\<lparr>ix_turns := ts\<rparr>) = aggregates M ix"
  by (simp add: aggregates_def)

definition ledger_rest :: "projection_index \<Rightarrow> _" where
  "ledger_rest ix = snd (ledger ix)"

lemma replace_turn_ok:
  assumes "turns_ok ix"
  shows "\<exists>ix'. replace_turn t ix = Inr ix' \<and> turns_ok ix' \<and> ix_turns ix' = dict_set (statistics_key t) t (ix_turns ix) \<and>
    ledger_rest ix' = ledger_rest ix"
proof -
  let ?k = "statistics_key t"
  let ?ts = "dict_set ?k t (ix_turns ix)"
  have "\<exists>R ix1. (case dict_get (ix_turns ix) ?k of None \<Rightarrow> Inr ix | Some p \<Rightarrow> adjust_turn p (- 1) ix) = Inr ix1 \<and>
      aggregates R ix1 \<and> ledger ix1 = ledger ix \<and> mset (map snd ?ts) = add_mset t R"
  proof (cases "dict_get (ix_turns ix) ?k")
    case None
    then have "?k \<notin> set (dict_keys (ix_turns ix))" by (simp add: map_of_eq_None_iff)
    with assms None mset_dict_set_fresh [of ?k "ix_turns ix" t] show ?thesis
      by (auto simp: turns_ok_def current_turns_def simp del: mset_map)
  next
    case (Some p)
    then obtain R where R: "mset (map snd (ix_turns ix)) = add_mset p R" "mset (map snd ?ts) = add_mset t R"
      using mset_dict_set_present by metis
    then have "aggregates (add_mset p R) ix" using assms by (simp only: turns_ok_def current_turns_def)
    from adjust_turn_remove [OF this] Some R(2) show ?thesis by auto
  qed
  then obtain R ix1 where c: "(case dict_get (ix_turns ix) ?k of None \<Rightarrow> Inr ix | Some p \<Rightarrow> adjust_turn p (- 1) ix) = Inr ix1"
    and r: "aggregates R ix1" "ledger ix1 = ledger ix" "mset (map snd ?ts) = add_mset t R" by blast
  have "ix_turns ix1 = ix_turns ix" using r(2) by (simp add: ledger_def)
  moreover obtain ix2 where "adjust_turn t 1 (ix1\<lparr>ix_turns := ?ts\<rparr>) = Inr ix2" "aggregates (add_mset t R) ix2"
    "ledger ix2 = ledger (ix1\<lparr>ix_turns := ?ts\<rparr>)"
    using adjust_turn_add [of R "ix1\<lparr>ix_turns := ?ts\<rparr>" t] r(1) by auto
  ultimately show ?thesis
    using c r assms unfolding replace_turn_def
    by (auto simp: turns_ok_def current_turns_def ledger_def ledger_rest_def simp del: mset_map)
qed

lemma empty_aggregates:
  assumes "ix_turns ix = []" "ix_outcomes ix = []" "ix_workspaces ix = []" "ix_models ix = []" "ix_reasoning_efforts ix = []"
    "ix_local_hours ix = []" "ix_hands_on ix = 0" "ix_failed_command_turns ix = 0" "ix_recovered_turns ix = 0"
    "ix_edited_turns ix = 0" "ix_verified_after_edit ix = 0" "ix_web_turns ix = 0" "ix_web_follow_through ix = 0"
    "ix_completed_durations ix = NoNode" "ix_ttfts ix = NoNode" "ix_turn_tokens ix = NoNode" "ix_commands_per_turn ix = NoNode"
    "ix_tools_per_turn ix = NoNode" "ix_files_per_turn ix = NoNode"
  shows "turns_ok ix"
  using assms by (simp add: turns_ok_def current_turns_def aggregates_def counted_def flagged_def spread_def)

fun set_turns :: "turn_statistics list \<Rightarrow> (turn_key, turn_statistics) dict \<Rightarrow> (turn_key, turn_statistics) dict" where
  "set_turns [] d = d"
| "set_turns (t # ts) d = set_turns ts (dict_set (statistics_key t) t d)"

lemma replace_turns_ok:
  "turns_ok ix \<Longrightarrow> \<exists>ix'. replace_turns ts ix = Inr ix' \<and> turns_ok ix' \<and> ix_turns ix' = set_turns ts (ix_turns ix) \<and>
    ledger_rest ix' = ledger_rest ix"
proof (induction ts arbitrary: ix)
  case (Cons t ts)
  obtain ix1 where "replace_turn t ix = Inr ix1" "turns_ok ix1"
    "ix_turns ix1 = dict_set (statistics_key t) t (ix_turns ix)" "ledger_rest ix1 = ledger_rest ix"
    using replace_turn_ok [OF Cons.prems] by blast
  with Cons.IH [of ix1] show ?case by auto
qed simp

subsection \<open>Ledgers\<close>

lemma order_of_ok:
  "order_inv d \<Longrightarrow> \<exists>d'. order_of vs d = Inr d' \<and> order_inv d' \<and> mset (vals d') = mset (vals d) + mset vs"
proof (induction vs arbitrary: d)
  case (Cons v vs)
  obtain d1 where "order_insert d v = Inr d1" "order_inv d1" "mset (vals d1) = add_mset v (mset (vals d))"
    using treap.add_ok [OF Cons.prems] by blast
  with Cons.IH [of d1] show ?case by auto
qed simp

lemma weigh_fresh: "k \<notin> fst ` set d \<Longrightarrow> weigh w (dict_set k v d) = weigh w d + w v"
  by (simp add: weigh_def dict_set_fresh)

lemma weigh_present: "dict_get d k = Some u \<Longrightarrow> weigh w (dict_set k v d) = weigh w d + (w v - w u)"
  by (induction k v d rule: dict_set.induct) (auto simp: weigh_def)

lemma weigh_dict_set: "w 0 = 0 \<Longrightarrow> weigh w (dict_set k v d) = weigh w d + (w v - w (counter_get d k))"
proof (cases "dict_get d k")
  case None
  moreover assume "w 0 = 0"
  ultimately show ?thesis using weigh_fresh [of k d w v] unfolding map_of_eq_None_iff [symmetric] by (simp add: counter_get_def)
next
  case (Some u)
  then show ?thesis by (simp add: counter_get_def weigh_present)
qed

lemma same_dict_mset:
  assumes "distinct (dict_keys d)" "distinct (dict_keys e)" "dict_get d = dict_get e"
  shows "mset d = mset e"
proof -
  have "set d = set e" using assms by (metis map_of_inject_set)
  then show ?thesis using assms(1,2) by (metis distinct_map set_eq_iff_mset_eq_distinct)
qed

lemma weigh_mset: "weigh w d = sum_mset (image_mset (\<lambda>(k, v). w v) (mset d))"
  by (simp add: weigh_def flip: sum_mset_sum_list)

text \<open>A table of counts that agrees with the source outside the keys still to be visited.\<close>

lemma refresh_counts_ok:
  assumes "w 0 = 0"
  shows "distinct (dict_keys c) \<Longrightarrow> n = weigh w c \<Longrightarrow> (\<forall>k. k \<notin> set ks \<longrightarrow> dict_get c k = dict_get source k) \<Longrightarrow>
    (\<forall>k \<in> set ks. dict_get source k \<noteq> None) \<Longrightarrow>
    \<exists>c'. refresh_counts w source ks (c, n) = Inr (c', weigh w c') \<and> distinct (dict_keys c') \<and> dict_get c' = dict_get source"
proof (induction ks arbitrary: c n)
  case (Cons k ks)
  then obtain v where v: "dict_get source k = Some v" by auto
  have "\<exists>c'. refresh_counts w source ks (dict_set k v c, n + (w v - w (counter_get c k))) = Inr (c', weigh w c') \<and>
      distinct (dict_keys c') \<and> dict_get c' = dict_get source"
    using Cons.prems v assms by (intro Cons.IH) (auto simp: weigh_dict_set)
  with v show ?case by simp
qed (auto simp: fun_eq_iff)

lemma increment_counted: "counted M Some c \<Longrightarrow> counted (add_mset x M) Some (increment x c)"
proof -
  assume c: "counted M Some c"
  have "counter_get c x + 1 \<noteq> 0" using counted_get [OF c, of x] by simp
  then have "increment x c = adjust_optional (Some x) 1 c"
    by (simp add: increment_def adjust_optional_def adjust_counter_def Let_def)
  with counted_add [OF c, of x] show ?thesis by simp
qed

lemma fold_increment_counted: "counted M Some c \<Longrightarrow> counted (M + mset xs) Some (fold increment xs c)"
proof (induction xs arbitrary: M c)
  case (Cons x xs)
  from Cons.IH [OF increment_counted [OF Cons.prems, of x]] show ?case by simp
qed simp

definition tools_ok :: "projection_index \<Rightarrow> bool" where
  "tools_ok ix \<longleftrightarrow> distinct (dict_keys (ix_tool_requests ix)) \<and> distinct (ix_paired_tool_keys ix) \<and>
     counted (mset (map snd (ix_tool_requests ix))) Some (ix_tool_names ix)"

definition ledgers :: "'t analyzer \<Rightarrow> projection_index \<Rightarrow> bool" where
  "ledgers a ix \<longleftrightarrow>
     order_inv (ix_command_durations ix) \<and> mset (vals (ix_command_durations ix)) = mset (an_command_durations_ms a) \<and>
     ix_command_duration_count ix = length (an_command_durations_ms a) \<and>
     ix_context_observation_count ix = length (an_context_observations a) \<and>
     ix_context_high_water ix = high_water (an_context_observations a) \<and>
     distinct (dict_keys (ix_command_hash_counts ix)) \<and> dict_get (ix_command_hash_counts ix) = dict_get (an_command_hashes a) \<and>
     ix_repeated_commands ix = weigh repeat_contribution (ix_command_hash_counts ix) \<and>
     distinct (dict_keys (ix_path_counts ix)) \<and> dict_get (ix_path_counts ix) = dict_get (an_path_operation_counts a) \<and>
     ix_revisited_paths ix = weigh revisited (ix_path_counts ix) \<and>
     tools_ok ix \<and> dict_get (ix_tool_requests ix) = dict_get (an_tool_requests a) \<and>
     set (ix_paired_tool_keys ix) = dom (dict_get (an_tool_requests a)) \<inter> set (an_tool_outputs a)"

text \<open>The index holds the report of every turn of the analyzer and its ledgers.\<close>

definition follows :: "('t \<Rightarrow> turn_statistics option) \<Rightarrow> 't analyzer \<Rightarrow> projection_index \<Rightarrow> bool" where
  "follows report a ix \<longleftrightarrow>
     turns_ok ix \<and> dict_get (ix_turns ix) = (\<lambda>k. Option.bind (dict_get (an_turns a) k) report) \<and> ledgers a ix"

definition well_kept :: "('t \<Rightarrow> turn_statistics option) \<Rightarrow> 't analyzer \<Rightarrow> bool" where
  "well_kept report a \<longleftrightarrow>
     distinct (dict_keys (an_turns a)) \<and> distinct (dict_keys (an_command_hashes a)) \<and>
     distinct (dict_keys (an_path_operation_counts a)) \<and> distinct (dict_keys (an_tool_requests a)) \<and>
     (\<forall>r \<in> set (an_context_observations a). 0 \<le> r) \<and>
     (\<forall>(k, turn) \<in> set (an_turns a). \<exists>t. report turn = Some t \<and> statistics_key t = k)"

definition all_reports :: "('t \<Rightarrow> turn_statistics option) \<Rightarrow> 't analyzer \<Rightarrow> turn_statistics list" where
  "all_reports report a = map (the \<circ> report \<circ> snd) (an_turns a)"

lemma set_turns_get:
  assumes "distinct (dict_keys ts)" "\<forall>(k, turn) \<in> set ts. \<exists>t. report turn = Some t \<and> statistics_key t = k"
  shows "dict_get (set_turns (map (the \<circ> report \<circ> snd) ts) d) k =
    (case dict_get ts k of None \<Rightarrow> dict_get d k | Some turn \<Rightarrow> report turn)"
  using assms
proof (induction ts arbitrary: d)
  case (Cons p ts)
  obtain k' turn where p: "p = (k', turn)" by (rule prod.exhaust)
  obtain t where t: "report turn = Some t" "statistics_key t = k'" using Cons.prems(2) p by auto
  have "dict_get ts k' = None" using Cons.prems(1) p by (simp add: map_of_eq_None_iff)
  with Cons.IH [of "dict_set k' t d"] Cons.prems p t show ?case by (auto split: option.splits)
qed simp

lemma new_index_follows:
  assumes "well_kept report a"
  shows "\<exists>ix. new_index a (all_reports report a) = Inr ix \<and> follows report a ix"
proof -
  obtain d where d: "order_of (an_command_durations_ms a) NoNode = Inr d" "order_inv d" "mset (vals d) = mset (an_command_durations_ms a)"
    using order_of_ok [of NoNode "an_command_durations_ms a"] by auto
  have c: "counted (mset (map snd (an_tool_requests a))) Some (fold increment (map snd (an_tool_requests a)) [])"
    using fold_increment_counted [of "{#}" "[]" "map snd (an_tool_requests a)"] by (simp add: counted_def)
  let ?ix0 = "blank_index a d"
  have l: "ledgers a ?ix0"
    using d c assms by (auto simp: blank_index_def ledgers_def tools_ok_def well_kept_def dom_map_of_conv_image_fst simp del: mset_map)
  have z: "ix_turns ?ix0 = []" by (simp add: blank_index_def)
  have "turns_ok ?ix0" by (rule empty_aggregates) (simp_all add: blank_index_def)
  then obtain ix where ix: "replace_turns (all_reports report a) ?ix0 = Inr ix" "turns_ok ix"
      "ix_turns ix = set_turns (all_reports report a) []" "ledger_rest ix = ledger_rest ?ix0"
    using replace_turns_ok [of ?ix0 "all_reports report a"] z by auto
  have "ledgers a ix" using ix(4) l by (simp add: ledgers_def tools_ok_def ledger_rest_def ledger_def)
  moreover have "dict_get (ix_turns ix) = (\<lambda>k. Option.bind (dict_get (an_turns a) k) report)"
    using set_turns_get [of "an_turns a" report "[]"] assms
    by (auto simp: ix(3) all_reports_def well_kept_def fun_eq_iff split: option.splits)
  ultimately have "follows report a ix" using ix(2) by (simp add: follows_def)
  then show ?thesis using d(1) ix(1) by (simp add: new_index_def)
qed

subsection \<open>Following a batch\<close>

text \<open>What a batch does to the analyzer, and that the touches name everything it changed. Durations and
  context observations are appended, a tool request keeps its name, and turns are not removed.\<close>

definition grew_by_touches :: "('k \<rightharpoonup> int) \<Rightarrow> ('k \<rightharpoonup> int) \<Rightarrow> 'k list \<Rightarrow> bool" where
  "grew_by_touches m n ks \<longleftrightarrow> (\<forall>k. k \<notin> set ks \<longrightarrow> n k = m k) \<and> (\<forall>k \<in> set ks. n k \<noteq> None)"

definition covers :: "('t \<Rightarrow> turn_statistics option) \<Rightarrow> 't analyzer \<Rightarrow> 't analyzer \<Rightarrow> batch_touches \<Rightarrow> bool" where
  "covers report a b touches \<longleftrightarrow>
     well_kept report b \<and>
     (\<exists>ds. an_command_durations_ms b = an_command_durations_ms a @ ds) \<and>
     (\<exists>rs. an_context_observations b = an_context_observations a @ rs) \<and>
     grew_by_touches (dict_get (an_command_hashes a)) (dict_get (an_command_hashes b)) (touched_command_hashes touches) \<and>
     grew_by_touches (dict_get (an_path_operation_counts a)) (dict_get (an_path_operation_counts b)) (touched_path_hashes touches) \<and>
     dict_get (an_tool_requests a) \<subseteq>\<^sub>m dict_get (an_tool_requests b) \<and>
     set (an_tool_outputs a) \<subseteq> set (an_tool_outputs b) \<and>
     (\<forall>k. k \<notin> set (touched_tool_keys touches) \<longrightarrow>
        dict_get (an_tool_requests b) k = dict_get (an_tool_requests a) k \<and> (k \<in> set (an_tool_outputs b) \<longleftrightarrow> k \<in> set (an_tool_outputs a))) \<and>
     dom (dict_get (an_turns a)) \<subseteq> dom (dict_get (an_turns b)) \<and>
     (\<forall>k. k \<notin> set (touched_turn_keys touches) \<longrightarrow>
        Option.bind (dict_get (an_turns b) k) report = Option.bind (dict_get (an_turns a) k) report)"

lemma high_water_append:
  assumes "\<forall>r \<in> set (xs @ ys). 0 \<le> r"
  shows "foldl max (high_water xs) ys = high_water (xs @ ys)"
  using assms
proof (induction ys arbitrary: xs)
  case (Cons y ys)
  have "max (high_water xs) y = high_water (xs @ [y])"
    using Cons.prems by (cases "xs = []") (simp_all add: high_water_def max.commute)
  then show ?case using Cons.IH [of "xs @ [y]"] Cons.prems by simp
qed simp

lemma refresh_turns_ok:
  assumes "well_kept report b"
  shows "turns_ok ix \<Longrightarrow>
    (\<forall>k. k \<notin> set ks \<or> dict_get (an_turns b) k = None \<longrightarrow> dict_get (ix_turns ix) k = Option.bind (dict_get (an_turns b) k) report) \<Longrightarrow>
    \<exists>ix'. refresh_turns report b ks ix changed = Inr (ix', changed @ List.map_filter (\<lambda>k. Option.bind (dict_get (an_turns b) k) report) ks) \<and>
      turns_ok ix' \<and> dict_get (ix_turns ix') = (\<lambda>k. Option.bind (dict_get (an_turns b) k) report) \<and> ledger_rest ix' = ledger_rest ix"
proof (induction ks arbitrary: ix changed)
  case Nil
  then show ?case by (auto simp: fun_eq_iff map_filter_simps)
next
  case (Cons k ks)
  show ?case
  proof (cases "dict_get (an_turns b) k")
    case None
    have "\<forall>k'. k' \<notin> set ks \<or> dict_get (an_turns b) k' = None \<longrightarrow> dict_get (ix_turns ix) k' = Option.bind (dict_get (an_turns b) k') report"
      using Cons.prems(2) None by (metis set_ConsD)
    from Cons.IH [OF Cons.prems(1) this] None show ?thesis by (simp add: map_filter_simps)
  next
    case (Some turn)
    then obtain t where t: "report turn = Some t" "statistics_key t = k"
      using assms map_of_SomeD [OF Some] by (auto simp: well_kept_def)
    obtain ix1 where ix1: "replace_turn t ix = Inr ix1" "turns_ok ix1" "ix_turns ix1 = dict_set k t (ix_turns ix)"
        "ledger_rest ix1 = ledger_rest ix"
      using replace_turn_ok [OF Cons.prems(1), of t] t(2) by auto
    have "\<forall>k'. k' \<notin> set ks \<or> dict_get (an_turns b) k' = None \<longrightarrow> dict_get (ix_turns ix1) k' = Option.bind (dict_get (an_turns b) k') report"
    proof (intro allI impI)
      fix k' assume h: "k' \<notin> set ks \<or> dict_get (an_turns b) k' = None"
      show "dict_get (ix_turns ix1) k' = Option.bind (dict_get (an_turns b) k') report"
      proof (cases "k' = k")
        case True
        then show ?thesis using Some t ix1(3) by simp
      next
        case False
        with h have "dict_get (ix_turns ix) k' = Option.bind (dict_get (an_turns b) k') report"
          using Cons.prems(2) by (metis set_ConsD)
        with False ix1(3) show ?thesis by simp
      qed
    qed
    from Cons.IH [OF ix1(2) this, of "changed @ [t]"] Some t ix1(1,4) show ?thesis by (simp add: map_filter_simps)
  qed
qed

text \<open>The fields that the tool keys touch, and the others.\<close>

definition other_fields :: "projection_index \<Rightarrow> projection_index" where
  "other_fields ix = ix\<lparr>ix_tool_requests := [], ix_tool_names := [], ix_paired_tool_keys := []\<rparr>"

lemma refresh_tool_ok:
  assumes "tools_ok ix" "dict_get (ix_tool_requests ix) \<subseteq>\<^sub>m dict_get (an_tool_requests b)"
  shows "tools_ok (refresh_tool b k ix)"
    "dict_get (ix_tool_requests (refresh_tool b k ix)) = (dict_get (ix_tool_requests ix))(k := dict_get (an_tool_requests b) k)"
    "set (ix_paired_tool_keys (refresh_tool b k ix)) = set (ix_paired_tool_keys ix) \<union> (dom (dict_get (an_tool_requests b)) \<inter> set (an_tool_outputs b) \<inter> {k})"
    "other_fields (refresh_tool b k ix) = other_fields ix"
proof -
  let ?ix1 = "case (dict_get (ix_tool_requests ix) k, dict_get (an_tool_requests b) k) of
      (None, Some name) \<Rightarrow> ix\<lparr>ix_tool_requests := dict_set k name (ix_tool_requests ix), ix_tool_names := increment name (ix_tool_names ix)\<rparr>
    | _ \<Rightarrow> ix"
  have 1: "tools_ok ?ix1 \<and> dict_get (ix_tool_requests ?ix1) = (dict_get (ix_tool_requests ix))(k := dict_get (an_tool_requests b) k) \<and>
    ix_paired_tool_keys ?ix1 = ix_paired_tool_keys ix \<and> other_fields ?ix1 = other_fields ix"
  proof (cases "dict_get (ix_tool_requests ix) k")
    case None
    show ?thesis
    proof (cases "dict_get (an_tool_requests b) k")
      case (Some name)
      have "k \<notin> set (dict_keys (ix_tool_requests ix))" using None by (simp add: map_of_eq_None_iff)
      then have "mset (map snd (dict_set k name (ix_tool_requests ix))) = add_mset name (mset (map snd (ix_tool_requests ix)))"
        by (rule mset_dict_set_fresh)
      with None Some assms(1) show ?thesis
        by (auto simp: tools_ok_def other_fields_def intro!: increment_counted simp del: mset_map)
    qed (use None assms(1) in auto)
  next
    case (Some n)
    then have "dict_get (an_tool_requests b) k = Some n" using assms(2) unfolding map_le_def by (metis domI)
    with Some assms(1) show ?thesis by auto
  qed
  show "tools_ok (refresh_tool b k ix)"
    using 1 unfolding refresh_tool_def Let_def by (auto simp: tools_ok_def)
  show "dict_get (ix_tool_requests (refresh_tool b k ix)) = (dict_get (ix_tool_requests ix))(k := dict_get (an_tool_requests b) k)"
    using 1 unfolding refresh_tool_def Let_def by auto
  show "set (ix_paired_tool_keys (refresh_tool b k ix)) = set (ix_paired_tool_keys ix) \<union> (dom (dict_get (an_tool_requests b)) \<inter> set (an_tool_outputs b) \<inter> {k})"
    using 1 unfolding refresh_tool_def Let_def by auto
  show "other_fields (refresh_tool b k ix) = other_fields ix"
    using 1 unfolding refresh_tool_def Let_def by (auto simp: other_fields_def)
qed

lemma refresh_tools_ok:
  assumes "tools_ok ix" "dict_get (ix_tool_requests ix) \<subseteq>\<^sub>m dict_get (an_tool_requests b)"
  shows "tools_ok (fold (refresh_tool b) ks ix) \<and>
    dict_get (ix_tool_requests (fold (refresh_tool b) ks ix)) =
      (\<lambda>k. if k \<in> set ks then dict_get (an_tool_requests b) k else dict_get (ix_tool_requests ix) k) \<and>
    set (ix_paired_tool_keys (fold (refresh_tool b) ks ix)) =
      set (ix_paired_tool_keys ix) \<union> (dom (dict_get (an_tool_requests b)) \<inter> set (an_tool_outputs b) \<inter> set ks) \<and>
    other_fields (fold (refresh_tool b) ks ix) = other_fields ix"
  using assms
proof (induction ks arbitrary: ix)
  case (Cons k ks)
  note r = refresh_tool_ok [OF Cons.prems, of k]
  have "dict_get (ix_tool_requests (refresh_tool b k ix)) \<subseteq>\<^sub>m dict_get (an_tool_requests b)"
    using Cons.prems(2) by (auto simp: r(2) map_le_def)
  from Cons.IH [OF r(1) this] show ?case by (auto simp: r fun_eq_iff)
qed simp

lemma refresh_counts_grew:
  assumes "w 0 = 0" "distinct (dict_keys c)" "dict_get c = m" "n = weigh w c" "grew_by_touches m (dict_get source) ks"
  shows "\<exists>c'. refresh_counts w source ks (c, n) = Inr (c', weigh w c') \<and> distinct (dict_keys c') \<and> dict_get c' = dict_get source"
  using assms by (intro refresh_counts_ok) (simp_all add: grew_by_touches_def)

lemma refresh_follow_tools:
  assumes "ledgers a ix1" "covers report a b touches" "ix_tool_requests ix = ix_tool_requests ix1"
    "ix_tool_names ix = ix_tool_names ix1" "ix_paired_tool_keys ix = ix_paired_tool_keys ix1"
  shows "tools_ok (fold (refresh_tool b) (touched_tool_keys touches) ix)"
    "dict_get (ix_tool_requests (fold (refresh_tool b) (touched_tool_keys touches) ix)) = dict_get (an_tool_requests b)"
    "set (ix_paired_tool_keys (fold (refresh_tool b) (touched_tool_keys touches) ix)) = dom (dict_get (an_tool_requests b)) \<inter> set (an_tool_outputs b)"
    "other_fields (fold (refresh_tool b) (touched_tool_keys touches) ix) = other_fields ix"
proof -
  let ?ix = "fold (refresh_tool b) (touched_tool_keys touches) ix"
  have t: "tools_ok ix" "dict_get (ix_tool_requests ix) = dict_get (an_tool_requests a)"
      "set (ix_paired_tool_keys ix) = dom (dict_get (an_tool_requests a)) \<inter> set (an_tool_outputs a)"
    using assms(1,3-5) by (simp_all add: ledgers_def tools_ok_def)
  have c: "dict_get (an_tool_requests a) \<subseteq>\<^sub>m dict_get (an_tool_requests b)" "set (an_tool_outputs a) \<subseteq> set (an_tool_outputs b)"
      "\<And>k. k \<notin> set (touched_tool_keys touches) \<Longrightarrow> dict_get (an_tool_requests b) k = dict_get (an_tool_requests a) k \<and>
         (k \<in> set (an_tool_outputs b) \<longleftrightarrow> k \<in> set (an_tool_outputs a))"
    using assms(2) unfolding covers_def by blast+
  have r: "tools_ok ?ix \<and> dict_get (ix_tool_requests ?ix) =
        (\<lambda>k. if k \<in> set (touched_tool_keys touches) then dict_get (an_tool_requests b) k else dict_get (ix_tool_requests ix) k) \<and>
      set (ix_paired_tool_keys ?ix) =
        set (ix_paired_tool_keys ix) \<union> (dom (dict_get (an_tool_requests b)) \<inter> set (an_tool_outputs b) \<inter> set (touched_tool_keys touches)) \<and>
      other_fields ?ix = other_fields ix"
    using t c(1) by (intro refresh_tools_ok) simp_all
  then show "tools_ok ?ix" "other_fields ?ix = other_fields ix" by simp_all
  show "dict_get (ix_tool_requests ?ix) = dict_get (an_tool_requests b)" using r c(3) unfolding t(2) by (simp add: fun_eq_iff)
  have "dom (dict_get (an_tool_requests a)) \<subseteq> dom (dict_get (an_tool_requests b))" using c(1) by (rule map_le_implies_dom_le)
  moreover have "k \<in> dom (dict_get (an_tool_requests b)) \<longleftrightarrow> k \<in> dom (dict_get (an_tool_requests a))"
    if "k \<notin> set (touched_tool_keys touches)" for k using c(3) [OF that] by (simp add: dom_def)
  ultimately show "set (ix_paired_tool_keys ?ix) = dom (dict_get (an_tool_requests b)) \<inter> set (an_tool_outputs b)"
    using r c(2,3) unfolding t(3) by blast
qed

lemma other_fields_simps [simp]:
  "turns_ok (other_fields ix) = turns_ok ix" "ix_turns (other_fields ix) = ix_turns ix"
  "ix_command_durations (other_fields ix) = ix_command_durations ix"
  "ix_command_duration_count (other_fields ix) = ix_command_duration_count ix"
  "ix_context_observation_count (other_fields ix) = ix_context_observation_count ix"
  "ix_context_high_water (other_fields ix) = ix_context_high_water ix"
  "ix_command_hash_counts (other_fields ix) = ix_command_hash_counts ix"
  "ix_repeated_commands (other_fields ix) = ix_repeated_commands ix"
  "ix_path_counts (other_fields ix) = ix_path_counts ix" "ix_revisited_paths (other_fields ix) = ix_revisited_paths ix"
  by (simp_all add: other_fields_def turns_ok_def current_turns_def aggregates_def)

lemma follows_other_fields:
  assumes "other_fields ix = other_fields ix'" "tools_ok ix" "dict_get (ix_tool_requests ix) = dict_get (an_tool_requests b)"
    "set (ix_paired_tool_keys ix) = dom (dict_get (an_tool_requests b)) \<inter> set (an_tool_outputs b)" "turns_ok ix'"
    "dict_get (ix_turns ix') = (\<lambda>k. Option.bind (dict_get (an_turns b) k) report)"
    and l: "order_inv (ix_command_durations ix')" "mset (vals (ix_command_durations ix')) = mset (an_command_durations_ms b)"
    "ix_command_duration_count ix' = length (an_command_durations_ms b)"
    "ix_context_observation_count ix' = length (an_context_observations b)"
    "ix_context_high_water ix' = high_water (an_context_observations b)"
    "distinct (dict_keys (ix_command_hash_counts ix'))" "dict_get (ix_command_hash_counts ix') = dict_get (an_command_hashes b)"
    "ix_repeated_commands ix' = weigh repeat_contribution (ix_command_hash_counts ix')"
    "distinct (dict_keys (ix_path_counts ix'))" "dict_get (ix_path_counts ix') = dict_get (an_path_operation_counts b)"
    "ix_revisited_paths ix' = weigh revisited (ix_path_counts ix')"
  shows "follows report b ix"
proof -
  have e: "f ix = f ix'" if "\<And>i. f (other_fields i) = f i" for f :: "projection_index \<Rightarrow> 'x"
    using assms(1) that by metis
  have "turns_ok ix = turns_ok ix'" by (rule e) simp
  moreover have "ix_turns ix = ix_turns ix'" by (rule e) simp
  moreover have "ix_command_durations ix = ix_command_durations ix'" by (rule e) simp
  moreover have "ix_command_duration_count ix = ix_command_duration_count ix'" by (rule e) simp
  moreover have "ix_context_observation_count ix = ix_context_observation_count ix'" by (rule e) simp
  moreover have "ix_context_high_water ix = ix_context_high_water ix'" by (rule e) simp
  moreover have "ix_command_hash_counts ix = ix_command_hash_counts ix'" by (rule e) simp
  moreover have "ix_repeated_commands ix = ix_repeated_commands ix'" by (rule e) simp
  moreover have "ix_path_counts ix = ix_path_counts ix'" by (rule e) simp
  moreover have "ix_revisited_paths ix = ix_revisited_paths ix'" by (rule e) simp
  ultimately show ?thesis using assms(2-) unfolding follows_def ledgers_def by simp
qed

lemma refresh_index_follows:
  assumes "follows report a ix" "covers report a b touches"
  shows "\<exists>ix'. refresh_index report b touches ix =
      Inr (ix', sort_key changed_order (List.map_filter (\<lambda>k. Option.bind (dict_get (an_turns b) k) report) (touched_turn_keys touches))) \<and>
    follows report b ix'"
proof -
  note f = assms(1) [unfolded follows_def] and c = assms(2) [unfolded covers_def]
  have wk: "well_kept report b" using c by blast
  have 0: "\<forall>k. k \<notin> set (touched_turn_keys touches) \<or> dict_get (an_turns b) k = None \<longrightarrow>
      dict_get (ix_turns ix) k = Option.bind (dict_get (an_turns b) k) report"
  proof (intro allI impI)
    fix k assume "k \<notin> set (touched_turn_keys touches) \<or> dict_get (an_turns b) k = None"
    moreover have "dict_get (an_turns b) k = None \<Longrightarrow> dict_get (an_turns a) k = None" using c by (meson domIff subsetD)
    moreover have "k \<notin> set (touched_turn_keys touches) \<Longrightarrow>
        Option.bind (dict_get (an_turns b) k) report = Option.bind (dict_get (an_turns a) k) report" using c by blast
    moreover have "dict_get (ix_turns ix) k = Option.bind (dict_get (an_turns a) k) report" using f by simp
    ultimately show "dict_get (ix_turns ix) k = Option.bind (dict_get (an_turns b) k) report" by auto
  qed
  obtain ix1 where ix1: "refresh_turns report b (touched_turn_keys touches) ix [] =
        Inr (ix1, List.map_filter (\<lambda>k. Option.bind (dict_get (an_turns b) k) report) (touched_turn_keys touches))"
      "turns_ok ix1" "dict_get (ix_turns ix1) = (\<lambda>k. Option.bind (dict_get (an_turns b) k) report)" "ledger_rest ix1 = ledger_rest ix"
    using refresh_turns_ok [OF wk, of ix "touched_turn_keys touches" "[]"] f 0 by auto
  have l: "ledgers a ix1" using f ix1(4) by (simp add: ledgers_def tools_ok_def ledger_rest_def ledger_def)
  obtain ds rs where ds: "an_command_durations_ms b = an_command_durations_ms a @ ds"
    and rs: "an_context_observations b = an_context_observations a @ rs" using c by blast
  obtain d where d: "order_of ds (ix_command_durations ix1) = Inr d" "order_inv d"
      "mset (vals d) = mset (vals (ix_command_durations ix1)) + mset ds"
    using order_of_ok [of "ix_command_durations ix1" ds] l by (auto simp: ledgers_def)
  have hw: "foldl max (high_water (an_context_observations a)) rs = high_water (an_context_observations b)"
    using high_water_append [of "an_context_observations a" rs] wk by (simp add: rs well_kept_def)
  have g: "repeat_contribution 0 = 0" "revisited 0 = 0" by (simp_all add: repeat_contribution_def revisited_def of_flag_def)
  obtain h where h: "refresh_counts repeat_contribution (an_command_hashes b) (touched_command_hashes touches)
        (ix_command_hash_counts ix1, ix_repeated_commands ix1) = Inr (h, weigh repeat_contribution h)"
      "distinct (dict_keys h)" "dict_get h = dict_get (an_command_hashes b)"
    using refresh_counts_grew [of repeat_contribution "ix_command_hash_counts ix1" _ "ix_repeated_commands ix1"
      "an_command_hashes b" "touched_command_hashes touches"] l c g by (auto simp: ledgers_def)
  obtain p where p: "refresh_counts revisited (an_path_operation_counts b) (touched_path_hashes touches)
        (ix_path_counts ix1, ix_revisited_paths ix1) = Inr (p, weigh revisited p)"
      "distinct (dict_keys p)" "dict_get p = dict_get (an_path_operation_counts b)"
    using refresh_counts_grew [of revisited "ix_path_counts ix1" _ "ix_revisited_paths ix1"
      "an_path_operation_counts b" "touched_path_hashes touches"] l c g by (auto simp: ledgers_def)
  let ?ix2 = "ix1\<lparr>ix_command_durations := d, ix_command_duration_count := length (an_command_durations_ms b),
       ix_context_high_water := high_water (an_context_observations b),
       ix_context_observation_count := length (an_context_observations b)\<rparr>"
  let ?ix3 = "?ix2\<lparr>ix_command_hash_counts := h, ix_repeated_commands := weigh repeat_contribution h, ix_path_counts := p,
       ix_revisited_paths := weigh revisited p\<rparr>"
  let ?ix4 = "fold (refresh_tool b) (touched_tool_keys touches) ?ix3"
  have dur: "refresh_durations b ix1 = Inr ?ix2"
    using l d(1) by (simp add: refresh_durations_def ledgers_def ds rs hw [unfolded rs])
  have t4: "tools_ok ?ix4" "dict_get (ix_tool_requests ?ix4) = dict_get (an_tool_requests b)"
      "set (ix_paired_tool_keys ?ix4) = dom (dict_get (an_tool_requests b)) \<inter> set (an_tool_outputs b)"
      "other_fields ?ix4 = other_fields ?ix3"
    using refresh_follow_tools [OF l assms(2), of ?ix3] by simp_all
  have "turns_ok ?ix3" using ix1(2) by (simp add: turns_ok_def current_turns_def aggregates_def)
  then have "follows report b ?ix4"
    using ix1(3) d(2,3) h(2,3) p(2,3) l by (intro follows_other_fields [OF t4(4,1-3)]) (simp_all add: ledgers_def ds)
  then show ?thesis
    unfolding refresh_index_def ix1(1) bind_index_Inr prod.case dur
    using h(1) p(1) by simp
qed

subsection \<open>What is projected depends on the content only\<close>

lemma counted_mset:
  assumes "counted M f c" "counted M f c'"
  shows "mset c = mset c'"
  using assms by (intro same_dict_mset) (auto simp: counted_def)

lemma same_mset_content:
  assumes "mset c = mset c'"
  shows "length c = length c'" "weigh w c = weigh w c'" "busiest c = busiest c'"
proof -
  show "length c = length c'" using assms by (rule mset_eq_length)
  show "weigh w c = weigh w c'" using assms by (simp add: weigh_mset)
  have "set c = set c'" using assms by (rule mset_eq_setD)
  moreover have "c = [] \<longleftrightarrow> c' = []" using assms by auto
  ultimately show "busiest c = busiest c'" by (simp add: busiest_def)
qed

lemma named_count_projections_mset:
  "mset (named_count_projections kind (CounterTable c) True) =
    image_mset (\<lambda>(k, v). \<lparr>nc_kind = kind, nc_name = k, nc_occurrences = v\<rparr>) (filter_mset (\<lambda>(k, v). v > 0) (mset c))"
  by (simp add: named_count_projections_def)

lemma spread_distribution: "spread M f d \<Longrightarrow> spread M f d' \<Longrightarrow> distribution_of kind d = distribution_of kind d'"
  by (rule distribution_of_content) (simp_all add: spread_def)

lemma follows_same_turns:
  assumes "follows report a ix" "follows report a ix'"
  shows "mset (ix_turns ix) = mset (ix_turns ix')"
  using assms by (intro same_dict_mset) (simp_all add: follows_def turns_ok_def)

lemma follows_same_counters:
  assumes "follows report a ix" "follows report a ix'"
  shows "mset (ix_outcomes ix) = mset (ix_outcomes ix')" "mset (ix_workspaces ix) = mset (ix_workspaces ix')"
    "mset (ix_models ix) = mset (ix_models ix')" "mset (ix_reasoning_efforts ix) = mset (ix_reasoning_efforts ix')"
    "mset (ix_local_hours ix) = mset (ix_local_hours ix')" "mset (ix_tool_names ix) = mset (ix_tool_names ix')"
    "dict_get (ix_outcomes ix) = dict_get (ix_outcomes ix')"
proof -
  have M: "current_turns ix = current_turns ix'" using follows_same_turns [OF assms] by (simp add: current_turns_def)
  have a: "aggregates (current_turns ix) ix" "aggregates (current_turns ix) ix'"
    using assms unfolding M by (simp_all add: follows_def turns_ok_def M)
  note c = a [unfolded aggregates_def]
  show "mset (ix_outcomes ix) = mset (ix_outcomes ix')" using c by (blast intro: counted_mset)
  show "mset (ix_workspaces ix) = mset (ix_workspaces ix')" using c by (blast intro: counted_mset)
  show "mset (ix_models ix) = mset (ix_models ix')" using c by (blast intro: counted_mset)
  show "mset (ix_reasoning_efforts ix) = mset (ix_reasoning_efforts ix')" using c by (blast intro: counted_mset)
  show "mset (ix_local_hours ix) = mset (ix_local_hours ix')" using c by (blast intro: counted_mset)
  show "dict_get (ix_outcomes ix) = dict_get (ix_outcomes ix')" using c by (auto simp: counted_def)
  have t: "tools_ok ix" "tools_ok ix'" "dict_get (ix_tool_requests ix) = dict_get (ix_tool_requests ix')"
    using assms by (simp_all add: follows_def ledgers_def)
  then have "mset (ix_tool_requests ix) = mset (ix_tool_requests ix')" by (intro same_dict_mset) (simp_all add: tools_ok_def)
  then have r: "mset (map snd (ix_tool_requests ix)) = mset (map snd (ix_tool_requests ix'))" by simp
  have "counted (mset (map snd (ix_tool_requests ix))) Some (ix_tool_names ix)"
    "counted (mset (map snd (ix_tool_requests ix))) Some (ix_tool_names ix')"
    using t(1,2) unfolding tools_ok_def r by blast+
  then show "mset (ix_tool_names ix) = mset (ix_tool_names ix')" by (rule counted_mset)
qed

lemma follows_same_ledgers:
  assumes "follows report a ix" "follows report a ix'"
  shows "ix_context_high_water ix = ix_context_high_water ix'" "ix_repeated_commands ix = ix_repeated_commands ix'"
    "ix_revisited_paths ix = ix_revisited_paths ix'" "length (ix_paired_tool_keys ix) = length (ix_paired_tool_keys ix')"
proof -
  have l: "ledgers a ix" "ledgers a ix'" using assms by (simp_all add: follows_def)
  show "ix_context_high_water ix = ix_context_high_water ix'" using l by (simp add: ledgers_def)
  have "mset (ix_command_hash_counts ix) = mset (ix_command_hash_counts ix')" "mset (ix_path_counts ix) = mset (ix_path_counts ix')"
    using l by (auto simp: ledgers_def intro: same_dict_mset)
  then show "ix_repeated_commands ix = ix_repeated_commands ix'" "ix_revisited_paths ix = ix_revisited_paths ix'"
    using l by (auto simp: ledgers_def intro: same_mset_content)
  show "length (ix_paired_tool_keys ix) = length (ix_paired_tool_keys ix')"
    using l by (auto simp: ledgers_def tools_ok_def simp flip: distinct_card)
qed

lemma follows_same_flags:
  assumes "follows report a ix" "follows report a ix'"
  shows "ix_hands_on ix = ix_hands_on ix'" "ix_failed_command_turns ix = ix_failed_command_turns ix'"
    "ix_recovered_turns ix = ix_recovered_turns ix'" "ix_edited_turns ix = ix_edited_turns ix'"
    "ix_verified_after_edit ix = ix_verified_after_edit ix'" "ix_web_turns ix = ix_web_turns ix'"
    "ix_web_follow_through ix = ix_web_follow_through ix'" "index_distributions ix = index_distributions ix'"
proof -
  have M: "current_turns ix = current_turns ix'" using follows_same_turns [OF assms] by (simp add: current_turns_def)
  have a: "aggregates (current_turns ix) ix" "aggregates (current_turns ix) ix'"
    using assms unfolding M by (simp_all add: follows_def turns_ok_def M)
  note c = a [unfolded aggregates_def]
  from c show "ix_hands_on ix = ix_hands_on ix'" "ix_failed_command_turns ix = ix_failed_command_turns ix'"
    "ix_recovered_turns ix = ix_recovered_turns ix'" "ix_edited_turns ix = ix_edited_turns ix'"
    "ix_verified_after_edit ix = ix_verified_after_edit ix'" "ix_web_turns ix = ix_web_turns ix'"
    "ix_web_follow_through ix = ix_web_follow_through ix'" by simp_all
  have "distribution_of k (ix_completed_durations ix) = distribution_of k (ix_completed_durations ix')"
    "distribution_of k (ix_ttfts ix) = distribution_of k (ix_ttfts ix')"
    "distribution_of k (ix_turn_tokens ix) = distribution_of k (ix_turn_tokens ix')"
    "distribution_of k (ix_commands_per_turn ix) = distribution_of k (ix_commands_per_turn ix')"
    "distribution_of k (ix_tools_per_turn ix) = distribution_of k (ix_tools_per_turn ix')"
    "distribution_of k (ix_files_per_turn ix) = distribution_of k (ix_files_per_turn ix')" for k
    using c by (blast intro: spread_distribution)+
  moreover have "distribution_of k (ix_command_durations ix) = distribution_of k (ix_command_durations ix')" for k
    using assms by (intro distribution_of_content) (simp_all add: follows_def ledgers_def)
  ultimately show "index_distributions ix = index_distributions ix'" by (simp add: index_distributions_def)
qed

text \<open>The two indexes project the same statistics; the order of equally frequent names may differ.\<close>

definition same_projection :: "'t analyzer \<Rightarrow> projection_index \<Rightarrow> projection_index \<Rightarrow> bool" where
  "same_projection a ix ix' \<longleftrightarrow>
     index_counts a ix = index_counts a ix' \<and> index_rates a ix = index_rates a ix' \<and>
     index_distributions ix = index_distributions ix' \<and> mset (index_named_counts a ix) = mset (index_named_counts a ix') \<and>
     dict_get (ix_turns ix) = dict_get (ix_turns ix')"

lemma follows_same_projection:
  assumes "follows report a ix" "follows report a ix'"
  shows "same_projection a ix ix'"
proof -
  note c = follows_same_counters [OF assms] and l = follows_same_ledgers [OF assms] and f = follows_same_flags [OF assms]
  note w = same_mset_content [OF c(2)] same_mset_content [OF c(5)] mset_eq_length [OF follows_same_turns [OF assms]]
  have o: "counter_get (ix_outcomes ix) = counter_get (ix_outcomes ix')" using c(7) by (simp add: counter_get_def fun_eq_iff)
  have "index_counts a ix = index_counts a ix'" unfolding index_counts_def l f(1-7) w o ..
  moreover have "index_rates a ix = index_rates a ix'" unfolding index_rates_def l f(1-7) w ..
  moreover have "mset (index_named_counts a ix) = mset (index_named_counts a ix')"
    unfolding index_named_counts_def by (simp add: named_count_projections_mset c)
  moreover have "dict_get (ix_turns ix) = dict_get (ix_turns ix')" using assms by (simp add: follows_def)
  ultimately show ?thesis using f(8) by (simp add: same_projection_def)
qed

subsection \<open>Properties\<close>

fun run_refresh :: "('t \<Rightarrow> turn_statistics option) \<Rightarrow> ('t analyzer \<times> batch_touches) list \<Rightarrow> projection_index \<Rightarrow> index_error + projection_index" where
  "run_refresh report [] ix = Inr ix"
| "run_refresh report ((b, touches) # bs) ix =
     bind_index (refresh_index report b touches ix) (\<lambda>(ix', changed). run_refresh report bs ix')"

fun batches_ok :: "('t \<Rightarrow> turn_statistics option) \<Rightarrow> 't analyzer \<Rightarrow> ('t analyzer \<times> batch_touches) list \<Rightarrow> bool" where
  "batches_ok report a [] = True"
| "batches_ok report a ((b, touches) # bs) = (covers report a b touches \<and> batches_ok report b bs)"

fun latest :: "'t analyzer \<Rightarrow> ('t analyzer \<times> batch_touches) list \<Rightarrow> 't analyzer" where
  "latest a [] = a"
| "latest a ((b, touches) # bs) = latest b bs"

lemma run_refresh_follows:
  "follows report a ix \<Longrightarrow> batches_ok report a bs \<Longrightarrow> \<exists>ix'. run_refresh report bs ix = Inr ix' \<and> follows report (latest a bs) ix'"
proof (induction bs arbitrary: a ix)
  case (Cons p bs)
  obtain b touches where p: "p = (b, touches)" by (rule prod.exhaust)
  obtain ix1 changed where "refresh_index report b touches ix = Inr (ix1, changed)" "follows report b ix1"
    using refresh_index_follows [OF Cons.prems(1), of b touches] Cons.prems(2) p by auto
  with Cons.IH [of b ix1] Cons.prems(2) p show ?case by auto
qed simp

lemma well_kept_latest: "well_kept report a \<Longrightarrow> batches_ok report a bs \<Longrightarrow> well_kept report (latest a bs)"
  by (induction bs arbitrary: a) (auto simp: covers_def)

lemma new_index_ok: "\<exists>ix. new_index a turns = Inr ix \<and> aggregates (mset (map snd (set_turns turns []))) ix"
proof -
  obtain d where d: "order_of (an_command_durations_ms a) NoNode = Inr d"
    using order_of_ok [of NoNode "an_command_durations_ms a"] by auto
  have "turns_ok (blank_index a d)" by (rule empty_aggregates) (simp_all add: blank_index_def)
  moreover have "ix_turns (blank_index a d) = []" by (simp add: blank_index_def)
  ultimately obtain ix where "replace_turns turns (blank_index a d) = Inr ix" "turns_ok ix" "ix_turns ix = set_turns turns []"
    using replace_turns_ok [of "blank_index a d" turns] by auto
  then show ?thesis using d by (simp add: new_index_def turns_ok_def current_turns_def)
qed

text \<open>An index built from any sequence of turns, repeated keys included, is built without failure and
  every counter, flag count and distribution is the one recomputed from the last turn of each key.\<close>

theorem new_index_aggregates:
  "\<exists>ix. new_index a turns = Inr ix \<and> aggregates (mset (map snd (set_turns turns []))) ix"
  by (rule new_index_ok)


definition demo_turn :: turn_statistics where
  "demo_turn = \<lparr>ts_thread_id = lit ''a'', ts_turn_id = lit ''t'', ts_started_at = None, ts_outcome = lit ''completed'',
     ts_duration_ms = Some 7, ts_time_to_first_token_ms = None, ts_total_tokens = 3, ts_commands_executed_count = 1,
     ts_model_tool_requests_count = 0, ts_file_change_operations_count = 0, ts_file_change_distinct_paths_count = 0,
     ts_web_operations_count = 0, ts_workspace_digest = None, ts_model = Some (lit ''m''), ts_reasoning_effort = None,
     ts_local_start_hour = Some 9, ts_hands_on = True, ts_completed_after_nonzero_command = False,
     ts_edited_then_verified = False, ts_web_follow_through = False, ts_named_counts = []\<rparr>"

definition demo_analyzer :: "turn_statistics analyzer" where
  "demo_analyzer = \<lparr>an_turns = [], an_command_durations_ms = [], an_context_observations = [], an_command_hashes = [],
     an_path_operation_counts = [], an_tool_requests = [], an_tool_outputs = [], an_commands = 0,
     an_command_statuses = PlainTable [], an_command_families = PlainTable [], an_file_change_types = PlainTable [],
     an_web_action_types = PlainTable [], an_collaboration_tools = PlainTable [], an_goal_statuses = PlainTable [],
     an_input_tokens = 0, an_cached_input_tokens = 0, an_output_tokens = 0, an_reasoning_output_tokens = 0\<rparr>"

definition demo_analyzer_next :: "turn_statistics analyzer" where
  "demo_analyzer_next = demo_analyzer
     \<lparr>an_turns := [((lit ''a'', lit ''t''), demo_turn)], an_command_durations_ms := [4], an_context_observations := [1 / 2],
      an_command_hashes := [(lit ''h'', 2)], an_path_operation_counts := [(lit ''p'', 2)],
      an_tool_requests := [((lit ''a'', lit ''c''), lit ''shell'')], an_tool_outputs := [(lit ''a'', lit ''c'')], an_commands := 2\<rparr>"

definition demo_touches :: batch_touches where
  "demo_touches = \<lparr>touched_turn_keys = [(lit ''a'', lit ''t'')], touched_command_hashes = [lit ''h''],
     touched_path_hashes = [lit ''p''], touched_tool_keys = [(lit ''a'', lit ''c'')]\<rparr>"


end
