(* ===== verification/Analyzer_Adapter.thy ===== *)
theory Analyzer_Adapter
  imports Token_Accounting Statistics_Index
begin

section \<open>The resident analyzer adapter\<close>

text \<open>
  \<^verbatim>\<open>StatefulCodexProtocolAnalyticsAdapter\<close> of \<^verbatim>\<open>src/rodex/analytics_analyzer.py\<close>. The analyzer package is outside
  the repository: \<open>resident\<close> holds the fields the adapter itself writes, with the package's ledgers as the
  value \<open>rs_ledgers\<close>, and \<open>adapter_env\<close> the package's functions, the JSON decoder and the hashes. \<open>env_consume\<close>
  is \<open>None\<close> where the package raises. Content is a list of bytes. A call returns the adapter it leaves; it
  leaves none (\<open>None\<close>) when projecting fails, where the code keeps an index that is half updated and
  the worker drops the adapter.
\<close>

record 'r resident =
  rs_sessions :: "pystr list"
  rs_malformed_lines :: nat
  rs_records :: nat
  rs_sequence :: nat
  rs_active_turn :: "(pystr, pystr) dict"
  rs_ledgers :: 'r

record source_state =
  ss_session_id :: pystr
  ss_pending :: "nat list"
  ss_tokens :: token_accounting
  ss_lifecycle :: turn_lifecycle
  ss_admission :: admission

record calculation =
  calc_index :: projection_index
  calc_changed_turns :: "turn_statistics list"
  calc_source_count :: nat
  calc_warnings :: nat
  calc_gapped :: bool

record 'r adapter =
  ad_resident :: "'r resident"
  ad_sources :: "(pystr, source_state) dict"
  ad_user_id :: "pystr option"
  ad_revision :: nat
  ad_unknown_event_types :: "(pystr, pystr list) dict"
  ad_coverage_gapped :: bool
  ad_candidate :: "calculation option"
  ad_index :: "projection_index option"
  ad_poisoned :: "adapter_error option"

record ('r, 't) adapter_env =
  env_loads :: "nat list \<Rightarrow> json option"
  env_fingerprint :: "message \<Rightarrow> pystr option"
  env_digest :: "pystr \<Rightarrow> pystr"
  env_source_digest :: "pystr \<Rightarrow> pystr"
  env_command_hash :: "message \<Rightarrow> pystr"
  env_event_name :: "message \<Rightarrow> pystr option"
  env_consume :: "message \<Rightarrow> message \<Rightarrow> pystr \<Rightarrow> 'r resident \<Rightarrow> 'r resident option"
  env_turns :: "'r resident \<Rightarrow> turn_statistics list option"
  env_view :: "'r resident \<Rightarrow> 't analyzer"
  env_report :: "'t \<Rightarrow> turn_statistics option"

record analyzer_source =
  as_thread :: pystr
  as_content :: "nat list"
  as_appended :: "nat list"

definition new_adapter :: "'r \<Rightarrow> 'r adapter" where
  "new_adapter r =
     \<lparr>ad_resident = \<lparr>rs_sessions = [], rs_malformed_lines = 0, rs_records = 0, rs_sequence = 0, rs_active_turn = [], rs_ledgers = r\<rparr>,
      ad_sources = [], ad_user_id = None, ad_revision = 0, ad_unknown_event_types = [], ad_coverage_gapped = False,
      ad_candidate = None, ad_index = None, ad_poisoned = None\<rparr>"

subsection \<open>Decoding\<close>

text \<open>\<^verbatim>\<open>bytes.splitlines()\<close>: lines end with a line feed, a carriage return or both.\<close>

function split_lines :: "nat list \<Rightarrow> nat list \<Rightarrow> nat list list" where
  "split_lines cur [] = (if cur = [] then [] else [cur])"
| "split_lines cur (c # cs) =
     (if c = 10 then cur # split_lines [] cs
      else if c = 13 then cur # split_lines [] (if cs \<noteq> [] \<and> hd cs = 10 then tl cs else cs)
      else split_lines (cur @ [c]) cs)"
  by pat_completeness auto
termination
  by (relation "measure (\<lambda>(cur, cs). length cs)") auto

definition blank_line :: "nat list \<Rightarrow> bool" where
  "blank_line l \<longleftrightarrow> list_all (\<lambda>c. 9 \<le> c \<and> c \<le> 13 \<or> c = 32) l"

fun decode_lines :: "(nat list \<Rightarrow> json option) \<Rightarrow> nat list list \<Rightarrow> message list \<times> nat" where
  "decode_lines loads [] = ([], 0)"
| "decode_lines loads (l # ls) =
     (case decode_lines loads ls of (rs, malformed) \<Rightarrow>
        if blank_line l then (rs, malformed)
        else case Option.bind (loads l) as_dict of None \<Rightarrow> (rs, Suc malformed) | Some d \<Rightarrow> (d # rs, malformed))"

definition decode_complete_records :: "(nat list \<Rightarrow> json option) \<Rightarrow> nat list \<Rightarrow> message list \<times> nat" where
  "decode_complete_records loads content = decode_lines loads (split_lines [] content)"

definition valid_source_record :: "pystr \<Rightarrow> message \<Rightarrow> bool" where
  "valid_source_record thread rec \<longleftrightarrow>
     jfield rec ''type'' \<noteq> JStr (lit ''session_meta'') \<or> jfield (payload_of rec) ''id'' = JStr thread"

subsection \<open>Touches\<close>

fun json_truthy :: "json \<Rightarrow> bool" where
  "json_truthy JNull = False"
| "json_truthy (JBool b) = b"
| "json_truthy (JInt i) = (i \<noteq> 0)"
| "json_truthy (JFloat f) = (f \<noteq> Finite 0)"
| "json_truthy (JStr s) = (s \<noteq> [])"
| "json_truthy (JList xs) = (xs \<noteq> [])"
| "json_truthy (JDict d) = (d \<noteq> [])"

definition touched_turn :: "'r resident \<Rightarrow> message \<Rightarrow> pystr \<Rightarrow> pystr option" where
  "touched_turn res payload session =
     (if json_truthy (jfield payload ''turn_id'') then as_id (jfield payload ''turn_id'')
      else case dict_get (rs_active_turn res) session of None \<Rightarrow> None | Some t \<Rightarrow> if t = [] then None else Some t)"

definition touched_command :: "message \<Rightarrow> message \<Rightarrow> message option" where
  "touched_command rec payload =
     (if jfield rec ''type'' \<noteq> JStr (lit ''event_msg'') then None
      else if jfield payload ''type'' = JStr (lit ''item_completed'') then
        (case as_dict (jfield payload ''item'') of
           None \<Rightarrow> None | Some item \<Rightarrow> if jfield item ''type'' = JStr (lit ''CommandExecution'') then Some item else None)
      else if jfield payload ''type'' = JStr (lit ''exec_command_end'') then Some payload
      else None)"

definition touched_changes :: "message \<Rightarrow> message \<Rightarrow> message option" where
  "touched_changes rec payload =
     (if jfield rec ''type'' \<noteq> JStr (lit ''event_msg'') then None
      else if jfield payload ''type'' = JStr (lit ''item_completed'') then
        (case as_dict (jfield payload ''item'') of
           None \<Rightarrow> None
         | Some item \<Rightarrow> if jfield item ''type'' = JStr (lit ''FileChange'') then as_dict (jfield item ''changes'') else None)
      else if jfield payload ''type'' = JStr (lit ''patch_apply_end'') then as_dict (jfield payload ''changes'')
      else None)"

definition change_paths :: "message \<Rightarrow> pystr list" where
  "change_paths changes =
     concat (map (\<lambda>(path, change). path # (case as_id (jpath change ''move_path'') of None \<Rightarrow> [] | Some q \<Rightarrow> [q])) changes)"

definition remember_touches ::
  "('r, 't) adapter_env \<Rightarrow> 'r resident \<Rightarrow> message \<Rightarrow> message \<Rightarrow> pystr \<Rightarrow> batch_touches \<Rightarrow> batch_touches" where
  "remember_touches env res rec payload session touches = touches
     \<lparr>touched_turn_keys := (case touched_turn res payload session of
          None \<Rightarrow> touched_turn_keys touches | Some t \<Rightarrow> List.insert (session, t) (touched_turn_keys touches)),
      touched_command_hashes := (case touched_command rec payload of
          None \<Rightarrow> touched_command_hashes touches
        | Some command \<Rightarrow>
            if env_command_hash env command = [] then touched_command_hashes touches
            else List.insert (env_command_hash env command) (touched_command_hashes touches)),
      touched_path_hashes := (case touched_changes rec payload of
          None \<Rightarrow> touched_path_hashes touches
        | Some changes \<Rightarrow> fold List.insert (map (env_digest env) (change_paths changes)) (touched_path_hashes touches)),
      touched_tool_keys :=
        (if jfield rec ''type'' = JStr (lit ''response_item'')
         then (case as_id (jfield payload ''call_id'') of
                 None \<Rightarrow> touched_tool_keys touches | Some c \<Rightarrow> List.insert (session, c) (touched_tool_keys touches))
         else touched_tool_keys touches)\<rparr>"

subsection \<open>Consuming records\<close>

text \<open>What a batch works on: the resident analyzer, the state of the current source and the touches.\<close>

record 'r work =
  wk_resident :: "'r resident"
  wk_source :: source_state
  wk_touches :: batch_touches
  wk_unknown :: "pystr list"
  wk_gapped :: bool
  wk_changed :: bool

definition count_record :: "'r resident \<Rightarrow> 'r resident" where
  "count_record res = res\<lparr>rs_records := Suc (rs_records res), rs_sequence := Suc (rs_sequence res)\<rparr>"

definition bind_active :: "source_state \<Rightarrow> 'r resident \<Rightarrow> 'r resident" where
  "bind_active src res =
     (case active_turn_id (ss_lifecycle src) of
        None \<Rightarrow> res\<lparr>rs_active_turn := dict_pop (ss_session_id src) (rs_active_turn res)\<rparr>
      | Some t \<Rightarrow> res\<lparr>rs_active_turn := dict_set (ss_session_id src) t (rs_active_turn res)\<rparr>)"

definition consume_session_meta :: "pystr \<Rightarrow> message \<Rightarrow> 'r work \<Rightarrow> 'r work \<times> (adapter_error + message option)" where
  "consume_session_meta thread rec w =
     (if jfield (payload_of rec) ''id'' \<noteq> JStr thread then (w, Inl WrongSessionMeta)
      else let res = wk_resident w; src = wk_source w in
        (w\<lparr>wk_resident := res\<lparr>rs_sessions := List.insert thread (removeAll (ss_session_id src) (rs_sessions res))\<rparr>,
           wk_source := src\<lparr>ss_session_id := thread\<rparr>\<rparr>, Inr (Some rec)))"

definition consume_event ::
  "('r, 't) adapter_env \<Rightarrow> pystr \<Rightarrow> message \<Rightarrow> 'r work \<Rightarrow> 'r work \<times> (adapter_error + message option)" where
  "consume_event env thread rec w =
     (case adapt_token_record rec thread (ss_tokens (wk_source w)) of (tokens, r1) \<Rightarrow>
      let w1 = w\<lparr>wk_source := (wk_source w)\<lparr>ss_tokens := tokens\<rparr>\<rparr> in
      case r1 of
        Inl e \<Rightarrow> (w1, Inl e)
      | Inr rec1 \<Rightarrow>
          (case adapt_lifecycle_record rec1 (ss_lifecycle (wk_source w1)) of (lc, r2) \<Rightarrow>
           let w2 = w1\<lparr>wk_source := (wk_source w1)\<lparr>ss_lifecycle := lc\<rparr>\<rparr> in
           case r2 of
             Inl e \<Rightarrow> (w2, Inl e)
           | Inr adapted \<Rightarrow>
               let session = ss_session_id (wk_source w2); payload = payload_of adapted;
                   w3 = w2\<lparr>wk_touches := remember_touches env (wk_resident w2) adapted payload session (wk_touches w2)\<rparr> in
               (case env_consume env adapted payload session (wk_resident w3) of
                  None \<Rightarrow> (w3, Inl AnalyzerRaised)
                | Some res \<Rightarrow> (w3\<lparr>wk_resident := bind_active (wk_source w3) res\<rparr>, Inr (Some adapted)))))"

definition consume_record ::
  "('r, 't) adapter_env \<Rightarrow> pystr \<Rightarrow> message \<Rightarrow> 'r work \<Rightarrow> 'r work \<times> (adapter_error + message option)" where
  "consume_record env thread rec w =
     (case admit (env_fingerprint env) (ss_admission (wk_source w)) (rec, None) of
        (adm, Inl e) \<Rightarrow> (w, Inl (AdmissionError e))
      | (adm, Inr False) \<Rightarrow> (w, Inr None)
      | (adm, Inr True) \<Rightarrow>
          let w1 = w\<lparr>wk_source := (wk_source w)\<lparr>ss_admission := adm\<rparr>, wk_resident := count_record (wk_resident w)\<rparr> in
          if jfield rec ''type'' = JStr (lit ''session_meta'') then consume_session_meta thread rec w1
          else consume_event env thread rec w1)"

fun consume_records :: "('r, 't) adapter_env \<Rightarrow> pystr \<Rightarrow> message list \<Rightarrow> 'r work \<Rightarrow> 'r work \<times> (adapter_error + unit)" where
  "consume_records env thread [] w = (w, Inr ())"
| "consume_records env thread (rec # recs) w =
     (case consume_record env thread rec w of
        (w', Inl e) \<Rightarrow> (w', Inl e)
      | (w', Inr None) \<Rightarrow> consume_records env thread recs w'
      | (w', Inr (Some adapted)) \<Rightarrow>
          consume_records env thread recs
            (case env_event_name env adapted of
               None \<Rightarrow> w'\<lparr>wk_changed := True\<rparr>
             | Some name \<Rightarrow> w'\<lparr>wk_unknown := List.insert name (wk_unknown w'), wk_gapped := True, wk_changed := True\<rparr>))"

subsection \<open>Batches\<close>

record 'r batch =
  bt_adapter :: "'r adapter"
  bt_touches :: batch_touches
  bt_changed :: bool

definition no_touches :: batch_touches where
  "no_touches = \<lparr>touched_turn_keys = [], touched_command_hashes = [], touched_path_hashes = [], touched_tool_keys = []\<rparr>"

definition new_source :: "('r, 't) adapter_env \<Rightarrow> pystr \<Rightarrow> source_state" where
  "new_source env thread =
     \<lparr>ss_session_id = lit ''source:'' @ env_source_digest env thread, ss_pending = [], ss_tokens = new_token_accounting,
      ss_lifecycle = initial_lifecycle, ss_admission = []\<rparr>"

definition open_source :: "('r, 't) adapter_env \<Rightarrow> pystr \<Rightarrow> 'r adapter \<Rightarrow> 'r adapter" where
  "open_source env thread ad =
     (case dict_get (ad_sources ad) thread of
        Some _ \<Rightarrow> ad
      | None \<Rightarrow>
          ad\<lparr>ad_sources := dict_set thread (new_source env thread) (ad_sources ad),
             ad_resident := (ad_resident ad)\<lparr>rs_sessions := List.insert (ss_session_id (new_source env thread)) (rs_sessions (ad_resident ad))\<rparr>\<rparr>)"

definition note_malformed :: "nat \<Rightarrow> 'r batch \<Rightarrow> 'r batch" where
  "note_malformed n b =
     (if n = 0 then b
      else let ad = bt_adapter b in
        b\<lparr>bt_adapter := ad\<lparr>ad_resident := (ad_resident ad)\<lparr>rs_malformed_lines := rs_malformed_lines (ad_resident ad) + n\<rparr>, ad_coverage_gapped := True\<rparr>,
          bt_changed := True\<rparr>)"

definition unknown_of :: "'r adapter \<Rightarrow> pystr \<Rightarrow> pystr list" where
  "unknown_of ad thread = (case dict_get (ad_unknown_event_types ad) thread of None \<Rightarrow> [] | Some names \<Rightarrow> names)"

definition work_of :: "source_state \<Rightarrow> pystr \<Rightarrow> 'r batch \<Rightarrow> 'r work" where
  "work_of src thread b =
     \<lparr>wk_resident = ad_resident (bt_adapter b), wk_source = src, wk_touches = bt_touches b,
      wk_unknown = unknown_of (bt_adapter b) thread, wk_gapped = ad_coverage_gapped (bt_adapter b), wk_changed = bt_changed b\<rparr>"

definition write_back :: "pystr \<Rightarrow> 'r work \<Rightarrow> 'r batch \<Rightarrow> 'r batch" where
  "write_back thread w b =
     \<lparr>bt_adapter = (bt_adapter b)
        \<lparr>ad_resident := wk_resident w, ad_sources := dict_set thread (wk_source w) (ad_sources (bt_adapter b)),
         ad_unknown_event_types := (if wk_unknown w = [] then ad_unknown_event_types (bt_adapter b)
            else dict_set thread (wk_unknown w) (ad_unknown_event_types (bt_adapter b))),
         ad_coverage_gapped := wk_gapped w\<rparr>,
      bt_touches = wk_touches w, bt_changed = wk_changed w\<rparr>"

type_synonym prepared_source = "pystr \<times> nat list \<times> message list \<times> nat"

fun consume_source :: "('r, 't) adapter_env \<Rightarrow> prepared_source \<Rightarrow> 'r batch \<Rightarrow> 'r batch \<times> (adapter_error + unit)" where
  "consume_source env (thread, content, recs, malformed) b =
     (let b1 = note_malformed malformed (b\<lparr>bt_adapter := open_source env thread (bt_adapter b)\<rparr>) in
      case dict_get (ad_sources (bt_adapter b1)) thread of
        None \<Rightarrow> (b1, Inl AnalyzerRaised)
      | Some src \<Rightarrow>
          (case consume_records env thread recs (work_of src thread b1) of
             (w, Inl e) \<Rightarrow> (write_back thread w b1, Inl e)
           | (w, Inr _) \<Rightarrow>
               (write_back thread (w\<lparr>wk_source := (wk_source w)\<lparr>ss_pending := ss_pending (wk_source w) @ content\<rparr>\<rparr>) b1, Inr ())))"

fun consume_sources :: "('r, 't) adapter_env \<Rightarrow> prepared_source list \<Rightarrow> 'r batch \<Rightarrow> 'r batch \<times> (adapter_error + unit)" where
  "consume_sources env [] b = (b, Inr ())"
| "consume_sources env (p # ps) b =
     (case consume_source env p b of (b', Inl e) \<Rightarrow> (b', Inl e) | (b', Inr _) \<Rightarrow> consume_sources env ps b')"

definition offered_content :: "'r adapter \<Rightarrow> analyzer_source \<Rightarrow> nat list" where
  "offered_content ad s = (case dict_get (ad_sources ad) (as_thread s) of None \<Rightarrow> as_content s | Some _ \<Rightarrow> as_appended s)"

definition pending_content :: "'r adapter \<Rightarrow> pystr \<Rightarrow> nat list" where
  "pending_content ad thread = (case dict_get (ad_sources ad) thread of None \<Rightarrow> [] | Some src \<Rightarrow> ss_pending src)"

fun prepare_sources :: "('r, 't) adapter_env \<Rightarrow> 'r adapter \<Rightarrow> analyzer_source list \<Rightarrow> adapter_error + prepared_source list" where
  "prepare_sources env ad [] = Inr []"
| "prepare_sources env ad (s # srcs) =
     (let offered = offered_content ad s; pending = pending_content ad (as_thread s) in
      if pending \<noteq> [] \<and> \<not> py_startswith offered pending then Inl RetryDiverged
      else let new_content = drop (length pending) offered in
        case decode_complete_records (env_loads env) new_content of (recs, malformed) \<Rightarrow>
        if \<not> list_all (valid_source_record (as_thread s)) recs then Inl SourceIdentityChanged
        else case prepare_sources env ad srcs of
          Inl e \<Rightarrow> Inl e
        | Inr ps \<Rightarrow> Inr ((as_thread s, new_content, recs, malformed) # ps))"

definition warning_count :: "'r adapter \<Rightarrow> nat" where
  "warning_count ad = sum_list (map (length \<circ> snd) (ad_unknown_event_types ad))"

definition project_batch :: "('r, 't) adapter_env \<Rightarrow> batch_touches \<Rightarrow> 'r adapter \<Rightarrow> 'r adapter option \<times> (adapter_error + calculation)" where
  "project_batch env touches ad =
     (let finish = (\<lambda>ix changed.
            let calc = \<lparr>calc_index = ix, calc_changed_turns = changed, calc_source_count = length (ad_sources ad),
                  calc_warnings = warning_count ad, calc_gapped = ad_coverage_gapped ad\<rparr>
            in (Some (ad\<lparr>ad_index := Some ix, ad_candidate := Some calc\<rparr>), Inr calc))
      in case ad_index ad of
           None \<Rightarrow>
             (case env_turns env (ad_resident ad) of
                None \<Rightarrow> (Some ad, Inl ProjectionFailed)
              | Some turns \<Rightarrow>
                  (case new_index (env_view env (ad_resident ad)) turns of
                     Inl e \<Rightarrow> (Some ad, Inl ProjectionFailed)
                   | Inr ix \<Rightarrow> finish ix turns))
         | Some ix \<Rightarrow>
             (case refresh_index (env_report env) (env_view env (ad_resident ad)) touches ix of
                Inl e \<Rightarrow> (None, Inl ProjectionFailed)
              | Inr (ix', changed) \<Rightarrow> finish ix' changed))"

definition analyze_rollouts ::
  "('r, 't) adapter_env \<Rightarrow> analyzer_source list \<Rightarrow> pystr \<Rightarrow> 'r adapter \<Rightarrow> 'r adapter option \<times> (adapter_error + calculation)" where
  "analyze_rollouts env srcs user ad =
     (if ad_poisoned ad \<noteq> None then (Some ad, Inl Poisoned)
      else if ad_user_id ad \<noteq> None \<and> ad_user_id ad \<noteq> Some user then (Some ad, Inl UserChanged)
      else let ad1 = ad\<lparr>ad_user_id := Some user\<rparr> in
        if \<not> distinct (map as_thread srcs) then (Some ad1, Inl DuplicateThread)
        else case prepare_sources env ad1 srcs of
          Inl e \<Rightarrow> (Some ad1, Inl e)
        | Inr prepared \<Rightarrow>
            (case consume_sources env prepared \<lparr>bt_adapter = ad1, bt_touches = no_touches, bt_changed = False\<rparr> of
               (b, Inl e) \<Rightarrow> (Some ((bt_adapter b)\<lparr>ad_poisoned := Some e\<rparr>), Inl e)
             | (b, Inr _) \<Rightarrow>
                 let ad2 = bt_adapter b in
                 if \<not> bt_changed b \<and> ad_candidate ad2 \<noteq> None then (Some ad2, Inr (the (ad_candidate ad2)))
                 else project_batch env (bt_touches b) (if bt_changed b then ad2\<lparr>ad_revision := Suc (ad_revision ad2)\<rparr> else ad2)))"

definition accept_batch :: "'r adapter \<Rightarrow> 'r adapter" where
  "accept_batch ad = ad\<lparr>ad_sources := map (\<lambda>(k, src). (k, src\<lparr>ss_pending := []\<rparr>)) (ad_sources ad), ad_candidate := None\<rparr>"

subsection \<open>Lines of concatenated content\<close>

lemma split_lines_append: "x = [] \<or> last x = 10 \<Longrightarrow> cur = [] \<or> x \<noteq> [] \<Longrightarrow> split_lines cur (x @ y) = split_lines cur x @ split_lines [] y"
proof (induction cur x rule: split_lines.induct)
  case (2 cur c cs)
  show ?case
  proof (cases "c = 13 \<and> cs \<noteq> [] \<and> hd cs = 10")
    case True
    have "tl cs = [] \<or> last (tl cs) = 10" using "2.prems"(1) True by (cases cs) (auto split: if_splits)
    then have "split_lines [] (tl cs @ y) = split_lines [] (tl cs) @ split_lines [] y"
      using "2.IH"(2) True by simp
    with True show ?thesis by simp
  next
    case False
    then show ?thesis using 2 by (cases "cs = []") auto
  qed
qed auto

lemma decode_lines_append:
  "decode_lines loads (ls @ ls') = (fst (decode_lines loads ls) @ fst (decode_lines loads ls'), snd (decode_lines loads ls) + snd (decode_lines loads ls'))"
  by (induction ls) (auto split: prod.splits option.splits)

lemma decode_append:
  assumes "x = [] \<or> last x = 10"
  shows "decode_complete_records loads (x @ y) =
    (fst (decode_complete_records loads x) @ fst (decode_complete_records loads y),
     snd (decode_complete_records loads x) + snd (decode_complete_records loads y))"
  using split_lines_append [OF assms, of "[]" y] by (simp add: decode_complete_records_def decode_lines_append)

lemma consume_records_append:
  "consume_records env thread (rs @ rs') w =
    (case consume_records env thread rs w of (w', Inl e) \<Rightarrow> (w', Inl e) | (w', Inr _) \<Rightarrow> consume_records env thread rs' w')"
  by (induction rs arbitrary: w) (auto split: prod.splits sum.splits option.splits)

subsection \<open>Feeding one source\<close>

lemma dict_set_same: "dict_get d k = Some v \<Longrightarrow> dict_set k v d = d"
  by (induction k v d rule: dict_set.induct) (auto split: if_splits)

lemma dict_set_again [simp]: "dict_set k v (dict_set k u d) = dict_set k v d"
  by (induction k u d rule: dict_set.induct) auto

definition feed :: "('r, 't) adapter_env \<Rightarrow> pystr \<Rightarrow> nat list \<Rightarrow> 'r batch \<Rightarrow> 'r batch \<times> (adapter_error + unit)" where
  "feed env thread content b =
     (case decode_complete_records (env_loads env) content of (recs, malformed) \<Rightarrow> consume_source env (thread, content, recs, malformed) b)"

lemma open_source_present: "\<exists>src. dict_get (ad_sources (open_source env thread ad)) thread = Some src"
  by (cases "dict_get (ad_sources ad) thread") (auto simp: open_source_def)

lemma open_source_known: "dict_get (ad_sources ad) thread = Some src \<Longrightarrow> open_source env thread ad = ad"
  by (simp add: open_source_def)

lemma note_malformed_0 [simp]: "note_malformed 0 b = b"
  by (simp add: note_malformed_def)

lemma note_malformed_sources [simp]: "ad_sources (bt_adapter (note_malformed n b)) = ad_sources (bt_adapter b)"
  by (simp add: note_malformed_def Let_def)

lemma write_back_simps [simp]:
  "dict_get (ad_sources (bt_adapter (write_back thread w b))) thread = Some (wk_source w)"
  by (simp add: write_back_def)

definition pend :: "nat list \<Rightarrow> 'r work \<Rightarrow> 'r work" where
  "pend c w = w\<lparr>wk_source := (wk_source w)\<lparr>ss_pending := ss_pending (wk_source w) @ c\<rparr>\<rparr>"

text \<open>Consuming does not look at the pending bytes.\<close>

lemma consume_event_pend:
  "consume_event env thread rec (pend c w) = (case consume_event env thread rec w of (w', r) \<Rightarrow> (pend c w', r))"
  by (auto simp: consume_event_def pend_def Let_def bind_active_def split: prod.splits sum.splits option.splits)

lemma consume_record_pend:
  "consume_record env thread rec (pend c w) = (case consume_record env thread rec w of (w', r) \<Rightarrow> (pend c w', r))"
proof -
  have comm: "(pend c w)\<lparr>wk_source := (wk_source (pend c w))\<lparr>ss_admission := adm\<rparr>, wk_resident := res\<rparr> =
      pend c (w\<lparr>wk_source := (wk_source w)\<lparr>ss_admission := adm\<rparr>, wk_resident := res\<rparr>)" for adm res
    by (cases w; cases "wk_source w") (simp add: pend_def)
  have e: "consume_event env thread rec ((pend c w)\<lparr>wk_source := (wk_source (pend c w))\<lparr>ss_admission := adm\<rparr>, wk_resident := res\<rparr>) =
      (case consume_event env thread rec (w\<lparr>wk_source := (wk_source w)\<lparr>ss_admission := adm\<rparr>, wk_resident := res\<rparr>) of (w', r) \<Rightarrow> (pend c w', r))" for adm res
    unfolding comm by (rule consume_event_pend)
  have s: "ss_admission (wk_source (pend c w)) = ss_admission (wk_source w)" "wk_resident (pend c w) = wk_resident w"
    by (simp_all add: pend_def)
  show ?thesis
    unfolding consume_record_def Let_def s e
    by (auto simp: consume_session_meta_def pend_def Let_def split: prod.splits sum.splits bool.splits)
qed

lemma consume_records_pend:
  "consume_records env thread recs (pend c w) = (case consume_records env thread recs w of (w', r) \<Rightarrow> (pend c w', r))"
proof (induction recs arbitrary: w)
  case (Cons rec recs)
  have m: "(pend c w')\<lparr>wk_changed := True\<rparr> = pend c (w'\<lparr>wk_changed := True\<rparr>)"
    "(pend c w')\<lparr>wk_unknown := u, wk_gapped := True, wk_changed := True\<rparr> = pend c (w'\<lparr>wk_unknown := u, wk_gapped := True, wk_changed := True\<rparr>)"
    "wk_unknown (pend c w') = wk_unknown w'" for w' :: "'a work" and u
    by (simp_all add: pend_def)
  obtain w' r where r: "consume_record env thread rec w = (w', r)" by (rule prod.exhaust)
  then have r': "consume_record env thread rec (pend c w) = (pend c w', r)" by (simp add: consume_record_pend)
  show ?case
  proof (cases r)
    case (Inl e)
    then show ?thesis using r r' by simp
  next
    case (Inr x)
    then show ?thesis using r r' Cons.IH by (cases x; cases "env_event_name env (the x)") (simp_all add: m)
  qed
qed simp

lemma consume_record_keeps:
  assumes "consume_record env thread rec w = (w', r)"
  shows "wk_unknown w' = wk_unknown w \<and> ss_pending (wk_source w') = ss_pending (wk_source w)"
  using assms unfolding consume_record_def consume_session_meta_def consume_event_def Let_def
  by (auto split: prod.splits sum.splits bool.splits option.splits if_splits)

lemma consume_records_keeps:
  "consume_records env thread recs w = (w', r) \<Longrightarrow>
    set (wk_unknown w) \<subseteq> set (wk_unknown w') \<and> ss_pending (wk_source w') = ss_pending (wk_source w)"
proof (induction recs arbitrary: w)
  case (Cons rec recs)
  obtain w1 r1 where r1: "consume_record env thread rec w = (w1, r1)" by (rule prod.exhaust)
  note k = consume_record_keeps [OF r1]
  show ?case
  proof (cases r1)
    case (Inl e)
    then show ?thesis using Cons.prems r1 k by auto
  next
    case (Inr x)
    show ?thesis
    proof (cases x)
      case None
      then show ?thesis using Cons.prems Cons.IH [of w1] r1 Inr k by simp
    next
      case (Some a)
      show ?thesis
      proof (cases "env_event_name env a")
        case None
        then show ?thesis using Cons.prems Cons.IH [of "w1\<lparr>wk_changed := True\<rparr>"] r1 Inr Some k by simp
      next
        case (Some name)
        then show ?thesis
          using Cons.prems Cons.IH [of "w1\<lparr>wk_unknown := List.insert name (wk_unknown w1), wk_gapped := True, wk_changed := True\<rparr>"]
            r1 Inr \<open>x = Some a\<close> k by auto
      qed
    qed
  qed
qed simp

text \<open>Writing a work state back and reading it again; writing twice.\<close>

lemma work_of_write_back:
  assumes "set (unknown_of (bt_adapter b) thread) \<subseteq> set (wk_unknown w)"
  shows "work_of (wk_source w) thread (write_back thread w b) = w"
proof -
  have "unknown_of (bt_adapter (write_back thread w b)) thread = wk_unknown w"
    using assms by (auto simp: write_back_def unknown_of_def split: option.splits)
  then show ?thesis by (simp add: work_of_def write_back_def)
qed

lemma write_back_twice:
  assumes "wk_unknown w \<noteq> [] \<Longrightarrow> wk_unknown w' \<noteq> []"
  shows "write_back thread w' (write_back thread w b) = write_back thread w' b"
  using assms by (auto simp: write_back_def)

lemma pend_pend: "pend y (pend x w) = pend (x @ y) w"
  by (simp add: pend_def)

lemma pend_simps [simp]: "wk_unknown (pend c w) = wk_unknown w" "wk_source (pend c w) = (wk_source w)\<lparr>ss_pending := ss_pending (wk_source w) @ c\<rparr>"
  by (simp_all add: pend_def)

text \<open>\<open>consume_source\<close> on an open source.\<close>

lemma consume_source_open:
  assumes "b1 = note_malformed malformed (b\<lparr>bt_adapter := open_source env thread (bt_adapter b)\<rparr>)"
    and "dict_get (ad_sources (bt_adapter b1)) thread = Some src"
  shows "consume_source env (thread, content, recs, malformed) b =
    (case consume_records env thread recs (work_of src thread b1) of
       (w, Inl e) \<Rightarrow> (write_back thread w b1, Inl e)
     | (w, Inr _) \<Rightarrow> (write_back thread (pend content w) b1, Inr ()))"
  unfolding consume_source.simps Let_def assms(1) [symmetric] assms(2) pend_def by simp

lemma feed_append:
  assumes "x = [] \<or> last x = 10" "snd (decode_complete_records (env_loads env) y) = 0"
  shows "case feed env thread x b of
      (b', Inl e) \<Rightarrow> feed env thread (x @ y) b = (b', Inl e)
    | (b', Inr _) \<Rightarrow> snd (feed env thread (x @ y) b) = snd (feed env thread y b') \<and>
        (snd (feed env thread y b') = Inr () \<longrightarrow> feed env thread (x @ y) b = feed env thread y b')"
proof -
  obtain rx m where x: "decode_complete_records (env_loads env) x = (rx, m)" by (rule prod.exhaust)
  obtain ry where y: "decode_complete_records (env_loads env) y = (ry, 0)" using assms(2) by (metis prod.collapse)
  have xy: "decode_complete_records (env_loads env) (x @ y) = (rx @ ry, m)" using decode_append [OF assms(1)] x y by simp
  let ?b1 = "note_malformed m (b\<lparr>bt_adapter := open_source env thread (bt_adapter b)\<rparr>)"
  obtain src where src: "dict_get (ad_sources (bt_adapter ?b1)) thread = Some src"
    using open_source_present [of env thread "bt_adapter b"] by auto
  note c = consume_source_open [OF refl src]
  obtain w r where w: "consume_records env thread rx (work_of src thread ?b1) = (w, r)" by (rule prod.exhaust)
  note k = consume_records_keeps [OF w]
  show ?thesis
  proof (cases r)
    case (Inl e)
    then show ?thesis unfolding feed_def x y xy prod.case c consume_records_append w by simp
  next
    case (Inr u)
    let ?b2 = "write_back thread (pend x w) ?b1"
    have fx: "feed env thread x b = (?b2, Inr ())" unfolding feed_def x prod.case c w Inr by simp
    have known: "dict_get (ad_sources (bt_adapter ?b2)) thread = Some (wk_source (pend x w))" by (simp only: write_back_simps)
    have same: "note_malformed 0 (?b2\<lparr>bt_adapter := open_source env thread (bt_adapter ?b2)\<rparr>) = ?b2"
      unfolding open_source_known [OF known] note_malformed_0 by simp
    have un: "set (unknown_of (bt_adapter ?b1) thread) \<subseteq> set (wk_unknown w)" using k by (simp add: work_of_def)
    then have wo: "work_of (wk_source (pend x w)) thread ?b2 = pend x w" by (intro work_of_write_back) simp
    obtain w' r' where w': "consume_records env thread ry w = (w', r')" by (rule prod.exhaust)
    have tw: "write_back thread v ?b2 = write_back thread v ?b1" if "wk_unknown v = wk_unknown w'" for v
      using consume_records_keeps [OF w'] that by (intro write_back_twice) auto
    have fy: "feed env thread y ?b2 =
        (case r' of Inl e \<Rightarrow> (write_back thread (pend x w') ?b1, Inl e) | Inr _ \<Rightarrow> (write_back thread (pend (x @ y) w') ?b1, Inr ()))"
      unfolding feed_def y prod.case consume_source_open [OF same [symmetric] known] wo consume_records_pend w'
      by (cases r') (simp_all add: tw pend_pend)
    have "feed env thread (x @ y) b =
        (case r' of Inl e \<Rightarrow> (write_back thread w' ?b1, Inl e) | Inr _ \<Rightarrow> (write_back thread (pend (x @ y) w') ?b1, Inr ()))"
      unfolding feed_def xy prod.case c consume_records_append w Inr sum.case w' by (cases r') simp_all
    then show ?thesis unfolding fx prod.case sum.case fy by (cases r') simp_all
  qed
qed

fun feeds :: "('r, 't) adapter_env \<Rightarrow> pystr \<Rightarrow> nat list list \<Rightarrow> 'r batch \<Rightarrow> 'r batch \<times> (adapter_error + unit)" where
  "feeds env thread [] b = (b, Inr ())"
| "feeds env thread (c # cs) b =
     (case feed env thread c b of (b', Inl e) \<Rightarrow> (b', Inl e) | (b', Inr _) \<Rightarrow> feeds env thread cs b')"

definition clean_chunk :: "('r, 't) adapter_env \<Rightarrow> nat list \<Rightarrow> bool" where
  "clean_chunk env c \<longleftrightarrow> c \<noteq> [] \<and> last c = 10 \<and> snd (decode_complete_records (env_loads env) c) = 0"

lemma decode_clean: "list_all (clean_chunk env) cs \<Longrightarrow> snd (decode_complete_records (env_loads env) (concat cs)) = 0"
  by (induction cs) (auto simp: clean_chunk_def decode_append, simp add: decode_complete_records_def)

lemma feed_chunks:
  "c = [] \<or> last c = 10 \<Longrightarrow> list_all (clean_chunk env) cs \<Longrightarrow>
   snd (feed env thread (c @ concat cs) b) = snd (feeds env thread (c # cs) b) \<and>
   (snd (feeds env thread (c # cs) b) = Inr () \<longrightarrow> feed env thread (c @ concat cs) b = feeds env thread (c # cs) b)"
proof (induction cs arbitrary: c b)
  case Nil
  then show ?case by (auto split: prod.splits sum.splits)
next
  case (Cons d cs)
  note a = feed_append [where b = b and thread = thread, OF Cons.prems(1) decode_clean [OF Cons.prems(2)]]
  have d: "d = [] \<or> last d = 10" using Cons.prems(2) by (simp add: clean_chunk_def)
  have cs: "list_all (clean_chunk env) cs" using Cons.prems(2) by simp
  obtain b' r where r: "feed env thread c b = (b', r)" by (rule prod.exhaust)
  show ?case
  proof (cases r)
    case (Inl e)
    then show ?thesis using a r by simp
  next
    case (Inr u)
    then show ?thesis using a r Cons.IH [OF d cs, of b'] by auto
  qed
qed

subsection \<open>Retries\<close>

text \<open>The fields that consuming leaves alone.\<close>

definition untouched :: "'r adapter \<Rightarrow> _" where
  "untouched ad = (ad_user_id ad, ad_revision ad, ad_candidate ad, ad_index ad, ad_poisoned ad)"

lemma consume_source_ok:
  assumes "consume_source env (thread, content, recs, malformed) b = (b', Inr u)"
  shows "pending_content (bt_adapter b') thread = pending_content (bt_adapter b) thread @ content \<and>
    dict_get (ad_sources (bt_adapter b')) thread \<noteq> None \<and>
    (\<forall>t. t \<noteq> thread \<longrightarrow> dict_get (ad_sources (bt_adapter b')) t = dict_get (ad_sources (bt_adapter b)) t) \<and>
    untouched (bt_adapter b') = untouched (bt_adapter b)"
proof -
  let ?b1 = "note_malformed malformed (b\<lparr>bt_adapter := open_source env thread (bt_adapter b)\<rparr>)"
  obtain src where src: "dict_get (ad_sources (bt_adapter ?b1)) thread = Some src"
    using open_source_present [of env thread "bt_adapter b"] by auto
  obtain w r where w: "consume_records env thread recs (work_of src thread ?b1) = (w, r)" by (rule prod.exhaust)
  have b': "b' = write_back thread (pend content w) ?b1"
    using assms unfolding consume_source_open [OF refl src] w by (cases r) auto
  have "ss_pending src = pending_content (bt_adapter b) thread"
    using src by (auto simp: open_source_def pending_content_def new_source_def split: option.splits)
  then have "ss_pending (wk_source w) = pending_content (bt_adapter b) thread"
    using consume_records_keeps [OF w] by (simp add: work_of_def)
  moreover have "untouched (bt_adapter ?b1) = untouched (bt_adapter b)"
    by (simp add: untouched_def note_malformed_def open_source_def Let_def split: option.splits)
  moreover have "dict_get (ad_sources (bt_adapter ?b1)) t = dict_get (ad_sources (bt_adapter b)) t" if "t \<noteq> thread" for t
    using that by (simp add: open_source_def split: option.splits)
  ultimately show ?thesis
    unfolding b' by (simp add: pending_content_def write_back_def untouched_def)
qed

lemma consume_sources_ok:
  "consume_sources env ps b = (b', Inr u) \<Longrightarrow> distinct (map fst ps) \<Longrightarrow>
    (\<forall>p \<in> set ps. pending_content (bt_adapter b') (fst p) = pending_content (bt_adapter b) (fst p) @ fst (snd p) \<and>
       dict_get (ad_sources (bt_adapter b')) (fst p) \<noteq> None) \<and>
    (\<forall>t. t \<notin> set (map fst ps) \<longrightarrow> dict_get (ad_sources (bt_adapter b')) t = dict_get (ad_sources (bt_adapter b)) t) \<and>
    untouched (bt_adapter b') = untouched (bt_adapter b)"
proof (induction ps arbitrary: b)
  case (Cons p ps)
  obtain t content recs malformed where p: "p = (t, content, recs, malformed)" by (metis prod_cases4)
  obtain b1 r where r: "consume_source env p b = (b1, r)" by (rule prod.exhaust)
  then obtain v where v: "r = Inr v" using Cons.prems(1) by (cases r) auto
  note one = consume_source_ok [of env t content recs malformed b b1 v]
  have rest: "consume_sources env ps b1 = (b', Inr u)" using Cons.prems(1) r v by simp
  note ih = Cons.IH [OF rest]
  have pc: "pending_content (bt_adapter b1) t' = pending_content (bt_adapter b) t'" if "t' \<noteq> t" for t'
    using one r v p that by (simp add: pending_content_def)
  have last: "pending_content (bt_adapter b') t = pending_content (bt_adapter b1) t"
    "dict_get (ad_sources (bt_adapter b')) t = dict_get (ad_sources (bt_adapter b1)) t"
    using ih Cons.prems(2) p by (auto simp: pending_content_def)
  have ne: "fst q \<noteq> t" if "q \<in> set ps" for q using Cons.prems(2) p that by force
  have d: "distinct (map fst ps)" using Cons.prems(2) by simp
  have now: "pending_content (bt_adapter b1) t = pending_content (bt_adapter b) t @ content"
      "dict_get (ad_sources (bt_adapter b1)) t \<noteq> None" "untouched (bt_adapter b1) = untouched (bt_adapter b)"
      "\<And>t'. t' \<noteq> t \<Longrightarrow> dict_get (ad_sources (bt_adapter b1)) t' = dict_get (ad_sources (bt_adapter b)) t'"
    using one r v p by auto
  show ?case
  proof (intro conjI ballI allI impI)
    fix q assume q: "q \<in> set (p # ps)"
    show "pending_content (bt_adapter b') (fst q) = pending_content (bt_adapter b) (fst q) @ fst (snd q)"
      using q p ih [OF d] last now(1) pc [OF ne] by auto
    show "dict_get (ad_sources (bt_adapter b')) (fst q) \<noteq> None"
      using q p ih [OF d] last(2) now(2) by (metis fst_conv set_ConsD)
  next
    fix t' assume "t' \<notin> set (map fst (p # ps))"
    then show "dict_get (ad_sources (bt_adapter b')) t' = dict_get (ad_sources (bt_adapter b)) t'" using ih [OF d] now(4) p by simp
  next
    show "untouched (bt_adapter b') = untouched (bt_adapter b)" using ih [OF d] now(3) by simp
  qed
qed simp

lemma prepare_sources_ok:
  "prepare_sources env ad srcs = Inr ps \<Longrightarrow>
    map fst ps = map as_thread srcs \<and>
    (\<forall>s \<in> set srcs. \<exists>content recs malformed. (as_thread s, content, recs, malformed) \<in> set ps \<and>
       pending_content ad (as_thread s) @ content = offered_content ad s)"
proof (induction srcs arbitrary: ps)
  case (Cons s srcs)
  let ?p = "pending_content ad (as_thread s)" and ?o = "offered_content ad s"
  obtain recs m where d: "decode_complete_records (env_loads env) (drop (length ?p) ?o) = (recs, m)" by (rule prod.exhaust)
  have pre: "?p = [] \<or> py_startswith ?o ?p" using Cons.prems by (auto simp: Let_def split: if_splits)
  obtain ps' where ps': "prepare_sources env ad srcs = Inr ps'" "ps = (as_thread s, drop (length ?p) ?o, recs, m) # ps'"
    using Cons.prems d by (auto simp: Let_def split: if_splits sum.splits)
  have "?p @ drop (length ?p) ?o = ?o" using pre by (auto simp: py_startswith_iff)
  then show ?case using Cons.IH [OF ps'(1)] ps'(2) by fastforce
qed simp

lemma consume_source_idle:
  assumes "dict_get (ad_sources (bt_adapter b)) thread = Some src"
  shows "consume_source env (thread, [], [], 0) b = (b, Inr ())"
proof -
  have same: "b = note_malformed 0 (b\<lparr>bt_adapter := open_source env thread (bt_adapter b)\<rparr>)"
    unfolding open_source_known [OF assms] note_malformed_0 by simp
  have "write_back thread (pend [] (work_of src thread b)) b = b"
    using dict_set_same [OF assms]
    by (cases b; cases "bt_adapter b")
      (auto simp: write_back_def pend_def work_of_def unknown_of_def dict_set_same split: option.splits)
  then show ?thesis unfolding consume_source_open [OF same assms] by simp
qed

lemma consume_sources_idle:
  "(\<And>t. t \<in> set ts \<Longrightarrow> dict_get (ad_sources (bt_adapter b)) t \<noteq> None) \<Longrightarrow>
    consume_sources env (map (\<lambda>t. (t, [], [], 0)) ts) b = (b, Inr ())"
proof (induction ts)
  case (Cons t ts)
  then obtain src where "dict_get (ad_sources (bt_adapter b)) t = Some src" by fastforce
  from consume_source_idle [OF this, where env = env] Cons show ?case by (simp del: consume_source.simps)
qed simp

lemma prepare_sources_idle:
  "(\<And>s. s \<in> set srcs \<Longrightarrow> offered_content ad s = pending_content ad (as_thread s)) \<Longrightarrow>
    prepare_sources env ad srcs = Inr (map (\<lambda>t. (t, [], [], 0)) (map as_thread srcs))"
proof (induction srcs)
  case (Cons s srcs)
  have "decode_complete_records (env_loads env) [] = ([], 0)" by (simp add: decode_complete_records_def)
  moreover have "py_startswith x x" for x :: "nat list" by (simp add: py_startswith_iff)
  ultimately show ?case using Cons by (simp add: Let_def)
qed simp

lemma project_batch_ok:
  assumes "project_batch env touches ad = (Some ad', Inr calc)"
  shows "\<exists>ix. ad' = ad\<lparr>ad_index := Some ix, ad_candidate := Some calc\<rparr>"
  using assms by (auto simp: project_batch_def Let_def split: option.splits sum.splits prod.splits)

subsection \<open>Properties\<close>

text \<open>Property C16. Repeating a batch that was analyzed and not accepted consumes nothing twice: the same
  sources give the same calculation and leave the adapter exactly as it is, however many sources the batch has and
  whether they were new or known. For a source that is new, all of its content counts as appended.\<close>

theorem analyze_retry_idempotent:
  assumes "analyze_rollouts env srcs user ad = (Some ad', Inr calc)"
    and "list_all (\<lambda>s. dict_get (ad_sources ad) (as_thread s) \<noteq> None \<or> as_appended s = as_content s) srcs"
  shows "analyze_rollouts env srcs user ad' = (Some ad', Inr calc)"
proof -
  let ?ad1 = "ad\<lparr>ad_user_id := Some user\<rparr>"
  have guards: "ad_poisoned ad = None" "distinct (map as_thread srcs)"
    using assms(1) by (auto simp: analyze_rollouts_def Let_def split: if_splits)
  obtain ps where ps: "prepare_sources env ?ad1 srcs = Inr ps"
    using assms(1) by (auto simp: analyze_rollouts_def Let_def split: if_splits sum.splits)
  obtain b r where b: "consume_sources env ps \<lparr>bt_adapter = ?ad1, bt_touches = no_touches, bt_changed = False\<rparr> = (b, r)"
    by (rule prod.exhaust)
  obtain u where u: "r = Inr u"
    using assms(1) ps b by (cases r) (auto simp: analyze_rollouts_def Let_def split: if_splits)
  note p = prepare_sources_ok [OF ps]
  have dist: "distinct (map fst ps)" using p guards(2) by simp
  note c = consume_sources_ok [OF b [unfolded u] dist, simplified]
  have ad': "ad_sources ad' = ad_sources (bt_adapter b) \<and> ad_candidate ad' = Some calc \<and> ad_user_id ad' = Some user \<and> ad_poisoned ad' = None"
    using assms(1) ps b u guards c
    by (auto simp: analyze_rollouts_def Let_def untouched_def dest!: project_batch_ok split: if_splits)
  have idle: "dict_get (ad_sources ad') (as_thread s) \<noteq> None \<and> offered_content ad' s = pending_content ad' (as_thread s)"
    if s: "s \<in> set srcs" for s
  proof -
    obtain content recs malformed where m: "(as_thread s, content, recs, malformed) \<in> set ps"
        "pending_content ?ad1 (as_thread s) @ content = offered_content ?ad1 s"
      using p s by blast
    have "pending_content (bt_adapter b) (as_thread s) = offered_content ?ad1 s" "dict_get (ad_sources (bt_adapter b)) (as_thread s) \<noteq> None"
      using c m by fastforce+
    moreover have "offered_content ?ad1 s = as_appended s"
      using assms(2) s by (auto simp: offered_content_def list_all_iff split: option.splits)
    ultimately show ?thesis using ad' by (auto simp: offered_content_def pending_content_def)
  qed
  have self: "ad'\<lparr>ad_user_id := Some user\<rparr> = ad'" using ad' by (cases ad') simp
  have "prepare_sources env ad' srcs = Inr (map (\<lambda>t. (t, [], [], 0)) (map as_thread srcs))"
    using idle by (intro prepare_sources_idle) blast
  moreover have "consume_sources env (map (\<lambda>t. (t, [], [], 0)) (map as_thread srcs))
      \<lparr>bt_adapter = ad', bt_touches = no_touches, bt_changed = False\<rparr> = (\<lparr>bt_adapter = ad', bt_touches = no_touches, bt_changed = False\<rparr>, Inr ())"
    using idle by (intro consume_sources_idle) auto
  ultimately show ?thesis
    unfolding analyze_rollouts_def Let_def self using ad' guards(2) by simp
qed

text \<open>Feeding a source in any number of chunks of whole, well-formed lines is the same as
  feeding their concatenation at once: it fails exactly when that fails, with the same error, and when it succeeds the
  analyzer, the state of every source, the unknown events, the touches and the pending bytes are the same.\<close>

theorem chunked_feeding:
  assumes "c = [] \<or> last c = 10" "list_all (clean_chunk env) cs"
  shows "snd (feed env thread (c @ concat cs) b) = snd (feeds env thread (c # cs) b) \<and>
    (snd (feeds env thread (c # cs) b) = Inr () \<longrightarrow> feed env thread (c @ concat cs) b = feeds env thread (c # cs) b)"
  by (rule feed_chunks [OF assms])

subsection \<open>Witnesses\<close>

definition demo_env :: "(unit, turn_statistics) adapter_env" where
  "demo_env = \<lparr>env_loads = (\<lambda>_. Some (JDict [])), env_fingerprint = (\<lambda>_. Some (lit ''f'')), env_digest = id, env_source_digest = id,
     env_command_hash = (\<lambda>_. []), env_event_name = (\<lambda>_. None), env_consume = (\<lambda>_ _ _ r. Some r), env_turns = (\<lambda>_. Some []),
     env_view = (\<lambda>_. demo_analyzer), env_report = Some\<rparr>"

definition demo_source :: analyzer_source where
  "demo_source = \<lparr>as_thread = lit ''a'', as_content = [65, 10], as_appended = [65, 10]\<rparr>"

lemma demo_decode: "decode_complete_records (env_loads demo_env) [65, 10] = ([[]], 0)"
  by (simp add: decode_complete_records_def demo_env_def blank_line_def)

lemma demo_adapt:
  "adapt_token_record [] thread st = (st, Inr [])"
  "adapt_lifecycle_record [] initial_lifecycle =
    (initial_lifecycle, Inr [(lit ''payload'', JDict [(lit ''turn_id'', JStr thread_scope)])])"
proof -
  show "adapt_token_record [] thread st = (st, Inr [])"
    by (simp add: adapt_token_record_def jfield_def Let_def)
  have k: "jfield [] ''type'' = JNull" "payload_of [] = []" "canonical_record_turn_id JNull [] = Inr None"
    by (simp_all add: jfield_def payload_of_def canonical_record_turn_id_def as_id_def)
  have o: "observe initial_lifecycle (as_str JNull, as_str JNull, None) = (initial_lifecycle, \<lparr>obs_codex_turn_id = None, lifecycle_eligible = False\<rparr>)"
    by (simp add: initial_lifecycle_def event_turn_id_def)
  show "adapt_lifecycle_record [] initial_lifecycle =
    (initial_lifecycle, Inr [(lit ''payload'', JDict [(lit ''turn_id'', JStr thread_scope)])])"
    unfolding adapt_lifecycle_record_def Let_def k o sum.case prod.case by (simp add: is_lifecycle_record_def)
qed

lemma demo_consume_event:
  assumes "ss_lifecycle (wk_source w) = initial_lifecycle"
  shows "\<exists>w'. consume_event demo_env thread [] w = (w', Inr (Some [(lit ''payload'', JDict [(lit ''turn_id'', JStr thread_scope)])]))"
  using assms by (simp add: consume_event_def demo_adapt demo_env_def Let_def)

lemma demo_consume:
  assumes "ss_lifecycle (wk_source w) = initial_lifecycle"
  shows "\<exists>w'. consume_records demo_env thread [[]] w = (w', Inr ()) \<and> wk_changed w'"
proof -
  let ?w = "w\<lparr>wk_source := (wk_source w)\<lparr>ss_admission := ss_admission (wk_source w)\<rparr>, wk_resident := count_record (wk_resident w)\<rparr>"
  obtain w' where w': "consume_event demo_env thread [] ?w = (w', Inr (Some [(lit ''payload'', JDict [(lit ''turn_id'', JStr thread_scope)])]))"
    using demo_consume_event [of ?w thread] assms by auto
  have "admit (env_fingerprint demo_env) (ss_admission (wk_source w)) ([], None) = (ss_admission (wk_source w), Inr True)"
    by (simp add: admit_def record_coordinate_def jfield_def)
  then have "consume_record demo_env thread [] w = (w', Inr (Some [(lit ''payload'', JDict [(lit ''turn_id'', JStr thread_scope)])]))"
    unfolding consume_record_def Let_def using w' by (simp add: jfield_def)
  then show ?thesis by (simp add: demo_env_def)
qed

lemma demo_feed:
  "\<exists>b. consume_source demo_env (lit ''a'', [65, 10], [[]], 0)
      \<lparr>bt_adapter = (new_adapter ())\<lparr>ad_user_id := Some u\<rparr>, bt_touches = no_touches, bt_changed = False\<rparr> = (b, Inr ()) \<and>
    bt_changed b \<and> ad_index (bt_adapter b) = None"
proof -
  let ?b = "\<lparr>bt_adapter = (new_adapter ())\<lparr>ad_user_id := Some u\<rparr>, bt_touches = no_touches, bt_changed = False\<rparr>"
  let ?b1 = "note_malformed 0 (?b\<lparr>bt_adapter := open_source demo_env (lit ''a'') (bt_adapter ?b)\<rparr>)"
  have src: "dict_get (ad_sources (bt_adapter ?b1)) (lit ''a'') = Some (new_source demo_env (lit ''a''))"
    by (simp add: open_source_def new_adapter_def)
  obtain w where w: "consume_records demo_env (lit ''a'') [[]] (work_of (new_source demo_env (lit ''a'')) (lit ''a'') ?b1) = (w, Inr ())" "wk_changed w"
    using demo_consume [of "work_of (new_source demo_env (lit ''a'')) (lit ''a'') ?b1" "lit ''a''"]
    by (auto simp: work_of_def new_source_def)
  have "ad_index (bt_adapter ?b1) = None" by (simp add: open_source_def new_adapter_def)
  then show ?thesis
    unfolding consume_source_open [OF refl src] w(1) using w(2) by (simp add: write_back_def pend_def)
qed

theorem analyze_retry_idempotent_witness:
  "\<exists>ad calc. analyze_rollouts demo_env [demo_source] (lit ''u'') (new_adapter ()) = (Some ad, Inr calc) \<and>
     analyze_rollouts demo_env [demo_source] (lit ''u'') ad = (Some ad, Inr calc)"
proof -
  obtain b where b: "consume_source demo_env (lit ''a'', [65, 10], [[]], 0)
      \<lparr>bt_adapter = (new_adapter ())\<lparr>ad_user_id := Some (lit ''u'')\<rparr>, bt_touches = no_touches, bt_changed = False\<rparr> = (b, Inr ())"
    "bt_changed b" "ad_index (bt_adapter b) = None" using demo_feed by blast
  have p: "prepare_sources demo_env ((new_adapter ())\<lparr>ad_user_id := Some (lit ''u'')\<rparr>) [demo_source] = Inr [(lit ''a'', [65, 10], [[]], 0)]"
    by (simp add: new_adapter_def demo_source_def offered_content_def pending_content_def demo_decode valid_source_record_def jfield_def Let_def)
  have t: "\<exists>turns. env_turns demo_env (ad_resident (bt_adapter b)) = Some turns" by (simp add: demo_env_def)
  have "\<exists>ad calc. analyze_rollouts demo_env [demo_source] (lit ''u'') (new_adapter ()) = (Some ad, Inr calc)"
  proof -
    obtain turns ix where "env_turns demo_env (ad_resident (bt_adapter b)) = Some turns"
        "new_index (env_view demo_env (ad_resident (bt_adapter b))) turns = Inr ix"
      using t new_index_ok by blast
    then show ?thesis
      unfolding analyze_rollouts_def Let_def p sum.case using b
      by (simp add: new_adapter_def project_batch_def Let_def del: consume_source.simps)
  qed
  then obtain ad calc where a: "analyze_rollouts demo_env [demo_source] (lit ''u'') (new_adapter ()) = (Some ad, Inr calc)" by blast
  have "list_all (\<lambda>s. dict_get (ad_sources (new_adapter ())) (as_thread s) \<noteq> None \<or> as_appended s = as_content s) [demo_source]"
    by (simp add: demo_source_def)
  from analyze_retry_idempotent [OF a this] a show ?thesis by blast
qed

theorem chunked_feeding_witness:
  "snd (feed demo_env (lit ''a'') [65, 10, 65, 10] \<lparr>bt_adapter = new_adapter (), bt_touches = no_touches, bt_changed = False\<rparr>) =
   snd (feeds demo_env (lit ''a'') [[65, 10], [65, 10]] \<lparr>bt_adapter = new_adapter (), bt_touches = no_touches, bt_changed = False\<rparr>)"
  using chunked_feeding [of "[65, 10]" demo_env "[[65, 10]]" "lit ''a''"] by (simp add: clean_chunk_def demo_decode)

end
