(* ===== verification/Presentation_Policy.thy ===== *)
theory Presentation_Policy
  imports Protocol_Values "HOL-Library.Sublist"
begin

section \<open>Presentation policies\<close>

text \<open>
  \<^verbatim>\<open>src/rodex/presentation_policy.py\<close>: the pipeline that keeps a bounded projection of the App Server's events and
  derives the view that the selected policy admits. An \<^verbatim>\<open>OrderedDict\<close> is a \<open>dict\<close>, a \<^verbatim>\<open>deque\<close> with a maximal
  length a list. Every method runs under one lock, so it is one step. Listeners are numbers, and
  \<open>pp_wakes\<close> is the log of the calls made to them.
\<close>

subsection \<open>Events, selectors and policies\<close>

datatype presentation_surface = NativeSurface | SemanticSurface

datatype presentation_kind = ItemKind | ItemDeltaKind | LifecycleKind | ControlRequestKind | ErrorKind | OtherKind

record presentation_event =
  pe_sequence :: nat
  pe_method :: pystr
  pe_kind :: presentation_kind
  pe_thread_id :: "pystr option"
  pe_turn_id :: "pystr option"
  pe_item_id :: "pystr option"
  pe_item_type :: "pystr option"
  pe_phase :: "pystr option"
  pe_status :: "pystr option"
  pe_text :: "pystr option"

record event_selector =
  sel_methods :: "pystr list option"
  sel_kinds :: "presentation_kind list option"
  sel_item_types :: "pystr list option"
  sel_phases :: "pystr list option"
  sel_statuses :: "pystr list option"

definition wildcard :: "'a list option \<Rightarrow> 'a option \<Rightarrow> bool" where
  "wildcard allowed x = (case allowed of None \<Rightarrow> True | Some xs \<Rightarrow> (case x of None \<Rightarrow> False | Some v \<Rightarrow> v \<in> set xs))"

definition selector_matches :: "event_selector \<Rightarrow> presentation_event \<Rightarrow> bool" where
  "selector_matches sel e \<longleftrightarrow>
     wildcard (sel_methods sel) (Some (pe_method e)) \<and> wildcard (sel_kinds sel) (Some (pe_kind e)) \<and>
     wildcard (sel_item_types sel) (pe_item_type e) \<and> wildcard (sel_phases sel) (pe_phase e) \<and>
     wildcard (sel_statuses sel) (pe_status e)"

record presentation_policy =
  pol_name :: pystr
  pol_surface :: presentation_surface
  pol_visible_events :: "event_selector list"
  pol_heading :: pystr

datatype presentation_error =
    BadPolicyName
  | NoSelectors
  | NoHeading
  | DuplicatePolicies
  | UnknownInitialPolicy
  | UnknownPolicy
  | NoRootThread

definition make_policy :: "presentation_policy \<Rightarrow> presentation_error + presentation_policy" where
  "make_policy p =
     (if pol_name p = [] \<or> list_ex py_isspace (pol_name p) then Inl BadPolicyName
      else if pol_surface p = SemanticSurface \<and> pol_visible_events p = [] then Inl NoSelectors
      else if pol_surface p = SemanticSurface \<and> pol_heading p = [] then Inl NoHeading
      else Inr p)"

definition policy_admits :: "presentation_policy \<Rightarrow> presentation_event \<Rightarrow> bool" where
  "policy_admits p e \<longleftrightarrow> list_ex (\<lambda>sel. selector_matches sel e) (pol_visible_events p)"

definition dark_policy :: presentation_policy where
  "dark_policy = \<lparr>pol_name = lit ''dark'', pol_surface = NativeSurface, pol_visible_events = [], pol_heading = []\<rparr>"

definition light_policy :: presentation_policy where
  "light_policy = \<lparr>pol_name = lit ''light'', pol_surface = SemanticSurface,
     pol_visible_events = [\<lparr>sel_methods = None, sel_kinds = None, sel_item_types = Some [lit ''agentMessage''],
       sel_phases = Some [lit ''commentary''], sel_statuses = None\<rparr>],
     pol_heading = lit ''RODEX LIGHT  commentary only''\<rparr>"

definition PRESENTATION_POLICIES :: "presentation_policy list" where
  "PRESENTATION_POLICIES = [dark_policy, light_policy]"

subsection \<open>State\<close>

record item_text =
  it_thread_id :: pystr
  it_turn_id :: "pystr option"
  it_item_id :: pystr
  it_item_type :: pystr
  it_phase :: "pystr option"
  it_status :: "pystr option"
  it_text :: pystr
  it_complete :: bool

record accumulated_item = item_text +
  it_selector_events :: "presentation_event list"

datatype request_key = RequestInt int | RequestStr pystr

record presentation =
  pp_policies :: "(pystr, presentation_policy) dict"
  pp_selected :: pystr
  pp_root :: "pystr option"
  pp_sequence :: nat
  pp_revision :: nat
  pp_events :: "presentation_event list"
  pp_item_texts :: "(pystr \<times> pystr, accumulated_item) dict"
  pp_item_identities :: "(pystr \<times> pystr, pystr \<times> pystr option) dict"
  pp_request_methods :: "(request_key, pystr) dict"
  pp_listeners :: "nat list"
  pp_wakes :: "nat list"

definition EVENT_HISTORY_LIMIT :: nat where "EVENT_HISTORY_LIMIT = 512"
definition ITEM_TEXT_LIMIT :: nat where "ITEM_TEXT_LIMIT = 128"
definition ITEM_IDENTITY_LIMIT :: nat where "ITEM_IDENTITY_LIMIT = 512"
definition SELECTOR_HISTORY_LIMIT :: nat where "SELECTOR_HISTORY_LIMIT = 8"
definition TEXT_LIMIT_CHARS :: nat where "TEXT_LIMIT_CHARS = 65536"
definition FIELD_LIMIT_CHARS :: nat where "FIELD_LIMIT_CHARS = 1024"
definition HYDRATED_TURN_LIMIT :: nat where "HYDRATED_TURN_LIMIT = 128"
definition HYDRATED_ITEM_LIMIT :: nat where "HYDRATED_ITEM_LIMIT = 256"
definition REQUEST_LIMIT :: nat where "REQUEST_LIMIT = 256"

definition policy_dict :: "presentation_policy list \<Rightarrow> (pystr, presentation_policy) dict" where
  "policy_dict ps = map (\<lambda>p. (pol_name p, p)) ps"

definition new_presentation :: "presentation_policy list \<Rightarrow> pystr \<Rightarrow> presentation_error + presentation" where
  "new_presentation policies initial =
     (if policies = [] \<or> \<not> distinct (map pol_name policies) then Inl DuplicatePolicies
      else if initial \<notin> set (map pol_name policies) then Inl UnknownInitialPolicy
      else Inr \<lparr>pp_policies = policy_dict policies, pp_selected = initial, pp_root = None, pp_sequence = 0, pp_revision = 0,
        pp_events = [], pp_item_texts = [], pp_item_identities = [], pp_request_methods = [], pp_listeners = [], pp_wakes = []\<rparr>)"

text \<open>The selected policy; the invariant below has it among the policies.\<close>

definition selected_policy :: "presentation \<Rightarrow> presentation_policy" where
  "selected_policy s = (case dict_get (pp_policies s) (pp_selected s) of None \<Rightarrow> dark_policy | Some p \<Rightarrow> p)"

definition advance_revision :: "presentation \<Rightarrow> presentation" where
  "advance_revision s = s\<lparr>pp_revision := Suc (pp_revision s), pp_wakes := pp_wakes s @ pp_listeners s\<rparr>"

definition item_admitted :: "presentation_policy \<Rightarrow> accumulated_item \<Rightarrow> bool" where
  "item_admitted p i \<longleftrightarrow> list_ex (policy_admits p) (it_selector_events i)"

definition item_snapshot :: "accumulated_item \<Rightarrow> item_text" where
  "item_snapshot i = item_text.truncate i"

definition event_visible :: "presentation \<Rightarrow> presentation_event \<Rightarrow> bool" where
  "event_visible s e \<longleftrightarrow>
     pol_surface (selected_policy s) = SemanticSurface \<and> pp_root s \<noteq> None \<and> pe_thread_id e = pp_root s \<and>
     policy_admits (selected_policy s) e"

definition visible_item :: "presentation \<Rightarrow> accumulated_item option \<Rightarrow> item_text option" where
  "visible_item s i =
     (case i of
        None \<Rightarrow> None
      | Some x \<Rightarrow>
          if pol_surface (selected_policy s) = SemanticSurface \<and> it_text x \<noteq> [] \<and> pp_root s \<noteq> None \<and>
             Some (it_thread_id x) = pp_root s \<and> item_admitted (selected_policy s) x
          then Some (item_snapshot x) else None)"

record presentation_snapshot =
  ps_revision :: nat
  ps_policy_name :: pystr
  ps_surface :: presentation_surface
  ps_heading :: pystr
  ps_events :: "presentation_event list"
  ps_items :: "item_text list"

definition take_snapshot :: "presentation \<Rightarrow> presentation_snapshot" where
  "take_snapshot s =
     (let p = selected_policy s;
          shape = (\<lambda>es is. \<lparr>ps_revision = pp_revision s, ps_policy_name = pol_name p, ps_surface = pol_surface p,
             ps_heading = pol_heading p, ps_events = es, ps_items = is\<rparr>)
      in if pol_surface p = NativeSurface \<or> pp_root s = None then shape [] []
         else shape (filter (\<lambda>e. pe_thread_id e = pp_root s \<and> policy_admits p e) (pp_events s))
           (map item_snapshot (filter (\<lambda>i. it_text i \<noteq> [] \<and> Some (it_thread_id i) = pp_root s \<and> item_admitted p i)
              (map snd (pp_item_texts s)))))"

subsection \<open>Projecting an event\<close>

definition bounded_optional_text :: "json \<Rightarrow> pystr option" where
  "bounded_optional_text j = map_option (take FIELD_LIMIT_CHARS) (as_id j)"

definition is_item_delta_method :: "pystr \<Rightarrow> bool" where
  "is_item_delta_method m \<longleftrightarrow>
     py_startswith m (lit ''item/'') \<and> (py_endswith m (lit ''/delta'') \<or> py_endswith m (lit ''Delta''))"

definition event_text :: "pystr \<Rightarrow> message \<Rightarrow> message \<Rightarrow> pystr option" where
  "event_text m params item =
     map_option (take TEXT_LIMIT_CHARS) (as_str (if is_item_delta_method m then jfield params ''delta'' else jfield item ''text''))"

definition event_status :: "message \<Rightarrow> message \<Rightarrow> pystr option" where
  "event_status params item =
     (case as_str (jfield item ''status'') of
        Some _ \<Rightarrow> bounded_optional_text (jfield item ''status'')
      | None \<Rightarrow>
          (case as_dict (jfield params ''status'') of
             Some nested \<Rightarrow> bounded_optional_text (jfield nested ''type'')
           | None \<Rightarrow> bounded_optional_text (jpath (jfield params ''turn'') ''status'')))"

definition event_kind :: "pystr \<Rightarrow> message \<Rightarrow> presentation_kind" where
  "event_kind m event =
     (if m = lit ''error'' then ErrorKind
      else if is_item_delta_method m then ItemDeltaKind
      else if m = lit ''item/started'' \<or> m = lit ''item/completed'' then ItemKind
      else if py_startswith m (lit ''turn/'') \<or> py_startswith m (lit ''thread/'') then LifecycleKind
      else if jhas event ''id'' then ControlRequestKind
      else OtherKind)"

definition or_else :: "'a option \<Rightarrow> 'a option \<Rightarrow> 'a option" where
  "or_else a b = (case a of None \<Rightarrow> b | Some _ \<Rightarrow> a)"

definition dict_of :: "json \<Rightarrow> message" where
  "dict_of j = (case as_dict j of None \<Rightarrow> [] | Some d \<Rightarrow> d)"

definition prior_identity :: "presentation \<Rightarrow> pystr option \<Rightarrow> pystr option \<Rightarrow> (pystr \<times> pystr option) option" where
  "prior_identity s thread item_id =
     (case (thread, item_id) of (Some t, Some i) \<Rightarrow> dict_get (pp_item_identities s) (t, i) | _ \<Rightarrow> None)"

definition project_event :: "message \<Rightarrow> presentation \<Rightarrow> presentation \<times> presentation_event option" where
  "project_event event s =
     (case as_id (jfield event ''method'') of
        None \<Rightarrow> (s, None)
      | Some raw \<Rightarrow>
          let params = dict_of (jfield event ''params''); item = dict_of (jfield params ''item'');
              thread = bounded_optional_text (jfield params ''threadId'');
              item_id = or_else (bounded_optional_text (jfield item ''id'')) (bounded_optional_text (jfield params ''itemId''));
              prior = prior_identity s thread item_id
          in (s\<lparr>pp_sequence := Suc (pp_sequence s)\<rparr>,
              Some \<lparr>pe_sequence = Suc (pp_sequence s), pe_method = raw, pe_kind = event_kind raw event, pe_thread_id = thread,
                pe_turn_id = bounded_optional_text (jfield params ''turnId''), pe_item_id = item_id,
                pe_item_type = or_else (bounded_optional_text (jfield item ''type'')) (map_option fst prior),
                pe_phase = or_else (bounded_optional_text (jfield item ''phase'')) (Option.bind prior snd),
                pe_status = event_status params item, pe_text = event_text raw params item\<rparr>))"

subsection \<open>Retaining an event\<close>

text \<open>\<^verbatim>\<open>d[k] = v\<close>, \<^verbatim>\<open>move_to_end(k)\<close> and \<^verbatim>\<open>popitem(last=False)\<close> above the limit.\<close>

definition ordered_put :: "nat \<Rightarrow> 'k \<Rightarrow> 'v \<Rightarrow> ('k, 'v) dict \<Rightarrow> ('k, 'v) dict" where
  "ordered_put limit k v d = (let d' = dict_pop k d @ [(k, v)] in if length d' > limit then tl d' else d')"

definition deque_append :: "nat \<Rightarrow> 'a \<Rightarrow> 'a list \<Rightarrow> 'a list" where
  "deque_append limit x xs = drop (Suc (length xs) - limit) (xs @ [x])"

definition remember_item_identity :: "presentation_event \<Rightarrow> presentation \<Rightarrow> presentation" where
  "remember_item_identity e s =
     (case (pe_thread_id e, pe_item_id e, pe_item_type e) of
        (Some t, Some i, Some ty) \<Rightarrow>
          s\<lparr>pp_item_identities := ordered_put ITEM_IDENTITY_LIMIT (t, i) (ty, pe_phase e) (pp_item_identities s)\<rparr>
      | _ \<Rightarrow> s)"

definition admitted_by_any :: "presentation \<Rightarrow> presentation_event \<Rightarrow> bool" where
  "admitted_by_any s e \<longleftrightarrow> list_ex (\<lambda>(name, p). pol_surface p = SemanticSurface \<and> policy_admits p e) (pp_policies s)"

definition update_item :: "presentation \<Rightarrow> presentation_event \<Rightarrow> pystr \<Rightarrow> accumulated_item \<Rightarrow> accumulated_item" where
  "update_item s e ty i =
     (let i1 = i\<lparr>it_item_type := ty, it_status := or_else (pe_status e) (it_status i), it_turn_id := or_else (pe_turn_id e) (it_turn_id i)\<rparr>;
          i2 = (if pe_kind e = ItemDeltaKind \<and> pe_text e \<noteq> None \<and> pe_text e \<noteq> Some []
                then i1\<lparr>it_text := take TEXT_LIMIT_CHARS (it_text i1 @ the (pe_text e))\<rparr>
                else if pe_method e = lit ''item/completed''
                then i1\<lparr>it_text := (case pe_text e of None \<Rightarrow> it_text i1 | Some t \<Rightarrow> t), it_complete := True\<rparr>
                else i1)
      in if admitted_by_any s e then i2\<lparr>it_selector_events := deque_append SELECTOR_HISTORY_LIMIT e (it_selector_events i2)\<rparr> else i2)"

definition new_item :: "presentation_event \<Rightarrow> pystr \<Rightarrow> pystr \<Rightarrow> pystr \<Rightarrow> accumulated_item" where
  "new_item e t i ty =
     \<lparr>it_thread_id = t, it_turn_id = pe_turn_id e, it_item_id = i, it_item_type = ty, it_phase = pe_phase e, it_status = pe_status e,
      it_text = [], it_complete = False, it_selector_events = []\<rparr>"

definition accumulate_item_text :: "presentation_event \<Rightarrow> presentation \<Rightarrow> presentation \<times> bool" where
  "accumulate_item_text e s =
     (case (pe_item_type e, pe_thread_id e, pe_item_id e) of
        (Some ty, Some t, Some i) \<Rightarrow>
          (case dict_get (pp_item_texts s) (t, i) of
             None \<Rightarrow>
               if \<not> admitted_by_any s e then (s, False)
               else
                 let item = update_item s e ty (new_item e t i ty);
                     texts = pp_item_texts s @ [((t, i), item)];
                     full = length texts > ITEM_TEXT_LIMIT;
                     evicted = full \<and> visible_item s (Some (snd (hd texts))) \<noteq> None
                 in (s\<lparr>pp_item_texts := (if full then tl texts else texts)\<rparr>, evicted \<or> visible_item s None \<noteq> visible_item s (Some item))
           | Some old \<Rightarrow>
               let item = update_item s e ty (old\<lparr>it_phase := or_else (pe_phase e) (it_phase old)\<rparr>)
               in (s\<lparr>pp_item_texts := dict_set (t, i) item (pp_item_texts s)\<rparr>, visible_item s (Some old) \<noteq> visible_item s (Some item)))
      | _ \<Rightarrow> (s, False))"

definition retain_event :: "presentation_event \<Rightarrow> presentation \<Rightarrow> presentation \<times> bool" where
  "retain_event e s =
     (let visible = event_visible s e \<or>
            length (pp_events s) = EVENT_HISTORY_LIMIT \<and> event_visible s (hd (pp_events s));
          s1 = s\<lparr>pp_events := deque_append EVENT_HISTORY_LIMIT e (pp_events s)\<rparr>
      in case accumulate_item_text e (remember_item_identity e s1) of (s2, changed) \<Rightarrow> (s2, changed \<or> visible))"

subsection \<open>Operations\<close>

fun request_key_of :: "json \<Rightarrow> request_key option" where
  "request_key_of (JInt i) = Some (RequestInt i)"
| "request_key_of (JStr t) = Some (RequestStr t)"
| "request_key_of _ = None"

definition subscribe :: "nat \<Rightarrow> presentation \<Rightarrow> presentation" where
  "subscribe l s = s\<lparr>pp_listeners := List.insert l (pp_listeners s)\<rparr>"

definition unsubscribe :: "nat \<Rightarrow> presentation \<Rightarrow> presentation" where
  "unsubscribe l s = s\<lparr>pp_listeners := removeAll l (pp_listeners s)\<rparr>"

definition bind_root_thread :: "pystr \<Rightarrow> presentation \<Rightarrow> presentation \<times> presentation_error option" where
  "bind_root_thread t s =
     (if t = [] then (s, Some NoRootThread)
      else if pp_root s = Some t then (s, None)
      else let s1 = s\<lparr>pp_root := Some t\<rparr> in
        (if pol_surface (selected_policy s1) = SemanticSurface then advance_revision s1 else s1, None))"

definition select_policy :: "pystr \<Rightarrow> presentation \<Rightarrow> presentation \<times> presentation_error option" where
  "select_policy name s =
     (if dict_get (pp_policies s) name = None then (s, Some UnknownPolicy)
      else if pp_selected s = name then (s, None)
      else (advance_revision (s\<lparr>pp_selected := name\<rparr>), None))"

definition observe_protocol_input :: "message option \<Rightarrow> presentation \<Rightarrow> presentation" where
  "observe_protocol_input request s =
     (case request of
        None \<Rightarrow> s
      | Some r \<Rightarrow>
          (case (as_str (jfield r ''method''), request_key_of (jfield r ''id'')) of
             (Some m, Some k) \<Rightarrow> s\<lparr>pp_request_methods := ordered_put REQUEST_LIMIT k m (pp_request_methods s)\<rparr>
           | _ \<Rightarrow> s))"

definition completed_text_matches :: "presentation_event \<Rightarrow> presentation \<Rightarrow> bool" where
  "completed_text_matches e s =
     (case (pe_thread_id e, pe_item_id e) of
        (Some t, Some i) \<Rightarrow>
          (case dict_get (pp_item_texts s) (t, i) of
             None \<Rightarrow> False
           | Some x \<Rightarrow>
               it_complete x \<and> (pe_turn_id e = None \<or> it_turn_id x = pe_turn_id e) \<and> Some (it_item_type x) = pe_item_type e \<and>
               (pe_phase e = None \<or> it_phase x = pe_phase e) \<and> (pe_status e = None \<or> it_status x = pe_status e) \<and>
               it_text x = (case pe_text e of None \<Rightarrow> [] | Some t \<Rightarrow> t))
      | _ \<Rightarrow> False)"

definition hydrate_item :: "pystr \<Rightarrow> pystr option \<Rightarrow> json \<Rightarrow> presentation \<times> bool \<Rightarrow> presentation \<times> bool" where
  "hydrate_item thread turn j p =
     (case (p, as_dict j) of
        ((s, changed), Some item) \<Rightarrow>
          (case (bounded_optional_text (jfield item ''id''), bounded_optional_text (jfield item ''type''),
                 event_text (lit ''item/completed'') [] item) of
             (Some i, Some ty, Some body) \<Rightarrow>
               let s1 = s\<lparr>pp_sequence := Suc (pp_sequence s)\<rparr>;
                   e = \<lparr>pe_sequence = pp_sequence s1, pe_method = lit ''item/completed'', pe_kind = ItemKind, pe_thread_id = Some thread,
                        pe_turn_id = turn, pe_item_id = Some i, pe_item_type = Some ty,
                        pe_phase = bounded_optional_text (jfield item ''phase''), pe_status = event_status [] item, pe_text = Some body\<rparr>
               in if completed_text_matches e s1 then (s1, changed)
                  else (case retain_event e s1 of (s2, c) \<Rightarrow> (s2, c \<or> changed))
           | _ \<Rightarrow> p)
      | _ \<Rightarrow> p)"

definition latest_of :: "nat \<Rightarrow> 'a list \<Rightarrow> 'a list" where
  "latest_of n xs = drop (length xs - n) xs"

definition hydrate_turn :: "pystr \<Rightarrow> json \<Rightarrow> presentation \<times> bool \<Rightarrow> presentation \<times> bool" where
  "hydrate_turn thread j p =
     (case as_list (jpath j ''items'') of
        None \<Rightarrow> p
      | Some items \<Rightarrow>
          fold (hydrate_item thread (bounded_optional_text (jpath j ''id''))) (latest_of HYDRATED_ITEM_LIMIT items) p)"

definition observe_correlated_response :: "message \<Rightarrow> presentation \<Rightarrow> presentation" where
  "observe_correlated_response response s =
     (case request_key_of (jfield response ''id'') of
        None \<Rightarrow> s
      | Some k \<Rightarrow>
          let s1 = s\<lparr>pp_request_methods := dict_pop k (pp_request_methods s)\<rparr>;
              thread = jpath (jfield response ''result'') ''thread'' in
          if dict_get (pp_request_methods s) k \<noteq> Some (lit ''thread/read'') then s1
          else (case (bounded_optional_text (jpath thread ''id''), as_list (jpath thread ''turns'')) of
                  (Some t, Some turns) \<Rightarrow>
                    (case fold (hydrate_turn t) (latest_of HYDRATED_TURN_LIMIT turns) (s1, False) of
                       (s2, changed) \<Rightarrow> if changed then advance_revision s2 else s2)
                | _ \<Rightarrow> s1))"

definition observe_protocol_output :: "message option \<Rightarrow> presentation \<Rightarrow> presentation" where
  "observe_protocol_output event s =
     (case event of
        None \<Rightarrow> s
      | Some ev \<Rightarrow>
          if as_str (jfield ev ''method'') = None then observe_correlated_response ev s
          else (case project_event ev s of
                  (s1, None) \<Rightarrow> s1
                | (s1, Some e) \<Rightarrow> (case retain_event e s1 of (s2, changed) \<Rightarrow> if changed then advance_revision s2 else s2)))"

definition reset_after_disconnect :: "presentation \<Rightarrow> presentation" where
  "reset_after_disconnect s =
     (let visible = list_ex (\<lambda>(k, i). \<not> it_complete i \<and> visible_item s (Some i) \<noteq> None) (pp_item_texts s);
          s1 = s\<lparr>pp_item_texts := filter (\<lambda>(k, i). it_complete i) (pp_item_texts s), pp_item_identities := [], pp_request_methods := []\<rparr>
      in if visible then advance_revision s1 else s1)"

datatype presentation_op =
    BindRoot pystr
  | SelectPolicy pystr
  | ObserveInput "message option"
  | ObserveOutput "message option"
  | ResetAfterDisconnect
  | Subscribe nat
  | Unsubscribe nat

fun presentation_step :: "presentation \<Rightarrow> presentation_op \<Rightarrow> presentation" where
  "presentation_step s (BindRoot t) = fst (bind_root_thread t s)"
| "presentation_step s (SelectPolicy n) = fst (select_policy n s)"
| "presentation_step s (ObserveInput r) = observe_protocol_input r s"
| "presentation_step s (ObserveOutput e) = observe_protocol_output e s"
| "presentation_step s ResetAfterDisconnect = reset_after_disconnect s"
| "presentation_step s (Subscribe l) = subscribe l s"
| "presentation_step s (Unsubscribe l) = unsubscribe l s"

datatype delivery_outcome = PolicyRejected pystr | PolicySelected pystr

text \<open>The adapter that other components select a policy through; \<open>None\<close> is a payload that is not text.\<close>

definition deliver_policy :: "pystr option \<Rightarrow> presentation \<Rightarrow> presentation \<times> delivery_outcome" where
  "deliver_policy payload s =
     (case payload of
        None \<Rightarrow> (s, PolicyRejected (lit ''presentation selection requires a policy name''))
      | Some name \<Rightarrow>
          (case select_policy name s of
             (s', None) \<Rightarrow> (s', PolicySelected (lit ''presentation policy selected: '' @ name))
           | (s', Some _) \<Rightarrow> (s', PolicyRejected (lit ''unknown presentation policy: '' @ name))))"

subsection \<open>The view and what changes it\<close>

definition view_items :: "presentation \<Rightarrow> (pystr \<times> pystr, accumulated_item) dict \<Rightarrow> item_text list" where
  "view_items s d = List.map_filter (\<lambda>i. visible_item s (Some i)) (map snd d)"

definition view :: "presentation \<Rightarrow> _" where
  "view s = (pol_name (selected_policy s), pol_surface (selected_policy s), pol_heading (selected_policy s),
     filter (event_visible s) (pp_events s), view_items s (pp_item_texts s))"

lemma surface_cases: "pol_surface p \<noteq> NativeSurface \<longleftrightarrow> pol_surface p = SemanticSurface"
  by (cases "pol_surface p") auto

lemma map_filter_visible:
  "List.map_filter (\<lambda>i. if P i then Some (f i) else None) xs = map f (filter P xs)"
  by (induction xs) (simp_all add: map_filter_simps)

text \<open>The view is the snapshot without its revision.\<close>

lemma take_snapshot_view:
  "take_snapshot s = (case view s of (n, sf, h, es, is) \<Rightarrow>
     \<lparr>ps_revision = pp_revision s, ps_policy_name = n, ps_surface = sf, ps_heading = h, ps_events = es, ps_items = is\<rparr>)"
proof (cases "pol_surface (selected_policy s) = NativeSurface \<or> pp_root s = None")
  case True
  then have "event_visible s e = False" "visible_item s (Some i) = None" for e i
    by (auto simp: event_visible_def visible_item_def)
  with True show ?thesis by (simp add: take_snapshot_def view_def view_items_def Let_def List.map_filter_def)
next
  case False
  then have sem: "pol_surface (selected_policy s) = SemanticSurface" "pp_root s \<noteq> None" by (auto simp: surface_cases)
  have "filter (event_visible s) es = filter (\<lambda>e. pe_thread_id e = pp_root s \<and> policy_admits (selected_policy s) e) es" for es
    using sem by (intro filter_cong) (auto simp: event_visible_def)
  moreover have "(\<lambda>i. visible_item s (Some i)) = (\<lambda>i. if it_text i \<noteq> [] \<and> Some (it_thread_id i) = pp_root s \<and>
      item_admitted (selected_policy s) i then Some (item_snapshot i) else None)"
    using sem by (auto simp: visible_item_def fun_eq_iff)
  ultimately show ?thesis
    unfolding take_snapshot_def view_def view_items_def Let_def if_not_P [OF False] by (simp add: map_filter_visible)
qed

text \<open>What the visibility of events and items depends on.\<close>

definition same_lens :: "presentation \<Rightarrow> presentation \<Rightarrow> bool" where
  "same_lens s t \<longleftrightarrow> pp_policies s = pp_policies t \<and> pp_selected s = pp_selected t \<and> pp_root s = pp_root t"

lemma same_lens_visible:
  assumes "same_lens s t"
  shows "selected_policy s = selected_policy t" "event_visible s = event_visible t" "visible_item s = visible_item t" "view_items s = view_items t"
    "admitted_by_any s = admitted_by_any t"
proof -
  show p: "selected_policy s = selected_policy t" using assms by (simp add: same_lens_def selected_policy_def)
  show "event_visible s = event_visible t" using assms p by (auto simp: same_lens_def event_visible_def fun_eq_iff)
  show v: "visible_item s = visible_item t" using assms p by (auto simp: same_lens_def visible_item_def fun_eq_iff split: option.split)
  show "view_items s = view_items t" by (simp add: view_items_def v fun_eq_iff)
  show "admitted_by_any s = admitted_by_any t" using assms by (simp add: same_lens_def admitted_by_any_def fun_eq_iff)
qed

lemma same_lens_refl [simp]: "same_lens s s"
  by (simp add: same_lens_def)

lemma view_items_set:
  assumes "dict_get d k = Some v" "visible_item s (Some v) = visible_item s (Some v')"
  shows "view_items s (dict_set k v' d) = view_items s d"
  using assms
proof (induction k v' d rule: dict_set.induct)
  case (2 k v' k0 v0 d)
  then show ?case by (auto simp: view_items_def map_filter_simps split: if_splits option.splits)
qed simp

lemma view_items_append: "view_items s (d @ e) = view_items s d @ view_items s e"
  by (simp add: view_items_def List.map_filter_def)

lemma view_items_tl: "d \<noteq> [] \<Longrightarrow> visible_item s (Some (snd (hd d))) = None \<Longrightarrow> view_items s (tl d) = view_items s d"
  by (cases d) (auto simp: view_items_def map_filter_simps)

text \<open>The events and the items of a state that differ from those before only when the change is reported.\<close>

definition quiet :: "presentation \<Rightarrow> presentation \<times> bool \<Rightarrow> bool" where
  "quiet s p \<longleftrightarrow> same_lens s (fst p) \<and> pp_revision (fst p) = pp_revision s \<and> pp_listeners (fst p) = pp_listeners s \<and> pp_wakes (fst p) = pp_wakes s \<and>
     (\<not> snd p \<longrightarrow> view (fst p) = view s)"

lemma view_same_lens:
  assumes "same_lens s t" "filter (event_visible s) (pp_events t) = filter (event_visible s) (pp_events s)"
    "view_items s (pp_item_texts t) = view_items s (pp_item_texts s)"
  shows "view t = view s"
  using assms same_lens_visible [OF assms(1)] by (simp add: view_def)

lemma accumulate_quiet: "quiet s (accumulate_item_text e s) \<and> pp_events (fst (accumulate_item_text e s)) = pp_events s"
proof (cases "\<exists>ty t i. pe_item_type e = Some ty \<and> pe_thread_id e = Some t \<and> pe_item_id e = Some i")
  case False
  then have "accumulate_item_text e s = (s, False)" by (auto simp: accumulate_item_text_def split: option.splits)
  then show ?thesis by (simp add: quiet_def)
next
  case True
  then obtain ty t i where k: "pe_item_type e = Some ty" "pe_thread_id e = Some t" "pe_item_id e = Some i" by blast
  show ?thesis
  proof (cases "dict_get (pp_item_texts s) (t, i)")
    case (Some old)
    let ?item = "update_item s e ty (old\<lparr>it_phase := or_else (pe_phase e) (it_phase old)\<rparr>)"
    have "view_items s (dict_set (t, i) ?item (pp_item_texts s)) = view_items s (pp_item_texts s)"
      if "visible_item s (Some old) = visible_item s (Some ?item)" using view_items_set [OF Some that] .
    then show ?thesis
      using k Some by (auto simp: accumulate_item_text_def quiet_def same_lens_def Let_def intro!: view_same_lens)
  next
    case None
    let ?item = "update_item s e ty (new_item e t i ty)"
    let ?texts = "pp_item_texts s @ [((t, i), ?item)]"
    have app: "view_items s ?texts = view_items s (pp_item_texts s)" if "visible_item s (Some ?item) = None"
      using that by (simp add: view_items_append) (simp add: view_items_def map_filter_simps)
    have n: "visible_item s None = None" by (simp add: visible_item_def)
    have tl: "view_items s (tl ?texts) = view_items s (pp_item_texts s)"
      if "visible_item s (Some ?item) = None" "visible_item s (Some (snd (hd ?texts))) = None"
      using view_items_tl [of ?texts s] app that by simp
    show ?thesis
      using k None app tl n
      by (auto simp: accumulate_item_text_def quiet_def same_lens_def Let_def intro!: view_same_lens)
  qed
qed

lemma filter_deque:
  assumes "length xs \<le> n" "0 < n" "\<not> P x" "length xs = n \<Longrightarrow> \<not> P (hd xs)"
  shows "filter P (deque_append n x xs) = filter P xs"
proof (cases "length xs = n")
  case True
  then obtain y ys where "xs = y # ys" using assms(2) by (cases xs) auto
  with True assms(3,4) show ?thesis by (simp add: deque_append_def)
next
  case False
  with assms(1,3) show ?thesis by (simp add: deque_append_def)
qed

lemma retain_quiet:
  assumes "length (pp_events s) \<le> EVENT_HISTORY_LIMIT"
  shows "quiet s (retain_event e s)"
proof -
  let ?s1 = "s\<lparr>pp_events := deque_append EVENT_HISTORY_LIMIT e (pp_events s)\<rparr>"
  let ?s2 = "remember_item_identity e ?s1"
  obtain s3 changed where a: "accumulate_item_text e ?s2 = (s3, changed)" by (rule prod.exhaust)
  have lens: "same_lens s ?s2" "pp_revision ?s2 = pp_revision s" "pp_listeners ?s2 = pp_listeners s" "pp_wakes ?s2 = pp_wakes s"
      "pp_item_texts ?s2 = pp_item_texts s" "pp_events ?s2 = pp_events ?s1"
    by (auto simp: remember_item_identity_def same_lens_def split: option.splits)
  have q: "quiet ?s2 (s3, changed)" using accumulate_quiet [of ?s2 e] a by simp
  let ?visible = "event_visible s e \<or> length (pp_events s) = EVENT_HISTORY_LIMIT \<and> event_visible s (hd (pp_events s))"
  have "filter (event_visible s) (pp_events ?s1) = filter (event_visible s) (pp_events s)" if "\<not> ?visible"
    using filter_deque [OF assms, of "event_visible s" e] that by (simp add: EVENT_HISTORY_LIMIT_def)
  then have v: "view ?s2 = view s" if "\<not> ?visible" using that lens by (intro view_same_lens) auto
  have "retain_event e s = (s3, changed \<or> ?visible)" by (simp add: retain_event_def a Let_def)
  then show ?thesis using q v lens by (auto simp: quiet_def same_lens_def)
qed

subsection \<open>Bounds\<close>

definition short :: "pystr option \<Rightarrow> bool" where
  "short t \<longleftrightarrow> (case t of None \<Rightarrow> True | Some x \<Rightarrow> length x \<le> FIELD_LIMIT_CHARS)"

definition event_bounded :: "presentation_event \<Rightarrow> bool" where
  "event_bounded e \<longleftrightarrow>
     short (pe_thread_id e) \<and> short (pe_turn_id e) \<and> short (pe_item_id e) \<and> short (pe_item_type e) \<and> short (pe_phase e) \<and> short (pe_status e) \<and>
     (case pe_text e of None \<Rightarrow> True | Some x \<Rightarrow> length x \<le> TEXT_LIMIT_CHARS)"

definition item_bounded :: "accumulated_item \<Rightarrow> bool" where
  "item_bounded i \<longleftrightarrow> length (it_text i) \<le> TEXT_LIMIT_CHARS \<and> length (it_selector_events i) \<le> SELECTOR_HISTORY_LIMIT \<and>
     list_all event_bounded (it_selector_events i)"

definition presentation_inv :: "presentation \<Rightarrow> bool" where
  "presentation_inv s \<longleftrightarrow>
     dict_get (pp_policies s) (pp_selected s) \<noteq> None \<and>
     length (pp_events s) \<le> EVENT_HISTORY_LIMIT \<and> list_all event_bounded (pp_events s) \<and>
     length (pp_item_texts s) \<le> ITEM_TEXT_LIMIT \<and> list_all (\<lambda>(k, i). item_bounded i) (pp_item_texts s) \<and>
     length (pp_item_identities s) \<le> ITEM_IDENTITY_LIMIT \<and>
     list_all (\<lambda>(k, ty, ph). short (Some ty) \<and> short ph) (pp_item_identities s) \<and>
     length (pp_request_methods s) \<le> REQUEST_LIMIT"

lemmas limits_defs = EVENT_HISTORY_LIMIT_def ITEM_TEXT_LIMIT_def ITEM_IDENTITY_LIMIT_def SELECTOR_HISTORY_LIMIT_def
  TEXT_LIMIT_CHARS_def FIELD_LIMIT_CHARS_def HYDRATED_TURN_LIMIT_def HYDRATED_ITEM_LIMIT_def REQUEST_LIMIT_def

lemma short_bounded [simp]: "short (bounded_optional_text j)"
  by (auto simp: short_def bounded_optional_text_def as_id_def split: option.splits)

lemma short_None [simp]: "short None"
  by (simp add: short_def)

lemma short_or_else [simp]: "short a \<Longrightarrow> short b \<Longrightarrow> short (or_else a b)"
  by (cases a) (simp_all add: or_else_def)

lemma short_event_status [simp]: "short (event_status params item)"
  by (auto simp: event_status_def split: option.splits)

lemma event_text_bounded: "event_text m params item = Some x \<Longrightarrow> length x \<le> TEXT_LIMIT_CHARS"
  by (auto simp: event_text_def)

lemma deque_append_length: "0 < n \<Longrightarrow> length (deque_append n x xs) \<le> n"
  by (simp add: deque_append_def)

lemma deque_append_all: "list_all P xs \<Longrightarrow> P x \<Longrightarrow> list_all P (deque_append n x xs)"
  unfolding deque_append_def list_all_iff by (auto dest!: in_set_dropD)

lemma ordered_put_length: "length d \<le> n \<Longrightarrow> length (ordered_put n k v d) \<le> n"
  using length_dict_pop_le [of k d] by (auto simp: ordered_put_def Let_def)

lemma list_all_tl: "list_all P xs \<Longrightarrow> list_all P (tl xs)"
  by (cases xs) auto

lemma list_all_dict_pop: "list_all P d \<Longrightarrow> list_all P (dict_pop k d)"
  by (auto simp: dict_pop_def list_all_iff)

lemma ordered_put_all:
  assumes "list_all P d" "P (k, v)"
  shows "list_all P (ordered_put n k v d)"
proof -
  have a: "list_all P (dict_pop k d @ [(k, v)])" using assms by (simp add: list_all_dict_pop)
  show ?thesis unfolding ordered_put_def Let_def using a list_all_tl [OF a] by simp
qed

lemma dict_set_all: "list_all P d \<Longrightarrow> P (k, v) \<Longrightarrow> list_all P (dict_set k v d)"
  using set_dict_set [of k v d] by (auto simp: list_all_iff)

lemma update_item_bounded: "item_bounded i \<Longrightarrow> event_bounded e \<Longrightarrow> item_bounded (update_item s e ty i)"
  using deque_append_length [of SELECTOR_HISTORY_LIMIT e "it_selector_events i"]
  by (auto simp: update_item_def item_bounded_def Let_def event_bounded_def SELECTOR_HISTORY_LIMIT_def intro!: deque_append_all split: option.splits)

lemma new_item_bounded: "item_bounded (new_item e t i ty)"
  by (simp add: item_bounded_def new_item_def)

lemma accumulate_inv:
  assumes "presentation_inv s" "event_bounded e"
  shows "presentation_inv (fst (accumulate_item_text e s))"
proof (cases "\<exists>ty t i. pe_item_type e = Some ty \<and> pe_thread_id e = Some t \<and> pe_item_id e = Some i")
  case False
  then have "accumulate_item_text e s = (s, False)" by (auto simp: accumulate_item_text_def split: option.splits)
  then show ?thesis using assms by simp
next
  case True
  then obtain ty t i where k: "pe_item_type e = Some ty" "pe_thread_id e = Some t" "pe_item_id e = Some i" by blast
  show ?thesis
  proof (cases "dict_get (pp_item_texts s) (t, i)")
    case (Some old)
    have "item_bounded old" using assms(1) map_of_SomeD [OF Some] by (auto simp: presentation_inv_def list_all_iff)
    then have b: "item_bounded (update_item s e ty (old\<lparr>it_phase := or_else (pe_phase e) (it_phase old)\<rparr>))"
      using assms(2) by (intro update_item_bounded) (auto simp: item_bounded_def)
    have "length (dict_set (t, i) x (pp_item_texts s)) = length (pp_item_texts s)" for x
      using map_of_SomeD [OF Some] by (auto simp: length_dict_set intro: rev_image_eqI)
    then show ?thesis
      using k Some assms(1) b by (auto simp: accumulate_item_text_def presentation_inv_def Let_def intro!: dict_set_all)
  next
    case None
    have b: "item_bounded (update_item s e ty (new_item e t i ty))"
      using assms(2) by (intro update_item_bounded new_item_bounded)
    then have a: "list_all (\<lambda>(k, i). item_bounded i) (pp_item_texts s @ [((t, i), update_item s e ty (new_item e t i ty))])"
      using assms(1) by (simp add: presentation_inv_def)
    show ?thesis
      using k None assms(1) a list_all_tl [OF a] by (auto simp: accumulate_item_text_def presentation_inv_def Let_def)
  qed
qed

lemma retain_inv:
  assumes "presentation_inv s" "event_bounded e"
  shows "presentation_inv (fst (retain_event e s))"
proof -
  let ?s1 = "s\<lparr>pp_events := deque_append EVENT_HISTORY_LIMIT e (pp_events s)\<rparr>"
  have s1: "presentation_inv ?s1"
    using assms deque_append_length [of EVENT_HISTORY_LIMIT e "pp_events s"] deque_append_all [of event_bounded "pp_events s" e]
    by (simp add: presentation_inv_def EVENT_HISTORY_LIMIT_def)
  have "presentation_inv (remember_item_identity e ?s1)"
    using s1 assms(2) unfolding remember_item_identity_def
    by (auto simp: presentation_inv_def event_bounded_def intro!: ordered_put_length ordered_put_all split: option.splits)
  from accumulate_inv [OF this assms(2)] show ?thesis
    unfolding retain_event_def Let_def by (auto split: prod.splits)
qed

lemma project_event_bounded:
  assumes "presentation_inv s" "project_event ev s = (s', Some e)"
  shows "event_bounded e \<and> s' = s\<lparr>pp_sequence := Suc (pp_sequence s)\<rparr>"
proof -
  have ids: "short (map_option fst (dict_get (pp_item_identities s) k)) \<and> short (Option.bind (dict_get (pp_item_identities s) k) snd)" for k
    using assms(1) map_of_SomeD [of "pp_item_identities s" k]
    by (cases "dict_get (pp_item_identities s) k") (auto simp: presentation_inv_def list_all_iff)
  have pr: "short (map_option fst (prior_identity s t i))" "short (Option.bind (prior_identity s t i) snd)" for t i
    using ids by (auto simp: prior_identity_def split: option.split)
  obtain raw where "as_id (jfield ev ''method'') = Some raw" using assms(2) by (auto simp: project_event_def split: option.splits)
  with assms(2) pr show ?thesis
    unfolding project_event_def Let_def by (auto simp: event_bounded_def event_text_bounded split: option.split)
qed

subsection \<open>Every step reports what it changes\<close>

text \<open>Either nothing visible changed, or the revision advanced and every listener was called.\<close>

definition reported :: "presentation \<Rightarrow> presentation \<Rightarrow> bool" where
  "reported s t \<longleftrightarrow>
     view t = view s \<and> pp_revision t = pp_revision s \<and> pp_wakes t = pp_wakes s \<or>
     pp_revision t = Suc (pp_revision s) \<and> pp_wakes t = pp_wakes s @ pp_listeners s"

definition good_step :: "presentation \<Rightarrow> presentation \<Rightarrow> bool" where
  "good_step s t \<longleftrightarrow> presentation_inv t \<and> reported s t"

lemma advance_simps [simp]: "presentation_inv (advance_revision s) = presentation_inv s"
  by (simp add: advance_revision_def presentation_inv_def)

lemma quiet_reported:
  assumes "quiet s (t, changed)"
  shows "reported s (if changed then advance_revision t else t)"
  using assms by (auto simp: quiet_def reported_def advance_revision_def)

lemma view_requests [simp]: "view (s\<lparr>pp_request_methods := d\<rparr>) = view s" "view (s\<lparr>pp_sequence := n\<rparr>) = view s" "view (s\<lparr>pp_listeners := l\<rparr>) = view s"
  by (rule view_same_lens; simp add: same_lens_def)+

lemma quiet_sequence: "quiet (s\<lparr>pp_sequence := n\<rparr>) p \<Longrightarrow> quiet s p"
  by (simp add: quiet_def same_lens_def)

lemma quiet_trans:
  assumes "quiet s (s1, c1)" "quiet s1 (s2, c2)"
  shows "quiet s (s2, c2 \<or> c1)"
  using assms by (auto simp: quiet_def same_lens_def)

definition hydrated :: "presentation \<Rightarrow> presentation \<times> bool \<Rightarrow> bool" where
  "hydrated s p \<longleftrightarrow> presentation_inv (fst p) \<and> quiet s p"

lemma sequence_inv [simp]: "presentation_inv (s\<lparr>pp_sequence := n\<rparr>) = presentation_inv s"
  by (simp add: presentation_inv_def)

lemma quiet_set_sequence: "quiet s (t, c) \<Longrightarrow> quiet s (t\<lparr>pp_sequence := n\<rparr>, c)"
  by (auto simp: quiet_def same_lens_def)

lemma hydrate_item_ok:
  assumes "hydrated s p" "short (Some thread)" "short turn"
  shows "hydrated s (hydrate_item thread turn j p)"
proof (cases "\<exists>item i ty body. as_dict j = Some item \<and> bounded_optional_text (jfield item ''id'') = Some i \<and>
    bounded_optional_text (jfield item ''type'') = Some ty \<and> event_text (lit ''item/completed'') [] item = Some body")
  case False
  then have "hydrate_item thread turn j p = p" by (auto simp: hydrate_item_def split: option.splits prod.splits)
  then show ?thesis using assms(1) by simp
next
  case True
  then obtain item i ty body where k: "as_dict j = Some item" "bounded_optional_text (jfield item ''id'') = Some i"
    "bounded_optional_text (jfield item ''type'') = Some ty" "event_text (lit ''item/completed'') [] item = Some body" by blast
  obtain t c where p: "p = (t, c)" by (rule prod.exhaust)
  let ?t = "t\<lparr>pp_sequence := Suc (pp_sequence t)\<rparr>"
  let ?e = "\<lparr>pe_sequence = pp_sequence ?t, pe_method = lit ''item/completed'', pe_kind = ItemKind, pe_thread_id = Some thread,
      pe_turn_id = turn, pe_item_id = Some i, pe_item_type = Some ty,
      pe_phase = bounded_optional_text (jfield item ''phase''), pe_status = event_status [] item, pe_text = Some body\<rparr>"
  have "event_bounded ?e"
    using assms(2,3) k event_text_bounded [OF k(4)] short_bounded [of "jfield item ''id''"] short_bounded [of "jfield item ''type''"]
    by (simp add: event_bounded_def)
  moreover have t: "presentation_inv ?t" "quiet s (?t, c)" using assms(1) p by (simp_all add: hydrated_def quiet_set_sequence)
  moreover obtain t2 c2 where r: "retain_event ?e ?t = (t2, c2)" by (rule prod.exhaust)
  ultimately have t2: "presentation_inv t2" "quiet s (t2, c2 \<or> c)"
    using retain_inv [of ?t ?e] retain_quiet [of ?t ?e] quiet_trans [of s ?t c t2 c2] by (auto simp: presentation_inv_def)
  have "hydrate_item thread turn j p = (if completed_text_matches ?e ?t then (?t, c) else (t2, c2 \<or> c))"
    using k r p by (simp add: hydrate_item_def Let_def)
  then show ?thesis using t t2 by (simp add: hydrated_def)
qed

lemma fold_hydrated: "(\<And>x p. hydrated s p \<Longrightarrow> hydrated s (f x p)) \<Longrightarrow> hydrated s p \<Longrightarrow> hydrated s (fold f xs p)"
  by (induction xs arbitrary: p) auto

lemma hydrate_turn_ok: "hydrated s p \<Longrightarrow> short (Some thread) \<Longrightarrow> hydrated s (hydrate_turn thread j p)"
  unfolding hydrate_turn_def by (auto intro!: fold_hydrated hydrate_item_ok split: option.split)

lemma requests_inv: "presentation_inv s \<Longrightarrow> length d \<le> REQUEST_LIMIT \<Longrightarrow> presentation_inv (s\<lparr>pp_request_methods := d\<rparr>)"
  by (simp add: presentation_inv_def)

lemma response_ok:
  assumes "presentation_inv s"
  shows "good_step s (observe_correlated_response response s)"
proof (cases "request_key_of (jfield response ''id'')")
  case None
  then show ?thesis using assms by (simp add: observe_correlated_response_def good_step_def reported_def)
next
  case (Some k)
  let ?s1 = "s\<lparr>pp_request_methods := dict_pop k (pp_request_methods s)\<rparr>"
  have s1: "presentation_inv ?s1"
    using assms length_dict_pop_le [of k "pp_request_methods s"] by (intro requests_inv) (auto simp: presentation_inv_def)
  then have plain: "good_step s ?s1" by (simp add: good_step_def reported_def)
  have "good_step s (case fold (hydrate_turn t) ts (?s1, False) of (s2, changed) \<Rightarrow> if changed then advance_revision s2 else s2)"
    if "short (Some t)" for t ts
  proof -
    have "hydrated ?s1 (fold (hydrate_turn t) ts (?s1, False))"
      using s1 that by (intro fold_hydrated hydrate_turn_ok) (simp_all add: hydrated_def quiet_def)
    moreover obtain s2 changed where f: "fold (hydrate_turn t) ts (?s1, False) = (s2, changed)" by (rule prod.exhaust)
    ultimately have "presentation_inv s2" "reported ?s1 (if changed then advance_revision s2 else s2)"
      using quiet_reported by (simp_all add: hydrated_def)
    then show ?thesis unfolding f prod.case by (auto simp: good_step_def reported_def)
  qed
  note hyd = this
  let ?thread = "jpath (jfield response ''result'') ''thread''"
  show ?thesis
  proof (cases "dict_get (pp_request_methods s) k = Some (lit ''thread/read'') \<and> bounded_optional_text (jpath ?thread ''id'') \<noteq> None \<and>
      as_list (jpath ?thread ''turns'') \<noteq> None")
    case True
    then obtain t ts where t: "bounded_optional_text (jpath ?thread ''id'') = Some t" "as_list (jpath ?thread ''turns'') = Some ts" by blast
    have "short (Some t)" using short_bounded [of "jpath ?thread ''id''"] t(1) by simp
    from hyd [OF this] Some True t show ?thesis by (simp add: observe_correlated_response_def Let_def)
  next
    case False
    then have "observe_correlated_response response s = ?s1"
      using Some by (auto simp: observe_correlated_response_def Let_def split: option.splits)
    with plain show ?thesis by simp
  qed
qed

lemma output_ok:
  assumes "presentation_inv s"
  shows "good_step s (observe_protocol_output event s)"
proof (cases event)
  case None
  then show ?thesis using assms by (simp add: observe_protocol_output_def good_step_def reported_def)
next
  case (Some ev)
  obtain s1 e where p: "project_event ev s = (s1, e)" by (rule prod.exhaust)
  show ?thesis
  proof (cases e)
    case None
    then have "s1 = s" using p by (auto simp: project_event_def Let_def split: option.splits)
    then show ?thesis using Some p None assms response_ok [OF assms, of ev]
      by (simp add: observe_protocol_output_def good_step_def reported_def)
  next
    case (Some e')
    then have e': "event_bounded e'" "s1 = s\<lparr>pp_sequence := Suc (pp_sequence s)\<rparr>"
      using project_event_bounded [OF assms] p by auto
    have s1: "presentation_inv s1" using assms e'(2) by simp
    obtain s2 changed where r: "retain_event e' s1 = (s2, changed)" by (rule prod.exhaust)
    have "quiet s1 (s2, changed)" using retain_quiet [of s1 e'] s1 r by (auto simp: presentation_inv_def)
    then have "reported s (if changed then advance_revision s2 else s2)"
      using e'(2) quiet_sequence quiet_reported by blast
    moreover have "presentation_inv s2" using retain_inv [OF s1 e'(1)] r by simp
    ultimately have "good_step s (if changed then advance_revision s2 else s2)" by (simp add: good_step_def)
    then show ?thesis using \<open>event = Some ev\<close> p Some r response_ok [OF assms, of ev] by (simp add: observe_protocol_output_def)
  qed
qed

lemma reset_ok:
  assumes "presentation_inv s"
  shows "good_step s (reset_after_disconnect s)"
proof -
  let ?s1 = "s\<lparr>pp_item_texts := filter (\<lambda>(k, i). it_complete i) (pp_item_texts s), pp_item_identities := [], pp_request_methods := []\<rparr>"
  let ?visible = "list_ex (\<lambda>(k, i). \<not> it_complete i \<and> visible_item s (Some i) \<noteq> None) (pp_item_texts s)"
  have "length (filter (\<lambda>(k, i). it_complete i) (pp_item_texts s)) \<le> length (pp_item_texts s)" by simp
  moreover have "length (pp_item_texts s) \<le> ITEM_TEXT_LIMIT" using assms by (simp add: presentation_inv_def)
  ultimately have "length (filter (\<lambda>(k, i). it_complete i) (pp_item_texts s)) \<le> ITEM_TEXT_LIMIT" by (rule order_trans)
  then have inv: "presentation_inv ?s1" using assms by (simp add: presentation_inv_def list_all_iff)
  have "view_items s (filter (\<lambda>(k, i). it_complete i) d) = view_items s d"
    if "\<not> list_ex (\<lambda>(k, i). \<not> it_complete i \<and> visible_item s (Some i) \<noteq> None) d" for d
    using that by (induction d) (auto simp: view_items_def map_filter_simps split: option.splits)
  then have "quiet s (?s1, ?visible)"
    by (auto simp: quiet_def same_lens_def intro!: view_same_lens)
  from quiet_reported [OF this] inv show ?thesis by (simp add: reset_after_disconnect_def good_step_def Let_def)
qed

lemma view_root:
  assumes "pol_surface (selected_policy s) \<noteq> SemanticSurface"
  shows "view (s\<lparr>pp_root := r\<rparr>) = view s"
proof -
  have sel: "selected_policy (s\<lparr>pp_root := r\<rparr>) = selected_policy s" by (simp add: selected_policy_def)
  then have "event_visible (s\<lparr>pp_root := r\<rparr>) e = False" "event_visible s e = False" "visible_item (s\<lparr>pp_root := r\<rparr>) (Some i) = None"
    "visible_item s (Some i) = None" for e i
    using assms by (simp_all add: event_visible_def visible_item_def)
  then show ?thesis using sel by (simp add: view_def view_items_def)
qed

lemma step_ok: "presentation_inv s \<Longrightarrow> good_step s (presentation_step s op)"
proof (cases op)
  case (BindRoot t)
  assume inv: "presentation_inv s"
  then have i: "presentation_inv (s\<lparr>pp_root := Some t\<rparr>)" by (simp add: presentation_inv_def)
  have sel: "selected_policy (s\<lparr>pp_root := Some t\<rparr>) = selected_policy s" by (simp add: selected_policy_def)
  show ?thesis using BindRoot inv i sel view_root [of s "Some t"]
    by (auto simp: bind_root_thread_def good_step_def reported_def Let_def advance_revision_def presentation_inv_def)
next
  case (SelectPolicy n)
  assume "presentation_inv s"
  then show ?thesis using SelectPolicy
    by (auto simp: select_policy_def good_step_def reported_def advance_revision_def presentation_inv_def)
next
  case (ObserveInput r)
  assume inv: "presentation_inv s"
  have "observe_protocol_input r s = s \<or> (\<exists>k m. observe_protocol_input r s = s\<lparr>pp_request_methods := ordered_put REQUEST_LIMIT k m (pp_request_methods s)\<rparr>)"
    by (auto simp: observe_protocol_input_def split: option.splits)
  moreover have "presentation_inv (s\<lparr>pp_request_methods := ordered_put REQUEST_LIMIT k m (pp_request_methods s)\<rparr>)" for k m
    using inv by (intro requests_inv ordered_put_length) (auto simp: presentation_inv_def)
  ultimately show ?thesis using ObserveInput inv by (auto simp: good_step_def reported_def)
next
  case (ObserveOutput e)
  assume "presentation_inv s"
  then show ?thesis using ObserveOutput output_ok by simp
next
  case ResetAfterDisconnect
  assume "presentation_inv s"
  then show ?thesis using ResetAfterDisconnect reset_ok by simp
qed (simp_all add: good_step_def reported_def subscribe_def unsubscribe_def, simp_all add: presentation_inv_def)

subsection \<open>Properties\<close>

definition view_rel :: "presentation \<Rightarrow> presentation \<Rightarrow> bool" where
  "view_rel s t \<longleftrightarrow> pp_revision s \<le> pp_revision t \<and> (pp_revision s = pp_revision t \<longrightarrow> view s = view t)"

interpretation presentation: ordered_machine presentation_step presentation_inv view_rel
proof
  fix s t u op
  assume "view_rel s t" "view_rel t u"
  then show "view_rel s u" by (auto simp: view_rel_def)
next
  fix s op
  assume "presentation_inv s"
  from step_ok [OF this, of op] show "presentation_inv (presentation_step s op)" "view_rel s (presentation_step s op)"
    by (auto simp: good_step_def reported_def view_rel_def)
qed (simp add: view_rel_def)

lemma new_presentation_inv: "new_presentation policies initial = Inr s \<Longrightarrow> presentation_inv s"
  by (auto simp: new_presentation_def presentation_inv_def policy_dict_def map_of_eq_None_iff limits_defs image_image split: if_splits)

text \<open>Property C9. No change of the view is missed: along any sequence of operations the revision never decreases, two
  moments with the same revision have the same snapshot, and an operation after which the snapshot
  differs has called every subscribed listener.\<close>

theorem no_missed_change:
  assumes "new_presentation policies initial = Inr s0"
  shows "let s = foldl presentation_step s0 ops; t = foldl presentation_step s0 (ops @ later) in
    pp_revision s \<le> pp_revision t \<and>
    (pp_revision s = pp_revision t \<longrightarrow> take_snapshot s = take_snapshot t) \<and>
    (take_snapshot (presentation_step s op) \<noteq> take_snapshot s \<longrightarrow>
      pp_wakes (presentation_step s op) = pp_wakes s @ pp_listeners s)"
proof -
  let ?s = "foldl presentation_step s0 ops" and ?t = "foldl presentation_step s0 (ops @ later)"
  have inv: "presentation_inv ?s" using presentation.run_inv new_presentation_inv [OF assms] by blast
  have rel: "view_rel ?s ?t" using presentation.run_rel_between [OF new_presentation_inv [OF assms]] by blast
  have "take_snapshot ?s = take_snapshot ?t" if "pp_revision ?s = pp_revision ?t"
    using rel that unfolding view_rel_def take_snapshot_view by simp
  moreover have "pp_wakes (presentation_step ?s op) = pp_wakes ?s @ pp_listeners ?s"
    if "take_snapshot (presentation_step ?s op) \<noteq> take_snapshot ?s"
    using step_ok [OF inv, of op] that by (auto simp: good_step_def reported_def take_snapshot_view)
  ultimately show ?thesis using rel by (simp add: Let_def view_rel_def del: foldl_append)
qed

text \<open>The projection stays bounded whatever the App Server sends: at most 512 events, 128 item texts of at
  most 65536 characters with at most 8 selector events each, 512 item identities and 256 pending requests,
  and every field of a retained event other than its method and its text has at most 1024 characters.\<close>

theorem presentation_bounded:
  assumes "new_presentation policies initial = Inr s0"
  shows "let s = foldl presentation_step s0 ops in
    length (pp_events s) \<le> 512 \<and> length (pp_item_texts s) \<le> 128 \<and> length (pp_item_identities s) \<le> 512 \<and>
    length (pp_request_methods s) \<le> 256 \<and> list_all event_bounded (pp_events s) \<and>
    list_all (\<lambda>(k, i). length (it_text i) \<le> 65536 \<and> length (it_selector_events i) \<le> 8) (pp_item_texts s) \<and>
    dict_get (pp_policies s) (pp_selected s) \<noteq> None"
proof -
  have "presentation_inv (foldl presentation_step s0 ops)" using presentation.run_inv new_presentation_inv [OF assms] by blast
  then show ?thesis by (auto simp: presentation_inv_def item_bounded_def limits_defs Let_def list_all_iff)
qed

theorem no_missed_change_witness:
  "\<exists>s0. new_presentation PRESENTATION_POLICIES (lit ''dark'') = Inr s0 \<and>
     (let s = foldl presentation_step s0 [Subscribe 7] in
      take_snapshot (presentation_step s (SelectPolicy (lit ''light''))) \<noteq> take_snapshot s \<and>
      pp_wakes (presentation_step s (SelectPolicy (lit ''light''))) = [7])"
proof -
  obtain s0 where s0: "new_presentation PRESENTATION_POLICIES (lit ''dark'') = Inr s0" "pp_selected s0 = lit ''dark''"
      "pp_policies s0 = policy_dict PRESENTATION_POLICIES" "pp_wakes s0 = []" "pp_listeners s0 = []"
    by (simp add: new_presentation_def PRESENTATION_POLICIES_def dark_policy_def light_policy_def)
  let ?s = "foldl presentation_step s0 [Subscribe 7]"
  have d: "take_snapshot (presentation_step ?s (SelectPolicy (lit ''light''))) \<noteq> take_snapshot ?s"
    using s0 by (simp add: take_snapshot_view view_def select_policy_def subscribe_def advance_revision_def policy_dict_def
        PRESENTATION_POLICIES_def dark_policy_def light_policy_def selected_policy_def)
  have "pp_wakes (presentation_step ?s (SelectPolicy (lit ''light''))) = pp_wakes ?s @ pp_listeners ?s"
    using no_missed_change [OF s0(1), of "[Subscribe 7]" "[]" "SelectPolicy (lit ''light'')"] d by (simp only: Let_def simp_thms)
  also have "\<dots> = [7]" using s0 by (simp add: subscribe_def)
  finally show ?thesis using s0(1) d by (auto simp: Let_def)
qed

theorem presentation_bounded_witness:
  "\<exists>s0. new_presentation PRESENTATION_POLICIES (lit ''dark'') = Inr s0 \<and>
     length (pp_events (foldl presentation_step s0 (replicate 600 (ObserveOutput None)))) \<le> 512"
proof -
  obtain s0 where s0: "new_presentation PRESENTATION_POLICIES (lit ''dark'') = Inr s0"
    by (simp add: new_presentation_def PRESENTATION_POLICIES_def dark_policy_def light_policy_def)
  with presentation_bounded [OF s0, of "replicate 600 (ObserveOutput None)"] show ?thesis by (auto simp only: Let_def)
qed

end
