(* ===== verification/Shell_Lexer.thy ===== *)
theory Shell_Lexer
  imports Prelude
begin

section \<open>The search policy's shell lexer\<close>

text \<open>
  \<^verbatim>\<open>lex\<close> and \<^verbatim>\<open>_parse_shell\<close> of \<^verbatim>\<open>src/rodex/pre_tool_use_customer_library/find_rg.py\<close>. A violation is its code and
  stage; the rendered message is left out. Positions are kept as in the code, and the rest of the command
  is passed along in place of indexing.
\<close>

type_synonym search_code = string

record violation =
  v_code :: search_code
  v_stage :: "nat option"

definition fail :: "search_code \<Rightarrow> nat option \<Rightarrow> violation + 'a" where
  "fail code stage = Inl \<lparr>v_code = code, v_stage = stage\<rparr>"

definition bind_check :: "violation + 'a \<Rightarrow> ('a \<Rightarrow> violation + 'b) \<Rightarrow> violation + 'b" where
  "bind_check x f = (case x of Inl e \<Rightarrow> Inl e | Inr v \<Rightarrow> f v)"

lemma bind_check_Inr: "bind_check x f = Inr y \<longleftrightarrow> (\<exists>v. x = Inr v \<and> f v = Inr y)"
  by (cases x) (simp_all add: bind_check_def)

lemma bind_check_simps [simp]: "bind_check (Inr v) f = f v" "bind_check (Inl e) f = Inl e"
  by (simp_all add: bind_check_def)

lemma fail_not_Inr [simp]: "fail c s \<noteq> Inr x" "Inr x \<noteq> fail c s"
  by (simp_all add: fail_def)

subsection \<open>Tokens\<close>

record token =
  tk_text :: pystr
  tk_word :: bool
  tk_start :: nat
  tk_end :: nat
  tk_quoted :: bool

definition SHELL_OPERATORS :: "pystr list" where
  "SHELL_OPERATORS = map lit [''&>>'', ''<<<'', ''<<-'', ''&&'', ''||'', ''|&'', ''>>'', ''<<'', ''>&'', ''<&'', ''<>'', ''>|'', ''&>'',
     ''|'', '';'', ''&'', ''('', '')'', ''<'', ''>''] @ [[10]]"

definition next_operator :: "pystr \<Rightarrow> pystr option" where
  "next_operator rest = List.find (py_startswith rest) SHELL_OPERATORS"

datatype quoting = NoQuote | SingleQuote | DoubleQuote

definition word_break :: "nat \<Rightarrow> bool" where
  "word_break c \<longleftrightarrow> py_isspace c \<or> c \<in> set (lit '';&|<>()'')"

definition expands :: "nat \<Rightarrow> pystr \<Rightarrow> bool" where
  "expands c chars \<longleftrightarrow> c \<in> set (lit ''*?[{}'') \<or> c = 126 \<and> chars = []"

text \<open>The inner loop: the word's characters, whether a part of it was quoted, and what follows it.\<close>

fun scan_word :: "quoting \<Rightarrow> bool \<Rightarrow> pystr \<Rightarrow> pystr \<Rightarrow> violation + (pystr \<times> bool \<times> pystr)" where
  "scan_word q quoted chars [] = (if q = NoQuote then Inr (chars, quoted, []) else fail ''QUOTING'' None)"
| "scan_word q quoted chars (c # cs) =
     (if q = SingleQuote then
        (if c = 39 then scan_word NoQuote True chars cs else scan_word SingleQuote quoted (chars @ [c]) cs)
      else if c = 92 then
        (case cs of
           [] \<Rightarrow> fail ''QUOTING'' None
         | f # cs' \<Rightarrow>
             if f = 10 then scan_word q quoted chars cs'
             else scan_word q quoted (chars @ (if q = DoubleQuote \<and> f \<notin> {36, 96, 34, 92} then [92] else []) @ [f]) cs')
      else if c = 36 \<or> c = 96 then fail ''DYNAMIC_SHELL'' None
      else if c = 34 then scan_word (if q = DoubleQuote then NoQuote else DoubleQuote) True chars cs
      else if q = NoQuote \<and> c = 39 then scan_word SingleQuote True chars cs
      else if q = NoQuote \<and> word_break c then Inr (chars, quoted, c # cs)
      else if q = NoQuote \<and> expands c chars then fail ''SHELL_EXPANSION'' None
      else scan_word q quoted (chars @ [c]) cs)"

lemma scan_word_shrinks: "scan_word q quoted chars cs = Inr (w, b, rest) \<Longrightarrow> length rest \<le> length cs"
proof (induction q quoted chars cs rule: scan_word.induct)
  case (2 q quoted chars c cs)
  then show ?case by (cases cs) (auto split: if_splits)
qed (auto split: if_splits)

lemma scan_word_suffix: "scan_word q quoted chars cs = Inr (w, b, rest) \<Longrightarrow> set rest \<subseteq> set cs"
proof (induction q quoted chars cs rule: scan_word.induct)
  case (2 q quoted chars c cs)
  then show ?case by (cases cs) (auto split: if_splits)
qed (auto split: if_splits)

lemma next_operator_nonempty: "next_operator rest = Some p \<Longrightarrow> p \<noteq> []"
proof -
  assume "next_operator rest = Some p"
  then have "p \<in> set SHELL_OPERATORS" by (auto simp: next_operator_def find_Some_iff)
  then show ?thesis by (auto simp: SHELL_OPERATORS_def lit_def)
qed

text \<open>The outer loop. A word that consumes nothing is possible, at a space that is neither blank nor an operator; the
  limit on tokens ends that loop.\<close>

function lex_from :: "nat \<Rightarrow> pystr \<Rightarrow> token list \<Rightarrow> violation + token list" where
  "lex_from i rest tokens =
     (if rest = [] then Inr tokens
      else if py_startswith rest [92, 10] then lex_from (i + 2) (drop 2 rest) tokens
      else if hd rest \<in> {32, 9, 13} then lex_from (i + 1) (tl rest) tokens
      else if hd rest = 35 then
        (let skip = length (takeWhile (\<lambda>c. c \<noteq> 10) rest) in lex_from (i + skip) (drop skip rest) tokens)
      else case next_operator rest of
        Some p \<Rightarrow>
          lex_from (i + length p) (drop (length p) rest)
            (tokens @ [\<lparr>tk_text = p, tk_word = False, tk_start = i, tk_end = i + length p, tk_quoted = False\<rparr>])
      | None \<Rightarrow>
          (case scan_word NoQuote False [] rest of
             Inl e \<Rightarrow> Inl e
           | Inr (w, quoted, rest') \<Rightarrow>
               let j = i + (length rest - length rest');
                   tokens' = tokens @ [\<lparr>tk_text = w, tk_word = True, tk_start = i, tk_end = j, tk_quoted = quoted\<rparr>]
               in if length tokens' > 2048 then fail ''COMMAND_COMPLEXITY'' None else lex_from j rest' tokens'))"
  by pat_completeness auto
termination
proof (relation "measure (\<lambda>(i, rest, tokens). (2050 - length tokens) + length rest)", goal_cases)
  case (2 i rest tokens)
  then show ?case by (cases rest; cases "tl rest") auto
next
  case (4 i rest tokens)
  have "takeWhile (\<lambda>c. c \<noteq> 10) rest \<noteq> []" using 4 by (cases rest) auto
  with 4 show ?case by (cases rest) auto
next
  case (5 i rest tokens b w y quoted rest' j tokens')
  then have "length rest' \<le> length rest" using scan_word_shrinks [of NoQuote False "[]" rest w quoted rest'] by auto
  with 5 show ?case by auto
next
  case (6 i rest tokens p)
  then show ?case using next_operator_nonempty [of rest p] by (cases rest; cases p) auto
qed auto

declare lex_from.simps [simp del]

definition lex :: "pystr \<Rightarrow> violation + token list" where
  "lex command = (if 0 \<in> set command then fail ''NUL'' None else lex_from 0 command [])"

subsection \<open>Stages\<close>

datatype search_mode = ContentMode | CountMode | CountMatchesMode | FilesWithMatchesMode | FilesWithoutMatchMode | JsonMode | FilesMode
  | FragmentsMode | ExistenceMode | MetadataMode | InventoryMode

datatype stage_source = PathsSource | StreamSource | ExternalStdinSource | NoSource

datatype option_value = NoValue | TextValue pystr | ListValue "pystr list"

record stage =
  st_argv :: "pystr list"
  st_before :: pystr
  st_after :: pystr
  st_redirects :: "(pystr \<times> pystr \<times> pystr) list"
  st_wrappers :: "pystr list"
  st_tool :: pystr
  st_options :: "(pystr \<times> option_value) list"
  st_paths :: "pystr list"
  st_patterns :: "pystr list"
  st_depth :: "nat option"
  st_mode :: search_mode
  st_source :: stage_source
  st_fixed :: bool
  st_engine :: pystr
  st_follow :: bool
  st_unrestricted :: nat

definition new_stage :: "pystr list \<Rightarrow> pystr \<Rightarrow> pystr \<Rightarrow> (pystr \<times> pystr \<times> pystr) list \<Rightarrow> stage" where
  "new_stage argv before after redirects =
     \<lparr>st_argv = argv, st_before = before, st_after = after, st_redirects = redirects, st_wrappers = [], st_tool = [], st_options = [],
      st_paths = [], st_patterns = [], st_depth = None, st_mode = ContentMode, st_source = PathsSource, st_fixed = False,
      st_engine = [], st_follow = False, st_unrestricted = 0\<rparr>"

definition redirect_operators :: "pystr list" where
  "redirect_operators = map lit [''>'', ''>>'', ''<'', ''>&'', ''<&'']"

definition list_operators :: "pystr list" where
  "list_operators = map lit [''|'', ''&&'', ''||'', '';''] @ [[10]]"

text \<open>\<^verbatim>\<open>str.isdigit\<close> and the \<^verbatim>\<open>\d\<close> of a pattern (Unicode 14): the blocks of ten decimal digits, and the
  superscripts, circled and other digits.\<close>

definition decimal_blocks :: "nat list" where
  "decimal_blocks = [
     48, 1632, 1776, 1984, 2406, 2534, 2662, 2790, 2918, 3046, 3174, 3302, 3430, 3558, 3664, 3792, 3872, 4160, 4240, 6112,
     6160, 6470, 6608, 6784, 6800, 6992, 7088, 7232, 7248, 42528, 43216, 43264, 43472, 43504, 43600, 44016, 65296, 66720,
     68912, 69734, 69872, 69942, 70096, 70384, 70736, 70864, 71248, 71360, 71472, 71904, 72016, 72784, 73040, 73120, 92768,
     92864, 93008, 120782, 120792, 120802, 120812, 120822, 123200, 123632, 125264, 130032]"

definition other_digits :: "(nat \<times> nat) list" where
  "other_digits = [
     (178, 179), (185, 185), (4969, 4977), (6618, 6618), (8304, 8304), (8308, 8313), (8320, 8329), (9312, 9320),
     (9332, 9340), (9352, 9360), (9450, 9450), (9461, 9469), (9471, 9471), (10102, 10110), (10112, 10120), (10122, 10130),
     (68160, 68163), (69216, 69224), (69714, 69722), (127232, 127242)]"

definition is_decimal :: "nat \<Rightarrow> bool" where
  "is_decimal c \<longleftrightarrow> list_ex (\<lambda>b. b \<le> c \<and> c < b + 10) decimal_blocks"

definition py_isdigit :: "pystr \<Rightarrow> bool" where
  "py_isdigit s \<longleftrightarrow> s \<noteq> [] \<and> list_all (\<lambda>c. is_decimal c \<or> list_ex (\<lambda>(a, b). a \<le> c \<and> c \<le> b) other_digits) s"

record shell_state =
  sh_words :: "token list"
  sh_redirects :: "(pystr \<times> pystr \<times> pystr) list"
  sh_stages :: "stage list"
  sh_before :: pystr

definition stage_number :: "shell_state \<Rightarrow> nat option" where
  "stage_number s = Some (Suc (length (sh_stages s)))"

definition take_descriptor :: "token \<Rightarrow> shell_state \<Rightarrow> pystr \<times> shell_state" where
  "take_descriptor t s =
     (let default = (if py_startswith (tk_text t) (lit ''<'') then lit ''0'' else lit ''1'') in
      if sh_words s \<noteq> [] \<and> \<not> tk_quoted (last (sh_words s)) \<and> tk_end (last (sh_words s)) = tk_start t \<and>
         py_isdigit (tk_text (last (sh_words s)))
      then (tk_text (last (sh_words s)), s\<lparr>sh_words := butlast (sh_words s)\<rparr>)
      else (default, s))"

fun shell_tokens :: "token list \<Rightarrow> shell_state \<Rightarrow> violation + shell_state" where
  "shell_tokens [] s = Inr s"
| "shell_tokens (t # ts) s =
     (if tk_word t then shell_tokens ts (s\<lparr>sh_words := sh_words s @ [t]\<rparr>)
      else if tk_text t \<in> set redirect_operators then
        (case (take_descriptor t s, ts) of
           ((descriptor, s'), target # ts') \<Rightarrow>
             if \<not> tk_word target then fail ''REDIRECTION'' (stage_number s')
             else shell_tokens ts' (s'\<lparr>sh_redirects := sh_redirects s' @ [(descriptor, tk_text t, tk_text target)]\<rparr>)
         | ((descriptor, s'), []) \<Rightarrow> fail ''REDIRECTION'' (stage_number s'))
      else if tk_text t \<notin> set list_operators then fail ''SHELL_CONTROL'' (stage_number s)
      else if sh_words s \<noteq> [] then
        shell_tokens ts
          \<lparr>sh_words = [], sh_redirects = [],
           sh_stages = sh_stages s @ [new_stage (map tk_text (sh_words s)) (sh_before s) (tk_text t) (sh_redirects s)],
           sh_before = tk_text t\<rparr>
      else if tk_text t \<noteq> lit '';'' \<and> tk_text t \<noteq> [10] then fail ''SHELL_SYNTAX'' (stage_number s)
      else shell_tokens ts s)"

definition finish_shell :: "shell_state \<Rightarrow> violation + stage list" where
  "finish_shell s =
     (let stages = (if sh_words s \<noteq> [] then sh_stages s @ [new_stage (map tk_text (sh_words s)) (sh_before s) [] (sh_redirects s)]
                    else sh_stages s) in
      if sh_words s = [] \<and> (sh_redirects s \<noteq> [] \<or> sh_before s \<in> set (map lit [''|'', ''&&'', ''||''])) then fail ''SHELL_SYNTAX'' (stage_number s)
      else if stages = [] then fail ''EMPTY_COMMAND'' None
      else Inr stages)"

definition parse_shell :: "pystr \<Rightarrow> violation + stage list" where
  "parse_shell command =
     bind_check (lex command) (\<lambda>tokens.
     bind_check (shell_tokens tokens \<lparr>sh_words = [], sh_redirects = [], sh_stages = [], sh_before = []\<rparr>) finish_shell)"

subsection \<open>Quoted arguments\<close>

text \<open>An argument in single quotes, with each single quote closed, escaped and reopened.\<close>

definition quote_body :: "pystr \<Rightarrow> pystr" where
  "quote_body w = concat (map (\<lambda>c. if c = 39 then [39, 92, 39, 39] else [c]) w)"

definition quote_word :: "pystr \<Rightarrow> pystr" where
  "quote_word w = 39 # quote_body w @ [39]"

lemma scan_quote_body: "scan_word SingleQuote b chars (quote_body w @ 39 # rest) = scan_word NoQuote True (chars @ w) rest"
proof (induction w arbitrary: b chars)
  case (Cons c w)
  then show ?case by (cases "c = 39") (auto simp: quote_body_def)
qed (simp add: quote_body_def)

lemma scan_break: "scan_word NoQuote b chars (32 # rest) = Inr (chars, b, 32 # rest)"
  by (simp add: word_break_def py_isspace_def)

lemma scan_quote_word:
  "scan_word NoQuote False [] (quote_word w) = Inr (w, True, [])"
  "scan_word NoQuote False [] (quote_word w @ 32 # rest) = Inr (w, True, 32 # rest)"
  using scan_quote_body [of True "[]" w "[]"] scan_quote_body [of True "[]" w "32 # rest"]
  by (simp_all add: quote_word_def scan_break del: scan_word.simps(2)) simp_all

lemma no_operator_quote: "next_operator (39 # rest) = None"
  by (simp add: next_operator_def SHELL_OPERATORS_def lit_def)

lemma lex_from_word:
  assumes "rest = quote_word w @ tail" "scan_word NoQuote False [] rest = Inr (w, True, tail)" "length tokens < 2048"
  shows "\<exists>j t. lex_from i rest tokens = lex_from j tail (tokens @ [t]) \<and> tk_text t = w \<and> tk_word t"
proof -
  have "hd rest = 39" "rest \<noteq> []" "next_operator rest = None" "\<not> py_startswith rest [92, 10]"
    using assms(1) by (simp_all add: quote_word_def no_operator_quote)
  with assms(2,3) have "lex_from i rest tokens = lex_from (i + (length rest - length tail)) tail
      (tokens @ [\<lparr>tk_text = w, tk_word = True, tk_start = i, tk_end = i + (length rest - length tail), tk_quoted = True\<rparr>])"
    by (subst lex_from.simps) (simp add: Let_def)
  moreover have "tk_text \<lparr>tk_text = w, tk_word = True, tk_start = i, tk_end = e, tk_quoted = True\<rparr> = w"
    "tk_word \<lparr>tk_text = w, tk_word = True, tk_start = i, tk_end = e, tk_quoted = True\<rparr>" for e by simp_all
  ultimately show ?thesis by blast
qed

lemma lex_quoted:
  "ws \<noteq> [] \<Longrightarrow> length tokens + length ws \<le> 2048 \<Longrightarrow>
    \<exists>ts. lex_from i (py_join [32] (map quote_word ws)) tokens = Inr (tokens @ ts) \<and> map tk_text ts = ws \<and> list_all tk_word ts"
proof (induction ws arbitrary: i tokens)
  case (Cons w ws)
  show ?case
  proof (cases "ws = []")
    case True
    have "\<exists>j t. lex_from i (quote_word w) tokens = lex_from j [] (tokens @ [t]) \<and> tk_text t = w \<and> tk_word t"
      using Cons.prems True by (intro lex_from_word) (simp_all add: scan_quote_word)
    then show ?thesis using True by (fastforce simp: lex_from.simps [of _ "[]"])
  next
    case False
    then obtain v vs where vs: "ws = v # vs" by (cases ws) auto
    let ?more = "py_join [32] (map quote_word ws)"
    have j: "py_join [32] (map quote_word (w # ws)) = quote_word w @ 32 # ?more" by (simp add: vs)
    obtain j t where t: "lex_from i (quote_word w @ 32 # ?more) tokens = lex_from j (32 # ?more) (tokens @ [t])" "tk_text t = w" "tk_word t"
      using lex_from_word [OF refl scan_quote_word(2), of tokens] Cons.prems by fastforce
    have blank: "lex_from j (32 # ?more) (tokens @ [t]) = lex_from (j + 1) ?more (tokens @ [t])"
      by (subst lex_from.simps) simp
    obtain ts where "lex_from (j + 1) ?more (tokens @ [t]) = Inr ((tokens @ [t]) @ ts)" "map tk_text ts = ws" "list_all tk_word ts"
      using Cons.IH [OF False, of "tokens @ [t]" "j + 1"] Cons.prems by auto
    with t blank j show ?thesis by (intro exI [of _ "t # ts"]) simp
  qed
qed simp

lemma shell_tokens_words: "list_all tk_word ts \<Longrightarrow> shell_tokens ts s = Inr (s\<lparr>sh_words := sh_words s @ ts\<rparr>)"
  by (induction ts arbitrary: s) auto

subsection \<open>Active expansions\<close>

text \<open>A dollar sign or backquote that is neither escaped nor in single quotes.\<close>

fun active_expansion :: "quoting \<Rightarrow> pystr \<Rightarrow> bool" where
  "active_expansion q [] = False"
| "active_expansion q (c # cs) =
     (if q = SingleQuote then active_expansion (if c = 39 then NoQuote else SingleQuote) cs
      else if c = 92 then (case cs of [] \<Rightarrow> False | f # cs' \<Rightarrow> active_expansion q cs')
      else if c = 36 \<or> c = 96 then True
      else if c = 34 then active_expansion (if q = DoubleQuote then NoQuote else DoubleQuote) cs
      else if q = NoQuote \<and> c = 39 then active_expansion SingleQuote cs
      else active_expansion q cs)"

lemma scan_word_active:
  "scan_word q b chars cs = Inr (w, b', rest) \<Longrightarrow> active_expansion q cs = active_expansion NoQuote rest"
proof (induction q b chars cs rule: scan_word.induct)
  case (2 q b chars c cs)
  then show ?case by (cases cs) (auto split: if_splits)
qed (auto split: if_splits)

definition plain :: "pystr \<Rightarrow> bool" where
  "plain p \<longleftrightarrow> list_all (\<lambda>c. c \<notin> {92, 36, 96, 34, 39}) p"

lemma active_plain: "plain p \<Longrightarrow> active_expansion NoQuote (p @ rest) = active_expansion NoQuote rest"
  by (induction p) (auto simp: plain_def)

lemma next_operator_plain:
  assumes "next_operator rest = Some p"
  shows "plain p \<and> rest = p @ drop (length p) rest"
proof -
  have p: "p \<in> set SHELL_OPERATORS" "py_startswith rest p" using assms by (auto simp: next_operator_def find_Some_iff)
  from p(1) have "plain p" unfolding SHELL_OPERATORS_def plain_def by (auto simp: lit_def)
  with p(2) show ?thesis by (auto simp: py_startswith_iff)
qed

lemma lex_from_active:
  "lex_from i rest tokens = Inr ts \<Longrightarrow> 35 \<notin> set rest \<Longrightarrow> \<not> active_expansion NoQuote rest"
proof (induction i rest tokens rule: lex_from.induct)
  case (1 i rest tokens)
  show ?case
  proof (cases rest)
    case (Cons c cs)
    then have h: "hd rest = c" "rest \<noteq> []" "c \<noteq> 35" using "1.prems"(2) by auto
    consider (continue) "py_startswith rest [92, 10]" | (blank) "\<not> py_startswith rest [92, 10]" "c \<in> {32, 9, 13}"
      | (op) p where "\<not> py_startswith rest [92, 10]" "c \<notin> {32, 9, 13}" "next_operator rest = Some p"
      | (word) "\<not> py_startswith rest [92, 10]" "c \<notin> {32, 9, 13}" "next_operator rest = None" by fastforce
    then show ?thesis
    proof cases
      case continue
      then obtain r where r: "rest = 92 # 10 # r" by (auto simp: py_startswith_iff)
      have "lex_from (i + 2) r tokens = Inr ts" using "1.prems"(1) r by (simp add: lex_from.simps [of i "92 # 10 # r"])
      then have "\<not> active_expansion NoQuote r" using "1.IH"(1) "1.prems"(2) r by simp
      then show ?thesis using r by simp
    next
      case blank
      then have "lex_from i (c # cs) tokens = lex_from (i + 1) cs tokens" using Cons by (subst lex_from.simps) auto
      then have "lex_from (i + 1) cs tokens = Inr ts" using "1.prems"(1) Cons by simp
      then have "\<not> active_expansion NoQuote cs" using "1.IH"(2) "1.prems"(2) Cons blank by simp
      then show ?thesis using blank Cons by auto
    next
      case op
      have "lex_from (i + length p) (drop (length p) rest)
          (tokens @ [\<lparr>tk_text = p, tk_word = False, tk_start = i, tk_end = i + length p, tk_quoted = False\<rparr>]) = Inr ts"
        (is "?rhs = _")
      proof -
        have "lex_from i rest tokens = ?rhs" using op h by (subst lex_from.simps) simp
        then show ?thesis using "1.prems"(1) by simp
      qed
      moreover have "35 \<notin> set (drop (length p) rest)" using "1.prems"(2) by (meson in_set_dropD)
      ultimately have "\<not> active_expansion NoQuote (drop (length p) rest)"
        using "1.IH"(5) op h by simp
      then show ?thesis using next_operator_plain [OF op(3)] active_plain by metis
    next
      case word
      have u: "lex_from i rest tokens =
          (case scan_word NoQuote False [] rest of
             Inl e \<Rightarrow> Inl e
           | Inr (w, quoted, rest') \<Rightarrow>
               let j = i + (length rest - length rest');
                   tokens' = tokens @ [\<lparr>tk_text = w, tk_word = True, tk_start = i, tk_end = j, tk_quoted = quoted\<rparr>]
               in if length tokens' > 2048 then fail ''COMMAND_COMPLEXITY'' None else lex_from j rest' tokens')"
        using word h by (subst lex_from.simps) simp
      obtain w q r where r: "scan_word NoQuote False [] rest = Inr (w, q, r)"
        using "1.prems"(1) unfolding u by (auto split: sum.splits)
      let ?j = "i + (length rest - length r)"
      let ?ts = "tokens @ [\<lparr>tk_text = w, tk_word = True, tk_start = i, tk_end = ?j, tk_quoted = q\<rparr>]"
      have l: "\<not> 2048 < length ?ts" "lex_from ?j r ?ts = Inr ts"
        using "1.prems"(1) unfolding u r by (auto simp: Let_def split: if_splits)
      have "set r \<subseteq> set rest" using scan_word_suffix [OF r] .
      then have "\<not> active_expansion NoQuote r"
        using "1.IH"(4) [OF _ _ _ _ word(3) r refl refl refl refl] word l "1.prems" Cons by auto
      then show ?thesis using scan_word_active [OF r] by simp
    qed
  qed simp
qed

subsection \<open>Properties\<close>

text \<open>Property C27. The lexer inverts quoting: any list of up to 2048 arguments without a NUL character, each put in
  single quotes and joined by spaces, is read back as one command with exactly these arguments, no redirection
  and no operator.\<close>

theorem quoted_argv_round_trip:
  assumes "ws \<noteq> []" "length ws \<le> 2048" "list_all (\<lambda>w. 0 \<notin> set w) ws"
  shows "parse_shell (py_join [32] (map quote_word ws)) = Inr [new_stage ws [] [] []]"
proof -
  have q: "0 \<notin> set (quote_word w)" if "0 \<notin> set w" for w using that by (auto simp: quote_word_def quote_body_def)
  have "set (py_join [32] xs) \<subseteq> insert 32 (\<Union> (set ` set xs))" for xs :: "pystr list"
    by (induction "[32 :: nat]" xs rule: py_join.induct) auto
  then have "0 \<notin> set (py_join [32] (map quote_word ws))" using assms(3) q by (fastforce simp: list_all_iff)
  moreover obtain ts where ts: "lex_from 0 (py_join [32] (map quote_word ws)) [] = Inr ts" "map tk_text ts = ws" "list_all tk_word ts"
    using lex_quoted [OF assms(1), of "[]" 0] assms(2) by auto
  ultimately have "lex (py_join [32] (map quote_word ws)) = Inr ts" by (simp add: lex_def)
  then show ?thesis using ts assms(1) by (auto simp: parse_shell_def shell_tokens_words finish_shell_def Let_def)
qed

text \<open>A command that the lexer accepts has no active expansion: every dollar sign and backquote of a
  command without comments is escaped or in single quotes.\<close>

theorem lex_refuses_expansion:
  assumes "lex command = Inr ts" "35 \<notin> set command"
  shows "\<not> active_expansion NoQuote command"
  using assms lex_from_active [of 0 command "[]" ts] by (auto simp: lex_def split: if_splits)

theorem quoted_argv_round_trip_witness:
  "parse_shell (py_join [32] (map quote_word [lit ''rg'', [39, 36, 42], []])) = Inr [new_stage [lit ''rg'', [39, 36, 42], []] [] [] []]"
  by (rule quoted_argv_round_trip) (simp_all add: lit_def)

theorem lex_refuses_expansion_witness:
  "\<exists>ts. lex [39, 36, 39] = Inr ts \<and> \<not> active_expansion NoQuote [39, 36, 39]"
proof -
  have "\<exists>ts. lex [39, 36, 39] = Inr ts"
    using lex_quoted [of "[[36]]" "[]" 0] by (auto simp: lex_def quote_word_def quote_body_def)
  then obtain ts where ts: "lex [39, 36, 39] = Inr ts" by blast
  from lex_refuses_expansion [OF this] ts show ?thesis by auto
qed

end
