(* ===== verification/Search_Arguments.thy ===== *)
theory Search_Arguments
  imports Shell_Lexer
begin

section \<open>The search policy's argument parsers\<close>

text \<open>
  The parsers of \<^verbatim>\<open>src/rodex/pre_tool_use_customer_library/find_rg.py\<close> between the lexer and the plan: launcher
  wrappers, the options of \<^verbatim>\<open>rg\<close>, the options and the expression of \<^verbatim>\<open>find\<close>, and the commands allowed to read a
  search's output. Each regular expression of the code is a predicate on the text; a loop over an index is a
  recursion over the rest of the arguments.
\<close>

subsection \<open>Text predicates\<close>

definition decimals :: "pystr \<Rightarrow> bool" where
  "decimals s \<longleftrightarrow> s \<noteq> [] \<and> list_all is_decimal s"

definition ascii_digit :: "nat \<Rightarrow> bool" where
  "ascii_digit c \<longleftrightarrow> 48 \<le> c \<and> c \<le> 57"

definition one_of :: "string \<Rightarrow> nat \<Rightarrow> bool" where
  "one_of cs c \<longleftrightarrow> c \<in> set (lit cs)"

text \<open>\<^verbatim>\<open>-?\d+\<close>\<close>

definition signed_decimals :: "pystr \<Rightarrow> bool" where
  "signed_decimals s \<longleftrightarrow> decimals (if s \<noteq> [] \<and> hd s = 45 then tl s else s)"

text \<open>\<^verbatim>\<open>(?:\d+(?:\.\d*)?|\.\d+)[smhd]?\<close>\<close>

definition duration_text :: "pystr \<Rightarrow> bool" where
  "duration_text s \<longleftrightarrow>
     (let t = (if s \<noteq> [] \<and> one_of ''smhd'' (last s) then butlast s else s);
          whole = takeWhile is_decimal t; rest = dropWhile is_decimal t
      in whole \<noteq> [] \<and> (rest = [] \<or> hd rest = 46 \<and> list_all is_decimal (tl rest)) \<or>
         (t \<noteq> [] \<and> hd t = 46 \<and> decimals (tl t)))"

text \<open>\<^verbatim>\<open>[A-Za-z_][A-Za-z0-9_]*=.*\<close>\<close>

definition name_start :: "nat \<Rightarrow> bool" where
  "name_start c \<longleftrightarrow> 65 \<le> c \<and> c \<le> 90 \<or> 97 \<le> c \<and> c \<le> 122 \<or> c = 95"

definition is_assignment :: "pystr \<Rightarrow> bool" where
  "is_assignment s \<longleftrightarrow>
     s \<noteq> [] \<and> name_start (hd s) \<and>
     (let rest = dropWhile (\<lambda>c. name_start c \<or> ascii_digit c) s in rest \<noteq> [] \<and> hd rest = 61)"

definition ascii_number :: "pystr \<Rightarrow> nat" where
  "ascii_number s = foldl (\<lambda>n c. n * 10 + (c - 48)) 0 s"

definition unsigned_text :: "pystr \<Rightarrow> bool" where
  "unsigned_text s \<longleftrightarrow> s \<noteq> [] \<and> length s \<le> 18 \<and> list_all ascii_digit s"

definition parse_unsigned :: "pystr \<Rightarrow> nat \<Rightarrow> violation + nat" where
  "parse_unsigned s n = (if unsigned_text s then Inr (ascii_number s) else fail ''INVALID_NUMBER'' (Some n))"

text \<open>\<^verbatim>\<open>([0-9]{1,18})([KMG]?)\<close>\<close>

definition size_scale :: "nat \<Rightarrow> nat option" where
  "size_scale c = (if c = 75 then Some 1024 else if c = 77 then Some (1024 ^ 2) else if c = 71 then Some (1024 ^ 3) else None)"

definition size_bytes :: "pystr \<Rightarrow> nat \<Rightarrow> violation + nat" where
  "size_bytes s n =
     (let (ds, scale) = (case (if s = [] then None else size_scale (last s)) of None \<Rightarrow> (s, 1) | Some k \<Rightarrow> (butlast s, k)) in
      if unsigned_text ds then Inr (ascii_number ds * scale) else fail ''INVALID_SIZE'' (Some n))"

subsection \<open>Executables and wrappers\<close>

definition basename :: "pystr \<Rightarrow> pystr" where
  "basename s = rev (takeWhile (\<lambda>c. c \<noteq> 47) (rev s))"

definition executable_name :: "pystr \<Rightarrow> nat \<Rightarrow> violation + pystr" where
  "executable_name s n =
     (let name = basename s in
      if 47 \<in> set s \<and> s \<notin> {lit ''/bin/'' @ name, lit ''/usr/bin/'' @ name, lit ''/usr/local/bin/'' @ name}
      then fail ''EXECUTABLE_IDENTITY'' (Some n) else Inr name)"

definition priority_value_options :: "pystr \<Rightarrow> pystr list" where
  "priority_value_options wrapper =
     (if wrapper = lit ''nice'' then map lit [''-n'', ''--adjustment''] else map lit [''-n'', ''-c'', ''--class'', ''--classdata''])"

definition priority_switch :: "pystr \<Rightarrow> pystr \<Rightarrow> bool" where
  "priority_switch wrapper v \<longleftrightarrow>
     wrapper = lit ''ionice'' \<and> (v = lit ''-t'' \<or> v = lit ''--ignore'') \<or>
     (\<exists>c \<in> {110, 99}. py_startswith v [45, c] \<and> signed_decimals (drop 2 v)) \<or>
     wrapper = lit ''nice'' \<and> py_startswith v [45] \<and> decimals (tl v) \<or>
     list_ex (\<lambda>p. py_startswith p (lit ''--'') \<and> py_startswith v (p @ [61]) \<and> signed_decimals (snd (split_first 61 v)))
       (priority_value_options wrapper)"

fun skip_priority :: "pystr \<Rightarrow> nat \<Rightarrow> pystr list \<Rightarrow> violation + pystr list" where
  "skip_priority wrapper n [] = Inr []"
| "skip_priority wrapper n (v # vs) =
     (if \<not> py_startswith v [45] then Inr (v # vs)
      else if v = lit ''--'' then Inr vs
      else if v \<in> set (priority_value_options wrapper) then
        (case vs of
           [] \<Rightarrow> fail ''WRAPPER_ARGUMENT'' (Some n)
         | a # vs' \<Rightarrow> if signed_decimals a then skip_priority wrapper n vs' else fail ''WRAPPER_ARGUMENT'' (Some n))
      else if priority_switch wrapper v then skip_priority wrapper n vs
      else fail ''WRAPPER_ARGUMENT'' (Some n))"

fun skip_timeout :: "nat \<Rightarrow> pystr list \<Rightarrow> violation + pystr list" where
  "skip_timeout n [] = Inr []"
| "skip_timeout n (v # vs) =
     (if \<not> py_startswith v [45] then Inr (v # vs)
      else if v = lit ''--'' then Inr vs
      else if v \<in> set (map lit [''--foreground'', ''--preserve-status'', ''-v'', ''--verbose'']) then skip_timeout n vs
      else if v \<in> set (map lit [''-k'', ''--kill-after'', ''-s'', ''--signal'']) then (case vs of [] \<Rightarrow> Inr [] | a # vs' \<Rightarrow> skip_timeout n vs')
      else if py_startswith v (lit ''--kill-after='') \<or> py_startswith v (lit ''--signal='') \<or>
              (length v > 2 \<and> hd v = 45 \<and> one_of ''ks'' (v ! 1) \<and> 10 \<notin> set (drop 2 v)) then skip_timeout n vs
      else fail ''WRAPPER_ARGUMENT'' (Some n))"

definition strip_one :: "pystr \<Rightarrow> nat \<Rightarrow> pystr list \<Rightarrow> violation + pystr list option" where
  "strip_one wrapper n vs =
     (if wrapper = lit ''command'' then
        Inr (Some (case vs of [] \<Rightarrow> [] | v # vs' \<Rightarrow> if v = lit ''--'' \<or> v = lit ''-p'' then vs' else vs))
      else if wrapper = lit ''nice'' \<or> wrapper = lit ''ionice'' then bind_check (skip_priority wrapper n vs) (\<lambda>r. Inr (Some r))
      else if wrapper = lit ''timeout'' then
        bind_check (skip_timeout n vs) (\<lambda>r.
          case r of
            [] \<Rightarrow> fail ''WRAPPER_ARGUMENT'' (Some n)
          | d # r' \<Rightarrow> if duration_text d then Inr (Some r') else fail ''WRAPPER_ARGUMENT'' (Some n))
      else Inr None)"

fun strip_wrappers :: "nat \<Rightarrow> nat \<Rightarrow> pystr list \<Rightarrow> pystr list \<Rightarrow> violation + (pystr list \<times> pystr list)" where
  "strip_wrappers 0 n remaining wrappers = fail ''WRAPPER_DEPTH'' (Some n)"
| "strip_wrappers (Suc k) n remaining wrappers =
     (case remaining of
        [] \<Rightarrow> fail ''EMPTY_COMMAND'' (Some n)
      | v # vs \<Rightarrow>
          bind_check (executable_name v n) (\<lambda>wrapper.
          bind_check (strip_one wrapper n vs) (\<lambda>r.
            case r of None \<Rightarrow> Inr (remaining, wrappers) | Some rest \<Rightarrow> strip_wrappers k n rest (wrappers @ [wrapper]))))"

definition is_search_tool :: "pystr \<Rightarrow> bool" where
  "is_search_tool t \<longleftrightarrow> t = lit ''find'' \<or> t = lit ''rg''"

definition search_after_assignments :: "pystr list \<Rightarrow> bool" where
  "search_after_assignments argv \<longleftrightarrow>
     (case dropWhile is_assignment argv of [] \<Rightarrow> False | v # vs \<Rightarrow> is_search_tool (basename v))"

subsection \<open>Options of rg\<close>

definition RG_VALUE_OPTIONS :: "pystr list" where
  "RG_VALUE_OPTIONS = map lit [
     ''regexp'', ''file'', ''after-context'', ''before-context'', ''context'', ''color'', ''colors'', ''context-separator'',
     ''dfa-size-limit'', ''encoding'', ''engine'', ''field-context-separator'', ''field-match-separator'', ''generate'',
     ''glob'', ''hostname-bin'', ''hyperlink-format'', ''iglob'', ''ignore-file'', ''max-columns'', ''max-count'',
     ''max-depth'', ''max-filesize'', ''path-separator'', ''pre'', ''pre-glob'', ''regex-size-limit'', ''replace'', ''sort'',
     ''sortr'', ''threads'', ''type'', ''type-add'', ''type-clear'', ''type-not'']"

definition RG_SWITCH_OPTIONS :: "pystr list" where
  "RG_SWITCH_OPTIONS = map lit [
     ''auto-hybrid-regex'', ''binary'', ''block-buffered'', ''byte-offset'', ''case-sensitive'', ''column'', ''count'',
     ''count-matches'', ''crlf'', ''debug'', ''files'', ''files-with-matches'', ''files-without-match'', ''fixed-strings'',
     ''follow'', ''glob-case-insensitive'', ''heading'', ''help'', ''hidden'', ''ignore-case'',
     ''ignore-file-case-insensitive'', ''include-zero'', ''invert-match'', ''json'', ''line-buffered'', ''line-number'',
     ''line-regexp'', ''mmap'', ''multiline'', ''multiline-dotall'', ''no-config'', ''no-ignore'', ''no-ignore-dot'',
     ''no-ignore-exclude'', ''no-ignore-files'', ''no-ignore-global'', ''no-ignore-messages'', ''no-ignore-parent'',
     ''no-ignore-vcs'', ''no-messages'', ''no-pcre2-unicode'', ''no-require-git'', ''no-unicode'', ''null'', ''null-data'',
     ''one-file-system'', ''only-matching'', ''passthru'', ''pcre2'', ''pcre2-version'', ''pretty'', ''quiet'',
     ''search-zip'', ''smart-case'', ''sort-files'', ''stats'', ''stop-on-nonmatch'', ''text'', ''trace'', ''trim'',
     ''type-list'', ''unrestricted'', ''version'', ''vimgrep'', ''with-filename'', ''word-regexp'', ''no-filename'',
     ''no-line-number'', ''max-columns-preview'', ''no-auto-hybrid-regex'', ''no-binary'', ''no-block-buffered'',
     ''no-byte-offset'', ''no-column'', ''no-crlf'', ''no-fixed-strings'', ''no-follow'', ''no-glob-case-insensitive'',
     ''no-heading'', ''no-hidden'', ''no-ignore-file-case-insensitive'', ''no-include-zero'', ''no-invert-match'',
     ''no-line-buffered'', ''no-mmap'', ''no-multiline'', ''no-multiline-dotall'', ''no-one-file-system'', ''no-pcre2'',
     ''no-search-zip'', ''no-stats'', ''no-text'', ''no-trim'', ''no-max-columns-preview'', ''no-json'',
     ''no-context-separator'', ''no-encoding'', ''no-pre'', ''ignore'', ''ignore-dot'', ''ignore-exclude'', ''ignore-files'',
     ''ignore-global'', ''ignore-messages'', ''ignore-parent'', ''ignore-vcs'', ''messages'', ''pcre2-unicode'',
     ''require-git'', ''unicode'']"

definition RG_SHORT_OPTIONS :: "(nat, pystr) dict" where
  "RG_SHORT_OPTIONS = [
     (110, lit ''line-number''), (78, lit ''no-line-number''), (105, lit ''ignore-case''), (115, lit ''case-sensitive''),
     (83, lit ''smart-case''), (70, lit ''fixed-strings''), (80, lit ''pcre2''), (101, lit ''regexp''), (102, lit ''file''),
     (103, lit ''glob''), (116, lit ''type''), (84, lit ''type-not''), (108, lit ''files-with-matches''),
     (99, lit ''count''), (113, lit ''quiet''), (111, lit ''only-matching''), (118, lit ''invert-match''),
     (119, lit ''word-regexp''), (120, lit ''line-regexp''), (65, lit ''after-context''), (66, lit ''before-context''),
     (67, lit ''context''), (109, lit ''max-count''), (77, lit ''max-columns''), (106, lit ''threads''),
     (100, lit ''max-depth''), (117, lit ''unrestricted''), (46, lit ''hidden''), (76, lit ''follow''), (97, lit ''text''),
     (98, lit ''byte-offset''), (72, lit ''with-filename''), (73, lit ''no-filename''), (48, lit ''null''),
     (85, lit ''multiline''), (122, lit ''search-zip''), (114, lit ''replace''), (69, lit ''encoding''),
     (112, lit ''pretty''), (104, lit ''help''), (86, lit ''version'')]"

definition rg_alias :: "pystr \<Rightarrow> pystr" where
  "rg_alias name = (if name = lit ''maxdepth'' then lit ''max-depth'' else if name = lit ''passthrough'' then lit ''passthru'' else name)"

text \<open>A cluster of short options, and the arguments after it.\<close>

fun rg_short :: "nat \<Rightarrow> pystr \<Rightarrow> pystr list \<Rightarrow> (pystr \<times> option_value) list
    \<Rightarrow> violation + ((pystr \<times> option_value) list \<times> pystr list)" where
  "rg_short n [] vs options = Inr (options, vs)"
| "rg_short n (c # cs) vs options =
     (case dict_get RG_SHORT_OPTIONS c of
        None \<Rightarrow> fail ''UNKNOWN_RG_OPTION'' (Some n)
      | Some name \<Rightarrow>
          if name \<in> set RG_VALUE_OPTIONS then
            (if cs \<noteq> [] then Inr (options @ [(name, TextValue cs)], vs)
             else case vs of [] \<Rightarrow> fail ''MISSING_ARGUMENT'' (Some n) | a # vs' \<Rightarrow> Inr (options @ [(name, TextValue a)], vs'))
          else rg_short n cs vs (options @ [(name, NoValue)]))"

lemma rg_short_shrinks: "rg_short n cs vs options = Inr (options', vs') \<Longrightarrow> length vs' \<le> length vs"
  by (induction n cs vs options rule: rg_short.induct) (auto split: option.splits if_splits list.splits)

definition partition_equals :: "pystr \<Rightarrow> pystr \<times> pystr option" where
  "partition_equals s = (if 61 \<in> set s then (case split_first 61 s of (a, b) \<Rightarrow> (a, Some b)) else (s, None))"

function rg_arguments :: "nat \<Rightarrow> pystr list \<Rightarrow> bool \<Rightarrow> (pystr \<times> option_value) list \<Rightarrow> pystr list
    \<Rightarrow> violation + ((pystr \<times> option_value) list \<times> pystr list)" where
  "rg_arguments n [] ended options positional = Inr (options, positional)"
| "rg_arguments n (v # vs) ended options positional =
     (if ended \<or> v = lit ''-'' \<or> \<not> py_startswith v [45] then rg_arguments n vs ended options (positional @ [v])
      else if v = lit ''--'' then rg_arguments n vs True options positional
      else if py_startswith v (lit ''--'') then
        (case partition_equals (drop 2 v) of (raw, argument) \<Rightarrow>
         let name = rg_alias raw in
         if name \<in> set RG_VALUE_OPTIONS then
           (case argument of
              Some a \<Rightarrow> rg_arguments n vs ended (options @ [(name, TextValue a)]) positional
            | None \<Rightarrow>
                (case vs of
                   [] \<Rightarrow> fail ''MISSING_ARGUMENT'' (Some n)
                 | a # vs' \<Rightarrow> rg_arguments n vs' ended (options @ [(name, TextValue a)]) positional))
         else if name \<in> set RG_SWITCH_OPTIONS then
           (if argument \<noteq> None then fail ''UNEXPECTED_ARGUMENT'' (Some n)
            else rg_arguments n vs ended (options @ [(name, NoValue)]) positional)
         else fail ''UNKNOWN_RG_OPTION'' (Some n))
      else (case rg_short n (tl v) vs options of
              Inl e \<Rightarrow> Inl e
            | Inr (options', vs') \<Rightarrow> rg_arguments n vs' ended options' positional))"
  by pat_completeness auto
termination
  by (relation "measure (\<lambda>(n, vs, ended, options, positional). length vs)") (auto dest: rg_short_shrinks)

definition stage_has :: "stage \<Rightarrow> string \<Rightarrow> bool" where
  "stage_has st name \<longleftrightarrow> lit name \<in> set (map fst (st_options st))"

definition text_of :: "option_value \<Rightarrow> pystr" where
  "text_of v = (case v of TextValue s \<Rightarrow> s | _ \<Rightarrow> [])"

definition stage_values :: "stage \<Rightarrow> string \<Rightarrow> pystr list" where
  "stage_values st name = map (text_of \<circ> snd) (filter (\<lambda>(k, v). k = lit name) (st_options st))"

definition mode_options :: "(pystr \<times> search_mode) list" where
  "mode_options = [(lit ''count'', CountMode), (lit ''count-matches'', CountMatchesMode), (lit ''files-with-matches'', FilesWithMatchesMode),
     (lit ''files-without-match'', FilesWithoutMatchMode), (lit ''json'', JsonMode), (lit ''files'', FilesMode)]"

definition special_options :: "pystr list" where
  "special_options = map lit [''files'', ''help'', ''version'', ''pcre2-version'', ''type-list'', ''generate'']"

definition numeric_options :: "pystr list" where
  "numeric_options = map lit [''max-depth'', ''max-count'', ''threads'', ''after-context'', ''before-context'', ''context'', ''max-columns'']"

definition size_options :: "pystr list" where
  "size_options = map lit [''max-filesize'', ''dfa-size-limit'', ''regex-size-limit'']"

text \<open>The mode that the options select; \<open>modes\<close> has at most one element.\<close>

definition rg_mode :: "stage \<Rightarrow> search_mode list \<Rightarrow> search_mode" where
  "rg_mode st modes =
     (let m1 = (case modes of [] \<Rightarrow> ContentMode | m # _ \<Rightarrow> m);
          m2 = (if stage_has st ''only-matching'' \<and> modes = [] then FragmentsMode else m1);
          m3 = (if stage_has st ''quiet'' then ExistenceMode else m2);
          m4 = (if stage_has st ''files'' then FilesMode else m3)
      in if list_ex (\<lambda>name. name \<in> set (map fst (st_options st)) \<and> name \<noteq> lit ''files'') special_options then MetadataMode else m4)"

definition rg_engine :: "pystr \<Rightarrow> option_value \<Rightarrow> pystr option" where
  "rg_engine name v =
     (if name = lit ''engine'' then Some (text_of v)
      else if name = lit ''pcre2'' then Some (lit ''pcre2'')
      else if name = lit ''no-pcre2'' \<or> name = lit ''no-auto-hybrid-regex'' then Some (lit ''default'')
      else if name = lit ''auto-hybrid-regex'' then Some (lit ''auto'')
      else None)"

definition rg_number :: "nat \<Rightarrow> pystr \<times> option_value \<Rightarrow> stage \<Rightarrow> violation + stage" where
  "rg_number n p st =
     (case p of (name, v) \<Rightarrow>
      if name \<in> set numeric_options then
        bind_check (parse_unsigned (text_of v) n) (\<lambda>k. Inr (if name = lit ''max-depth'' then st\<lparr>st_depth := Some k\<rparr> else st))
      else if name \<in> set size_options then bind_check (size_bytes (text_of v) n) (\<lambda>_. Inr st)
      else Inr st)"

definition rg_flag :: "nat \<Rightarrow> pystr \<times> option_value \<Rightarrow> stage \<Rightarrow> violation + stage" where
  "rg_flag n p st =
     (case p of (name, v) \<Rightarrow>
      if name = lit ''fixed-strings'' \<or> name = lit ''no-fixed-strings'' then Inr (st\<lparr>st_fixed := (name = lit ''fixed-strings'')\<rparr>)
      else case rg_engine name v of
        Some engine \<Rightarrow>
          if engine \<in> {lit ''default'', lit ''pcre2'', lit ''auto''} then Inr (st\<lparr>st_engine := engine\<rparr>) else fail ''ENGINE'' (Some n)
      | None \<Rightarrow>
          if name = lit ''follow'' \<or> name = lit ''no-follow'' then Inr (st\<lparr>st_follow := (name = lit ''follow'')\<rparr>)
          else if name = lit ''unrestricted'' then Inr (st\<lparr>st_unrestricted := Suc (st_unrestricted st)\<rparr>)
          else Inr st)"

fun rg_flags :: "nat \<Rightarrow> (pystr \<times> option_value) list \<Rightarrow> stage \<Rightarrow> violation + stage" where
  "rg_flags n [] st = Inr st"
| "rg_flags n (p # ps) st = bind_check (rg_number n p st) (\<lambda>st1. bind_check (rg_flag n p st1) (rg_flags n ps))"

definition parse_rg :: "nat \<Rightarrow> stage \<Rightarrow> violation + stage" where
  "parse_rg n st =
     bind_check (rg_arguments n (tl (st_argv st)) False [] []) (\<lambda>(options, positional).
       let st1 = st\<lparr>st_options := options\<rparr>;
           st2 = st1\<lparr>st_patterns := stage_values st1 ''regexp''\<rparr>;
           modes = map snd (filter (\<lambda>(name, m). name \<in> set (map fst options)) mode_options);
           special = list_ex (\<lambda>name. name \<in> set (map fst options)) special_options
       in if length modes > 1 then fail ''CONFLICTING_MODES'' (Some n)
          else let st3 = st2\<lparr>st_mode := rg_mode st2 modes\<rparr> in
            bind_check
              (if st_patterns st3 = [] \<and> \<not> stage_has st3 ''file'' \<and> \<not> special then
                 (case positional of
                    [] \<Rightarrow> fail ''MISSING_PATTERN'' (Some n)
                  | pat # paths \<Rightarrow> Inr (st3\<lparr>st_patterns := [pat], st_paths := paths\<rparr>))
               else Inr (st3\<lparr>st_paths := positional\<rparr>))
              (\<lambda>st4. rg_flags n options (st4\<lparr>st_fixed := False, st_engine := lit ''default'', st_follow := False, st_unrestricted := 0\<rparr>)))"

subsection \<open>Options and expressions of find\<close>

definition FIND_VALUE_OPTIONS :: "pystr list" where
  "FIND_VALUE_OPTIONS = map lit [
     ''-amin'', ''-anewer'', ''-atime'', ''-cmin'', ''-cnewer'', ''-ctime'', ''-gid'', ''-group'', ''-ilname'', ''-iname'',
     ''-inum'', ''-ipath'', ''-iregex'', ''-links'', ''-lname'', ''-mmin'', ''-mtime'', ''-name'', ''-newer'', ''-newermt'',
     ''-path'', ''-perm'', ''-regex'', ''-samefile'', ''-size'', ''-type'', ''-uid'', ''-used'', ''-user'', ''-xtype'',
     ''-maxdepth'', ''-mindepth'', ''-regextype'', ''-printf'', ''-fprint'', ''-fprint0'', ''-fls'', ''-files0-from'',
     ''-fstype'']"

definition FIND_FLAG_OPTIONS :: "pystr list" where
  "FIND_FLAG_OPTIONS = map lit [
     ''-daystart'', ''-depth'', ''-follow'', ''-noleaf'', ''-xdev'', ''-ignore_readdir_race'', ''-noignore_readdir_race'',
     ''-warn'', ''-nowarn'', ''-empty'', ''-executable'', ''-false'', ''-nogroup'', ''-nouser'', ''-readable'', ''-true'',
     ''-writable'', ''-delete'', ''-ls'', ''-print'', ''-print0'', ''-prune'', ''-quit'', ''-help'', ''--help'',
     ''-version'', ''--version'']"

definition FIND_EXEC_OPTIONS :: "pystr list" where
  "FIND_EXEC_OPTIONS = map lit [''-exec'', ''-execdir'', ''-ok'', ''-okdir'']"

definition FIND_OPERATORS :: "pystr list" where
  "FIND_OPERATORS = map lit [''-a'', ''-o'', ''-not'', '','', ''('', '')'']"

definition FIND_ALIASES :: "(pystr, pystr) dict" where
  "FIND_ALIASES = map (\<lambda>(a, b). (lit a, lit b))
     [(''-or'', ''-o''), (''-and'', ''-a''), (''!'', ''-not''), (''-wholename'', ''-path''), (''-iwholename'', ''-ipath''), (''-mount'', ''-xdev'')]"

definition find_alias :: "pystr \<Rightarrow> pystr" where
  "find_alias v = (case dict_get FIND_ALIASES v of None \<Rightarrow> v | Some w \<Rightarrow> w)"

text \<open>\<^verbatim>\<open>-newer[aBcm][aBcmt]\<close> and \<^verbatim>\<open>-newer[aBcm][aBcm]\<close>\<close>

definition newer_option :: "string \<Rightarrow> pystr \<Rightarrow> bool" where
  "newer_option second v \<longleftrightarrow> length v = 8 \<and> py_startswith v (lit ''-newer'') \<and> one_of ''aBcm'' (v ! 6) \<and> one_of second (v ! 7)"

text \<open>\<^verbatim>\<open>[bcdflpsD](?:,[bcdflpsD])*\<close>\<close>

fun type_text :: "pystr \<Rightarrow> bool" where
  "type_text [c] = one_of ''bcdflpsD'' c"
| "type_text (c # d # s) = (one_of ''bcdflpsD'' c \<and> d = 44 \<and> type_text s)"
| "type_text [] = False"

text \<open>\<^verbatim>\<open>[+-]?\d{1,18}[cbwkMG]?\<close>\<close>

definition find_size_text :: "pystr \<Rightarrow> bool" where
  "find_size_text s \<longleftrightarrow>
     (let t = (if s \<noteq> [] \<and> one_of ''+-'' (hd s) then tl s else s);
          ds = (if t \<noteq> [] \<and> one_of ''cbwkMG'' (last t) then butlast t else t)
      in decimals ds \<and> length ds \<le> 18)"

datatype find_atom = FindOperator pystr | FindTest pystr option_value

definition is_operator :: "string \<Rightarrow> find_atom \<Rightarrow> bool" where
  "is_operator name a \<longleftrightarrow> a = FindOperator (lit name)"

definition find_priority :: "find_atom \<Rightarrow> nat \<times> bool" where
  "find_priority a =
     (if is_operator '','' a then (0, True) else if is_operator ''-o'' a then (1, True)
      else if is_operator ''-a'' a then (2, True) else (2, False))"

text \<open>The recursive descent over the atoms: what is left of them. The comparisons of lengths always hold; they are what makes
  the recursion terminate.\<close>

function find_primary :: "nat \<Rightarrow> nat \<Rightarrow> find_atom list \<Rightarrow> violation + find_atom list"
  and find_expression :: "nat \<Rightarrow> nat \<Rightarrow> nat \<Rightarrow> find_atom list \<Rightarrow> violation + find_atom list"
  and find_tail :: "nat \<Rightarrow> nat \<Rightarrow> nat \<Rightarrow> find_atom list \<Rightarrow> violation + find_atom list" where
  "find_primary n level atoms =
     (case atoms of
        [] \<Rightarrow> fail ''FIND_EXPRESSION'' (Some n)
      | a # rest \<Rightarrow>
          if level > 64 then fail ''FIND_EXPRESSION'' (Some n)
          else if is_operator ''-not'' a then find_primary n (Suc level) rest
          else if is_operator ''('' a then
            (case find_expression n 0 (Suc level) rest of
               Inl e \<Rightarrow> Inl e
             | Inr rest' \<Rightarrow>
                 (case rest' of
                    [] \<Rightarrow> fail ''FIND_EXPRESSION'' (Some n)
                  | c # rest'' \<Rightarrow> if is_operator '')'' c then Inr rest'' else fail ''FIND_EXPRESSION'' (Some n)))
          else (case a of FindTest _ _ \<Rightarrow> Inr rest | FindOperator _ \<Rightarrow> fail ''FIND_EXPRESSION'' (Some n)))"
| "find_expression n minimum level atoms =
     (case find_primary n level atoms of
        Inl e \<Rightarrow> Inl e
      | Inr rest \<Rightarrow> if length rest < length atoms then find_tail n minimum level rest else fail ''FIND_EXPRESSION'' (Some n))"
| "find_tail n minimum level atoms =
     (case atoms of
        [] \<Rightarrow> Inr []
      | a # rest \<Rightarrow>
          if is_operator '')'' a then Inr atoms
          else (case find_priority a of (priority, explicit) \<Rightarrow>
            if priority < minimum then Inr atoms
            else (case find_expression n (Suc priority) (Suc level) (if explicit then rest else atoms) of
                    Inl e \<Rightarrow> Inl e
                  | Inr rest' \<Rightarrow>
                      if length rest' < length atoms then find_tail n minimum level rest' else fail ''FIND_EXPRESSION'' (Some n))))"
  by pat_completeness auto
termination
  by (relation "measures [(\<lambda>x. (case x of Inl (n, level, atoms) \<Rightarrow> length atoms
        | Inr (Inl (n, m, level, atoms)) \<Rightarrow> length atoms | Inr (Inr (n, m, level, atoms)) \<Rightarrow> length atoms)),
      (\<lambda>x. (case x of Inl _ \<Rightarrow> 0 | Inr (Inl _) \<Rightarrow> 1 | Inr (Inr _) \<Rightarrow> 2))]") auto

definition validate_find_expression :: "nat \<Rightarrow> find_atom list \<Rightarrow> violation + unit" where
  "validate_find_expression n atoms =
     bind_check (if atoms = [] then Inr [] else find_expression n 0 0 atoms)
       (\<lambda>rest. if rest = [] then Inr () else fail ''FIND_EXPRESSION'' (Some n))"

text \<open>The options before the starting points.\<close>

fun find_leading :: "nat \<Rightarrow> pystr list \<Rightarrow> (pystr \<times> option_value) list \<Rightarrow> violation + ((pystr \<times> option_value) list \<times> pystr list)" where
  "find_leading n [] options = Inr (options, [])"
| "find_leading n (v # vs) options =
     (if v \<in> set (map lit [''-H'', ''-L'', ''-P'']) then find_leading n vs (options @ [(v, NoValue)])
      else if length v = 3 \<and> py_startswith v (lit ''-O'') \<and> one_of ''0123'' (v ! 2) then find_leading n vs (options @ [(lit ''-O'', TextValue (drop 2 v))])
      else if v = lit ''-D'' then
        (case vs of [] \<Rightarrow> fail ''MISSING_ARGUMENT'' (Some n) | a # vs' \<Rightarrow> find_leading n vs' (options @ [(v, TextValue a)]))
      else if v = lit ''--'' then Inr (options, vs)
      else Inr (options, v # vs))"

definition find_path_argument :: "pystr \<Rightarrow> bool" where
  "find_path_argument v \<longleftrightarrow> \<not> py_startswith v [45] \<and> v \<notin> set (map lit [''!'', ''('', '')'', '',''])"

definition exec_end :: "pystr \<Rightarrow> bool" where
  "exec_end v \<longleftrightarrow> v = lit '';'' \<or> v = lit ''+''"

definition check_find_option :: "nat \<Rightarrow> pystr \<Rightarrow> option_value \<Rightarrow> nat option \<Rightarrow> violation + nat option" where
  "check_find_option n name v depth =
     (if name = lit ''-maxdepth'' \<or> name = lit ''-mindepth'' then
        bind_check (parse_unsigned (text_of v) n) (\<lambda>k. Inr (if name = lit ''-maxdepth'' then Some k else depth))
      else if (name = lit ''-type'' \<or> name = lit ''-xtype'') \<and> \<not> type_text (text_of v) then fail ''FIND_TYPE'' (Some n)
      else if name = lit ''-size'' \<and> \<not> find_size_text (text_of v) then fail ''FIND_SIZE'' (Some n)
      else Inr depth)"

record find_parse =
  fp_options :: "(pystr \<times> option_value) list"
  fp_atoms :: "find_atom list"
  fp_depth :: "nat option"

text \<open>The argument of a test and the arguments after it.\<close>

definition find_argument :: "nat \<Rightarrow> pystr \<Rightarrow> pystr list \<Rightarrow> violation + (option_value \<times> pystr list)" where
  "find_argument n name vs =
     (if name \<in> set FIND_EXEC_OPTIONS then
        (case dropWhile (\<lambda>v. \<not> exec_end v) vs of
           [] \<Rightarrow> fail ''FIND_EXPRESSION'' (Some n)
         | t # rest \<Rightarrow> Inr (ListValue (takeWhile (\<lambda>v. \<not> exec_end v) vs @ [t]), rest))
      else if name = lit ''-fprintf'' then
        (case vs of a # b # rest \<Rightarrow> Inr (ListValue [a, b], rest) | _ \<Rightarrow> fail ''MISSING_ARGUMENT'' (Some n))
      else if name \<in> set FIND_VALUE_OPTIONS \<or> newer_option ''aBcmt'' name then
        (case vs of [] \<Rightarrow> fail ''MISSING_ARGUMENT'' (Some n) | a # rest \<Rightarrow> Inr (TextValue a, rest))
      else if name \<in> set FIND_FLAG_OPTIONS then Inr (NoValue, vs)
      else fail ''UNKNOWN_FIND_OPTION'' (Some n))"

lemma find_argument_shrinks: "find_argument n name vs = Inr (v, rest) \<Longrightarrow> length rest \<le> length vs"
proof -
  assume "find_argument n name vs = Inr (v, rest)"
  moreover have "length (dropWhile (\<lambda>v. \<not> exec_end v) vs) \<le> length vs" by (rule length_dropWhile_le)
  ultimately show ?thesis by (auto simp: find_argument_def split: if_splits list.splits)
qed

function find_tests :: "nat \<Rightarrow> pystr list \<Rightarrow> find_parse \<Rightarrow> violation + find_parse" where
  "find_tests n [] p = Inr p"
| "find_tests n (v # vs) p =
     (let name = find_alias v in
      if name \<in> set FIND_OPERATORS then
        find_tests n vs (p\<lparr>fp_atoms := fp_atoms p @ [FindOperator name],
          fp_options := (if name = lit ''('' \<or> name = lit '')'' then fp_options p else fp_options p @ [(name, NoValue)])\<rparr>)
      else (case find_argument n name vs of
              Inl e \<Rightarrow> Inl e
            | Inr (value, rest) \<Rightarrow>
                bind_check (check_find_option n name value (fp_depth p)) (\<lambda>depth.
                find_tests n rest (p\<lparr>fp_options := fp_options p @ [(name, value)], fp_atoms := fp_atoms p @ [FindTest name value],
                  fp_depth := depth\<rparr>))))"
  by pat_completeness auto
termination
  by (relation "measure (\<lambda>(n, vs, p). length vs)") (auto dest: find_argument_shrinks)

definition find_follow :: "(pystr \<times> option_value) list \<Rightarrow> bool" where
  "find_follow options =
     fold (\<lambda>(name, v) f. if name \<in> set (map lit [''-H'', ''-L'', ''-follow'', ''-P'']) then name \<noteq> lit ''-P'' else f) options False"

definition parse_find :: "nat \<Rightarrow> stage \<Rightarrow> violation + stage" where
  "parse_find n st =
     bind_check (find_leading n (tl (st_argv st)) []) (\<lambda>(options, vs).
       let paths = takeWhile find_path_argument vs in
       bind_check (find_tests n (dropWhile find_path_argument vs) \<lparr>fp_options = options, fp_atoms = [], fp_depth = st_depth st\<rparr>) (\<lambda>p.
       bind_check (validate_find_expression n (fp_atoms p)) (\<lambda>_.
         let st1 = st\<lparr>st_options := fp_options p, st_paths := paths, st_depth := fp_depth p, st_follow := find_follow (fp_options p)\<rparr>;
             st2 = st1\<lparr>st_mode := (if list_ex (stage_has st1) [''-help'', ''--help'', ''-version'', ''--version''] then MetadataMode else InventoryMode)\<rparr>
         in if stage_has st2 ''-files0-from'' \<and> paths \<noteq> [] then fail ''FIND_ROOTS'' (Some n) else Inr st2)))"

subsection \<open>Consumers of a search's output\<close>

definition all_of :: "string \<Rightarrow> pystr \<Rightarrow> bool" where
  "all_of cs s \<longleftrightarrow> s \<noteq> [] \<and> list_all (one_of cs) s"

definition wc_argument :: "pystr \<Rightarrow> bool" where
  "wc_argument v \<longleftrightarrow> v = lit ''--'' \<or> py_startswith v [45] \<and> all_of ''lcwmL'' (tl v)"

text \<open>\<^verbatim>\<open>-(?:n|c)?\d+\<close> and \<^verbatim>\<open>--(?:lines|bytes)=\d+\<close>\<close>

definition count_argument :: "pystr \<Rightarrow> bool" where
  "count_argument v \<longleftrightarrow>
     py_startswith v [45] \<and> (decimals (tl v) \<or> (tl v \<noteq> [] \<and> one_of ''nc'' (hd (tl v)) \<and> decimals (tl (tl v)))) \<or>
     (\<exists>p \<in> {lit ''--lines='', lit ''--bytes=''}. py_startswith v p \<and> decimals (drop (length p) v))"

fun head_arguments :: "nat \<Rightarrow> pystr list \<Rightarrow> violation + unit" where
  "head_arguments n [] = Inr ()"
| "head_arguments n (v # vs) =
     (if v \<in> set (map lit [''-n'', ''-c'', ''--lines'', ''--bytes'']) then
        (case vs of
           [] \<Rightarrow> fail ''CONSUMER_ARGUMENT'' (Some n)
         | a # vs' \<Rightarrow> bind_check (parse_unsigned (dropWhile (\<lambda>c. c = 43) a) n) (\<lambda>_. head_arguments n vs'))
      else if count_argument v \<or> v \<in> set (map lit [''--'', ''-q'', ''--quiet'', ''--silent'', ''-v'', ''--verbose'']) then head_arguments n vs
      else fail ''CONSUMER_ARGUMENT'' (Some n))"

fun sort_arguments :: "nat \<Rightarrow> pystr list \<Rightarrow> violation + unit" where
  "sort_arguments n [] = Inr ()"
| "sort_arguments n (v # vs) =
     (if v = lit ''-k'' then
        (case vs of
           [] \<Rightarrow> fail ''CONSUMER_ARGUMENT'' (Some n)
         | a # vs' \<Rightarrow> if all_of ''0123456789.,nrfbh'' a then sort_arguments n vs' else fail ''CONSUMER_ARGUMENT'' (Some n))
      else if py_startswith v (lit ''-k'') \<and> all_of ''0123456789.,nrfbh'' (drop 2 v) then sort_arguments n vs
      else if v = lit ''--'' \<or> py_startswith v [45] \<and> all_of ''rnhuzbfdsVM'' (tl v) then sort_arguments n vs
      else fail ''CONSUMER_ARGUMENT'' (Some n))"

text \<open>\<^verbatim>\<open>(?:\d+(?:,\d+)?[pq];?)+\<close>: what follows one item.\<close>

definition sed_item :: "pystr \<Rightarrow> pystr option" where
  "sed_item s =
     (let ds = takeWhile is_decimal s; r1 = dropWhile is_decimal s;
          r2 = (if r1 \<noteq> [] \<and> hd r1 = 44 \<and> takeWhile is_decimal (tl r1) \<noteq> [] then dropWhile is_decimal (tl r1) else r1)
      in if ds = [] \<or> r2 = [] \<or> \<not> one_of ''pq'' (hd r2) then None
         else Some (if tl r2 \<noteq> [] \<and> hd (tl r2) = 59 then tl (tl r2) else tl r2))"

lemma sed_item_shrinks: "sed_item s = Some r \<Longrightarrow> length r < length s"
proof -
  assume s: "sed_item s = Some r"
  let ?r1 = "dropWhile is_decimal s"
  have "length ?r1 \<le> length s" "length (dropWhile is_decimal (tl ?r1)) \<le> length (tl ?r1)" by (rule length_dropWhile_le)+
  with s show ?thesis by (auto simp: sed_item_def Let_def split: if_splits) (cases ?r1; auto)+
qed

function sed_script :: "pystr \<Rightarrow> bool" where
  "sed_script s = (case sed_item s of None \<Rightarrow> False | Some r \<Rightarrow> r = [] \<or> sed_script r)"
  by pat_completeness auto
termination
  by (relation "measure length") (auto dest: sed_item_shrinks)

declare sed_script.simps [simp del]

definition parse_consumer :: "nat \<Rightarrow> stage \<Rightarrow> violation + stage" where
  "parse_consumer n st =
     (let arguments = tl (st_argv st); tool = st_tool st in
      if tool = lit ''true'' \<and> arguments = [] \<and> st_before st = lit ''||'' then Inr (st\<lparr>st_source := NoSource\<rparr>)
      else if st_before st \<noteq> lit ''|'' then fail ''UNSUPPORTED_COMMAND'' (Some n)
      else bind_check
        (if tool = lit ''wc'' then if list_all wc_argument arguments then Inr () else fail ''CONSUMER_ARGUMENT'' (Some n)
         else if tool = lit ''head'' \<or> tool = lit ''tail'' then head_arguments n arguments
         else if tool = lit ''sort'' then sort_arguments n arguments
         else if tool = lit ''sed'' then
           (if length arguments = 2 \<and> arguments ! 0 \<in> set (map lit [''-n'', ''-nE'', ''-En'']) \<and> sed_script (arguments ! 1)
            then Inr () else fail ''CONSUMER_ARGUMENT'' (Some n))
         else fail ''UNSUPPORTED_COMMAND'' (Some n))
        (\<lambda>_. Inr (st\<lparr>st_source := StreamSource\<rparr>)))"

subsection \<open>Parsing a command\<close>

record search_policy =
  max_depth :: nat
  max_roots :: nat
  max_workflows :: nat
  max_entries :: nat
  max_files :: nat
  max_file_bytes :: nat
  max_total_bytes :: nat
  max_pattern_bytes :: nat
  max_patterns :: nat
  max_context_lines :: nat
  max_threads :: nat
  max_stages :: nat
  max_command_chars :: nat
  census_seconds :: rat
  find_denied_options :: "pystr list"
  find_follow_options :: "pystr list"
  find_reference_options :: "pystr list"
  rg_external_options :: "pystr list"
  rg_decompression_options :: "pystr list"
  rg_follow_options :: "pystr list"
  rg_non_default_engines :: "pystr list"

fun identify_stages :: "nat \<Rightarrow> stage list \<Rightarrow> violation + stage list" where
  "identify_stages n [] = Inr []"
| "identify_stages n (st # sts) =
     bind_check (strip_wrappers 8 n (st_argv st) []) (\<lambda>(argv, wrappers).
     bind_check (executable_name (hd argv) n) (\<lambda>tool.
     bind_check (identify_stages (Suc n) sts) (\<lambda>rest.
       Inr (st\<lparr>st_argv := argv, st_wrappers := wrappers, st_tool := tool\<rparr> # rest))))"

definition stage_input :: "stage \<Rightarrow> stage" where
  "stage_input st =
     (if st_tool st = lit ''rg'' \<and> st_before st = lit ''|'' \<and> st_mode st \<noteq> FilesMode \<and> st_mode st \<noteq> MetadataMode then
        (if st_paths st = [] \<or> st_paths st = [lit ''-''] then st\<lparr>st_source := StreamSource\<rparr> else st)
      else if st_tool st = lit ''rg'' \<and> st_paths st = [lit ''-''] then st\<lparr>st_source := ExternalStdinSource\<rparr>
      else st)"

fun parse_stages :: "nat \<Rightarrow> stage list \<Rightarrow> violation + stage list" where
  "parse_stages n [] = Inr []"
| "parse_stages n (st # sts) =
     bind_check
       (if st_tool st = lit ''find'' then parse_find n st
        else if st_tool st = lit ''rg'' then parse_rg n st
        else parse_consumer n st) (\<lambda>st'.
     bind_check (parse_stages (Suc n) sts) (\<lambda>rest. Inr (stage_input st' # rest)))"

text \<open>\<open>None\<close> is a command without a search.\<close>

definition parse_command :: "search_policy \<Rightarrow> pystr \<Rightarrow> violation + stage list option" where
  "parse_command policy command =
     (if length command > max_command_chars policy then fail ''COMMAND_COMPLEXITY'' None
      else bind_check (parse_shell command) (\<lambda>stages.
        if length stages > max_stages policy then fail ''COMMAND_COMPLEXITY'' None
        else bind_check (identify_stages 1 stages) (\<lambda>stages.
          if \<not> list_ex (\<lambda>st. is_search_tool (st_tool st) \<or> search_after_assignments (st_argv st)) stages then Inr None
          else bind_check (parse_stages 1 stages) (\<lambda>stages. Inr (Some stages)))))"

end
