(* ===== verification/Search_Extraction.thy ===== *)
theory Search_Extraction
  imports Search_Arguments
begin

section \<open>Finding the searches in shell text\<close>

text \<open>
  \<^verbatim>\<open>_top_level_spans\<close> and \<^verbatim>\<open>extract_search_workflows\<close> of
  \<^verbatim>\<open>src/rodex/pre_tool_use_customer_library/find_rg.py\<close>. Positions are indices into the command, as in the
  code. \<^verbatim>\<open>shlex.split\<close> is the parameter \<open>words\<close>, which is \<open>None\<close> where it raises.
\<close>

definition slice :: "pystr \<Rightarrow> nat \<Rightarrow> nat \<Rightarrow> pystr" where
  "slice s a b = take (b - a) (drop a s)"

text \<open>\<^verbatim>\<open>command.startswith(p, index)\<close> and \<^verbatim>\<open>command.find("\n", index)\<close>.\<close>

definition at_prefix :: "pystr \<Rightarrow> nat \<Rightarrow> pystr \<Rightarrow> bool" where
  "at_prefix s i p \<longleftrightarrow> py_startswith (drop i s) p"

definition find_newline :: "pystr \<Rightarrow> nat \<Rightarrow> nat option" where
  "find_newline s i = (if 10 \<in> set (drop i s) then Some (i + length (takeWhile (\<lambda>c. c \<noteq> 10) (drop i s))) else None)"

lemma at_prefix_length: "at_prefix s i p \<Longrightarrow> p \<noteq> [] \<Longrightarrow> i + length p \<le> length s"
  by (cases "i \<le> length s") (auto simp: at_prefix_def py_startswith_iff dest: arg_cong [of _ _ length])

lemma find_newline_bounds: "find_newline s i = Some j \<Longrightarrow> i \<le> j \<and> j < length s"
proof -
  assume f: "find_newline s i = Some j"
  then have m: "10 \<in> set (drop i s)" "j = i + length (takeWhile (\<lambda>c. c \<noteq> 10) (drop i s))" by (auto simp: find_newline_def split: if_splits)
  have "length (takeWhile (\<lambda>c. c \<noteq> 10) (drop i s)) < length (drop i s)"
    using m(1) by (metis (mono_tags, lifting) length_takeWhile_le le_neq_implies_less takeWhile_eq_take take_all_iff takeWhile_eq_all_conv)
  then show ?thesis using m(2) by auto
qed

subsection \<open>Here-documents\<close>

text \<open>The delimiter after \<^verbatim>\<open><<\<close> or \<^verbatim>\<open><<-\<close>, with its quotes removed: what was read and the position after it.\<close>

function heredoc_word :: "pystr \<Rightarrow> nat \<Rightarrow> nat option \<Rightarrow> pystr \<Rightarrow> (pystr \<times> nat) option" where
  "heredoc_word s i quote chars =
     (if i \<ge> length s then (if quote \<noteq> None \<or> chars = [] then None else Some (chars, i))
      else let c = s ! i in
        case quote of
          Some q \<Rightarrow>
            if c = q then heredoc_word s (Suc i) None chars
            else if c = 92 \<and> q = 34 \<and> Suc i < length s then heredoc_word s (i + 2) quote (chars @ [s ! Suc i])
            else heredoc_word s (Suc i) quote (chars @ [c])
        | None \<Rightarrow>
            if c \<in> {32, 9, 13, 10} \<or> one_of '';|&<>()'' c then (if chars = [] then None else Some (chars, i))
            else if c = 39 \<or> c = 34 then heredoc_word s (Suc i) (Some c) chars
            else if c = 92 \<and> Suc i < length s then heredoc_word s (i + 2) None (chars @ [s ! Suc i])
            else heredoc_word s (Suc i) None (chars @ [c]))"
  by pat_completeness auto
termination
  by (relation "measure (\<lambda>(s, i, quote, chars). length s - i)") auto

declare heredoc_word.simps [simp del]

definition read_heredoc_delimiter :: "pystr \<Rightarrow> nat \<Rightarrow> (pystr \<times> bool \<times> nat) option" where
  "read_heredoc_delimiter s i =
     (let tabs = at_prefix s i (lit ''<<-''); j = i + (if tabs then 3 else 2);
          k = j + length (takeWhile (\<lambda>c. c = 32 \<or> c = 9) (drop j s))
      in map_option (\<lambda>(word, e). (word, tabs, e)) (heredoc_word s k None []))"

function after_body :: "pystr \<Rightarrow> pystr \<Rightarrow> bool \<Rightarrow> nat \<Rightarrow> nat option" where
  "after_body s delimiter tabs i =
     (if i \<ge> length s then None
      else let stop = (case find_newline s i of None \<Rightarrow> length s | Some j \<Rightarrow> j); line = slice s i stop in
        if (if tabs then dropWhile (\<lambda>c. c = 9) line else line) = delimiter
        then Some (case find_newline s i of None \<Rightarrow> stop | Some j \<Rightarrow> Suc j)
        else case find_newline s i of None \<Rightarrow> None | Some j \<Rightarrow> after_body s delimiter tabs (Suc j))"
  by pat_completeness auto
termination
proof (relation "measure (\<lambda>(s, delimiter, tabs, i). length s - i)", goal_cases)
  case (2 s delimiter tabs i x y j)
  then show ?case using find_newline_bounds [of s i j] by auto
qed simp

declare after_body.simps [simp del]

fun after_heredoc_bodies :: "pystr \<Rightarrow> nat \<Rightarrow> (pystr \<times> bool) list \<Rightarrow> nat" where
  "after_heredoc_bodies s i [] = i"
| "after_heredoc_bodies s i ((delimiter, tabs) # ds) =
     (case after_body s delimiter tabs i of None \<Rightarrow> length s | Some j \<Rightarrow> after_heredoc_bodies s j ds)"

lemma heredoc_word_after:
  "heredoc_word s i quote chars = Some (w, e) \<Longrightarrow> i \<le> length s \<Longrightarrow> i \<le> e \<and> e \<le> length s"
proof (induction s i quote chars rule: heredoc_word.induct)
  case (1 s i quote chars)
  note eq = heredoc_word.simps [of s i quote chars]
  show ?case
  proof (cases "i \<ge> length s")
    case True
    then show ?thesis using "1.prems" eq by (simp split: if_splits)
  next
    case False
    note IH = "1.IH" [OF False refl]
    show ?thesis
    proof (cases quote)
      case (Some q)
      consider "s ! i = q" | "s ! i \<noteq> q" "s ! i = 92 \<and> q = 34 \<and> Suc i < length s"
        | "s ! i \<noteq> q" "\<not> (s ! i = 92 \<and> q = 34 \<and> Suc i < length s)" by blast
      then show ?thesis
      proof cases
        case 1
        then show ?thesis using IH(4) [OF Some] "1.prems" eq Some False by simp
      next
        case 2
        then show ?thesis using IH(5) [OF Some] "1.prems" eq Some False by simp
      next
        case 3
        then have "heredoc_word s i quote chars = heredoc_word s (Suc i) quote (chars @ [s ! i])" using eq Some False by auto
        then show ?thesis using IH(6) [OF Some 3] "1.prems" False by simp
      qed
    next
      case None
      let ?stop = "s ! i \<in> {32, 9, 13, 10} \<or> one_of '';|&<>()'' (s ! i)"
      let ?quote = "s ! i = 39 \<or> s ! i = 34" and ?escape = "s ! i = 92 \<and> Suc i < length s"
      consider ?stop | "\<not> ?stop" ?quote | "\<not> ?stop" "\<not> ?quote" ?escape | "\<not> ?stop" "\<not> ?quote" "\<not> ?escape" by blast
      then show ?thesis
      proof cases
        case 1
        then show ?thesis using "1.prems" eq None False by (simp split: if_splits)
      next
        case 2
        then have "heredoc_word s i quote chars = heredoc_word s (Suc i) (Some (s ! i)) chars" using eq None False by auto
        then show ?thesis using IH(1) [OF None 2] "1.prems" False by simp
      next
        case 3
        then have "heredoc_word s i quote chars = heredoc_word s (i + 2) None (chars @ [s ! Suc i])" using eq None False by auto
        then show ?thesis using IH(2) [OF None 3] "1.prems" 3(3) False by simp
      next
        case 4
        then have "heredoc_word s i quote chars = heredoc_word s (Suc i) None (chars @ [s ! i])" using eq None False by auto
        then show ?thesis using IH(3) [OF None 4] "1.prems" False by simp
      qed
    qed
  qed
qed

lemma after_body_after: "after_body s delimiter tabs i = Some j \<Longrightarrow> i < j \<and> j \<le> length s"
proof (induction s delimiter tabs i rule: after_body.induct)
  case (1 s delimiter tabs i)
  let ?stop = "case find_newline s i of None \<Rightarrow> length s | Some j \<Rightarrow> j"
  let ?match = "(if tabs then dropWhile (\<lambda>c. c = 9) (slice s i ?stop) else slice s i ?stop) = delimiter"
  note eq = after_body.simps [of s delimiter tabs i]
  have i: "\<not> i \<ge> length s" using "1.prems" eq by auto
  show ?case
  proof (cases ?match)
    case True
    then have "j = (case find_newline s i of None \<Rightarrow> ?stop | Some j \<Rightarrow> Suc j)" using "1.prems" i unfolding eq Let_def by simp
    then show ?thesis using i find_newline_bounds [of s i] by (auto split: option.splits)
  next
    case False
    then obtain k where k: "find_newline s i = Some k" "after_body s delimiter tabs (Suc k) = Some j"
      using "1.prems" i unfolding eq Let_def by (cases "find_newline s i") auto
    have "Suc k < j \<and> j \<le> length s" by (rule "1.IH" [OF i refl refl False k])
    then show ?thesis using find_newline_bounds [OF k(1)] by simp
  qed
qed

lemma after_heredoc_bodies_after: "i \<le> length s \<Longrightarrow> i \<le> after_heredoc_bodies s i ds \<and> after_heredoc_bodies s i ds \<le> length s"
proof (induction s i ds rule: after_heredoc_bodies.induct)
  case (2 s i delimiter tabs ds)
  then show ?case using after_body_after [of s delimiter tabs i] by (fastforce split: option.splits)
qed simp

lemma read_heredoc_after:
  assumes "read_heredoc_delimiter s i = Some (d, tabs, e)" "at_prefix s i (lit ''<<'')"
  shows "i < e \<and> e \<le> length s"
proof -
  define j where "j = i + (if at_prefix s i (lit ''<<-'') then 3 else 2)"
  define k where "k = j + length (takeWhile (\<lambda>c. c = 32 \<or> c = 9) (drop j s))"
  have e: "heredoc_word s k None [] = Some (d, e)"
    using assms(1) by (auto simp: read_heredoc_delimiter_def Let_def j_def [symmetric] k_def [symmetric])
  have j: "i < j" "j \<le> length s"
    using at_prefix_length [of s i "lit ''<<''"] at_prefix_length [of s i "lit ''<<-''"] assms(2) by (auto simp: j_def lit_def)
  have "length (takeWhile (\<lambda>c. c = 32 \<or> c = 9) (drop j s)) \<le> length (drop j s)" by (rule length_takeWhile_le)
  then have "k \<le> length s" using j by (simp add: k_def)
  then show ?thesis using heredoc_word_after [OF e] j by (simp add: k_def)
qed

subsection \<open>The spans of a command\<close>

text \<open>The end of a command or process substitution whose opening parenthesis was read.\<close>

function skip_nested :: "pystr \<Rightarrow> nat \<Rightarrow> nat \<Rightarrow> nat option \<Rightarrow> nat" where
  "skip_nested s i depth quote =
     (if i \<ge> length s \<or> depth = 0 then i
      else let c = s ! i in
        case quote of
          Some q \<Rightarrow>
            if q = 34 \<and> c = 92 then skip_nested s (i + 2) depth quote
            else skip_nested s (Suc i) depth (if c = q then None else quote)
        | None \<Rightarrow>
            if c = 92 then skip_nested s (i + 2) depth None
            else if c = 39 \<or> c = 34 then skip_nested s (Suc i) depth (Some c)
            else if c = 40 then skip_nested s (Suc i) (Suc depth) None
            else if c = 41 then skip_nested s (Suc i) (depth - 1) None
            else skip_nested s (Suc i) depth None)"
  by pat_completeness auto
termination
  by (relation "measure (\<lambda>(s, i, depth, quote). length s - i)") auto

declare skip_nested.simps [simp del]

lemma skip_nested_after: "i \<le> skip_nested s i depth quote"
proof (induction s i depth quote rule: skip_nested.induct)
  case (1 s i depth quote)
  note IH = "1.IH" [OF _ refl]
  show ?case
  proof (cases "i \<ge> length s \<or> depth = 0")
    case True
    then show ?thesis by (simp add: skip_nested.simps [of s i])
  next
    case False
    then show ?thesis
      using IH(1) [OF False] IH(2) [OF False] IH(3) [OF False] IH(4) [OF False] IH(5) [OF False] IH(6) [OF False] IH(7) [OF False]
      by (cases quote) (auto simp: skip_nested.simps [of s i] Let_def)
  qed
qed

record span_state =
  sp_start :: nat
  sp_index :: nat
  sp_quote :: "nat option"
  sp_backtick :: bool
  sp_heredocs :: "(pystr \<times> bool) list"
  sp_spans :: "(nat \<times> nat) list"

definition skip :: "nat \<Rightarrow> span_state \<Rightarrow> span_state" where
  "skip n st = st\<lparr>sp_index := sp_index st + n\<rparr>"

text \<open>\<^verbatim>\<open>spans.append((start, e)); index = i; start = index\<close>\<close>

definition close_span :: "nat \<Rightarrow> nat \<Rightarrow> span_state \<Rightarrow> span_state" where
  "close_span e i st = st\<lparr>sp_spans := sp_spans st @ [(sp_start st, e)], sp_index := i, sp_start := i\<rparr>"

definition pipeline_continues :: "pystr \<Rightarrow> nat \<Rightarrow> nat \<Rightarrow> bool" where
  "pipeline_continues s start e \<longleftrightarrow>
     (let p = rev (dropWhile (\<lambda>c. c \<in> {32, 9, 13}) (rev (slice s start e))) in
      (py_endswith p (lit ''|'') \<and> \<not> py_endswith p (lit ''||'')) \<or> py_endswith p (lit ''|&''))"

definition at_word_boundary :: "pystr \<Rightarrow> span_state \<Rightarrow> bool" where
  "at_word_boundary s st \<longleftrightarrow>
     sp_index st = sp_start st \<or> py_isspace (s ! (sp_index st - 1)) \<or> one_of '';|&'' (s ! (sp_index st - 1))"

definition NON_BOUNDARY_SHELL_OPERATORS :: "pystr list" where
  "NON_BOUNDARY_SHELL_OPERATORS = map lit [''&>>'', ''<<<'', ''<<-'', ''>>'', ''<<'', ''>&'', ''<&'', ''<>'', ''>|'', ''&>'']"

definition non_boundary :: "pystr \<Rightarrow> nat \<Rightarrow> pystr option" where
  "non_boundary s i = find (at_prefix s i) NON_BOUNDARY_SHELL_OPERATORS"

definition heredoc_at :: "pystr \<Rightarrow> nat \<Rightarrow> (pystr \<times> bool \<times> nat) option" where
  "heredoc_at s i =
     (if at_prefix s i (lit ''<<'') \<and> \<not> at_prefix s i (lit ''<<<'') then read_heredoc_delimiter s i else None)"

definition close_before_bodies :: "pystr \<Rightarrow> nat \<Rightarrow> span_state \<Rightarrow> span_state" where
  "close_before_bodies s body st =
     (close_span (sp_index st) (after_heredoc_bodies s body (sp_heredocs st)) st)\<lparr>sp_heredocs := []\<rparr>"

definition comment_step :: "pystr \<Rightarrow> span_state \<Rightarrow> (nat \<times> nat) list + span_state" where
  "comment_step s st =
     (case find_newline s (sp_index st) of
        None \<Rightarrow> Inl (sp_spans st @ [(sp_start st, sp_index st)])
      | Some j \<Rightarrow>
          Inr (if sp_heredocs st \<noteq> [] then close_before_bodies s (Suc j) st
            else if pipeline_continues s (sp_start st) (sp_index st) then st\<lparr>sp_index := Suc j\<rparr>
            else close_span (sp_index st) (Suc j) st))"

definition operator_step :: "pystr \<Rightarrow> bool \<Rightarrow> span_state \<Rightarrow> span_state" where
  "operator_step s split_pipelines st =
     (let i = sp_index st; c = s ! i in
      if at_prefix s i (lit ''&&'') \<or> at_prefix s i (lit ''||'') then close_span i (i + 2) st
      else if at_prefix s i (lit ''|&'') then (if split_pipelines then close_span i (i + 2) st else skip 2 st)
      else if c = 124 then (if split_pipelines then close_span i (i + 1) st else skip 1 st)
      else if c = 10 \<and> pipeline_continues s (sp_start st) i then skip 1 st
      else if c = 10 \<and> sp_heredocs st \<noteq> [] then close_before_bodies s (i + 1) st
      else if c = 59 \<or> c = 10 then close_span i (i + 1) st
      else if c = 38 then close_span (i + 1) (i + 1) st
      else skip 1 st)"

definition plain_step :: "pystr \<Rightarrow> bool \<Rightarrow> span_state \<Rightarrow> (nat \<times> nat) list + span_state" where
  "plain_step s split_pipelines st =
     (let i = sp_index st; c = s ! i in
      if c = 92 then Inr (skip 2 st)
      else if c = 39 \<or> c = 34 then Inr ((skip 1 st)\<lparr>sp_quote := Some c\<rparr>)
      else if c = 96 then Inr ((skip 1 st)\<lparr>sp_backtick := True\<rparr>)
      else if at_prefix s i (lit ''$('') \<or> at_prefix s i (lit ''<('') \<or> at_prefix s i (lit ''>('')
        then Inr (st\<lparr>sp_index := skip_nested s (i + 2) 1 None\<rparr>)
      else if c = 35 \<and> at_word_boundary s st then comment_step s st
      else case heredoc_at s i of
        Some (delimiter, tabs, e) \<Rightarrow> Inr (st\<lparr>sp_heredocs := sp_heredocs st @ [(delimiter, tabs)], sp_index := e\<rparr>)
      | None \<Rightarrow>
          (case non_boundary s i of
             Some operator \<Rightarrow> Inr (skip (length operator) st)
           | None \<Rightarrow> Inr (operator_step s split_pipelines st)))"

definition span_step :: "pystr \<Rightarrow> bool \<Rightarrow> span_state \<Rightarrow> (nat \<times> nat) list + span_state" where
  "span_step s split_pipelines st =
     (let c = s ! sp_index st in
      if sp_backtick st then
        Inr (if c = 92 then skip 2 st else if c = 96 then (skip 1 st)\<lparr>sp_backtick := False\<rparr> else skip 1 st)
      else case sp_quote st of
        Some q \<Rightarrow>
          Inr (if q = 34 \<and> c = 92 then skip 2 st else if c = q then (skip 1 st)\<lparr>sp_quote := None\<rparr> else skip 1 st)
      | None \<Rightarrow> plain_step s split_pipelines st)"

subsection \<open>The loop and its layout\<close>

lemmas span_defs = skip_def close_span_def close_before_bodies_def

lemma non_boundary_length: "non_boundary s i = Some operator \<Longrightarrow> 0 < length operator"
proof -
  assume "non_boundary s i = Some operator"
  then have "operator \<in> set NON_BOUNDARY_SHELL_OPERATORS" unfolding non_boundary_def by (auto simp: find_Some_iff)
  then show ?thesis by (auto simp: NON_BOUNDARY_SHELL_OPERATORS_def lit_def)
qed

lemma operator_step_progress:
  "sp_index st < length s \<Longrightarrow> sp_index st < sp_index (operator_step s split_pipelines st)"
  using after_heredoc_bodies_after [of "Suc (sp_index st)" s "sp_heredocs st"] by (auto simp: operator_step_def span_defs Let_def)

lemma comment_step_progress:
  assumes "comment_step s st = Inr st'"
  shows "sp_index st < sp_index st'"
proof -
  obtain j where j: "find_newline s (sp_index st) = Some j" using assms by (auto simp: comment_step_def split: option.splits)
  then show ?thesis
    using assms find_newline_bounds [OF j] after_heredoc_bodies_after [of "Suc j" s "sp_heredocs st"]
    by (auto simp: comment_step_def span_defs)
qed

lemma heredoc_at_after: "heredoc_at s i = Some (d, tabs, e) \<Longrightarrow> i < e \<and> e \<le> length s \<and> at_prefix s i (lit ''<<'')"
  using read_heredoc_after [of s i d tabs e] by (auto simp: heredoc_at_def split: if_splits)

lemma plain_step_progress:
  assumes "plain_step s split_pipelines st = Inr st'" "sp_index st < length s"
  shows "sp_index st < sp_index st'"
proof -
  have "sp_index st < skip_nested s (sp_index st + 2) 1 None" using skip_nested_after [of "sp_index st + 2" s 1 None] by simp
  then show ?thesis
    using assms operator_step_progress [of st s split_pipelines] comment_step_progress [of s st st'] heredoc_at_after [of s "sp_index st"]
      non_boundary_length [of s "sp_index st"]
    by (auto simp: plain_step_def Let_def skip_def split: if_splits option.splits)
qed

lemma span_step_progress:
  "span_step s split_pipelines st = Inr st' \<Longrightarrow> sp_index st < length s \<Longrightarrow> sp_index st < sp_index st'"
  using plain_step_progress [of s split_pipelines st st'] by (auto simp: span_step_def Let_def skip_def split: if_splits option.splits)

function span_loop :: "pystr \<Rightarrow> bool \<Rightarrow> span_state \<Rightarrow> (nat \<times> nat) list" where
  "span_loop s split_pipelines st =
     (if sp_index st \<ge> length s then sp_spans st @ [(sp_start st, length s)]
      else case span_step s split_pipelines st of Inl spans \<Rightarrow> spans | Inr st' \<Rightarrow> span_loop s split_pipelines st')"
  by pat_completeness auto
termination
proof (relation "measure (\<lambda>(s, sp, st). length s - sp_index st)", goal_cases)
  case (2 s sp st st')
  then show ?case using span_step_progress [of s sp st st'] by auto
qed simp

declare span_loop.simps [simp del]

definition top_level_spans :: "pystr \<Rightarrow> bool \<Rightarrow> (nat \<times> nat) list" where
  "top_level_spans s split_pipelines =
     span_loop s split_pipelines
       \<lparr>sp_start = 0, sp_index = 0, sp_quote = None, sp_backtick = False, sp_heredocs = [], sp_spans = []\<rparr>"

text \<open>What may lie between two spans: a list operator, or the end of a line, perhaps with a comment before it and the
  bodies of here-documents after it that were announced before. The spans are listed last to first.\<close>

definition gap :: "pystr \<Rightarrow> bool \<Rightarrow> nat \<Rightarrow> nat \<Rightarrow> bool" where
  "gap s split_pipelines e b \<longleftrightarrow>
     slice s e b \<in> {[], lit '';'', lit ''&&'', lit ''||''} \<or>
     split_pipelines \<and> slice s e b \<in> {lit ''|'', lit ''|&''} \<or>
     (\<exists>j docs. find_newline s e = Some j \<and> (j = e \<or> s ! e = 35) \<and> b = after_heredoc_bodies s (Suc j) docs \<and>
        (docs = [] \<or> (\<exists>i < e. at_prefix s i (lit ''<<''))))"

fun laid_out :: "pystr \<Rightarrow> bool \<Rightarrow> (nat \<times> nat) list \<Rightarrow> nat \<Rightarrow> bool" where
  "laid_out s split_pipelines [] b = (b = 0)"
| "laid_out s split_pipelines ((a, e) # spans) b =
     (a \<le> e \<and> e \<le> b \<and> b \<le> length s \<and> gap s split_pipelines e b \<and> laid_out s split_pipelines spans a)"

definition span_inv :: "pystr \<Rightarrow> bool \<Rightarrow> span_state \<Rightarrow> bool" where
  "span_inv s split_pipelines st \<longleftrightarrow>
     laid_out s split_pipelines (rev (sp_spans st)) (sp_start st) \<and> sp_start st \<le> sp_index st \<and> sp_start st \<le> length s \<and>
     (sp_heredocs st = [] \<or> (\<exists>i < sp_index st. at_prefix s i (lit ''<<'')))"

lemma span_inv_advance:
  assumes "span_inv s sp st" "sp_spans st' = sp_spans st" "sp_start st' = sp_start st" "sp_heredocs st' = sp_heredocs st"
    "sp_index st \<le> sp_index st'"
  shows "span_inv s sp st'"
  using assms by (auto simp: span_inv_def intro: less_le_trans)

lemma span_inv_close:
  assumes "span_inv s sp st" "gap s sp e b" "sp_index st \<le> e" "e \<le> b" "b \<le> length s"
  shows "span_inv s sp (close_span e b st)" "span_inv s sp ((close_span e b st)\<lparr>sp_heredocs := []\<rparr>)"
  using assms by (auto simp: span_inv_def close_span_def intro: less_le_trans)

lemma slice_prefix: "at_prefix s i p \<Longrightarrow> slice s i (i + length p) = p"
  by (simp add: at_prefix_def py_startswith_take slice_def)

lemma at_prefix_single: "i < length s \<Longrightarrow> at_prefix s i [c] \<longleftrightarrow> s ! i = c"
  by (simp add: at_prefix_def Cons_nth_drop_Suc [symmetric] del: drop_Suc_Cons)

lemma gap_operator:
  assumes "at_prefix s i p" "p \<in> {lit '';'', lit ''&&'', lit ''||''} \<or> sp \<and> p \<in> {lit ''|'', lit ''|&''}"
  shows "gap s sp i (i + length p) \<and> i + length p \<le> length s"
  using assms slice_prefix [OF assms(1)] at_prefix_length [OF assms(1)] by (auto simp: gap_def lit_def)

lemma gap_line:
  assumes "find_newline s e = Some j" "j = e \<or> s ! e = 35" "docs = [] \<or> (\<exists>i < e. at_prefix s i (lit ''<<''))"
  shows "gap s sp e (after_heredoc_bodies s (Suc j) docs) \<and> e \<le> after_heredoc_bodies s (Suc j) docs \<and>
    after_heredoc_bodies s (Suc j) docs \<le> length s"
  using assms find_newline_bounds [OF assms(1)] after_heredoc_bodies_after [of "Suc j" s docs] by (auto simp: gap_def)

lemma find_newline_here: "i < length s \<Longrightarrow> s ! i = 10 \<Longrightarrow> find_newline s i = Some i"
  by (simp add: find_newline_def Cons_nth_drop_Suc [symmetric] del: drop_Suc_Cons)

lemma operator_step_inv:
  assumes inv: "span_inv s sp st" and i: "sp_index st < length s"
  shows "span_inv s sp (operator_step s sp st)"
proof -
  let ?i = "sp_index st" and ?c = "s ! sp_index st"
  note skips = span_inv_advance [OF inv]
  have op: "span_inv s sp (close_span ?i (?i + length p) st)"
    if "at_prefix s ?i p" "p \<in> {lit '';'', lit ''&&'', lit ''||''} \<or> sp \<and> p \<in> {lit ''|'', lit ''|&''}" for p
    using span_inv_close(1) [OF inv] gap_operator [OF that] by simp
  have line: "span_inv s sp (close_span ?i (Suc ?i) st)" "span_inv s sp (close_before_bodies s (Suc ?i) st)" if "?c = 10"
    using gap_line [OF find_newline_here [OF i that], of "[]" sp] gap_line [OF find_newline_here [OF i that], of "sp_heredocs st" sp] inv
      span_inv_close [OF inv]
    by (auto simp: close_before_bodies_def span_inv_def)
  have amp: "span_inv s sp (close_span (Suc ?i) (Suc ?i) st)"
    using span_inv_close(1) [OF inv, of "Suc ?i" "Suc ?i"] i by (simp add: gap_def slice_def)
  have skip: "span_inv s sp (skip n st)" for n by (rule skips) (simp_all add: skip_def)
  show ?thesis
    using op [of "lit ''&&''"] op [of "lit ''||''"] op [of "lit ''|&''"] op [of "lit '';''"] op [of "lit ''|''"] line amp skip
      at_prefix_single [OF i, of 59] at_prefix_single [OF i, of 124]
    by (auto simp: operator_step_def Let_def lit_def)
qed

lemma comment_step_inv:
  assumes "span_inv s sp st" "comment_step s st = Inr st'" "s ! sp_index st = 35"
  shows "span_inv s sp st'"
proof -
  obtain j where j: "find_newline s (sp_index st) = Some j" using assms(2) by (auto simp: comment_step_def split: option.splits)
  show ?thesis
    using assms j gap_line [OF j, of "[]" sp] gap_line [OF j, of "sp_heredocs st" sp] span_inv_close [OF assms(1)]
      span_inv_advance [OF assms(1), of "st\<lparr>sp_index := Suc j\<rparr>"] find_newline_bounds [OF j]
    by (auto simp: comment_step_def close_before_bodies_def span_inv_def [of s sp st] split: if_splits)
qed

lemma span_step_inv:
  assumes inv: "span_inv s sp st" and i: "sp_index st < length s" and step: "span_step s sp st = Inr st'"
  shows "span_inv s sp st'"
proof -
  let ?i = "sp_index st"
  have adv: "span_inv s sp st'" if "sp_spans st' = sp_spans st" "sp_start st' = sp_start st" "sp_heredocs st' = sp_heredocs st"
    by (rule span_inv_advance [OF inv that]) (use span_step_progress [OF step i] in simp)
  show ?thesis
  proof (cases "sp_backtick st \<or> sp_quote st \<noteq> None")
    case True
    then show ?thesis using step adv by (auto simp: span_step_def Let_def skip_def split: if_splits)
  next
    case False
    then have plain: "plain_step s sp st = Inr st'" using step by (simp add: span_step_def Let_def)
    show ?thesis
    proof (cases "heredoc_at s ?i")
      case None
      then show ?thesis
        using plain adv operator_step_inv [OF inv i] comment_step_inv [OF inv, of st']
        by (auto simp: plain_step_def Let_def skip_def split: if_splits option.splits)
    next
      case (Some p)
      obtain d tabs e where p: "p = (d, tabs, e)" by (cases p) auto
      note h = heredoc_at_after [OF Some [unfolded p]]
      have "span_inv s sp (st\<lparr>sp_heredocs := sp_heredocs st @ [(d, tabs)], sp_index := e\<rparr>)"
        using inv h by (auto simp: span_inv_def)
      then show ?thesis
        using plain adv comment_step_inv [OF inv, of st'] Some p
        by (auto simp: plain_step_def Let_def skip_def split: if_splits)
    qed
  qed
qed

lemma span_step_end:
  assumes "span_step s sp st = Inl spans"
  shows "spans = sp_spans st @ [(sp_start st, sp_index st)] \<and> find_newline s (sp_index st) = None \<and> s ! sp_index st = 35"
  using assms by (auto simp: span_step_def plain_step_def comment_step_def Let_def split: if_splits option.splits)

definition spans_complete :: "pystr \<Rightarrow> bool \<Rightarrow> (nat \<times> nat) list \<Rightarrow> bool" where
  "spans_complete s split_pipelines spans \<longleftrightarrow>
     (\<exists>front a e. spans = front @ [(a, e)] \<and> laid_out s split_pipelines (rev front) a \<and> a \<le> e \<and> e \<le> length s \<and>
        (e = length s \<or> s ! e = 35 \<and> find_newline s e = None))"

lemma span_loop_complete: "span_inv s sp st \<Longrightarrow> spans_complete s sp (span_loop s sp st)"
proof (induction s sp st rule: span_loop.induct)
  case (1 s sp st)
  show ?case
  proof (cases "sp_index st \<ge> length s")
    case True
    then show ?thesis using "1.prems" by (auto simp: span_loop.simps [of s sp st] spans_complete_def span_inv_def)
  next
    case False
    show ?thesis
    proof (cases "span_step s sp st")
      case (Inl spans)
      then show ?thesis using "1.prems" span_step_end [OF Inl] False
        by (auto simp: span_loop.simps [of s sp st] spans_complete_def span_inv_def)
    next
      case (Inr st')
      then show ?thesis using "1.IH" [OF False Inr] span_step_inv [OF "1.prems" _ Inr] False
        by (simp add: span_loop.simps [of s sp st])
    qed
  qed
qed

lemma top_level_spans_complete: "spans_complete s sp (top_level_spans s sp)"
  unfolding top_level_spans_def by (rule span_loop_complete) (simp add: span_inv_def)

text \<open>Ordered spans: each begins at or after the end of the one before it.\<close>

fun ordered_from :: "nat \<Rightarrow> (nat \<times> nat) list \<Rightarrow> bool" where
  "ordered_from b [] = True"
| "ordered_from b ((a, e) # spans) = (b \<le> a \<and> a \<le> e \<and> ordered_from e spans)"

lemma ordered_from_snoc:
  "ordered_from b (spans @ [(a, e)]) \<longleftrightarrow> ordered_from b spans \<and> (if spans = [] then b else snd (last spans)) \<le> a \<and> a \<le> e"
  by (induction b spans rule: ordered_from.induct) auto

lemma laid_out_ordered: "laid_out s sp spans b \<Longrightarrow> ordered_from 0 (rev spans) \<and> (spans \<noteq> [] \<longrightarrow> snd (hd spans) \<le> b)"
  by (induction s sp spans b rule: laid_out.induct) (auto simp: ordered_from_snoc last_rev)

lemma spans_ordered: "ordered_from 0 (top_level_spans s sp) \<and> snd (last (top_level_spans s sp)) \<le> length s"
proof -
  obtain front a e where f: "top_level_spans s sp = front @ [(a, e)]" "laid_out s sp (rev front) a" "a \<le> e" "e \<le> length s"
    using top_level_spans_complete [of s sp] by (auto simp: spans_complete_def)
  then show ?thesis using laid_out_ordered [OF f(2)] by (auto simp: ordered_from_snoc hd_rev)
qed

subsection \<open>Searches among the spans\<close>

definition top_level_segments :: "pystr \<Rightarrow> pystr list" where
  "top_level_segments s = map (\<lambda>(a, e). slice s a e) (top_level_spans s True)"

text \<open>\<^verbatim>\<open>\s*(?:/bin/|/usr/bin/|/usr/local/bin/)?(?:find|rg)\<close> at the start, followed by the end, white space
  or one of the \<open>extra\<close> characters.\<close>

definition search_prefix :: "string \<Rightarrow> pystr \<Rightarrow> bool" where
  "search_prefix extra s \<longleftrightarrow>
     (let r = dropWhile py_isspace s in
      \<exists>d \<in> set (map lit ['''', ''/bin/'', ''/usr/bin/'', ''/usr/local/bin/'']). \<exists>t \<in> set (map lit [''find'', ''rg'']).
        py_startswith r (d @ t) \<and>
        (case drop (length (d @ t)) r of [] \<Rightarrow> True | c # cs \<Rightarrow> py_isspace c \<or> one_of extra c))"

text \<open>\<^verbatim>\<open>segment.replace("\\\n", "")\<close>\<close>

fun unfold_lines :: "pystr \<Rightarrow> pystr" where
  "unfold_lines (c # d # s) = (if c = 92 \<and> d = 10 then unfold_lines s else c # unfold_lines (d # s))"
| "unfold_lines s = s"

definition search_words :: "pystr list \<Rightarrow> bool" where
  "search_words argv \<longleftrightarrow> is_search_tool (basename (hd argv)) \<or> search_after_assignments argv"

definition segment_searches :: "(pystr \<Rightarrow> pystr list option) \<Rightarrow> pystr \<Rightarrow> bool" where
  "segment_searches words segment \<longleftrightarrow>
     (case words (unfold_lines segment) of
        None \<Rightarrow> search_prefix '''' segment
      | Some [] \<Rightarrow> False
      | Some (v # vs) \<Rightarrow>
          search_words (v # vs) \<or>
          basename v \<in> set (map lit [''command'', ''nice'', ''ionice'', ''timeout'']) \<and>
          (case strip_wrappers 8 1 (v # vs) [] of
             Inl _ \<Rightarrow> (\<exists>argument \<in> set vs. is_search_tool (basename argument))
           | Inr (remaining, wrappers) \<Rightarrow> search_words remaining))"

definition looks_like_direct_search :: "(pystr \<Rightarrow> pystr list option) \<Rightarrow> pystr \<Rightarrow> bool" where
  "looks_like_direct_search words command \<longleftrightarrow>
     search_prefix ''<>;&|'' command \<or> list_ex (segment_searches words) (top_level_segments command)"

record search_workflow =
  wf_ordinal :: nat
  wf_command :: pystr
  wf_start :: nat
  wf_end :: nat
  wf_start_line :: nat
  wf_end_line :: nat

definition trim_span :: "pystr \<Rightarrow> nat \<times> nat \<Rightarrow> nat \<times> nat" where
  "trim_span s p =
     (case p of (a, e) \<Rightarrow>
      let start = a + length (takeWhile py_isspace (slice s a e)) in
      (start, e - length (takeWhile py_isspace (rev (slice s start e)))))"

definition line_of :: "pystr \<Rightarrow> nat \<Rightarrow> nat" where
  "line_of s i = length (filter (\<lambda>c. c = 10) (take i s)) + 1"

definition workflow_at :: "pystr \<Rightarrow> nat \<Rightarrow> nat \<times> nat \<Rightarrow> search_workflow" where
  "workflow_at s n p =
     \<lparr>wf_ordinal = n, wf_command = slice s (fst p) (snd p), wf_start = fst p, wf_end = snd p,
      wf_start_line = line_of s (fst p), wf_end_line = line_of s (snd p)\<rparr>"

definition extracted :: "(pystr \<Rightarrow> pystr list option) \<Rightarrow> pystr \<Rightarrow> nat \<times> nat \<Rightarrow> bool" where
  "extracted words s p \<longleftrightarrow> fst p \<noteq> snd p \<and> looks_like_direct_search words (slice s (fst p) (snd p))"

fun extract_spans :: "(pystr \<Rightarrow> pystr list option) \<Rightarrow> pystr \<Rightarrow> (nat \<times> nat) list \<Rightarrow> search_workflow list \<Rightarrow> search_workflow list" where
  "extract_spans words s [] found = found"
| "extract_spans words s (p # ps) found =
     extract_spans words s ps
       (if extracted words s (trim_span s p) then found @ [workflow_at s (length found + 1) (trim_span s p)] else found)"

definition extract_search_workflows :: "(pystr \<Rightarrow> pystr list option) \<Rightarrow> pystr \<Rightarrow> search_workflow list" where
  "extract_search_workflows words s = extract_spans words s (top_level_spans s False) []"

subsection \<open>What is extracted\<close>

lemma ordered_from_mono: "ordered_from b spans \<Longrightarrow> b' \<le> b \<Longrightarrow> ordered_from b' spans"
  by (cases spans) auto

lemma ordered_from_last: "ordered_from b spans \<Longrightarrow> spans \<noteq> [] \<Longrightarrow> b \<le> snd (last spans)"
  by (induction b spans rule: ordered_from.induct) (force split: if_splits)+

lemma ordered_from_bounds: "ordered_from b spans \<Longrightarrow> p \<in> set spans \<Longrightarrow> fst p \<le> snd p \<and> snd p \<le> snd (last spans)"
proof (induction b spans rule: ordered_from.induct)
  case (2 b a e spans)
  have le: "e \<le> snd (last spans)" if "spans \<noteq> []"
    using that "2.prems"(1) ordered_from_last by auto
  show ?case
  proof (cases "p = (a, e)")
    case True
    then show ?thesis using "2.prems"(1) le by auto
  next
    case False
    then show ?thesis using "2.prems" "2.IH" by (auto split: if_splits)
  qed
qed simp

lemma trim_span_inside:
  assumes "a \<le> e" "e \<le> length s" "trim_span s (a, e) = (a', e')"
  shows "a \<le> a' \<and> a' \<le> e' \<and> e' \<le> e \<and> slice s a' e' = py_strip (slice s a e)"
proof -
  let ?w = "length (takeWhile py_isspace (slice s a e))"
  have w: "?w \<le> length (slice s a e)" by (rule length_takeWhile_le)
  have a': "a' = a + ?w" "e' = e - length (takeWhile py_isspace (rev (slice s a' e)))"
    using assms(3) by (auto simp: trim_span_def Let_def)
  have len: "length (slice s a e) = e - a" using assms(1,2) by (simp add: slice_def)
  have rest: "slice s a' e = dropWhile py_isspace (slice s a e)"
    by (simp add: dropWhile_eq_drop a'(1) slice_def drop_take add.commute diff_diff_add)
  have v: "length (takeWhile py_isspace (rev (slice s a' e))) \<le> length (rev (slice s a' e))" by (rule length_takeWhile_le)
  have len': "length (slice s a' e) = e - a'" using assms(1,2) w len a'(1) by (simp add: slice_def)
  have "slice s a' e' = take (e' - a') (slice s a' e)" using a'(2) by (simp add: slice_def)
  also have "\<dots> = rev (dropWhile py_isspace (rev (slice s a' e)))"
    using a'(2) v len' by (simp add: dropWhile_eq_drop drop_rev add.commute)
  finally have strip: "slice s a' e' = py_strip (slice s a e)" by (simp add: py_strip_def rest)
  have "a' \<le> e" using w len assms(1) a'(1) by simp
  then have "a' \<le> e'" "e' \<le> e" using v len' unfolding a'(2) by simp_all
  then show ?thesis using strip a'(1) by simp
qed

lemma ordered_from_trimmed:
  assumes "ordered_from b spans" "list_all (\<lambda>p. snd p \<le> length s) spans"
  shows "ordered_from b (filter P (map (trim_span s) spans))"
  using assms
proof (induction b spans rule: ordered_from.induct)
  case (2 b a e spans)
  obtain a' e' where t: "trim_span s (a, e) = (a', e')" by fastforce
  have "a \<le> a'" "a' \<le> e'" "e' \<le> e" using trim_span_inside [OF _ _ t] 2 by auto
  then show ?case using 2 t by (auto intro: ordered_from_mono)
qed simp

lemma extract_spans_found:
  "map (\<lambda>w. (wf_start w, wf_end w)) (extract_spans words s spans found) =
     map (\<lambda>w. (wf_start w, wf_end w)) found @ filter (extracted words s) (map (trim_span s) spans)"
  by (induction words s spans found rule: extract_spans.induct) (auto simp: workflow_at_def)

definition workflows_ok :: "pystr \<Rightarrow> search_workflow list \<Rightarrow> bool" where
  "workflows_ok s ws \<longleftrightarrow>
     map wf_ordinal ws = [1..<length ws + 1] \<and>
     list_all (\<lambda>w. wf_command w = slice s (wf_start w) (wf_end w) \<and> wf_start_line w = line_of s (wf_start w) \<and>
       wf_end_line w = line_of s (wf_end w)) ws"

lemma extract_spans_ok: "workflows_ok s found \<Longrightarrow> workflows_ok s (extract_spans words s spans found)"
  by (induction words s spans found rule: extract_spans.induct) (auto simp: workflows_ok_def workflow_at_def)



end
