(* ===== verification/Search_Policy.thy ===== *)
theory Search_Policy
  imports Search_Extraction
begin

section \<open>Admission of searches\<close>

text \<open>
  \<^verbatim>\<open>_static_plan\<close>, \<^verbatim>\<open>_census\<close>, \<^verbatim>\<open>inspect\<close> and \<^verbatim>\<open>evaluate_find_rg_source\<close> of
  \<^verbatim>\<open>src/rodex/pre_tool_use_customer_library/find_rg.py\<close>. The file system and the clock are parameters that may answer
  differently at every call: each answer depends on the number of calls made before it. A refusal carries its code
  and stage; the rendered messages are left out. \<^verbatim>\<open>int()\<close> of more than 4300 digits raises \<^verbatim>\<open>ValueError\<close>, which
  is not a policy violation and leaves \<^verbatim>\<open>inspect\<close> as an exception, and so does a policy that names an option
  without a path as a reference option.
\<close>

datatype plan_failure = Violated violation | ValueError | TypeError

definition bind_plan :: "'e + 'a \<Rightarrow> ('a \<Rightarrow> 'e + 'b) \<Rightarrow> 'e + 'b" where
  "bind_plan x f = (case x of Inl e \<Rightarrow> Inl e | Inr v \<Rightarrow> f v)"

lemma bind_plan_Inr: "bind_plan x f = Inr y \<longleftrightarrow> (\<exists>v. x = Inr v \<and> f v = Inr y)"
  by (cases x) (simp_all add: bind_plan_def)

definition refuse :: "search_code \<Rightarrow> nat option \<Rightarrow> plan_failure + 'a" where
  "refuse code stage = Inl (Violated \<lparr>v_code = code, v_stage = stage\<rparr>)"

definition refuse_if :: "bool \<Rightarrow> search_code \<Rightarrow> nat option \<Rightarrow> plan_failure + unit" where
  "refuse_if b code stage = (if b then refuse code stage else Inr ())"

lemma refuse_if_Inr [simp]: "refuse_if b code stage = Inr u \<longleftrightarrow> \<not> b"
  by (simp add: refuse_if_def refuse_def)

definition lift_violation :: "violation + 'a \<Rightarrow> plan_failure + 'a" where
  "lift_violation x = (case x of Inl e \<Rightarrow> Inl (Violated e) | Inr v \<Rightarrow> Inr v)"

subsection \<open>Paths\<close>

text \<open>\<^verbatim>\<open>os.path.abspath(os.path.join(cwd, path))\<close> for an absolute \<^verbatim>\<open>cwd\<close>: components are resolved by their
  text, and exactly two leading slashes are kept.\<close>

fun split_slash :: "pystr \<Rightarrow> pystr list" where
  "split_slash [] = [[]]"
| "split_slash (c # s) = (if c = 47 then [] # split_slash s else (c # hd (split_slash s)) # tl (split_slash s))"

definition path_parts :: "pystr \<Rightarrow> pystr list" where
  "path_parts s = filter (\<lambda>p. p \<noteq> []) (split_slash s)"

definition push_part :: "pystr list \<Rightarrow> pystr \<Rightarrow> pystr list" where
  "push_part parts p = (if p = [46] then parts else if p = [46, 46] then butlast parts else parts @ [p])"

definition join_path :: "pystr \<Rightarrow> pystr \<Rightarrow> pystr" where
  "join_path cwd p = (if py_startswith p [47] then p else if cwd = [] \<or> last cwd = 47 then cwd @ p else cwd @ [47] @ p)"

definition absolute :: "pystr \<Rightarrow> pystr \<Rightarrow> pystr" where
  "absolute p cwd =
     (let j = join_path cwd p;
          slashes = (if py_startswith j [47, 47] \<and> \<not> py_startswith j [47, 47, 47] then [47, 47] else [47])
      in slashes @ py_join [47] (foldl push_part [] (path_parts j)))"

text \<open>\<^verbatim>\<open>os.path.commonpath((path, root)) == root\<close> for absolute paths without dot components.\<close>

definition inside :: "pystr \<Rightarrow> pystr \<Rightarrow> bool" where
  "inside p base \<longleftrightarrow> py_startswith (path_parts p) (path_parts base)"

definition is_virtual :: "pystr \<Rightarrow> bool" where
  "is_virtual p \<longleftrightarrow> list_ex (inside p) (map lit [''/proc'', ''/sys'', ''/dev''])"

subsection \<open>Budgets read from text\<close>

definition utf8_length :: "pystr \<Rightarrow> nat" where
  "utf8_length s = sum_list (map (\<lambda>c. if c < 128 then 1 else if c < 2048 then 2 else if c < 65536 then 3 else 4) s)"

text \<open>\<^verbatim>\<open>int()\<close> of decimal digits of any script.\<close>

definition decimal_value :: "nat \<Rightarrow> nat" where
  "decimal_value c = (case find (\<lambda>b. b \<le> c \<and> c < b + 10) decimal_blocks of None \<Rightarrow> 0 | Some b \<Rightarrow> c - b)"

definition py_int :: "pystr \<Rightarrow> nat option" where
  "py_int s = (if length s > 4300 then None else Some (foldl (\<lambda>n c. n * 10 + decimal_value c) 0 s))"

text \<open>The digits that \<^verbatim>\<open>%[-+# 0]*\.?([0-9]+)\<close> finds. Where no digit follows the flags, the expression backs up into
  them and takes their last zeros.\<close>

function printf_widths :: "pystr \<Rightarrow> pystr list" where
  "printf_widths [] = []"
| "printf_widths (c # s) =
     (if c \<noteq> 37 then printf_widths s
      else let flags = takeWhile (one_of ''-+# 0'') s; rest = dropWhile (one_of ''-+# 0'') s;
               after = (if py_startswith rest [46] then tl rest else rest); ds = takeWhile ascii_digit after
           in if ds \<noteq> [] then ds # printf_widths (dropWhile ascii_digit after)
              else if 48 \<in> set flags then [48] # printf_widths rest
              else printf_widths s)"
  by pat_completeness auto
termination
proof (relation "measure length", goal_cases)
  case (3 c s flags rest after ds)
  have "length after \<le> length s" using 3(2-4) length_dropWhile_le [of "one_of ''-+# 0''" s] by (auto split: if_splits)
  then show ?case using length_dropWhile_le [of ascii_digit after] by simp
next
  case (4 c s flags rest after ds)
  then show ?case using length_dropWhile_le [of "one_of ''-+# 0''" s] by simp
qed simp_all

text \<open>The digit runs of the matches of \<^verbatim>\<open>\{\d+(?:,\d*)?\}\<close>.\<close>

definition repeat_at :: "pystr \<Rightarrow> (pystr list \<times> pystr) option" where
  "repeat_at s =
     (let low = takeWhile is_decimal s; r1 = dropWhile is_decimal s;
          high = (if py_startswith r1 [44] then takeWhile is_decimal (tl r1) else []);
          r2 = (if py_startswith r1 [44] then dropWhile is_decimal (tl r1) else r1)
      in if low \<noteq> [] \<and> py_startswith r2 [125] then Some (if high = [] then [low] else [low, high], tl r2) else None)"

lemma repeat_at_shorter: "repeat_at s = Some (ns, r) \<Longrightarrow> length r \<le> length s"
proof -
  assume a: "repeat_at s = Some (ns, r)"
  let ?r1 = "dropWhile is_decimal s"
  have "length r \<le> length ?r1"
    using a length_dropWhile_le [of is_decimal "tl ?r1"] by (auto simp: repeat_at_def Let_def split: if_splits)
  then show ?thesis using length_dropWhile_le [of is_decimal s] by linarith
qed

function repeat_counts :: "pystr \<Rightarrow> pystr list" where
  "repeat_counts [] = []"
| "repeat_counts (c # s) =
     (if c = 123 then (case repeat_at s of None \<Rightarrow> repeat_counts s | Some (ns, r) \<Rightarrow> ns @ repeat_counts r)
      else repeat_counts s)"
  by pat_completeness auto
termination
proof (relation "measure length", goal_cases)
  case (3 c s p ns r)
  then show ?case using repeat_at_shorter [of s ns r] by simp
qed simp_all

text \<open>\<^verbatim>\<open>any(int(n) > limit for n in ns)\<close>, and the same for the list that is converted first.\<close>

fun any_over :: "nat \<Rightarrow> pystr list \<Rightarrow> plan_failure + bool" where
  "any_over limit [] = Inr False"
| "any_over limit (n # ns) =
     (case py_int n of None \<Rightarrow> Inl ValueError | Some v \<Rightarrow> if v > limit then Inr True else any_over limit ns)"

text \<open>\<^verbatim>\<open>widths = [int(v) for v in ...]\<close> converts every width before the comparison.\<close>

definition any_width_over :: "nat \<Rightarrow> pystr list \<Rightarrow> plan_failure + bool" where
  "any_width_over limit ns =
     (if list_ex (\<lambda>n. py_int n = None) ns then Inl ValueError else any_over limit ns)"

subsection \<open>The static plan\<close>

record census_request =
  rq_stage :: nat
  rq_path :: pystr
  rq_depth :: "nat option"
  rq_content :: bool
  rq_input_file_only :: bool
  rq_inspect_empty :: bool

definition harmless_redirect :: "pystr \<times> pystr \<times> pystr \<Rightarrow> bool" where
  "harmless_redirect r \<longleftrightarrow>
     (case r of (descriptor, operator, target) \<Rightarrow>
      (operator = lit ''>'' \<or> operator = lit ''>>'') \<and> (descriptor = lit ''1'' \<or> descriptor = lit ''2'') \<and> target = lit ''/dev/null'' \<or>
      operator = lit ''>&'' \<and> (descriptor = lit ''1'' \<or> descriptor = lit ''2'') \<and> (target = lit ''1'' \<or> target = lit ''2''))"

definition input_redirection :: "pystr \<Rightarrow> pystr \<times> pystr \<times> pystr \<Rightarrow> bool" where
  "input_redirection tool r \<longleftrightarrow> (case r of (descriptor, operator, target) \<Rightarrow> descriptor = lit ''0'' \<and> operator = lit ''<'' \<and> tool = lit ''rg'')"

fun plan_redirects :: "nat \<Rightarrow> pystr \<Rightarrow> (pystr \<times> pystr \<times> pystr) list \<Rightarrow> pystr option \<Rightarrow> plan_failure + pystr option" where
  "plan_redirects n tool [] input = Inr input"
| "plan_redirects n tool (r # rs) input =
     (if input_redirection tool r then
        (if input \<noteq> None then refuse ''REDIRECTION'' (Some n) else plan_redirects n tool rs (Some (snd (snd r))))
      else if harmless_redirect r then plan_redirects n tool rs input
      else refuse ''REDIRECTION'' (Some n))"

definition option_names :: "stage \<Rightarrow> pystr list" where
  "option_names st = map fst (st_options st)"

definition has_any :: "stage \<Rightarrow> pystr list \<Rightarrow> bool" where
  "has_any st names \<longleftrightarrow> list_ex (\<lambda>k. k \<in> set names) (option_names st)"

definition is_reference :: "search_policy \<Rightarrow> pystr \<Rightarrow> bool" where
  "is_reference policy k \<longleftrightarrow> k \<in> set (find_reference_options policy) \<or> newer_option ''aBcm'' k"

fun plan_references :: "search_policy \<Rightarrow> pystr \<Rightarrow> nat \<Rightarrow> (pystr \<times> option_value) list \<Rightarrow> plan_failure + census_request list" where
  "plan_references policy cwd n [] = Inr []"
| "plan_references policy cwd n ((k, v) # opts) =
     (if is_reference policy k then
        (case v of
           TextValue t \<Rightarrow>
             bind_plan (refuse_if (is_virtual (absolute t cwd)) ''REFERENCE_SCOPE'' (Some n)) (\<lambda>_.
             bind_plan (plan_references policy cwd n opts) (\<lambda>rest.
               Inr (\<lparr>rq_stage = n, rq_path = absolute t cwd, rq_depth = Some 0, rq_content = False, rq_input_file_only = False,
                     rq_inspect_empty = False\<rparr> # rest)))
         | _ \<Rightarrow> Inl TypeError)
      else plan_references policy cwd n opts)"

fun check_formats :: "nat \<Rightarrow> pystr list \<Rightarrow> plan_failure + unit" where
  "check_formats n [] = Inr ()"
| "check_formats n (f # fs) =
     bind_plan (any_width_over 4096 (printf_widths f)) (\<lambda>wide.
     bind_plan (refuse_if (utf8_length f > 4096 \<or> wide) ''FORMAT_AMPLIFICATION'' (Some n)) (\<lambda>_. check_formats n fs))"

definition plan_find :: "search_policy \<Rightarrow> pystr \<Rightarrow> nat \<Rightarrow> stage \<Rightarrow> plan_failure + census_request list" where
  "plan_find policy cwd n st =
     bind_plan (refuse_if (has_any st (find_denied_options policy)) ''FIND_SIDE_EFFECT_OR_DYNAMIC_INPUT'' (Some n)) (\<lambda>_.
     bind_plan (refuse_if (st_follow st \<and> has_any st (find_follow_options policy)) ''SYMLINK_FOLLOW'' (Some n)) (\<lambda>_.
     bind_plan (plan_references policy cwd n (st_options st)) (\<lambda>requests.
     bind_plan (check_formats n (stage_values st ''-printf'')) (\<lambda>_. Inr requests))))"

fun check_repeats :: "nat \<Rightarrow> pystr list \<Rightarrow> plan_failure + unit" where
  "check_repeats n [] = Inr ()"
| "check_repeats n (p # ps) =
     bind_plan (any_over 10000 (repeat_counts p)) (\<lambda>large.
     bind_plan (refuse_if large ''PATTERN_EXPANSION'' (Some n)) (\<lambda>_. check_repeats n ps))"

definition values_over :: "nat \<Rightarrow> stage \<Rightarrow> string \<Rightarrow> bool" where
  "values_over limit st name \<longleftrightarrow> list_ex (\<lambda>v. ascii_number v > limit) (stage_values st name)"

fun any_size_over :: "nat \<Rightarrow> nat \<Rightarrow> pystr list \<Rightarrow> violation + bool" where
  "any_size_over limit n [] = Inr False"
| "any_size_over limit n (v # vs) = bind_check (size_bytes v n) (\<lambda>b. if b > limit then Inr True else any_size_over limit n vs)"

definition check_memory :: "nat \<Rightarrow> stage \<Rightarrow> string \<Rightarrow> plan_failure + unit" where
  "check_memory n st name =
     bind_plan (lift_violation (any_size_over (64 * 1024 * 1024) n (stage_values st name))) (\<lambda>large.
     refuse_if large ''REGEX_MEMORY'' (Some n))"

definition plan_rg :: "search_policy \<Rightarrow> bool \<Rightarrow> nat \<Rightarrow> stage \<Rightarrow> plan_failure + unit" where
  "plan_rg policy config n st =
     bind_plan (refuse_if (has_any st (rg_external_options policy)) ''RG_EXTERNAL_OR_UNINSPECTED_INPUT'' (Some n)) (\<lambda>_.
     bind_plan (refuse_if (has_any st (rg_decompression_options policy)) ''DECOMPRESSION'' (Some n)) (\<lambda>_.
     bind_plan (refuse_if (st_follow st \<and> has_any st (rg_follow_options policy)) ''SYMLINK_FOLLOW'' (Some n)) (\<lambda>_.
     bind_plan (refuse_if (st_engine st \<in> set (rg_non_default_engines policy)) ''REGEX_ENGINE'' (Some n)) (\<lambda>_.
     bind_plan (refuse_if (st_unrestricted st > 3) ''UNRESTRICTED_COUNT'' (Some n)) (\<lambda>_.
     bind_plan (refuse_if (sum_list (map utf8_length (st_patterns st)) > max_pattern_bytes policy \<or>
       length (st_patterns st) > max_patterns policy) ''PATTERN_BUDGET'' (Some n)) (\<lambda>_.
     bind_plan (if st_fixed st then Inr () else check_repeats n (st_patterns st)) (\<lambda>_.
     bind_plan (refuse_if (list_ex (values_over (max_context_lines policy) st) [''after-context'', ''before-context'', ''context''])
       ''OUTPUT_CONTEXT'' (Some n)) (\<lambda>_.
     bind_plan (refuse_if (values_over (max_threads policy) st ''threads'') ''THREAD_BUDGET'' (Some n)) (\<lambda>_.
     bind_plan (check_memory n st ''regex-size-limit'') (\<lambda>_.
     bind_plan (check_memory n st ''dfa-size-limit'') (\<lambda>_.
       refuse_if (config \<and> \<not> stage_has st ''no-config'') ''HIDDEN_CONFIG'' (Some n))))))))))))"

definition input_paths :: "nat \<Rightarrow> stage \<Rightarrow> pystr option \<Rightarrow> plan_failure + pystr list option" where
  "input_paths n st input =
     (case input of
        Some target \<Rightarrow>
          bind_plan (refuse_if (st_mode st = FilesMode) ''LISTING_STDIN'' (Some n)) (\<lambda>_.
          bind_plan (refuse_if (st_before st = lit ''|'' \<or> st_paths st \<notin> {[], [lit ''-'']}) ''AMBIGUOUS_INPUT'' (Some n)) (\<lambda>_.
            Inr (Some [target])))
      | None \<Rightarrow>
          if st_source st = StreamSource then Inr None
          else
            bind_plan (refuse_if (st_source st = ExternalStdinSource \<or> lit ''-'' \<in> set (st_paths st)) ''UNBOUNDED_STDIN'' (Some n)) (\<lambda>_.
            if st_paths st \<noteq> [] then Inr (Some (st_paths st))
            else bind_plan (refuse_if (st_tool st = lit ''rg'' \<and> st_mode st \<noteq> FilesMode) ''IMPLICIT_INPUT'' (Some n)) (\<lambda>_.
              Inr (Some [lit ''.'']))))"

definition directory_syntax :: "pystr \<Rightarrow> bool" where
  "directory_syntax p \<longleftrightarrow> p = lit ''.'' \<or> p = lit ''..'' \<or> p = lit ''/'' \<or> py_endswith p (lit ''/'')"

definition path_request :: "nat \<Rightarrow> stage \<Rightarrow> bool \<Rightarrow> pystr \<Rightarrow> census_request" where
  "path_request n st redirected p =
     \<lparr>rq_stage = n, rq_path = p, rq_depth = st_depth st, rq_content = (st_tool st = lit ''rg'' \<and> st_mode st \<noteq> FilesMode),
      rq_input_file_only = redirected, rq_inspect_empty = (st_tool st = lit ''find'' \<and> stage_has st ''-empty'')\<rparr>"

fun plan_paths :: "pystr \<Rightarrow> nat \<Rightarrow> stage \<Rightarrow> bool \<Rightarrow> pystr list \<Rightarrow> plan_failure + census_request list" where
  "plan_paths cwd n st redirected [] = Inr []"
| "plan_paths cwd n st redirected (p # ps) =
     bind_plan (refuse_if (p = []) ''EMPTY_PATH'' (Some n)) (\<lambda>_.
     bind_plan (refuse_if (is_virtual (absolute p cwd)) ''VIRTUAL_INPUT'' (Some n)) (\<lambda>_.
     bind_plan (refuse_if (st_depth st = None \<and> directory_syntax p \<and> \<not> redirected) ''UNBOUNDED_DEPTH'' (Some n)) (\<lambda>_.
     bind_plan (plan_paths cwd n st redirected ps) (\<lambda>rest. Inr (path_request n st redirected (absolute p cwd) # rest)))))"

definition plan_inputs :: "search_policy \<Rightarrow> pystr \<Rightarrow> nat \<Rightarrow> stage \<Rightarrow> pystr option \<Rightarrow> nat \<Rightarrow> plan_failure + census_request list \<times> nat" where
  "plan_inputs policy cwd n st input roots =
     (if st_mode st = MetadataMode then Inr ([], roots)
      else
        bind_plan (input_paths n st input) (\<lambda>found.
        case found of
          None \<Rightarrow> Inr ([], roots)
        | Some paths \<Rightarrow>
            bind_plan (refuse_if (roots + length paths > max_roots policy) ''ROOT_COUNT'' None) (\<lambda>_.
            bind_plan (refuse_if (case st_depth st of None \<Rightarrow> False | Some d \<Rightarrow> d > max_depth policy) ''DEPTH_BUDGET'' (Some n)) (\<lambda>_.
            bind_plan (plan_paths cwd n st (input \<noteq> None) paths) (\<lambda>requests. Inr (requests, roots + length paths))))))"

definition plan_stage :: "search_policy \<Rightarrow> pystr \<Rightarrow> bool \<Rightarrow> nat \<Rightarrow> stage \<Rightarrow> nat \<Rightarrow> plan_failure + census_request list \<times> nat" where
  "plan_stage policy cwd config n st roots =
     bind_plan (plan_redirects n (st_tool st) (st_redirects st) None) (\<lambda>input.
     if \<not> is_search_tool (st_tool st) then Inr ([], roots)
     else
       bind_plan (if st_tool st = lit ''find'' then plan_find policy cwd n st
         else bind_plan (plan_rg policy config n st) (\<lambda>_. Inr [])) (\<lambda>references.
       bind_plan (plan_inputs policy cwd n st input roots) (\<lambda>(requests, roots').
         Inr (references @ requests, roots'))))"

fun plan_stages :: "search_policy \<Rightarrow> pystr \<Rightarrow> bool \<Rightarrow> nat \<Rightarrow> stage list \<Rightarrow> nat \<Rightarrow> plan_failure + census_request list" where
  "plan_stages policy cwd config n [] roots = Inr []"
| "plan_stages policy cwd config n (st # sts) roots =
     bind_plan (plan_stage policy cwd config n st roots) (\<lambda>(requests, roots').
     bind_plan (plan_stages policy cwd config (Suc n) sts roots') (\<lambda>rest. Inr (requests @ rest)))"

definition static_plan :: "search_policy \<Rightarrow> pystr \<Rightarrow> bool \<Rightarrow> stage list \<Rightarrow> plan_failure + census_request list" where
  "static_plan policy cwd config stages = plan_stages policy cwd config 1 stages 0"

subsection \<open>What an accepted plan guarantees\<close>

text \<open>The inputs a stage reads, as the shell and the tools determine them, and what is promised of a stage and of a request.\<close>

definition stage_inputs :: "stage \<Rightarrow> pystr list" where
  "stage_inputs st =
     (if \<not> is_search_tool (st_tool st) \<or> st_mode st = MetadataMode then []
      else case find (input_redirection (st_tool st)) (st_redirects st) of
        Some r \<Rightarrow> [snd (snd r)]
      | None \<Rightarrow> if st_source st = StreamSource then [] else if st_paths st = [] then [lit ''.''] else st_paths st)"

definition find_admitted :: "search_policy \<Rightarrow> stage \<Rightarrow> bool" where
  "find_admitted policy st \<longleftrightarrow>
     \<not> has_any st (find_denied_options policy) \<and> \<not> (st_follow st \<and> has_any st (find_follow_options policy)) \<and>
     list_all (\<lambda>f. utf8_length f \<le> 4096) (stage_values st ''-printf'')"

definition rg_admitted :: "search_policy \<Rightarrow> bool \<Rightarrow> stage \<Rightarrow> bool" where
  "rg_admitted policy config st \<longleftrightarrow>
     \<not> has_any st (rg_external_options policy) \<and> \<not> has_any st (rg_decompression_options policy) \<and>
     \<not> (st_follow st \<and> has_any st (rg_follow_options policy)) \<and> st_engine st \<notin> set (rg_non_default_engines policy) \<and>
     st_unrestricted st \<le> 3 \<and> sum_list (map utf8_length (st_patterns st)) \<le> max_pattern_bytes policy \<and>
     length (st_patterns st) \<le> max_patterns policy \<and>
     list_all (\<lambda>name. list_all (\<lambda>v. ascii_number v \<le> max_context_lines policy) (stage_values st name))
       [''after-context'', ''before-context'', ''context''] \<and>
     list_all (\<lambda>v. ascii_number v \<le> max_threads policy) (stage_values st ''threads'') \<and>
     (st_fixed st \<or> list_all (\<lambda>p. list_all (\<lambda>k. \<exists>v \<le> 10000. py_int k = Some v) (repeat_counts p)) (st_patterns st)) \<and>
     (config \<longrightarrow> stage_has st ''no-config'')"

definition safe_redirect :: "pystr \<Rightarrow> pystr \<times> pystr \<times> pystr \<Rightarrow> bool" where
  "safe_redirect tool r \<longleftrightarrow>
     (case r of (descriptor, operator, target) \<Rightarrow>
      operator \<noteq> lit ''<'' \<and> target = lit ''/dev/null'' \<or> operator = lit ''>&'' \<and> (target = lit ''1'' \<or> target = lit ''2'') \<or>
      operator = lit ''<'' \<and> descriptor = lit ''0'' \<and> tool = lit ''rg'')"

definition stage_admitted :: "search_policy \<Rightarrow> bool \<Rightarrow> stage \<Rightarrow> bool" where
  "stage_admitted policy config st \<longleftrightarrow>
     list_all (safe_redirect (st_tool st)) (st_redirects st) \<and>
     length (filter (input_redirection (st_tool st)) (st_redirects st)) \<le> 1 \<and>
     (st_tool st = lit ''find'' \<longrightarrow> find_admitted policy st) \<and> (st_tool st = lit ''rg'' \<longrightarrow> rg_admitted policy config st)"

definition request_ok :: "search_policy \<Rightarrow> census_request \<Rightarrow> bool" where
  "request_ok policy r \<longleftrightarrow> \<not> is_virtual (rq_path r) \<and> (case rq_depth r of None \<Rightarrow> True | Some d \<Rightarrow> d \<le> max_depth policy)"

definition covers_inputs :: "pystr \<Rightarrow> census_request list \<Rightarrow> stage \<Rightarrow> bool" where
  "covers_inputs cwd requests st \<longleftrightarrow>
     list_all (\<lambda>p. p \<noteq> [] \<and> list_ex (\<lambda>r. rq_path r = absolute p cwd \<and> rq_depth r = st_depth st) requests) (stage_inputs st)"

lemma accepted_redirect_safe: "input_redirection tool r \<or> harmless_redirect r \<Longrightarrow> safe_redirect tool r"
  by (cases r) (auto simp: input_redirection_def harmless_redirect_def safe_redirect_def lit_def)

lemma plan_redirects_Inr:
  "plan_redirects n tool rs input = Inr input' \<Longrightarrow>
     list_all (safe_redirect tool) rs \<and>
     (case input of
        None \<Rightarrow> input' = map_option (\<lambda>r. snd (snd r)) (find (input_redirection tool) rs) \<and> length (filter (input_redirection tool) rs) \<le> 1
      | Some x \<Rightarrow> input' = Some x \<and> filter (input_redirection tool) rs = [])"
proof (induction n tool rs input rule: plan_redirects.induct)
  case (2 n tool r rs input)
  then show ?case using accepted_redirect_safe [of tool r]
    by (cases "input_redirection tool r"; cases input; cases "harmless_redirect r") (auto simp: refuse_def)
qed (auto split: option.splits)

lemma plan_references_Inr:
  "plan_references policy cwd n opts = Inr requests \<Longrightarrow>
     list_all (request_ok policy) requests \<and> length requests = length (filter (\<lambda>p. is_reference policy (fst p)) opts)"
proof (induction policy cwd n opts arbitrary: requests rule: plan_references.induct)
  case (2 policy cwd n k v opts)
  then show ?case by (cases v) (auto simp: bind_plan_Inr request_ok_def split: if_splits)
qed simp

lemma check_formats_Inr: "check_formats n fs = Inr u \<Longrightarrow> list_all (\<lambda>f. utf8_length f \<le> 4096) fs"
  by (induction n fs rule: check_formats.induct) (auto simp: bind_plan_Inr)

lemma plan_find_Inr:
  "plan_find policy cwd n st = Inr requests \<Longrightarrow>
     find_admitted policy st \<and> list_all (request_ok policy) requests \<and>
     length requests = length (filter (\<lambda>p. is_reference policy (fst p)) (st_options st))"
  using plan_references_Inr check_formats_Inr by (fastforce simp: plan_find_def bind_plan_Inr find_admitted_def)

lemma any_over_False: "any_over limit ns = Inr False \<Longrightarrow> list_all (\<lambda>k. \<exists>v \<le> limit. py_int k = Some v) ns"
  by (induction limit ns rule: any_over.induct) (auto split: option.splits if_splits)

lemma check_repeats_Inr:
  "check_repeats n ps = Inr u \<Longrightarrow> list_all (\<lambda>p. list_all (\<lambda>k. \<exists>v \<le> 10000. py_int k = Some v) (repeat_counts p)) ps"
  by (induction n ps rule: check_repeats.induct) (auto simp: bind_plan_Inr dest: any_over_False)

lemma not_values_over: "\<not> values_over limit st name \<longleftrightarrow> list_all (\<lambda>v. ascii_number v \<le> limit) (stage_values st name)"
  by (auto simp: values_over_def list_ex_iff list_all_iff not_less)

lemma plan_rg_Inr: "plan_rg policy config n st = Inr u \<Longrightarrow> rg_admitted policy config st"
  unfolding plan_rg_def bind_plan_Inr refuse_if_Inr
  using check_repeats_Inr [of n "st_patterns st"]
  by (auto simp: rg_admitted_def not_values_over [symmetric] split: if_splits)

lemma plan_paths_Inr:
  assumes "plan_paths cwd n st redirected ps = Inr requests" "case st_depth st of None \<Rightarrow> True | Some d \<Rightarrow> d \<le> max_depth policy"
  shows "list_all (request_ok policy) requests \<and> length requests = length ps \<and>
    list_all (\<lambda>p. p \<noteq> [] \<and> list_ex (\<lambda>r. rq_path r = absolute p cwd \<and> rq_depth r = st_depth st) requests) ps"
  using assms
proof (induction cwd n st redirected ps arbitrary: requests rule: plan_paths.induct)
  case (2 cwd n st redirected p ps)
  then show ?case by (force simp: bind_plan_Inr request_ok_def path_request_def list_all_iff)
qed simp

lemma input_paths_Inr:
  assumes "input_paths n st input = Inr found" "is_search_tool (st_tool st)" "st_mode st \<noteq> MetadataMode"
    "input = map_option (\<lambda>r. snd (snd r)) (find (input_redirection (st_tool st)) (st_redirects st))"
  shows "stage_inputs st = (case found of None \<Rightarrow> [] | Some ps \<Rightarrow> ps)"
  using assms by (auto simp: input_paths_def stage_inputs_def bind_plan_Inr split: option.splits if_splits)

lemma plan_inputs_Inr:
  assumes "plan_inputs policy cwd n st input roots = Inr (requests, roots')" "is_search_tool (st_tool st)"
    "input = map_option (\<lambda>r. snd (snd r)) (find (input_redirection (st_tool st)) (st_redirects st))" "roots \<le> max_roots policy"
  shows "list_all (request_ok policy) requests \<and> covers_inputs cwd requests st \<and> roots' = roots + length requests \<and> roots' \<le> max_roots policy"
proof (cases "st_mode st = MetadataMode")
  case True
  then show ?thesis using assms by (simp add: plan_inputs_def covers_inputs_def stage_inputs_def)
next
  case False
  then obtain found where found: "input_paths n st input = Inr found" using assms(1) by (auto simp: plan_inputs_def bind_plan_Inr)
  note inputs = input_paths_Inr [OF found assms(2) False assms(3)]
  show ?thesis
  proof (cases found)
    case None
    then show ?thesis using assms found False inputs by (simp add: plan_inputs_def covers_inputs_def bind_plan_def)
  next
    case (Some ps)
    then have "\<not> roots + length ps > max_roots policy" "\<not> (case st_depth st of None \<Rightarrow> False | Some d \<Rightarrow> d > max_depth policy)"
      "plan_paths cwd n st (input \<noteq> None) ps = Inr requests" "roots' = roots + length ps"
      using assms(1) found False by (auto simp: plan_inputs_def bind_plan_Inr)
    then show ?thesis using plan_paths_Inr [of cwd n st "input \<noteq> None" ps requests policy] inputs Some
      by (auto simp: covers_inputs_def split: option.splits)
  qed
qed

definition reference_count :: "search_policy \<Rightarrow> stage list \<Rightarrow> nat" where
  "reference_count policy stages =
     sum_list (map (\<lambda>st. length (filter (\<lambda>p. is_reference policy (fst p)) (st_options st))) stages)"

lemma covers_inputs_mono: "covers_inputs cwd xs st \<Longrightarrow> set xs \<subseteq> set ys \<Longrightarrow> covers_inputs cwd ys st"
  unfolding covers_inputs_def list_all_iff list_ex_iff by blast

lemma plan_stage_Inr:
  assumes "plan_stage policy cwd config n st roots = Inr (requests, roots')" "roots \<le> max_roots policy"
  shows "stage_admitted policy config st \<and> list_all (request_ok policy) requests \<and> covers_inputs cwd requests st \<and>
    roots' \<le> max_roots policy \<and> length requests \<le> (roots' - roots) + reference_count policy [st] \<and> roots \<le> roots'"
proof -
  obtain input where input: "plan_redirects n (st_tool st) (st_redirects st) None = Inr input"
    using assms(1) by (auto simp: plan_stage_def bind_plan_Inr)
  note red = plan_redirects_Inr [OF input, simplified]
  show ?thesis
  proof (cases "is_search_tool (st_tool st)")
    case False
    then show ?thesis using assms input red
      by (auto simp: plan_stage_def bind_plan_def stage_admitted_def covers_inputs_def stage_inputs_def is_search_tool_def)
  next
    case True
    obtain references inputs where r: "requests = references @ inputs" "plan_inputs policy cwd n st input roots = Inr (inputs, roots')"
      and tool: "(if st_tool st = lit ''find'' then plan_find policy cwd n st
         else bind_plan (plan_rg policy config n st) (\<lambda>_. Inr [])) = Inr references"
      using assms(1) True input by (auto simp: plan_stage_def bind_plan_Inr)
    have i: "list_all (request_ok policy) inputs" "covers_inputs cwd inputs st" "roots' = roots + length inputs" "roots' \<le> max_roots policy"
      using plan_inputs_Inr [OF r(2) True _ assms(2)] red by auto
    have t: "st_tool st = lit ''find'' \<longrightarrow> find_admitted policy st" "st_tool st = lit ''rg'' \<longrightarrow> rg_admitted policy config st"
      "list_all (request_ok policy) references" "length references \<le> reference_count policy [st]"
      using tool plan_find_Inr [of policy cwd n st references] plan_rg_Inr [of policy config n st] True
      by (auto simp: reference_count_def bind_plan_Inr is_search_tool_def lit_def split: if_splits)
    then show ?thesis using red i r(1) covers_inputs_mono [OF i(2), of requests] by (auto simp: stage_admitted_def)
  qed
qed

lemma plan_stages_Inr:
  assumes "plan_stages policy cwd config n stages roots = Inr requests" "roots \<le> max_roots policy"
  shows "list_all (stage_admitted policy config) stages \<and> list_all (request_ok policy) requests \<and>
    list_all (covers_inputs cwd requests) stages \<and> length requests \<le> (max_roots policy - roots) + reference_count policy stages"
  using assms
proof (induction policy cwd config n stages roots arbitrary: requests rule: plan_stages.induct)
  case (2 policy cwd config n st sts roots)
  obtain r1 roots' r2 where p: "plan_stage policy cwd config n st roots = Inr (r1, roots')"
    "plan_stages policy cwd config (Suc n) sts roots' = Inr r2" "requests = r1 @ r2"
    using "2.prems"(1) by (auto simp: bind_plan_Inr)
  note a = plan_stage_Inr [OF p(1) "2.prems"(2)]
  have b: "list_all (stage_admitted policy config) sts \<and> list_all (request_ok policy) r2 \<and> list_all (covers_inputs cwd r2) sts \<and>
      length r2 \<le> (max_roots policy - roots') + reference_count policy sts"
    by (rule "2.IH" [OF p(2)]) (use a in simp)
  have "list_all (covers_inputs cwd requests) (st # sts)"
    using a b covers_inputs_mono [of cwd r1 st requests] covers_inputs_mono [of cwd r2 _ requests] p(3) by (auto simp: list_all_iff)
  moreover have "length r1 \<le> (roots' - roots) + reference_count policy [st]" "roots \<le> roots'" "roots' \<le> max_roots policy"
    "length r2 \<le> (max_roots policy - roots') + reference_count policy sts"
    using a b by blast+
  then have "length requests \<le> (max_roots policy - roots) + (reference_count policy [st] + reference_count policy sts)"
    unfolding p(3) length_append by linarith
  then have "length requests \<le> (max_roots policy - roots) + reference_count policy (st # sts)" by (simp add: reference_count_def)
  ultimately show ?case using a b p(3) by simp
qed simp

subsection \<open>The census\<close>

datatype file_kind = SymbolicLink | RegularFile | Directory | SpecialFile

record file_stat =
  fs_kind :: file_kind
  fs_size :: nat

text \<open>The world of one census, at the number of calls made before: \<^verbatim>\<open>os.lstat\<close> (\<open>None\<close> where it raises \<^verbatim>\<open>OSError\<close>), the
  entries of \<^verbatim>\<open>os.scandir\<close> with the answer of \<^verbatim>\<open>entry.stat\<close>, and \<^verbatim>\<open>time.monotonic()\<close>.\<close>

record census_world =
  cw_lstat :: "nat \<Rightarrow> pystr \<Rightarrow> file_stat option"
  cw_scandir :: "nat \<Rightarrow> pystr \<Rightarrow> (pystr \<times> file_stat option) list option"
  cw_clock :: "nat \<Rightarrow> rat"

record census_result =
  cr_entries :: nat
  cr_regular_files :: nat
  cr_content_files :: nat
  cr_content_bytes :: nat
  cr_symlinks_skipped :: nat
  cr_roots :: "(pystr \<times> file_kind) list"

record census_state =
  cs_calls :: nat
  cs_verified :: "pystr list"
  cs_result :: census_result

record census_limits =
  cl_policy :: search_policy
  cl_started :: rat
  cl_deadline :: "rat option"

definition census_call :: "census_state \<Rightarrow> census_state" where
  "census_call st = st\<lparr>cs_calls := Suc (cs_calls st)\<rparr>"

definition check_deadline :: "census_world \<Rightarrow> census_limits \<Rightarrow> nat \<Rightarrow> census_state \<Rightarrow> violation + census_state" where
  "check_deadline w l stage st =
     (let current = cw_clock w (cs_calls st) in
      if current - cl_started l > census_seconds (cl_policy l) \<or> (case cl_deadline l of None \<Rightarrow> False | Some d \<Rightarrow> current \<ge> d)
      then fail ''CENSUS_TIMEOUT'' (Some stage) else Inr (census_call st))"

fun check_components :: "census_world \<Rightarrow> census_limits \<Rightarrow> nat \<Rightarrow> pystr \<Rightarrow> pystr list \<Rightarrow> census_state \<Rightarrow> violation + census_state" where
  "check_components w l stage current [] st = Inr st"
| "check_components w l stage current (p # ps) st =
     (let here = join_path current p in
      bind_check (check_deadline w l stage st) (\<lambda>st1.
      if here \<in> set (cs_verified st1) then check_components w l stage here ps st1
      else case cw_lstat w (cs_calls st1) here of
        None \<Rightarrow> fail ''FILESYSTEM_UNKNOWN'' (Some stage)
      | Some s \<Rightarrow>
          if fs_kind s = SymbolicLink then fail ''SYMLINK_PATH'' (Some stage)
          else check_components w l stage here ps ((census_call st1)\<lparr>cs_verified := cs_verified st1 @ [here]\<rparr>)))"

definition checked_lstat :: "census_world \<Rightarrow> census_limits \<Rightarrow> nat \<Rightarrow> pystr \<Rightarrow> census_state \<Rightarrow> violation + file_stat \<times> census_state" where
  "checked_lstat w l stage p st =
     bind_check (check_components w l stage [47] (path_parts p) st) (\<lambda>st1.
     case cw_lstat w (cs_calls st1) p of
       None \<Rightarrow> fail ''FILESYSTEM_UNKNOWN'' (Some stage)
     | Some s \<Rightarrow> Inr (s, census_call st1))"

type_synonym census_entry = "pystr \<times> file_stat \<times> nat"

text \<open>\<^verbatim>\<open>for entry in entries\<close>: the stack grows at its head.\<close>

fun push_entries :: "census_world \<Rightarrow> census_limits \<Rightarrow> nat \<Rightarrow> nat \<Rightarrow> (pystr \<times> file_stat option) list \<Rightarrow> census_entry list \<Rightarrow> census_state \<Rightarrow>
    violation + census_entry list \<times> census_state" where
  "push_entries w l stage level [] stack st = Inr (stack, st)"
| "push_entries w l stage level ((p, answer) # es) stack st =
     bind_check (check_deadline w l stage st) (\<lambda>st1.
     if cr_entries (cs_result st1) + length stack \<ge> max_entries (cl_policy l) then fail ''ENTRY_BUDGET'' (Some stage)
     else case answer of
       None \<Rightarrow> fail ''FILESYSTEM_UNKNOWN'' (Some stage)
     | Some s \<Rightarrow> push_entries w l stage level es ((p, s, level) # stack) (census_call st1))"

definition count_entry :: "census_limits \<Rightarrow> nat \<Rightarrow> census_result \<Rightarrow> violation + census_result" where
  "count_entry l stage r =
     (if Suc (cr_entries r) > max_entries (cl_policy l) then fail ''ENTRY_BUDGET'' (Some stage) else Inr (r\<lparr>cr_entries := Suc (cr_entries r)\<rparr>))"

definition count_file :: "census_limits \<Rightarrow> census_request \<Rightarrow> file_stat \<Rightarrow> census_result \<Rightarrow> violation + census_result" where
  "count_file l rq s r =
     (let r1 = r\<lparr>cr_regular_files := Suc (cr_regular_files r)\<rparr>;
          r2 = r1\<lparr>cr_content_files := Suc (cr_content_files r), cr_content_bytes := cr_content_bytes r + fs_size s\<rparr>; n = Some (rq_stage rq) in
      if \<not> rq_content rq then Inr r1
      else if fs_size s > max_file_bytes (cl_policy l) then fail ''FILE_BYTE_BUDGET'' n
      else if cr_content_files r2 > max_files (cl_policy l) then fail ''FILE_COUNT_BUDGET'' n
      else if cr_content_bytes r2 > max_total_bytes (cl_policy l) then fail ''TOTAL_BYTE_BUDGET'' n
      else Inr r2)"

definition visit_kind :: "census_world \<Rightarrow> census_limits \<Rightarrow> census_request \<Rightarrow> nat \<Rightarrow> census_entry \<Rightarrow> census_entry list \<Rightarrow> census_state \<Rightarrow>
    violation + census_entry list \<times> census_state" where
  "visit_kind w l rq depth e stack st =
     (case e of (p, s, level) \<Rightarrow>
      let r = cs_result st in
      case fs_kind s of
        SymbolicLink \<Rightarrow> Inr (stack, st\<lparr>cs_result := r\<lparr>cr_symlinks_skipped := Suc (cr_symlinks_skipped r)\<rparr>\<rparr>)
      | RegularFile \<Rightarrow> bind_check (count_file l rq s r) (\<lambda>r'. Inr (stack, st\<lparr>cs_result := r'\<rparr>))
      | Directory \<Rightarrow>
          if level < depth then
            (case cw_scandir w (cs_calls st) p of
               None \<Rightarrow> fail ''FILESYSTEM_UNKNOWN'' (Some (rq_stage rq))
             | Some es \<Rightarrow> push_entries w l (rq_stage rq) (Suc level) es stack (census_call st))
          else Inr (stack, st)
      | SpecialFile \<Rightarrow> fail ''NONREGULAR_INPUT'' (Some (rq_stage rq)))"

definition visit_entry :: "census_world \<Rightarrow> census_limits \<Rightarrow> census_request \<Rightarrow> nat \<Rightarrow> census_entry \<Rightarrow> census_entry list \<Rightarrow> census_state \<Rightarrow>
    violation + census_entry list \<times> census_state" where
  "visit_entry w l rq depth e stack st =
     bind_check (check_deadline w l (rq_stage rq) st) (\<lambda>st0.
     bind_check (count_entry l (rq_stage rq) (cs_result st0)) (\<lambda>r. visit_kind w l rq depth e stack (st0\<lparr>cs_result := r\<rparr>)))"

lemma check_deadline_Inr: "check_deadline w l stage st = Inr st' \<Longrightarrow> st' = census_call st"
  by (simp add: check_deadline_def fail_def Let_def split: if_splits)

lemma census_call_simps [simp]:
  "cs_result (census_call st) = cs_result st" "cs_verified (census_call st) = cs_verified st"
  by (simp_all add: census_call_def)

lemma push_entries_result: "push_entries w l stage level es stack st = Inr (stack', st') \<Longrightarrow> cs_result st' = cs_result st"
proof (induction w l stage level es stack st rule: push_entries.induct)
  case (2 w l stage level p answer es stack st)
  obtain st1 where st1: "check_deadline w l stage st = Inr st1" using "2.prems" by (auto simp: bind_check_Inr)
  then obtain s where s: "answer = Some s" "push_entries w l stage level es ((p, s, level) # stack) (census_call st1) = Inr (stack', st')"
    "\<not> max_entries (cl_policy l) \<le> cr_entries (cs_result st1) + length stack"
    using "2.prems" by (auto simp: bind_check_def fail_def split: if_splits option.splits)
  then show ?case using "2.IH" [OF s(3,1,2)] check_deadline_Inr [OF st1] by simp
qed simp

lemma visit_entry_counts:
  assumes "visit_entry w l rq depth e stack st = Inr (stack', st')"
  shows "cr_entries (cs_result st') = Suc (cr_entries (cs_result st)) \<and> cr_entries (cs_result st') \<le> max_entries (cl_policy l)"
proof -
  obtain p s level where e: "e = (p, s, level)" by (cases e) auto
  show ?thesis
    using assms unfolding visit_entry_def visit_kind_def e
    by (auto simp: bind_check_Inr count_entry_def count_file_def fail_def Let_def split: if_splits option.splits file_kind.splits
        dest!: check_deadline_Inr push_entries_result)
qed

text \<open>\<^verbatim>\<open>while stack\<close>: every round counts an entry, so the budget bounds the rounds.\<close>

function census_loop :: "census_world \<Rightarrow> census_limits \<Rightarrow> census_request \<Rightarrow> nat \<Rightarrow> census_entry list \<Rightarrow> census_state \<Rightarrow> violation + census_state" where
  "census_loop w l rq depth [] st = Inr st"
| "census_loop w l rq depth (e # stack) st =
     (case visit_entry w l rq depth e stack st of
        Inl v \<Rightarrow> Inl v
      | Inr (stack', st') \<Rightarrow> census_loop w l rq depth stack' st')"
  by pat_completeness auto
termination
proof (relation "measure (\<lambda>(w, l, rq, depth, stack, st). Suc (max_entries (cl_policy l)) - cr_entries (cs_result st))", goal_cases)
  case (2 w l rq depth e stack st p stack' st')
  then show ?case using visit_entry_counts [of w l rq depth e stack st stack' st'] by auto
qed simp

definition census_depth :: "census_request \<Rightarrow> nat" where
  "census_depth rq = (case rq_depth rq of None \<Rightarrow> 0 | Some d \<Rightarrow> if rq_inspect_empty rq then d + 1 else d)"

definition census_root :: "census_world \<Rightarrow> census_limits \<Rightarrow> census_request \<Rightarrow> census_state \<Rightarrow> violation + census_state" where
  "census_root w l rq st =
     bind_check (checked_lstat w l (rq_stage rq) (rq_path rq) st) (\<lambda>(s, st1).
     let kind = (case fs_kind s of SymbolicLink \<Rightarrow> SpecialFile | k \<Rightarrow> k);
         st2 = st1\<lparr>cs_result := (cs_result st1)\<lparr>cr_roots := cr_roots (cs_result st1) @ [(rq_path rq, kind)]\<rparr>\<rparr> in
     if rq_input_file_only rq \<and> fs_kind s \<noteq> RegularFile then fail ''NONREGULAR_INPUT'' (Some (rq_stage rq))
     else if fs_kind s = Directory \<and> rq_depth rq = None then fail ''UNBOUNDED_DIRECTORY'' (Some (rq_stage rq))
     else census_loop w l rq (census_depth rq) [(rq_path rq, s, 0)] st2)"

fun census_roots :: "census_world \<Rightarrow> census_limits \<Rightarrow> census_request list \<Rightarrow> census_state \<Rightarrow> violation + census_state" where
  "census_roots w l [] st = Inr st"
| "census_roots w l (rq # rqs) st = bind_check (census_root w l rq st) (census_roots w l rqs)"

definition census :: "census_world \<Rightarrow> search_policy \<Rightarrow> rat option \<Rightarrow> census_request list \<Rightarrow> violation + census_result" where
  "census w policy deadline requests =
     bind_check
       (census_roots w \<lparr>cl_policy = policy, cl_started = cw_clock w 0, cl_deadline = deadline\<rparr> requests
          \<lparr>cs_calls = 1, cs_verified = [],
           cs_result = \<lparr>cr_entries = 0, cr_regular_files = 0, cr_content_files = 0, cr_content_bytes = 0, cr_symlinks_skipped = 0,
             cr_roots = []\<rparr>\<rparr>)
       (\<lambda>st. Inr (cs_result st))"

subsection \<open>The census is exact and within its budgets\<close>

text \<open>A world that does not change, and the tree that is visited: a root, and below a directory its entries down to the
  given depth, in the order of the visit.\<close>

definition still :: "census_world \<Rightarrow> bool" where
  "still w \<longleftrightarrow> (\<forall>n p. cw_lstat w n p = cw_lstat w 0 p \<and> cw_scandir w n p = cw_scandir w 0 p)"

definition directory_entries :: "census_world \<Rightarrow> pystr \<Rightarrow> (pystr \<times> file_stat option) list" where
  "directory_entries w p = (case cw_scandir w 0 p of None \<Rightarrow> [] | Some es \<Rightarrow> es)"

primrec walk :: "census_world \<Rightarrow> nat \<Rightarrow> pystr \<Rightarrow> file_stat \<Rightarrow> (pystr \<times> file_stat) list" where
  "walk w 0 p s = [(p, s)]"
| "walk w (Suc d) p s =
     (p, s) # (if fs_kind s = Directory then concat (map (\<lambda>e. walk w d (fst e) (the (snd e))) (rev (directory_entries w p))) else [])"

definition stack_walk :: "census_world \<Rightarrow> nat \<Rightarrow> census_entry list \<Rightarrow> (pystr \<times> file_stat) list" where
  "stack_walk w depth stack = concat (map (\<lambda>(p, s, level). walk w (depth - level) p s) stack)"

definition tally :: "census_request \<Rightarrow> pystr \<times> file_stat \<Rightarrow> census_result \<Rightarrow> census_result" where
  "tally rq e r =
     (let regular = (fs_kind (snd e) = RegularFile); read = (regular \<and> rq_content rq) in
      r\<lparr>cr_entries := Suc (cr_entries r), cr_regular_files := cr_regular_files r + of_bool regular,
        cr_content_files := cr_content_files r + of_bool read,
        cr_content_bytes := cr_content_bytes r + (if read then fs_size (snd e) else 0),
        cr_symlinks_skipped := cr_symlinks_skipped r + of_bool (fs_kind (snd e) = SymbolicLink)\<rparr>)"

definition fits :: "search_policy \<Rightarrow> census_request \<Rightarrow> pystr \<times> file_stat \<Rightarrow> bool" where
  "fits policy rq e \<longleftrightarrow>
     fs_kind (snd e) \<noteq> SpecialFile \<and> (rq_content rq \<and> fs_kind (snd e) = RegularFile \<longrightarrow> fs_size (snd e) \<le> max_file_bytes policy)"

definition within_budget :: "search_policy \<Rightarrow> census_result \<Rightarrow> bool" where
  "within_budget policy r \<longleftrightarrow>
     cr_entries r \<le> max_entries policy \<and> cr_content_files r \<le> max_files policy \<and> cr_content_bytes r \<le> max_total_bytes policy"

lemma push_entries_stack:
  "push_entries w l stage level es stack st = Inr (stack', st') \<Longrightarrow>
     stack' = rev (map (\<lambda>e. (fst e, the (snd e), level)) es) @ stack \<and> cs_verified st' = cs_verified st"
proof (induction w l stage level es stack st rule: push_entries.induct)
  case (2 w l stage level p answer es stack st)
  obtain st1 where st1: "check_deadline w l stage st = Inr st1" using "2.prems" by (auto simp: bind_check_Inr)
  then obtain s where s: "answer = Some s" "push_entries w l stage level es ((p, s, level) # stack) (census_call st1) = Inr (stack', st')"
    "\<not> max_entries (cl_policy l) \<le> cr_entries (cs_result st1) + length stack"
    using "2.prems" by (auto simp: bind_check_def fail_def split: if_splits option.splits)
  then show ?case using "2.IH" [OF s(3,1,2)] check_deadline_Inr [OF st1] by simp
qed simp

lemma visit_entry_exact:
  assumes "visit_entry w l rq depth (p, s, level) stack st = Inr (stack', st')" "within_budget (cl_policy l) (cs_result st)"
  shows "cs_result st' = tally rq (p, s) (cs_result st) \<and> fits (cl_policy l) rq (p, s) \<and> within_budget (cl_policy l) (cs_result st') \<and>
    cs_verified st' = cs_verified st \<and>
    (still w \<longrightarrow> stack_walk w depth ((p, s, level) # stack) = (p, s) # stack_walk w depth stack')"
proof -
  obtain r where r: "count_entry l (rq_stage rq) (cs_result st) = Inr r"
    using assms(1) by (auto simp: visit_entry_def bind_check_Inr dest!: check_deadline_Inr)
  then have r': "r = (cs_result st)\<lparr>cr_entries := Suc (cr_entries (cs_result st))\<rparr>" "Suc (cr_entries (cs_result st)) \<le> max_entries (cl_policy l)"
    by (auto simp: count_entry_def fail_def split: if_splits)
  let ?st1 = "(census_call st)\<lparr>cs_result := r\<rparr>"
  have v: "visit_kind w l rq depth (p, s, level) stack ?st1 = Inr (stack', st')"
    using assms(1) r by (auto simp: visit_entry_def bind_check_Inr dest!: check_deadline_Inr)
  note kind = v [unfolded visit_kind_def prod.case Let_def]
  show ?thesis
  proof (cases "fs_kind s")
    case SymbolicLink
    then show ?thesis using kind r' assms(2)
      by (cases "depth - level") (auto simp: tally_def fits_def within_budget_def stack_walk_def Let_def)
  next
    case RegularFile
    then show ?thesis using kind r' assms(2)
      by (cases "depth - level") (auto simp: bind_check_Inr count_file_def tally_def fits_def within_budget_def stack_walk_def fail_def Let_def split: if_splits)
  next
    case SpecialFile
    then show ?thesis using kind by (simp add: fail_def)
  next
    case Directory
    show ?thesis
    proof (cases "level < depth")
      case False
      then show ?thesis using kind r' assms(2) Directory by (auto simp: tally_def fits_def within_budget_def stack_walk_def Let_def)
    next
      case True
      then obtain es where es: "cw_scandir w (cs_calls ?st1) p = Some es"
        "push_entries w l (rq_stage rq) (Suc level) es stack (census_call ?st1) = Inr (stack', st')"
        using kind Directory by (auto simp: fail_def split: option.splits)
      have d: "depth - level = Suc (depth - Suc level)" using True by simp
      have "still w \<Longrightarrow> directory_entries w p = es" using es(1) unfolding still_def directory_entries_def by (metis option.simps(5))
      then have "still w \<longrightarrow> stack_walk w depth ((p, s, level) # stack) = (p, s) # stack_walk w depth stack'"
        using push_entries_stack [OF es(2)] Directory by (simp add: stack_walk_def d rev_map comp_def)
      then show ?thesis using push_entries_stack [OF es(2)] push_entries_result [OF es(2)] r' assms(2) Directory
        by (auto simp: tally_def fits_def within_budget_def Let_def)
    qed
  qed
qed

lemma census_loop_exact:
  assumes "census_loop w l rq depth stack st = Inr st'" "within_budget (cl_policy l) (cs_result st)"
  shows "within_budget (cl_policy l) (cs_result st') \<and> cs_verified st' = cs_verified st \<and>
    (still w \<longrightarrow> cs_result st' = fold (tally rq) (stack_walk w depth stack) (cs_result st) \<and>
      list_all (fits (cl_policy l) rq) (stack_walk w depth stack))"
  using assms
proof (induction w l rq depth stack st rule: census_loop.induct)
  case (1 w l rq depth st)
  then show ?case by (simp add: stack_walk_def)
next
  case (2 w l rq depth e stack st)
  obtain p s level where e: "e = (p, s, level)" by (cases e) auto
  obtain stack' st1 where v: "visit_entry w l rq depth e stack st = Inr (stack', st1)" "census_loop w l rq depth stack' st1 = Inr st'"
    using "2.prems"(1) by (auto split: sum.splits)
  note x = visit_entry_exact [OF v(1) [unfolded e] "2.prems"(2)]
  have "within_budget (cl_policy l) (cs_result st') \<and> cs_verified st' = cs_verified st1 \<and>
    (still w \<longrightarrow> cs_result st' = fold (tally rq) (stack_walk w depth stack') (cs_result st1) \<and>
      list_all (fits (cl_policy l) rq) (stack_walk w depth stack'))"
    by (rule "2.IH" [OF v(1) refl v(2)]) (use x in blast)
  then show ?case using x unfolding e by simp
qed

lemma fold_tally:
  "cr_entries (fold (tally rq) es r) = cr_entries r + length es"
  "cr_content_bytes (fold (tally rq) es r) =
     cr_content_bytes r + (if rq_content rq then sum_list (map (\<lambda>e. if fs_kind (snd e) = RegularFile then fs_size (snd e) else 0) es) else 0)"
  "cr_content_files (fold (tally rq) es r) =
     cr_content_files r + (if rq_content rq then length (filter (\<lambda>e. fs_kind (snd e) = RegularFile) es) else 0)"
  by (induction es arbitrary: r) (auto simp: tally_def Let_def)

fun trail :: "pystr \<Rightarrow> pystr list \<Rightarrow> pystr list" where
  "trail current [] = []"
| "trail current (p # ps) = join_path current p # trail (join_path current p) ps"

definition no_link :: "census_world \<Rightarrow> pystr \<Rightarrow> bool" where
  "no_link w p \<longleftrightarrow> (case cw_lstat w 0 p of None \<Rightarrow> False | Some s \<Rightarrow> fs_kind s \<noteq> SymbolicLink)"

lemma still_lstat: "still w \<Longrightarrow> cw_lstat w n p = Some s \<Longrightarrow> cw_lstat w 0 p = Some s"
  unfolding still_def by metis

lemma check_components_exact:
  assumes "check_components w l stage current ps st = Inr st'"
  shows "cs_result st' = cs_result st \<and>
    (still w \<and> list_all (no_link w) (cs_verified st) \<longrightarrow> list_all (no_link w) (cs_verified st') \<and> list_all (no_link w) (trail current ps))"
  using assms
proof (induction w l stage current ps st rule: check_components.induct)
  case (2 w l stage current p ps st)
  let ?here = "join_path current p"
  obtain st1 where st1: "check_deadline w l stage st = Inr st1" using "2.prems" by (auto simp: bind_check_Inr Let_def)
  then have eq: "st1 = census_call st" by (rule check_deadline_Inr)
  show ?case
  proof (cases "?here \<in> set (cs_verified st1)")
    case True
    then have "check_components w l stage ?here ps st1 = Inr st'" using "2.prems" st1 by (simp add: bind_check_def Let_def)
    moreover have "list_all (no_link w) (cs_verified st) \<Longrightarrow> no_link w ?here" using True by (simp add: eq list_all_iff)
    ultimately show ?thesis using "2.IH"(1) [OF refl True] by (simp add: eq)
  next
    case False
    then obtain s where s: "cw_lstat w (cs_calls st1) ?here = Some s" "fs_kind s \<noteq> SymbolicLink"
      "check_components w l stage ?here ps ((census_call st1)\<lparr>cs_verified := cs_verified st1 @ [?here]\<rparr>) = Inr st'"
      using "2.prems" st1 by (auto simp: bind_check_def Let_def fail_def split: option.splits if_splits)
    have "still w \<Longrightarrow> no_link w ?here" using still_lstat [OF _ s(1)] s(2) by (simp add: no_link_def)
    then show ?thesis using "2.IH"(2) [OF refl False s(1,2,3)] by (simp add: eq)
  qed
qed simp

definition root_seen :: "census_world \<Rightarrow> census_request \<Rightarrow> (pystr \<times> file_stat) list" where
  "root_seen w rq = walk w (census_depth rq) (rq_path rq) (the (cw_lstat w 0 (rq_path rq)))"

definition root_ok :: "census_world \<Rightarrow> search_policy \<Rightarrow> census_request \<Rightarrow> bool" where
  "root_ok w policy rq \<longleftrightarrow>
     cw_lstat w 0 (rq_path rq) \<noteq> None \<and> list_all (no_link w) (trail [47] (path_parts (rq_path rq))) \<and>
     list_all (fits policy rq) (root_seen w rq)"

lemma census_root_exact:
  assumes "census_root w l rq st = Inr st'" "within_budget (cl_policy l) (cs_result st)"
  shows "within_budget (cl_policy l) (cs_result st') \<and>
    (still w \<and> list_all (no_link w) (cs_verified st) \<longrightarrow>
      list_all (no_link w) (cs_verified st') \<and> root_ok w (cl_policy l) rq \<and>
      (\<exists>roots. cs_result st' = fold (tally rq) (root_seen w rq) ((cs_result st)\<lparr>cr_roots := roots\<rparr>)))"
proof -
  obtain s st1 where c: "checked_lstat w l (rq_stage rq) (rq_path rq) st = Inr (s, st1)"
    using assms(1) by (auto simp: census_root_def bind_check_Inr)
  then obtain st0 where st0: "check_components w l (rq_stage rq) [47] (path_parts (rq_path rq)) st = Inr st0"
    "cw_lstat w (cs_calls st0) (rq_path rq) = Some s" "st1 = census_call st0"
    by (auto simp: checked_lstat_def bind_check_Inr fail_def split: option.splits)
  note comp = check_components_exact [OF st0(1)]
  obtain roots where loop: "census_loop w l rq (census_depth rq) [(rq_path rq, s, 0)]
      (st1\<lparr>cs_result := (cs_result st1)\<lparr>cr_roots := roots\<rparr>\<rparr>) = Inr st'"
    using assms(1) c by (auto simp: census_root_def bind_check_def fail_def Let_def split: if_splits)
  have "within_budget (cl_policy l) ((cs_result st1)\<lparr>cr_roots := roots\<rparr>)"
    using assms(2) comp st0(3) by (simp add: within_budget_def)
  note x = census_loop_exact [OF loop, simplified, OF this]
  have s: "still w \<Longrightarrow> cw_lstat w 0 (rq_path rq) = Some s" using still_lstat st0(2) by blast
  then have seen: "still w \<Longrightarrow> stack_walk w (census_depth rq) [(rq_path rq, s, 0)] = root_seen w rq"
    by (simp add: stack_walk_def root_seen_def)
  show ?thesis using x comp s seen st0(3) unfolding root_ok_def by auto
qed

definition bytes_seen :: "(pystr \<times> file_stat) list \<Rightarrow> nat" where
  "bytes_seen es = sum_list (map (\<lambda>e. if fs_kind (snd e) = RegularFile then fs_size (snd e) else 0) es)"

lemma census_roots_exact:
  assumes "census_roots w l rqs st = Inr st'" "within_budget (cl_policy l) (cs_result st)"
  shows "within_budget (cl_policy l) (cs_result st') \<and>
    (still w \<and> list_all (no_link w) (cs_verified st) \<longrightarrow>
      list_all (root_ok w (cl_policy l)) rqs \<and>
      cr_entries (cs_result st') = cr_entries (cs_result st) + sum_list (map (\<lambda>rq. length (root_seen w rq)) rqs) \<and>
      cr_content_bytes (cs_result st') = cr_content_bytes (cs_result st) +
        sum_list (map (\<lambda>rq. bytes_seen (root_seen w rq)) (filter rq_content rqs)))"
  using assms
proof (induction w l rqs st rule: census_roots.induct)
  case (2 w l rq rqs st)
  obtain st1 where st1: "census_root w l rq st = Inr st1" "census_roots w l rqs st1 = Inr st'"
    using "2.prems"(1) by (auto simp: bind_check_Inr)
  note x = census_root_exact [OF st1(1) "2.prems"(2)]
  note y = "2.IH" [OF st1(2) conjunct1 [OF x]]
  show ?case
  proof (cases "still w \<and> list_all (no_link w) (cs_verified st)")
    case True
    then obtain roots where r: "cs_result st1 = fold (tally rq) (root_seen w rq) ((cs_result st)\<lparr>cr_roots := roots\<rparr>)"
      "list_all (no_link w) (cs_verified st1)" "root_ok w (cl_policy l) rq"
      using x by blast
    then have "cr_entries (cs_result st1) = cr_entries (cs_result st) + length (root_seen w rq)"
      "cr_content_bytes (cs_result st1) = cr_content_bytes (cs_result st) + (if rq_content rq then bytes_seen (root_seen w rq) else 0)"
      by (simp_all add: fold_tally bytes_seen_def)
    then show ?thesis using y r True by simp
  next
    case False
    then show ?thesis using y by blast
  qed
qed simp

text \<open>Property C4. Whatever the file system does during a census, an accepted census stays within the entry, file and
  byte budgets; and when the file system does not change, it has counted exactly the entries of every requested
  tree down to its depth and exactly the bytes of the files a content search reads there, no path to a root leads
  through a symbolic link, and no special or oversized file is in the trees.\<close>

theorem census_exact:
  assumes "census w policy deadline requests = Inr r"
  shows "within_budget policy r \<and>
    (still w \<longrightarrow> list_all (root_ok w policy) requests \<and>
      cr_entries r = sum_list (map (\<lambda>rq. length (root_seen w rq)) requests) \<and>
      cr_content_bytes r = sum_list (map (\<lambda>rq. bytes_seen (root_seen w rq)) (filter rq_content requests)))"
proof -
  obtain st where st: "census_roots w \<lparr>cl_policy = policy, cl_started = cw_clock w 0, cl_deadline = deadline\<rparr> requests
          \<lparr>cs_calls = 1, cs_verified = [],
           cs_result = \<lparr>cr_entries = 0, cr_regular_files = 0, cr_content_files = 0, cr_content_bytes = 0, cr_symlinks_skipped = 0,
             cr_roots = []\<rparr>\<rparr> = Inr st" "r = cs_result st"
    using assms by (auto simp: census_def bind_check_Inr)
  show ?thesis using census_roots_exact [OF st(1)] st(2) by (simp add: within_budget_def)
qed


subsection \<open>Decisions\<close>

datatype search_outcome = ALLOWED | REJECTED | NEEDS_FILESYSTEM | NOT_APPLICABLE

datatype decision_scope = NoScope | RequestScope nat | WorkflowScope nat | CensusScope census_result

record search_decision =
  sd_outcome :: search_outcome
  sd_code :: search_code
  sd_stage :: "nat option"
  sd_scope :: decision_scope

definition rejection :: "search_code \<Rightarrow> nat option \<Rightarrow> decision_scope \<Rightarrow> search_decision" where
  "rejection code stage scope = \<lparr>sd_outcome = REJECTED, sd_code = code, sd_stage = stage, sd_scope = scope\<rparr>"

definition not_applicable :: search_decision where
  "not_applicable = \<lparr>sd_outcome = NOT_APPLICABLE, sd_code = ''NOT_APPLICABLE'', sd_stage = None, sd_scope = NoScope\<rparr>"

definition allowance :: "decision_scope \<Rightarrow> search_decision" where
  "allowance scope = \<lparr>sd_outcome = ALLOWED, sd_code = ''ALLOWED'', sd_stage = None, sd_scope = scope\<rparr>"

text \<open>What a search is evaluated in: the word splitter, the directory, whether a ripgrep configuration file is set, and whether
  the file system may be read. An exception that is not a policy violation is \<open>None\<close>.\<close>

record search_context =
  sx_words :: "pystr \<Rightarrow> pystr list option"
  sx_policy :: search_policy
  sx_cwd :: pystr
  sx_config :: bool
  sx_verify :: bool

definition inspect_requests :: "search_context \<Rightarrow> census_world \<Rightarrow> rat option \<Rightarrow> census_request list \<Rightarrow> search_decision" where
  "inspect_requests cx w deadline requests =
     (if requests = [] then allowance NoScope
      else if \<not> sx_verify cx then
        \<lparr>sd_outcome = NEEDS_FILESYSTEM, sd_code = ''FILESYSTEM_REQUIRED'', sd_stage = None, sd_scope = RequestScope (length requests)\<rparr>
      else case census w (sx_policy cx) deadline requests of
        Inl v \<Rightarrow> rejection (v_code v) (v_stage v) NoScope
      | Inr r \<Rightarrow> allowance (CensusScope r))"

definition inspect :: "search_context \<Rightarrow> census_world \<Rightarrow> rat option \<Rightarrow> pystr \<Rightarrow> search_decision option" where
  "inspect cx w deadline command =
     (if \<not> py_startswith (sx_cwd cx) [47] then Some (rejection ''CWD'' None NoScope)
      else if \<not> looks_like_direct_search (sx_words cx) command then Some not_applicable
      else case parse_command (sx_policy cx) command of
        Inl v \<Rightarrow> Some (rejection (v_code v) (v_stage v) NoScope)
      | Inr None \<Rightarrow> Some not_applicable
      | Inr (Some stages) \<Rightarrow>
          (case static_plan (sx_policy cx) (sx_cwd cx) (sx_config cx) stages of
             Inl (Violated v) \<Rightarrow> Some (rejection (v_code v) (v_stage v) NoScope)
           | Inl _ \<Rightarrow> None
           | Inr requests \<Rightarrow> Some (inspect_requests cx w deadline requests)))"

text \<open>The decisions of all workflows of a text, each in the world of its own inspection.\<close>

definition inspect_search_workflows :: "search_context \<Rightarrow> (nat \<Rightarrow> census_world) \<Rightarrow> rat option \<Rightarrow> pystr \<Rightarrow> (search_workflow \<times> search_decision) list option" where
  "inspect_search_workflows cx worlds deadline source =
     those (map (\<lambda>w. map_option (Pair w) (inspect cx (worlds (wf_ordinal w)) deadline (wf_command w)))
       (extract_search_workflows (sx_words cx) source))"

definition overdue :: "(nat \<Rightarrow> rat) \<Rightarrow> rat option \<Rightarrow> nat \<Rightarrow> bool" where
  "overdue clock deadline n \<longleftrightarrow> (case deadline of None \<Rightarrow> False | Some d \<Rightarrow> clock n \<ge> d)"

text \<open>\<^verbatim>\<open>for workflow in workflows\<close>: \<open>n\<close> counts the readings of the clock, \<open>k\<close> the applicable workflows.\<close>

fun evaluate_workflows :: "search_context \<Rightarrow> (nat \<Rightarrow> census_world) \<Rightarrow> (nat \<Rightarrow> rat) \<Rightarrow> rat option \<Rightarrow> nat \<Rightarrow> search_workflow list \<Rightarrow> nat \<Rightarrow> nat \<Rightarrow>
    search_decision option" where
  "evaluate_workflows cx worlds clock deadline wfs [] n k =
     Some (if k = 0 then not_applicable else allowance (WorkflowScope k))"
| "evaluate_workflows cx worlds clock deadline wfs (w # ws) n k =
     (if overdue clock deadline n then Some (rejection ''EVALUATION_TIMEOUT'' None (WorkflowScope wfs))
      else case inspect cx (worlds (wf_ordinal w)) deadline (wf_command w) of
        None \<Rightarrow> None
      | Some d \<Rightarrow>
          if sd_outcome d = NOT_APPLICABLE then evaluate_workflows cx worlds clock deadline wfs ws (n + 1) k
          else if sd_outcome d \<noteq> ALLOWED then Some d
          else if overdue clock deadline (n + 1) then Some (rejection ''EVALUATION_TIMEOUT'' None (WorkflowScope wfs))
          else evaluate_workflows cx worlds clock deadline wfs ws (n + 2) (Suc k))"

text \<open>\<^verbatim>\<open>evaluation_seconds\<close> is a rational; a value that is not positive raises \<^verbatim>\<open>ValueError\<close>.\<close>

definition evaluate_find_rg_source :: "search_context \<Rightarrow> (nat \<Rightarrow> census_world) \<Rightarrow> (nat \<Rightarrow> rat) \<Rightarrow> rat option \<Rightarrow> pystr \<Rightarrow> search_decision option" where
  "evaluate_find_rg_source cx worlds clock seconds source =
     (if (case seconds of None \<Rightarrow> False | Some s \<Rightarrow> s \<le> 0) then None
      else let workflows = extract_search_workflows (sx_words cx) source; deadline = map_option (\<lambda>s. clock 0 + s) seconds in
        if workflows = [] then Some not_applicable
        else if length workflows > max_workflows (sx_policy cx) then Some (rejection ''WORKFLOW_BUDGET'' None (WorkflowScope (length workflows)))
        else evaluate_workflows cx worlds clock deadline (length workflows) workflows 1 0)"

subsection \<open>What an allowed text guarantees\<close>

definition workflow_safe :: "search_context \<Rightarrow> (nat \<Rightarrow> census_world) \<Rightarrow> rat option \<Rightarrow> search_workflow \<Rightarrow> bool" where
  "workflow_safe cx worlds deadline w \<longleftrightarrow>
     (\<exists>stages requests. parse_command (sx_policy cx) (wf_command w) = Inr (Some stages) \<and>
        list_all (stage_admitted (sx_policy cx) (sx_config cx)) stages \<and> list_all (request_ok (sx_policy cx)) requests \<and>
        list_all (covers_inputs (sx_cwd cx) requests) stages \<and>
        (requests = [] \<or> (\<exists>r. census (worlds (wf_ordinal w)) (sx_policy cx) deadline requests = Inr r)))"

definition workflow_irrelevant :: "search_context \<Rightarrow> search_workflow \<Rightarrow> bool" where
  "workflow_irrelevant cx w \<longleftrightarrow>
     \<not> looks_like_direct_search (sx_words cx) (wf_command w) \<or> parse_command (sx_policy cx) (wf_command w) = Inr None"

lemma inspect_allowed:
  assumes "inspect cx (worlds (wf_ordinal w)) deadline (wf_command w) = Some d" "sd_outcome d = ALLOWED"
  shows "workflow_safe cx worlds deadline w"
proof -
  obtain stages requests where p: "parse_command (sx_policy cx) (wf_command w) = Inr (Some stages)"
    "static_plan (sx_policy cx) (sx_cwd cx) (sx_config cx) stages = Inr requests"
    "d = inspect_requests cx (worlds (wf_ordinal w)) deadline requests"
    using assms by (auto simp: inspect_def not_applicable_def rejection_def split: if_splits sum.splits option.splits plan_failure.splits)
  have "requests = [] \<or> (\<exists>r. census (worlds (wf_ordinal w)) (sx_policy cx) deadline requests = Inr r)"
    using p(3) assms(2) by (auto simp: inspect_requests_def rejection_def split: if_splits sum.splits)
  then show ?thesis using p(1) plan_stages_Inr [OF p(2) [unfolded static_plan_def]] unfolding workflow_safe_def by blast
qed

lemma inspect_not_applicable:
  assumes "inspect cx v deadline (wf_command w) = Some d" "sd_outcome d = NOT_APPLICABLE"
  shows "workflow_irrelevant cx w"
  using assms by (auto simp: inspect_def inspect_requests_def rejection_def allowance_def workflow_irrelevant_def
      split: if_splits sum.splits option.splits plan_failure.splits)

lemma evaluate_workflows_allowed:
  assumes "evaluate_workflows cx worlds clock deadline wfs ws n k = Some d" "sd_outcome d = ALLOWED"
  shows "list_all (\<lambda>w. workflow_safe cx worlds deadline w \<or> workflow_irrelevant cx w) ws \<and>
    (k = 0 \<longrightarrow> list_ex (workflow_safe cx worlds deadline) ws)"
  using assms
proof (induction cx worlds clock deadline wfs ws n k rule: evaluate_workflows.induct)
  case (1 cx worlds clock deadline wfs n k)
  then show ?case by (auto simp: not_applicable_def split: if_splits)
next
  case (2 cx worlds clock deadline wfs w ws n k)
  have due: "\<not> overdue clock deadline n" using "2.prems" by (auto simp: rejection_def split: if_splits)
  then obtain d1 where d1: "inspect cx (worlds (wf_ordinal w)) deadline (wf_command w) = Some d1"
    using "2.prems" by (auto split: option.splits)
  show ?case
  proof (cases "sd_outcome d1 = NOT_APPLICABLE")
    case True
    then have "evaluate_workflows cx worlds clock deadline wfs ws (n + 1) k = Some d" using "2.prems"(1) due d1 by simp
    then show ?thesis using "2.IH"(1) [OF due d1 True _ "2.prems"(2)] inspect_not_applicable [OF d1 True] by auto
  next
    case False
    have ok: "sd_outcome d1 = ALLOWED" using "2.prems" due d1 False by (auto split: if_splits)
    moreover have due': "\<not> overdue clock deadline (n + 1)" using "2.prems" due d1 ok by (auto simp: rejection_def split: if_splits)
    ultimately have "evaluate_workflows cx worlds clock deadline wfs ws (n + 2) (Suc k) = Some d" using "2.prems"(1) due d1 by simp
    then show ?thesis using "2.IH"(2) [OF due d1 False _ due' _ "2.prems"(2)] inspect_allowed [of cx worlds w, OF d1 ok] ok by auto
  qed
qed


subsection \<open>Where the policy is weaker than it means to be\<close>

text \<open>A parent component after a name is resolved by text, so the census never looks at the name: for a symbolic link
  \<^verbatim>\<open>link\<close> the command reads another tree than the one that is inspected.\<close>

lemma parent_hides_link: "absolute (lit ''link/../tree'') (lit ''/work'') = absolute (lit ''tree'') (lit ''/work'')"
  by (simp add: absolute_def join_path_def path_parts_def push_part_def lit_def Let_def)

text \<open>A precision after a width is not seen by the format check.\<close>

lemma precision_unseen: "printf_widths (lit ''%5.99999m'') = [lit ''5'']"
  by (simp add: lit_def one_of_def ascii_digit_def)

text \<open>A repetition count of more than 4300 digits raises an exception instead of a refusal.\<close>

lemma long_count_raises: "any_over 10000 [replicate 4301 57] = Inl ValueError"
  by (simp add: py_int_def)

subsection \<open>Witnesses\<close>

definition demo_policy :: search_policy where
  "demo_policy = \<lparr>max_depth = 3, max_roots = 8, max_workflows = 64, max_entries = 5000, max_files = 1000, max_file_bytes = 8388608,
     max_total_bytes = 33554432, max_pattern_bytes = 16384, max_patterns = 32, max_context_lines = 1000, max_threads = 8, max_stages = 8,
     max_command_chars = 32768, census_seconds = 1 / 4, find_denied_options = [lit ''-delete'', lit ''-exec''],
     find_follow_options = [lit ''-L''], find_reference_options = [lit ''-newer''], rg_external_options = [lit ''pre''],
     rg_decompression_options = [lit ''search-zip''], rg_follow_options = [lit ''follow''], rg_non_default_engines = [lit ''pcre2'']\<rparr>"

text \<open>A directory with one file of five bytes.\<close>

definition demo_world :: census_world where
  "demo_world = \<lparr>cw_lstat = (\<lambda>n p. Some \<lparr>fs_kind = Directory, fs_size = 0\<rparr>),
     cw_scandir = (\<lambda>n p. Some [(lit ''/w/f'', Some \<lparr>fs_kind = RegularFile, fs_size = 5\<rparr>)]), cw_clock = (\<lambda>n. 0)\<rparr>"

definition demo_request :: census_request where
  "demo_request = \<lparr>rq_stage = 1, rq_path = lit ''/w'', rq_depth = Some 1, rq_content = True, rq_input_file_only = False, rq_inspect_empty = False\<rparr>"

definition demo_search :: stage where
  "demo_search = (new_stage [lit ''rg''] [] [] [])\<lparr>st_tool := lit ''rg'', st_patterns := [lit ''x''], st_paths := [lit ''src''], st_depth := Some 2\<rparr>"

lemmas demo_search_defs = demo_policy_def demo_world_def demo_request_def demo_search_def

theorem census_exact_witness:
  "\<exists>r. census demo_world demo_policy None [demo_request] = Inr r \<and> cr_entries r = 2 \<and> cr_content_bytes r = 5 \<and>
     cr_entries r = length (root_seen demo_world demo_request)"
proof -
  let ?r = "\<lparr>cr_entries = 2, cr_regular_files = 1, cr_content_files = 1, cr_content_bytes = 5, cr_symlinks_skipped = 0,
    cr_roots = [(lit ''/w'', Directory)]\<rparr>"
  have c: "census demo_world demo_policy None [demo_request] = Inr ?r"
    by (simp add: census_def census_root_def checked_lstat_def path_parts_def demo_search_defs bind_check_def check_deadline_def census_depth_def
        visit_entry_def visit_kind_def count_entry_def count_file_def census_call_def lit_def Let_def)
  have "still demo_world" by (simp add: still_def demo_world_def)
  with census_exact [OF c] show ?thesis using c by simp
qed


definition demo_context :: search_context where
  "demo_context = \<lparr>sx_words = (\<lambda>_. None), sx_policy = demo_policy, sx_cwd = lit ''/w'', sx_config = False, sx_verify = True\<rparr>"

definition demo_files :: census_world where
  "demo_files = \<lparr>cw_lstat = (\<lambda>n p. Some \<lparr>fs_kind = (if p = lit ''/w'' then Directory else RegularFile), fs_size = 5\<rparr>),
     cw_scandir = (\<lambda>n p. None), cw_clock = (\<lambda>n. 0)\<rparr>"

definition demo_search_source :: pystr where
  "demo_search_source = [114, 103, 32, 120, 32, 102]"

lemma demo_spans: "top_level_spans demo_search_source False = [(0, 6)]"
  by (simp add: top_level_spans_def demo_search_source_def span_loop.simps span_step_def plain_step_def operator_step_def skip_def
      at_prefix_def heredoc_at_def non_boundary_def NON_BOUNDARY_SHELL_OPERATORS_def lit_def Let_def)

lemma demo_direct: "looks_like_direct_search words demo_search_source"
  by (simp add: looks_like_direct_search_def search_prefix_def demo_search_source_def py_isspace_def lit_def Let_def)

lemma demo_extracted: "extract_search_workflows words demo_search_source = [workflow_at demo_search_source 1 (0, 6)]"
proof -
  have "trim_span demo_search_source (0, 6) = (0, 6)" by (simp add: trim_span_def slice_def demo_search_source_def py_isspace_def Let_def)
  moreover have "slice demo_search_source 0 6 = demo_search_source" by (simp add: slice_def demo_search_source_def)
  ultimately show ?thesis using demo_direct by (simp add: extract_search_workflows_def demo_spans extracted_def)
qed

lemma demo_lex:
  "lex demo_search_source =
     Inr [\<lparr>tk_text = [114, 103], tk_word = True, tk_start = 0, tk_end = 2, tk_quoted = False\<rparr>,
          \<lparr>tk_text = [120], tk_word = True, tk_start = 3, tk_end = 4, tk_quoted = False\<rparr>,
          \<lparr>tk_text = [102], tk_word = True, tk_start = 5, tk_end = 6, tk_quoted = False\<rparr>]"
  by (simp add: lex_def demo_search_source_def lex_from.simps next_operator_def SHELL_OPERATORS_def word_break_def expands_def one_of_def
      py_isspace_def lit_def bind_check_def Let_def)

definition demo_stage :: stage where
  "demo_stage = (new_stage [[114, 103], [120], [102]] [] [] [])
     \<lparr>st_tool := [114, 103], st_patterns := [[120]], st_paths := [[102]], st_engine := lit ''default''\<rparr>"

lemma demo_parsed: "parse_command demo_policy demo_search_source = Inr (Some [demo_stage])"
proof -
  have shell: "parse_shell demo_search_source = Inr [new_stage [[114, 103], [120], [102]] [] [] []]"
    by (simp add: parse_shell_def demo_lex bind_check_def finish_shell_def new_stage_def)
  have "identify_stages 1 [new_stage [[114, 103], [120], [102]] [] [] []] =
      Inr [(new_stage [[114, 103], [120], [102]] [] [] [])\<lparr>st_tool := [114, 103]\<rparr>]"
    by (simp add: new_stage_def executable_name_def basename_def strip_one_def numeral_eq_Suc bind_check_def lit_def Let_def)
  moreover have "parse_rg 1 ((new_stage [[114, 103], [120], [102]] [] [] [])\<lparr>st_tool := [114, 103]\<rparr>) = Inr demo_stage"
    by (simp add: parse_rg_def demo_stage_def new_stage_def stage_values_def special_options_def mode_options_def rg_mode_def stage_has_def
        bind_check_def lit_def Let_def)
  ultimately show ?thesis using shell
    by (simp add: parse_command_def demo_policy_def demo_search_source_def bind_check_def is_search_tool_def stage_input_def demo_stage_def new_stage_def lit_def)
qed

lemma demo_inspected: "inspect demo_context demo_files deadline demo_search_source = Some (inspect_requests demo_context demo_files deadline
    [path_request 1 demo_stage False (lit ''/w/f'')])"
proof -
  have "static_plan demo_policy (lit ''/w'') False [demo_stage] = Inr [path_request 1 demo_stage False (lit ''/w/f'')]"
    by (simp add: static_plan_def plan_stage_def plan_rg_def plan_inputs_def input_paths_def new_stage_def demo_stage_def demo_policy_def bind_plan_def
        is_search_tool_def has_any_def option_names_def values_over_def stage_values_def check_memory_def lift_violation_def refuse_if_def
        stage_has_def is_virtual_def inside_def absolute_def join_path_def path_parts_def push_part_def directory_syntax_def
        utf8_length_def lit_def Let_def)
  then show ?thesis using demo_parsed demo_direct by (simp add: inspect_def demo_context_def lit_def)
qed

lemma demo_census: "\<exists>r. census demo_files demo_policy None [path_request 1 demo_stage False (lit ''/w/f'')] = Inr r"
  by (simp add: census_def census_root_def checked_lstat_def path_request_def path_parts_def demo_policy_def demo_files_def demo_stage_def new_stage_def
      join_path_def bind_check_def check_deadline_def census_depth_def visit_entry_def visit_kind_def count_entry_def count_file_def census_call_def
      lit_def Let_def)


end
