(* ===== verification/Source_Reader.thy ===== *)
theory Source_Reader
  imports Protocol_Values Identity_Codec
begin

section \<open>Append-only reads of rollout files\<close>

text \<open>
  \<^verbatim>\<open>src/rodex/analytics_source_reader.py\<close>. A reader keeps one cursor per thread and reads only what was appended since;
  a cursor is committed by \<open>accept\<close> after the calculation that used it. What the operating system answers to one read (the resolved
  path, the three \<^verbatim>\<open>stat\<close> results and \<^verbatim>\<open>os.pread\<close>) is a record of arguments; \<^verbatim>\<open>json.loads\<close> and the hexadecimal
  SHA-256 are parameters, and a hash object is the bytes it was fed. Bytes are natural numbers.
\<close>

datatype reader_error =
    InvalidSourceKind
  | NoHistoryCutoff
  | RootHistoryCutoff
  | InvalidThread identity_error
  | SystemError
  | InvalidCheckpoint
  | CheckpointChanged
  | CursorMetadataChanged
  | SourceIdentityChanged
  | SourceTruncated
  | SourceRewritten
  | NoCompleteRecord
  | UnexpectedIdentity
  | CheckpointOutside
  | NoChildHistory
  | EndedDuringCapture
  | ChangedDuringCapture
  | TruncatedBeforeReplay
  | ChangedBeforeReplay

definition bind_read :: "reader_error + 'a \<Rightarrow> ('a \<Rightarrow> reader_error + 'b) \<Rightarrow> reader_error + 'b" where
  "bind_read x f = (case x of Inl e \<Rightarrow> Inl e | Inr v \<Rightarrow> f v)"

lemma bind_read_Inr: "bind_read x f = Inr y \<longleftrightarrow> (\<exists>v. x = Inr v \<and> f v = Inr y)"
  by (cases x) (simp_all add: bind_read_def)

definition require :: "bool \<Rightarrow> reader_error \<Rightarrow> reader_error + unit" where
  "require b e = (if b then Inr () else Inl e)"

lemma require_Inr [simp]: "require b e = Inr u \<longleftrightarrow> b"
  by (simp add: require_def)

record append_source =
  src_path :: pystr
  src_thread :: pystr
  src_kind :: pystr
  src_cutoff :: "int option"
  src_prefix_size :: "int option"
  src_prefix_sha256 :: "pystr option"

record stat_result =
  sr_device :: int
  sr_inode :: int
  sr_size :: nat
  sr_mtime :: int
  sr_ctime :: int

record rollout_prefix =
  rp_path :: pystr
  rp_state :: stat_result
  rp_analyzed_size :: nat
  rp_sha256 :: pystr

record append_cursor =
  cu_source :: append_source
  cu_prefix :: rollout_prefix
  cu_complete_size :: nat
  cu_tail :: "nat list"
  cu_line_count :: nat
  cu_hashed :: "nat list"

record source_read =
  rd_content :: "nat list"
  rd_has_baseline :: bool
  rd_accepted :: "nat list"
  rd_appended :: "nat list"
  rd_appended_ordinals :: "nat list"
  rd_cursor :: append_cursor
  rd_ordinals :: "nat list"
  rd_accepted_ordinals :: "nat list"

record source_reader =
  sr_cursors :: "(pystr, append_cursor) dict"
  sr_replay_required :: bool

record reader_env =
  rv_loads :: "nat list \<Rightarrow> json option"
  rv_sha256 :: "nat list \<Rightarrow> pystr"

text \<open>The answers of the operating system during one read. \<open>None\<close> is an \<^verbatim>\<open>OSError\<close> or a refused path.\<close>

record capture =
  cp_resolved :: "pystr option"
  cp_before :: stat_result
  cp_pread :: "nat \<Rightarrow> nat \<Rightarrow> nat list"
  cp_after :: stat_result
  cp_path_state :: stat_result

definition new_reader :: source_reader where
  "new_reader = \<lparr>sr_cursors = [], sr_replay_required = False\<rparr>"

definition require_clean_replay :: "source_reader \<Rightarrow> source_reader" where
  "require_clean_replay r = r\<lparr>sr_replay_required := True\<rparr>"

definition normalise_source :: "append_source \<Rightarrow> reader_error + append_source" where
  "normalise_source s =
     bind_read (require (src_kind s = lit ''root'' \<or> src_kind s = lit ''subagent'') InvalidSourceKind) (\<lambda>_.
     bind_read
       (if src_kind s = lit ''subagent'' then require (case src_cutoff s of None \<Rightarrow> False | Some c \<Rightarrow> c \<ge> 0) NoHistoryCutoff
        else require (src_cutoff s = None) RootHistoryCutoff) (\<lambda>_.
     case parse_codex_uuid ThreadUuid (src_thread s) of Inl e \<Rightarrow> Inl (InvalidThread e) | Inr v \<Rightarrow> Inr s))"

text \<open>\<^verbatim>\<open>content[:size]\<close> for a size that was checked not to be negative.\<close>

definition durable_prefix_ok :: "reader_env \<Rightarrow> append_source \<Rightarrow> nat list \<Rightarrow> reader_error + unit" where
  "durable_prefix_ok env s content =
     (case (src_prefix_size s, src_prefix_sha256 s) of
        (None, None) \<Rightarrow> Inr ()
      | (Some n, Some digest) \<Rightarrow>
          bind_read (require (n \<ge> 0 \<and> length digest = 64 \<and> list_all is_lower_hex digest) InvalidCheckpoint) (\<lambda>_.
          require (\<not> int (length content) < n \<and> rv_sha256 env (take (nat n) content) = digest) CheckpointChanged)
      | _ \<Rightarrow> Inl InvalidCheckpoint)"

definition append_start :: "append_cursor \<Rightarrow> append_source \<Rightarrow> pystr \<Rightarrow> stat_result \<Rightarrow> reader_error + nat" where
  "append_start cu s resolved current =
     (let prior = cu_prefix cu; st = rp_state prior in
      bind_read (require (src_thread (cu_source cu) = src_thread s \<and> src_kind (cu_source cu) = src_kind s \<and>
        src_cutoff (cu_source cu) = src_cutoff s) CursorMetadataChanged) (\<lambda>_.
      bind_read (require (rp_path prior = resolved \<and> sr_device st = sr_device current \<and> sr_inode st = sr_inode current)
        SourceIdentityChanged) (\<lambda>_.
      bind_read (require (\<not> sr_size current < sr_size st) SourceTruncated) (\<lambda>_.
      bind_read (require (\<not> (sr_size current = sr_size st \<and>
        (sr_mtime current \<noteq> sr_mtime st \<or> sr_ctime current \<noteq> sr_ctime st))) SourceRewritten) (\<lambda>_.
      Inr (sr_size st))))))"

subsection \<open>Lines\<close>

text \<open>\<^verbatim>\<open>rfind(b"\n")\<close> splits the complete lines from the incomplete tail.\<close>

definition complete_part :: "nat list \<Rightarrow> nat list" where
  "complete_part c = rev (dropWhile (\<lambda>x. x \<noteq> 10) (rev c))"

definition incomplete_part :: "nat list \<Rightarrow> nat list" where
  "incomplete_part c = rev (takeWhile (\<lambda>x. x \<noteq> 10) (rev c))"

definition newline_count :: "nat list \<Rightarrow> nat" where
  "newline_count c = length (filter (\<lambda>x. x = 10) c)"

text \<open>\<^verbatim>\<open>bytes.splitlines(keepends=True)\<close>.\<close>

function kept_lines :: "nat list \<Rightarrow> nat list \<Rightarrow> nat list list" where
  "kept_lines cur [] = (if cur = [] then [] else [cur])"
| "kept_lines cur (c # cs) =
     (if c = 10 then (cur @ [10]) # kept_lines [] cs
      else if c = 13 then
        (if cs \<noteq> [] \<and> hd cs = 10 then (cur @ [13, 10]) # kept_lines [] (tl cs) else (cur @ [13]) # kept_lines [] cs)
      else kept_lines (cur @ [c]) cs)"
  by pat_completeness auto
termination
  by (relation "measure (\<lambda>(cur, cs). length cs)") auto

text \<open>The ordinal that decides whether a line belongs to the history of a sub-agent.\<close>

definition line_ordinal :: "reader_env \<Rightarrow> nat \<Rightarrow> nat list \<Rightarrow> int" where
  "line_ordinal env physical l =
     (case rv_loads env l of
        Some j \<Rightarrow>
          (case jpath j ''ordinal'' of JInt i \<Rightarrow> if i < 0 then int physical else i | _ \<Rightarrow> int physical)
      | None \<Rightarrow> int physical)"

definition keeps_line :: "reader_env \<Rightarrow> int \<Rightarrow> nat \<times> nat list \<Rightarrow> bool" where
  "keeps_line env cutoff p \<longleftrightarrow> fst p = 0 \<or> line_ordinal env (fst p) (snd p) > cutoff"

definition filter_analyzer_lines :: "reader_env \<Rightarrow> append_source \<Rightarrow> nat list \<Rightarrow> nat \<Rightarrow> nat list \<times> nat list" where
  "filter_analyzer_lines env s content offset =
     (if src_kind s = lit ''root'' \<or> content = [] then (content, [offset..<offset + newline_count content])
      else
        let kept = filter (keeps_line env (case src_cutoff s of None \<Rightarrow> 0 | Some c \<Rightarrow> c)) (enumerate offset (kept_lines [] content))
        in (concat (map snd kept), map fst kept))"

text \<open>\<^verbatim>\<open>zip(range(32), io.BytesIO(content))\<close>: the first lines that end with a line feed.\<close>

fun feed_lines :: "nat list \<Rightarrow> nat list \<Rightarrow> nat list list" where
  "feed_lines cur [] = (if cur = [] then [] else [cur])"
| "feed_lines cur (c # cs) = (if c = 10 then (cur @ [10]) # feed_lines [] cs else feed_lines (cur @ [c]) cs)"

fun declares_thread :: "reader_env \<Rightarrow> pystr \<Rightarrow> nat list list \<Rightarrow> bool" where
  "declares_thread env thread [] = False"
| "declares_thread env thread (l # ls) =
     (case Option.bind (rv_loads env l) as_dict of
        Some d \<Rightarrow>
          if jfield d ''type'' = JStr (lit ''session_meta'') then jpath (jfield d ''payload'') ''id'' = JStr thread
          else declares_thread env thread ls
      | None \<Rightarrow> declares_thread env thread ls)"

definition content_declares_thread :: "reader_env \<Rightarrow> nat list \<Rightarrow> pystr \<Rightarrow> bool" where
  "content_declares_thread env content thread = declares_thread env thread (take 32 (feed_lines [] content))"

subsection \<open>Cursors\<close>

definition authentication :: "reader_env \<Rightarrow> pystr \<Rightarrow> stat_result \<Rightarrow> nat \<Rightarrow> nat list \<Rightarrow> rollout_prefix" where
  "authentication env path state n hashed = \<lparr>rp_path = path, rp_state = state, rp_analyzed_size = n, rp_sha256 = rv_sha256 env hashed\<rparr>"

definition new_cursor :: "reader_env \<Rightarrow> append_source \<Rightarrow> pystr \<Rightarrow> stat_result \<Rightarrow> nat list \<Rightarrow> int option \<Rightarrow> reader_error + source_read" where
  "new_cursor env s resolved state content append_after =
     (let raw = complete_part content; accepted = (case append_after of None \<Rightarrow> 0 | Some a \<Rightarrow> a) in
      bind_read (require (10 \<in> set content) NoCompleteRecord) (\<lambda>_.
      bind_read (require (content_declares_thread env raw (src_thread s)) UnexpectedIdentity) (\<lambda>_.
      bind_read (require (\<not> (accepted < 0 \<or> accepted > int (length raw))) CheckpointOutside) (\<lambda>_.
      let (content', ordinals) = filter_analyzer_lines env s raw 0;
          (before, before_ordinals) = filter_analyzer_lines env s (take (nat accepted) raw) 0;
          (appended, appended_ordinals) = filter_analyzer_lines env s (drop (nat accepted) raw) (newline_count (take (nat accepted) raw))
      in bind_read (require (\<not> (src_kind s = lit ''subagent'' \<and> newline_count content' = 1)) NoChildHistory) (\<lambda>_.
         Inr \<lparr>rd_content = content', rd_has_baseline = False, rd_accepted = before, rd_appended = appended,
              rd_appended_ordinals = appended_ordinals,
              rd_cursor = \<lparr>cu_source = s, cu_prefix = authentication env resolved state (length raw) raw, cu_complete_size = length raw,
                cu_tail = incomplete_part content, cu_line_count = newline_count raw, cu_hashed = raw\<rparr>,
              rd_ordinals = ordinals, rd_accepted_ordinals = before_ordinals\<rparr>)))))"

definition advance_cursor :: "reader_env \<Rightarrow> append_cursor \<Rightarrow> pystr \<Rightarrow> stat_result \<Rightarrow> nat list \<Rightarrow> append_cursor \<times> nat list \<times> nat list" where
  "advance_cursor env cu resolved state added =
     (let combined = cu_tail cu @ added; addition = complete_part combined;
          (appended, ordinals) = filter_analyzer_lines env (cu_source cu) addition (cu_line_count cu);
          hashed = cu_hashed cu @ addition; n = cu_complete_size cu + length addition
      in (\<lparr>cu_source = cu_source cu, cu_prefix = authentication env resolved state n hashed, cu_complete_size = n,
           cu_tail = incomplete_part combined, cu_line_count = cu_line_count cu + newline_count addition, cu_hashed = hashed\<rparr>,
          appended, ordinals))"

definition require_accepted_prefix :: "reader_env \<Rightarrow> append_cursor \<Rightarrow> nat list \<Rightarrow> reader_error + unit" where
  "require_accepted_prefix env cu content =
     bind_read (require (\<not> length content < cu_complete_size cu) TruncatedBeforeReplay) (\<lambda>_.
     require (rv_sha256 env (take (cu_complete_size cu) content) = rp_sha256 (cu_prefix cu)) ChangedBeforeReplay)"

text \<open>\<^verbatim>\<open>_pread_exact\<close>, by chunks of at most one mebibyte.\<close>

function pread_exact :: "(nat \<Rightarrow> nat \<Rightarrow> nat list) \<Rightarrow> nat \<Rightarrow> nat \<Rightarrow> reader_error + nat list" where
  "pread_exact pread offset remaining =
     (if remaining = 0 then Inr []
      else let chunk = pread offset (min remaining 1048576) in
        if chunk = [] then Inl EndedDuringCapture
        else bind_read (pread_exact pread (offset + length chunk) (remaining - length chunk)) (\<lambda>rest. Inr (chunk @ rest)))"
  by pat_completeness auto
termination
  by (relation "measure (\<lambda>(pread, offset, remaining). remaining)") auto

declare pread_exact.simps [simp del]

definition require_stable_source :: "stat_result \<Rightarrow> stat_result \<Rightarrow> stat_result \<Rightarrow> reader_error + unit" where
  "require_stable_source before after path_state =
     require (before = after \<and> sr_device path_state = sr_device before \<and> sr_inode path_state = sr_inode before) ChangedDuringCapture"

definition read_start :: "source_reader \<Rightarrow> append_source \<Rightarrow> pystr \<Rightarrow> stat_result \<Rightarrow> reader_error + nat" where
  "read_start r s resolved before =
     (case dict_get (sr_cursors r) (src_thread s) of
        None \<Rightarrow> Inr 0
      | Some cu \<Rightarrow> bind_read (append_start cu s resolved before) (\<lambda>start. Inr (if sr_replay_required r then 0 else start)))"

definition finish_read :: "reader_env \<Rightarrow> source_reader \<Rightarrow> append_source \<Rightarrow> pystr \<Rightarrow> stat_result \<Rightarrow> nat list \<Rightarrow> reader_error + source_read" where
  "finish_read env r s resolved after added =
     (case dict_get (sr_cursors r) (src_thread s) of
        None \<Rightarrow>
          bind_read (durable_prefix_ok env s added) (\<lambda>_.
          bind_read (new_cursor env s resolved after added (src_prefix_size s)) (\<lambda>rd.
          Inr (rd\<lparr>rd_has_baseline := (src_prefix_size s \<noteq> None)\<rparr>)))
      | Some cu \<Rightarrow>
          if sr_replay_required r then
            bind_read (new_cursor env s resolved after added (Some (int (cu_complete_size cu)))) (\<lambda>rd.
            bind_read (require_accepted_prefix env cu added) (\<lambda>_. Inr (rd\<lparr>rd_has_baseline := True\<rparr>)))
          else
            (case advance_cursor env cu resolved after added of (cu', appended, ordinals) \<Rightarrow>
             Inr \<lparr>rd_content = appended, rd_has_baseline = True, rd_accepted = [], rd_appended = appended, rd_appended_ordinals = ordinals,
                  rd_cursor = cu', rd_ordinals = ordinals, rd_accepted_ordinals = []\<rparr>))"

definition read_source :: "reader_env \<Rightarrow> source_reader \<Rightarrow> append_source \<Rightarrow> capture \<Rightarrow> reader_error + source_read" where
  "read_source env r source cp =
     bind_read (normalise_source source) (\<lambda>s.
     case cp_resolved cp of
       None \<Rightarrow> Inl SystemError
     | Some resolved \<Rightarrow>
         bind_read (read_start r s resolved (cp_before cp)) (\<lambda>start.
         bind_read (pread_exact (cp_pread cp) start (sr_size (cp_before cp) - start)) (\<lambda>added.
         bind_read (require_stable_source (cp_before cp) (cp_after cp) (cp_path_state cp)) (\<lambda>_.
         finish_read env r s resolved (cp_after cp) added))))"

definition accept_reads :: "source_read list \<Rightarrow> source_reader \<Rightarrow> source_reader" where
  "accept_reads rds r =
     r\<lparr>sr_cursors := fold (\<lambda>rd. dict_set (src_thread (cu_source (rd_cursor rd))) (rd_cursor rd)) rds (sr_cursors r),
       sr_replay_required := False\<rparr>"

text \<open>\<^verbatim>\<open>verify_captured_prefix\<close>, for the state of the opened file and of the path: whether more was appended.\<close>

definition verify_captured_prefix :: "rollout_prefix \<Rightarrow> stat_result \<Rightarrow> stat_result \<Rightarrow> reader_error + bool" where
  "verify_captured_prefix captured current path_state =
     (let st = rp_state captured in
      bind_read (require (sr_device current = sr_device st \<and> sr_inode current = sr_inode st \<and>
        sr_device path_state = sr_device st \<and> sr_inode path_state = sr_inode st) SourceIdentityChanged) (\<lambda>_.
      bind_read (require (\<not> sr_size current < sr_size st) SourceTruncated) (\<lambda>_.
      bind_read (require (\<not> (sr_size current = sr_size st \<and> (sr_mtime current \<noteq> sr_mtime st \<or> sr_ctime current \<noteq> sr_ctime st)))
        ChangedDuringCapture) (\<lambda>_.
      Inr (sr_size current > sr_size st)))))"

subsection \<open>Complete lines of a growing file\<close>

lemma complete_incomplete: "complete_part c @ incomplete_part c = c"
  by (metis complete_part_def incomplete_part_def rev_append rev_rev_ident takeWhile_dropWhile_id)

lemma complete_part_ends: "complete_part c = [] \<or> last (complete_part c) = 10"
  unfolding complete_part_def using hd_dropWhile [of "\<lambda>x. x \<noteq> 10" "rev c"] by (auto simp: last_rev)

lemma no_newline_part: "10 \<notin> set t \<Longrightarrow> complete_part (t @ c) = (if 10 \<in> set c then t @ complete_part c else [])"
  by (auto simp: complete_part_def dropWhile_append1 dropWhile_append2 dropWhile_append)

lemma parts_append:
  assumes "a = [] \<or> last a = 10"
  shows "complete_part (a @ b) = a @ complete_part b" "incomplete_part (a @ b) = incomplete_part b"
proof -
  have "dropWhile (\<lambda>x. x \<noteq> 10) (rev a) = rev a" "takeWhile (\<lambda>x. x \<noteq> 10) (rev a) = []"
    using assms by (cases a rule: rev_cases; simp)+
  note a = this
  show "complete_part (a @ b) = a @ complete_part b"
  proof (cases "10 \<in> set b")
    case False
    then have "\<And>x. x \<in> set (rev b) \<Longrightarrow> x \<noteq> 10" by auto
    then have "dropWhile (\<lambda>x. x \<noteq> 10) (rev b @ rev a) = dropWhile (\<lambda>x. x \<noteq> 10) (rev a)"
      by (rule dropWhile_append2)
    moreover have "dropWhile (\<lambda>x. x \<noteq> 10) (rev b) = []" using False by (auto simp: dropWhile_eq_Nil_conv)
    ultimately show ?thesis using a by (simp add: complete_part_def)
  qed (simp add: complete_part_def dropWhile_append1)
  show "incomplete_part (a @ b) = incomplete_part b"
  proof (cases "10 \<in> set b")
    case False
    then have "\<And>x. x \<in> set (rev b) \<Longrightarrow> x \<noteq> 10" by auto
    then have "takeWhile (\<lambda>x. x \<noteq> 10) (rev b @ rev a) = rev b @ takeWhile (\<lambda>x. x \<noteq> 10) (rev a)"
      by (rule takeWhile_append2)
    moreover have "takeWhile (\<lambda>x. x \<noteq> 10) (rev b) = rev b" using False by (auto simp: takeWhile_eq_all_conv)
    ultimately show ?thesis using a unfolding incomplete_part_def by (metis append_Nil2 rev_append)
  qed (simp add: incomplete_part_def takeWhile_append1)
qed

lemma complete_grows:
  "complete_part (f @ d) = complete_part f @ complete_part (incomplete_part f @ d)"
  "incomplete_part (f @ d) = incomplete_part (incomplete_part f @ d)"
  using parts_append [OF complete_part_ends, of f "incomplete_part f @ d"] by (simp_all add: complete_incomplete append_assoc [symmetric] del: append_assoc)

lemma kept_lines_append:
  "x = [] \<or> last x = 10 \<Longrightarrow> cur = [] \<or> x \<noteq> [] \<Longrightarrow> kept_lines cur (x @ y) = kept_lines cur x @ kept_lines [] y"
proof (induction cur x rule: kept_lines.induct)
  case (2 cur c cs)
  show ?case
  proof (cases "c = 13 \<and> cs \<noteq> [] \<and> hd cs = 10")
    case True
    then have "tl cs = [] \<or> last (tl cs) = 10" using "2.prems"(1) by (cases cs) (auto split: if_splits)
    then show ?thesis using "2.IH"(2) True by simp
  next
    case False
    then show ?thesis using 2 by (cases "cs = []") auto
  qed
qed auto

text \<open>Every carriage return is followed by a line feed, so that lines and line feeds correspond.\<close>

fun cr_paired :: "nat list \<Rightarrow> bool" where
  "cr_paired [] = True"
| "cr_paired (c # cs) = ((c = 13 \<longrightarrow> cs \<noteq> [] \<and> hd cs = 10) \<and> cr_paired cs)"

lemma cr_paired_append: "cr_paired (x @ y) \<Longrightarrow> x = [] \<or> last x = 10 \<Longrightarrow> cr_paired x \<and> cr_paired y"
proof (induction x)
  case (Cons c cs)
  then show ?case by (cases cs) auto
qed simp

lemma kept_lines_count: "cr_paired x \<Longrightarrow> x = [] \<and> cur = [] \<or> x \<noteq> [] \<and> last x = 10 \<Longrightarrow> length (kept_lines cur x) = newline_count x"
proof (induction cur x rule: kept_lines.induct)
  case (2 cur c cs)
  show ?case
  proof (cases "c = 13")
    case True
    then have cs: "cs \<noteq> []" "hd cs = 10" "cr_paired (tl cs)" "tl cs = [] \<or> last (tl cs) = 10"
      using 2 by (cases cs; auto split: if_splits)+
    then show ?thesis using "2.IH"(2) True by (cases cs) (auto simp: newline_count_def)
  next
    case False
    then show ?thesis using 2 by (cases cs) (auto simp: newline_count_def)
  qed
qed (simp add: newline_count_def)

lemma newline_count_append: "newline_count (x @ y) = newline_count x + newline_count y"
  by (simp add: newline_count_def)

lemma filter_lines_append:
  assumes "src_kind s = lit ''root'' \<or> cr_paired (x @ y)" "x = [] \<or> last x = 10"
  shows "filter_analyzer_lines env s (x @ y) n =
    (fst (filter_analyzer_lines env s x n) @ fst (filter_analyzer_lines env s y (n + newline_count x)),
     snd (filter_analyzer_lines env s x n) @ snd (filter_analyzer_lines env s y (n + newline_count x)))"
proof (cases "src_kind s = lit ''root''")
  case True
  then show ?thesis using upt_add_eq_append [of n "n + newline_count x" "newline_count y"]
    by (simp add: filter_analyzer_lines_def newline_count_append add.assoc)
next
  case False
  then have "x \<noteq> [] \<Longrightarrow> length (kept_lines [] x) = newline_count x"
    using assms kept_lines_count [of x "[]"] cr_paired_append [of x y] by auto
  then show ?thesis using False assms kept_lines_append [of x "[]" y]
    by (cases "x = []"; cases "y = []") (simp_all add: filter_analyzer_lines_def enumerate_append_eq newline_count_def [of "[]"] Let_def)
qed

text \<open>The cursor after the whole of a file was captured.\<close>

definition cursor_of :: "reader_env \<Rightarrow> append_source \<Rightarrow> pystr \<Rightarrow> stat_result \<Rightarrow> nat list \<Rightarrow> append_cursor" where
  "cursor_of env s p st f =
     \<lparr>cu_source = s, cu_prefix = authentication env p st (length (complete_part f)) (complete_part f),
      cu_complete_size = length (complete_part f), cu_tail = incomplete_part f, cu_line_count = newline_count (complete_part f),
      cu_hashed = complete_part f\<rparr>"

lemma advance_cursor_of:
  "advance_cursor env (cursor_of env s p st f) p st' d =
     (cursor_of env s p st' (f @ d),
      filter_analyzer_lines env s (complete_part (incomplete_part f @ d)) (newline_count (complete_part f)))"
  by (simp add: advance_cursor_def cursor_of_def Let_def complete_grows [of f d] newline_count_append split: prod.splits)

lemma pread_whole: "offset + n \<le> length f \<Longrightarrow> pread_exact (\<lambda>a k. take k (drop a f)) offset n = Inr (take n (drop offset f))"
proof (induction "\<lambda>a k. take k (drop a f)" offset n rule: pread_exact.induct)
  case (1 offset remaining)
  let ?k = "min remaining 1048576"
  show ?case
  proof (cases "remaining = 0")
    case True
    then show ?thesis by (subst pread_exact.simps) simp
  next
    case False
    let ?chunk = "take ?k (drop offset f)"
    have len: "length ?chunk = ?k" using "1.prems" by simp
    have ne: "?chunk \<noteq> []" using False "1.prems" by simp
    have "pread_exact (\<lambda>a k. take k (drop a f)) (offset + length ?chunk) (remaining - length ?chunk) =
        Inr (take (remaining - length ?chunk) (drop (offset + length ?chunk) f))"
      by (rule "1.hyps" [OF False refl ne]) (use "1.prems" len in simp)
    moreover have "?chunk @ take (remaining - ?k) (drop (offset + ?k) f) = take remaining (drop offset f)"
      using take_add [of ?k "remaining - ?k" "drop offset f"] by (simp add: add.commute)
    ultimately show ?thesis using False ne unfolding len
      by (subst pread_exact.simps) (simp only: Let_def if_False len bind_read_def sum.case)
  qed
qed

subsection \<open>Runs of reads\<close>

text \<open>Reads of one source, each accepted before the next: the appended content and ordinals in order.\<close>

fun read_run :: "reader_env \<Rightarrow> append_source \<Rightarrow> source_reader \<Rightarrow> capture list \<Rightarrow> reader_error + (nat list \<times> nat list) \<times> source_reader" where
  "read_run env s r [] = Inr (([], []), r)"
| "read_run env s r (cp # cps) =
     bind_read (read_source env r s cp) (\<lambda>rd.
     bind_read (read_run env s (accept_reads [rd] r) cps) (\<lambda>((content, ordinals), r').
     Inr ((rd_appended rd @ content, rd_appended_ordinals rd @ ordinals), r')))"

text \<open>A capture of the whole file \<open>f\<close> in state \<open>st\<close>, and a file that only grows.\<close>

definition capture_of :: "pystr \<Rightarrow> nat list \<times> stat_result \<Rightarrow> capture" where
  "capture_of p v =
     \<lparr>cp_resolved = Some p, cp_before = snd v, cp_pread = (\<lambda>a k. take k (drop a (fst v))), cp_after = snd v, cp_path_state = snd v\<rparr>"

fun grows :: "nat list \<times> stat_result \<Rightarrow> (nat list \<times> stat_result) list \<Rightarrow> bool" where
  "grows v [] = (sr_size (snd v) = length (fst v))"
| "grows v (v' # vs) =
     (sr_size (snd v) = length (fst v) \<and> take (length (fst v)) (fst v') = fst v \<and>
      sr_device (snd v') = sr_device (snd v) \<and> sr_inode (snd v') = sr_inode (snd v) \<and>
      (length (fst v') = length (fst v) \<longrightarrow> snd v' = snd v) \<and> grows v' vs)"

lemma grows_size: "grows v vs \<Longrightarrow> sr_size (snd v) = length (fst v)"
  by (cases vs) simp_all

lemma cr_paired_complete: "cr_paired f \<Longrightarrow> cr_paired (complete_part f)"
  using cr_paired_append [of "complete_part f" "incomplete_part f"] complete_part_ends by (simp add: complete_incomplete)

lemma grows_cr_paired: "grows v vs \<Longrightarrow> cr_paired (fst (last (v # vs))) \<Longrightarrow> cr_paired (complete_part (fst v))"
proof (induction vs arbitrary: v)
  case (Cons v1 vs)
  have "fst v1 = fst v @ drop (length (fst v)) (fst v1)" using Cons.prems(1) by (metis append_take_drop_id grows.simps(2))
  then have "complete_part (fst v1) = complete_part (fst v) @ complete_part (incomplete_part (fst v) @ drop (length (fst v)) (fst v1))"
    using complete_grows(1) by metis
  moreover have "cr_paired (complete_part (fst v1))" using Cons by simp
  ultimately show ?case using cr_paired_append complete_part_ends by metis
qed (simp add: cr_paired_complete)

lemma read_first:
  assumes "read_source env new_reader s (capture_of p (f, st)) = Inr rd" "sr_size st = length f" "src_prefix_size s = None"
  shows "normalise_source s = Inr s \<and> rd_cursor rd = cursor_of env s p st f \<and>
    (rd_appended rd, rd_appended_ordinals rd) = filter_analyzer_lines env s (complete_part f) 0"
proof -
  have n: "normalise_source s = Inr s" using assms(1)
    by (auto simp: read_source_def normalise_source_def bind_read_Inr split: sum.splits if_splits)
  have "finish_read env new_reader s p st f = Inr rd"
    using assms(1) n pread_whole [of 0 "length f" f] assms(2)
    by (simp add: read_source_def capture_of_def read_start_def new_reader_def bind_read_def require_stable_source_def require_def)
  then show ?thesis using n assms(3)
    by (auto simp: finish_read_def new_reader_def bind_read_Inr new_cursor_def Let_def cursor_of_def newline_count_def [of "[]"] split: prod.splits)
qed

lemma read_next:
  assumes "dict_get (sr_cursors r) (src_thread s) = Some (cursor_of env s p st f)" "\<not> sr_replay_required r" "normalise_source s = Inr s"
    "grows (f, st) ((f', st') # vs)"
  shows "\<exists>rd. read_source env r s (capture_of p (f', st')) = Inr rd \<and> rd_cursor rd = cursor_of env s p st' f' \<and>
    (rd_appended rd, rd_appended_ordinals rd) =
      filter_analyzer_lines env s (complete_part (incomplete_part f @ drop (length f) f')) (newline_count (complete_part f))"
proof -
  have g: "sr_size st = length f" "take (length f) f' = f" "sr_device st' = sr_device st" "sr_inode st' = sr_inode st"
    "length f' = length f \<longrightarrow> st' = st" "sr_size st' = length f'"
    using assms(4) grows_size [of "(f', st')" vs] by auto
  have len: "length f \<le> length f'" using g(2) by (metis length_take min.bounded_iff order_refl)
  have start: "append_start (cursor_of env s p st f) s p st' = Inr (length f)"
    using g len by (auto simp: append_start_def cursor_of_def authentication_def bind_read_def require_def Let_def)
  have f': "f' = f @ drop (length f) f'" using g(2) by (metis append_take_drop_id)
  have pread: "pread_exact (\<lambda>a k. take k (drop a f')) (length f) (length f' - length f) = Inr (drop (length f) f')"
    using pread_whole [of "length f" "length f' - length f" f'] len by simp
  show ?thesis
    using assms(1-3) start pread g(6) advance_cursor_of [of env s p st f st' "drop (length f) f'"] f'
    by (auto simp: read_source_def capture_of_def read_start_def finish_read_def bind_read_def require_stable_source_def require_def
        split: prod.splits)
qed

lemma accept_one: "accept_reads [rd] r = r\<lparr>sr_cursors := dict_set (src_thread (cu_source (rd_cursor rd))) (rd_cursor rd) (sr_cursors r),
    sr_replay_required := False\<rparr>"
  by (simp add: accept_reads_def)

lemma read_run_later:
  assumes "dict_get (sr_cursors r) (src_thread s) = Some (cursor_of env s p (snd v) (fst v))" "\<not> sr_replay_required r"
    "normalise_source s = Inr s" "grows v vs" "src_kind s = lit ''root'' \<or> cr_paired (fst (last (v # vs)))"
  shows "\<exists>content ordinals r'. read_run env s r (map (capture_of p) vs) = Inr ((content, ordinals), r') \<and>
    dict_get (sr_cursors r') (src_thread s) = Some (cursor_of env s p (snd (last (v # vs))) (fst (last (v # vs)))) \<and>
    filter_analyzer_lines env s (complete_part (fst (last (v # vs)))) 0 =
      (fst (filter_analyzer_lines env s (complete_part (fst v)) 0) @ content, snd (filter_analyzer_lines env s (complete_part (fst v)) 0) @ ordinals)"
  using assms
proof (induction vs arbitrary: v r)
  case Nil
  then show ?case by simp
next
  case (Cons v' vs)
  obtain f st f' st' where v: "v = (f, st)" "v' = (f', st')" by (cases v; cases v') auto
  let ?tail = "complete_part (incomplete_part f @ drop (length f) f')"
  have f': "f' = f @ drop (length f) f'" using Cons.prems(4) v by (metis append_take_drop_id fst_conv grows.simps(2))
  obtain rd where rd: "read_source env r s (capture_of p v') = Inr rd" "rd_cursor rd = cursor_of env s p st' f'"
    "(rd_appended rd, rd_appended_ordinals rd) = filter_analyzer_lines env s ?tail (newline_count (complete_part f))"
    using read_next [of r s env p st f f' st' vs] Cons.prems v by auto
  let ?r = "accept_reads [rd] r"
  have "dict_get (sr_cursors ?r) (src_thread s) = Some (cursor_of env s p (snd v') (fst v'))" "\<not> sr_replay_required ?r"
    using rd(2) v by (simp_all add: accept_one cursor_of_def)
  then obtain content ordinals r' where run: "read_run env s ?r (map (capture_of p) vs) = Inr ((content, ordinals), r')"
    "dict_get (sr_cursors r') (src_thread s) = Some (cursor_of env s p (snd (last (v' # vs))) (fst (last (v' # vs))))"
    "filter_analyzer_lines env s (complete_part (fst (last (v' # vs)))) 0 =
      (fst (filter_analyzer_lines env s (complete_part f') 0) @ content, snd (filter_analyzer_lines env s (complete_part f') 0) @ ordinals)"
    using Cons.IH [of ?r v'] Cons.prems v by auto
  have "src_kind s = lit ''root'' \<or> cr_paired (complete_part f @ ?tail)"
    using Cons.prems(4,5) v complete_grows(1) [of f "drop (length f) f'"] f' grows_cr_paired [of v' vs] by auto
  from filter_lines_append [OF this complete_part_ends, of env 0]
  have "filter_analyzer_lines env s (complete_part f') 0 =
     (fst (filter_analyzer_lines env s (complete_part f) 0) @ rd_appended rd, snd (filter_analyzer_lines env s (complete_part f) 0) @ rd_appended_ordinals rd)"
    using complete_grows(1) [of f "drop (length f) f'"] f' rd(3) by (simp add: prod_eq_iff)
  then show ?case using rd(1) run v by (simp add: bind_read_def)
qed

subsection \<open>Properties\<close>


text \<open>
  Property C7. A clean replay is accepted only when the file still has the identity of the cursor and still begins with the complete lines that
  were accepted, provided that no other content has their SHA-256; its accepted and its appended lines then make up the whole content, and the
  new cursor is the one of the file.
\<close>

theorem replay_detects_rewrite:
  assumes "dict_get (sr_cursors r) (src_thread s) = Some (cursor_of env s p st f)" "sr_replay_required r"
    "\<forall>x. rv_sha256 env x = rv_sha256 env (complete_part f) \<longrightarrow> x = complete_part f"
    "read_source env r s (capture_of p' (f', st')) = Inr rd" "sr_size st' = length f'"
  shows "p' = p \<and> sr_device st' = sr_device st \<and> sr_inode st' = sr_inode st \<and>
    take (length (complete_part f)) f' = complete_part f \<and>
    rd_cursor rd = cursor_of env s p st' f' \<and>
    (rd_accepted rd, rd_accepted_ordinals rd) = filter_analyzer_lines env s (complete_part f) 0 \<and>
    (src_kind s = lit ''root'' \<or> cr_paired f' \<longrightarrow>
      rd_content rd = rd_accepted rd @ rd_appended rd \<and> rd_ordinals rd = rd_accepted_ordinals rd @ rd_appended_ordinals rd)"
proof -
  let ?cu = "cursor_of env s p st f" and ?n = "length (complete_part f)"
  have n: "normalise_source s = Inr s" using assms(4)
    by (auto simp: read_source_def normalise_source_def bind_read_Inr split: sum.splits if_splits)
  obtain start rd0 where start: "append_start ?cu s p' st' = Inr start"
    and rd0: "new_cursor env s p' st' f' (Some (int ?n)) = Inr rd0" "require_accepted_prefix env ?cu f' = Inr ()" "rd = rd0\<lparr>rd_has_baseline := True\<rparr>"
    using assms(1,2,4,5) n pread_whole [of 0 "length f'" f']
    by (auto simp: read_source_def capture_of_def read_start_def finish_read_def bind_read_Inr cursor_of_def)
  have id: "p' = p \<and> sr_device st' = sr_device st \<and> sr_inode st' = sr_inode st"
    using start by (auto simp: append_start_def Let_def bind_read_Inr cursor_of_def authentication_def)
  have pre: "take ?n f' = complete_part f"
    using rd0(2) assms(3) by (auto simp: require_accepted_prefix_def bind_read_Inr cursor_of_def authentication_def)
  have outside: "?n \<le> length (complete_part f')" using rd0(1) by (auto simp: new_cursor_def Let_def bind_read_Inr)
  then have raw: "take ?n (complete_part f') = complete_part f"
    using pre complete_incomplete [of f'] by (metis take_append append_Nil2 diff_is_0_eq take_0)
  then have whole: "complete_part f' = complete_part f @ drop ?n (complete_part f')" by (metis append_take_drop_id)
  have fields: "rd_cursor rd = cursor_of env s p' st' f'"
    "(rd_content rd, rd_ordinals rd) = filter_analyzer_lines env s (complete_part f') 0"
    "(rd_accepted rd, rd_accepted_ordinals rd) = filter_analyzer_lines env s (complete_part f) 0"
    "(rd_appended rd, rd_appended_ordinals rd) = filter_analyzer_lines env s (drop ?n (complete_part f')) (newline_count (complete_part f))"
    using rd0(1,3) raw by (auto simp: new_cursor_def Let_def bind_read_Inr cursor_of_def split: prod.splits)
  have "rd_content rd = rd_accepted rd @ rd_appended rd \<and> rd_ordinals rd = rd_accepted_ordinals rd @ rd_appended_ordinals rd"
    if "src_kind s = lit ''root'' \<or> cr_paired f'"
  proof -
    have "src_kind s = lit ''root'' \<or> cr_paired (complete_part f @ drop ?n (complete_part f'))"
      using that cr_paired_complete [of f'] whole by metis
    from filter_lines_append [OF this complete_part_ends, of env 0] show ?thesis
      using fields(2) fields(3,4) [symmetric] unfolding whole [symmetric] by simp
  qed
  then show ?thesis using id pre fields(1,3) by simp
qed

text \<open>A sub-agent whose second record belongs to the history of its parent, captured in the middle of a record.\<close>

definition sample_env :: reader_env where
  "sample_env =
     \<lparr>rv_loads = (\<lambda>l. if l = [77, 10] then Some (JDict [(lit ''type'', JStr (lit ''session_meta'')), (lit ''payload'', JDict [(lit ''id'', JStr (uuid_text 1))])])
        else None), rv_sha256 = (\<lambda>x. x)\<rparr>"

definition sample_source :: append_source where
  "sample_source =
     \<lparr>src_path = lit ''/r'', src_thread = uuid_text 1, src_kind = lit ''subagent'', src_cutoff = Some 1, src_prefix_size = None,
      src_prefix_sha256 = None\<rparr>"

definition sample_stat :: "nat \<Rightarrow> stat_result" where
  "sample_stat n = \<lparr>sr_device = 1, sr_inode = 2, sr_size = n, sr_mtime = int n, sr_ctime = int n\<rparr>"

lemma sample_normal: "normalise_source sample_source = Inr sample_source"
proof -
  have "parse_codex_uuid ThreadUuid (uuid_text 1) = Inr 1" by (simp add: parse_codex_uuid_text)
  then show ?thesis by (simp add: normalise_source_def sample_source_def bind_read_def require_def)
qed

lemmas sample_simps = sample_env_def sample_source_def sample_stat_def capture_of_def complete_part_def incomplete_part_def
  filter_analyzer_lines_def keeps_line_def line_ordinal_def newline_count_def content_declares_thread_def enumerate_eq_zip

lemma sample_declares: "content_declares_thread sample_env [77, 10, 65, 10, 66, 10] (src_thread sample_source)"
  by (simp add: sample_simps jpath_def lit_def jfield_def)

lemma sample_first:
  "\<exists>rd. read_source sample_env new_reader sample_source (capture_of (lit ''/r'') ([77, 10, 65, 10, 66, 10, 67], sample_stat 7)) = Inr rd"
proof -
  have raw: "complete_part [77, 10, 65, 10, 66, 10, 67] = [77, 10, 65, 10, 66, 10]" by (simp add: complete_part_def)
  have kept: "filter_analyzer_lines sample_env sample_source [77, 10, 65, 10, 66, 10] 0 = ([77, 10, 66, 10], [0, 2])"
    by (simp add: sample_simps lit_def)
  have fields: "src_prefix_size sample_source = None" "src_prefix_sha256 sample_source = None"
    by (simp_all add: sample_source_def)
  show ?thesis
    unfolding read_source_def sample_normal
    by (simp add: capture_of_def bind_read_def read_start_def new_reader_def require_stable_source_def require_def sample_stat_def
        pread_exact.simps finish_read_def durable_prefix_ok_def new_cursor_def Let_def raw sample_declares kept fields newline_count_def filter_analyzer_lines_def [of _ _ "[]"])
qed


text \<open>A reader that accepted three records and must replay, and the file with a fourth.\<close>

definition sample_reader :: source_reader where
  "sample_reader =
     \<lparr>sr_cursors = [(uuid_text 1, cursor_of sample_env sample_source (lit ''/r'') (sample_stat 7) [77, 10, 65, 10, 66, 10, 67])],
      sr_replay_required = True\<rparr>"

lemma sample_replay:
  "\<exists>rd. read_source sample_env sample_reader sample_source
     (capture_of (lit ''/r'') ([77, 10, 65, 10, 66, 10, 67, 10], sample_stat 8)) = Inr rd"
proof -
  have raw: "complete_part [77, 10, 65, 10, 66, 10, 67, 10] = [77, 10, 65, 10, 66, 10, 67, 10]" by (simp add: complete_part_def)
  have kept: "filter_analyzer_lines sample_env sample_source [77, 10, 65, 10, 66, 10, 67, 10] 0 = ([77, 10, 66, 10, 67, 10], [0, 2, 3])"
    by (simp add: sample_simps lit_def)
  have declares: "content_declares_thread sample_env [77, 10, 65, 10, 66, 10, 67, 10] (src_thread sample_source)"
    by (simp add: sample_simps jpath_def lit_def jfield_def)
  have cursor: "dict_get (sr_cursors sample_reader) (src_thread sample_source) =
      Some (cursor_of sample_env sample_source (lit ''/r'') (sample_stat 7) [77, 10, 65, 10, 66, 10, 67])" "sr_replay_required sample_reader"
    by (simp_all add: sample_reader_def sample_source_def)
  have "append_start (cursor_of sample_env sample_source (lit ''/r'') (sample_stat 7) [77, 10, 65, 10, 66, 10, 67]) sample_source (lit ''/r'')
      (sample_stat 8) = Inr 7"
    by (simp add: append_start_def cursor_of_def authentication_def sample_stat_def bind_read_def require_def)
  moreover have "require_accepted_prefix sample_env (cursor_of sample_env sample_source (lit ''/r'') (sample_stat 7) [77, 10, 65, 10, 66, 10, 67])
      [77, 10, 65, 10, 66, 10, 67, 10] = Inr ()"
    by (simp add: require_accepted_prefix_def cursor_of_def authentication_def sample_env_def bind_read_def require_def complete_part_def)
  moreover have "cu_complete_size (cursor_of sample_env sample_source (lit ''/r'') (sample_stat 7) [77, 10, 65, 10, 66, 10, 67]) = 6"
    by (simp add: cursor_of_def complete_part_def)
  ultimately show ?thesis
    unfolding read_source_def sample_normal
    by (simp add: capture_of_def bind_read_def read_start_def cursor require_stable_source_def require_def
        pread_exact.simps finish_read_def new_cursor_def Let_def raw declares kept split: prod.splits) 
      (auto simp: sample_stat_def pread_exact.simps raw declares kept newline_count_def)
qed

theorem replay_detects_rewrite_witness:
  "\<exists>rd. read_source sample_env sample_reader sample_source
      (capture_of (lit ''/r'') ([77, 10, 65, 10, 66, 10, 67, 10], sample_stat 8)) = Inr rd \<and>
    (rd_accepted rd, rd_accepted_ordinals rd) = ([77, 10, 66, 10], [0, 2])"
proof -
  obtain rd where rd: "read_source sample_env sample_reader sample_source
      (capture_of (lit ''/r'') ([77, 10, 65, 10, 66, 10, 67, 10], sample_stat 8)) = Inr rd"
    using sample_replay by blast
  have "dict_get (sr_cursors sample_reader) (src_thread sample_source) =
      Some (cursor_of sample_env sample_source (lit ''/r'') (sample_stat 7) [77, 10, 65, 10, 66, 10, 67])" "sr_replay_required sample_reader"
    by (simp_all add: sample_reader_def sample_source_def)
  then have "(rd_accepted rd, rd_accepted_ordinals rd) =
      filter_analyzer_lines sample_env sample_source (complete_part [77, 10, 65, 10, 66, 10, 67]) 0"
    using replay_detects_rewrite [OF _ _ _ rd] by (simp add: sample_env_def sample_stat_def)
  moreover have "filter_analyzer_lines sample_env sample_source (complete_part [77, 10, 65, 10, 66, 10, 67]) 0 = ([77, 10, 66, 10], [0, 2])"
    by (simp add: sample_simps lit_def)
  ultimately show ?thesis using rd by simp
qed

text \<open>
  The ordinals of a sub-agent count lines that end at a bare carriage return, the cursor counts line feeds: the same line has one ordinal
  when it is appended and another when the file is replayed.
\<close>

lemma bare_return_shifts_ordinals:
  "filter_analyzer_lines sample_env sample_source [65, 13, 66, 10, 67, 10] 0 = ([65, 13, 67, 10], [0, 2])"
  "newline_count [65, 13, 66, 10] = 1"
  "filter_analyzer_lines sample_env sample_source [67, 10] (newline_count [65, 13, 66, 10]) = ([], [])"
  by (simp_all add: sample_simps lit_def)

end
