(* ===== verification/Spec2Isabelle.thy ===== *)
theory Spec2Isabelle
  imports Application_Pipeline Primary_Binding Rollout_Lifecycle Connection_Lifecycle Prompt_Expansion
    Overload_Recovery Context_Steering Cool_Names Input_Interceptor
    Session_Tail Coordinator_Safety Analyzer_Adapter Presentation_Policy Search_Policy Source_Reader
begin

text \<open>
  Verification of Rodex, a manager of Codex sessions that run inside tmux. Rodex is one Python
  program: a command line that decides whether an invocation belongs to Rodex or to native Codex,
  a daemon that proxies the Codex app-server protocol and adds controllers to it, and terminal
  front ends for the user. All paths below are under \<^verbatim>\<open>src/src/\<close>.

  \<^bold>\<open>Parts and their theories.\<close>

  \<^item> \<open>Prelude\<close>: Python strings as code points, insertion-ordered dictionaries, state with
    exceptions (\<open>action\<close>, \<open>wp\<close>), and the interfaces \<open>event_machine\<close> and \<open>ordered_machine\<close>.
    \<open>Protocol_Values\<close>: decoded JSON with the accessors the program uses. \<open>Text_Codec\<close>: UTF-8 and its inverse.
  \<^item> Command line. \<open>Codex_Cli\<close> models \<^verbatim>\<open>codex_cli_contract/contract.py\<close> and the option table
    \<^verbatim>\<open>v0_151_0.py\<close>; its specification is the grammar \<open>interactive_args\<close>, an inductive predicate without
    indices or early returns. \<open>Command_Contract\<close> models \<^verbatim>\<open>rodex/command_contract.py\<close>: command tables, help,
    and the machine grammar. \<open>Application_Pipeline\<close> models \<^verbatim>\<open>rodex/application_pipeline.py\<close>: selection,
    preparation and execution, with every call of a collaborator in a trace.
  \<^item> Connection. \<open>Primary_Binding\<close> (\<^verbatim>\<open>rodex/primary_thread_binding.py\<close>) selects the main thread of a
    connection from requests and their acknowledgements, \<open>Rollout_Lifecycle\<close>
    (\<^verbatim>\<open>rodex/rollout_turn_lifecycle.py\<close>) admits rollout records and tracks turns, and \<open>Connection_Lifecycle\<close>
    (\<^verbatim>\<open>rodex/primary_connection_lifecycle.py\<close>) resets the participants of an epoch after a disconnect.
  \<^item> Input. \<open>Protocol_Input_Text\<close> (\<^verbatim>\<open>rodex/protocol_input_text.py\<close>) edits submitted text and rebases its
    elements, \<open>Prompt_Expansion\<close> (\<^verbatim>\<open>rodex/prompt_expansion_display.py\<close>) shows what was changed, and
    \<open>Interaction_Pipeline\<close> (\<^verbatim>\<open>rodex/interaction_pipeline.py\<close>) is the one path every interaction takes:
    resolve, hooks, re-check, deliver, record.
  \<^item> Automatic turns. \<open>Fenced_Dispatch\<close> is the interface of a controller that schedules one attempt at a
    time and has it admitted by the pipeline. \<open>Overload_Recovery\<close>
    (\<^verbatim>\<open>rodex/server_overloaded_recovery.py\<close>) and \<open>Context_Steering\<close>
    (\<^verbatim>\<open>rodex/context_threshold_steering.py\<close>) are its two instances.
  \<^item> Names. \<open>Lookup_Table\<close> (\<^verbatim>\<open>rodex_sql/lookups.py\<close>) and \<open>Cool_Names\<close> (\<^verbatim>\<open>cool_name/functions.py\<close>).
  \<^item> Terminal. \<open>Terminal_Input\<close> is the byte decoder of \<^verbatim>\<open>rodex/terminal_input.py\<close>, \<open>Input_Menu\<close> the menu of
    \<^verbatim>\<open>rodex/input_menu.py\<close> with its configuration \<^verbatim>\<open>rodex/input_interceptor_config.py\<close>, and
    \<open>Input_Interceptor\<close> the interceptor that runs both and calls the pipeline.
  \<^item> Following a session. \<open>Prefix_Function\<close> holds the linear searches of \<^verbatim>\<open>rodex/session_tail.py\<close> and
    \<open>Session_Tail\<close> its request grammar, cursor and polling loop.
  \<^item> Observer. \<open>Observer_State\<close>, \<open>Observer_Correlation\<close> and \<open>Observer_Safety\<close> model
    \<^verbatim>\<open>rodex/observer_state.py\<close>: the bounded snapshots of a producer, its correlation tables, and the
    consumer that replays snapshots. \<open>Observer_Projection\<close> (\<^verbatim>\<open>rodex/observer_projection.py\<close>) bounds the
    events it is given, \<open>Observer_Coordinator\<close> is \<open>AgentObserverCoordinator\<close> of \<^verbatim>\<open>rodex/agent_observer.py\<close>, which
    drives the producer and the observer pane, and \<open>Coordinator_Safety\<close> holds its proofs over the facts about
    the producer in \<open>Observer_Facts\<close>.
  \<^item> Analytics. \<open>Source_Reader\<close> (\<^verbatim>\<open>rodex/analytics_source_reader.py\<close>) reads growing rollout files
    incrementally. \<open>Token_Accounting\<close>, \<open>Order_Statistics\<close>, \<open>Statistics_Index\<close> and \<open>Analyzer_Adapter\<close> model
    \<^verbatim>\<open>rodex/analytics_analyzer.py\<close>: the record adapters, the statistics treap, the incremental projection index
    and the stateful adapter around the resident analyzer.
  \<^item> Identities. \<open>Identity_Codec\<close> holds the conversions of \<^verbatim>\<open>rodex_registry/identity.py\<close>.
  \<^item> Presentation. \<open>Presentation_Policy\<close> (\<^verbatim>\<open>rodex/presentation_policy.py\<close>) retains and filters what surfaces show.
  \<^item> Search commands. \<open>Shell_Lexer\<close>, \<open>Search_Arguments\<close>, \<open>Search_Extraction\<close> and \<open>Search_Policy\<close> model
    \<^verbatim>\<open>rodex/pre_tool_use_customer_library/find_rg.py\<close>: the shell reader, the argument grammars of find, rg and
    their consumers, the extraction of search workflows from shell text, and the policy with its census.

  \<^bold>\<open>State and effects.\<close> An object is a record and a method a function on it; a method that may raise is an
  \<open>action\<close>, whose result is the state it leaves and either the exception or the value, so that what a
  failed operation already changed is part of the model. Where the code takes a lock, one critical
  section is one step and a schedule is a list of steps, so a theorem about all lists is one about
  all interleavings. Timers, sockets, captures, clocks and callbacks of other parts are arguments,
  and what they may do is as free as the code allows: hooks and observers of the interaction
  pipeline change the whole state and raise anything.

  \<^bold>\<open>Interfaces.\<close> Each locale is interpreted on the model's own definitions, in the theory that
  provides them: \<open>event_machine\<close> and \<open>ordered_machine\<close> for the stateful components, \<open>Fenced_Dispatch\<close> for the
  two controllers, \<open>Lookup_Table\<close> for the rows of the name table, \<open>snapshot_publisher\<close> of
  \<open>Observer_State\<close> for the producer in \<open>Observer_Safety\<close>, and \<open>value_multiset\<close> of \<open>Order_Statistics\<close> for the
  treap, whose laws the projection index uses.

  \<^bold>\<open>What the lemmas show.\<close> The command line routes exactly the interactive grammar, hands native Codex
  its own arguments and fails no assertion. A connection has at most one main thread. An interaction
  is delivered only after target, binding and thread were checked again, and hooks change only text.
  Controllers dispatch at most once per attempt and per threshold crossing, with full authority.
  Terminal bytes are neither lost nor invented nor framed differently when reads are split, and the
  interceptor forwards only what it was given. The searches of the tail agree with their direct
  definitions, committed lines are printed exactly once, and visible output settles, not early. The
  observer producer stays within every bound for every sequence of calls, its snapshots parse back
  to its state, and a consumer that loses snapshots still shows a published state. The observer
  coordinator fails no assertion and meets no reducer error along any calls, ignores every other
  connection than its own, and its pane follows the running agents. Reading a rollout in pieces, refreshing
  the statistics in steps and feeding the analyzer in chunks give what one pass over the whole gives, and a
  batch that was not accepted can be repeated. Surfaces miss no change of what they show. A shell text that
  the search policy allows runs only admitted searches over inputs whose census stayed within the budget.

  \<^bold>\<open>Loops and bounds.\<close> No definition has fuel. Loops are structural recursion or functions with a
  termination measure; the fall-back loops of the prefix table, which terminate only for a correct table, are
  \<open>partial_function (option)\<close> and \<open>searches_correct\<close> proves that they return. Numeric limits are the
  constants of the source. Floats are exact rationals, with infinities and NaN where the code tests
  for them.

  \<^bold>\<open>Parameters.\<close> MD5 and SHA digests, the random generator, the JSON codec, the length of a JSON encoding,
  \<^verbatim>\<open>float()\<close> of a string, \<^verbatim>\<open>str()\<close> of a float or a container, \<^verbatim>\<open>shlex.split\<close>, the file system and its
  positioned reads, the clock, the resident analyzer of the third-party package, and the pane, cursor and turn
  readers of the observer coordinator are arguments; the theorems hold for all of them, or name the laws they
  need.

  \<^bold>\<open>Not modelled.\<close> The registry database and its statistics (SQL text that SQLite executes), the processes,
  sockets and threads of the daemon, proxy, runtime and tmux integration, the transport and rendering of the
  observer, terminal rendering on a third-party screen emulator, the scheduling of analytics scans, agent
  traces, exact turn mutation and machine commands (requests over the control socket), status formatting and
  animation timing, and policy files with hooks that run as child processes. Of the session lifecycle only the
  values the application pipeline reads are modelled.
\<close>

end
